(* ===== verification/Mimi_Prelude.thy ===== *)
theory Mimi_Prelude
  imports Main "HOL-Library.Word" "HOL-Library.List_Lexorder" "HOL-Library.Char_ord"
begin

text \<open>
  What the component theories share: names for the machine integers and for Rust's
  \<open>Result\<close>, the \<open>Vec\<close> operations the code uses as a stack, the checked and saturating
  integer operations, decimal printing, the rule collections, and two interfaces stated as
  locales: a state machine with an invariant, and a table of generational identifiers.
\<close>

unbundle bit_operations_syntax

section \<open>Rule collections\<close>

named_theorems result_simps \<open>unfolding rules for results and checked arithmetic\<close>
named_theorems vec_simps \<open>rules for the list model of Vec\<close>
named_theorems inv_intros \<open>invariant preservation rules\<close>

section \<open>Machine integers\<close>

type_synonym u8 = "8 word"
type_synonym u16 = "16 word"
type_synonym u32 = "32 word"
type_synonym u64 = "64 word"
type_synonym i64 = "64 word"

text \<open>Rust's \<open>checked_add\<close> and \<open>saturating_add\<close> on an unsigned integer of any width.\<close>

definition checked_add :: "'a::len word \<Rightarrow> 'a word \<Rightarrow> 'a word option" where
  "checked_add a b = (if unat a + unat b < 2 ^ LENGTH('a) then Some (a + b) else None)"

definition saturating_add :: "'a::len word \<Rightarrow> 'a word \<Rightarrow> 'a word" where
  "saturating_add a b = (if unat a + unat b < 2 ^ LENGTH('a) then a + b else - 1)"

lemma checked_add_Some:
  "checked_add a b = Some c \<Longrightarrow> unat c = unat a + unat b"
  by (auto simp: checked_add_def unat_word_ariths split: if_splits)

lemma checked_add_one_Some:
  fixes a :: "'a::len word"
  assumes "2 \<le> LENGTH('a)" and "checked_add a 1 = Some c"
  shows "unat c = Suc (unat a)"
proof -
  have "unat (1::'a word) = 1" by simp
  then show ?thesis using checked_add_Some [OF assms(2)] by simp
qed

lemma checked_add_one_None:
  fixes a :: "'a::len word"
  shows "checked_add a 1 = None \<longleftrightarrow> unat a = 2 ^ LENGTH('a) - 1"
proof -
  have "unat a < 2 ^ LENGTH('a)" by (rule unsigned_less)
  moreover have "checked_add a 1 = None \<longleftrightarrow> \<not> unat a + 1 < 2 ^ LENGTH('a)"
    by (simp add: checked_add_def)
  ultimately show ?thesis by linarith
qed

section \<open>Results\<close>

text \<open>Rust's \<open>Result<T, E>\<close> is the sum \<open>'e + 'a\<close>; \<open>Ok\<close> is the right injection.\<close>

abbreviation Ok :: "'a \<Rightarrow> 'e + 'a" where "Ok \<equiv> Inr"
abbreviation Err :: "'e \<Rightarrow> 'e + 'a" where "Err \<equiv> Inl"

definition is_ok :: "'e + 'a \<Rightarrow> bool" where
  "is_ok r = (case r of Ok _ \<Rightarrow> True | Err _ \<Rightarrow> False)"

lemma is_ok_simps [simp]: "is_ok (Ok x)" "\<not> is_ok (Err e)"
  by (simp_all add: is_ok_def)

lemma is_ok_iff: "is_ok r \<longleftrightarrow> (\<exists>x. r = Ok x)"
  by (cases r) auto

text \<open>One conditional diagnostic of an accumulating validator.\<close>

lemma if_error_Nil [result_simps]: "((if c then [x] else []) = []) = (\<not> c)"
  by simp

lemma verdict_Ok [result_simps]: "((if e = [] then Ok x else Err e) = Ok y) = (e = [] \<and> x = y)"
  by simp

lemma option_eqI: "(\<And>x. a = Some x \<longleftrightarrow> b = Some x) \<Longrightarrow> a = b"
  by (cases a; cases b) auto

section \<open>Vec as a stack\<close>

text \<open>\<open>Vec::push\<close> appends, \<open>Vec::pop\<close> takes the last element.\<close>

definition vec_push :: "'a list \<Rightarrow> 'a \<Rightarrow> 'a list" where
  "vec_push xs x = xs @ [x]"

definition vec_pop :: "'a list \<Rightarrow> ('a \<times> 'a list) option" where
  "vec_pop xs = (if xs = [] then None else Some (last xs, butlast xs))"

lemma vec_pop_None [vec_simps]: "vec_pop xs = None \<longleftrightarrow> xs = []"
  by (simp add: vec_pop_def)

lemma vec_pop_Some [vec_simps]: "vec_pop xs = Some (x, ys) \<longleftrightarrow> xs = ys @ [x]"
  by (cases xs rule: rev_cases) (auto simp: vec_pop_def)

lemma set_vec_push [vec_simps]: "set (vec_push xs x) = insert x (set xs)"
  by (simp add: vec_push_def)

lemma distinct_vec_push [vec_simps]: "distinct (vec_push xs x) \<longleftrightarrow> x \<notin> set xs \<and> distinct xs"
  by (auto simp: vec_push_def)

text \<open>\<open>iter().position(..)\<close>: the index of the first element that satisfies the test.\<close>

fun position :: "('a \<Rightarrow> bool) \<Rightarrow> 'a list \<Rightarrow> nat option" where
  "position P [] = None"
| "position P (x # xs) = (if P x then Some 0 else map_option Suc (position P xs))"

lemma position_Some:
  "position P xs = Some i \<Longrightarrow> i < length xs \<and> P (xs ! i) \<and> (\<forall>j < i. \<not> P (xs ! j))"
proof (induction xs arbitrary: i)
  case (Cons x xs)
  then show ?case by (cases i) (auto simp: less_Suc_eq_0_disj split: if_splits)
qed simp

lemma position_None: "position P xs = None \<longleftrightarrow> (\<forall>x \<in> set xs. \<not> P x)"
  by (induction xs) auto

section \<open>Decimal printing of integers\<close>

fun show_nat :: "nat \<Rightarrow> string" where
  "show_nat n =
     (if n < 10 then [char_of (48 + n)] else show_nat (n div 10) @ [char_of (48 + n mod 10)])"

declare show_nat.simps [simp del]

definition show_int :: "int \<Rightarrow> string" where
  "show_int i = (if i < 0 then ''-'' @ show_nat (nat (- i)) else show_nat (nat i))"

text \<open>A string between apostrophes, as the messages print names.\<close>

definition quoted :: "string \<Rightarrow> string" where
  "quoted s = CHR 0x27 # s @ [CHR 0x27]"

text \<open>\<open>join\<close> of a slice of strings.\<close>

fun join_with :: "string \<Rightarrow> string list \<Rightarrow> string" where
  "join_with sep [] = []"
| "join_with sep [x] = x"
| "join_with sep (x # xs) = x @ sep @ join_with sep xs"

section \<open>A machine with an invariant\<close>

text \<open>
  The contract of a component whose operations are a function of the state: an invariant that
  the start satisfies and every operation keeps. A run is the fold of the step function over a
  list of operations.
\<close>

locale machine =
  fixes step :: "'s \<Rightarrow> 'op \<Rightarrow> 's"
    and inv :: "'s \<Rightarrow> bool"
  assumes step_inv: "inv s \<Longrightarrow> inv (step s c)"
begin

lemma run_inv: "inv s \<Longrightarrow> inv (foldl step s cs)"
  by (induction cs arbitrary: s) (auto intro: step_inv)

lemma run_stable:
  assumes stable: "\<And>s c. inv s \<Longrightarrow> Q s \<Longrightarrow> Q (step s c)"
    and "inv s" and "Q s"
  shows "Q (foldl step s cs)"
  using assms(2,3) by (induction cs arbitrary: s) (auto intro: stable step_inv)

end

text \<open>
  A table of generational identifiers: an identifier is live in a state or not, and it may be
  spent, which no operation undoes and which rules out being live. The conclusion is the
  absence of the ABA problem: a spent identifier is dead after every run.
\<close>

locale generational = machine step inv
  for step :: "'s \<Rightarrow> 'op \<Rightarrow> 's" and inv :: "'s \<Rightarrow> bool" +
  fixes live :: "'s \<Rightarrow> 'h \<Rightarrow> bool"
    and spent :: "'s \<Rightarrow> 'h \<Rightarrow> bool"
  assumes spent_not_live: "inv s \<Longrightarrow> spent s h \<Longrightarrow> \<not> live s h"
    and step_spent: "inv s \<Longrightarrow> spent s h \<Longrightarrow> spent (step s c) h"
begin

lemma run_spent: "inv s \<Longrightarrow> spent s h \<Longrightarrow> spent (foldl step s cs) h"
  by (rule run_stable) (auto intro: step_spent)

lemma spent_dead_forever:
  assumes "inv s" and "spent s h"
  shows "\<not> live (foldl step s cs) h"
  using run_inv [OF assms(1)] run_spent [OF assms] by (rule spent_not_live)

end

end
