(* ===== verification/Mimi_CompHandle.thy ===== *)
theory Mimi_CompHandle
  imports Mimi_Prelude
begin

text \<open>
  The nominal generational handles of the component boundary, \<open>src/component/handle.rs\<close>:
  the handle with its 64-bit wire packing, the slot table with its free list, and the
  registry's operations under its lock. A poisoned lock is a flag of the registry; the one place
  where an operation indexes the slab without a check, the free-list branch of \<open>acquire\<close>,
  is modelled with its panic, which poisons the lock.
\<close>

section \<open>Data\<close>

datatype HandleKind = KList | KMap | KSet | KBuffer | KTask | KSubscription | KForeign

fun kind_tag :: "HandleKind \<Rightarrow> u8" where
  "kind_tag KList = 1"
| "kind_tag KMap = 2"
| "kind_tag KSet = 3"
| "kind_tag KBuffer = 4"
| "kind_tag KTask = 5"
| "kind_tag KSubscription = 6"
| "kind_tag KForeign = 7"

datatype RuntimeId = Interp | Native

fun runtime_tag :: "RuntimeId \<Rightarrow> u8" where
  "runtime_tag Interp = 1"
| "runtime_tag Native = 2"

record Handle =
  h_kind :: HandleKind
  h_runtime :: RuntimeId
  h_index :: u32
  h_generation :: u32

definition MAX_WIRE_GENERATION :: u32 where
  "MAX_WIRE_GENERATION = 0xFFFF"

datatype HandleError =
    UnknownSlot
  | StaleGeneration u32 u32
  | WrongKind HandleKind HandleKind
  | WrongRuntime RuntimeId RuntimeId
  | LeasesOutstanding u32
  | NoLease
  | Poisoned
  | RegistryFull
  | LeaseOverflow
  | GenerationWrap
  | GenerationNotWireEncodable u32

record Slot =
  s_kind :: "HandleKind option"
  s_runtime :: RuntimeId
  s_generation :: u32
  s_leases :: u32

text \<open>The registry with the contents of its mutex; \<open>reg_poisoned\<close> is the lock's poison flag.\<close>

record Registry =
  reg_runtime :: RuntimeId
  reg_slots :: "Slot list"
  reg_free :: "u32 list"
  reg_poisoned :: bool

section \<open>Wire packing\<close>

definition handle_to_u64 :: "Handle \<Rightarrow> HandleError + u64" where
  "handle_to_u64 h =
     (if h_generation h > MAX_WIRE_GENERATION
      then Err (GenerationNotWireEncodable (h_generation h))
      else Ok (push_bit 56 (ucast (kind_tag (h_kind h)))
            OR push_bit 48 (ucast (runtime_tag (h_runtime h)))
            OR push_bit 32 (ucast (h_generation h))
            OR ucast (h_index h)))"

definition kind_of_tag :: "u8 \<Rightarrow> HandleKind option" where
  "kind_of_tag t =
     (if t = 1 then Some KList else if t = 2 then Some KMap else if t = 3 then Some KSet
      else if t = 4 then Some KBuffer else if t = 5 then Some KTask
      else if t = 6 then Some KSubscription else if t = 7 then Some KForeign else None)"

definition runtime_of_tag :: "u8 \<Rightarrow> RuntimeId option" where
  "runtime_of_tag t = (if t = 1 then Some Interp else if t = 2 then Some Native else None)"

definition handle_from_u64 :: "u64 \<Rightarrow> Handle option" where
  "handle_from_u64 packed =
     (let kind_t = ucast (drop_bit 56 packed) :: u8;
          runtime_t = ucast (drop_bit 48 packed AND 0xFF) :: u8;
          generation = ucast (drop_bit 32 packed AND 0xFFFF) :: u32;
          index = ucast (packed AND 0xFFFFFFFF) :: u32
      in case kind_of_tag kind_t of
           None \<Rightarrow> None
         | Some kind \<Rightarrow>
             (case runtime_of_tag runtime_t of
                None \<Rightarrow> None
              | Some runtime \<Rightarrow>
                  Some \<lparr>h_kind = kind, h_runtime = runtime, h_index = index,
                        h_generation = generation\<rparr>))"

section \<open>Registry operations\<close>

definition registry_new :: "RuntimeId \<Rightarrow> Registry" where
  "registry_new rt = \<lparr>reg_runtime = rt, reg_slots = [], reg_free = [], reg_poisoned = False\<rparr>"

text \<open>\<open>acquire\<close>: \<open>None\<close> as the result is the panic of an out-of-range free index.\<close>

definition handle_acquire ::
    "Registry \<Rightarrow> HandleKind \<Rightarrow> (HandleError + Handle) option \<times> Registry" where
  "handle_acquire r kind =
     (if reg_poisoned r then (Some (Err Poisoned), r) else
      case vec_pop (reg_free r) of
        Some (index, free') \<Rightarrow>
          (if unat index < length (reg_slots r) then
             (let slot = reg_slots r ! unat index;
                  slot' = slot\<lparr>s_kind := Some kind, s_runtime := reg_runtime r, s_leases := 1\<rparr>
              in (Some (Ok \<lparr>h_kind = kind, h_runtime = reg_runtime r, h_index = index,
                            h_generation = s_generation slot\<rparr>),
                  r\<lparr>reg_slots := (reg_slots r)[unat index := slot'], reg_free := free'\<rparr>))
           else (None, r\<lparr>reg_free := free', reg_poisoned := True\<rparr>))
      | None \<Rightarrow>
          (if length (reg_slots r) < 2 ^ 32 then
             (let index = word_of_nat (length (reg_slots r)) :: u32;
                  slot = \<lparr>s_kind = Some kind, s_runtime = reg_runtime r, s_generation = 0,
                          s_leases = 1\<rparr>
              in (Some (Ok \<lparr>h_kind = kind, h_runtime = reg_runtime r, h_index = index,
                            h_generation = 0\<rparr>),
                  r\<lparr>reg_slots := vec_push (reg_slots r) slot\<rparr>))
           else (Some (Err RegistryFull), r)))"

definition handle_resolve :: "Registry \<Rightarrow> Handle \<Rightarrow> HandleError + Slot" where
  "handle_resolve r h =
     (if \<not> unat (h_index h) < length (reg_slots r) then Err UnknownSlot else
      let slot = reg_slots r ! unat (h_index h) in
      case s_kind slot of
        None \<Rightarrow> Err UnknownSlot
      | Some kind \<Rightarrow>
          if s_generation slot \<noteq> h_generation h
          then Err (StaleGeneration (s_generation slot) (h_generation h))
          else if kind \<noteq> h_kind h then Err (WrongKind kind (h_kind h))
          else if s_runtime slot \<noteq> h_runtime h
          then Err (WrongRuntime (s_runtime slot) (h_runtime h))
          else Ok slot)"

definition set_slot :: "Registry \<Rightarrow> u32 \<Rightarrow> Slot \<Rightarrow> Registry" where
  "set_slot r index slot = r\<lparr>reg_slots := (reg_slots r)[unat index := slot]\<rparr>"

definition handle_lease :: "Registry \<Rightarrow> Handle \<Rightarrow> (HandleError + unit) \<times> Registry" where
  "handle_lease r h =
     (if reg_poisoned r then (Err Poisoned, r) else
      case handle_resolve r h of
        Err e \<Rightarrow> (Err e, r)
      | Ok slot \<Rightarrow>
          (case checked_add (s_leases slot) 1 of
             None \<Rightarrow> (Err LeaseOverflow, r)
           | Some n \<Rightarrow> (Ok (), set_slot r (h_index h) (slot\<lparr>s_leases := n\<rparr>))))"

definition handle_release_lease :: "Registry \<Rightarrow> Handle \<Rightarrow> (HandleError + u32) \<times> Registry" where
  "handle_release_lease r h =
     (if reg_poisoned r then (Err Poisoned, r) else
      case handle_resolve r h of
        Err e \<Rightarrow> (Err e, r)
      | Ok slot \<Rightarrow>
          if s_leases slot = 0 then (Err NoLease, r)
          else (let n = s_leases slot - 1
                in (Ok n, set_slot r (h_index h) (slot\<lparr>s_leases := n\<rparr>))))"

definition handle_lease_count :: "Registry \<Rightarrow> Handle \<Rightarrow> HandleError + u32" where
  "handle_lease_count r h =
     (if reg_poisoned r then Err Poisoned else
      case handle_resolve r h of Err e \<Rightarrow> Err e | Ok slot \<Rightarrow> Ok (s_leases slot))"

definition handle_is_live :: "Registry \<Rightarrow> Handle \<Rightarrow> bool" where
  "handle_is_live r h = (\<not> reg_poisoned r \<and> is_ok (handle_resolve r h))"

text \<open>
  \<open>destroy\<close> clears the slot's kind before it bumps the generation, so a generation that would
  wrap leaves the slot dead and off the free list.
\<close>

definition handle_destroy :: "Registry \<Rightarrow> Handle \<Rightarrow> (HandleError + unit) \<times> Registry" where
  "handle_destroy r h =
     (if reg_poisoned r then (Err Poisoned, r) else
      case handle_resolve r h of
        Err e \<Rightarrow> (Err e, r)
      | Ok slot \<Rightarrow>
          if s_leases slot \<noteq> 0 then (Err (LeasesOutstanding (s_leases slot)), r)
          else (let slot1 = slot\<lparr>s_kind := None\<rparr> in
                case checked_add (s_generation slot) 1 of
                  None \<Rightarrow> (Err GenerationWrap, set_slot r (h_index h) slot1)
                | Some g \<Rightarrow>
                    (Ok (), (set_slot r (h_index h) (slot1\<lparr>s_generation := g\<rparr>))
                              \<lparr>reg_free := vec_push (reg_free r) (h_index h)\<rparr>)))"

definition handle_live_count :: "Registry \<Rightarrow> nat" where
  "handle_live_count r =
     (if reg_poisoned r then 0
      else length (filter (\<lambda>s. s_kind s \<noteq> None) (reg_slots r)))"

section \<open>Packing round trip\<close>

lemma kind_of_tag_iff: "kind_of_tag t = Some k \<longleftrightarrow> t = kind_tag k"
  by (cases k) (auto simp: kind_of_tag_def)

lemma runtime_of_tag_iff: "runtime_of_tag t = Some rt \<longleftrightarrow> t = runtime_tag rt"
  by (cases rt) (auto simp: runtime_of_tag_def)

lemma wire_masks:
  "(0xFF :: u64) = mask 8" "(0xFFFF :: u64) = mask 16" "(0xFFFFFFFF :: u64) = mask 32"
  by (simp_all add: mask_eq_exp_minus_1)

lemma wire_generation_bits:
  assumes "g \<le> MAX_WIRE_GENERATION" shows "bit g n \<Longrightarrow> n < 16"
proof -
  have "take_bit 16 g = g"
  proof (rule word_unat_eq_iff [THEN iffD2])
    have "unat g < 2 ^ 16"
      using assms by (simp add: MAX_WIRE_GENERATION_def word_le_nat_alt)
    then show "unat (take_bit 16 g) = unat g"
      by (simp only: unsigned_take_bit_eq take_bit_nat_eq_self)
  qed
  then show "bit g n \<Longrightarrow> n < 16" by (metis bit_take_bit_iff)
qed

text \<open>The four fields of a packed word, read back.\<close>

lemma packed_fields:
  fixes k r :: u8 and g i :: u32
  assumes g: "g \<le> MAX_WIRE_GENERATION"
  defines "p \<equiv> push_bit 56 (ucast k) OR push_bit 48 (ucast r) OR push_bit 32 (ucast g)
               OR ucast i :: u64"
  shows "ucast (drop_bit 56 p) = k" "ucast (drop_bit 48 p AND 0xFF) = r"
    "ucast (drop_bit 32 p AND 0xFFFF) = g" "ucast (p AND 0xFFFFFFFF) = i"
proof -
  note gb = wire_generation_bits [OF g]
  show "ucast (drop_bit 56 p) = k" "ucast (drop_bit 48 p AND 0xFF) = r"
    "ucast (p AND 0xFFFFFFFF) = i"
    unfolding p_def wire_masks
    by (rule bit_word_eqI; auto simp: bit_simps dest: gb bit_imp_le_length)+
  show "ucast (drop_bit 32 p AND 0xFFFF) = g"
    unfolding p_def wire_masks
    by (rule bit_word_eqI) (auto simp: bit_simps dest: gb bit_imp_le_length)
qed

lemma packed_unique:
  "p = push_bit 56 (ucast (ucast (drop_bit 56 p) :: u8))
       OR push_bit 48 (ucast (ucast (drop_bit 48 p AND 0xFF) :: u8))
       OR push_bit 32 (ucast (ucast (drop_bit 32 p AND 0xFFFF) :: u32))
       OR ucast (ucast (p AND 0xFFFFFFFF) :: u32)" for p :: u64
  unfolding wire_masks
proof (rule bit_word_eqI, goal_cases)
  case (1 n)
  then show ?case
    by (cases "56 \<le> n"; cases "48 \<le> n") (auto simp: bit_simps)
qed

text \<open>Packing and unpacking are inverse to each other, in both directions.\<close>

lemma handle_from_to_u64: "handle_to_u64 h = Ok p \<Longrightarrow> handle_from_u64 p = Some h"
proof -
  assume "handle_to_u64 h = Ok p"
  then have g: "h_generation h \<le> MAX_WIRE_GENERATION"
    and p: "p = push_bit 56 (ucast (kind_tag (h_kind h)))
              OR push_bit 48 (ucast (runtime_tag (h_runtime h)))
              OR push_bit 32 (ucast (h_generation h)) OR ucast (h_index h)"
    by (auto simp: handle_to_u64_def split: if_splits)
  note fields = packed_fields [OF g, where k = "kind_tag (h_kind h)"
      and r = "runtime_tag (h_runtime h)" and i = "h_index h", folded p]
  show ?thesis
    by (simp add: handle_from_u64_def Let_def fields kind_of_tag_iff [THEN iffD2, OF refl]
        runtime_of_tag_iff [THEN iffD2, OF refl])
qed

lemma handle_from_u64_generation:
  assumes "handle_from_u64 p = Some h" shows "h_generation h \<le> MAX_WIRE_GENERATION"
proof -
  have "unat (drop_bit 32 p AND 0xFFFF) \<le> unat (0xFFFF :: u64)"
    by (rule word_and_le1 [THEN word_le_nat_alt [THEN iffD1]])
  then have "unat (drop_bit 32 p AND 0xFFFF) \<le> 0xFFFF" by simp
  moreover then have "unat (ucast (drop_bit 32 p AND 0xFFFF :: u64) :: u32)
      = unat (drop_bit 32 p AND 0xFFFF)"
    by (simp only: unsigned_ucast_eq) (simp add: take_bit_nat_eq_self)
  ultimately show ?thesis
    using assms by (auto simp: handle_from_u64_def Let_def MAX_WIRE_GENERATION_def
        word_le_nat_alt split: option.splits)
qed

lemma handle_to_from_u64: "handle_from_u64 p = Some h \<Longrightarrow> handle_to_u64 h = Ok p"
  using handle_from_u64_generation [of p h] packed_unique [of p]
  by (auto simp: handle_from_u64_def handle_to_u64_def Let_def kind_of_tag_iff
        runtime_of_tag_iff not_less split: option.splits)

section \<open>The registry as a machine\<close>

text \<open>
  One operation of a client, its response, and the step: the operations of the registry as they
  are called under the lock. \<open>RPanic\<close> is the panic of \<open>acquire\<close>.
\<close>

datatype HandleOp = OAcquire HandleKind | OLease Handle | ORelease Handle | ODestroy Handle

datatype HandleResp = RHandle Handle | RUnit | RCount u32 | RErr HandleError | RPanic

fun handle_op :: "Registry \<Rightarrow> HandleOp \<Rightarrow> HandleResp \<times> Registry" where
  "handle_op r (OAcquire k) =
     (case handle_acquire r k of
        (None, r') \<Rightarrow> (RPanic, r')
      | (Some (Err e), r') \<Rightarrow> (RErr e, r')
      | (Some (Ok h), r') \<Rightarrow> (RHandle h, r'))"
| "handle_op r (OLease h) =
     (case handle_lease r h of (Err e, r') \<Rightarrow> (RErr e, r') | (Ok _, r') \<Rightarrow> (RUnit, r'))"
| "handle_op r (ORelease h) =
     (case handle_release_lease r h of (Err e, r') \<Rightarrow> (RErr e, r') | (Ok n, r') \<Rightarrow> (RCount n, r'))"
| "handle_op r (ODestroy h) =
     (case handle_destroy r h of (Err e, r') \<Rightarrow> (RErr e, r') | (Ok _, r') \<Rightarrow> (RUnit, r'))"

definition handle_step :: "Registry \<Rightarrow> HandleOp \<Rightarrow> Registry" where
  "handle_step r c = snd (handle_op r c)"

text \<open>
  The registry's invariant: the free list names distinct, existing, empty slots, the slab fits
  its 32-bit index, every slot belongs to the registry's runtime, and the lock is not poisoned.
\<close>

definition reg_inv :: "Registry \<Rightarrow> bool" where
  "reg_inv r \<longleftrightarrow>
     distinct (reg_free r)
     \<and> (\<forall>i \<in> set (reg_free r). unat i < length (reg_slots r)
           \<and> s_kind (reg_slots r ! unat i) = None)
     \<and> length (reg_slots r) \<le> 2 ^ 32
     \<and> (\<forall>s \<in> set (reg_slots r). s_runtime s = reg_runtime r)
     \<and> \<not> reg_poisoned r"

lemma reg_inv_new: "reg_inv (registry_new rt)"
  by (simp add: reg_inv_def registry_new_def)

lemma resolve_Ok:
  "handle_resolve r h = Ok s \<longleftrightarrow>
     unat (h_index h) < length (reg_slots r) \<and> s = reg_slots r ! unat (h_index h)
     \<and> s_kind s = Some (h_kind h) \<and> s_generation s = h_generation h
     \<and> s_runtime s = h_runtime h"
  by (auto simp: handle_resolve_def Let_def split: option.splits if_splits)

lemma unat_u32_inj: "unat i = unat j \<longleftrightarrow> i = j" for i j :: u32
  by (simp add: word_unat_eq_iff)

text \<open>A write to a slot that a handle resolves to, keeping the runtime and not reviving a free slot.\<close>

lemma reg_inv_set_slot:
  assumes "reg_inv r" and "handle_resolve r h = Ok s"
    and "s_runtime s' = s_runtime s"
  shows "reg_inv (set_slot r (h_index h) s')"
proof -
  have "h_index h \<notin> set (reg_free r)"
    using assms(1,2) by (auto simp: reg_inv_def resolve_Ok)
  with assms show ?thesis
    by (auto simp: reg_inv_def set_slot_def resolve_Ok nth_list_update unat_u32_inj
        dest!: set_update_subset_insert [THEN subsetD])
qed

text \<open>The three outcomes of \<open>acquire\<close> in a well-formed registry; a panic is not one of them.\<close>

lemma acquire_cases:
  assumes "reg_inv r"
  obtains (reuse) i free' where "reg_free r = free' @ [i]" "unat i < length (reg_slots r)"
      "handle_acquire r k =
         (Some (Ok \<lparr>h_kind = k, h_runtime = reg_runtime r, h_index = i,
                    h_generation = s_generation (reg_slots r ! unat i)\<rparr>),
          r\<lparr>reg_slots := (reg_slots r)[unat i := (reg_slots r ! unat i)
                \<lparr>s_kind := Some k, s_runtime := reg_runtime r, s_leases := 1\<rparr>],
            reg_free := free'\<rparr>)"
  | (grow) "reg_free r = []" "length (reg_slots r) < 2 ^ 32"
      "handle_acquire r k =
         (Some (Ok \<lparr>h_kind = k, h_runtime = reg_runtime r,
                    h_index = word_of_nat (length (reg_slots r)), h_generation = 0\<rparr>),
          r\<lparr>reg_slots := reg_slots r @ [\<lparr>s_kind = Some k, s_runtime = reg_runtime r,
                s_generation = 0, s_leases = 1\<rparr>]\<rparr>)"
  | (full) "reg_free r = []" "length (reg_slots r) = 2 ^ 32"
      "handle_acquire r k = (Some (Err RegistryFull), r)"
proof (cases "reg_free r" rule: rev_cases)
  case Nil
  show ?thesis
  proof (cases "length (reg_slots r) < 2 ^ 32")
    case True
    with Nil assms show ?thesis
      by (intro grow) (simp_all add: handle_acquire_def reg_inv_def vec_pop_def vec_push_def Let_def)
  next
    case False
    with Nil assms show ?thesis
      by (intro full) (simp_all add: handle_acquire_def reg_inv_def vec_pop_def)
  qed
next
  case (snoc free' i)
  with assms show ?thesis
    by (intro reuse) (simp_all add: handle_acquire_def reg_inv_def vec_pop_def Let_def)
qed

lemma reg_inv_acquire:
  assumes inv: "reg_inv r" shows "reg_inv (snd (handle_acquire r k))"
  using inv
proof (cases rule: acquire_cases [where k = k, case_names reuse grow full])
  case (reuse i free')
  with inv show ?thesis
    by (auto simp: reg_inv_def nth_list_update unat_u32_inj
        dest!: set_update_subset_insert [THEN subsetD])
next
  case grow
  with inv show ?thesis by (auto simp: reg_inv_def nth_append)
next
  case full
  with inv show ?thesis by simp
qed

lemma reg_inv_destroy:
  assumes "reg_inv r" shows "reg_inv (snd (handle_destroy r h))"
proof (cases "handle_resolve r h")
  case (Inl e)
  with assms show ?thesis by (simp add: handle_destroy_def)
next
  case (Inr s)
  then have free: "h_index h \<notin> set (reg_free r)" and len: "unat (h_index h) < length (reg_slots r)"
    using assms by (auto simp: reg_inv_def resolve_Ok)
  have upd: "reg_inv (set_slot r (h_index h) (s\<lparr>s_kind := None, s_generation := g\<rparr>))" for g
    using reg_inv_set_slot [OF assms Inr] by simp
  have "reg_inv ((set_slot r (h_index h) (s\<lparr>s_kind := None, s_generation := g\<rparr>))
                   \<lparr>reg_free := vec_push (reg_free r) (h_index h)\<rparr>)" for g
    using upd [of g] free len by (auto simp: reg_inv_def set_slot_def vec_simps)
  with Inr assms upd [of "s_generation s"] show ?thesis
    by (auto simp: handle_destroy_def Let_def split: option.splits)
qed

lemma handle_step_inv [inv_intros]: "reg_inv r \<Longrightarrow> reg_inv (handle_step r c)"
proof (cases c)
  case (OAcquire k)
  moreover assume "reg_inv r"
  ultimately show ?thesis
    using reg_inv_acquire [of r k]
    by (auto simp: handle_step_def split: prod.splits option.splits sum.splits)
next
  case (ODestroy h)
  moreover assume "reg_inv r"
  ultimately show ?thesis
    using reg_inv_destroy [of r h] by (auto simp: handle_step_def split: prod.splits sum.splits)
qed (auto simp: handle_step_def handle_lease_def handle_release_lease_def Let_def
      intro: reg_inv_set_slot split: sum.splits option.splits if_splits)

section \<open>Spent handles stay dead\<close>

text \<open>
  A handle is spent when its slot has moved to a later generation, or when the slot is empty at
  the handle's generation and off the free list (the wrapped generation of \<open>destroy\<close>).
\<close>

definition handle_spent :: "Registry \<Rightarrow> Handle \<Rightarrow> bool" where
  "handle_spent r h \<longleftrightarrow>
     unat (h_index h) < length (reg_slots r) \<and>
     (let s = reg_slots r ! unat (h_index h) in
      unat (h_generation h) < unat (s_generation s)
      \<or> (s_kind s = None \<and> s_generation s = h_generation h \<and> h_index h \<notin> set (reg_free r)))"

lemma handle_spent_not_live: "handle_spent r h \<Longrightarrow> \<not> handle_is_live r h"
  by (auto simp: handle_spent_def handle_is_live_def is_ok_iff resolve_Ok Let_def)

lemma spent_set_slot:
  assumes "handle_spent r h" and "handle_resolve r h' = Ok s"
    and "unat (s_generation s) \<le> unat (s_generation s')"
  shows "handle_spent (set_slot r (h_index h') s') h"
  using assms by (auto simp: handle_spent_def set_slot_def resolve_Ok Let_def nth_list_update
      unat_u32_inj)

lemma spent_push_free:
  assumes "handle_spent r h" and "s_kind (reg_slots r ! unat i) = None \<Longrightarrow> i = h_index h
      \<Longrightarrow> unat (h_generation h) < unat (s_generation (reg_slots r ! unat i))"
  shows "handle_spent (r\<lparr>reg_free := vec_push (reg_free r) i\<rparr>) h"
  using assms by (auto simp: handle_spent_def Let_def vec_simps)

lemma spent_acquire:
  assumes inv: "reg_inv r" and spent: "handle_spent r h"
  shows "handle_spent (snd (handle_acquire r k)) h"
  using inv
proof (cases rule: acquire_cases [where k = k, case_names reuse grow full])
  case (reuse i free')
  with spent show ?thesis
    by (auto simp: handle_spent_def Let_def nth_list_update unat_u32_inj)
next
  case grow
  with spent show ?thesis by (auto simp: handle_spent_def Let_def nth_append)
next
  case full
  with spent show ?thesis by simp
qed

lemma spent_destroy:
  assumes spent: "handle_spent r h" shows "handle_spent (snd (handle_destroy r h')) h"
proof (cases "handle_resolve r h'")
  case (Inl e)
  with spent show ?thesis by (simp add: handle_destroy_def)
next
  case (Inr s)
  have wrap: "handle_spent (set_slot r (h_index h') (s\<lparr>s_kind := None\<rparr>)) h"
    using spent Inr by (rule spent_set_slot) simp
  have bump: "handle_spent ((set_slot r (h_index h') (s\<lparr>s_kind := None, s_generation := g\<rparr>))
                \<lparr>reg_free := vec_push (reg_free r) (h_index h')\<rparr>) h"
    if "checked_add (s_generation s) 1 = Some g" for g
  proof -
    have g: "unat g = Suc (unat (s_generation s))"
      using that by (intro checked_add_one_Some) simp_all
    have "handle_spent (set_slot r (h_index h') (s\<lparr>s_kind := None, s_generation := g\<rparr>)) h"
      using spent Inr by (rule spent_set_slot) (simp add: g)
    with spent Inr g show ?thesis
      by (auto simp: handle_spent_def set_slot_def resolve_Ok Let_def vec_simps nth_list_update
          unat_u32_inj)
  qed
  from Inr spent wrap bump show ?thesis
    by (auto simp: handle_destroy_def Let_def split: option.splits)
qed

lemma handle_spent_step: "reg_inv r \<Longrightarrow> handle_spent r h \<Longrightarrow> handle_spent (handle_step r c) h"
proof (cases c)
  case (OAcquire k)
  moreover assume "reg_inv r" "handle_spent r h"
  ultimately show ?thesis
    using spent_acquire [of r h k]
    by (auto simp: handle_step_def split: prod.splits option.splits sum.splits)
next
  case (ODestroy h')
  moreover assume "handle_spent r h"
  ultimately show ?thesis
    using spent_destroy [of r h h'] by (auto simp: handle_step_def split: prod.splits sum.splits)
qed (auto simp: handle_step_def handle_lease_def handle_release_lease_def Let_def
      intro: spent_set_slot split: sum.splits option.splits if_splits)

interpretation comp_handle: generational handle_step reg_inv handle_is_live handle_spent
  by unfold_locales (auto intro: inv_intros handle_spent_step dest: handle_spent_not_live)

lemma destroyed_spent:
  assumes inv: "reg_inv r" and d: "handle_destroy r h = (res, r')"
    and res: "res = Ok () \<or> res = Err GenerationWrap"
  shows "handle_spent r' h"
proof -
  from d res inv obtain s where s: "handle_resolve r h = Ok s"
    by (auto simp: handle_destroy_def reg_inv_def handle_resolve_def Let_def
        split: sum.splits option.splits if_splits)
  then have free: "h_index h \<notin> set (reg_free r)" using inv by (auto simp: reg_inv_def resolve_Ok)
  note facts = s [unfolded resolve_Ok] free checked_add_one_Some [of "s_generation s"]
  from d res show ?thesis
    unfolding handle_destroy_def using inv
    by (simp add: s reg_inv_def Let_def split: if_splits option.splits)
      (insert facts, auto simp: handle_spent_def set_slot_def Let_def vec_simps)
qed

section \<open>Abstract specification: live handles with lease counts\<close>

text \<open>
  What a client may rely on: a partial map from live handles to their number of leases.
  \<open>handle_spec m c resp m'\<close> is one operation on it.
\<close>

inductive handle_spec ::
    "(Handle \<rightharpoonup> nat) \<Rightarrow> HandleOp \<Rightarrow> HandleResp \<Rightarrow> (Handle \<rightharpoonup> nat) \<Rightarrow> bool" where
  sp_acquire: "h_kind h = k \<Longrightarrow> m h = None \<Longrightarrow>
     handle_spec m (OAcquire k) (RHandle h) (m(h \<mapsto> 1))"
| sp_full: "handle_spec m (OAcquire k) (RErr RegistryFull) m"
| sp_lease: "m h = Some n \<Longrightarrow> Suc n < 2 ^ 32 \<Longrightarrow>
     handle_spec m (OLease h) RUnit (m(h \<mapsto> Suc n))"
| sp_lease_overflow: "m h = Some n \<Longrightarrow> Suc n = 2 ^ 32 \<Longrightarrow>
     handle_spec m (OLease h) (RErr LeaseOverflow) m"
| sp_release: "m h = Some (Suc n) \<Longrightarrow> unat c = n \<Longrightarrow>
     handle_spec m (ORelease h) (RCount c) (m(h \<mapsto> n))"
| sp_no_lease: "m h = Some 0 \<Longrightarrow> handle_spec m (ORelease h) (RErr NoLease) m"
| sp_destroy: "m h = Some 0 \<Longrightarrow> handle_spec m (ODestroy h) RUnit (m(h := None))"
| sp_destroy_wrap: "m h = Some 0 \<Longrightarrow>
     handle_spec m (ODestroy h) (RErr GenerationWrap) (m(h := None))"
| sp_leased: "m h = Some n \<Longrightarrow> 0 < n \<Longrightarrow> unat c = n \<Longrightarrow>
     handle_spec m (ODestroy h) (RErr (LeasesOutstanding c)) m"
| sp_dead: "m h = None \<Longrightarrow> c \<in> {OLease h, ORelease h, ODestroy h} \<Longrightarrow>
     e \<in> {UnknownSlot} \<union> range (case_prod StaleGeneration) \<union> range (case_prod WrongKind)
           \<union> range (case_prod WrongRuntime) \<Longrightarrow>
     handle_spec m c (RErr e) m"

text \<open>The abstraction of a registry.\<close>

definition live_leases :: "Registry \<Rightarrow> Handle \<rightharpoonup> nat" where
  "live_leases r h =
     (if reg_poisoned r then None
      else case handle_resolve r h of Err _ \<Rightarrow> None | Ok s \<Rightarrow> Some (unat (s_leases s)))"

lemma live_leases_Some:
  "live_leases r h = Some n \<longleftrightarrow>
     \<not> reg_poisoned r \<and> (\<exists>s. handle_resolve r h = Ok s \<and> n = unat (s_leases s))"
  by (auto simp: live_leases_def split: sum.splits)

lemma handle_eq_iff:
  "h = h' \<longleftrightarrow> h_index h = h_index h' \<and> h_kind h = h_kind h' \<and> h_runtime h = h_runtime h'
     \<and> h_generation h = h_generation h'" for h h' :: Handle
  by (cases h; cases h') auto

lemma live_leases_alt:
  "live_leases r h =
     (let s = reg_slots r ! unat (h_index h) in
      if \<not> reg_poisoned r \<and> unat (h_index h) < length (reg_slots r)
         \<and> s_kind s = Some (h_kind h) \<and> s_generation s = h_generation h
         \<and> s_runtime s = h_runtime h
      then Some (unat (s_leases s)) else None)"
  by (auto simp: live_leases_def handle_resolve_def Let_def split: option.splits)

text \<open>Writing a slot changes the abstraction at the one handle that slot answers to.\<close>

lemma live_leases_set_slot:
  assumes "reg_inv r" and "handle_resolve r h = Ok s"
    and "s_kind s' = s_kind s" and "s_generation s' = s_generation s" and "s_runtime s' = s_runtime s"
  shows "live_leases (set_slot r (h_index h) s') = (live_leases r)(h \<mapsto> unat (s_leases s'))"
  using assms
  by (intro ext) (auto simp: live_leases_alt set_slot_def resolve_Ok Let_def nth_list_update
      unat_u32_inj reg_inv_def handle_eq_iff)

lemma live_leases_kill_slot:
  assumes "reg_inv r" and "handle_resolve r h = Ok s" and "s_kind s' = None"
  shows "live_leases (set_slot r (h_index h) s') = (live_leases r)(h := None)"
  using assms
  by (intro ext) (auto simp: live_leases_alt set_slot_def resolve_Ok Let_def nth_list_update
      unat_u32_inj reg_inv_def handle_eq_iff)

lemma live_leases_free [simp]: "live_leases (r\<lparr>reg_free := f\<rparr>) = live_leases r"
  by (intro ext) (simp add: live_leases_alt)

lemma live_leases_acquire:
  assumes inv: "reg_inv r"
  shows "\<exists>resp r'. handle_op r (OAcquire k) = (resp, r')
           \<and> handle_spec (live_leases r) (OAcquire k) resp (live_leases r')"
  using inv
proof (cases rule: acquire_cases [where k = k, case_names reuse grow full])
  case (reuse i free')
  let ?h = "\<lparr>h_kind = k, h_runtime = reg_runtime r, h_index = i,
              h_generation = s_generation (reg_slots r ! unat i)\<rparr>"
  let ?r' = "snd (handle_acquire r k)"
  have "live_leases ?r' = (live_leases r)(?h \<mapsto> 1)"
    using reuse inv by (intro ext) (auto simp: live_leases_alt Let_def nth_list_update
        unat_u32_inj reg_inv_def handle_eq_iff)
  moreover have "live_leases r ?h = None"
    using reuse inv by (simp add: live_leases_alt Let_def reg_inv_def)
  ultimately show ?thesis using reuse sp_acquire [of ?h k "live_leases r"] by simp
next
  case grow
  let ?h = "\<lparr>h_kind = k, h_runtime = reg_runtime r,
              h_index = word_of_nat (length (reg_slots r)), h_generation = 0\<rparr>"
  let ?r' = "snd (handle_acquire r k)"
  have i: "unat (word_of_nat (length (reg_slots r)) :: u32) = length (reg_slots r)"
    using grow by (simp add: unat_of_nat)
  have j: "unat j = length (reg_slots r) \<longleftrightarrow> j = word_of_nat (length (reg_slots r))" for j :: u32
    using i unat_u32_inj by metis
  have "live_leases ?r' = (live_leases r)(?h \<mapsto> 1)"
    using grow inv by (intro ext) (auto simp: live_leases_alt Let_def nth_append
        less_Suc_eq i j reg_inv_def handle_eq_iff)
  moreover have "live_leases r ?h = None" by (simp add: live_leases_alt i)
  ultimately show ?thesis using grow sp_acquire [of ?h k "live_leases r"] by simp
next
  case full
  then show ?thesis by (simp add: sp_full)
qed

lemma resolve_Err_kinds:
  "handle_resolve r h = Err e \<Longrightarrow>
     e \<in> {UnknownSlot} \<union> range (case_prod StaleGeneration) \<union> range (case_prod WrongKind)
         \<union> range (case_prod WrongRuntime)"
  by (auto simp: handle_resolve_def Let_def image_iff split: if_splits option.splits)

lemma handle_op_dead:
  assumes "reg_inv r" and "handle_resolve r h = Err e" and "c \<in> {OLease h, ORelease h, ODestroy h}"
  shows "handle_op r c = (RErr e, r) \<and> handle_spec (live_leases r) c (RErr e) (live_leases r)"
  using assms resolve_Err_kinds [OF assms(2)]
  by (auto simp: handle_lease_def handle_release_lease_def handle_destroy_def reg_inv_def
      live_leases_def intro!: sp_dead)

lemma handle_op_live:
  assumes inv: "reg_inv r" and s: "handle_resolve r h = Ok s"
    and c: "c \<in> {OLease h, ORelease h, ODestroy h}" and step: "handle_op r c = (resp, r')"
  shows "handle_spec (live_leases r) c resp (live_leases r')"
proof -
  have m: "live_leases r h = Some (unat (s_leases s))" and np: "\<not> reg_poisoned r"
    using inv s by (auto simp: live_leases_Some reg_inv_def)
  have full: "checked_add (s_leases s) 1 = None \<Longrightarrow> Suc (unat (s_leases s)) = 2 ^ 32"
    using unsigned_less [of "s_leases s", where ?'a = nat] by (auto simp: checked_add_one_None)
  have more: "checked_add (s_leases s) 1 = Some n \<Longrightarrow> unat n = Suc (unat (s_leases s)) \<and>
      Suc (unat (s_leases s)) < 2 ^ 32" for n
    using unsigned_less [of n, where ?'a = nat] checked_add_one_Some [of "s_leases s" n] by simp
  have less: "s_leases s \<noteq> 0 \<Longrightarrow> unat (s_leases s) = Suc (unat (s_leases s - 1))"
    by (simp add: unat_gt_0 unat_minus_one Suc_pred)
  note upd = live_leases_set_slot [OF inv s] live_leases_kill_slot [OF inv s]
  consider "c = OLease h" | "c = ORelease h" | "c = ODestroy h" using c by auto
  then show ?thesis
  proof cases
    case 1
    show ?thesis
    proof (cases "checked_add (s_leases s) 1")
      case None
      with 1 step s np show ?thesis
        using sp_lease_overflow [of "live_leases r", OF m full [OF None]]
        by (auto simp: handle_lease_def)
    next
      case (Some n)
      with 1 step s np show ?thesis
        using sp_lease [of "live_leases r", OF m] more [OF Some] upd(1) [of "s\<lparr>s_leases := n\<rparr>"]
        by (auto simp: handle_lease_def)
    qed
  next
    case 2
    with step s np less m show ?thesis
      by (auto simp: handle_release_lease_def Let_def upd intro: sp_no_lease sp_release
          split: if_splits)
  next
    case 3
    with step s np m show ?thesis
      by (auto simp: handle_destroy_def Let_def upd unat_gt_0 intro: sp_leased sp_destroy
          sp_destroy_wrap split: if_splits option.splits)
  qed
qed

text \<open>Every operation of a well-formed registry is a step of the specification.\<close>

lemma handle_op_refines:
  assumes inv: "reg_inv r" and step: "handle_op r c = (resp, r')"
  shows "handle_spec (live_leases r) c resp (live_leases r')"
proof -
  have "handle_spec (live_leases r) c resp (live_leases r')"
    if c: "c \<in> {OLease h, ORelease h, ODestroy h}" for h
  proof (cases "handle_resolve r h")
    case (Inl e)
    with handle_op_dead [OF inv Inl c] step show ?thesis by simp
  next
    case (Inr s)
    from inv Inr c step show ?thesis by (rule handle_op_live)
  qed
  note client = this
  show ?thesis
  proof (cases c)
    case (OAcquire k)
    with live_leases_acquire [OF inv, of k] step show ?thesis
      by (auto simp del: handle_op.simps)
  qed (rule client, blast)+
qed

text \<open>Lifting the refinement to runs: the responses along a run are allowed by the specification.\<close>

inductive handle_spec_run ::
    "(Handle \<rightharpoonup> nat) \<Rightarrow> (HandleOp \<times> HandleResp) list \<Rightarrow> (Handle \<rightharpoonup> nat) \<Rightarrow> bool" where
  run_nil: "handle_spec_run m [] m"
| run_cons: "handle_spec m c resp m' \<Longrightarrow> handle_spec_run m' tr m'' \<Longrightarrow>
     handle_spec_run m ((c, resp) # tr) m''"

fun handle_trace :: "Registry \<Rightarrow> HandleOp list \<Rightarrow> (HandleOp \<times> HandleResp) list" where
  "handle_trace r [] = []"
| "handle_trace r (c # cs) = (c, fst (handle_op r c)) # handle_trace (handle_step r c) cs"

lemma handle_trace_refines:
  "reg_inv r \<Longrightarrow>
     handle_spec_run (live_leases r) (handle_trace r cs) (live_leases (foldl handle_step r cs))"
proof (induction cs arbitrary: r)
  case Nil
  show ?case by (simp add: run_nil)
next
  case (Cons c cs)
  have "handle_spec (live_leases r) c (fst (handle_op r c)) (live_leases (handle_step r c))"
    using Cons.prems by (intro handle_op_refines) (simp_all add: handle_step_def)
  with Cons show ?case by (auto intro: run_cons handle_step_inv)
qed

section \<open>Properties\<close>

text \<open>
  C16: every sequence of operations on a fresh registry answers as the abstract table of live
  handles with lease counts does: \<open>acquire\<close> mints a handle that is not live and holds one lease,
  \<open>lease\<close> and \<open>release_lease\<close> count up and down by one and fail at the bounds, \<open>destroy\<close>
  removes exactly that handle and only at zero leases, and a handle that is not live is refused
  without a change.
\<close>

theorem comp_handle_refines_spec:
  "handle_spec_run Map.empty (handle_trace (registry_new rt) cs)
     (live_leases (foldl handle_step (registry_new rt) cs))"
proof -
  have "live_leases (registry_new rt) = Map.empty"
    by (intro ext) (simp add: live_leases_alt registry_new_def)
  then show ?thesis using handle_trace_refines [OF reg_inv_new, of rt cs] by simp
qed

text \<open>
  C17: no ABA on component handles: once \<open>destroy\<close> has succeeded on a handle, or has retired its
  slot because the generation would wrap, no sequence of further operations makes that handle
  live again.
\<close>

theorem comp_destroyed_never_live:
  assumes "reg_inv r"
    and "handle_destroy r h = (Ok (), r') \<or> handle_destroy r h = (Err GenerationWrap, r')"
  shows "\<not> handle_is_live (foldl handle_step r' cs) h"
proof -
  have "reg_inv r'"
    using assms(2) reg_inv_destroy [OF assms(1), of h] by auto
  moreover have "handle_spent r' h"
    using assms destroyed_spent by blast
  ultimately show ?thesis by (rule comp_handle.spent_dead_forever)
qed

theorem comp_destroyed_never_live_witness:
  "let (resp, r1) = handle_acquire (registry_new Native) KMap;
       h = \<lparr>h_kind = KMap, h_runtime = Native, h_index = 0, h_generation = 0\<rparr>;
       (n, r2) = handle_release_lease r1 h;
       (d, r3) = handle_destroy r2 h
   in resp = Some (Ok h) \<and> n = Ok 0 \<and> d = Ok ()
      \<and> \<not> handle_is_live (foldl handle_step r3 [OAcquire KMap]) h"
proof -
  define h where "h = \<lparr>h_kind = KMap, h_runtime = Native, h_index = 0, h_generation = 0\<rparr>"
  define r1 where "r1 = snd (handle_acquire (registry_new Native) KMap)"
  define r2 where "r2 = snd (handle_release_lease r1 h)"
  note eval = handle_acquire_def registry_new_def vec_pop_def vec_push_def Let_def
    handle_release_lease_def handle_destroy_def handle_resolve_def set_slot_def checked_add_def
  have r1: "handle_acquire (registry_new Native) KMap = (Some (Ok h), r1)"
    by (simp add: r1_def h_def eval)
  have r2: "handle_release_lease r1 h = (Ok 0, r2)"
    by (simp add: r1_def r2_def h_def eval)
  obtain r3 where r3: "handle_destroy r2 h = (Ok (), r3)"
    by (simp add: r1_def r2_def h_def eval)
  have "reg_inv r2"
    by (auto simp: r1_def r2_def h_def eval reg_inv_def)
  from comp_destroyed_never_live [OF this, of h r3 "[OAcquire KMap]"] r3
  show ?thesis by (simp add: r1 r2 flip: h_def)
qed

text \<open>
  C18: the 64-bit wire form of a component handle is faithful: packing succeeds exactly up to
  generation 0xFFFF, and then unpacking returns the very same handle; conversely every 64-bit
  word that unpacks is the packing of the handle it unpacks to, so no two words and no two
  handles collide.
\<close>

theorem comp_handle_wire_roundtrip:
  "(h_generation h \<le> MAX_WIRE_GENERATION \<longleftrightarrow> (\<exists>p. handle_to_u64 h = Ok p))
   \<and> (handle_to_u64 h = Ok p \<longleftrightarrow> handle_from_u64 p = Some h)"
proof
  show "h_generation h \<le> MAX_WIRE_GENERATION \<longleftrightarrow> (\<exists>p. handle_to_u64 h = Ok p)"
    by (auto simp: handle_to_u64_def not_less)
  show "handle_to_u64 h = Ok p \<longleftrightarrow> handle_from_u64 p = Some h"
    using handle_from_to_u64 handle_to_from_u64 by blast
qed

end
