(* ===== verification/Mimi_BTree.thy ===== *)
theory Mimi_BTree
  imports Mimi_Prelude
begin

text \<open>
  \<open>BTreeMap\<close> and \<open>BTreeSet\<close> of the Rust standard library: association lists and lists kept
  sorted by key, so that iterating is reading the list from left to right. The interface the
  clients use (lookup after insert and remove, and the order of the keys) is the locale
  \<open>ordered_map\<close>, interpreted here on the list operations.
\<close>

section \<open>The interface\<close>

locale ordered_map =
  fixes empty :: 'm
    and insert :: "'k::linorder \<Rightarrow> 'v \<Rightarrow> 'm \<Rightarrow> 'm"
    and remove :: "'k \<Rightarrow> 'm \<Rightarrow> 'm"
    and get :: "'m \<Rightarrow> 'k \<Rightarrow> 'v option"
    and keys :: "'m \<Rightarrow> 'k list"
    and wf :: "'m \<Rightarrow> bool"
  assumes get_empty: "get empty = Map.empty"
    and get_insert: "get (insert k v m) = (get m)(k \<mapsto> v)"
    and get_remove: "get (remove k m) = (get m)(k := None)"
    and keys_get: "set (keys m) = dom (get m)"
    and wf_keys: "wf m \<Longrightarrow> sorted_wrt (<) (keys m)"
    and wf_empty: "wf empty"
    and wf_insert: "wf m \<Longrightarrow> wf (insert k v m)"
    and wf_remove: "wf m \<Longrightarrow> wf (remove k m)"
begin

text \<open>Collecting an iterator of pairs: later pairs win.\<close>

lemma get_collect:
  "get (foldl (\<lambda>m (k, v). insert k v m) m kvs) k =
     (case map_of (rev kvs) k of None \<Rightarrow> get m k | Some v \<Rightarrow> Some v)"
  by (induction kvs arbitrary: m) (auto simp: get_insert map_add_def split: option.splits)

lemma wf_collect: "wf m \<Longrightarrow> wf (foldl (\<lambda>m (k, v). insert k v m) m kvs)"
  by (induction kvs arbitrary: m) (auto intro: wf_insert)

lemma finite_dom: "finite (dom (get m))"
  by (metis keys_get List.finite_set)

text \<open>Two well-formed maps with the same lookups list the same keys.\<close>

lemma keys_eq:
  assumes "wf m" and "wf m'" and "get m = get m'" shows "keys m = keys m'"
  using assms wf_keys keys_get
  by (metis strict_sorted_equal)

text \<open>
  Inserting one key from a per-key recipe, over a list of keys: each key gets the value its
  recipe computes from the original map, the others keep theirs.
\<close>

lemma get_fold_recipe:
  assumes "distinct ks"
  shows "get (foldl (\<lambda>m k. case f k of None \<Rightarrow> m | Some v \<Rightarrow> insert k v m) m ks) k =
     (if k \<in> set ks then (case f k of None \<Rightarrow> get m k | Some v \<Rightarrow> Some v) else get m k)"
  using assms
  by (induction ks arbitrary: m) (auto simp: get_insert split: option.splits)

end

section \<open>Maps\<close>

type_synonym ('k, 'v) btree_map = "('k \<times> 'v) list"

fun bt_insert :: "'k::linorder \<Rightarrow> 'v \<Rightarrow> ('k, 'v) btree_map \<Rightarrow> ('k, 'v) btree_map" where
  "bt_insert k v [] = [(k, v)]"
| "bt_insert k v (e # m) =
     (if fst e = k then (k, v) # m
      else if k < fst e then (k, v) # e # m
      else e # bt_insert k v m)"

definition bt_remove :: "'k \<Rightarrow> ('k, 'v) btree_map \<Rightarrow> ('k, 'v) btree_map" where
  "bt_remove k m = filter (\<lambda>e. fst e \<noteq> k) m"

definition bt_get :: "('k, 'v) btree_map \<Rightarrow> 'k \<Rightarrow> 'v option" where
  "bt_get m = map_of m"

definition bt_keys :: "('k, 'v) btree_map \<Rightarrow> 'k list" where
  "bt_keys m = map fst m"

definition bt_values :: "('k, 'v) btree_map \<Rightarrow> 'v list" where
  "bt_values m = map snd m"

definition bt_contains :: "('k, 'v) btree_map \<Rightarrow> 'k \<Rightarrow> bool" where
  "bt_contains m k = (bt_get m k \<noteq> None)"

definition bt_collect :: "('k::linorder \<times> 'v) list \<Rightarrow> ('k, 'v) btree_map" where
  "bt_collect kvs = foldl (\<lambda>m (k, v). bt_insert k v m) [] kvs"

definition bt_wf :: "('k::linorder, 'v) btree_map \<Rightarrow> bool" where
  "bt_wf m = sorted_wrt (<) (bt_keys m)"

lemma set_keys_bt_insert: "set (bt_keys (bt_insert k v m)) = insert k (set (bt_keys m))"
  by (induction m) (auto simp: bt_keys_def)

lemma bt_wf_insert: "bt_wf m \<Longrightarrow> bt_wf (bt_insert k v m)"
proof (induction m)
  case Nil
  show ?case by (simp add: bt_wf_def bt_keys_def)
next
  case (Cons e m)
  then have "bt_wf (bt_insert k v m)" by (simp add: bt_wf_def bt_keys_def)
  with Cons.prems show ?case
    using set_keys_bt_insert [of k v m] by (auto simp: bt_wf_def bt_keys_def)
qed

lemma map_of_bt_insert: "map_of (bt_insert k v m) = (map_of m)(k \<mapsto> v)"
  by (induction m) auto

lemma map_of_bt_remove: "map_of (bt_remove k m) = (map_of m)(k := None)"
  by (induction m) (auto simp: bt_remove_def)

interpretation bt: ordered_map "[]" bt_insert bt_remove bt_get bt_keys bt_wf
proof (unfold_locales, goal_cases)
  case (4 m)
  show ?case by (simp add: bt_keys_def bt_get_def dom_map_of_conv_image_fst)
next
  case (7 m k v)
  then show ?case by (rule bt_wf_insert)
next
  case (8 m k)
  then show ?case by (simp add: bt_wf_def bt_keys_def bt_remove_def sorted_wrt_map sorted_wrt_filter)
qed (auto simp: bt_get_def bt_wf_def bt_keys_def map_of_bt_insert map_of_bt_remove)

lemmas bt_simps = bt.get_insert bt.get_remove bt.get_empty

lemma bt_get_Some_mem: "bt_get m k = Some v \<Longrightarrow> (k, v) \<in> set m"
  by (simp add: bt_get_def map_of_SomeD)

lemma bt_get_mem: "bt_wf m \<Longrightarrow> (k, v) \<in> set m \<Longrightarrow> bt_get m k = Some v"
  by (auto simp: bt_get_def bt_wf_def bt_keys_def strict_sorted_iff intro: map_of_is_SomeI)

lemma bt_collect_get: "bt_get (bt_collect kvs) k = map_of (rev kvs) k"
  by (simp add: bt_collect_def bt.get_collect bt.get_empty split: option.splits)

lemma bt_collect_wf: "bt_wf (bt_collect kvs)"
  by (simp add: bt_collect_def bt.wf_collect bt.wf_empty)

section \<open>Sets\<close>

type_synonym 'a btree_set = "'a list"

definition bs_insert :: "'a::linorder \<Rightarrow> 'a btree_set \<Rightarrow> 'a btree_set" where
  "bs_insert x s = (if x \<in> set s then s else insort x s)"

definition bs_remove :: "'a \<Rightarrow> 'a btree_set \<Rightarrow> 'a btree_set" where
  "bs_remove x s = filter (\<lambda>y. y \<noteq> x) s"

definition bs_extend :: "'a::linorder btree_set \<Rightarrow> 'a list \<Rightarrow> 'a btree_set" where
  "bs_extend s xs = foldl (\<lambda>s x. bs_insert x s) s xs"

definition bs_wf :: "'a::linorder btree_set \<Rightarrow> bool" where
  "bs_wf s = sorted_wrt (<) s"

lemma set_bs_insert [simp]: "set (bs_insert x s) = insert x (set s)"
  by (auto simp: bs_insert_def set_insort_key)

lemma set_bs_remove [simp]: "set (bs_remove x s) = set s - {x}"
  by (auto simp: bs_remove_def)

lemma set_bs_extend [simp]: "set (bs_extend s xs) = set s \<union> set xs"
  by (induction xs arbitrary: s) (auto simp: bs_extend_def)

lemma bs_wf_insert [intro]: "bs_wf s \<Longrightarrow> bs_wf (bs_insert x s)"
  by (auto simp: bs_wf_def bs_insert_def strict_sorted_iff sorted_insort distinct_insort)

lemma bs_wf_remove [intro]: "bs_wf s \<Longrightarrow> bs_wf (bs_remove x s)"
  by (simp add: bs_wf_def bs_remove_def sorted_wrt_filter)

lemma bs_wf_extend [intro]: "bs_wf s \<Longrightarrow> bs_wf (bs_extend s xs)"
  by (induction xs arbitrary: s) (auto simp: bs_extend_def)

lemma bs_wf_Nil [simp]: "bs_wf []"
  by (simp add: bs_wf_def)

lemma bs_wf_distinct: "bs_wf s \<Longrightarrow> distinct s"
  by (simp add: bs_wf_def strict_sorted_iff)

lemma bs_ext: "bs_wf s \<Longrightarrow> bs_wf t \<Longrightarrow> set s = set t \<Longrightarrow> s = t"
  by (simp add: bs_wf_def strict_sorted_equal)

lemma bs_eq_iff: "bs_wf s \<Longrightarrow> bs_wf t \<Longrightarrow> s = t \<longleftrightarrow> set s = set t"
  using bs_ext by blast

end
