(* ===== verification/Mimi_Cfg.thy ===== *)
theory Mimi_Cfg
  imports Mimi_BTree
begin

text \<open>
  The data of the resource analysis: spans and diagnostics (\<open>src/span.rs\<close>,
  \<open>src/diagnostic/mod.rs\<close>), node identities and origins (\<open>src/core/resolved/mod.rs\<close>), places,
  loans and resource actions (\<open>src/core/ownership.rs\<close>), and the per-callable control-flow graph
  with its adjacency indexes (\<open>src/core/cfg/mod.rs\<close>).
\<close>

section \<open>Spans and diagnostics\<close>

record Span =
  source_id :: nat
  start_line :: nat
  start_col :: nat
  end_line :: nat
  end_col :: nat

definition Span_UNKNOWN :: Span where
  "Span_UNKNOWN = \<lparr>source_id = 0, start_line = 0, start_col = 0, end_line = 0, end_col = 0\<rparr>"

datatype Severity = SevError | SevWarning | SevNote | SevHelp

record DiagnosticNote =
  note_message :: string
  note_span :: Span

datatype DiagnosticOriginKind = DokUser | DokDesugared | DokPrototypeFallback | DokRuntimeSystem

record DiagnosticOrigin =
  do_kind :: DiagnosticOriginKind
  do_rule :: "string option"
  do_parent_node_id :: "string option"

record Diagnostic =
  d_message :: string
  d_span :: Span
  d_severity :: Severity
  d_code :: "string option"
  d_notes :: "DiagnosticNote list"
  d_help :: "string option"
  d_origin :: "DiagnosticOrigin option"

definition diag_error :: "string \<Rightarrow> Span \<Rightarrow> Diagnostic" where
  "diag_error msg sp = \<lparr>d_message = msg, d_span = sp, d_severity = SevError, d_code = None,
     d_notes = [], d_help = None, d_origin = None\<rparr>"

definition error_code :: "string \<Rightarrow> string \<Rightarrow> Span \<Rightarrow> Diagnostic" where
  "error_code code msg sp = \<lparr>d_message = msg, d_span = sp, d_severity = SevError,
     d_code = Some code, d_notes = [], d_help = None, d_origin = None\<rparr>"

definition with_note :: "Diagnostic \<Rightarrow> string \<Rightarrow> Span \<Rightarrow> Diagnostic" where
  "with_note d msg sp = d\<lparr>d_notes := d_notes d @ [\<lparr>note_message = msg, note_span = sp\<rparr>]\<rparr>"

definition with_help :: "Diagnostic \<Rightarrow> string \<Rightarrow> Diagnostic" where
  "with_help d msg = d\<lparr>d_help := Some msg\<rparr>"

section \<open>Node identities and origins\<close>

datatype NodeId = NodeId (node_str: string)

instantiation NodeId :: linorder
begin

definition less_eq_NodeId :: "NodeId \<Rightarrow> NodeId \<Rightarrow> bool" where
  "less_eq_NodeId a b \<longleftrightarrow> node_str a \<le> node_str b"

definition less_NodeId :: "NodeId \<Rightarrow> NodeId \<Rightarrow> bool" where
  "less_NodeId a b \<longleftrightarrow> node_str a < node_str b"

instance
  by standard (auto simp: less_eq_NodeId_def less_NodeId_def node_str_def intro: NodeId.expand)

end

lemma NodeId_order [simp]:
  "NodeId a \<le> NodeId b \<longleftrightarrow> a \<le> b" "NodeId a < NodeId b \<longleftrightarrow> a < b"
  by (simp_all add: less_eq_NodeId_def less_NodeId_def)

datatype Origin =
    OriginUser Span
  | OriginDesugared NodeId string Span
  | OriginPrototypeFallback NodeId string Span
  | OriginRuntimeSystem NodeId string Span

fun user_span :: "Origin \<Rightarrow> Span" where
  "user_span (OriginUser s) = s"
| "user_span (OriginDesugared p r s) = s"
| "user_span (OriginPrototypeFallback p r s) = s"
| "user_span (OriginRuntimeSystem p r s) = s"

text \<open>The newtypes around \<open>NodeId\<close>.\<close>

type_synonym LocalId = NodeId
type_synonym ResourceId = NodeId
type_synonym LoanId = NodeId
type_synonym BasicBlockId = NodeId
type_synonym EdgeId = NodeId

section \<open>Places\<close>

datatype IndexProjection = ConstantIx int | DynamicIx

datatype PlaceProjection =
    PField NodeId string
  | PTuple nat
  | PIndex IndexProjection
  | PDeref

record Place =
  p_base :: LocalId
  p_base_name :: string
  p_projections :: "PlaceProjection list"

text \<open>Two projections that are not equal: do they still overlap?\<close>

fun projection_overlap :: "PlaceProjection \<Rightarrow> PlaceProjection \<Rightarrow> bool" where
  "projection_overlap (PField l _) (PField r _) = (l = r)"
| "projection_overlap (PTuple l) (PTuple r) = (l = r)"
| "projection_overlap (PIndex (ConstantIx l)) (PIndex (ConstantIx r)) = (l = r)"
| "projection_overlap (PIndex _) (PIndex _) = True"
| "projection_overlap _ _ = True"

text \<open>The zip loop: the first differing pair decides, equal paths and prefixes overlap.\<close>

fun projections_conflict :: "PlaceProjection list \<Rightarrow> PlaceProjection list \<Rightarrow> bool" where
  "projections_conflict (l # ls) (r # rs) =
     (if l = r then projections_conflict ls rs else projection_overlap l r)"
| "projections_conflict _ _ = True"

definition conflicts_with :: "Place \<Rightarrow> Place \<Rightarrow> bool" where
  "conflicts_with a b =
     (if PDeref \<in> set (p_projections a) \<or> PDeref \<in> set (p_projections b) then True
      else if p_base a \<noteq> p_base b then False
      else projections_conflict (p_projections a) (p_projections b))"

fun display_projection :: "string \<Rightarrow> PlaceProjection \<Rightarrow> string" where
  "display_projection v (PField _ n) = v @ ''.'' @ n"
| "display_projection v (PTuple i) = v @ ''.'' @ show_nat i"
| "display_projection v (PIndex (ConstantIx i)) = v @ ''['' @ show_int i @ '']''"
| "display_projection v (PIndex DynamicIx) = v @ ''[*]''"
| "display_projection v PDeref = ''*'' @ v"

definition place_display :: "Place \<Rightarrow> string" where
  "place_display p = foldl display_projection (p_base_name p) (p_projections p)"

section \<open>Loans, actions, facts\<close>

datatype LoanKind = LoanShared | LoanMutable

record CfgLocation =
  loc_block :: BasicBlockId
  loc_point :: NodeId
  loc_edge :: "EdgeId option"

datatype ActionKind =
    Read | Write | Introduce | Move | Drop | Return
  | TransferSession | TransferChild | BorrowShared | BorrowMut | BorrowEnd

record ResourceAction =
  a_kind :: ActionKind
  a_resource :: ResourceId
  a_source :: "Place option"
  a_target :: "Place option"
  a_loan :: "LoanId option"
  a_location :: CfgLocation
  a_span :: Span
  a_origin :: Origin

datatype Availability = Available | Consumed | MaybeConsumed

record ResourceFact =
  availability :: Availability
  owner :: "Place option"
  introduced_span :: "Span option"

record Loan =
  l_id :: LoanId
  l_parent :: "LoanId option"
  l_kind :: LoanKind
  l_place :: Place
  l_reference :: "LocalId option"
  l_reference_name :: "string option"
  l_start :: CfgLocation
  l_end_edges :: "EdgeId list"
  l_span :: Span

section \<open>The control-flow graph\<close>

record CfgSource =
  src_node :: NodeId
  src_span :: Span
  src_origin :: Origin

datatype CfgPointKind =
  PkStatement | PkExpression | PkCondition | PkBinding | PkAssignment | PkResourceAction

record CfgPoint =
  pt_source :: CfgSource
  pt_kind :: CfgPointKind
  pt_uses :: "string list"
  pt_defs :: "string list"
  pt_reads :: "string list"
  pt_writes :: "string list"
  pt_read_places :: "Place list"
  pt_write_places :: "Place list"

datatype EdgeKind =
  Fallthrough | EThen | EElse | MatchArm | LoopBody | LoopExit | Backedge | EBreak | EContinue

record CfgEdge =
  e_id :: EdgeId
  e_from :: BasicBlockId
  e_to :: BasicBlockId
  e_kind :: EdgeKind
  e_source :: CfgSource

datatype Terminator =
    TGoto EdgeId
  | TBranch NodeId EdgeId EdgeId
  | TMatch NodeId "EdgeId list"
  | TReturn "NodeId option" bool
  | TBreak EdgeId
  | TContinue EdgeId
  | TDiverge
  | TUnreachable

fun outgoing_edges :: "Terminator \<Rightarrow> EdgeId list" where
  "outgoing_edges (TGoto e) = [e]"
| "outgoing_edges (TBreak e) = [e]"
| "outgoing_edges (TContinue e) = [e]"
| "outgoing_edges (TBranch _ t e) = [t, e]"
| "outgoing_edges (TMatch _ arms) = arms"
| "outgoing_edges (TReturn _ _) = []"
| "outgoing_edges TDiverge = []"
| "outgoing_edges TUnreachable = []"

fun is_terminal :: "Terminator \<Rightarrow> bool" where
  "is_terminal (TReturn _ _) = True"
| "is_terminal TDiverge = True"
| "is_terminal TUnreachable = True"
| "is_terminal _ = False"

record BasicBlock =
  b_id :: BasicBlockId
  b_source :: CfgSource
  b_points :: "CfgPoint list"
  b_terminator :: Terminator

record CallableCfg =
  cfg_owner :: NodeId
  cfg_entry :: BasicBlockId
  cfg_blocks :: "(BasicBlockId, BasicBlock) btree_map"
  cfg_edges :: "(EdgeId, CfgEdge) btree_map"
  cfg_reachable :: "BasicBlockId btree_set"
  cfg_successor_index :: "(BasicBlockId, EdgeId list) btree_map"
  cfg_predecessor_index :: "(BasicBlockId, EdgeId list) btree_map"

definition cfg_block :: "CallableCfg \<Rightarrow> BasicBlockId \<Rightarrow> BasicBlock option" where
  "cfg_block cfg b = bt_get (cfg_blocks cfg) b"

definition cfg_edge :: "CallableCfg \<Rightarrow> EdgeId \<Rightarrow> CfgEdge option" where
  "cfg_edge cfg e = bt_get (cfg_edges cfg) e"

text \<open>\<open>adjacent\<close>: the indexed edge ids that the edge table knows, in index order.\<close>

definition cfg_adjacent ::
    "CallableCfg \<Rightarrow> BasicBlockId \<Rightarrow> (BasicBlockId, EdgeId list) btree_map \<Rightarrow> CfgEdge list" where
  "cfg_adjacent cfg b index =
     (case bt_get index b of
        None \<Rightarrow> []
      | Some ids \<Rightarrow> List.map_filter (\<lambda>e. bt_get (cfg_edges cfg) e) ids)"

definition cfg_predecessors :: "CallableCfg \<Rightarrow> BasicBlockId \<Rightarrow> CfgEdge list" where
  "cfg_predecessors cfg b = cfg_adjacent cfg b (cfg_predecessor_index cfg)"

definition cfg_successors :: "CallableCfg \<Rightarrow> BasicBlockId \<Rightarrow> CfgEdge list" where
  "cfg_successors cfg b = cfg_adjacent cfg b (cfg_successor_index cfg)"

text \<open>\<open>entry(k).or_default().push(x)\<close>\<close>

definition index_push ::
    "'k::linorder \<Rightarrow> 'v \<Rightarrow> ('k, 'v list) btree_map \<Rightarrow> ('k, 'v list) btree_map" where
  "index_push k x m =
     bt_insert k (vec_push (case bt_get m k of None \<Rightarrow> [] | Some xs \<Rightarrow> xs) x) m"

definition with_adjacency_indexes :: "CallableCfg \<Rightarrow> CallableCfg" where
  "with_adjacency_indexes cfg =
     cfg\<lparr>cfg_successor_index :=
           foldl (\<lambda>m (i, e). index_push (e_from e) i m) [] (cfg_edges cfg),
         cfg_predecessor_index :=
           foldl (\<lambda>m (i, e). index_push (e_to e) i m) [] (cfg_edges cfg)\<rparr>"

section \<open>Conflict is symmetric; indexes agree with the edge table\<close>

lemma projection_overlap_sym: "projection_overlap l r = projection_overlap r l"
  by (induction l r rule: projection_overlap.induct) auto

lemma projections_conflict_sym: "projections_conflict ls rs = projections_conflict rs ls"
  by (induction ls rs rule: projections_conflict.induct)
    (auto simp: projection_overlap_sym [of l r for l r] projections_conflict.simps)

lemma conflicts_with_sym: "conflicts_with a b = conflicts_with b a"
  by (auto simp: conflicts_with_def projections_conflict_sym [of "p_projections a"])

lemma conflicts_with_prefix:
  "p_base a = p_base b \<Longrightarrow> p_projections b = p_projections a @ ps \<Longrightarrow> conflicts_with a b"
proof -
  have "projections_conflict xs (xs @ ys)" for xs ys
    by (induction xs) (auto simp: projections_conflict.simps)
  then show "p_base a = p_base b \<Longrightarrow> p_projections b = p_projections a @ ps \<Longrightarrow> ?thesis"
    by (simp add: conflicts_with_def)
qed

lemma index_push_get:
  "bt_get (index_push k x m) k' =
     (if k' = k then Some ((case bt_get m k of None \<Rightarrow> [] | Some xs \<Rightarrow> xs) @ [x])
      else bt_get m k')"
  by (simp add: index_push_def bt_simps vec_push_def)

lemma index_build_get:
  "(case bt_get (foldl (\<lambda>m (i, e). index_push (f e) i m) m es) k of None \<Rightarrow> [] | Some xs \<Rightarrow> xs) =
     (case bt_get m k of None \<Rightarrow> [] | Some xs \<Rightarrow> xs)
       @ map fst (filter (\<lambda>(i, e). f e = k) es)"
  by (induction es arbitrary: m) (auto simp: index_push_get)

lemma adjacent_built:
  assumes "bt_wf (cfg_edges cfg)"
  shows "cfg_adjacent cfg b (foldl (\<lambda>m (i, e). index_push (f e) i m) [] (cfg_edges cfg)) =
     filter (\<lambda>e. f e = b) (bt_values (cfg_edges cfg))"
proof -
  let ?es = "cfg_edges cfg"
  let ?index = "foldl (\<lambda>m (i, e). index_push (f e) i m) [] ?es"
  have "cfg_adjacent cfg b ?index =
      List.map_filter (bt_get ?es) (case bt_get ?index b of None \<Rightarrow> [] | Some xs \<Rightarrow> xs)"
    by (simp add: cfg_adjacent_def map_filter_simps split: option.splits)
  also have "\<dots> = List.map_filter (bt_get ?es) (map fst (filter (\<lambda>(i, e). f e = b) ?es))"
    by (simp add: index_build_get bt.get_empty)
  also have "\<dots> = filter (\<lambda>e. f e = b) (map snd ?es)"
  proof -
    have "List.map_filter (bt_get ?es) (map fst (filter (\<lambda>(i, e). f e = b) xs)) =
        filter (\<lambda>e. f e = b) (map snd xs)" if "set xs \<subseteq> set ?es" for xs
      using that assms by (induction xs) (auto simp: map_filter_simps bt_get_mem)
    then show ?thesis by blast
  qed
  finally show ?thesis by (simp add: bt_values_def)
qed

lemma indexed_successors:
  "bt_wf (cfg_edges cfg) \<Longrightarrow> cfg_successors (with_adjacency_indexes cfg) b =
     filter (\<lambda>e. e_from e = b) (bt_values (cfg_edges cfg))"
  using adjacent_built [of cfg b e_from]
  by (simp add: cfg_successors_def with_adjacency_indexes_def cfg_adjacent_def split: option.splits)

lemma indexed_predecessors:
  "bt_wf (cfg_edges cfg) \<Longrightarrow> cfg_predecessors (with_adjacency_indexes cfg) b =
     filter (\<lambda>e. e_to e = b) (bt_values (cfg_edges cfg))"
  using adjacent_built [of cfg b e_to]
  by (simp add: cfg_predecessors_def with_adjacency_indexes_def cfg_adjacent_def split: option.splits)


section \<open>What the conflict test means\<close>

text \<open>
  A storage location below a local: the field, tuple or index steps that lead to it. A place
  without dereference denotes the locations whose path starts with an instance of its
  projections.
\<close>

datatype Step = StepField NodeId | StepTuple nat | StepIndex int

fun step_matches :: "PlaceProjection \<Rightarrow> Step \<Rightarrow> bool" where
  "step_matches (PField f _) (StepField g) = (f = g)"
| "step_matches (PTuple i) (StepTuple j) = (i = j)"
| "step_matches (PIndex (ConstantIx i)) (StepIndex j) = (i = j)"
| "step_matches (PIndex DynamicIx) (StepIndex j) = True"
| "step_matches _ _ = False"

fun path_matches :: "PlaceProjection list \<Rightarrow> Step list \<Rightarrow> bool" where
  "path_matches [] _ = True"
| "path_matches (p # ps) (s # ss) = (step_matches p s \<and> path_matches ps ss)"
| "path_matches (p # ps) [] = False"

definition denotes :: "Place \<Rightarrow> LocalId \<times> Step list \<Rightarrow> bool" where
  "denotes pl l \<longleftrightarrow> p_base pl = fst l \<and> path_matches (p_projections pl) (snd l)"

lemma step_overlap: "step_matches p s \<Longrightarrow> step_matches q s \<Longrightarrow> projection_overlap p q"
  by (induction p q rule: projection_overlap.induct) (cases s; auto)+

lemma path_overlap: "path_matches ps ss \<Longrightarrow> path_matches qs ss \<Longrightarrow> projections_conflict ps qs"
proof (induction ps qs arbitrary: ss rule: projections_conflict.induct)
  case (1 l ls r rs)
  then show ?case by (cases ss) (auto simp: step_overlap)
qed auto

text \<open>
  the conflict test is conservative and symmetric: two places it lets pass are free of
  dereferences and have no storage location in common.
\<close>

theorem conflict_test_conservative:
  "conflicts_with a b = conflicts_with b a \<and>
   (conflicts_with a b \<or>
      PDeref \<notin> set (p_projections a) \<and> PDeref \<notin> set (p_projections b) \<and> \<not> (\<exists>l. denotes a l \<and> denotes b l))"
proof -
  have "conflicts_with a b" if "denotes a l" "denotes b l" for l
    using that path_overlap [of "p_projections a" "snd l" "p_projections b"]
    by (auto simp: conflicts_with_def denotes_def)
  then show ?thesis using conflicts_with_sym [of a b] by (auto simp: conflicts_with_def split: if_splits)
qed

text \<open>
  the adjacency indexes are an optimisation of a scan of the edge table: for a well-ordered
  table the indexed successors and predecessors of a block are exactly the edges that leave and
  enter it, in key order.
\<close>

theorem adjacency_indexes_correct:
  assumes "bt_wf (cfg_edges cfg)"
  shows "cfg_successors (with_adjacency_indexes cfg) b = filter (\<lambda>e. e_from e = b) (bt_values (cfg_edges cfg)) \<and>
    cfg_predecessors (with_adjacency_indexes cfg) b = filter (\<lambda>e. e_to e = b) (bt_values (cfg_edges cfg))"
  using indexed_successors [OF assms] indexed_predecessors [OF assms] by simp

end
