(* ===== verification/Mimi_Transfer.thy ===== *)
theory Mimi_Transfer
  imports Mimi_Cfg
begin

text \<open>
  The transfer function and the join of the resource analysis of
  \<open>src/core/cfg/dataflow.rs\<close>: \<open>transfer\<close>, \<open>join_predecessors\<close> and their helpers. An operation
  that pushes diagnostics returns the ones it pushes beside its new state.
\<close>

section \<open>States and diagnostics\<close>

record FlowState =
  fs_resources :: "(ResourceId, ResourceFact) btree_map"
  fs_loans :: "LoanId btree_set"

definition FlowState_default :: FlowState where
  "FlowState_default = \<lparr>fs_resources = [], fs_loans = []\<rparr>"

type_synonym loan_catalog = "(LoanId, Loan) btree_map"

definition place_or_resource :: "Place option \<Rightarrow> ResourceId \<Rightarrow> string" where
  "place_or_resource p r = (case p of Some pl \<Rightarrow> place_display pl | None \<Rightarrow> node_str r)"

definition add_introduction_note :: "Diagnostic \<Rightarrow> ResourceFact \<Rightarrow> string \<Rightarrow> Diagnostic" where
  "add_introduction_note d rf name =
     (case introduced_span rf of
        Some sp \<Rightarrow> with_note d (''resource '' @ quoted name @ '' introduced here'') sp
      | None \<Rightarrow> d)"

definition validate_action_owner :: "ResourceAction \<Rightarrow> ResourceFact \<Rightarrow> Diagnostic list" where
  "validate_action_owner action rf =
     (if availability rf \<noteq> Available then []
      else case (owner rf, a_source action) of
        (Some own, Some source) \<Rightarrow>
          if p_base own = p_base source then []
          else [add_introduction_note
                  (with_help
                    (error_code ''E0304''
                      (''resource '' @ quoted (place_display source)
                        @ '' cannot be used after it was moved to '' @ quoted (place_display own))
                      (a_span action))
                    ''use the binding that currently owns the resource'')
                  rf (place_display source)]
      | _ \<Rightarrow> [])"

section \<open>Loan conflicts\<close>

definition reject_read_conflicts ::
    "ResourceAction \<Rightarrow> FlowState \<Rightarrow> loan_catalog \<Rightarrow> Diagnostic list" where
  "reject_read_conflicts action state loans =
     (case a_source action of
        None \<Rightarrow> []
      | Some place \<Rightarrow>
          concat (map (\<lambda>active.
            (case bt_get loans active of
               Some loan \<Rightarrow>
                 if l_kind loan = LoanMutable \<and> conflicts_with (l_place loan) place
                 then [error_code ''E0415''
                         (''cannot read '' @ quoted (place_display place) @ '' while it is mutably borrowed'')
                         (a_span action)]
                 else []
             | None \<Rightarrow> []))
          (fs_loans state)))"

definition reject_conflicting_loans ::
    "ResourceAction \<Rightarrow> FlowState \<Rightarrow> loan_catalog \<Rightarrow> Diagnostic list" where
  "reject_conflicting_loans action state loans =
     (case a_source action of
        None \<Rightarrow> []
      | Some place \<Rightarrow>
          concat (map (\<lambda>active.
            (case bt_get loans active of
               Some loan \<Rightarrow>
                 if conflicts_with (l_place loan) place
                 then [error_code ''E0415''
                         (''cannot '' @ (if a_kind action = Write then ''write'' else ''move or drop'')
                           @ '' '' @ quoted (place_display place) @ '' while it is borrowed'')
                         (a_span action)]
                 else []
             | None \<Rightarrow> []))
          (fs_loans state)))"

text \<open>The code and the two adjectives of a borrow error; two shared loans do not conflict.\<close>

fun borrow_error_words :: "LoanKind \<Rightarrow> LoanKind \<Rightarrow> (string \<times> string \<times> string) option" where
  "borrow_error_words LoanMutable LoanShared = Some (''E0300'', ''mutable'', ''immutably'')"
| "borrow_error_words LoanMutable LoanMutable = Some (''E0301'', ''mutable'', ''mutably'')"
| "borrow_error_words LoanShared LoanMutable = Some (''E0302'', ''immutable'', ''mutably'')"
| "borrow_error_words LoanShared LoanShared = None"

definition loan_clash :: "Loan \<Rightarrow> LoanId \<Rightarrow> Loan \<Rightarrow> bool" where
  "loan_clash new_loan active_id active \<longleftrightarrow>
     conflicts_with (l_place new_loan) (l_place active) \<and> l_parent new_loan \<noteq> Some active_id
     \<and> (l_kind new_loan = LoanMutable \<or> l_kind active = LoanMutable)"

definition reject_borrow_conflicts ::
    "ResourceAction \<Rightarrow> Loan \<Rightarrow> FlowState \<Rightarrow> loan_catalog \<Rightarrow> Diagnostic list" where
  "reject_borrow_conflicts action new_loan state loans =
     concat (map (\<lambda>active_id.
       (case bt_get loans active_id of
          None \<Rightarrow> []
        | Some active \<Rightarrow>
            if loan_clash new_loan active_id active
            then (case borrow_error_words (l_kind new_loan) (l_kind active) of
                    Some (code, qualifier, existing) \<Rightarrow>
                      [error_code code
                         (''cannot borrow '' @ quoted (place_display (l_place new_loan)) @ '' as ''
                           @ qualifier @ '' because it is already '' @ existing @ '' borrowed'')
                         (a_span action)]
                  | None \<Rightarrow> [])
            else []))
     (fs_loans state))"

section \<open>Transfer\<close>

text \<open>\<open>entry(resource).or_insert(..)\<close>, and the span filled in when it is missing.\<close>

definition entry_fact :: "ResourceAction \<Rightarrow> FlowState \<Rightarrow> ResourceFact" where
  "entry_fact action state =
     (let rf = (case bt_get (fs_resources state) (a_resource action) of
            Some f \<Rightarrow> f
          | None \<Rightarrow> \<lparr>availability = Available, owner = a_source action,
                     introduced_span = Some (a_span action)\<rparr>)
      in if introduced_span rf = None then rf\<lparr>introduced_span := Some (a_span action)\<rparr> else rf)"

definition owner_errors :: "ResourceAction \<Rightarrow> FlowState \<Rightarrow> Diagnostic list" where
  "owner_errors action state =
     (case bt_get (fs_resources state) (a_resource action) of
        Some existing \<Rightarrow> validate_action_owner action existing
      | None \<Rightarrow> [])"

definition set_fact :: "ResourceId \<Rightarrow> ResourceFact \<Rightarrow> FlowState \<Rightarrow> FlowState" where
  "set_fact r f state = state\<lparr>fs_resources := bt_insert r f (fs_resources state)\<rparr>"

definition transfer_move ::
    "ResourceAction \<Rightarrow> FlowState \<Rightarrow> loan_catalog \<Rightarrow> FlowState \<times> Diagnostic list" where
  "transfer_move action state loans =
     (let rf = entry_fact action state;
          moved_name = place_or_resource (a_source action) (a_resource action);
          errs = reject_conflicting_loans action state loans @ owner_errors action state @
            (if availability rf \<noteq> Available
             then [add_introduction_note
                     (error_code ''E0304''
                        (''resource '' @ quoted moved_name @ '' is moved after it was consumed'')
                        (a_span action))
                     rf moved_name]
             else []);
          rf' = (case a_target action of
              Some target \<Rightarrow> rf\<lparr>availability := Available, owner := Some target\<rparr>
            | None \<Rightarrow> rf\<lparr>availability := Consumed, owner := None\<rparr>)
      in (set_fact (a_resource action) rf' state, errs))"

definition transfer_consume ::
    "ResourceAction \<Rightarrow> FlowState \<Rightarrow> loan_catalog \<Rightarrow> FlowState \<times> Diagnostic list" where
  "transfer_consume action state loans =
     (let rf = entry_fact action state;
          consumed_name = place_or_resource (a_source action) (a_resource action);
          errs = reject_conflicting_loans action state loans @ owner_errors action state @
            (if availability rf \<noteq> Available
             then [add_introduction_note
                     (error_code ''E0304''
                        (''resource '' @ quoted consumed_name @ '' is consumed more than once on this CFG path'')
                        (a_span action))
                     rf consumed_name]
             else [])
      in (set_fact (a_resource action) (rf\<lparr>availability := Consumed, owner := None\<rparr>) state, errs))"

definition transfer_borrow ::
    "ResourceAction \<Rightarrow> FlowState \<Rightarrow> loan_catalog \<Rightarrow> FlowState \<times> Diagnostic list" where
  "transfer_borrow action state loans =
     (case a_loan action of
        None \<Rightarrow> (state, [])
      | Some new_id \<Rightarrow>
          (case bt_get loans new_id of
             None \<Rightarrow> (state, [])
           | Some new_loan \<Rightarrow>
               (state\<lparr>fs_loans := bs_insert new_id (fs_loans state)\<rparr>,
                reject_borrow_conflicts action new_loan state loans)))"

definition transfer_borrow_end ::
    "ResourceAction \<Rightarrow> FlowState \<Rightarrow> loan_catalog \<Rightarrow> FlowState" where
  "transfer_borrow_end action state loans =
     (case a_loan action of
        Some loan \<Rightarrow> state\<lparr>fs_loans := bs_remove loan (fs_loans state)\<rparr>
      | None \<Rightarrow>
          (case a_source action of
             None \<Rightarrow> state
           | Some place \<Rightarrow>
               state\<lparr>fs_loans := filter (\<lambda>i. case bt_get loans i of
                   None \<Rightarrow> True | Some loan \<Rightarrow> \<not> conflicts_with (l_place loan) place) (fs_loans state)\<rparr>))"

definition transfer ::
    "loan_catalog \<Rightarrow> ResourceAction \<Rightarrow> FlowState \<Rightarrow> FlowState \<times> Diagnostic list" where
  "transfer loans action state =
     (case a_kind action of
        Read \<Rightarrow> (state, reject_read_conflicts action state loans)
      | Write \<Rightarrow> (state, reject_conflicting_loans action state loans)
      | Introduce \<Rightarrow>
          (set_fact (a_resource action)
             \<lparr>availability = Available,
              owner = (case a_target action of Some t \<Rightarrow> Some t | None \<Rightarrow> a_source action),
              introduced_span = Some (a_span action)\<rparr> state, [])
      | Move \<Rightarrow> transfer_move action state loans
      | Drop \<Rightarrow> transfer_consume action state loans
      | Return \<Rightarrow> transfer_consume action state loans
      | TransferChild \<Rightarrow> transfer_consume action state loans
      | TransferSession \<Rightarrow> (state, reject_conflicting_loans action state loans)
      | BorrowShared \<Rightarrow> transfer_borrow action state loans
      | BorrowMut \<Rightarrow> transfer_borrow action state loans
      | BorrowEnd \<Rightarrow> (transfer_borrow_end action state loans, []))"

definition transfer_all ::
    "loan_catalog \<Rightarrow> ResourceAction list \<Rightarrow> FlowState \<Rightarrow> FlowState \<times> Diagnostic list" where
  "transfer_all loans actions state =
     foldl (\<lambda>(st, errs) a. case transfer loans a st of (st', e) \<Rightarrow> (st', errs @ e)) (state, []) actions"

section \<open>Join\<close>

definition emit_incompatible_join ::
    "CallableCfg \<Rightarrow> BasicBlockId \<Rightarrow> ResourceId \<Rightarrow> ResourceFact \<Rightarrow> ResourceFact \<Rightarrow> Diagnostic" where
  "emit_incompatible_join cfg block resource left right =
     (let name = place_or_resource
            (case owner left of Some p \<Rightarrow> Some p | None \<Rightarrow> owner right) resource;
          message =
            (if owner left \<noteq> owner right \<and> availability left = Available \<and> availability right = Available
             then ''resource '' @ quoted name @ '' is moved to incompatible places at a CFG join''
             else ''resource '' @ quoted name @ '' is consumed on only some reachable CFG paths'')
      in with_help
           (error_code ''E0304'' message
              (case cfg_block cfg block of Some b \<Rightarrow> src_span (b_source b) | None \<Rightarrow> Span_UNKNOWN))
           ''move, return, transfer, or drop the resource on every reachable path, or on none'')"

text \<open>The fact at a join when one side only has it.\<close>

fun one_sided_owner :: "Availability \<Rightarrow> Place option \<Rightarrow> Place option" where
  "one_sided_owner Available p = p"
| "one_sided_owner Consumed p = None"
| "one_sided_owner MaybeConsumed p = p"

definition one_sided :: "ResourceFact \<Rightarrow> ResourceFact" where
  "one_sided f = \<lparr>availability = availability f, owner = one_sided_owner (availability f) (owner f),
     introduced_span = introduced_span f\<rparr>"

definition join_fact ::
    "CallableCfg \<Rightarrow> BasicBlockId \<Rightarrow> ResourceId \<Rightarrow> ResourceFact option \<Rightarrow> ResourceFact option
       \<Rightarrow> ResourceFact option \<times> Diagnostic list" where
  "join_fact cfg block i left right =
     (case (left, right) of
        (Some l, Some r) \<Rightarrow>
          if l = r then (Some l, [])
          else (Some \<lparr>availability = MaybeConsumed,
                      owner = (if owner l = owner r then owner l else None),
                      introduced_span = (case introduced_span l of Some s \<Rightarrow> Some s | None \<Rightarrow> introduced_span r)\<rparr>,
                [emit_incompatible_join cfg block i l r])
      | (Some f, None) \<Rightarrow> (Some (one_sided f), [])
      | (None, Some f) \<Rightarrow> (Some (one_sided f), [])
      | (None, None) \<Rightarrow> (None, []))"

definition join_id ::
    "CallableCfg \<Rightarrow> BasicBlockId \<Rightarrow> FlowState \<Rightarrow> FlowState \<times> Diagnostic list \<Rightarrow> ResourceId
       \<Rightarrow> FlowState \<times> Diagnostic list" where
  "join_id cfg block state acc i =
     (case acc of (joined, errs) \<Rightarrow>
        (case join_fact cfg block i (bt_get (fs_resources joined) i) (bt_get (fs_resources state) i) of
           (None, e) \<Rightarrow> (joined, errs @ e)
         | (Some f, e) \<Rightarrow> (set_fact i f joined, errs @ e)))"

definition join_state ::
    "CallableCfg \<Rightarrow> BasicBlockId \<Rightarrow> FlowState \<times> Diagnostic list \<Rightarrow> FlowState
       \<Rightarrow> FlowState \<times> Diagnostic list" where
  "join_state cfg block acc state =
     (let ids = bs_extend [] (bt_keys (fs_resources (fst acc)) @ bt_keys (fs_resources state));
          acc' = foldl (join_id cfg block state) acc ids
      in ((fst acc')\<lparr>fs_loans := bs_extend (fs_loans (fst acc')) (fs_loans state)\<rparr>, snd acc'))"

text \<open>A predecessor's state after the loans that end on the edge.\<close>

definition end_edge_loans :: "ResourceAction list \<Rightarrow> CfgEdge \<Rightarrow> FlowState \<Rightarrow> FlowState" where
  "end_edge_loans actions e state =
     foldl (\<lambda>st a. case a_loan a of
              Some loan \<Rightarrow> st\<lparr>fs_loans := bs_remove loan (fs_loans st)\<rparr>
            | None \<Rightarrow> st) state
       (filter (\<lambda>a. a_kind a = BorrowEnd \<and> loc_edge (a_location a) = Some (e_id e)) actions)"

definition predecessor_states ::
    "CallableCfg \<Rightarrow> BasicBlockId \<Rightarrow> (BasicBlockId, FlowState) btree_map \<Rightarrow> ResourceAction list
       \<Rightarrow> FlowState list" where
  "predecessor_states cfg block out actions =
     List.map_filter (\<lambda>e. map_option (end_edge_loans actions e) (bt_get out (e_from e)))
       (filter (\<lambda>e. e_from e \<in> set (cfg_reachable cfg)) (cfg_predecessors cfg block))"

definition join_predecessors ::
    "CallableCfg \<Rightarrow> BasicBlockId \<Rightarrow> (BasicBlockId, FlowState) btree_map \<Rightarrow> ResourceAction list
       \<Rightarrow> FlowState \<times> Diagnostic list" where
  "join_predecessors cfg block out actions =
     (case predecessor_states cfg block out actions of
        [] \<Rightarrow> (FlowState_default, [])
      | first # rest \<Rightarrow> foldl (join_state cfg block) (first, []) rest)"

end
