(* ===== verification/Mimi_Liveness.thy ===== *)
theory Mimi_Liveness
  imports Mimi_Cfg "HOL-Library.While_Combinator"
begin

text \<open>
  Breadth-first reachability and the backward liveness worklist of
  \<open>src/core/cfg/dataflow.rs\<close> (\<open>reachable_from\<close>, \<open>compute_liveness\<close>). Reachability terminates on
  every graph and returns the reflexive transitive closure; the worklist terminates on every
  indexed graph and returns exactly the upward-exposed uses along paths of reachable blocks.
\<close>

section \<open>Well-indexed graphs\<close>

definition cfg_indexed :: "CallableCfg \<Rightarrow> bool" where
  "cfg_indexed cfg \<longleftrightarrow> bt_wf (cfg_blocks cfg) \<and> bt_wf (cfg_edges cfg) \<and> bs_wf (cfg_reachable cfg)
     \<and> with_adjacency_indexes cfg = cfg"

lemma set_map_filter: "y \<in> set (List.map_filter f xs) \<longleftrightarrow> (\<exists>x \<in> set xs. f x = Some y)"
  by (auto simp: map_filter_def intro!: rev_image_eqI)

lemma successors_edges: "set (cfg_successors cfg b) \<subseteq> set (bt_values (cfg_edges cfg))"
proof
  fix e
  assume "e \<in> set (cfg_successors cfg b)"
  then obtain i where "bt_get (cfg_edges cfg) i = Some e"
    by (auto simp: cfg_successors_def cfg_adjacent_def set_map_filter split: option.splits)
  then show "e \<in> set (bt_values (cfg_edges cfg))"
    by (force simp: bt_values_def dest: bt_get_Some_mem)
qed

lemma indexed_succ:
  "cfg_indexed cfg \<Longrightarrow> cfg_successors cfg b = filter (\<lambda>e. e_from e = b) (bt_values (cfg_edges cfg))"
  using indexed_successors [of cfg b] by (simp add: cfg_indexed_def)

lemma indexed_pred:
  "cfg_indexed cfg \<Longrightarrow> cfg_predecessors cfg b = filter (\<lambda>e. e_to e = b) (bt_values (cfg_edges cfg))"
  using indexed_predecessors [of cfg b] by (simp add: cfg_indexed_def)

lemma succ_iff_pred:
  "cfg_indexed cfg \<Longrightarrow>
     e \<in> set (cfg_successors cfg b) \<and> e_to e = c \<longleftrightarrow> e \<in> set (cfg_predecessors cfg c) \<and> e_from e = b"
  by (auto simp: indexed_succ indexed_pred)

section \<open>Reachability\<close>

definition edge_targets :: "CallableCfg \<Rightarrow> BasicBlockId set" where
  "edge_targets cfg = e_to ` set (bt_values (cfg_edges cfg))"

function bfs :: "CallableCfg \<Rightarrow> BasicBlockId list \<Rightarrow> BasicBlockId btree_set \<Rightarrow> BasicBlockId btree_set"
where
  "bfs cfg [] reachable = reachable"
| "bfs cfg (block # queue) reachable =
     (if block \<in> set reachable then bfs cfg queue reachable
      else bfs cfg (queue @ map e_to (cfg_successors cfg block)) (bs_insert block reachable))"
  by pat_completeness auto
termination
proof (relation "measures [\<lambda>(cfg, q, r). card ((set q \<union> edge_targets cfg) - set r), \<lambda>(cfg, q, r). length q]")
  show "wf (measures [\<lambda>(cfg, q, r). card ((set q \<union> edge_targets cfg) - set r),
      \<lambda>(cfg, q, r :: BasicBlockId list). length q])"
    by simp
next
  fix cfg and block :: BasicBlockId and queue and reachable :: "BasicBlockId list"
  assume "block \<in> set reachable"
  then have "(set (block # queue) \<union> edge_targets cfg) - set reachable =
      (set queue \<union> edge_targets cfg) - set reachable" by auto
  then show "((cfg, queue, reachable), (cfg, block # queue, reachable))
      \<in> measures [\<lambda>(cfg, q, r). card ((set q \<union> edge_targets cfg) - set r), \<lambda>(cfg, q, r). length q]"
    by simp
next
  fix cfg and block :: BasicBlockId and queue and reachable :: "BasicBlockId list"
  assume new: "block \<notin> set reachable"
  let ?q = "queue @ map e_to (cfg_successors cfg block)"
  have fin: "finite (edge_targets cfg)" by (simp add: edge_targets_def)
  have "e_to ` set (cfg_successors cfg block) \<subseteq> edge_targets cfg"
    using successors_edges [of cfg block] by (auto simp: edge_targets_def)
  then have "(set ?q \<union> edge_targets cfg) - set (bs_insert block reachable)
      \<subset> (set (block # queue) \<union> edge_targets cfg) - set reachable"
    using new by auto
  then have "card ((set ?q \<union> edge_targets cfg) - set (bs_insert block reachable))
      < card ((set (block # queue) \<union> edge_targets cfg) - set reachable)"
    by (intro psubset_card_mono) (use fin in auto)
  then show "((cfg, ?q, bs_insert block reachable), (cfg, block # queue, reachable))
      \<in> measures [\<lambda>(cfg, q, r). card ((set q \<union> edge_targets cfg) - set r), \<lambda>(cfg, q, r). length q]"
    by simp
qed

definition reachable_from :: "CallableCfg \<Rightarrow> BasicBlockId \<Rightarrow> BasicBlockId btree_set" where
  "reachable_from cfg start = bfs cfg [start] []"

definition cfg_step :: "CallableCfg \<Rightarrow> (BasicBlockId \<times> BasicBlockId) set" where
  "cfg_step cfg = {(a, e_to e) | a e. e \<in> set (cfg_successors cfg a)}"

lemma bfs_wf: "bs_wf r \<Longrightarrow> bs_wf (bfs cfg q r)"
  by (induction cfg q r rule: bfs.induct) auto

lemma bfs_sound:
  assumes "set q \<subseteq> {b. (s, b) \<in> (cfg_step cfg)\<^sup>*}" and "set r \<subseteq> {b. (s, b) \<in> (cfg_step cfg)\<^sup>*}"
  shows "set (bfs cfg q r) \<subseteq> {b. (s, b) \<in> (cfg_step cfg)\<^sup>*}"
  using assms
proof (induction cfg q r rule: bfs.induct)
  case (2 cfg block queue reachable)
  show ?case
  proof (cases "block \<in> set reachable")
    case False
    have "(s, e_to e) \<in> (cfg_step cfg)\<^sup>*" if "e \<in> set (cfg_successors cfg block)" for e
      using 2(3) that by (auto intro!: rtrancl.rtrancl_into_rtrancl [of s block] simp: cfg_step_def)
    with 2 False show ?thesis by auto
  qed (use 2 in auto)
qed auto

lemma bfs_closed:
  assumes "\<And>a e. a \<in> set r \<Longrightarrow> e \<in> set (cfg_successors cfg a) \<Longrightarrow> e_to e \<in> set r \<union> set q"
  shows "set r \<union> set q \<subseteq> set (bfs cfg q r)
    \<and> (\<forall>a \<in> set (bfs cfg q r). \<forall>e \<in> set (cfg_successors cfg a). e_to e \<in> set (bfs cfg q r))"
  using assms
proof (induction cfg q r rule: bfs.induct)
  case (2 cfg block queue reachable)
  show ?case
  proof (cases "block \<in> set reachable")
    case True
    have "e_to e \<in> set reachable \<union> set queue"
      if "a \<in> set reachable" "e \<in> set (cfg_successors cfg a)" for a e
      using 2(3) [OF that] True by auto
    with 2(1) [OF True] True show ?thesis by auto
  next
    case False
    have "e_to e \<in> set (bs_insert block reachable) \<union> set (queue @ map e_to (cfg_successors cfg block))"
      if "a \<in> set (bs_insert block reachable)" "e \<in> set (cfg_successors cfg a)" for a e
      using 2(3) [of a e] that by auto
    with 2(2) [OF False] False show ?thesis by auto
  qed
qed auto

declare bfs.simps(2) [simp del]

lemma reachable_from_wf: "bs_wf (reachable_from cfg s)"
  by (simp add: reachable_from_def bfs_wf)

lemma reachable_from_set: "set (reachable_from cfg s) = (cfg_step cfg)\<^sup>* `` {s}"
proof
  show "set (reachable_from cfg s) \<subseteq> (cfg_step cfg)\<^sup>* `` {s}"
    using bfs_sound [of "[s]" s cfg "[]"] by (auto simp: reachable_from_def)
  have closed: "s \<in> set (bfs cfg [s] [])"
    "\<And>a e. a \<in> set (bfs cfg [s] []) \<Longrightarrow> e \<in> set (cfg_successors cfg a) \<Longrightarrow> e_to e \<in> set (bfs cfg [s] [])"
    using bfs_closed [of "[]" cfg "[s]"] by auto
  have "b \<in> set (bfs cfg [s] [])" if "(s, b) \<in> (cfg_step cfg)\<^sup>*" for b
    using that
  proof (induction rule: rtrancl_induct)
    case (step y z)
    then show ?case using closed(2) [OF step.IH] by (auto simp: cfg_step_def)
  qed (rule closed(1))
  then show "(cfg_step cfg)\<^sup>* `` {s} \<subseteq> set (reachable_from cfg s)"
    by (auto simp: reachable_from_def)
qed


text \<open>the breadth-first search returns exactly the blocks at the end of a path of edges.\<close>

theorem reachable_from_closure: "set (reachable_from cfg s) = (cfg_step cfg)\<^sup>* `` {s}"
  by (rule reachable_from_set)

section \<open>The liveness worklist\<close>

record LiveState =
  lv_work :: "BasicBlockId list"
  lv_queued :: "BasicBlockId btree_set"
  lv_in :: "(BasicBlockId, string btree_set) btree_map"
  lv_out :: "(BasicBlockId, string btree_set) btree_map"

text \<open>One point, backwards: its definitions are removed, then its uses added.\<close>

definition live_point :: "string btree_set \<Rightarrow> CfgPoint \<Rightarrow> string btree_set" where
  "live_point input p = bs_extend (foldl (\<lambda>i d. bs_remove d i) input (pt_defs p)) (pt_uses p)"

definition live_transfer :: "CallableCfg \<Rightarrow> BasicBlockId \<Rightarrow> string btree_set \<Rightarrow> string btree_set" where
  "live_transfer cfg b out =
     (case cfg_block cfg b of
        None \<Rightarrow> out
      | Some block \<Rightarrow> foldl live_point out (rev (b_points block)))"

definition live_out_of ::
    "CallableCfg \<Rightarrow> (BasicBlockId, string btree_set) btree_map \<Rightarrow> BasicBlockId \<Rightarrow> string btree_set" where
  "live_out_of cfg live_in b =
     bs_extend []
       (concat (map (\<lambda>e. case bt_get live_in (e_to e) of None \<Rightarrow> [] | Some l \<Rightarrow> l)
          (filter (\<lambda>e. e_to e \<in> set (cfg_reachable cfg)) (cfg_successors cfg b))))"

definition live_push :: "CallableCfg \<Rightarrow> LiveState \<Rightarrow> CfgEdge \<Rightarrow> LiveState" where
  "live_push cfg s e =
     (if e_from e \<in> set (cfg_reachable cfg) \<and> e_from e \<notin> set (lv_queued s)
      then s\<lparr>lv_work := lv_work s @ [e_from e], lv_queued := bs_insert (e_from e) (lv_queued s)\<rparr>
      else s)"

definition live_step :: "CallableCfg \<Rightarrow> LiveState \<Rightarrow> LiveState" where
  "live_step cfg s =
     (case lv_work s of
        [] \<Rightarrow> s
      | b # rest \<Rightarrow>
          let s1 = s\<lparr>lv_work := rest, lv_queued := bs_remove b (lv_queued s)\<rparr>;
              out = live_out_of cfg (lv_in s) b;
              input = live_transfer cfg b out;
              s2 = (if bt_get (lv_out s) b \<noteq> Some out
                    then s1\<lparr>lv_out := bt_insert b out (lv_out s)\<rparr> else s1)
          in if bt_get (lv_in s) b \<noteq> Some input
             then foldl (live_push cfg) (s2\<lparr>lv_in := bt_insert b input (lv_in s)\<rparr>)
                    (cfg_predecessors cfg b)
             else s2)"

definition live_start :: "CallableCfg \<Rightarrow> LiveState" where
  "live_start cfg =
     \<lparr>lv_work = rev (cfg_reachable cfg), lv_queued = bs_extend [] (rev (cfg_reachable cfg)),
      lv_in = [], lv_out = []\<rparr>"

definition compute_liveness ::
    "CallableCfg \<Rightarrow> ((BasicBlockId, string btree_set) btree_map
       \<times> (BasicBlockId, string btree_set) btree_map) option" where
  "compute_liveness cfg =
     map_option (\<lambda>s. (lv_in s, lv_out s))
       (while_option (\<lambda>s. lv_work s \<noteq> []) (live_step cfg) (live_start cfg))"

section \<open>Liveness as paths\<close>

fun used_first :: "string \<Rightarrow> CfgPoint list \<Rightarrow> bool" where
  "used_first x [] = False"
| "used_first x (p # ps) = (x \<in> set (pt_uses p) \<or> x \<notin> set (pt_defs p) \<and> used_first x ps)"

definition undefined_in :: "string \<Rightarrow> CfgPoint list \<Rightarrow> bool" where
  "undefined_in x ps = (\<forall>p \<in> set ps. x \<notin> set (pt_defs p))"

definition points_of :: "CallableCfg \<Rightarrow> BasicBlockId \<Rightarrow> CfgPoint list" where
  "points_of cfg b = (case cfg_block cfg b of None \<Rightarrow> [] | Some block \<Rightarrow> b_points block)"

text \<open>
  A name is live on entry of a block when some path of edges through reachable blocks uses it
  before it defines it.
\<close>

inductive live_at :: "CallableCfg \<Rightarrow> BasicBlockId \<Rightarrow> string \<Rightarrow> bool" for cfg where
  here: "used_first x (points_of cfg b) \<Longrightarrow> live_at cfg b x"
| later: "undefined_in x (points_of cfg b) \<Longrightarrow> e \<in> set (cfg_successors cfg b) \<Longrightarrow>
    e_to e \<in> set (cfg_reachable cfg) \<Longrightarrow> live_at cfg (e_to e) x \<Longrightarrow> live_at cfg b x"

inductive_simps live_at_iff: "live_at cfg b x"

lemma foldl_bs_remove: "set (foldl (\<lambda>i d. bs_remove d i) i ds) = set i - set ds"
  by (induction ds arbitrary: i) auto

lemma foldl_live_point:
  "x \<in> set (foldl live_point out (rev ps)) \<longleftrightarrow> used_first x ps \<or> undefined_in x ps \<and> x \<in> set out"
proof (induction ps)
  case (Cons p ps)
  have "x \<in> set (foldl live_point out (rev (p # ps))) \<longleftrightarrow>
      x \<in> set (pt_uses p) \<or> x \<in> set (foldl live_point out (rev ps)) \<and> x \<notin> set (pt_defs p)"
    by (auto simp: live_point_def foldl_bs_remove)
  with Cons show ?case by (auto simp: undefined_in_def)
qed (simp add: undefined_in_def)

lemma set_live_transfer:
  "x \<in> set (live_transfer cfg b out) \<longleftrightarrow>
     used_first x (points_of cfg b) \<or> undefined_in x (points_of cfg b) \<and> x \<in> set out"
  by (cases "cfg_block cfg b") (auto simp: live_transfer_def points_of_def foldl_live_point undefined_in_def)

definition live_in_set :: "(BasicBlockId, string btree_set) btree_map \<Rightarrow> BasicBlockId \<Rightarrow> string set" where
  "live_in_set m b = (case bt_get m b of None \<Rightarrow> {} | Some l \<Rightarrow> set l)"

lemma live_in_set_alt: "live_in_set m b = set (case bt_get m b of None \<Rightarrow> [] | Some l \<Rightarrow> l)"
  by (simp add: live_in_set_def split: option.splits)

lemma set_live_out_of:
  "set (live_out_of cfg m b) =
     (\<Union>e \<in> {e \<in> set (cfg_successors cfg b). e_to e \<in> set (cfg_reachable cfg)}. live_in_set m (e_to e))"
  by (simp add: live_out_of_def live_in_set_alt)

lemma live_out_of_cong:
  assumes "\<And>e. e \<in> set (cfg_successors cfg b) \<Longrightarrow> e_to e \<in> set (cfg_reachable cfg) \<Longrightarrow>
    bt_get m (e_to e) = bt_get m' (e_to e)"
  shows "live_out_of cfg m b = live_out_of cfg m' b"
  unfolding live_out_of_def
  by (intro arg_cong [where f = "bs_extend []"] arg_cong [where f = concat] map_cong refl) (simp add: assms)

lemma live_out_of_wf: "bs_wf (live_out_of cfg m b)"
  by (simp add: live_out_of_def bs_wf_extend)

lemma live_transfer_wf: "bs_wf out \<Longrightarrow> bs_wf (live_transfer cfg b out)"
proof -
  have remove: "bs_wf i \<Longrightarrow> bs_wf (foldl (\<lambda>i d. bs_remove d i) i ds)" for i and ds :: "string list"
    by (induction ds arbitrary: i) auto
  have "bs_wf out \<Longrightarrow> bs_wf (foldl live_point out ps)" for ps
    by (induction ps arbitrary: out) (simp_all add: live_point_def bs_wf_extend remove)
  then show "bs_wf out \<Longrightarrow> bs_wf (live_transfer cfg b out)"
    by (simp add: live_transfer_def split: option.split)
qed

lemma live_transfer_mono:
  assumes "\<And>c. live_in_set m c \<subseteq> live_in_set m' c"
  shows "set (live_transfer cfg b (live_out_of cfg m b)) \<subseteq> set (live_transfer cfg b (live_out_of cfg m' b))"
  using assms by (fastforce simp: set_live_transfer set_live_out_of)


section \<open>One step of the worklist\<close>

lemma live_push_fold:
  fixes cfg :: CallableCfg and es :: "CfgEdge list" and s :: LiveState
  assumes "distinct (lv_work s)" and "set (lv_work s) = set (lv_queued s)"
  defines "t \<equiv> foldl (live_push cfg) s es"
  shows "distinct (lv_work t) \<and> set (lv_work t) = set (lv_queued t) \<and>
    set (lv_work t) = set (lv_work s) \<union> {b \<in> set (cfg_reachable cfg). b \<in> e_from ` set es} \<and>
    lv_in t = lv_in s \<and> lv_out t = lv_out s"
  using assms(1,2) unfolding t_def
proof (induction es arbitrary: s)
  case (Cons e es)
  have "distinct (lv_work (live_push cfg s e))"
    "set (lv_work (live_push cfg s e)) = set (lv_queued (live_push cfg s e))"
    using Cons.prems by (auto simp: live_push_def)
  note IH = Cons.IH [OF this]
  have "set (lv_work (live_push cfg s e)) = set (lv_work s) \<union> {b \<in> set (cfg_reachable cfg). b = e_from e}"
    "lv_in (live_push cfg s e) = lv_in s" "lv_out (live_push cfg s e) = lv_out s"
    using Cons.prems by (auto simp: live_push_def)
  moreover have "{b \<in> set (cfg_reachable cfg). b \<in> e_from ` set (e # es)} =
      {b \<in> set (cfg_reachable cfg). b = e_from e} \<union> {b \<in> set (cfg_reachable cfg). b \<in> e_from ` set es}"
    by auto
  ultimately show ?case using IH by (auto simp only: foldl.simps Un_assoc)
qed auto

lemma live_step_cases:
  fixes cfg :: CallableCfg and s :: LiveState
  assumes "lv_work s = b # rest" and "distinct (lv_work s)" and "set (lv_work s) = set (lv_queued s)"
  defines "out \<equiv> live_out_of cfg (lv_in s) b"
  defines "input \<equiv> live_transfer cfg b out"
  defines "t \<equiv> live_step cfg s"
  shows "distinct (lv_work t)" and "set (lv_work t) = set (lv_queued t)"
    and "bt_get (lv_in t) = (bt_get (lv_in s))(b \<mapsto> input)"
    and "bt_get (lv_out t) = (bt_get (lv_out s))(b \<mapsto> out)"
    and "bt_get (lv_in s) b = Some input \<Longrightarrow> lv_work t = rest"
    and "bt_get (lv_in s) b \<noteq> Some input \<Longrightarrow> set (lv_work t) =
           set rest \<union> {c \<in> set (cfg_reachable cfg). c \<in> e_from ` set (cfg_predecessors cfg b)}"
proof -
  define s2 where "s2 = (if bt_get (lv_out s) b \<noteq> Some out
      then s\<lparr>lv_work := rest, lv_queued := bs_remove b (lv_queued s), lv_out := bt_insert b out (lv_out s)\<rparr>
      else s\<lparr>lv_work := rest, lv_queued := bs_remove b (lv_queued s)\<rparr>)"
  define s3 where "s3 = s2\<lparr>lv_in := bt_insert b input (lv_in s)\<rparr>"
  have t: "t = (if bt_get (lv_in s) b \<noteq> Some input
      then foldl (live_push cfg) s3 (cfg_predecessors cfg b) else s2)"
    by (simp add: t_def live_step_def assms(1) out_def input_def s2_def s3_def Let_def)
  have s2: "distinct (lv_work s2)" "set (lv_work s2) = set (lv_queued s2)" "lv_work s2 = rest"
    "lv_in s2 = lv_in s" "bt_get (lv_out s2) = (bt_get (lv_out s))(b \<mapsto> out)"
    using assms(1,2,3) by (auto simp: s2_def bt_simps fun_eq_iff)
  have s3: "distinct (lv_work s3)" "set (lv_work s3) = set (lv_queued s3)" "lv_work s3 = rest"
    "lv_in s3 = bt_insert b input (lv_in s)" "lv_out s3 = lv_out s2"
    using s2 by (auto simp: s3_def)
  note push = live_push_fold [OF s3(1,2), of cfg "cfg_predecessors cfg b"]
  show "distinct (lv_work t)" "set (lv_work t) = set (lv_queued t)"
    using push s2 by (auto simp: t)
  show "bt_get (lv_in t) = (bt_get (lv_in s))(b \<mapsto> input)"
    using push s2 s3 by (auto simp: t bt_simps fun_eq_iff)
  show "bt_get (lv_out t) = (bt_get (lv_out s))(b \<mapsto> out)"
    using push s2 s3 by (auto simp: t)
  show "bt_get (lv_in s) b = Some input \<Longrightarrow> lv_work t = rest"
    using s2 by (simp add: t)
  show "bt_get (lv_in s) b \<noteq> Some input \<Longrightarrow> set (lv_work t) =
      set rest \<union> {c \<in> set (cfg_reachable cfg). c \<in> e_from ` set (cfg_predecessors cfg b)}"
    using push s3(3) by (simp only: t) auto
qed

text \<open>
  The invariant: the queue mirrors the work list and holds reachable blocks; every recorded
  entry set is sound for \<open>live_at\<close> and below what its block computes now; every block not
  queued is at its fixed point.
\<close>

definition live_inv :: "CallableCfg \<Rightarrow> LiveState \<Rightarrow> bool" where
  "live_inv cfg s \<longleftrightarrow>
     distinct (lv_work s) \<and> set (lv_work s) = set (lv_queued s) \<and>
     set (lv_work s) \<subseteq> set (cfg_reachable cfg) \<and>
     (\<forall>b l. bt_get (lv_in s) b = Some l \<longrightarrow> b \<in> set (cfg_reachable cfg) \<and> bs_wf l \<and>
        set l \<subseteq> Collect (live_at cfg b) \<and>
        set l \<subseteq> set (live_transfer cfg b (live_out_of cfg (lv_in s) b))) \<and>
     (\<forall>b \<in> set (cfg_reachable cfg) - set (lv_work s).
        bt_get (lv_out s) b = Some (live_out_of cfg (lv_in s) b) \<and>
        bt_get (lv_in s) b = Some (live_transfer cfg b (live_out_of cfg (lv_in s) b)))"

lemma live_inv_recorded:
  assumes "live_inv cfg s" and "bt_get (lv_in s) b = Some l"
  shows "b \<in> set (cfg_reachable cfg)" and "bs_wf l" and "set l \<subseteq> Collect (live_at cfg b)"
    and "set l \<subseteq> set (live_transfer cfg b (live_out_of cfg (lv_in s) b))"
  using assms unfolding live_inv_def by blast+

lemma live_transfer_sound:
  assumes "\<And>c. live_in_set m c \<subseteq> Collect (live_at cfg c)"
  shows "set (live_transfer cfg b (live_out_of cfg m b)) \<subseteq> Collect (live_at cfg b)"
proof
  fix x
  assume "x \<in> set (live_transfer cfg b (live_out_of cfg m b))"
  then consider "used_first x (points_of cfg b)"
    | e where "undefined_in x (points_of cfg b)" "e \<in> set (cfg_successors cfg b)"
      "e_to e \<in> set (cfg_reachable cfg)" "x \<in> live_in_set m (e_to e)"
    by (auto simp: set_live_transfer set_live_out_of)
  then have "live_at cfg b x"
    by cases (use assms in \<open>blast intro: live_at.here live_at.later\<close>)+
  then show "x \<in> Collect (live_at cfg b)" by simp
qed

lemma live_inv_step:
  assumes idx: "cfg_indexed cfg" and inv: "live_inv cfg s" and work: "lv_work s = b # rest"
  shows "live_inv cfg (live_step cfg s)"
proof -
  define t where "t = live_step cfg s"
  define out where "out = live_out_of cfg (lv_in s) b"
  define input where "input = live_transfer cfg b out"
  have q: "distinct (lv_work s)" "set (lv_work s) = set (lv_queued s)"
    and reach: "set (lv_work s) \<subseteq> set (cfg_reachable cfg)"
    and recorded: "\<And>c l. bt_get (lv_in s) c = Some l \<Longrightarrow> c \<in> set (cfg_reachable cfg) \<and> bs_wf l \<and>
        set l \<subseteq> Collect (live_at cfg c) \<and> set l \<subseteq> set (live_transfer cfg c (live_out_of cfg (lv_in s) c))"
    and fixed: "\<And>c. c \<in> set (cfg_reachable cfg) - set (lv_work s) \<Longrightarrow>
        bt_get (lv_out s) c = Some (live_out_of cfg (lv_in s) c) \<and>
        bt_get (lv_in s) c = Some (live_transfer cfg c (live_out_of cfg (lv_in s) c))"
    using inv by (auto simp: live_inv_def)
  note step = live_step_cases [OF work q, of cfg, folded out_def input_def t_def]
  have sound: "live_in_set (lv_in s) c \<subseteq> Collect (live_at cfg c)" for c
    using recorded by (auto simp: live_in_set_def split: option.splits)
  have grow: "live_in_set (lv_in s) c \<subseteq> live_in_set (lv_in t) c" for c
    using recorded [of b] by (auto simp: live_in_set_def step(3) input_def out_def split: option.splits)
  have mono: "set (live_transfer cfg c (live_out_of cfg (lv_in s) c)) \<subseteq>
      set (live_transfer cfg c (live_out_of cfg (lv_in t) c))" for c
    by (rule live_transfer_mono) (rule grow)
  have keep: "live_out_of cfg (lv_in t) c = live_out_of cfg (lv_in s) c"
    if c: "c \<in> set (cfg_reachable cfg)" "c \<notin> set (lv_work t)" for c
  proof (cases "bt_get (lv_in s) b = Some input")
    case True
    then show ?thesis using step(3) by (intro live_out_of_cong) (auto simp: fun_upd_idem)
  next
    case False
    have "e_to e \<noteq> b" if "e \<in> set (cfg_successors cfg c)" for e
      using succ_iff_pred [OF idx, of e c b] step(6) [OF False] c that by auto
    then show ?thesis using step(3) by (intro live_out_of_cong) auto
  qed
  have bmem: "b \<in> set (cfg_reachable cfg)" using reach work by auto
  have sub: "set rest \<subseteq> set (lv_work t)" using step(5,6) by (cases "bt_get (lv_in s) b = Some input") auto
  have "set (lv_work t) \<subseteq> set (cfg_reachable cfg)"
    using step(5,6) reach work by (cases "bt_get (lv_in s) b = Some input") auto
  moreover have "c \<in> set (cfg_reachable cfg) \<and> bs_wf l \<and> set l \<subseteq> Collect (live_at cfg c) \<and>
      set l \<subseteq> set (live_transfer cfg c (live_out_of cfg (lv_in t) c))"
    if "bt_get (lv_in t) c = Some l" for c l
  proof (cases "c = b")
    case True
    with that step(3) have "l = input" by simp
    then show ?thesis
      using live_transfer_sound [OF sound] mono [of b] bmem True live_transfer_wf [OF live_out_of_wf]
      by (auto simp: input_def out_def)
  next
    case False
    with that step(3) have "bt_get (lv_in s) c = Some l" by simp
    then show ?thesis using recorded [of c l] mono [of c] by auto
  qed
  moreover have "bt_get (lv_out t) c = Some (live_out_of cfg (lv_in t) c) \<and>
      bt_get (lv_in t) c = Some (live_transfer cfg c (live_out_of cfg (lv_in t) c))"
    if c: "c \<in> set (cfg_reachable cfg) - set (lv_work t)" for c
  proof (cases "c = b")
    case True
    then show ?thesis using keep c step(3,4) by (simp add: input_def out_def)
  next
    case False
    with c sub work have "c \<in> set (cfg_reachable cfg) - set (lv_work s)" by auto
    with False show ?thesis using fixed keep c step(3,4) by simp
  qed
  ultimately show ?thesis
    using step(1,2) unfolding live_inv_def t_def [symmetric] by blast
qed


section \<open>Termination and the characterisation\<close>

definition used_names :: "CallableCfg \<Rightarrow> string set" where
  "used_names cfg = (\<Union>p \<in> (\<Union>block \<in> set (bt_values (cfg_blocks cfg)). set (b_points block)). set (pt_uses p))"

lemma finite_used_names: "finite (used_names cfg)"
  by (simp add: used_names_def)

lemma used_first_mem: "used_first x ps \<Longrightarrow> \<exists>p \<in> set ps. x \<in> set (pt_uses p)"
  by (induction ps) auto

lemma live_at_used: "live_at cfg b x \<Longrightarrow> x \<in> used_names cfg"
proof (induction rule: live_at.induct)
  case (here x b)
  then obtain p where p: "p \<in> set (points_of cfg b)" "x \<in> set (pt_uses p)"
    using used_first_mem by blast
  then obtain block where "cfg_block cfg b = Some block" "p \<in> set (b_points block)"
    by (cases "cfg_block cfg b") (auto simp: points_of_def)
  then show ?case using p(2)
    by (force simp: cfg_block_def used_names_def bt_values_def dest: bt_get_Some_mem)
qed

definition live_weight :: "CallableCfg \<Rightarrow> string btree_set option \<Rightarrow> nat" where
  "live_weight cfg l = (case l of None \<Rightarrow> Suc (card (used_names cfg))
     | Some xs \<Rightarrow> card (used_names cfg) - card (set xs))"

definition live_measure :: "CallableCfg \<Rightarrow> LiveState \<Rightarrow> nat" where
  "live_measure cfg s = (\<Sum>b \<in> set (cfg_reachable cfg). live_weight cfg (bt_get (lv_in s) b))"

lemma live_step_decreases:
  assumes idx: "cfg_indexed cfg" and inv: "live_inv cfg s" and work: "lv_work s = b # rest"
  shows "(live_step cfg s, s) \<in> measures [live_measure cfg, \<lambda>s. length (lv_work s)]"
proof -
  define t where "t = live_step cfg s"
  define out where "out = live_out_of cfg (lv_in s) b"
  define input where "input = live_transfer cfg b out"
  have q: "distinct (lv_work s)" "set (lv_work s) = set (lv_queued s)" "b \<in> set (cfg_reachable cfg)"
    using inv work by (auto simp: live_inv_def)
  note step = live_step_cases [OF work q(1,2), of cfg, folded out_def input_def t_def]
  have inv': "live_inv cfg t" using live_inv_step [OF assms] by (simp add: t_def)
  show ?thesis
  proof (cases "bt_get (lv_in s) b = Some input")
    case True
    then have "bt_get (lv_in t) = bt_get (lv_in s)" using step(3) by (simp add: fun_upd_idem)
    then show ?thesis using step(5) [OF True] work by (simp add: live_measure_def t_def)
  next
    case False
    have "bt_get (lv_in t) b = Some input" by (simp add: step(3))
    note rec = live_inv_recorded [OF inv' this]
    have "bs_wf input" by (rule rec(2))
    have "set input \<subseteq> used_names cfg" using rec(3) live_at_used by blast
    then have card: "card (set input) \<le> card (used_names cfg)"
      by (simp add: card_mono finite_used_names)
    have "live_weight cfg (Some input) < live_weight cfg (bt_get (lv_in s) b)"
    proof (cases "bt_get (lv_in s) b")
      case None
      then show ?thesis using card by (simp add: live_weight_def)
    next
      case (Some l)
      then have "set l \<subseteq> set input" "bs_wf l"
        using live_inv_recorded [OF inv Some] by (simp_all add: input_def out_def)
      moreover have "l \<noteq> input" using Some False by simp
      ultimately have "set l \<subset> set input" using bs_ext \<open>bs_wf input\<close> by blast
      then have "card (set l) < card (set input)" by (simp add: psubset_card_mono)
      then show ?thesis using card by (simp add: live_weight_def Some)
    qed
    then have "live_measure cfg t < live_measure cfg s"
      unfolding live_measure_def step(3)
      by (intro sum_strict_mono_ex1) (use q(3) in auto)
    then show ?thesis by (simp add: t_def)
  qed
qed


lemma live_inv_start: "bs_wf (cfg_reachable cfg) \<Longrightarrow> live_inv cfg (live_start cfg)"
  by (auto simp: live_inv_def live_start_def bs_wf_distinct bt_simps)

lemma live_loop:
  assumes "cfg_indexed cfg"
  shows "\<exists>t. while_option (\<lambda>s. lv_work s \<noteq> []) (live_step cfg) (live_start cfg) = Some t
    \<and> live_inv cfg t \<and> lv_work t = []"
proof -
  have start: "live_inv cfg (live_start cfg)"
    using assms by (simp add: live_inv_start cfg_indexed_def)
  have step: "live_inv cfg (live_step cfg s)" if "live_inv cfg s" "lv_work s \<noteq> []" for s
    using that live_inv_step [OF assms] by (metis list.exhaust)
  have "\<exists>t. while_option (\<lambda>s. lv_work s \<noteq> []) (live_step cfg) (live_start cfg) = Some t"
  proof (rule wf_rel_while_option_Some)
    show "wf (measures [live_measure cfg, \<lambda>s. length (lv_work s)])" by simp
    show "(live_step cfg s, s) \<in> measures [live_measure cfg, \<lambda>s. length (lv_work s)]"
      if "live_inv cfg s \<and> lv_work s \<noteq> []" for s
      using that live_step_decreases [OF assms] by (metis list.exhaust)
    show "live_inv cfg (live_step cfg s)" if "live_inv cfg s \<and> lv_work s \<noteq> []" for s
      using that step by blast
    show "live_inv cfg (live_start cfg)" by (rule start)
  qed
  then obtain t where t: "while_option (\<lambda>s. lv_work s \<noteq> []) (live_step cfg) (live_start cfg) = Some t" ..
  have "live_inv cfg t" by (rule while_option_rule [where P = "live_inv cfg", OF _ t start]) (rule step)
  with t while_option_stop [OF t] show ?thesis by blast
qed

lemma compute_liveness_fixpoint:
  assumes "cfg_indexed cfg"
  obtains li lo where "compute_liveness cfg = Some (li, lo)"
    and "\<And>b. b \<in> set (cfg_reachable cfg) \<Longrightarrow> bt_get lo b = Some (live_out_of cfg li b)"
    and "\<And>b. b \<in> set (cfg_reachable cfg) \<Longrightarrow>
           bt_get li b = Some (live_transfer cfg b (live_out_of cfg li b))"
    and "\<And>b x. x \<in> live_in_set li b \<Longrightarrow> live_at cfg b x"
proof -
  obtain t where t: "while_option (\<lambda>s. lv_work s \<noteq> []) (live_step cfg) (live_start cfg) = Some t"
    "live_inv cfg t" "lv_work t = []"
    using live_loop [OF assms] by blast
  show thesis
  proof
    show "compute_liveness cfg = Some (lv_in t, lv_out t)" by (simp add: compute_liveness_def t(1))
    show "bt_get (lv_out t) b = Some (live_out_of cfg (lv_in t) b)" if "b \<in> set (cfg_reachable cfg)" for b
      using t(2,3) that by (simp add: live_inv_def)
    show "bt_get (lv_in t) b = Some (live_transfer cfg b (live_out_of cfg (lv_in t) b))"
      if "b \<in> set (cfg_reachable cfg)" for b
      using t(2,3) that by (simp add: live_inv_def)
    show "live_at cfg b x" if "x \<in> live_in_set (lv_in t) b" for b x
      using that live_inv_recorded(3) [OF t(2)] by (fastforce simp: live_in_set_def split: option.splits)
  qed
qed

lemma compute_liveness_facts:
  assumes "cfg_indexed cfg" and "compute_liveness cfg = Some (li, lo)"
  shows "b \<in> set (cfg_reachable cfg) \<Longrightarrow> bt_get lo b = Some (live_out_of cfg li b)"
    and "b \<in> set (cfg_reachable cfg) \<Longrightarrow> bt_get li b = Some (live_transfer cfg b (live_out_of cfg li b))"
    and "x \<in> live_in_set li b \<Longrightarrow> live_at cfg b x"
proof -
  obtain t where t: "while_option (\<lambda>s. lv_work s \<noteq> []) (live_step cfg) (live_start cfg) = Some t"
    "live_inv cfg t" "lv_work t = []"
    using live_loop [OF assms(1)] by blast
  have "li = lv_in t" "lo = lv_out t" using assms(2) by (simp_all add: compute_liveness_def t(1))
  then show "b \<in> set (cfg_reachable cfg) \<Longrightarrow> bt_get lo b = Some (live_out_of cfg li b)"
    "b \<in> set (cfg_reachable cfg) \<Longrightarrow> bt_get li b = Some (live_transfer cfg b (live_out_of cfg li b))"
    "x \<in> live_in_set li b \<Longrightarrow> live_at cfg b x"
    using t(2,3) live_inv_recorded(3) [OF t(2)]
    by (auto simp: live_inv_def live_in_set_def split: option.splits)
qed

lemma live_at_recorded:
  assumes fix_in: "\<And>b. b \<in> set (cfg_reachable cfg) \<Longrightarrow>
      bt_get li b = Some (live_transfer cfg b (live_out_of cfg li b))"
    and "live_at cfg b x" and "b \<in> set (cfg_reachable cfg)"
  shows "x \<in> live_in_set li b"
  using assms(2,3)
proof (induction rule: live_at.induct)
  case (here x b)
  then show ?case by (simp add: live_in_set_def fix_in set_live_transfer)
next
  case (later x b e)
  then have "x \<in> set (live_out_of cfg li b)" by (auto simp: set_live_out_of)
  with later show ?case by (simp add: live_in_set_def fix_in set_live_transfer)
qed

text \<open>
  C13: on every graph whose adjacency indexes were built from its edge table the liveness
  worklist stops, and for a reachable block the entry set it returns is exactly the set of names
  that some path through reachable blocks uses before defining, and its exit set the union of
  the entry sets of its reachable successors: the least fixed point of backward liveness.
\<close>

theorem compute_liveness_exact:
  assumes "cfg_indexed cfg"
  shows "\<exists>li lo. compute_liveness cfg = Some (li, lo) \<and>
    (\<forall>b x. b \<in> set (cfg_reachable cfg) \<longrightarrow>
       (\<exists>l. bt_get li b = Some l \<and> (x \<in> set l \<longleftrightarrow> live_at cfg b x)) \<and>
       (\<exists>l. bt_get lo b = Some l \<and> (x \<in> set l \<longleftrightarrow>
          (\<exists>e \<in> set (cfg_successors cfg b). e_to e \<in> set (cfg_reachable cfg) \<and> live_at cfg (e_to e) x))))"
proof -
  obtain li lo where r: "compute_liveness cfg = Some (li, lo)"
    "\<And>b. b \<in> set (cfg_reachable cfg) \<Longrightarrow> bt_get lo b = Some (live_out_of cfg li b)"
    "\<And>b. b \<in> set (cfg_reachable cfg) \<Longrightarrow> bt_get li b = Some (live_transfer cfg b (live_out_of cfg li b))"
    "\<And>b x. x \<in> live_in_set li b \<Longrightarrow> live_at cfg b x"
    using compute_liveness_fixpoint [OF assms] by blast
  have iff: "x \<in> live_in_set li b \<longleftrightarrow> live_at cfg b x" if "b \<in> set (cfg_reachable cfg)" for b x
    using r(4) live_at_recorded [OF r(3) _ that] by blast
  have "bt_get li b = Some l \<Longrightarrow> x \<in> set l \<longleftrightarrow> live_at cfg b x"
    if "b \<in> set (cfg_reachable cfg)" for b x l
    using iff [OF that] by (simp add: live_in_set_def)
  moreover have "x \<in> set (live_out_of cfg li b) \<longleftrightarrow> (\<exists>e \<in> set (cfg_successors cfg b).
      e_to e \<in> set (cfg_reachable cfg) \<and> live_at cfg (e_to e) x)" for b x
    using iff by (auto simp: set_live_out_of)
  ultimately show ?thesis using r(1,2,3) by blast
qed

end
