(* ===== verification/Mimi_CfgValidate.thy ===== *)
theory Mimi_CfgValidate
  imports Mimi_Liveness
begin

text \<open>
  The graph validator of \<open>src/core/cfg/validate.rs\<close>: its error accumulation, statement by
  statement, and the declarative well-formedness predicate it decides.
\<close>

section \<open>The validator\<close>

text \<open>\<open>trim().is_empty()\<close> on ASCII text.\<close>

definition is_blank :: "string \<Rightarrow> bool" where
  "is_blank s = list_all (\<lambda>c. of_char c = (32::nat) \<or> 9 \<le> (of_char c :: nat) \<and> of_char c \<le> (13::nat)) s"

definition validate_source :: "NodeId \<Rightarrow> string \<Rightarrow> CfgSource \<Rightarrow> Diagnostic list" where
  "validate_source own role source =
     (if is_blank (node_str (src_node source))
      then [diag_error (''CFG '' @ role @ '' for '' @ quoted (node_str own) @ '' has an empty source NodeId'')
              (src_span source)]
      else []) @
     (if src_span source \<noteq> user_span (src_origin source)
      then [diag_error (''CFG '' @ role @ '' source '' @ quoted (node_str (src_node source)) @ '' disagrees with its owned Origin span'') (src_span source)]
      else [])"

text \<open>What the validator's first loop carries.\<close>

record ValState =
  vs_errors :: "Diagnostic list"
  vs_points :: "NodeId btree_set"
  vs_terms :: "(NodeId \<times> Span \<times> string) list"

definition validate_point :: "NodeId \<Rightarrow> ValState \<Rightarrow> CfgPoint \<Rightarrow> ValState" where
  "validate_point own s p =
     (let node = src_node (pt_source p);
          errs = vs_errors s @ validate_source own ''point'' (pt_source p) @
            (if node \<in> set (vs_points s)
             then [diag_error (''CFG point source '' @ quoted (node_str node) @ '' occurs more than once in callable '' @ quoted (node_str own))
                     (src_span (pt_source p))]
             else [])
      in s\<lparr>vs_errors := errs, vs_points := bs_insert node (vs_points s)\<rparr>)"

definition terminator_node :: "BasicBlock \<Rightarrow> (NodeId \<times> Span \<times> string) list" where
  "terminator_node block =
     (case b_terminator block of
        TBranch cond _ _ \<Rightarrow> [(cond, src_span (b_source block), ''branch condition'')]
      | TMatch scrut _ \<Rightarrow> [(scrut, src_span (b_source block), ''match scrutinee'')]
      | TReturn (Some v) _ \<Rightarrow> [(v, src_span (b_source block), ''return value'')]
      | _ \<Rightarrow> [])"

definition declared_edges :: "BasicBlock \<Rightarrow> EdgeId btree_set" where
  "declared_edges block = bs_extend [] (outgoing_edges (b_terminator block))"

definition actual_edges :: "CallableCfg \<Rightarrow> BasicBlockId \<Rightarrow> EdgeId btree_set" where
  "actual_edges cfg b = bs_extend [] (map e_id (filter (\<lambda>e. e_from e = b) (bt_values (cfg_edges cfg))))"

definition validate_block :: "CallableCfg \<Rightarrow> ValState \<Rightarrow> BasicBlockId \<times> BasicBlock \<Rightarrow> ValState" where
  "validate_block cfg s kv =
     (case kv of (b, block) \<Rightarrow>
        let span = src_span (b_source block);
            s1 = s\<lparr>vs_errors := vs_errors s @ validate_source (cfg_owner cfg) ''block'' (b_source block) @
                (if b \<noteq> b_id block
                 then [diag_error (''CFG block key does not match block id '' @ quoted (node_str b) @ '': owner '' @ node_str (cfg_owner cfg)) span]
                 else []) @
                (if declared_edges block \<noteq> actual_edges cfg b
                 then [diag_error (''CFG block '' @ quoted (node_str b) @ '' terminator edges do not match edge table'') span]
                 else [])\<rparr>;
            s2 = foldl (validate_point (cfg_owner cfg)) s1 (b_points block)
        in s2\<lparr>vs_terms := vs_terms s2 @ terminator_node block\<rparr>)"

definition validate_edge :: "CallableCfg \<Rightarrow> EdgeId \<times> CfgEdge \<Rightarrow> Diagnostic list" where
  "validate_edge cfg kv =
     (case kv of (i, e) \<Rightarrow>
        validate_source (cfg_owner cfg) ''edge'' (e_source e) @
        (if i \<noteq> e_id e
         then [diag_error (''CFG edge key does not match edge id '' @ quoted (node_str i))
                 (src_span (e_source e))]
         else []) @
        (if \<not> bt_contains (cfg_blocks cfg) (e_from e) \<or> \<not> bt_contains (cfg_blocks cfg) (e_to e)
         then [diag_error (''CFG edge '' @ quoted (node_str (e_id e)) @ '' references a missing block'')
                 (src_span (e_source e))]
         else []))"

definition validate_terminator ::
    "NodeId btree_set \<Rightarrow> NodeId \<times> Span \<times> string \<Rightarrow> Diagnostic list" where
  "validate_terminator points t =
     (case t of (node, span, role) \<Rightarrow>
        if node \<notin> set points
        then [diag_error (''CFG '' @ role @ '' '' @ quoted (node_str node) @ '' does not reference a callable point'') span]
        else [])"

definition validate_errors :: "CallableCfg \<Rightarrow> Diagnostic list" where
  "validate_errors cfg =
     (let own = node_str (cfg_owner cfg);
          e0 = (if is_blank own then [diag_error ''CFG callable owner is empty'' Span_UNKNOWN] else []) @
               (if \<not> bt_contains (cfg_blocks cfg) (cfg_entry cfg)
                then [diag_error (''CFG owner '' @ quoted own @ '' has no entry block'') Span_UNKNOWN] else []);
          s = foldl (validate_block cfg) \<lparr>vs_errors = e0, vs_points = [], vs_terms = []\<rparr> (cfg_blocks cfg);
          e1 = vs_errors s @ concat (map (validate_edge cfg) (cfg_edges cfg));
          e2 = e1 @ concat (map (validate_terminator (vs_points s)) (vs_terms s));
          reachable = bfs cfg [cfg_entry cfg] []
      in e2 @ (if reachable \<noteq> cfg_reachable cfg
               then [diag_error (''CFG owner '' @ quoted own @ '' has a stale reachable-block catalog'')
                       (case bt_get (cfg_blocks cfg) (cfg_entry cfg) of
                          None \<Rightarrow> Span_UNKNOWN | Some b \<Rightarrow> src_span (b_source b))]
               else []))"

definition validate_cfg :: "CallableCfg \<Rightarrow> Diagnostic list + unit" where
  "validate_cfg cfg = (let errors = validate_errors cfg in if errors = [] then Ok () else Err errors)"

section \<open>What a valid graph is\<close>

definition source_ok :: "CfgSource \<Rightarrow> bool" where
  "source_ok s \<longleftrightarrow> \<not> is_blank (node_str (src_node s)) \<and> src_span s = user_span (src_origin s)"

definition point_nodes :: "(BasicBlockId \<times> BasicBlock) list \<Rightarrow> NodeId list" where
  "point_nodes bs = concat (map (\<lambda>(i, b). map (\<lambda>p. src_node (pt_source p)) (b_points b)) bs)"

definition block_ok :: "CallableCfg \<Rightarrow> BasicBlockId \<Rightarrow> BasicBlock \<Rightarrow> bool" where
  "block_ok cfg i b \<longleftrightarrow> source_ok (b_source b) \<and> i = b_id b \<and>
     set (outgoing_edges (b_terminator b)) = {e_id e | e. e \<in> set (bt_values (cfg_edges cfg)) \<and> e_from e = i} \<and>
     (\<forall>p \<in> set (b_points b). source_ok (pt_source p))"

definition edge_ok :: "CallableCfg \<Rightarrow> EdgeId \<Rightarrow> CfgEdge \<Rightarrow> bool" where
  "edge_ok cfg i e \<longleftrightarrow> source_ok (e_source e) \<and> i = e_id e \<and>
     cfg_block cfg (e_from e) \<noteq> None \<and> cfg_block cfg (e_to e) \<noteq> None"

fun terminator_reads :: "Terminator \<Rightarrow> NodeId option" where
  "terminator_reads (TBranch cond _ _) = Some cond"
| "terminator_reads (TMatch scrut _) = Some scrut"
| "terminator_reads (TReturn v _) = v"
| "terminator_reads _ = None"

definition cfg_valid :: "CallableCfg \<Rightarrow> bool" where
  "cfg_valid cfg \<longleftrightarrow>
     \<not> is_blank (node_str (cfg_owner cfg)) \<and> cfg_block cfg (cfg_entry cfg) \<noteq> None \<and>
     (\<forall>kv \<in> set (cfg_blocks cfg). block_ok cfg (fst kv) (snd kv)) \<and>
     distinct (point_nodes (cfg_blocks cfg)) \<and>
     (\<forall>(i, e) \<in> set (cfg_edges cfg). edge_ok cfg i e) \<and>
     (\<forall>(i, b) \<in> set (cfg_blocks cfg). \<forall>n. terminator_reads (b_terminator b) = Some n \<longrightarrow>
        n \<in> set (point_nodes (cfg_blocks cfg))) \<and>
     set (cfg_reachable cfg) = (cfg_step cfg)\<^sup>* `` {cfg_entry cfg}"

section \<open>The validator decides it\<close>

lemma validate_source_ok: "validate_source own role s = [] \<longleftrightarrow> source_ok s"
  by (simp add: validate_source_def source_ok_def)

lemma validate_points:
  defines "nd \<equiv> \<lambda>p. src_node (pt_source p)"
  shows "vs_errors (foldl (validate_point own) s ps) = [] \<longleftrightarrow>
      vs_errors s = [] \<and> (\<forall>p \<in> set ps. source_ok (pt_source p)) \<and> distinct (map nd ps) \<and>
      set (map nd ps) \<inter> set (vs_points s) = {}"
    and "set (vs_points (foldl (validate_point own) s ps)) = set (vs_points s) \<union> set (map nd ps)"
    and "vs_terms (foldl (validate_point own) s ps) = vs_terms s"
  unfolding nd_def
  by (induction ps arbitrary: s)
    (auto simp: validate_point_def Let_def validate_source_ok)

lemma declared_actual:
  "declared_edges b = actual_edges cfg i \<longleftrightarrow>
     set (outgoing_edges (b_terminator b)) = {e_id e | e. e \<in> set (bt_values (cfg_edges cfg)) \<and> e_from e = i}"
proof -
  have "declared_edges b = actual_edges cfg i \<longleftrightarrow> set (declared_edges b) = set (actual_edges cfg i)"
    by (rule bs_eq_iff) (simp_all add: declared_edges_def actual_edges_def bs_wf_extend)
  moreover have "set (actual_edges cfg i) = {e_id e | e. e \<in> set (bt_values (cfg_edges cfg)) \<and> e_from e = i}"
    by (auto simp: actual_edges_def)
  ultimately show ?thesis by (simp add: declared_edges_def)
qed

lemma validate_block_step:
  fixes s :: ValState and cfg i b
  defines "t \<equiv> validate_block cfg s (i, b)"
  shows "vs_errors t = [] \<longleftrightarrow> vs_errors s = [] \<and> block_ok cfg i b \<and> distinct (point_nodes [(i, b)]) \<and>
      set (point_nodes [(i, b)]) \<inter> set (vs_points s) = {}"
    and "set (vs_points t) = set (vs_points s) \<union> set (point_nodes [(i, b)])"
    and "vs_terms t = vs_terms s @ terminator_node b"
  by (auto simp: t_def validate_block_def Let_def validate_points validate_source_ok declared_actual
      block_ok_def point_nodes_def)

lemma point_nodes_Cons: "point_nodes (kv # bs) = point_nodes [kv] @ point_nodes bs"
  by (simp add: point_nodes_def)

lemma validate_blocks:
  "(vs_errors (foldl (validate_block cfg) s bs) = [] \<longleftrightarrow>
      vs_errors s = [] \<and> (\<forall>kv \<in> set bs. block_ok cfg (fst kv) (snd kv)) \<and> distinct (point_nodes bs) \<and>
      set (point_nodes bs) \<inter> set (vs_points s) = {}) \<and>
   set (vs_points (foldl (validate_block cfg) s bs)) = set (vs_points s) \<union> set (point_nodes bs) \<and>
   vs_terms (foldl (validate_block cfg) s bs) = vs_terms s @ concat (map (terminator_node \<circ> snd) bs)"
proof (induction bs arbitrary: s)
  case Nil
  show ?case by (simp add: point_nodes_def)
next
  case (Cons kv bs)
  obtain i b where kv: "kv = (i, b)" by (cases kv)
  note t = validate_block_step [of cfg s i b] and IH = Cons.IH [of "validate_block cfg s (i, b)"]
  have all: "(\<forall>kv \<in> set ((i, b) # bs). block_ok cfg (fst kv) (snd kv)) \<longleftrightarrow>
      block_ok cfg i b \<and> (\<forall>kv \<in> set bs. block_ok cfg (fst kv) (snd kv))"
    by simp
  show ?case
    unfolding kv foldl.simps point_nodes_Cons [of "(i, b)" bs] all
    by (simp only: IH t distinct_append set_append Int_Un_distrib Int_Un_distrib2 Un_empty
        Int_commute [of "set (point_nodes bs)" "set (point_nodes [(i, b)])"] list.map concat.simps
        o_apply snd_conv append_assoc Un_assoc conj_ac simp_thms)
qed

lemma validate_edge_ok: "validate_edge cfg (i, e) = [] \<longleftrightarrow> edge_ok cfg i e"
  by (simp only: validate_edge_def edge_ok_def validate_source_ok bt_contains_def cfg_block_def
      prod.case append_is_Nil_conv if_error_Nil de_Morgan_disj not_not)

lemma validate_edges:
  "concat (map (validate_edge cfg) es) = [] \<longleftrightarrow> (\<forall>(i, e) \<in> set es. edge_ok cfg i e)"
  by (induction es) (auto simp: validate_edge_ok)

lemma validate_terminator_ok:
  "concat (map (validate_terminator ns) (terminator_node b)) = [] \<longleftrightarrow>
     (\<forall>n. terminator_reads (b_terminator b) = Some n \<longrightarrow> n \<in> set ns)"
  by (cases "b_terminator b") (auto simp: validate_terminator_def terminator_node_def split: option.split)

lemma validate_terminators:
  "concat (map (validate_terminator ns) (concat (map (terminator_node \<circ> snd) bs))) = [] \<longleftrightarrow>
     (\<forall>(i, b) \<in> set bs. \<forall>n. terminator_reads (b_terminator b) = Some n \<longrightarrow> n \<in> set ns)"
proof (induction bs)
  case (Cons kv bs)
  then show ?case
    using validate_terminator_ok [of ns "snd kv"] by (cases kv) (simp only: list.map concat.simps
      map_append concat_append append_is_Nil_conv o_apply snd_conv set_simps ball_simps prod.case simp_thms)
qed simp

lemma validate_cfg_reach:
  assumes "bs_wf (cfg_reachable cfg)"
  shows "validate_cfg cfg = Ok () \<longleftrightarrow> cfg_valid cfg"
proof -
  have "bfs cfg [cfg_entry cfg] [] = cfg_reachable cfg \<longleftrightarrow>
      set (cfg_reachable cfg) = (cfg_step cfg)\<^sup>* `` {cfg_entry cfg}"
    using reachable_from_set [of cfg "cfg_entry cfg"]
      bs_eq_iff [OF reachable_from_wf [of cfg "cfg_entry cfg"] assms] by (auto simp: reachable_from_def)
  then have "validate_errors cfg = [] \<longleftrightarrow> cfg_valid cfg"
    by (simp only: validate_errors_def cfg_valid_def Let_def if_error_Nil append_is_Nil_conv
        validate_blocks [THEN conjunct1] validate_blocks [THEN conjunct2, THEN conjunct1]
        validate_blocks [THEN conjunct2, THEN conjunct2] validate_edges validate_terminators ValState.simps append_Nil
        cfg_block_def bt_contains_def list.set Un_empty_left Int_empty_right simp_thms)
      (simp only: conj_assoc)
  then show ?thesis by (simp add: validate_cfg_def Let_def)
qed

text \<open>
  C15: the validator accepts a graph exactly when it is well formed: named sources with their
  origin's span, keys equal to ids, each block's terminator naming exactly the edges that leave
  it, no edge to a missing block, no point node used twice, terminators that read a point of the
  callable, and a reachable catalog equal to the closure of the edges from the entry.
\<close>

theorem validate_cfg_decides:
  "bs_wf (cfg_reachable cfg) \<Longrightarrow> validate_cfg cfg = Ok () \<longleftrightarrow> cfg_valid cfg"
  by (rule validate_cfg_reach)

end
