(* ===== verification/Mimi_Dataflow.thy ===== *)
theory Mimi_Dataflow
  imports Mimi_Transfer Mimi_CfgValidate "HOL-Library.Product_Lexorder"
begin

text \<open>
  The resource analysis of one callable, \<open>analyze_canonical\<close> of \<open>src/core/cfg/dataflow.rs\<close>: where
  loans end, the reads and writes of borrowed roots, the forward worklist, the obligations at
  returns, the deduplicated errors; and the observations \<open>ResourceAnalysis\<close> offers
  (\<open>src/core/ownership.rs\<close>). The worklist is a \<open>while_option\<close>: not returning is \<open>None\<close>.
\<close>

section \<open>Where loans end\<close>

definition uses_name :: "string \<Rightarrow> CfgPoint \<Rightarrow> bool" where
  "uses_name r p = (r \<in> set (pt_uses p))"

definition defs_name :: "string \<Rightarrow> CfgPoint \<Rightarrow> bool" where
  "defs_name r p = (r \<in> set (pt_defs p))"

text \<open>\<open>enumerate().rfind(..)\<close>\<close>

definition rfind :: "('a \<Rightarrow> bool) \<Rightarrow> 'a list \<Rightarrow> (nat \<times> 'a) option" where
  "rfind P xs = List.find (\<lambda>(i, x). P x) (rev (zip [0..<length xs] xs))"

definition in_live ::
    "(BasicBlockId, string btree_set) btree_map \<Rightarrow> BasicBlockId \<Rightarrow> string \<Rightarrow> bool" where
  "in_live m b x = (case bt_get m b of None \<Rightarrow> False | Some l \<Rightarrow> x \<in> set l)"

type_synonym location_key = "BasicBlockId \<times> NodeId \<times> EdgeId option"

definition push_location ::
    "CfgLocation list \<times> location_key list \<Rightarrow> CfgLocation \<Rightarrow> CfgLocation list \<times> location_key list" where
  "push_location acc l =
     (let key = (loc_block l, loc_point l, loc_edge l)
      in if key \<in> set (snd acc) then acc else (fst acc @ [l], key # snd acc))"

definition block_end_location ::
    "CallableCfg \<Rightarrow> string \<Rightarrow> (BasicBlockId, string btree_set) btree_map \<Rightarrow> BasicBlockId
       \<Rightarrow> CfgLocation option" where
  "block_end_location cfg reference live_out b =
     (case cfg_block cfg b of
        None \<Rightarrow> None
      | Some block \<Rightarrow>
          (case rfind (uses_name reference) (b_points block) of
             None \<Rightarrow> None
           | Some (i, p) \<Rightarrow>
               let after_last_use =
                 list_ex (\<lambda>later. uses_name reference later \<or> defs_name reference later)
                   (drop (i + 1) (b_points block))
               in if \<not> after_last_use \<and> \<not> in_live live_out b reference
                  then Some \<lparr>loc_block = b, loc_point = src_node (pt_source p), loc_edge = None\<rparr>
                  else None))"

definition edge_end_location ::
    "CallableCfg \<Rightarrow> string \<Rightarrow> BasicBlockId btree_set \<Rightarrow> (BasicBlockId, string btree_set) btree_map
       \<Rightarrow> (BasicBlockId, string btree_set) btree_map \<Rightarrow> CfgEdge \<Rightarrow> CfgLocation option" where
  "edge_end_location cfg reference from_start live_in live_out e =
     (if e_from e \<notin> set from_start \<or> e_to e \<notin> set (cfg_reachable cfg) then None
      else if in_live live_out (e_from e) reference \<and> \<not> in_live live_in (e_to e) reference
      then
        let point =
          (case cfg_block cfg (e_from e) of
             Some block \<Rightarrow>
               if b_points block = [] then src_node (e_source e)
               else src_node (pt_source (last (b_points block)))
           | None \<Rightarrow> src_node (e_source e))
        in Some \<lparr>loc_block = e_from e, loc_point = point, loc_edge = Some (e_id e)\<rparr>
      else None)"

definition liveness_end_locations ::
    "CallableCfg \<Rightarrow> string \<Rightarrow> CfgLocation \<Rightarrow> (BasicBlockId, string btree_set) btree_map
       \<Rightarrow> (BasicBlockId, string btree_set) btree_map \<Rightarrow> CfgLocation list" where
  "liveness_end_locations cfg reference start live_in live_out =
     (let from_start = reachable_from cfg (loc_block start);
          acc1 = foldl push_location ([], [])
                   (List.map_filter (block_end_location cfg reference live_out) from_start);
          acc2 = foldl push_location acc1
                   (List.map_filter (edge_end_location cfg reference from_start live_in live_out)
                      (bt_values (cfg_edges cfg)))
      in if fst acc2 \<noteq> [] then fst acc2
         else (case cfg_block cfg (loc_block start) of
                 None \<Rightarrow> []
               | Some block \<Rightarrow>
                   (case List.find (defs_name reference)
                           (dropWhile (\<lambda>p. src_node (pt_source p) \<noteq> loc_point start) (b_points block)) of
                      None \<Rightarrow> []
                    | Some p \<Rightarrow> [\<lparr>loc_block = loc_block start, loc_point = src_node (pt_source p),
                                  loc_edge = None\<rparr>])))"

definition location_source :: "CallableCfg \<Rightarrow> CfgLocation \<Rightarrow> Span \<times> Origin" where
  "location_source cfg l =
     (case Option.bind (loc_edge l) (cfg_edge cfg) of
        Some e \<Rightarrow> (src_span (e_source e), src_origin (e_source e))
      | None \<Rightarrow>
          (case Option.bind (cfg_block cfg (loc_block l))
                  (\<lambda>block. List.find (\<lambda>p. src_node (pt_source p) = loc_point l) (b_points block)) of
             Some p \<Rightarrow> (src_span (pt_source p), src_origin (pt_source p))
           | None \<Rightarrow> (Span_UNKNOWN, OriginUser Span_UNKNOWN)))"

section \<open>The actions the analysis adds\<close>

definition loan_resources_of :: "ResourceAction list \<Rightarrow> (LoanId, ResourceId) btree_map" where
  "loan_resources_of actions =
     bt_collect (List.map_filter (\<lambda>a. map_option (\<lambda>l. (l, a_resource a)) (a_loan a)) actions)"

definition loan_resource :: "(LoanId, ResourceId) btree_map \<Rightarrow> Loan \<Rightarrow> ResourceId" where
  "loan_resource res loan =
     (case bt_get res (l_id loan) of Some r \<Rightarrow> r | None \<Rightarrow> p_base (l_place loan))"

definition loan_end_locations ::
    "CallableCfg \<Rightarrow> (string, CfgLocation list) btree_map \<Rightarrow> (BasicBlockId, string btree_set) btree_map
       \<Rightarrow> (BasicBlockId, string btree_set) btree_map \<Rightarrow> Loan \<Rightarrow> CfgLocation list" where
  "loan_end_locations cfg fallback_ends live_in live_out loan =
     (let found = (case l_reference_name loan of
            None \<Rightarrow> []
          | Some reference \<Rightarrow> liveness_end_locations cfg reference (l_start loan) live_in live_out)
      in if found \<noteq> [] then found
         else (case bt_get fallback_ends (place_display (l_place loan)) of None \<Rightarrow> [] | Some ls \<Rightarrow> ls))"

definition borrow_end_action ::
    "CallableCfg \<Rightarrow> (LoanId, ResourceId) btree_map \<Rightarrow> Loan \<Rightarrow> CfgLocation \<Rightarrow> ResourceAction" where
  "borrow_end_action cfg res loan l =
     \<lparr>a_kind = BorrowEnd, a_resource = loan_resource res loan, a_source = Some (l_place loan),
      a_target = None, a_loan = Some (l_id loan), a_location = l,
      a_span = fst (location_source cfg l), a_origin = snd (location_source cfg l)\<rparr>"

definition end_loan ::
    "CallableCfg \<Rightarrow> (string, CfgLocation list) btree_map \<Rightarrow> (BasicBlockId, string btree_set) btree_map
       \<Rightarrow> (BasicBlockId, string btree_set) btree_map \<Rightarrow> (LoanId, ResourceId) btree_map
       \<Rightarrow> ResourceAction list \<times> Loan list \<Rightarrow> Loan \<Rightarrow> ResourceAction list \<times> Loan list" where
  "end_loan cfg fallback_ends live_in live_out res acc loan =
     (let ls = loan_end_locations cfg fallback_ends live_in live_out loan
      in (fst acc @ map (borrow_end_action cfg res loan) ls,
          snd acc @ [loan\<lparr>l_end_edges := List.map_filter loc_edge ls\<rparr>]))"

definition access_action ::
    "ActionKind \<Rightarrow> (LocalId, ResourceId) btree_map \<Rightarrow> BasicBlockId \<Rightarrow> CfgPoint \<Rightarrow> Place
       \<Rightarrow> ResourceAction option" where
  "access_action k roots b p place =
     (case bt_get roots (p_base place) of
        None \<Rightarrow> None
      | Some r \<Rightarrow>
          Some \<lparr>a_kind = k, a_resource = r, a_source = Some place, a_target = None, a_loan = None,
                a_location = \<lparr>loc_block = b, loc_point = src_node (pt_source p), loc_edge = None\<rparr>,
                a_span = src_span (pt_source p), a_origin = src_origin (pt_source p)\<rparr>)"

definition access_actions :: "CallableCfg \<Rightarrow> (LocalId, ResourceId) btree_map \<Rightarrow> ResourceAction list" where
  "access_actions cfg roots =
     concat (map (\<lambda>(b, block).
       if b \<notin> set (cfg_reachable cfg) then []
       else concat (map (\<lambda>p.
              List.map_filter (access_action Read roots b p) (pt_read_places p) @
              List.map_filter (access_action Write roots b p) (pt_write_places p))
            (b_points block)))
     (cfg_blocks cfg))"

definition borrowed_roots_of ::
    "(LoanId, ResourceId) btree_map \<Rightarrow> Loan list \<Rightarrow> (LocalId, ResourceId) btree_map" where
  "borrowed_roots_of res loans =
     bt_collect (map (\<lambda>l. (p_base (l_place l), loan_resource res l)) loans)"

text \<open>Everything before the worklist: the complete action list and the loans with their end edges.\<close>

definition prepare_actions ::
    "CallableCfg \<Rightarrow> ResourceAction list \<Rightarrow> Loan list \<Rightarrow> (string, CfgLocation list) btree_map
       \<Rightarrow> (BasicBlockId, string btree_set) btree_map \<Rightarrow> (BasicBlockId, string btree_set) btree_map
       \<Rightarrow> ResourceAction list \<times> Loan list" where
  "prepare_actions cfg actions loans fallback_ends live_in live_out =
     (let res = loan_resources_of actions;
          acc = foldl (end_loan cfg fallback_ends live_in live_out res) (actions, []) loans;
          roots = borrowed_roots_of res (snd acc)
      in (fst acc @ access_actions cfg roots, snd acc))"

definition loan_catalog_of :: "Loan list \<Rightarrow> loan_catalog" where
  "loan_catalog_of loans = bt_collect (map (\<lambda>l. (l_id l, l)) loans)"

section \<open>The order of a block's actions\<close>

definition USIZE_MAX :: nat where
  "USIZE_MAX = 2 ^ 64 - 1"

definition point_order :: "CallableCfg \<Rightarrow> BasicBlockId \<Rightarrow> NodeId \<Rightarrow> nat" where
  "point_order cfg b point =
     (case Option.bind (cfg_block cfg b)
             (\<lambda>block. if src_node (b_source block) = point then Some 0
                else map_option (\<lambda>i. i + 1) (position (\<lambda>p. src_node (pt_source p) = point) (b_points block))) of
        Some n \<Rightarrow> n
      | None \<Rightarrow> USIZE_MAX)"

fun action_rank :: "ActionKind \<Rightarrow> nat" where
  "action_rank Read = 0"
| "action_rank Write = 1"
| "action_rank BorrowEnd = 2"
| "action_rank Introduce = 3"
| "action_rank BorrowShared = 4"
| "action_rank BorrowMut = 4"
| "action_rank Move = 5"
| "action_rank Drop = 5"
| "action_rank Return = 5"
| "action_rank TransferSession = 5"
| "action_rank TransferChild = 5"

definition block_actions :: "CallableCfg \<Rightarrow> ResourceAction list \<Rightarrow> BasicBlockId \<Rightarrow> ResourceAction list" where
  "block_actions cfg actions b =
     sort_key (\<lambda>a. (point_order cfg b (loc_point (a_location a)), action_rank (a_kind a)))
       (filter (\<lambda>a. loc_block (a_location a) = b \<and> loc_edge (a_location a) = None) actions)"


section \<open>The forward worklist\<close>

record DfState =
  df_in :: "(BasicBlockId, FlowState) btree_map"
  df_out :: "(BasicBlockId, FlowState) btree_map"
  df_queue :: "BasicBlockId list"
  df_queued :: "BasicBlockId btree_set"
  df_errors :: "Diagnostic list"

definition loop_carried :: "EdgeKind \<Rightarrow> bool" where
  "loop_carried k = (k = Backedge \<or> k = EContinue)"

definition predecessors_ready ::
    "CallableCfg \<Rightarrow> BasicBlockId \<Rightarrow> (BasicBlockId, FlowState) btree_map \<Rightarrow> bool" where
  "predecessors_ready cfg b out =
     list_all (\<lambda>e. bt_contains out (e_from e))
       (filter (\<lambda>e. \<not> loop_carried (e_kind e))
         (filter (\<lambda>e. e_from e \<in> set (cfg_reachable cfg)) (cfg_predecessors cfg b)))"

definition loop_edge_errors :: "CallableCfg \<Rightarrow> BasicBlockId \<Rightarrow> FlowState \<Rightarrow> Diagnostic list" where
  "loop_edge_errors cfg b outgoing =
     concat (map (\<lambda>e.
       if loop_carried (e_kind e) \<and> fs_loans outgoing \<noteq> []
       then [with_help
               (error_code ''E0415'' ''borrow remains live across a loop back-edge'' (src_span (e_source e)))
               ''end the borrow before the next loop iteration'']
       else []) (cfg_successors cfg b))"

text \<open>The state a block starts from, with the errors of its join.\<close>

definition incoming_of ::
    "CallableCfg \<Rightarrow> ResourceAction list \<Rightarrow> BasicBlockId \<Rightarrow> (BasicBlockId, FlowState) btree_map
       \<Rightarrow> FlowState \<times> Diagnostic list" where
  "incoming_of cfg actions b out =
     (if b = cfg_entry cfg then (FlowState_default, []) else join_predecessors cfg b out actions)"

text \<open>\<open>queued.insert(to)\<close> decides whether \<open>to\<close> is pushed.\<close>

definition df_push :: "CallableCfg \<Rightarrow> DfState \<Rightarrow> CfgEdge \<Rightarrow> DfState" where
  "df_push cfg s e =
     (if e_to e \<in> set (cfg_reachable cfg) \<and> e_to e \<notin> set (df_queued s)
      then s\<lparr>df_queue := df_queue s @ [e_to e], df_queued := bs_insert (e_to e) (df_queued s)\<rparr>
      else s)"

definition df_step ::
    "CallableCfg \<Rightarrow> loan_catalog \<Rightarrow> ResourceAction list \<Rightarrow> DfState \<Rightarrow> DfState" where
  "df_step cfg loans actions s =
     (case df_queue s of
        [] \<Rightarrow> s
      | b # rest \<Rightarrow>
          let s1 = s\<lparr>df_queue := rest, df_queued := bs_remove b (df_queued s)\<rparr>
          in if b \<noteq> cfg_entry cfg \<and> \<not> predecessors_ready cfg b (df_out s) then s1
             else
               let (incoming, join_errors) = incoming_of cfg actions b (df_out s);
                   s2 = (if bt_get (df_in s) b \<noteq> Some incoming
                         then s1\<lparr>df_in := bt_insert b incoming (df_in s)\<rparr> else s1);
                   (outgoing, errs) = transfer_all loans (block_actions cfg actions b) incoming;
                   s3 = s2\<lparr>df_errors := df_errors s @ join_errors @ errs @ loop_edge_errors cfg b outgoing\<rparr>
               in if bt_get (df_out s) b \<noteq> Some outgoing
                  then foldl (df_push cfg) (s3\<lparr>df_out := bt_insert b outgoing (df_out s)\<rparr>)
                         (cfg_successors cfg b)
                  else s3)"

definition df_start :: "CallableCfg \<Rightarrow> DfState" where
  "df_start cfg = \<lparr>df_in = [], df_out = [], df_queue = [cfg_entry cfg], df_queued = [cfg_entry cfg],
     df_errors = []\<rparr>"

definition df_loop ::
    "CallableCfg \<Rightarrow> loan_catalog \<Rightarrow> ResourceAction list \<Rightarrow> DfState option" where
  "df_loop cfg loans actions =
     while_option (\<lambda>s. df_queue s \<noteq> []) (df_step cfg loans actions) (df_start cfg)"

section \<open>Obligations at returns\<close>

fun is_return :: "Terminator \<Rightarrow> bool" where
  "is_return (TReturn _ _) = True"
| "is_return _ = False"

definition is_diverging_sink :: "CallableCfg \<Rightarrow> BasicBlockId \<Rightarrow> BasicBlock \<Rightarrow> bool" where
  "is_diverging_sink cfg b block =
     (b_terminator block = TDiverge \<or>
      cfg_successors cfg b \<noteq> [] \<and> list_all (\<lambda>e. loop_carried (e_kind e)) (cfg_successors cfg b))"

definition obligation_errors ::
    "Span \<Rightarrow> bool \<Rightarrow> ResourceId btree_set \<Rightarrow> ResourceId \<times> ResourceFact \<Rightarrow> Diagnostic list" where
  "obligation_errors span returns droppable kv =
     (case kv of (r, f) \<Rightarrow>
        if r \<in> set droppable then []
        else
          let name = place_or_resource (owner f) r in
          (case availability f of
             Available \<Rightarrow>
               [add_introduction_note
                  (with_help
                    (error_code ''E0256''
                      (''linear resource '' @ quoted name @ '' must be consumed ''
                        @ (if returns then ''before this return path'' else ''on this diverging path''))
                      span)
                    ''move, return, transfer, or drop the resource before returning'')
                  f name]
           | MaybeConsumed \<Rightarrow>
               [add_introduction_note
                  (with_help
                    (error_code ''E0256''
                      (''linear resource '' @ quoted name @ '' is possibly unconsumed on some paths'')
                      span)
                    ''move, return, transfer, or drop the resource on every reachable path'')
                  f name]
           | Consumed \<Rightarrow> []))"

definition validate_return_block ::
    "CallableCfg \<Rightarrow> (BasicBlockId, FlowState) btree_map \<Rightarrow> ResourceId btree_set
       \<Rightarrow> BasicBlockId \<times> BasicBlock \<Rightarrow> Diagnostic list" where
  "validate_return_block cfg out droppable kv =
     (case kv of (b, block) \<Rightarrow>
        if b \<notin> set (cfg_reachable cfg) then []
        else
          let returns = is_return (b_terminator block) in
          if \<not> returns \<and> \<not> is_diverging_sink cfg b block then []
          else
            (case bt_get out b of
               None \<Rightarrow>
                 [diag_error (''resource analysis did not reach return block '' @ quoted (node_str b))
                    (src_span (b_source block))]
             | Some state \<Rightarrow>
                 let source = (if b_points block = [] then b_source block else pt_source (last (b_points block)))
                 in concat (map (obligation_errors (src_span source) returns droppable) (fs_resources state))))"

definition validate_return_resources ::
    "CallableCfg \<Rightarrow> (BasicBlockId, FlowState) btree_map \<Rightarrow> ResourceId btree_set \<Rightarrow> Diagnostic list" where
  "validate_return_resources cfg out droppable =
     concat (map (validate_return_block cfg out droppable) (cfg_blocks cfg))"

section \<open>Deduplication and the result\<close>

type_synonym error_key = "string option \<times> string \<times> nat \<times> nat"

definition error_key :: "Diagnostic \<Rightarrow> error_key" where
  "error_key d = (d_code d, d_message d, start_line (d_span d), start_col (d_span d))"

fun retain_new :: "error_key set \<Rightarrow> Diagnostic list \<Rightarrow> Diagnostic list" where
  "retain_new seen [] = []"
| "retain_new seen (d # ds) =
     (if error_key d \<in> seen then retain_new seen ds
      else d # retain_new (insert (error_key d) seen) ds)"

definition dedup_errors :: "Diagnostic list \<Rightarrow> Diagnostic list" where
  "dedup_errors ds = retain_new {} ds"

text \<open>The map-root catalogs, which this analysis leaves empty, are not part of the record.\<close>

record ResourceAnalysis =
  ra_owner :: NodeId
  ra_actions :: "ResourceAction list"
  ra_loans :: "Loan list"
  ra_in_states :: "(BasicBlockId, (ResourceId, ResourceFact) btree_map) btree_map"
  ra_out_states :: "(BasicBlockId, (ResourceId, ResourceFact) btree_map) btree_map"

definition resource_states ::
    "(BasicBlockId, FlowState) btree_map \<Rightarrow> (BasicBlockId, (ResourceId, ResourceFact) btree_map) btree_map" where
  "resource_states m = map (\<lambda>(b, st). (b, fs_resources st)) m"

definition analyze_prepared ::
    "CallableCfg \<Rightarrow> ResourceAction list \<Rightarrow> Loan list \<Rightarrow> ResourceId btree_set
       \<Rightarrow> (Diagnostic list + ResourceAnalysis) option" where
  "analyze_prepared cfg actions loans droppable =
     (case df_loop cfg (loan_catalog_of loans) actions of
        None \<Rightarrow> None
      | Some s \<Rightarrow>
          let errors = dedup_errors (df_errors s @ validate_return_resources cfg (df_out s) droppable)
          in Some (if errors \<noteq> [] then Err errors
                   else Ok \<lparr>ra_owner = cfg_owner cfg, ra_actions = actions, ra_loans = loans,
                            ra_in_states = resource_states (df_in s),
                            ra_out_states = resource_states (df_out s)\<rparr>))"

definition analyze_canonical ::
    "CallableCfg \<Rightarrow> ResourceAction list \<Rightarrow> Loan list \<Rightarrow> (string, CfgLocation list) btree_map
       \<Rightarrow> ResourceId btree_set \<Rightarrow> (Diagnostic list + ResourceAnalysis) option" where
  "analyze_canonical cfg actions loans fallback_ends droppable =
     (case compute_liveness cfg of
        None \<Rightarrow> None
      | Some (live_in, live_out) \<Rightarrow>
          (case prepare_actions cfg actions loans fallback_ends live_in live_out of
             (actions', loans') \<Rightarrow> analyze_prepared cfg actions' loans' droppable))"

section \<open>Deduplication keeps an error of every key\<close>

lemma retain_new_Nil: "retain_new seen ds = [] \<longleftrightarrow> error_key ` set ds \<subseteq> seen"
  by (induction ds arbitrary: seen) auto

lemma dedup_errors_Nil: "dedup_errors ds = [] \<longleftrightarrow> ds = []"
  by (simp add: dedup_errors_def retain_new_Nil)

lemma retain_new_keys:
  "error_key ` set (retain_new seen ds) = error_key ` set ds - seen \<and> distinct (map error_key (retain_new seen ds))"
  by (induction ds arbitrary: seen) auto

end
