(* ===== verification/Mimi_Paths.thy ===== *)
theory Mimi_Paths
  imports Mimi_Dataflow
begin

text \<open>
  The abstract specification of the resource analysis: what running a path through the graph
  does to the resources and loans, with a violation (consuming a consumed resource or one named by a
  stale place, touching borrowed memory, clashing loans, a loan alive across a loop edge) as \<open>None\<close>.
  Only the consuming actions look at the name, as in the code. The simulation lemmas say that a transfer, an edge and a join that push no
  diagnostic over-approximate every path.
\<close>

section \<open>Concrete execution\<close>

datatype CRes = Live "Place option" | Dead

record CState =
  cs_res :: "ResourceId \<Rightarrow> CRes option"
  cs_loans :: "LoanId set"

definition cs_start :: CState where
  "cs_start = \<lparr>cs_res = Map.empty, cs_loans = {}\<rparr>"

definition loan_touches :: "loan_catalog \<Rightarrow> (Loan \<Rightarrow> bool) \<Rightarrow> Place \<Rightarrow> LoanId \<Rightarrow> bool" where
  "loan_touches loans P place i =
     (case bt_get loans i of None \<Rightarrow> False | Some l \<Rightarrow> P l \<and> conflicts_with (l_place l) place)"

definition borrowed :: "loan_catalog \<Rightarrow> LoanId set \<Rightarrow> (Loan \<Rightarrow> bool) \<Rightarrow> Place option \<Rightarrow> bool" where
  "borrowed loans active P source =
     (case source of None \<Rightarrow> False | Some place \<Rightarrow> (\<exists>i \<in> active. loan_touches loans P place i))"

definition stale_name :: "CRes option \<Rightarrow> Place option \<Rightarrow> bool" where
  "stale_name r source =
     (case (r, source) of
        (Some (Live (Some own)), Some src) \<Rightarrow> p_base own \<noteq> p_base src
      | _ \<Rightarrow> False)"

definition exec_consume :: "loan_catalog \<Rightarrow> ResourceAction \<Rightarrow> CRes \<Rightarrow> CState \<Rightarrow> CState option" where
  "exec_consume loans a after c =
     (if borrowed loans (cs_loans c) (\<lambda>_. True) (a_source a) then None
      else if cs_res c (a_resource a) = Some Dead then None
      else if stale_name (cs_res c (a_resource a)) (a_source a) then None
      else Some (c\<lparr>cs_res := (cs_res c)(a_resource a \<mapsto> after)\<rparr>))"

definition exec_borrow :: "loan_catalog \<Rightarrow> ResourceAction \<Rightarrow> CState \<Rightarrow> CState option" where
  "exec_borrow loans a c =
     (case a_loan a of
        None \<Rightarrow> Some c
      | Some i \<Rightarrow>
          (case bt_get loans i of
             None \<Rightarrow> Some c
           | Some l \<Rightarrow>
               if \<exists>j \<in> cs_loans c. (case bt_get loans j of None \<Rightarrow> False | Some active \<Rightarrow> loan_clash l j active)
               then None
               else Some (c\<lparr>cs_loans := insert i (cs_loans c)\<rparr>)))"

definition exec_borrow_end :: "loan_catalog \<Rightarrow> ResourceAction \<Rightarrow> CState \<Rightarrow> CState" where
  "exec_borrow_end loans a c =
     (case a_loan a of
        Some i \<Rightarrow> c\<lparr>cs_loans := cs_loans c - {i}\<rparr>
      | None \<Rightarrow>
          (case a_source a of
             None \<Rightarrow> c
           | Some place \<Rightarrow> c\<lparr>cs_loans := {i \<in> cs_loans c. \<not> loan_touches loans (\<lambda>_. True) place i}\<rparr>))"

definition exec_action :: "loan_catalog \<Rightarrow> ResourceAction \<Rightarrow> CState \<Rightarrow> CState option" where
  "exec_action loans a c =
     (case a_kind a of
        Read \<Rightarrow> if borrowed loans (cs_loans c) (\<lambda>l. l_kind l = LoanMutable) (a_source a) then None else Some c
      | Write \<Rightarrow> if borrowed loans (cs_loans c) (\<lambda>_. True) (a_source a) then None else Some c
      | TransferSession \<Rightarrow>
          if borrowed loans (cs_loans c) (\<lambda>_. True) (a_source a) then None else Some c
      | Introduce \<Rightarrow>
          Some (c\<lparr>cs_res := (cs_res c)(a_resource a \<mapsto>
                    Live (case a_target a of Some t \<Rightarrow> Some t | None \<Rightarrow> a_source a))\<rparr>)
      | Move \<Rightarrow>
          exec_consume loans a (case a_target a of Some t \<Rightarrow> Live (Some t) | None \<Rightarrow> Dead) c
      | Drop \<Rightarrow> exec_consume loans a Dead c
      | Return \<Rightarrow> exec_consume loans a Dead c
      | TransferChild \<Rightarrow> exec_consume loans a Dead c
      | BorrowShared \<Rightarrow> exec_borrow loans a c
      | BorrowMut \<Rightarrow> exec_borrow loans a c
      | BorrowEnd \<Rightarrow> Some (exec_borrow_end loans a c))"

fun exec_actions :: "loan_catalog \<Rightarrow> ResourceAction list \<Rightarrow> CState \<Rightarrow> CState option" where
  "exec_actions loans [] c = Some c"
| "exec_actions loans (a # as) c = Option.bind (exec_action loans a c) (exec_actions loans as)"

text \<open>Crossing an edge ends the loans whose end the edge carries.\<close>

definition loans_ended_on :: "ResourceAction list \<Rightarrow> CfgEdge \<Rightarrow> LoanId set" where
  "loans_ended_on actions e =
     {i. \<exists>a \<in> set actions. a_kind a = BorrowEnd \<and> loc_edge (a_location a) = Some (e_id e) \<and> a_loan a = Some i}"

definition cross_edge :: "ResourceAction list \<Rightarrow> CfgEdge \<Rightarrow> CState \<Rightarrow> CState option" where
  "cross_edge actions e c =
     (if loop_carried (e_kind e) \<and> cs_loans c \<noteq> {} then None
      else Some (c\<lparr>cs_loans := cs_loans c - loans_ended_on actions e\<rparr>))"

text \<open>
  A path is the list of the edges it takes from a block; its run ends after the actions of its
  last block.
\<close>

fun is_path :: "CallableCfg \<Rightarrow> BasicBlockId \<Rightarrow> CfgEdge list \<Rightarrow> bool" where
  "is_path cfg b [] = True"
| "is_path cfg b (e # es) = (e \<in> set (cfg_successors cfg b) \<and> is_path cfg (e_to e) es)"

fun path_end :: "BasicBlockId \<Rightarrow> CfgEdge list \<Rightarrow> BasicBlockId" where
  "path_end b [] = b"
| "path_end b (e # es) = path_end (e_to e) es"

fun exec_path ::
    "CallableCfg \<Rightarrow> loan_catalog \<Rightarrow> ResourceAction list \<Rightarrow> BasicBlockId \<Rightarrow> CfgEdge list \<Rightarrow> CState
       \<Rightarrow> CState option" where
  "exec_path cfg loans actions b [] c = exec_actions loans (block_actions cfg actions b) c"
| "exec_path cfg loans actions b (e # es) c =
     Option.bind (exec_actions loans (block_actions cfg actions b) c)
       (\<lambda>c'. Option.bind (cross_edge actions e c') (exec_path cfg loans actions (e_to e) es))"

section \<open>Simulation\<close>

fun fact_rel :: "ResourceFact option \<Rightarrow> CRes option \<Rightarrow> bool" where
  "fact_rel a None = True"
| "fact_rel a (Some (Live p)) = (\<exists>f. a = Some f \<and> availability f = Available \<and> owner f = p)"
| "fact_rel a (Some Dead) = (\<exists>f. a = Some f \<and> availability f = Consumed)"

definition sim :: "FlowState \<Rightarrow> CState \<Rightarrow> bool" where
  "sim st c \<longleftrightarrow> (\<forall>r. fact_rel (bt_get (fs_resources st) r) (cs_res c r)) \<and> cs_loans c \<subseteq> set (fs_loans st)"

lemma sim_start: "sim st cs_start"
  by (simp add: sim_def cs_start_def)

lemma concat_Nil_simp: "concat (map f xs) = [] \<longleftrightarrow> (\<forall>x \<in> set xs. f x = [])"
  by auto

lemma reject_conflicting_Nil:
  "reject_conflicting_loans a st loans = [] \<longleftrightarrow> \<not> borrowed loans (set (fs_loans st)) (\<lambda>_. True) (a_source a)"
  by (cases "a_source a")
    (auto simp: reject_conflicting_loans_def borrowed_def loan_touches_def split: option.splits)

lemma reject_read_Nil:
  "reject_read_conflicts a st loans = [] \<longleftrightarrow>
     \<not> borrowed loans (set (fs_loans st)) (\<lambda>l. l_kind l = LoanMutable) (a_source a)"
  by (cases "a_source a")
    (auto simp: reject_read_conflicts_def borrowed_def loan_touches_def split: option.splits)

lemma borrowed_mono: "borrowed loans A P s \<Longrightarrow> A \<subseteq> B \<Longrightarrow> borrowed loans B P s"
  by (auto simp: borrowed_def split: option.splits)

lemma borrow_words_None: "borrow_error_words k k' = None \<longleftrightarrow> k = LoanShared \<and> k' = LoanShared"
  by (cases k; cases k') auto

lemma reject_borrow_Nil:
  "reject_borrow_conflicts a l st loans = [] \<longleftrightarrow>
     \<not> (\<exists>j \<in> set (fs_loans st). (case bt_get loans j of None \<Rightarrow> False | Some active \<Rightarrow> loan_clash l j active))"
proof -
  have clash: "loan_clash l j active \<Longrightarrow> borrow_error_words (l_kind l) (l_kind active) \<noteq> None" for j active
    by (auto simp: loan_clash_def borrow_words_None)
  show ?thesis
    unfolding reject_borrow_conflicts_def concat_Nil_simp
    using clash by (force split: option.splits)
qed

lemma sim_set_fact:
  assumes "sim st c" and "fact_rel (Some f) (Some v)"
  shows "sim (set_fact r f st) (c\<lparr>cs_res := (cs_res c)(r \<mapsto> v)\<rparr>)"
  using assms by (auto simp: sim_def set_fact_def bt_simps)


lemma sim_not_borrowed:
  "sim st c \<Longrightarrow> \<not> borrowed loans (set (fs_loans st)) P src \<Longrightarrow> \<not> borrowed loans (cs_loans c) P src"
  using borrowed_mono by (auto simp: sim_def)

lemma owner_errors_Nil:
  assumes "sim st c" and "owner_errors a st = []"
  shows "\<not> stale_name (cs_res c (a_resource a)) (a_source a)"
proof
  assume "stale_name (cs_res c (a_resource a)) (a_source a)"
  then obtain own src where c: "cs_res c (a_resource a) = Some (Live (Some own))"
    and src: "a_source a = Some src" "p_base own \<noteq> p_base src"
    by (auto simp: stale_name_def split: option.splits CRes.splits)
  have "fact_rel (bt_get (fs_resources st) (a_resource a)) (cs_res c (a_resource a))"
    using assms(1) by (simp add: sim_def)
  then obtain f where "bt_get (fs_resources st) (a_resource a) = Some f" "availability f = Available"
    "owner f = Some own"
    by (auto simp: c)
  then show False using assms(2) src by (simp add: owner_errors_def validate_action_owner_def)
qed

text \<open>What the consuming transfers share: no diagnostic means the concrete step is allowed.\<close>

lemma consume_sim:
  assumes sim: "sim st c" and "reject_conflicting_loans a st loans = []" and "owner_errors a st = []"
    and avail: "availability (entry_fact a st) = Available"
    and rel: "fact_rel (Some f) (Some v)"
  shows "\<exists>c'. exec_consume loans a v c = Some c' \<and> sim (set_fact (a_resource a) f st) c'"
proof -
  have "\<not> borrowed loans (cs_loans c) (\<lambda>_. True) (a_source a)"
    using sim_not_borrowed [OF sim] assms(2) by (simp add: reject_conflicting_Nil)
  moreover have "cs_res c (a_resource a) \<noteq> Some Dead"
  proof
    assume dead: "cs_res c (a_resource a) = Some Dead"
    have "fact_rel (bt_get (fs_resources st) (a_resource a)) (cs_res c (a_resource a))"
      using sim by (simp add: sim_def)
    then obtain g where "bt_get (fs_resources st) (a_resource a) = Some g" "availability g = Consumed"
      by (auto simp: dead)
    then show False using avail by (simp add: entry_fact_def Let_def split: if_splits)
  qed
  ultimately show ?thesis
    using owner_errors_Nil [OF sim assms(3)] sim_set_fact [OF sim rel] by (simp add: exec_consume_def)
qed

lemma if_error_False: "(if c then [x] else []) = [] \<Longrightarrow> \<not> c"
  by (simp split: if_splits)

lemma transfer_move_sim:
  assumes "sim st c" and "transfer_move a st loans = (st', [])"
  shows "\<exists>c'. exec_consume loans a (case a_target a of Some t \<Rightarrow> Live (Some t) | None \<Rightarrow> Dead) c = Some c'
    \<and> sim st' c'"
  using assms unfolding transfer_move_def Let_def
  by (cases "a_target a") (auto intro!: consume_sim simp: if_error_Nil)

lemma transfer_consume_sim:
  assumes "sim st c" and "transfer_consume a st loans = (st', [])"
  shows "\<exists>c'. exec_consume loans a Dead c = Some c' \<and> sim st' c'"
  using assms unfolding transfer_consume_def Let_def by (auto intro!: consume_sim simp: if_error_Nil)

lemma transfer_borrow_sim:
  assumes sim: "sim st c" and t: "transfer_borrow a st loans = (st', [])"
  shows "\<exists>c'. exec_borrow loans a c = Some c' \<and> sim st' c'"
proof (cases "Option.bind (a_loan a) (bt_get loans)")
  case None
  then show ?thesis using assms
    by (auto simp: transfer_borrow_def exec_borrow_def split: option.splits)
next
  case (Some l)
  then obtain i where i: "a_loan a = Some i" "bt_get loans i = Some l"
    by (auto simp: bind_eq_Some_conv)
  have st': "st' = st\<lparr>fs_loans := bs_insert i (fs_loans st)\<rparr>" "reject_borrow_conflicts a l st loans = []"
    using t by (simp_all add: transfer_borrow_def i)
  have sub: "cs_loans c \<subseteq> set (fs_loans st)" using sim by (simp add: sim_def)
  have "\<not> (\<exists>j \<in> cs_loans c. (case bt_get loans j of None \<Rightarrow> False | Some active \<Rightarrow> loan_clash l j active))"
    using st'(2) sub unfolding reject_borrow_Nil by blast
  then show ?thesis using sim by (auto simp: exec_borrow_def i st'(1) sim_def)
qed

lemma transfer_borrow_end_sim:
  "sim st c \<Longrightarrow> sim (transfer_borrow_end a st loans) (exec_borrow_end loans a c)"
  by (auto simp: transfer_borrow_end_def exec_borrow_end_def sim_def loan_touches_def split: option.splits)

lemma transfer_sim:
  assumes "sim st c" and "transfer loans a st = (st', [])"
  shows "\<exists>c'. exec_action loans a c = Some c' \<and> sim st' c'"
proof (cases "a_kind a")
  case Introduce
  then show ?thesis
    using assms sim_set_fact [OF assms(1)] by (auto simp: transfer_def exec_action_def)
qed (use assms transfer_move_sim [OF assms(1)] transfer_consume_sim [OF assms(1)]
      transfer_borrow_sim [OF assms(1)] transfer_borrow_end_sim [OF assms(1)]
      sim_not_borrowed [OF assms(1)] reject_conflicting_Nil [of a st loans] reject_read_Nil [of a st loans]
    in \<open>auto simp: transfer_def exec_action_def\<close>)

lemma transfer_all_Cons:
  "transfer_all loans (a # as) st =
     (fst (transfer_all loans as (fst (transfer loans a st))),
      snd (transfer loans a st) @ snd (transfer_all loans as (fst (transfer loans a st))))"
proof -
  let ?f = "\<lambda>(st, errs) a. case transfer loans a st of (st', e) \<Rightarrow> (st', errs @ e)"
  have acc: "foldl ?f (st, errs) as = (fst (foldl ?f (st, []) as), errs @ snd (foldl ?f (st, []) as))"
    for st errs as
  proof (induction as arbitrary: st errs)
    case (Cons a as)
    show ?case
      using Cons [of "fst (transfer loans a st)" "errs @ snd (transfer loans a st)"]
        Cons [of "fst (transfer loans a st)" "snd (transfer loans a st)"]
      by (simp add: case_prod_beta)
  qed simp
  show ?thesis
    using acc [of "fst (transfer loans a st)" "snd (transfer loans a st)" as]
    by (simp add: transfer_all_def case_prod_beta)
qed

lemma transfer_all_Nil [simp]: "transfer_all loans [] st = (st, [])"
  by (simp add: transfer_all_def)

lemma transfer_all_sim:
  "sim st c \<Longrightarrow> transfer_all loans as st = (st', []) \<Longrightarrow> \<exists>c'. exec_actions loans as c = Some c' \<and> sim st' c'"
proof (induction as arbitrary: st c)
  case (Cons a as)
  obtain st1 e1 where t: "transfer loans a st = (st1, e1)" by fastforce
  with Cons.prems(2) have "e1 = []" "transfer_all loans as st1 = (st', [])"
    by (auto simp: transfer_all_Cons prod_eq_iff)
  moreover obtain c1 where "exec_action loans a c = Some c1" "sim st1 c1"
    using transfer_sim [OF Cons.prems(1)] t \<open>e1 = []\<close> by blast
  ultimately show ?case using Cons.IH [of st1 c1] by simp
qed simp


section \<open>Edges and joins\<close>

lemma end_edge_loans_simps:
  "fs_resources (end_edge_loans actions e st) = fs_resources st"
  "set (fs_loans (end_edge_loans actions e st)) = set (fs_loans st) - loans_ended_on actions e"
proof -
  let ?f = "\<lambda>st a. case a_loan a of Some loan \<Rightarrow> st\<lparr>fs_loans := bs_remove loan (fs_loans st)\<rparr> | None \<Rightarrow> st"
  have "fs_resources (foldl ?f st as) = fs_resources st \<and>
      set (fs_loans (foldl ?f st as)) = set (fs_loans st) - {i. \<exists>a \<in> set as. a_loan a = Some i}" for as
    by (induction as arbitrary: st) (auto split: option.splits)
  then show "fs_resources (end_edge_loans actions e st) = fs_resources st"
    "set (fs_loans (end_edge_loans actions e st)) = set (fs_loans st) - loans_ended_on actions e"
    by (auto simp: end_edge_loans_def loans_ended_on_def)
qed

lemma cross_edge_sim:
  "sim st c \<Longrightarrow> cross_edge actions e c = Some c' \<Longrightarrow> sim (end_edge_loans actions e st) c'"
  by (auto simp: sim_def cross_edge_def end_edge_loans_simps split: if_splits)

definition covers :: "FlowState \<Rightarrow> FlowState \<Rightarrow> bool" where
  "covers J S \<longleftrightarrow>
     (\<forall>r f. bt_get (fs_resources S) r = Some f \<longrightarrow>
        (\<exists>g. bt_get (fs_resources J) r = Some g \<and> availability g = availability f \<and>
           (availability f = Available \<longrightarrow> owner g = owner f))) \<and>
     set (fs_loans S) \<subseteq> set (fs_loans J)"

lemma covers_refl [simp]: "covers S S"
  by (simp add: covers_def)

lemma covers_trans: "covers K J \<Longrightarrow> covers J S \<Longrightarrow> covers K S"
  unfolding covers_def by (metis (no_types, lifting) subset_trans)

lemma fact_rel_mono:
  assumes "\<And>f. a = Some f \<Longrightarrow> \<exists>g. b = Some g \<and> availability g = availability f \<and>
      (availability f = Available \<longrightarrow> owner g = owner f)"
    and "fact_rel a c"
  shows "fact_rel b c"
proof (cases c)
  case (Some v)
  then show ?thesis using assms by (cases v) fastforce+
qed simp

lemma covers_sim: "covers J S \<Longrightarrow> sim S c \<Longrightarrow> sim J c"
  unfolding sim_def covers_def
  by (intro conjI allI fact_rel_mono [of "bt_get (fs_resources S) r" "bt_get (fs_resources J) r" for r]) auto

lemma join_ids:
  assumes "distinct ids"
  shows "fs_loans (fst (foldl (join_id cfg b S) (J, errs) ids)) = fs_loans J \<and>
    bt_get (fs_resources (fst (foldl (join_id cfg b S) (J, errs) ids))) =
      (\<lambda>r. if r \<in> set ids then
         (case fst (join_fact cfg b r (bt_get (fs_resources J) r) (bt_get (fs_resources S) r)) of
            None \<Rightarrow> bt_get (fs_resources J) r | Some f \<Rightarrow> Some f)
       else bt_get (fs_resources J) r) \<and>
    snd (foldl (join_id cfg b S) (J, errs) ids) = errs @
      concat (map (\<lambda>r. snd (join_fact cfg b r (bt_get (fs_resources J) r) (bt_get (fs_resources S) r))) ids)"
  using assms
proof (induction ids arbitrary: J errs)
  case (Cons i ids)
  obtain f e where jf: "join_fact cfg b i (bt_get (fs_resources J) i) (bt_get (fs_resources S) i) = (f, e)"
    by fastforce
  define J' where "J' = (case f of None \<Rightarrow> J | Some g \<Rightarrow> set_fact i g J)"
  have step: "join_id cfg b S (J, errs) i = (J', errs @ e)"
    by (simp add: join_id_def jf J'_def split: option.split)
  have J': "fs_loans J' = fs_loans J"
    "bt_get (fs_resources J') = (\<lambda>r. if r = i then (case f of None \<Rightarrow> bt_get (fs_resources J) i | Some g \<Rightarrow> Some g)
        else bt_get (fs_resources J) r)"
    by (auto simp: J'_def set_fact_def bt_simps fun_eq_iff split: option.splits)
  have keep: "map (\<lambda>r. snd (join_fact cfg b r (bt_get (fs_resources J') r) (bt_get (fs_resources S) r))) ids =
      map (\<lambda>r. snd (join_fact cfg b r (bt_get (fs_resources J) r) (bt_get (fs_resources S) r))) ids"
    using Cons.prems by (intro map_cong) (auto simp: J'(2))
  show ?case
    using Cons.IH [of J' "errs @ e"] Cons.prems
    unfolding foldl.simps step keep
    by (auto simp: J' jf fun_eq_iff split: option.splits)
qed auto

lemma join_fact_ok:
  assumes "snd (join_fact cfg b r x y) = []" and "x = Some f \<or> y = Some f"
  shows "\<exists>g. fst (join_fact cfg b r x y) = Some g \<and> availability g = availability f \<and>
    (availability f = Available \<longrightarrow> owner g = owner f)"
  using assms by (auto simp: join_fact_def one_sided_def split: option.splits if_splits)

lemma join_state_covers:
  assumes "snd (join_state cfg b (J, errs) S) = []"
  shows "errs = [] \<and> covers (fst (join_state cfg b (J, errs) S)) J \<and> covers (fst (join_state cfg b (J, errs) S)) S"
proof -
  define ids where "ids = bs_extend [] (bt_keys (fs_resources J) @ bt_keys (fs_resources S))"
  have "distinct ids" by (simp add: ids_def bs_wf_distinct bs_wf_extend)
  note ji = join_ids [OF this, of cfg b S J errs]
  have js: "join_state cfg b (J, errs) S =
      ((fst (foldl (join_id cfg b S) (J, errs) ids))
         \<lparr>fs_loans := bs_extend (fs_loans J) (fs_loans S)\<rparr>, snd (foldl (join_id cfg b S) (J, errs) ids))"
    using ji by (simp add: join_state_def ids_def Let_def)
  have errs: "errs = []"
    and ok: "\<And>r. r \<in> set ids \<Longrightarrow>
      snd (join_fact cfg b r (bt_get (fs_resources J) r) (bt_get (fs_resources S) r)) = []"
    using assms ji by (auto simp: js)
  have mem: "r \<in> set ids" if "bt_get (fs_resources J) r = Some f \<or> bt_get (fs_resources S) r = Some f" for r f
    using that by (auto simp: ids_def bt.keys_get)
  have "\<exists>g. bt_get (fs_resources (fst (join_state cfg b (J, errs) S))) r = Some g \<and>
      availability g = availability f \<and> (availability f = Available \<longrightarrow> owner g = owner f)"
    if "bt_get (fs_resources J) r = Some f \<or> bt_get (fs_resources S) r = Some f" for r f
    using join_fact_ok [OF ok [OF mem [OF that]] that] ji mem [OF that] by (auto simp: js)
  moreover have "set (fs_loans (fst (join_state cfg b (J, errs) S))) = set (fs_loans J) \<union> set (fs_loans S)"
    by (simp add: js)
  ultimately show ?thesis using errs unfolding covers_def by auto
qed

lemma join_fold_covers:
  "snd (foldl (join_state cfg b) (J, errs) Ss) = [] \<Longrightarrow>
     errs = [] \<and> covers (fst (foldl (join_state cfg b) (J, errs) Ss)) J \<and>
     (\<forall>S \<in> set Ss. covers (fst (foldl (join_state cfg b) (J, errs) Ss)) S)"
proof (induction Ss arbitrary: J errs)
  case (Cons S Ss)
  obtain J1 e1 where j: "join_state cfg b (J, errs) S = (J1, e1)" by fastforce
  have IH: "e1 = [] \<and> covers (fst (foldl (join_state cfg b) (J1, e1) Ss)) J1 \<and>
     (\<forall>S \<in> set Ss. covers (fst (foldl (join_state cfg b) (J1, e1) Ss)) S)"
    by (rule Cons.IH) (use Cons.prems in \<open>simp add: j\<close>)
  have step: "errs = [] \<and> covers J1 J \<and> covers J1 S"
    using join_state_covers [of cfg b J errs S] IH by (simp add: j)
  have "covers (fst (foldl (join_state cfg b) (J1, e1) Ss)) J"
    "covers (fst (foldl (join_state cfg b) (J1, e1) Ss)) S"
    using IH step by (blast intro: covers_trans [of _ J1])+
  then show ?case using IH step unfolding foldl.simps j set_simps by blast
qed simp

lemma join_predecessors_sim:
  assumes "snd (join_predecessors cfg b out actions) = []"
    and "e \<in> set (cfg_predecessors cfg b)" and "e_from e \<in> set (cfg_reachable cfg)"
    and "bt_get out (e_from e) = Some st" and "sim st c" and "cross_edge actions e c = Some c'"
  shows "sim (fst (join_predecessors cfg b out actions)) c'"
proof -
  have mem: "end_edge_loans actions e st \<in> set (predecessor_states cfg b out actions)"
    using assms(2,3,4) by (auto simp: predecessor_states_def set_map_filter)
  then obtain S Ss where p: "predecessor_states cfg b out actions = S # Ss"
    by (cases "predecessor_states cfg b out actions") auto
  have "covers (fst (join_predecessors cfg b out actions)) (end_edge_loans actions e st)"
  proof -
    have j: "join_predecessors cfg b out actions = foldl (join_state cfg b) (S, []) Ss"
      by (simp add: join_predecessors_def p)
    have "covers (fst (join_predecessors cfg b out actions)) S \<and>
        (\<forall>T \<in> set Ss. covers (fst (join_predecessors cfg b out actions)) T)"
      using join_fold_covers [of cfg b S "[]" Ss] assms(1) unfolding j by blast
    then show ?thesis using mem by (simp only: p set_simps) blast
  qed
  then show ?thesis using covers_sim cross_edge_sim [OF assms(5,6)] by blast
qed

end
