(* ===== verification/Mimi_DataflowSound.thy ===== *)
theory Mimi_DataflowSound
  imports Mimi_Paths
begin

text \<open>
  Correctness of the resource analysis: the invariant of the forward worklist (a block that is
  not queued and whose forward predecessors are done is at its fixed point), the refinement of
  \<open>Mimi_Paths\<close> by an accepted analysis, and termination of the worklist on loop-free graphs.
\<close>

section \<open>Graphs the schedule can finish\<close>

definition forward_preds :: "CallableCfg \<Rightarrow> BasicBlockId \<Rightarrow> CfgEdge list" where
  "forward_preds cfg b = filter (\<lambda>e. \<not> loop_carried (e_kind e))
     (filter (\<lambda>e. e_from e \<in> set (cfg_reachable cfg)) (cfg_predecessors cfg b))"

text \<open>
  \<open>order\<close> lists the reachable blocks so that each but the entry has a forward predecessor and
  comes after all of them: without its loop-carried edges the graph is acyclic.
\<close>

fun scheduled_from :: "CallableCfg \<Rightarrow> BasicBlockId list \<Rightarrow> BasicBlockId list \<Rightarrow> bool" where
  "scheduled_from cfg before [] = True"
| "scheduled_from cfg before (b # bs) =
     ((b = cfg_entry cfg \<or> forward_preds cfg b \<noteq> [] \<and> (\<forall>e \<in> set (forward_preds cfg b). e_from e \<in> set before))
      \<and> scheduled_from cfg (b # before) bs)"

text \<open>
  The premises of the soundness theorems. That nothing leads back into the entry is asked of the
  graph here; the code neither checks it nor handles it.
\<close>

definition analyzable :: "CallableCfg \<Rightarrow> BasicBlockId list \<Rightarrow> bool" where
  "analyzable cfg order \<longleftrightarrow>
     cfg_indexed cfg \<and> validate_cfg cfg = Ok () \<and> cfg_predecessors cfg (cfg_entry cfg) = [] \<and>
     set order = set (cfg_reachable cfg) \<and> scheduled_from cfg [] order"

lemma analyzable_reachable:
  assumes "analyzable cfg order"
  shows "cfg_entry cfg \<in> set (cfg_reachable cfg)"
    and "\<And>b e. b \<in> set (cfg_reachable cfg) \<Longrightarrow> e \<in> set (cfg_successors cfg b) \<Longrightarrow> e_to e \<in> set (cfg_reachable cfg)"
proof -
  have "cfg_valid cfg"
    using assms validate_cfg_reach [of cfg] by (simp add: analyzable_def cfg_indexed_def)
  then have r: "set (cfg_reachable cfg) = (cfg_step cfg)\<^sup>* `` {cfg_entry cfg}" by (simp add: cfg_valid_def)
  show "cfg_entry cfg \<in> set (cfg_reachable cfg)" by (simp add: r)
  show "e_to e \<in> set (cfg_reachable cfg)"
    if "b \<in> set (cfg_reachable cfg)" "e \<in> set (cfg_successors cfg b)" for b e
    using that unfolding r by (auto intro: rtrancl_into_rtrancl simp: cfg_step_def)
qed

section \<open>One step of the worklist\<close>

definition process ::
    "CallableCfg \<Rightarrow> loan_catalog \<Rightarrow> ResourceAction list \<Rightarrow> (BasicBlockId, FlowState) btree_map \<Rightarrow> BasicBlockId
       \<Rightarrow> FlowState \<times> Diagnostic list" where
  "process cfg loans actions out b =
     (let inc = incoming_of cfg actions b out;
          res = transfer_all loans (block_actions cfg actions b) (fst inc)
      in (fst res, snd inc @ snd res @ loop_edge_errors cfg b (fst res)))"

definition df_ready :: "CallableCfg \<Rightarrow> (BasicBlockId, FlowState) btree_map \<Rightarrow> BasicBlockId \<Rightarrow> bool" where
  "df_ready cfg out b \<longleftrightarrow> b = cfg_entry cfg \<or> predecessors_ready cfg b out"

lemma df_push_fold:
  fixes cfg :: CallableCfg and es :: "CfgEdge list" and s :: DfState
  assumes "distinct (df_queue s)" and "set (df_queue s) = set (df_queued s)"
  defines "t \<equiv> foldl (df_push cfg) s es"
  shows "distinct (df_queue t) \<and> set (df_queue t) = set (df_queued t) \<and>
    set (df_queue t) = set (df_queue s) \<union> {b \<in> set (cfg_reachable cfg). b \<in> e_to ` set es} \<and>
    df_out t = df_out s \<and> df_errors t = df_errors s"
  using assms(1,2) unfolding t_def
proof (induction es arbitrary: s)
  case (Cons e es)
  have "distinct (df_queue (df_push cfg s e))"
    "set (df_queue (df_push cfg s e)) = set (df_queued (df_push cfg s e))"
    using Cons.prems by (auto simp: df_push_def)
  note IH = Cons.IH [OF this]
  have "set (df_queue (df_push cfg s e)) = set (df_queue s) \<union> {b \<in> set (cfg_reachable cfg). b = e_to e}"
    "df_out (df_push cfg s e) = df_out s" "df_errors (df_push cfg s e) = df_errors s"
    using Cons.prems by (auto simp: df_push_def)
  moreover have "{b \<in> set (cfg_reachable cfg). b \<in> e_to ` set (e # es)} =
      {b \<in> set (cfg_reachable cfg). b = e_to e} \<union> {b \<in> set (cfg_reachable cfg). b \<in> e_to ` set es}"
    by auto
  ultimately show ?case using IH by (auto simp only: foldl.simps Un_assoc)
qed auto

lemma df_step_skip:
  assumes "df_queue s = b # rest" and "\<not> df_ready cfg (df_out s) b"
  shows "df_step cfg loans actions s = s\<lparr>df_queue := rest, df_queued := bs_remove b (df_queued s)\<rparr>"
  using assms by (simp add: df_step_def df_ready_def Let_def)

lemma df_step_process:
  fixes cfg :: CallableCfg and s :: DfState and loans :: loan_catalog and actions :: "ResourceAction list"
  assumes "df_queue s = b # rest" and "df_ready cfg (df_out s) b"
    and "distinct (df_queue s)" and "set (df_queue s) = set (df_queued s)"
  defines "p \<equiv> process cfg loans actions (df_out s) b"
  defines "t \<equiv> df_step cfg loans actions s"
  shows "distinct (df_queue t)" and "set (df_queue t) = set (df_queued t)"
    and "bt_get (df_out t) = (bt_get (df_out s))(b \<mapsto> fst p)"
    and "df_errors t = df_errors s @ snd p"
    and "bt_get (df_out s) b = Some (fst p) \<Longrightarrow> df_queue t = rest"
    and "bt_get (df_out s) b \<noteq> Some (fst p) \<Longrightarrow> set (df_queue t) =
           set rest \<union> {c \<in> set (cfg_reachable cfg). c \<in> e_to ` set (cfg_successors cfg b)}"
proof -
  obtain inc je where inc: "incoming_of cfg actions b (df_out s) = (inc, je)" by fastforce
  obtain out es where out: "transfer_all loans (block_actions cfg actions b) inc = (out, es)" by fastforce
  have p: "p = (out, je @ es @ loop_edge_errors cfg b out)" by (simp add: p_def process_def inc out)
  define s1 where "s1 = s\<lparr>df_queue := rest, df_queued := bs_remove b (df_queued s)\<rparr>"
  define s3 where "s3 = (if bt_get (df_in s) b \<noteq> Some inc then s1\<lparr>df_in := bt_insert b inc (df_in s)\<rparr> else s1)
      \<lparr>df_errors := df_errors s @ snd p\<rparr>"
  define s4 where "s4 = s3\<lparr>df_out := bt_insert b out (df_out s)\<rparr>"
  have ready: "(b \<noteq> cfg_entry cfg \<and> \<not> predecessors_ready cfg b (df_out s)) = False"
    using assms(2) by (simp add: df_ready_def)
  have t: "t = (if bt_get (df_out s) b \<noteq> Some out then foldl (df_push cfg) s4 (cfg_successors cfg b) else s3)"
    unfolding t_def df_step_def assms(1) list.case Let_def inc prod.case out ready if_False
    by (simp add: p s1_def s3_def s4_def)
  have s3: "distinct (df_queue s3)" "set (df_queue s3) = set (df_queued s3)" "df_queue s3 = rest"
    "df_out s3 = df_out s" "df_errors s3 = df_errors s @ snd p"
    using assms(1,3,4) by (auto simp: s3_def s1_def)
  have s4: "distinct (df_queue s4)" "set (df_queue s4) = set (df_queued s4)" "df_queue s4 = rest"
    "df_out s4 = bt_insert b out (df_out s)" "df_errors s4 = df_errors s @ snd p"
    using s3 by (auto simp: s4_def)
  note push = df_push_fold [OF s4(1,2), of cfg "cfg_successors cfg b"]
  show "distinct (df_queue t)" "set (df_queue t) = set (df_queued t)"
    using push s3 by (auto simp: t)
  show "bt_get (df_out t) = (bt_get (df_out s))(b \<mapsto> fst p)"
    using push s3 s4 by (auto simp: t bt_simps fun_eq_iff p)
  show "df_errors t = df_errors s @ snd p"
    using push s3 s4 by (auto simp: t)
  show "bt_get (df_out s) b = Some (fst p) \<Longrightarrow> df_queue t = rest"
    using s3 by (simp add: t p)
  show "bt_get (df_out s) b \<noteq> Some (fst p) \<Longrightarrow> set (df_queue t) =
      set rest \<union> {c \<in> set (cfg_reachable cfg). c \<in> e_to ` set (cfg_successors cfg b)}"
    using push s4(3) by (simp only: t p) auto
qed

text \<open>Processing a block reads the exit states of its reachable predecessors only.\<close>

lemma map_filter_cong:
  "(\<And>x. x \<in> set xs \<Longrightarrow> f x = g x) \<Longrightarrow> List.map_filter f xs = List.map_filter g xs"
  by (induction xs) (simp_all add: map_filter_simps split: option.split)

lemma process_cong:
  assumes "\<And>e. e \<in> set (cfg_predecessors cfg b) \<Longrightarrow> e_from e \<in> set (cfg_reachable cfg) \<Longrightarrow>
    bt_get out (e_from e) = bt_get out' (e_from e)"
  shows "process cfg loans actions out b = process cfg loans actions out' b"
    and "predecessors_ready cfg b out = predecessors_ready cfg b out'"
proof -
  have "predecessor_states cfg b out actions = predecessor_states cfg b out' actions"
    unfolding predecessor_states_def by (rule map_filter_cong) (use assms in auto)
  then show "process cfg loans actions out b = process cfg loans actions out' b"
    by (simp add: process_def incoming_of_def join_predecessors_def)
  show "predecessors_ready cfg b out = predecessors_ready cfg b out'"
    using assms by (auto simp: predecessors_ready_def list_all_iff bt_contains_def)
qed


section \<open>The worklist invariant\<close>

definition stable_block ::
    "CallableCfg \<Rightarrow> loan_catalog \<Rightarrow> ResourceAction list \<Rightarrow> (BasicBlockId, FlowState) btree_map \<Rightarrow> BasicBlockId
       \<Rightarrow> bool" where
  "stable_block cfg loans actions out b \<longleftrightarrow>
     bt_get out b = Some (fst (process cfg loans actions out b)) \<and> snd (process cfg loans actions out b) = []"

definition triggered :: "CallableCfg \<Rightarrow> (BasicBlockId, FlowState) btree_map \<Rightarrow> BasicBlockId \<Rightarrow> bool" where
  "triggered cfg out b \<longleftrightarrow> b = cfg_entry cfg \<or> predecessors_ready cfg b out \<and>
     (\<exists>e \<in> set (cfg_predecessors cfg b). e_from e \<in> set (cfg_reachable cfg) \<and> bt_get out (e_from e) \<noteq> None)"

definition df_inv :: "CallableCfg \<Rightarrow> loan_catalog \<Rightarrow> ResourceAction list \<Rightarrow> DfState \<Rightarrow> bool" where
  "df_inv cfg loans actions s \<longleftrightarrow>
     distinct (df_queue s) \<and> set (df_queue s) = set (df_queued s) \<and>
     (df_errors s = [] \<longrightarrow>
        (\<forall>b \<in> set (cfg_reachable cfg) - set (df_queue s).
           triggered cfg (df_out s) b \<longrightarrow> stable_block cfg loans actions (df_out s) b))"

lemma df_inv_start: "df_inv cfg loans actions (df_start cfg)"
  by (auto simp: df_inv_def df_start_def triggered_def bt_simps)

lemma df_inv_step:
  assumes idx: "cfg_indexed cfg" and inv: "df_inv cfg loans actions s" and queue: "df_queue s = b # rest"
  shows "df_inv cfg loans actions (df_step cfg loans actions s)"
proof (cases "df_ready cfg (df_out s) b")
  case False
  have "\<not> triggered cfg (df_out s) b" using False by (auto simp: df_ready_def triggered_def)
  then show ?thesis
    using inv queue unfolding df_step_skip [OF queue False] by (auto simp: df_inv_def)
next
  case True
  have q: "distinct (df_queue s)" "set (df_queue s) = set (df_queued s)" using inv by (auto simp: df_inv_def)
  define p where "p = process cfg loans actions (df_out s) b"
  define t where "t = df_step cfg loans actions s"
  note step = df_step_process [OF queue True q, of loans actions, folded p_def t_def]
  have same: "process cfg loans actions (df_out t) c = process cfg loans actions (df_out s) c"
      "predecessors_ready cfg c (df_out t) = predecessors_ready cfg c (df_out s)"
      "e \<in> set (cfg_predecessors cfg c) \<Longrightarrow> bt_get (df_out t) (e_from e) = bt_get (df_out s) (e_from e)"
    if c: "c \<in> set (cfg_reachable cfg)" "c \<notin> set (df_queue t)" for c e
  proof -
    have get: "bt_get (df_out t) (e_from e) = bt_get (df_out s) (e_from e)"
      if "e \<in> set (cfg_predecessors cfg c)" for e
    proof (cases "bt_get (df_out s) b = Some (fst p)")
      case True
      then show ?thesis using step(3) by (simp add: fun_upd_idem)
    next
      case False
      have "e_from e \<noteq> b" using step(6) [OF False] c succ_iff_pred [OF idx, of e b c] that by auto
      then show ?thesis using step(3) by simp
    qed
    then show "process cfg loans actions (df_out t) c = process cfg loans actions (df_out s) c"
      "predecessors_ready cfg c (df_out t) = predecessors_ready cfg c (df_out s)"
      "e \<in> set (cfg_predecessors cfg c) \<Longrightarrow> bt_get (df_out t) (e_from e) = bt_get (df_out s) (e_from e)"
      using process_cong [of cfg c "df_out t" "df_out s"] by blast+
  qed
  have sub: "set rest \<subseteq> set (df_queue t)" using step(5,6) by (cases "bt_get (df_out s) b = Some (fst p)") auto
  have "stable_block cfg loans actions (df_out t) c"
    if err: "df_errors t = []" and c: "c \<in> set (cfg_reachable cfg) - set (df_queue t)"
      and trig: "triggered cfg (df_out t) c" for c
  proof (cases "c = b")
    case True
    then show ?thesis
      using same(1) c step(3,4) err by (simp add: stable_block_def p_def)
  next
    case False
    have "c \<in> set (cfg_reachable cfg) - set (df_queue s)" using c False sub queue by auto
    moreover have "triggered cfg (df_out s) c"
      using trig c same(2,3) unfolding triggered_def by auto
    ultimately have "stable_block cfg loans actions (df_out s) c"
      using inv err step(4) by (simp add: df_inv_def)
    then show ?thesis using False same(1) c step(3) by (simp add: stable_block_def)
  qed
  then show ?thesis using step(1,2) unfolding df_inv_def t_def [symmetric] by blast
qed

lemma df_loop_stable:
  assumes "cfg_indexed cfg" and loop: "df_loop cfg loans actions = Some s" and "df_errors s = []"
    and "b \<in> set (cfg_reachable cfg)" and "triggered cfg (df_out s) b"
  shows "stable_block cfg loans actions (df_out s) b"
proof -
  have "df_inv cfg loans actions (df_step cfg loans actions s)"
    if "df_inv cfg loans actions s" "df_queue s \<noteq> []" for s
    using that df_inv_step [OF assms(1)] by (metis list.exhaust)
  then have "df_inv cfg loans actions s"
    by (rule while_option_rule [where P = "df_inv cfg loans actions", OF _ loop [unfolded df_loop_def] df_inv_start])
  moreover have "df_queue s = []" using while_option_stop [OF loop [unfolded df_loop_def]] by simp
  ultimately show ?thesis using assms(3-5) by (simp add: df_inv_def)
qed

text \<open>On a scheduled graph every reachable block is stable at the end.\<close>

lemma scheduled_stable:
  assumes "cfg_indexed cfg" and "df_loop cfg loans actions = Some s" and "df_errors s = []"
    and "set order \<subseteq> set (cfg_reachable cfg)" and "scheduled_from cfg before order"
    and "\<And>b. b \<in> set before \<Longrightarrow> bt_get (df_out s) b \<noteq> None" and "b \<in> set order"
  shows "stable_block cfg loans actions (df_out s) b"
  using assms(4-7)
proof (induction order arbitrary: before)
  case (Cons c order)
  have "triggered cfg (df_out s) c"
  proof (cases "c = cfg_entry cfg")
    case False
    then have ne: "forward_preds cfg c \<noteq> []" and bef: "\<And>e. e \<in> set (forward_preds cfg c) \<Longrightarrow> e_from e \<in> set before"
      using Cons.prems(2) by auto
    then obtain e where "e \<in> set (forward_preds cfg c)" using list.set_intros(1) by (metis neq_Nil_conv)
    then have "e \<in> set (cfg_predecessors cfg c) \<and> e_from e \<in> set (cfg_reachable cfg) \<and> bt_get (df_out s) (e_from e) \<noteq> None"
      using bef Cons.prems(3) by (auto simp: forward_preds_def)
    moreover have "predecessors_ready cfg c (df_out s)"
      using bef Cons.prems(3) by (auto simp: predecessors_ready_def forward_preds_def list_all_iff bt_contains_def)
    ultimately show ?thesis by (auto simp: triggered_def)
  qed (simp add: triggered_def)
  then have c: "stable_block cfg loans actions (df_out s) c"
    using df_loop_stable [OF assms(1-3)] Cons.prems(1) by simp
  then have "\<And>b. b \<in> set (c # before) \<Longrightarrow> bt_get (df_out s) b \<noteq> None"
    using Cons.prems(3) by (auto simp: stable_block_def)
  then show ?case
    using Cons.IH [of "c # before"] Cons.prems c by auto
qed simp

section \<open>Soundness along paths\<close>

lemma loop_edge_errors_Nil:
  "loop_edge_errors cfg b st = [] \<Longrightarrow> e \<in> set (cfg_successors cfg b) \<Longrightarrow> loop_carried (e_kind e) \<Longrightarrow> fs_loans st = []"
  by (auto simp: loop_edge_errors_def split: if_splits)

lemma process_sim:
  assumes "stable_block cfg loans actions out b" and "sim (fst (incoming_of cfg actions b out)) c"
  obtains st c' where "bt_get out b = Some st" and "exec_actions loans (block_actions cfg actions b) c = Some c'"
    and "sim st c'" and "loop_edge_errors cfg b st = []" and "snd (incoming_of cfg actions b out) = []"
proof -
  let ?r = "transfer_all loans (block_actions cfg actions b) (fst (incoming_of cfg actions b out))"
  have r: "?r = (fst ?r, [])" "bt_get out b = Some (fst ?r)" "loop_edge_errors cfg b (fst ?r) = []"
    "snd (incoming_of cfg actions b out) = []"
    using assms(1) by (auto simp: stable_block_def process_def Let_def prod_eq_iff)
  show thesis
    using transfer_all_sim [OF assms(2) r(1)] r(2-4) that by blast
qed

lemma path_sim:
  assumes an: "analyzable cfg order"
    and stable: "\<And>b. b \<in> set (cfg_reachable cfg) \<Longrightarrow> stable_block cfg loans actions out b"
    and "b \<in> set (cfg_reachable cfg)" and "sim (fst (incoming_of cfg actions b out)) c" and "is_path cfg b es"
  shows "\<exists>c' st. exec_path cfg loans actions b es c = Some c' \<and>
    path_end b es \<in> set (cfg_reachable cfg) \<and> bt_get out (path_end b es) = Some st \<and> sim st c'"
  using assms(3-5)
proof (induction es arbitrary: b c)
  case Nil
  then show ?case using process_sim [OF stable] by (metis exec_path.simps(1) path_end.simps(1))
next
  case (Cons e es)
  obtain st c1 where st: "bt_get out b = Some st" "exec_actions loans (block_actions cfg actions b) c = Some c1"
    "sim st c1" "loop_edge_errors cfg b st = []"
    using process_sim [OF stable [OF Cons.prems(1)] Cons.prems(2)] by blast
  have e: "e \<in> set (cfg_successors cfg b)" using Cons.prems(3) by simp
  have pred: "e \<in> set (cfg_predecessors cfg (e_to e))" "e_from e = b"
    using succ_iff_pred [of cfg e b "e_to e"] an e by (auto simp: analyzable_def)
  have reach: "e_to e \<in> set (cfg_reachable cfg)" using analyzable_reachable(2) [OF an Cons.prems(1) e] .
  have "\<not> (loop_carried (e_kind e) \<and> cs_loans c1 \<noteq> {})"
    using loop_edge_errors_Nil [OF st(4) e] st(3) by (auto simp: sim_def)
  then obtain c2 where c2: "cross_edge actions e c1 = Some c2" by (simp add: cross_edge_def)
  have ne: "e_to e \<noteq> cfg_entry cfg" using pred an by (auto simp: analyzable_def)
  then have inc: "incoming_of cfg actions (e_to e) out = join_predecessors cfg (e_to e) out actions"
    by (simp add: incoming_of_def)
  have "snd (join_predecessors cfg (e_to e) out actions) = []"
    using stable [OF reach] inc by (auto simp: stable_block_def process_def Let_def)
  then have "sim (fst (incoming_of cfg actions (e_to e) out)) c2"
    unfolding inc using join_predecessors_sim [OF _ pred(1), of out actions st c1 c2] pred(2) Cons.prems(1) st c2
    by simp
  then show ?case
    using Cons.IH [OF reach] Cons.prems(3) st(2) c2 by simp
qed


lemma analyze_accepted:
  assumes "analyze_canonical cfg actions loans fb droppable = Some (Ok an)"
  obtains s where "df_loop cfg (loan_catalog_of (ra_loans an)) (ra_actions an) = Some s"
    and "df_errors s = []" and "validate_return_resources cfg (df_out s) droppable = []"
    and "ra_in_states an = resource_states (df_in s)" and "ra_out_states an = resource_states (df_out s)"
  using assms
  by (auto simp: analyze_canonical_def analyze_prepared_def Let_def dedup_errors_Nil
      split: option.splits prod.splits if_splits)

lemma accepted_path:
  assumes an: "analyzable cfg order" and ok: "analyze_canonical cfg actions loans fb droppable = Some (Ok an)"
    and path: "is_path cfg (cfg_entry cfg) es"
  obtains s :: DfState and c :: CState and st :: FlowState where "exec_path cfg (loan_catalog_of (ra_loans an)) (ra_actions an) (cfg_entry cfg) es cs_start = Some c"
    and "path_end (cfg_entry cfg) es \<in> set (cfg_reachable cfg)"
    and "bt_get (df_out s) (path_end (cfg_entry cfg) es) = Some st" and "sim st c"
    and "validate_return_resources cfg (df_out s) droppable = []"
proof -
  obtain s where s: "df_loop cfg (loan_catalog_of (ra_loans an)) (ra_actions an) = Some s" "df_errors s = []"
    "validate_return_resources cfg (df_out s) droppable = []"
    using analyze_accepted [OF ok] by blast
  have stable: "stable_block cfg (loan_catalog_of (ra_loans an)) (ra_actions an) (df_out s) b"
    if "b \<in> set (cfg_reachable cfg)" for b
    using scheduled_stable [OF _ s(1,2), of order "[]" b] an that by (auto simp: analyzable_def)
  have "\<exists>c st. exec_path cfg (loan_catalog_of (ra_loans an)) (ra_actions an) (cfg_entry cfg) es cs_start = Some c
      \<and> path_end (cfg_entry cfg) es \<in> set (cfg_reachable cfg)
      \<and> bt_get (df_out s) (path_end (cfg_entry cfg) es) = Some st \<and> sim st c"
    by (rule path_sim [OF an stable analyzable_reachable(1) [OF an] sim_start path])
  then obtain c st where p: "exec_path cfg (loan_catalog_of (ra_loans an)) (ra_actions an) (cfg_entry cfg) es cs_start = Some c"
    "path_end (cfg_entry cfg) es \<in> set (cfg_reachable cfg)"
    "bt_get (df_out s) (path_end (cfg_entry cfg) es) = Some st" "sim st c" by blast
  show thesis by (rule that [OF p s(3)])
qed

text \<open>
  C10: an accepted analysis is safe. Take a graph that is indexed, passes \<open>validate_cfg\<close>, has no edge
  into its entry, and whose reachable blocks can be ordered so that each but the entry has a forward
  predecessor and comes after all of them (\<open>analyzable\<close>; \<open>validate_cfg\<close> does not ask for the last two, and
  \<open>entry_back_edge\<close> shows what goes wrong with an edge into the entry). When \<open>analyze_canonical\<close> returns
  \<open>Ok\<close>, running the actions of the result along any path from the entry never moves, drops, returns or
  transfers to a child a resource that was consumed, or one named through a place whose base is not
  that of its present owner; never writes a place that conflicts with an active loan, nor moves, drops,
  returns or transfers it; never reads a place that conflicts with an active mutable loan; never opens a
  clashing loan; and never crosses a loop edge with an active loan. The base is compared where both the
  owner and the place of the action are known. Reads, writes, session transfers and borrows through a
  name the resource was moved away from are not excluded; the analysis accepts such a read in
  \<open>stale_read_accepted\<close>.
\<close>

theorem analysis_paths_safe:
  assumes "analyzable cfg order" and "analyze_canonical cfg actions loans fb droppable = Some (Ok an)"
    and "is_path cfg (cfg_entry cfg) es"
  shows "exec_path cfg (loan_catalog_of (ra_loans an)) (ra_actions an) (cfg_entry cfg) es cs_start \<noteq> None"
  using accepted_path [OF assms] by (metis option.discI)

lemma return_block_obligation:
  assumes "validate_return_resources cfg out droppable = []"
    and "cfg_block cfg b = Some block" and "b \<in> set (cfg_reachable cfg)"
    and "is_return (b_terminator block) \<or> is_diverging_sink cfg b block"
    and "bt_get out b = Some st" and "bt_get (fs_resources st) r = Some f" and "r \<notin> set droppable"
  shows "availability f = Consumed"
proof -
  have "validate_return_block cfg out droppable (b, block) = []"
    using assms(1,2) by (auto simp: validate_return_resources_def cfg_block_def dest!: bt_get_Some_mem)
  then have "obligation_errors (src_span (if b_points block = [] then b_source block else pt_source (last (b_points block))))
      (is_return (b_terminator block)) droppable (r, f) = []"
    using assms(3-5) bt_get_Some_mem [OF assms(6)]
    by (auto simp: validate_return_block_def Let_def split: if_splits)
  then show ?thesis
    using assms(7) by (cases "availability f") (auto simp: obligation_errors_def Let_def)
qed

text \<open>
  C11: an accepted analysis discharges every obligation. Take a graph that is indexed, passes
  \<open>validate_cfg\<close>, has no edge into its entry, and whose reachable blocks can be ordered so that each but
  the entry has a forward predecessor and comes after all of them (\<open>analyzable\<close>), and let \<open>analyze_canonical\<close> return
  \<open>Ok\<close> for it. When the run of a path from the entry ends in a return block or a diverging sink, every
  resource that was introduced or moved on the way and is not droppable has been consumed there: none
  is still live. Without the premise on the entry this is false: \<open>entry_back_edge\<close> has a graph with a back
  edge into the entry, accepted by \<open>validate_cfg\<close> and the analysis, where a resource is live at a return.
\<close>

theorem analysis_obligations_met:
  assumes "analyzable cfg order" and "analyze_canonical cfg actions loans fb droppable = Some (Ok an)"
    and "is_path cfg (cfg_entry cfg) es"
    and "cfg_block cfg (path_end (cfg_entry cfg) es) = Some block"
    and "is_return (b_terminator block) \<or> is_diverging_sink cfg (path_end (cfg_entry cfg) es) block"
    and "exec_path cfg (loan_catalog_of (ra_loans an)) (ra_actions an) (cfg_entry cfg) es cs_start = Some c"
    and "r \<notin> set droppable"
  shows "cs_res c r = None \<or> cs_res c r = Some Dead"
proof -
  obtain s :: DfState and c' st
    where run: "exec_path cfg (loan_catalog_of (ra_loans an)) (ra_actions an) (cfg_entry cfg) es cs_start = Some c'"
      and ends: "path_end (cfg_entry cfg) es \<in> set (cfg_reachable cfg)"
        "bt_get (df_out s) (path_end (cfg_entry cfg) es) = Some st"
      and sim: "sim st c'" and ret: "validate_return_resources cfg (df_out s) droppable = []"
    by (rule accepted_path [OF assms(1-3)])
  have "c' = c" using run assms(6) by simp
  with ends sim ret have st: "path_end (cfg_entry cfg) es \<in> set (cfg_reachable cfg)"
    "bt_get (df_out s) (path_end (cfg_entry cfg) es) = Some st" "sim st c"
    "validate_return_resources cfg (df_out s) droppable = []" by simp_all
  have rel: "fact_rel (bt_get (fs_resources st) r) (cs_res c r)" using st(3) by (simp add: sim_def)
  have "cs_res c r \<noteq> Some (Live p)" for p
  proof
    assume "cs_res c r = Some (Live p)"
    then obtain f where "bt_get (fs_resources st) r = Some f" "availability f = Available" using rel by auto
    then show False
      using return_block_obligation [OF st(4) assms(4) st(1) assms(5) st(2) _ assms(7)] by fastforce
  qed
  then show ?thesis by (cases "cs_res c r") (metis CRes.exhaust)+
qed

section \<open>Termination without loops\<close>

definition loop_free :: "CallableCfg \<Rightarrow> bool" where
  "loop_free cfg \<longleftrightarrow> (\<forall>e \<in> set (bt_values (cfg_edges cfg)). \<not> loop_carried (e_kind e))"

definition once_inv :: "CallableCfg \<Rightarrow> loan_catalog \<Rightarrow> ResourceAction list \<Rightarrow> DfState \<Rightarrow> bool" where
  "once_inv cfg loans actions s \<longleftrightarrow>
     distinct (df_queue s) \<and> set (df_queue s) = set (df_queued s) \<and>
     set (df_queue s) \<subseteq> insert (cfg_entry cfg) (set (cfg_reachable cfg)) \<and>
     (\<forall>b st. bt_get (df_out s) b = Some st \<longrightarrow>
        df_ready cfg (df_out s) b \<and> st = fst (process cfg loans actions (df_out s) b))"

definition blocks_left :: "CallableCfg \<Rightarrow> DfState \<Rightarrow> nat" where
  "blocks_left cfg s =
     card (insert (cfg_entry cfg) (set (cfg_reachable cfg)) - {b. bt_get (df_out s) b \<noteq> None})"

lemma process_entry: "process cfg loans actions out (cfg_entry cfg) = process cfg loans actions out' (cfg_entry cfg)"
  by (simp add: process_def incoming_of_def)

lemma ready_mono:
  "df_ready cfg out b \<Longrightarrow> (\<And>c. bt_get out c \<noteq> None \<Longrightarrow> bt_get out' c \<noteq> None) \<Longrightarrow> df_ready cfg out' b"
  by (auto simp: df_ready_def predecessors_ready_def list_all_iff bt_contains_def)

lemma once_step:
  assumes idx: "cfg_indexed cfg" and free: "loop_free cfg" and inv: "once_inv cfg loans actions s"
    and queue: "df_queue s = b # rest"
  shows "once_inv cfg loans actions (df_step cfg loans actions s) \<and>
    (df_step cfg loans actions s, s) \<in> measures [blocks_left cfg, \<lambda>s. length (df_queue s)]"
proof (cases "df_ready cfg (df_out s) b")
  case False
  show ?thesis
    using inv queue unfolding df_step_skip [OF queue False] once_inv_def by (auto simp: blocks_left_def)
next
  case True
  have q: "distinct (df_queue s)" "set (df_queue s) = set (df_queued s)"
    and univ: "set (df_queue s) \<subseteq> insert (cfg_entry cfg) (set (cfg_reachable cfg))"
    and fixed: "\<And>c st. bt_get (df_out s) c = Some st \<Longrightarrow>
      df_ready cfg (df_out s) c \<and> st = fst (process cfg loans actions (df_out s) c)"
    using inv by (auto simp: once_inv_def)
  define p where "p = process cfg loans actions (df_out s) b"
  define t where "t = df_step cfg loans actions s"
  note step = df_step_process [OF queue True q, of loans actions, folded p_def t_def]
  show ?thesis
  proof (cases "bt_get (df_out s) b")
    case (Some st)
    then have eq: "bt_get (df_out s) b = Some (fst p)" using fixed by (simp add: p_def)
    then have "bt_get (df_out t) = bt_get (df_out s)" using step(3) by (simp add: fun_upd_idem)
    moreover from this have "process cfg loans actions (df_out t) c = process cfg loans actions (df_out s) c" for c
      by (intro process_cong) simp
    ultimately show ?thesis
      using step(1,2) step(5) [OF eq] univ queue fixed ready_mono [of cfg "df_out s" _ "df_out t"]
      unfolding once_inv_def t_def [symmetric] by (auto simp: blocks_left_def)
  next
    case None
    have univ': "set (df_queue t) \<subseteq> insert (cfg_entry cfg) (set (cfg_reachable cfg))"
      using step(6) univ queue None by auto
    have keep: "process cfg loans actions (df_out t) c = process cfg loans actions (df_out s) c"
      if "df_ready cfg (df_out s) c" for c
    proof (cases "c = cfg_entry cfg")
      case False
      then have ready: "predecessors_ready cfg c (df_out s)" using that by (simp add: df_ready_def)
      have "bt_get (df_out t) (e_from e) = bt_get (df_out s) (e_from e)"
        if "e \<in> set (cfg_predecessors cfg c)" "e_from e \<in> set (cfg_reachable cfg)" for e
      proof -
        have "\<not> loop_carried (e_kind e)" using that(1) free idx by (simp add: loop_free_def indexed_pred)
        then have "e_from e \<noteq> b"
          using ready that None by (auto simp: predecessors_ready_def list_all_iff bt_contains_def)
        then show ?thesis by (simp add: step(3))
      qed
      then show ?thesis by (rule process_cong)
    qed (simp add: process_entry)
    have "df_ready cfg (df_out t) c \<and> st = fst (process cfg loans actions (df_out t) c)"
      if "bt_get (df_out t) c = Some st" for c st
    proof (cases "c = b")
      case True
      then show ?thesis
        using that keep \<open>df_ready cfg (df_out s) b\<close> step(3) ready_mono [of cfg "df_out s" b "df_out t"]
        by (auto simp: p_def)
    next
      case False
      then have "bt_get (df_out s) c = Some st" using that step(3) by simp
      then show ?thesis using fixed [of c st] keep [of c] step(3) ready_mono [of cfg "df_out s" c "df_out t"] by auto
    qed
    moreover have "blocks_left cfg t < blocks_left cfg s"
      unfolding blocks_left_def
    proof (rule psubset_card_mono)
      have "b \<in> insert (cfg_entry cfg) (set (cfg_reachable cfg))" using univ queue by auto
      then show "insert (cfg_entry cfg) (set (cfg_reachable cfg)) - {c. bt_get (df_out t) c \<noteq> None}
          \<subset> insert (cfg_entry cfg) (set (cfg_reachable cfg)) - {c. bt_get (df_out s) c \<noteq> None}"
        using None by (auto simp: step(3))
    qed simp
    ultimately show ?thesis
      using step(1,2) univ' unfolding once_inv_def t_def [symmetric] by auto
  qed
qed

lemma once_start: "once_inv cfg loans actions (df_start cfg)"
  by (simp add: once_inv_def df_start_def bt_simps)

lemma df_loop_terminates:
  assumes "cfg_indexed cfg" and "loop_free cfg"
  shows "df_loop cfg loans actions \<noteq> None"
proof -
  have "\<exists>s. df_loop cfg loans actions = Some s"
    unfolding df_loop_def
  proof (rule wf_rel_while_option_Some)
    show "wf (measures [blocks_left cfg, \<lambda>s. length (df_queue s)])" by simp
    show "(df_step cfg loans actions s, s) \<in> measures [blocks_left cfg, \<lambda>s. length (df_queue s)]"
      if "once_inv cfg loans actions s \<and> df_queue s \<noteq> []" for s
      using that once_step [OF assms] by (metis list.exhaust)
    show "once_inv cfg loans actions (df_step cfg loans actions s)"
      if "once_inv cfg loans actions s \<and> df_queue s \<noteq> []" for s
      using that once_step [OF assms] by (metis list.exhaust)
    show "once_inv cfg loans actions (df_start cfg)" by (rule once_start)
  qed
  then show ?thesis by simp
qed

text \<open>
  C12: on an indexed graph without back and continue edges the analysis returns: liveness stops
  on every graph, and the forward worklist gives each block its exit state at most once.
\<close>

theorem analysis_terminates:
  assumes "cfg_indexed cfg" and "loop_free cfg"
  shows "analyze_canonical cfg actions loans fb droppable \<noteq> None"
proof -
  obtain li lo where l: "compute_liveness cfg = Some (li, lo)"
    by (rule compute_liveness_fixpoint [OF assms(1)])
  obtain as ls where p: "prepare_actions cfg actions loans fb li lo = (as, ls)" by fastforce
  obtain s where "df_loop cfg (loan_catalog_of ls) as = Some s"
    using df_loop_terminates [OF assms] unfolding not_None_eq by blast
  then show ?thesis by (simp add: analyze_canonical_def l p analyze_prepared_def Let_def)
qed

end
