(* ===== verification/Mimi_LoanEnds.thy ===== *)
theory Mimi_LoanEnds
  imports Mimi_Dataflow
begin

text \<open>
  Where the analysis ends a loan: every location \<open>liveness_end_locations\<close> finds is one after
  which the reference is dead, unless no location was found and the binding itself is used.
\<close>

definition dead_after :: "CallableCfg \<Rightarrow> string \<Rightarrow> CfgLocation \<Rightarrow> bool" where
  "dead_after cfg r l \<longleftrightarrow>
     (case loc_edge l of
        Some i \<Rightarrow> (\<exists>e. cfg_edge cfg i = Some e \<and> e_from e = loc_block l \<and> \<not> live_at cfg (e_to e) r)
      | None \<Rightarrow>
          (\<exists>ps p qs. points_of cfg (loc_block l) = ps @ p # qs \<and> src_node (pt_source p) = loc_point l \<and>
             (\<forall>q \<in> set qs. r \<notin> set (pt_uses q)) \<and>
             (\<forall>e \<in> set (cfg_successors cfg (loc_block l)). e_to e \<in> set (cfg_reachable cfg) \<longrightarrow>
                \<not> live_at cfg (e_to e) r)))"

lemma push_location_set: "set (fst (foldl push_location acc ls)) \<subseteq> set (fst acc) \<union> set ls"
proof (induction ls arbitrary: acc)
  case (Cons l ls)
  have "set (fst (push_location acc l)) \<subseteq> set (fst acc) \<union> {l}"
    by (auto simp: push_location_def Let_def)
  then show ?case using Cons [of "push_location acc l"] by auto
qed simp

lemma rfind_split:
  "rfind P xs = Some (i, p) \<Longrightarrow> i < length xs \<and> xs ! i = p \<and> P p"
  by (auto simp: rfind_def find_Some_iff rev_nth)

lemma block_end_dead:
  assumes "block_end_location cfg r lo b = Some l"
    and out: "\<And>x. in_live lo b x \<longleftrightarrow>
      (\<exists>e \<in> set (cfg_successors cfg b). e_to e \<in> set (cfg_reachable cfg) \<and> live_at cfg (e_to e) x)"
  shows "dead_after cfg r l"
proof -
  obtain block i p where b: "cfg_block cfg b = Some block" and find: "rfind (uses_name r) (b_points block) = Some (i, p)"
    and last: "\<not> list_ex (\<lambda>q. uses_name r q \<or> defs_name r q) (drop (i + 1) (b_points block))"
    and dead: "\<not> in_live lo b r"
    and l: "l = \<lparr>loc_block = b, loc_point = src_node (pt_source p), loc_edge = None\<rparr>"
    using assms(1) by (auto simp: block_end_location_def Let_def split: option.splits if_splits)
  have "points_of cfg b = take i (b_points block) @ p # drop (i + 1) (b_points block)"
    using rfind_split [OF find] b by (metis Suc_eq_plus1 id_take_nth_drop option.simps(5) points_of_def)
  moreover have "\<forall>q \<in> set (drop (i + 1) (b_points block)). r \<notin> set (pt_uses q)"
    using last by (auto simp: list_ex_iff uses_name_def)
  moreover have "\<forall>e \<in> set (cfg_successors cfg b). e_to e \<in> set (cfg_reachable cfg) \<longrightarrow> \<not> live_at cfg (e_to e) r"
    using dead out by blast
  moreover have "loc_block l = b" "loc_edge l = None" "src_node (pt_source p) = loc_point l"
    by (simp_all add: l)
  ultimately show ?thesis unfolding dead_after_def by (simp only: option.case) blast
qed

lemma edge_end_dead:
  assumes "edge_end_location cfg r rs li lo e = Some l" and "cfg_edge cfg (e_id e) = Some e"
    and "\<And>x. e_to e \<in> set (cfg_reachable cfg) \<Longrightarrow> in_live li (e_to e) x \<longleftrightarrow> live_at cfg (e_to e) x"
  shows "dead_after cfg r l"
  using assms by (auto simp: edge_end_location_def dead_after_def Let_def split: if_splits)

lemma end_locations_dead:
  assumes idx: "cfg_indexed cfg" and valid: "validate_cfg cfg = Ok ()"
    and live: "compute_liveness cfg = Some (li, lo)" and start: "loc_block start \<in> set (cfg_reachable cfg)"
    and mem: "l \<in> set (liveness_end_locations cfg r start li lo)"
  shows "dead_after cfg r l \<or>
    liveness_end_locations cfg r start li lo = [l] \<and> loc_block l = loc_block start \<and> loc_edge l = None \<and>
    (\<exists>p \<in> set (points_of cfg (loc_block start)). src_node (pt_source p) = loc_point l \<and> r \<in> set (pt_defs p))"
proof -
  define rs where "rs = reachable_from cfg (loc_block start)"
  define bl where "bl = List.map_filter (block_end_location cfg r lo) rs"
  define el where "el = List.map_filter (edge_end_location cfg r rs li lo) (bt_values (cfg_edges cfg))"
  define found where "found = fst (foldl push_location (foldl push_location ([], []) bl) el)"
  have ok: "cfg_valid cfg" using validate_cfg_reach [of cfg] idx valid by (simp add: cfg_indexed_def)
  have exact: "in_live lo b x \<longleftrightarrow> (\<exists>e \<in> set (cfg_successors cfg b). e_to e \<in> set (cfg_reachable cfg) \<and> live_at cfg (e_to e) x)"
    "in_live li b x \<longleftrightarrow> live_at cfg b x"
    if "b \<in> set (cfg_reachable cfg)" for b x
  proof -
    note r = compute_liveness_facts [OF idx live]
    have iff: "x \<in> live_in_set li b \<longleftrightarrow> live_at cfg b x" if "b \<in> set (cfg_reachable cfg)" for b x
      using r(3) live_at_recorded [OF r(2) _ that] by blast
    show "in_live li b x \<longleftrightarrow> live_at cfg b x"
      using iff [OF that, of x] by (simp add: in_live_def live_in_set_def split: option.splits)
    show "in_live lo b x \<longleftrightarrow> (\<exists>e \<in> set (cfg_successors cfg b). e_to e \<in> set (cfg_reachable cfg) \<and> live_at cfg (e_to e) x)"
      using r(1) [OF that] iff by (auto simp: in_live_def set_live_out_of)
  qed
  have reach: "set rs \<subseteq> set (cfg_reachable cfg)"
    using start ok unfolding rs_def reachable_from_set cfg_valid_def by (auto intro: rtrancl_trans)
  have edge: "cfg_edge cfg (e_id e) = Some e" if mem_e: "e \<in> set (bt_values (cfg_edges cfg))" for e
  proof -
    obtain i where i: "(i, e) \<in> set (cfg_edges cfg)" using mem_e unfolding bt_values_def by fastforce
    then have "i = e_id e" using ok by (auto simp: cfg_valid_def edge_ok_def)
    then show ?thesis using i idx by (simp add: cfg_edge_def bt_get_mem cfg_indexed_def)
  qed
  have dead: "dead_after cfg r l" if "l \<in> set bl \<union> set el" for l
  proof -
    from that consider b where "b \<in> set rs" "block_end_location cfg r lo b = Some l"
      | e where "e \<in> set (bt_values (cfg_edges cfg))" "edge_end_location cfg r rs li lo e = Some l"
      by (auto simp: bl_def el_def set_map_filter)
    then show ?thesis
    proof cases
      case 1
      then show ?thesis using block_end_dead exact(1) reach by blast
    next
      case 2
      show ?thesis by (rule edge_end_dead [OF 2(2) edge [OF 2(1)] exact(2)])
    qed
  qed
  have found: "set found \<subseteq> set bl \<union> set el"
    unfolding found_def using push_location_set [of "foldl push_location ([], []) bl" el]
      push_location_set [of "([], [])" bl] by auto
  show ?thesis
  proof (cases "found = []")
    case False
    then have "liveness_end_locations cfg r start li lo = found"
      by (simp add: liveness_end_locations_def Let_def found_def bl_def el_def rs_def)
    then show ?thesis using mem found dead by auto
  next
    case True
    then have eq: "liveness_end_locations cfg r start li lo =
       (case cfg_block cfg (loc_block start) of
                 None \<Rightarrow> []
               | Some block \<Rightarrow>
                   (case List.find (defs_name r)
                           (dropWhile (\<lambda>p. src_node (pt_source p) \<noteq> loc_point start) (b_points block)) of
                      None \<Rightarrow> []
                    | Some p \<Rightarrow> [\<lparr>loc_block = loc_block start, loc_point = src_node (pt_source p),
                                  loc_edge = None\<rparr>]))"
      by (simp add: liveness_end_locations_def Let_def found_def bl_def el_def rs_def)
    then obtain block p where b: "cfg_block cfg (loc_block start) = Some block"
      and p: "List.find (defs_name r) (dropWhile (\<lambda>p. src_node (pt_source p) \<noteq> loc_point start) (b_points block)) = Some p"
      and l: "l = \<lparr>loc_block = loc_block start, loc_point = src_node (pt_source p), loc_edge = None\<rparr>"
      using mem by (auto split: option.splits)
    have "p \<in> set (b_points block)" "r \<in> set (pt_defs p)"
      using p set_dropWhileD [of p _ "b_points block"]
      by (auto simp: find_Some_iff defs_name_def dest!: nth_mem)
    then show ?thesis using eq b p by (auto simp: l points_of_def)
  qed
qed

text \<open>
  C14: a loan is not ended early. On a validated graph every location at which the analysis ends a
  named loan is one after which no path uses the reference before redefining it, except when no
  such location exists and the single location returned is the binding of the reference.
\<close>

theorem loan_ends_when_dead:
  assumes "cfg_indexed cfg" and "validate_cfg cfg = Ok ()"
    and "compute_liveness cfg = Some (li, lo)" and "loc_block start \<in> set (cfg_reachable cfg)"
    and "l \<in> set (liveness_end_locations cfg r start li lo)"
  shows "dead_after cfg r l \<or>
    liveness_end_locations cfg r start li lo = [l] \<and> loc_block l = loc_block start \<and> loc_edge l = None \<and>
    (\<exists>p \<in> set (points_of cfg (loc_block start)). src_node (pt_source p) = loc_point l \<and> r \<in> set (pt_defs p))"
  by (rule end_locations_dead [OF assms])

end
