(* ===== verification/Mimi_DataflowDemo.thy ===== *)
theory Mimi_DataflowDemo
  imports Mimi_DataflowSound Mimi_LoanEnds
begin

text \<open>
  One callable run through the whole resource analysis: a branch whose arms each drop the
  resource introduced before it, with a shared loan whose reference is used in one arm only. The
  instances of the analysis theorems below are evaluated on it.
\<close>

definition demo_src :: "string \<Rightarrow> CfgSource" where
  "demo_src n = \<lparr>src_node = NodeId n, src_span = Span_UNKNOWN, src_origin = OriginUser Span_UNKNOWN\<rparr>"

definition demo_point :: "string \<Rightarrow> string list \<Rightarrow> string list \<Rightarrow> CfgPoint" where
  "demo_point n uses defs = \<lparr>pt_source = demo_src n, pt_kind = PkStatement, pt_uses = uses, pt_defs = defs,
     pt_reads = [], pt_writes = [], pt_read_places = [], pt_write_places = []\<rparr>"

definition demo_block :: "string \<Rightarrow> CfgPoint list \<Rightarrow> Terminator \<Rightarrow> BasicBlockId \<times> BasicBlock" where
  "demo_block n ps t = (NodeId n, \<lparr>b_id = NodeId n, b_source = demo_src n, b_points = ps, b_terminator = t\<rparr>)"

definition demo_edge :: "string \<Rightarrow> string \<Rightarrow> string \<Rightarrow> EdgeKind \<Rightarrow> EdgeId \<times> CfgEdge" where
  "demo_edge n a b k = (NodeId n, \<lparr>e_id = NodeId n, e_from = NodeId a, e_to = NodeId b, e_kind = k, e_source = demo_src n\<rparr>)"

definition demo_cfg :: CallableCfg where
  "demo_cfg = with_adjacency_indexes
     \<lparr>cfg_owner = NodeId ''m'', cfg_entry = NodeId ''a'',
      cfg_blocks =
        [demo_block ''a'' [demo_point ''p'' [] [''q'']] (TBranch (NodeId ''p'') (NodeId ''1'') (NodeId ''2'')),
         demo_block ''f'' [demo_point ''r'' [] []] (TGoto (NodeId ''4'')),
         demo_block ''j'' [demo_point ''u'' [] []] (TReturn None True),
         demo_block ''t'' [demo_point ''s'' [''q''] []] (TGoto (NodeId ''3''))],
      cfg_edges =
        [demo_edge ''1'' ''a'' ''t'' EThen, demo_edge ''2'' ''a'' ''f'' EElse,
         demo_edge ''3'' ''t'' ''j'' Fallthrough, demo_edge ''4'' ''f'' ''j'' Fallthrough],
      cfg_reachable = [NodeId ''a'', NodeId ''f'', NodeId ''j'', NodeId ''t''],
      cfg_successor_index = [], cfg_predecessor_index = []\<rparr>"

definition demo_place :: Place where
  "demo_place = \<lparr>p_base = NodeId ''x'', p_base_name = ''x'', p_projections = []\<rparr>"

definition demo_at :: "string \<Rightarrow> string \<Rightarrow> CfgLocation" where
  "demo_at b p = \<lparr>loc_block = NodeId b, loc_point = NodeId p, loc_edge = None\<rparr>"

definition demo_action :: "ActionKind \<Rightarrow> LoanId option \<Rightarrow> CfgLocation \<Rightarrow> ResourceAction" where
  "demo_action k l at = \<lparr>a_kind = k, a_resource = NodeId ''x'', a_source = Some demo_place, a_target = None,
     a_loan = l, a_location = at, a_span = Span_UNKNOWN, a_origin = OriginUser Span_UNKNOWN\<rparr>"

definition demo_actions :: "ResourceAction list" where
  "demo_actions =
     [demo_action Introduce None (demo_at ''a'' ''p''),
      demo_action BorrowShared (Some (NodeId ''l'')) (demo_at ''a'' ''p''),
      demo_action Drop None (demo_at ''t'' ''s''),
      demo_action Drop None (demo_at ''f'' ''r'')]"

definition demo_loans :: "Loan list" where
  "demo_loans =
     [\<lparr>l_id = NodeId ''l'', l_parent = None, l_kind = LoanShared, l_place = demo_place,
       l_reference = None, l_reference_name = Some ''q'', l_start = demo_at ''a'' ''p'',
       l_end_edges = [], l_span = Span_UNKNOWN\<rparr>]"

definition demo_order :: "BasicBlockId list" where
  "demo_order = [NodeId ''a'', NodeId ''f'', NodeId ''t'', NodeId ''j'']"

definition demo_result :: "ResourceAnalysis" where
  "demo_result = (case analyze_canonical demo_cfg demo_actions demo_loans [] [] of Some (Ok an) \<Rightarrow> an
     | _ \<Rightarrow> \<lparr>ra_owner = NodeId [], ra_actions = [], ra_loans = [], ra_in_states = [], ra_out_states = []\<rparr>)"

definition demo_path :: "CfgEdge list" where
  "demo_path = [snd (demo_edge ''2'' ''a'' ''f'' EElse), snd (demo_edge ''4'' ''f'' ''j'' Fallthrough)]"

lemma demo_analyzable: "analyzable demo_cfg demo_order"
  by code_simp

lemma demo_path_ok: "is_path demo_cfg (cfg_entry demo_cfg) demo_path"
  by code_simp

lemma demo_accepted: "case analyze_canonical demo_cfg demo_actions demo_loans [] [] of Some (Ok an) \<Rightarrow> True | _ \<Rightarrow> False"
  by code_simp


lemma demo_ok: "analyze_canonical demo_cfg demo_actions demo_loans [] [] = Some (Ok demo_result)"
  using demo_accepted unfolding demo_result_def by (auto split: option.splits sum.splits)

lemma demo_indexed: "cfg_indexed demo_cfg" and demo_valid: "validate_cfg demo_cfg = Ok ()"
  using demo_analyzable by (simp_all add: analyzable_def)

theorem analysis_paths_safe_witness:
  "exec_path demo_cfg (loan_catalog_of (ra_loans demo_result)) (ra_actions demo_result)
     (cfg_entry demo_cfg) demo_path cs_start \<noteq> None"
  by (rule analysis_paths_safe [OF demo_analyzable demo_ok demo_path_ok])

lemma demo_block: "cfg_block demo_cfg (path_end (cfg_entry demo_cfg) demo_path) =
    Some (snd (demo_block ''j'' [demo_point ''u'' [] []] (TReturn None True)))"
  by code_simp

lemma demo_run: "\<exists>c. exec_path demo_cfg (loan_catalog_of (ra_loans demo_result)) (ra_actions demo_result)
     (cfg_entry demo_cfg) demo_path cs_start = Some c"
proof -
  obtain s :: DfState and c and st :: FlowState
    where "exec_path demo_cfg (loan_catalog_of (ra_loans demo_result)) (ra_actions demo_result)
     (cfg_entry demo_cfg) demo_path cs_start = Some c"
    by (rule accepted_path [OF demo_analyzable demo_ok demo_path_ok])
  then show ?thesis by blast
qed

theorem analysis_obligations_met_witness:
  "\<exists>c. exec_path demo_cfg (loan_catalog_of (ra_loans demo_result)) (ra_actions demo_result)
     (cfg_entry demo_cfg) demo_path cs_start = Some c \<and>
     (cs_res c (NodeId ''x'') = None \<or> cs_res c (NodeId ''x'') = Some Dead)"
proof -
  obtain c where c: "exec_path demo_cfg (loan_catalog_of (ra_loans demo_result)) (ra_actions demo_result)
     (cfg_entry demo_cfg) demo_path cs_start = Some c"
    using demo_run by blast
  show ?thesis
    using analysis_obligations_met [OF demo_analyzable demo_ok demo_path_ok demo_block _ c, of "NodeId ''x''"] c
    by (simp add: demo_block_def)
qed

theorem analysis_terminates_witness: "analyze_canonical demo_cfg demo_actions demo_loans [] [] \<noteq> None"
  by (rule analysis_terminates [OF demo_indexed]) code_simp

theorem compute_liveness_exact_witness:
  "\<exists>li lo. compute_liveness demo_cfg = Some (li, lo) \<and>
     (\<exists>l. bt_get li (NodeId ''t'') = Some l \<and> (''q'' \<in> set l \<longleftrightarrow> live_at demo_cfg (NodeId ''t'') ''q''))"
proof -
  have "NodeId ''t'' \<in> set (cfg_reachable demo_cfg)" by code_simp
  then show ?thesis using compute_liveness_exact [OF demo_indexed] by blast
qed

theorem validate_cfg_decides_witness: "cfg_valid demo_cfg"
proof -
  have "bs_wf (cfg_reachable demo_cfg)" by code_simp
  then show ?thesis using validate_cfg_decides [of demo_cfg] demo_valid by simp
qed

definition demo_liveness ::
    "(BasicBlockId, string btree_set) btree_map \<times> (BasicBlockId, string btree_set) btree_map" where
  "demo_liveness = (case compute_liveness demo_cfg of Some m \<Rightarrow> m | None \<Rightarrow> ([], []))"

lemma demo_liveness_eq: "compute_liveness demo_cfg = Some (fst demo_liveness, snd demo_liveness)"
proof -
  have "compute_liveness demo_cfg \<noteq> None"
    by (rule compute_liveness_fixpoint [OF demo_indexed]) simp
  then show ?thesis by (auto simp: demo_liveness_def)
qed

text \<open>The loan of the demo ends after the use in one arm, and on the edge into the other.\<close>

lemma demo_ends:
  "liveness_end_locations demo_cfg ''q'' (demo_at ''a'' ''p'') (fst demo_liveness) (snd demo_liveness) =
     [demo_at ''t'' ''s'', \<lparr>loc_block = NodeId ''a'', loc_point = NodeId ''p'', loc_edge = Some (NodeId ''2'')\<rparr>]"
  by code_simp

theorem loan_ends_when_dead_witness: "dead_after demo_cfg ''q'' (demo_at ''t'' ''s'')"
proof -
  have "loc_block (demo_at ''a'' ''p'') \<in> set (cfg_reachable demo_cfg)" by code_simp
  then show ?thesis
    using loan_ends_when_dead [OF demo_indexed demo_valid demo_liveness_eq, of "demo_at ''a'' ''p''" "demo_at ''t'' ''s''" "''q''"]
      demo_ends by simp
qed

theorem adjacency_indexes_correct_witness:
  "bt_wf (cfg_edges demo_cfg) \<and>
   cfg_successors (with_adjacency_indexes demo_cfg) (NodeId ''a'') =
     filter (\<lambda>e. e_from e = NodeId ''a'') (bt_values (cfg_edges demo_cfg))"
proof -
  have "bt_wf (cfg_edges demo_cfg)" using demo_indexed by (simp add: cfg_indexed_def)
  then show ?thesis using adjacency_indexes_correct by blast
qed

section \<open>A loan whose reference stays live forever\<close>

text \<open>
  A mutable loan of \<open>x\<close> through \<open>q\<close>, then an infinite loop that writes \<open>x\<close> and uses \<open>q\<close>.
\<close>

definition spin_point :: "string \<Rightarrow> string list \<Rightarrow> string list \<Rightarrow> Place list \<Rightarrow> CfgPoint" where
  "spin_point n uses defs writes = (demo_point n uses defs)\<lparr>pt_write_places := writes\<rparr>"

definition spin_cfg :: CallableCfg where
  "spin_cfg = with_adjacency_indexes
     \<lparr>cfg_owner = NodeId ''m'', cfg_entry = NodeId ''a'',
      cfg_blocks =
        [demo_block ''a'' [spin_point ''e'' [] [] [], spin_point ''p'' [] [''q''] []] (TGoto (NodeId ''1'')),
         demo_block ''b'' [spin_point ''s'' [] [''x''] [demo_place], spin_point ''w'' [''q''] [] []] (TGoto (NodeId ''2''))],
      cfg_edges = [demo_edge ''1'' ''a'' ''b'' LoopBody, demo_edge ''2'' ''b'' ''b'' Backedge],
      cfg_reachable = [NodeId ''a'', NodeId ''b''],
      cfg_successor_index = [], cfg_predecessor_index = []\<rparr>"

definition spin_actions :: "ResourceAction list" where
  "spin_actions = [demo_action BorrowMut (Some (NodeId ''l'')) (demo_at ''a'' ''e'')]"

definition spin_loans :: "Loan list" where
  "spin_loans = [(hd demo_loans)\<lparr>l_kind := LoanMutable, l_start := demo_at ''a'' ''e''\<rparr>]"

definition spin_accepted :: bool where
  "spin_accepted = (case analyze_canonical spin_cfg spin_actions spin_loans [] [] of
     Some (Ok an) \<Rightarrow> list_ex (\<lambda>a. a_kind a = Write \<and> a_location a = demo_at ''b'' ''s'') (ra_actions an) \<and>
       list_ex (\<lambda>a. a_kind a = BorrowEnd \<and> a_location a = demo_at ''a'' ''p'') (ra_actions an)
   | _ \<Rightarrow> False)"

text \<open>
  the exception of the previous property is reachable. When the reference is live on every
  path forever, the loan ends at the binding of the reference; the analysis then accepts a write
  of the mutably borrowed place in a loop that goes on using the reference.
\<close>

theorem live_forever_loan_ends_at_binding:
  "spin_accepted \<and> live_at spin_cfg (NodeId ''b'') ''q''"
proof
  show spin_accepted by code_simp
  have "used_first ''q'' (points_of spin_cfg (NodeId ''b''))" by code_simp
  then show "live_at spin_cfg (NodeId ''b'') ''q''" by (rule live_at.here)
qed

section \<open>A back edge into the entry\<close>

text \<open>
  The state at the entry is always the empty one, so what a back edge into the entry carries is lost:
  a resource introduced in the loop is live at the return, and the analysis accepts.
\<close>

definition back_cfg :: CallableCfg where
  "back_cfg = with_adjacency_indexes
     \<lparr>cfg_owner = NodeId ''m'', cfg_entry = NodeId ''a'',
      cfg_blocks =
        [demo_block ''a'' [demo_point ''p'' [] []] (TBranch (NodeId ''p'') (NodeId ''1'') (NodeId ''2'')),
         demo_block ''b'' [demo_point ''r'' [] []] (TBranch (NodeId ''r'') (NodeId ''3'') (NodeId ''4'')),
         demo_block ''c'' [demo_point ''u'' [] []] (TReturn None True),
         demo_block ''d'' [demo_point ''w'' [] []] (TReturn None True)],
      cfg_edges = [demo_edge ''1'' ''a'' ''b'' EThen, demo_edge ''2'' ''a'' ''c'' EElse,
         demo_edge ''3'' ''b'' ''a'' Backedge, demo_edge ''4'' ''b'' ''d'' EElse],
      cfg_reachable = [NodeId ''a'', NodeId ''b'', NodeId ''c'', NodeId ''d''],
      cfg_successor_index = [], cfg_predecessor_index = []\<rparr>"

definition back_actions :: "ResourceAction list" where
  "back_actions = [demo_action Introduce None (demo_at ''b'' ''r''), demo_action Drop None (demo_at ''d'' ''w'')]"

definition back_path :: "CfgEdge list" where
  "back_path = [snd (demo_edge ''1'' ''a'' ''b'' EThen), snd (demo_edge ''3'' ''b'' ''a'' Backedge),
     snd (demo_edge ''2'' ''a'' ''c'' EElse)]"

definition back_result :: "ResourceAnalysis" where
  "back_result = (case analyze_canonical back_cfg back_actions [] [] [] of Some (Ok an) \<Rightarrow> an
     | _ \<Rightarrow> \<lparr>ra_owner = NodeId [], ra_actions = [], ra_loans = [], ra_in_states = [], ra_out_states = []\<rparr>)"

lemma entry_back_edge:
  "cfg_indexed back_cfg" "validate_cfg back_cfg = Ok ()"
  "scheduled_from back_cfg [] [NodeId ''a'', NodeId ''b'', NodeId ''c'', NodeId ''d'']"
  "is_path back_cfg (cfg_entry back_cfg) back_path"
  "case analyze_canonical back_cfg back_actions [] [] [] of Some (Ok an) \<Rightarrow> True | _ \<Rightarrow> False"
  "ra_actions back_result = back_actions"
  "map_option (\<lambda>c. cs_res c (NodeId ''x''))
     (exec_path back_cfg [] back_actions (cfg_entry back_cfg) back_path cs_start)
   = Some (Some (Live (Some demo_place)))"
  subgoal by code_simp
  subgoal by code_simp
  subgoal by code_simp
  subgoal by code_simp
  subgoal by code_simp
  subgoal by code_simp
  subgoal
    by (simp add: back_path_def demo_edge_def back_actions_def block_actions_def back_cfg_def cs_start_def
        exec_action_def cross_edge_def demo_action_def demo_at_def with_adjacency_indexes_def)
  done

section \<open>A read through the old name\<close>

text \<open>Only consuming actions check the name: reading \<open>x\<close> after it was moved to \<open>y\<close> is accepted.\<close>

definition stale_cfg :: CallableCfg where
  "stale_cfg = with_adjacency_indexes
     \<lparr>cfg_owner = NodeId ''m'', cfg_entry = NodeId ''a'',
      cfg_blocks = [demo_block ''a'' (map (\<lambda>n. demo_point n [] []) [''p'', ''r'', ''s'', ''u'']) (TReturn None True)],
      cfg_edges = [], cfg_reachable = [NodeId ''a''], cfg_successor_index = [], cfg_predecessor_index = []\<rparr>"

definition new_place :: Place where
  "new_place = \<lparr>p_base = NodeId ''y'', p_base_name = ''y'', p_projections = []\<rparr>"

definition stale_actions :: "ActionKind \<Rightarrow> ResourceAction list" where
  "stale_actions k =
     [demo_action Introduce None (demo_at ''a'' ''p''),
      (demo_action Move None (demo_at ''a'' ''r''))\<lparr>a_target := Some new_place\<rparr>,
      demo_action k None (demo_at ''a'' ''s''),
      (demo_action Drop None (demo_at ''a'' ''u''))\<lparr>a_source := Some new_place\<rparr>]"

lemma stale_read_accepted:
  "case analyze_canonical stale_cfg (stale_actions Read) [] [] [] of Some (Ok an) \<Rightarrow> True | _ \<Rightarrow> False"
  "case analyze_canonical stale_cfg (stale_actions Drop) [] [] [] of Some (Ok an) \<Rightarrow> False | _ \<Rightarrow> True"
  by code_simp+

end
