(* ===== verification/Mimi_Ast.thy ===== *)
theory Mimi_Ast
  imports Mimi_Cfg
begin

text \<open>
  Surface types and session types (\<open>src/ast.rs\<close>): node metadata, the type tree with its
  \<open>Located\<close> annotations, and equality up to annotations.
\<close>

section \<open>Node metadata\<close>

datatype AstOrigin = AoUser | AoDesugared string | AoPrototypeFallback string | AoRuntimeSystem string

datatype AstParentHint = AphNone | AphEnclosing | AphNamedFunction string | AphCompilationRoot

record AstNodeMeta =
  nm_span :: Span
  nm_origin :: AstOrigin
  nm_parent :: AstParentHint

definition meta_new :: "Span \<Rightarrow> AstOrigin \<Rightarrow> AstNodeMeta" where
  "meta_new sp ao = \<lparr>nm_span = sp, nm_origin = ao,
     nm_parent = (case ao of AoUser \<Rightarrow> AphNone | _ \<Rightarrow> AphEnclosing)\<rparr>"

definition meta_synthetic :: "AstOrigin \<Rightarrow> AstNodeMeta" where
  "meta_synthetic ao = meta_new Span_UNKNOWN ao"

section \<open>Types\<close>

datatype Type =
    TyLocated AstNodeMeta Type
  | TyName string "Type list"
  | TyRef "string option" Type
  | TyRefMut "string option" Type
  | TyOption Type
  | TyResult Type Type
  | TyTuple "Type list"
  | TyFunc "Type list" Type
  | TyExternFunc "Type list" Type
  | TyCBuffer Type
  | TyCap string
  | TyCapAtom string
  | TyShared Type
  | TyWeak Type
  | TyNewtype string Type
  | TyArray Type nat
  | TySlice Type
  | TyImplTrait "string list"
  | TyDynTrait "string list"
  | TyRawPtr Type
  | TyRawPtrMut Type
  | TyNothing
  | TyInfer
  | TyTypeVar u32
  | TyForAll "string list" Type
  | TyTyErr

fun ty_unlocated :: "Type \<Rightarrow> Type" where
  "ty_unlocated (TyLocated _ t) = ty_unlocated t"
| "ty_unlocated t = t"

fun ty_with_meta :: "AstNodeMeta \<Rightarrow> Type \<Rightarrow> Type" where
  "ty_with_meta m (TyLocated _ t) = TyLocated m t"
| "ty_with_meta m t = TyLocated m t"

fun ty_meta :: "Type \<Rightarrow> AstNodeMeta option" where
  "ty_meta (TyLocated m _) = Some m"
| "ty_meta _ = None"

lemma size_unlocated: "size (ty_unlocated t) \<le> size t"
  by (induction t rule: ty_unlocated.induct) auto

lemma unlocated_not_located: "ty_unlocated t \<noteq> TyLocated m t'"
  by (induction t rule: ty_unlocated.induct) auto

section \<open>One traversal for every type node\<close>

text \<open>
  A node is its own part (the constructor with its names, lifetimes, size or identifier) and its
  children from left to right. The functions below that treat all constructors alike are
  written over these two views instead of one equation per constructor.
\<close>

datatype TyShape =
    ShLocated | ShName string | ShRef "string option" | ShRefMut "string option" | ShOption | ShResult
  | ShTuple | ShFunc | ShExternFunc | ShCBuffer | ShCap string | ShCapAtom string | ShShared | ShWeak
  | ShNewtype string | ShArray nat | ShSlice | ShImplTrait "string list" | ShDynTrait "string list"
  | ShRawPtr | ShRawPtrMut | ShNothing | ShInfer | ShTypeVar u32 | ShForAll "string list" | ShTyErr

primrec ty_shape :: "Type \<Rightarrow> TyShape" where
  "ty_shape (TyLocated _ _) = ShLocated"
| "ty_shape (TyName n _) = ShName n"
| "ty_shape (TyRef l _) = ShRef l"
| "ty_shape (TyRefMut l _) = ShRefMut l"
| "ty_shape (TyOption _) = ShOption"
| "ty_shape (TyResult _ _) = ShResult"
| "ty_shape (TyTuple _) = ShTuple"
| "ty_shape (TyFunc _ _) = ShFunc"
| "ty_shape (TyExternFunc _ _) = ShExternFunc"
| "ty_shape (TyCBuffer _) = ShCBuffer"
| "ty_shape (TyCap n) = ShCap n"
| "ty_shape (TyCapAtom n) = ShCapAtom n"
| "ty_shape (TyShared _) = ShShared"
| "ty_shape (TyWeak _) = ShWeak"
| "ty_shape (TyNewtype n _) = ShNewtype n"
| "ty_shape (TyArray _ n) = ShArray n"
| "ty_shape (TySlice _) = ShSlice"
| "ty_shape (TyImplTrait ts) = ShImplTrait ts"
| "ty_shape (TyDynTrait ts) = ShDynTrait ts"
| "ty_shape (TyRawPtr _) = ShRawPtr"
| "ty_shape (TyRawPtrMut _) = ShRawPtrMut"
| "ty_shape TyNothing = ShNothing"
| "ty_shape TyInfer = ShInfer"
| "ty_shape (TyTypeVar i) = ShTypeVar i"
| "ty_shape (TyForAll ps _) = ShForAll ps"
| "ty_shape TyTyErr = ShTyErr"

primrec ty_kids :: "Type \<Rightarrow> Type list" where
  "ty_kids (TyLocated _ t) = [t]"
| "ty_kids (TyName _ as) = as"
| "ty_kids (TyRef _ t) = [t]"
| "ty_kids (TyRefMut _ t) = [t]"
| "ty_kids (TyOption t) = [t]"
| "ty_kids (TyResult t e) = [t, e]"
| "ty_kids (TyTuple ts) = ts"
| "ty_kids (TyFunc as r) = as @ [r]"
| "ty_kids (TyExternFunc as r) = as @ [r]"
| "ty_kids (TyCBuffer t) = [t]"
| "ty_kids (TyCap _) = []"
| "ty_kids (TyCapAtom _) = []"
| "ty_kids (TyShared t) = [t]"
| "ty_kids (TyWeak t) = [t]"
| "ty_kids (TyNewtype _ t) = [t]"
| "ty_kids (TyArray t _) = [t]"
| "ty_kids (TySlice t) = [t]"
| "ty_kids (TyImplTrait _) = []"
| "ty_kids (TyDynTrait _) = []"
| "ty_kids (TyRawPtr t) = [t]"
| "ty_kids (TyRawPtrMut t) = [t]"
| "ty_kids TyNothing = []"
| "ty_kids TyInfer = []"
| "ty_kids (TyTypeVar _) = []"
| "ty_kids (TyForAll _ t) = [t]"
| "ty_kids TyTyErr = []"

text \<open>The node with its children replaced; the list has the length of the node's children.\<close>

primrec ty_with_kids :: "Type \<Rightarrow> Type list \<Rightarrow> Type" where
  "ty_with_kids (TyLocated m _) ks = TyLocated m (hd ks)"
| "ty_with_kids (TyName n _) ks = TyName n ks"
| "ty_with_kids (TyRef l _) ks = TyRef l (hd ks)"
| "ty_with_kids (TyRefMut l _) ks = TyRefMut l (hd ks)"
| "ty_with_kids (TyOption _) ks = TyOption (hd ks)"
| "ty_with_kids (TyResult _ _) ks = TyResult (hd ks) (hd (tl ks))"
| "ty_with_kids (TyTuple _) ks = TyTuple ks"
| "ty_with_kids (TyFunc _ _) ks = TyFunc (butlast ks) (last ks)"
| "ty_with_kids (TyExternFunc _ _) ks = TyExternFunc (butlast ks) (last ks)"
| "ty_with_kids (TyCBuffer _) ks = TyCBuffer (hd ks)"
| "ty_with_kids (TyCap n) ks = TyCap n"
| "ty_with_kids (TyCapAtom n) ks = TyCapAtom n"
| "ty_with_kids (TyShared _) ks = TyShared (hd ks)"
| "ty_with_kids (TyWeak _) ks = TyWeak (hd ks)"
| "ty_with_kids (TyNewtype n _) ks = TyNewtype n (hd ks)"
| "ty_with_kids (TyArray _ n) ks = TyArray (hd ks) n"
| "ty_with_kids (TySlice _) ks = TySlice (hd ks)"
| "ty_with_kids (TyImplTrait ts) ks = TyImplTrait ts"
| "ty_with_kids (TyDynTrait ts) ks = TyDynTrait ts"
| "ty_with_kids (TyRawPtr _) ks = TyRawPtr (hd ks)"
| "ty_with_kids (TyRawPtrMut _) ks = TyRawPtrMut (hd ks)"
| "ty_with_kids TyNothing ks = TyNothing"
| "ty_with_kids TyInfer ks = TyInfer"
| "ty_with_kids (TyTypeVar i) ks = TyTypeVar i"
| "ty_with_kids (TyForAll ps _) ks = TyForAll ps (hd ks)"
| "ty_with_kids TyTyErr ks = TyTyErr"

lemma size_kids: "k \<in> set (ty_kids t) \<Longrightarrow> size k < size t"
  by (induction t) (auto dest: size_list_estimation' [of _ _ _ size, OF _ order_refl])

lemma ty_with_kids_self [simp]: "ty_with_kids t (ty_kids t) = t"
  by (cases t) simp_all

lemma ty_eqI: "ty_shape a = ty_shape b \<Longrightarrow> ty_kids a = ty_kids b \<Longrightarrow> ty_shape a \<noteq> ShLocated \<Longrightarrow> a = b"
  by (cases a; cases b) simp_all

lemma ty_with_kids_views:
  assumes "length ks = length (ty_kids t)"
  shows "ty_shape (ty_with_kids t ks) = ty_shape t" and "ty_kids (ty_with_kids t ks) = ks"
proof -
  have two: "length xs = 2 \<Longrightarrow> [hd xs, hd (tl xs)] = xs" for xs :: "Type list"
    by (cases xs; cases "tl xs") auto
  have one: "length xs = 1 \<Longrightarrow> [hd xs] = xs" for xs :: "Type list"
    by (cases xs) auto
  show "ty_shape (ty_with_kids t ks) = ty_shape t" by (cases t) simp_all
  show "ty_kids (ty_with_kids t ks) = ks"
    using assms one [of ks] two [of ks] by (cases t) (auto simp del: append_butlast_last_id intro: append_butlast_last_id)
qed

text \<open>\<open>PartialEq for Type\<close>: annotations do not count.\<close>

function type_eq :: "Type \<Rightarrow> Type \<Rightarrow> bool" where
  "type_eq a b =
     (ty_shape (ty_unlocated a) = ty_shape (ty_unlocated b) \<and>
      list_all2 type_eq (ty_kids (ty_unlocated a)) (ty_kids (ty_unlocated b)))"
  by pat_completeness auto
termination
  by (relation "measure (\<lambda>(a, b). size a)") (use size_kids size_unlocated in \<open>force intro: less_le_trans\<close>)+

declare type_eq.simps [simp del]

end
