(* ===== verification/Mimi_AstTypes.thy ===== *)
theory Mimi_AstTypes
  imports Mimi_Ast
begin

text \<open>
  Operations on type trees: equality is equality of the trees without annotations, so it is an
  equivalence that re-anchoring respects (\<open>src/ast.rs\<close>); the predicate traversals
  (\<open>src/core/type_folder.rs\<close>).
\<close>

section \<open>Equality up to annotations\<close>

function ty_strip :: "Type \<Rightarrow> Type" where
  "ty_strip t = ty_with_kids (ty_unlocated t) (map ty_strip (ty_kids (ty_unlocated t)))"
  by pat_completeness auto
termination
  by (relation "measure size") (use size_kids size_unlocated in \<open>force intro: less_le_trans\<close>)+

declare ty_strip.simps [simp del]

lemma strip_views:
  "ty_shape (ty_strip t) = ty_shape (ty_unlocated t)"
  "ty_kids (ty_strip t) = map ty_strip (ty_kids (ty_unlocated t))"
  by (subst ty_strip.simps, simp add: ty_with_kids_views)+

lemma shape_unlocated: "ty_shape (ty_unlocated t) \<noteq> ShLocated"
  by (induction t rule: ty_unlocated.induct) auto

lemma ty_view_eq:
  "ty_shape a \<noteq> ShLocated \<Longrightarrow> a = b \<longleftrightarrow> ty_shape a = ty_shape b \<and> ty_kids a = ty_kids b"
  using ty_eqI by blast

lemma type_eq_strip: "type_eq a b \<longleftrightarrow> ty_strip a = ty_strip b"
proof (induction a b rule: type_eq.induct)
  case (1 a b)
  let ?ka = "ty_kids (ty_unlocated a)" and ?kb = "ty_kids (ty_unlocated b)"
  have "list_all2 type_eq ?ka ?kb \<longleftrightarrow> list_all2 (\<lambda>x y. ty_strip x = ty_strip y) ?ka ?kb"
    using 1 by (intro list.rel_cong_simp) (auto simp: simp_implies_def)
  also have "\<dots> \<longleftrightarrow> map ty_strip ?ka = map ty_strip ?kb"
    by (simp add: list.rel_map list_all2_eq [symmetric] flip: list.rel_eq)
  finally show ?case
    by (subst type_eq.simps) (simp add: ty_view_eq [of "ty_strip a"] strip_views shape_unlocated)
qed

text \<open>type equality ignores every annotation and is an equivalence relation.\<close>

theorem type_eq_ignores_annotations:
  "(type_eq a b \<longleftrightarrow> ty_strip a = ty_strip b) \<and> equivp type_eq"
proof -
  have "type_eq = (\<lambda>x y. ty_strip x = ty_strip y)" by (intro ext) (rule type_eq_strip)
  moreover have "equivp (\<lambda>x y. ty_strip x = ty_strip y)" by (auto intro!: equivpI reflpI sympI transpI)
  ultimately have "equivp type_eq" by simp
  then show ?thesis using type_eq_strip by blast
qed

function deep_reorigin :: "AstNodeMeta \<Rightarrow> Type \<Rightarrow> Type" where
  "deep_reorigin m t =
     ty_with_meta m (ty_with_kids (ty_unlocated t) (map (deep_reorigin m) (ty_kids (ty_unlocated t))))"
  by pat_completeness auto
termination
  by (relation "measure (\<lambda>(m, t). size t)") (use size_kids size_unlocated in \<open>force intro: less_le_trans\<close>)+

declare deep_reorigin.simps [simp del]

text \<open>Every annotation of a tree.\<close>

fun ty_metas :: "Type \<Rightarrow> AstNodeMeta list" where
  "ty_metas (TyLocated m t) = m # ty_metas t"
| "ty_metas t = concat (map ty_metas (ty_kids t))"

lemma unlocated_with_meta: "ty_unlocated (ty_with_meta m t) = ty_unlocated t"
  by (cases t) auto

lemma unlocated_id: "ty_shape t \<noteq> ShLocated \<Longrightarrow> ty_unlocated t = t"
  by (cases t) auto

lemma unlocated_rebuild:
  "length ks = length (ty_kids (ty_unlocated t)) \<Longrightarrow>
     ty_unlocated (ty_with_kids (ty_unlocated t) ks) = ty_with_kids (ty_unlocated t) ks"
  using ty_with_kids_views(1) shape_unlocated by (simp add: unlocated_id)

lemma reorigin_strip: "ty_strip (deep_reorigin m t) = ty_strip t"
proof (induction m t rule: deep_reorigin.induct)
  case (1 m t)
  let ?u = "ty_unlocated t"
  have u: "ty_unlocated (deep_reorigin m t) = ty_with_kids ?u (map (deep_reorigin m) (ty_kids ?u))"
    by (subst deep_reorigin.simps) (simp add: unlocated_with_meta unlocated_rebuild)
  have "map (ty_strip \<circ> deep_reorigin m) (ty_kids ?u) = map ty_strip (ty_kids ?u)"
    using 1 by (intro map_cong) auto
  then show ?case
    by (simp add: ty_view_eq [of "ty_strip (deep_reorigin m t)"] strip_views shape_unlocated u ty_with_kids_views)
qed

lemma metas_kids: "ty_shape t \<noteq> ShLocated \<Longrightarrow> ty_metas t = concat (map ty_metas (ty_kids t))"
  by (cases t) auto

lemma with_meta_located: "ty_shape t \<noteq> ShLocated \<Longrightarrow> ty_with_meta m t = TyLocated m t"
  by (cases t) auto

lemma reorigin_metas: "set (ty_metas (deep_reorigin m t)) = {m}"
proof (induction m t rule: deep_reorigin.induct)
  case (1 m t)
  let ?u = "ty_unlocated t"
  let ?v = "ty_with_kids ?u (map (deep_reorigin m) (ty_kids ?u))"
  have v: "ty_shape ?v \<noteq> ShLocated" "ty_kids ?v = map (deep_reorigin m) (ty_kids ?u)"
    by (simp_all add: ty_with_kids_views shape_unlocated)
  have "ty_metas (deep_reorigin m t) = m # ty_metas ?v"
    by (subst deep_reorigin.simps) (simp add: with_meta_located [OF v(1)])
  then show ?case using 1 by (auto simp: metas_kids [OF v(1)] v(2))
qed

text \<open>
  re-anchoring a type replaces every annotation by the given one, on every node, and leaves
  the type equal to the original.
\<close>

theorem deep_reorigin_correct:
  "type_eq (deep_reorigin m t) t \<and> set (ty_metas (deep_reorigin m t)) = {m}"
  by (simp add: type_eq_strip reorigin_strip reorigin_metas)

section \<open>Predicate traversals\<close>

function type_any :: "(Type \<Rightarrow> bool) \<Rightarrow> Type \<Rightarrow> bool" where
  "type_any P t = (if P t then True else list_ex (type_any P) (ty_kids t))"
  by pat_completeness auto
termination
  by (relation "measure (\<lambda>(P, t). size t)") (use size_kids in auto)

declare type_any.simps [simp del]

text \<open>The first error of a list of visits, as \<open>?\<close> in a loop returns it.\<close>

fun try_all :: "('a \<Rightarrow> 'e + unit) \<Rightarrow> 'a list \<Rightarrow> 'e + unit" where
  "try_all f [] = Ok ()"
| "try_all f (x # xs) = (case f x of Err e \<Rightarrow> Err e | Ok _ \<Rightarrow> try_all f xs)"

lemma try_all_cong [fundef_cong]:
  "xs = ys \<Longrightarrow> (\<And>x. x \<in> set ys \<Longrightarrow> f x = g x) \<Longrightarrow> try_all f xs = try_all g ys"
  by (induction ys arbitrary: xs) (auto split: sum.split)

lemma try_all_ok: "is_ok (try_all f xs) \<longleftrightarrow> (\<forall>x \<in> set xs. is_ok (f x))"
  by (induction xs) (auto split: sum.split)

function type_try_visit :: "(Type \<Rightarrow> 'e + unit) \<Rightarrow> Type \<Rightarrow> 'e + unit" where
  "type_try_visit P t = (case P t of Err e \<Rightarrow> Err e | Ok _ \<Rightarrow> try_all (type_try_visit P) (ty_kids t))"
  by pat_completeness auto
termination
  by (relation "measure (\<lambda>(P, t). size t)") (use size_kids in auto)

declare type_try_visit.simps [simp del]

text \<open>The nodes of a type, the type itself included.\<close>

inductive subtype_of :: "Type \<Rightarrow> Type \<Rightarrow> bool" where
  subtype_self: "subtype_of t t"
| subtype_kid: "k \<in> set (ty_kids t) \<Longrightarrow> subtype_of s k \<Longrightarrow> subtype_of s t"

lemma subtype_of_split:
  "(\<exists>s. subtype_of s t \<and> P s) \<longleftrightarrow> P t \<or> (\<exists>k \<in> set (ty_kids t). \<exists>s. subtype_of s k \<and> P s)"
proof
  assume "\<exists>s. subtype_of s t \<and> P s"
  then obtain s where "subtype_of s t" "P s" by blast
  then show "P t \<or> (\<exists>k \<in> set (ty_kids t). \<exists>s. subtype_of s k \<and> P s)"
    by (cases rule: subtype_of.cases) auto
qed (auto intro: subtype_of.intros)

lemma type_any_iff: "type_any P t \<longleftrightarrow> (\<exists>s. subtype_of s t \<and> P s)"
proof (induction P t rule: type_any.induct)
  case (1 P t)
  have "type_any P t \<longleftrightarrow> P t \<or> (\<exists>k \<in> set (ty_kids t). type_any P k)"
    by (subst type_any.simps) (simp add: list_ex_iff)
  then show ?case using 1 unfolding subtype_of_split [of t P] by (cases "P t") simp_all
qed

lemma type_try_visit_iff: "is_ok (type_try_visit P t) \<longleftrightarrow> (\<forall>s. subtype_of s t \<longrightarrow> is_ok (P s))"
proof (induction P t rule: type_try_visit.induct)
  case (1 P t)
  have split: "(\<forall>s. subtype_of s t \<longrightarrow> is_ok (P s)) \<longleftrightarrow>
      is_ok (P t) \<and> (\<forall>k \<in> set (ty_kids t). \<forall>s. subtype_of s k \<longrightarrow> is_ok (P s))"
    using subtype_of_split [of t "\<lambda>s. \<not> is_ok (P s)"] by blast
  show ?case
    using 1 unfolding split by (subst type_try_visit.simps) (cases "P t"; simp add: try_all_ok)
qed

text \<open>
  the two shared traversals visit exactly the nodes of the tree: one finds a node that
  satisfies the predicate, the other succeeds when every node does.
\<close>

theorem traversals_visit_every_node:
  "(type_any P t \<longleftrightarrow> (\<exists>s. subtype_of s t \<and> P s)) \<and>
   (is_ok (type_try_visit Q t) \<longleftrightarrow> (\<nexists>s. subtype_of s t \<and> \<not> is_ok (Q s)))"
  by (auto simp: type_any_iff type_try_visit_iff)

end
