(* ===== verification/Mimi_Session.thy ===== *)
theory Mimi_Session
  imports Mimi_AstTypes
begin

text \<open>
  Session types (\<open>src/session.rs\<close>, the tree in \<open>src/ast.rs\<close>): duals, resolution of named
  sessions, and the order checker that advances an endpoint's residual protocol. The
  specification reads a session as its protocol, the list of its actions with what it ends in.
\<close>

section \<open>The tree\<close>

datatype SessionType =
    SLocated AstNodeMeta SessionType
  | SSend Type SessionType
  | SRecv Type SessionType
  | SDual SessionType
  | SName string
  | SEnd

fun s_unlocated :: "SessionType \<Rightarrow> SessionType" where
  "s_unlocated (SLocated _ s) = s_unlocated s"
| "s_unlocated s = s"

lemma size_s_unlocated: "size (s_unlocated s) \<le> size s"
  by (induction s rule: s_unlocated.induct) auto

lemma s_unlocated_size [termination_simp]: "s_unlocated s = t \<Longrightarrow> size t \<le> size s"
  using size_s_unlocated by blast

lemma s_unlocated_not: "s_unlocated s \<noteq> SLocated m t"
  by (induction s rule: s_unlocated.induct) auto

lemma s_unlocated_cases:
  obtains t c where "s_unlocated s = SSend t c" | t c where "s_unlocated s = SRecv t c"
    | i where "s_unlocated s = SDual i" | n where "s_unlocated s = SName n" | "s_unlocated s = SEnd"
  using s_unlocated_not by (cases "s_unlocated s") auto

lemma s_unlocated_idem [simp]: "s_unlocated (s_unlocated s) = s_unlocated s"
  by (induction s rule: s_unlocated.induct) auto

section \<open>Dual\<close>

text \<open>\<open>unlocated\<close> never returns an annotation, so that branch is not reached.\<close>

function dual :: "SessionType \<Rightarrow> SessionType" where
  "dual s =
     (case s_unlocated s of
        SSend t cont \<Rightarrow> SRecv t (dual cont)
      | SRecv t cont \<Rightarrow> SSend t (dual cont)
      | SEnd \<Rightarrow> SEnd
      | SDual inner \<Rightarrow>
          (case s_unlocated inner of
             SDual inner2 \<Rightarrow> dual inner2
           | other \<Rightarrow> other)
      | SName n \<Rightarrow> SDual (SName n)
      | SLocated m t \<Rightarrow> SLocated m t)"
  by pat_completeness auto
termination
proof (relation "measure size", goal_cases)
  case (4 s inner inner2)
  then show ?case using size_s_unlocated [of s] size_s_unlocated [of inner] by simp
qed (use size_s_unlocated in \<open>force dest: s_unlocated_size\<close>)+

declare dual.simps [simp del]

lemma dual_simps:
  "s_unlocated s = SSend t c \<Longrightarrow> dual s = SRecv t (dual c)"
  "s_unlocated s = SRecv t c \<Longrightarrow> dual s = SSend t (dual c)"
  "s_unlocated s = SEnd \<Longrightarrow> dual s = SEnd"
  "s_unlocated s = SName n \<Longrightarrow> dual s = SDual (SName n)"
  "s_unlocated s = SDual i \<Longrightarrow> s_unlocated i = SDual j \<Longrightarrow> dual s = dual j"
  by (subst dual.simps, simp)+

lemma dual_of_dual: "s_unlocated s = SDual i \<Longrightarrow> (\<And>j. s_unlocated i \<noteq> SDual j) \<Longrightarrow> dual s = s_unlocated i"
  by (subst dual.simps) (simp split: SessionType.split)

section \<open>Protocols\<close>

datatype Polarity = Out | In

fun flip_pol :: "Polarity \<Rightarrow> Polarity" where
  "flip_pol Out = In"
| "flip_pol In = Out"

text \<open>What a protocol ends in: \<open>end\<close>, or an unresolved name, possibly dualised.\<close>

datatype Tail = TailEnd | TailName string bool

type_synonym protocol = "(Polarity \<times> Type) list \<times> Tail"

fun flip_tail :: "Tail \<Rightarrow> Tail" where
  "flip_tail TailEnd = TailEnd"
| "flip_tail (TailName n d) = TailName n (\<not> d)"

definition flip :: "protocol \<Rightarrow> protocol" where
  "flip p = (map (\<lambda>(d, t). (flip_pol d, t)) (fst p), flip_tail (snd p))"

definition act :: "Polarity \<Rightarrow> Type \<Rightarrow> protocol \<Rightarrow> protocol" where
  "act d t p = ((d, t) # fst p, snd p)"

fun proto :: "SessionType \<Rightarrow> protocol" where
  "proto (SLocated _ s) = proto s"
| "proto (SSend t c) = act Out t (proto c)"
| "proto (SRecv t c) = act In t (proto c)"
| "proto (SDual i) = flip (proto i)"
| "proto (SName n) = ([], TailName n False)"
| "proto SEnd = ([], TailEnd)"

lemma flip_pol_flip [simp]: "flip_pol (flip_pol d) = d"
  by (cases d) auto

lemma flip_tail_flip [simp]: "flip_tail (flip_tail t) = t"
  by (cases t) auto

lemma flip_flip [simp]: "flip (flip p) = p"
  by (simp add: flip_def comp_def case_prod_beta map_idI)

lemma flip_act [simp]: "flip (act d t p) = act (flip_pol d) t (flip p)"
  by (simp add: flip_def act_def)

lemma flip_nil [simp]: "flip ([], t) = ([], flip_tail t)"
  by (simp add: flip_def)

lemma act_eq [simp]: "act d t p = (x # xs, e) \<longleftrightarrow> x = (d, t) \<and> p = (xs, e)" "act d t p \<noteq> ([], e)"
  by (auto simp: act_def prod_eq_iff)

lemma proto_unlocated: "proto (s_unlocated s) = proto s"
  by (induction s rule: s_unlocated.induct) auto

lemma proto_view: "s_unlocated s = u \<Longrightarrow> proto s = proto u"
  using proto_unlocated by metis

lemma proto_dual: "proto (dual s) = flip (proto s)"
proof (induction s rule: dual.induct)
  case A: (1 s)
  show ?case
  proof (cases s rule: s_unlocated_cases)
    case (3 i)
    show ?thesis
    proof (cases "\<exists>j. s_unlocated i = SDual j")
      case True
      then obtain j where j: "s_unlocated i = SDual j" ..
      have "proto s = flip (flip (proto j))" using proto_view [OF 3] proto_view [OF j] by simp
      then show ?thesis using A(3) [OF 3 j] dual_simps(5) [OF 3 j] by simp
    next
      case False
      then have "dual s = s_unlocated i" using dual_of_dual [OF 3] by blast
      then show ?thesis using proto_view [OF 3] by (simp add: proto_unlocated)
    qed
  next
    case (1 t c)
    show ?thesis using A(1) [OF 1] proto_view [OF 1] dual_simps(1) [OF 1] by simp
  next
    case (2 t c)
    show ?thesis using A(2) [OF 2] proto_view [OF 2] dual_simps(2) [OF 2] by simp
  next
    case (4 n)
    show ?thesis using proto_view [OF 4] dual_simps(4) [OF 4] by simp
  next
    case 5
    show ?thesis using proto_view [OF 5] dual_simps(3) [OF 5] by simp
  qed
qed

text \<open>
  \<open>dual\<close> computes the dual protocol: every send becomes a receive of the same type and
  conversely, in the same order, and dualising twice gives the protocol back, whatever
  \<open>dual(..)\<close> wrappers, names and annotations the type contains.
\<close>

theorem dual_flips_protocol: "proto (dual s) = flip (proto s) \<and> proto (dual (dual s)) = proto s"
  by (simp add: proto_dual)

section \<open>Resolution\<close>

type_synonym session_env = "(string \<times> SessionType) list"

text \<open>
  \<open>visiting\<close> is passed down: the code removes the name again on the way out, so a call that
  returns a session leaves the set as it found it.
\<close>

function resolve_inner :: "SessionType \<Rightarrow> session_env \<Rightarrow> string set \<Rightarrow> SessionType option" where
  "resolve_inner s env visiting =
     (case s_unlocated s of
        SSend t cont \<Rightarrow>
          (case resolve_inner cont env visiting of None \<Rightarrow> None | Some c \<Rightarrow> Some (SSend t c))
      | SRecv t cont \<Rightarrow>
          (case resolve_inner cont env visiting of None \<Rightarrow> None | Some c \<Rightarrow> Some (SRecv t c))
      | SEnd \<Rightarrow> Some SEnd
      | SName n \<Rightarrow>
          if n \<in> visiting then None
          else (case map_of env n of
                  Some body \<Rightarrow> resolve_inner body env (insert n visiting)
                | None \<Rightarrow> None)
      | SDual inner \<Rightarrow>
          (case resolve_inner inner env visiting of None \<Rightarrow> None | Some r \<Rightarrow> Some (dual r))
      | SLocated m t \<Rightarrow> None)"
  by pat_completeness auto
termination
proof (relation "measures [\<lambda>(s, env, v). card (fst ` set env - v), \<lambda>(s, env, v). size s]", goal_cases)
  case (5 s env v n body)
  then have "n \<in> fst ` set env - v" by (auto dest!: map_of_SomeD intro: rev_image_eqI)
  then have "fst ` set env - insert n v \<subset> fst ` set env - v" by auto
  then show ?case by (simp add: psubset_card_mono)
qed (use size_s_unlocated in \<open>force dest: s_unlocated_size\<close>)+

declare resolve_inner.simps [simp del]

definition resolve :: "SessionType \<Rightarrow> session_env \<Rightarrow> SessionType option" where
  "resolve s env = resolve_inner s env {}"


text \<open>
  The specification: unfolding every name by its definition reaches \<open>end\<close> after finitely many
  steps. \<open>h\<close> is the height of the unfolding.
\<close>

inductive expands :: "session_env \<Rightarrow> SessionType \<Rightarrow> (Polarity \<times> Type) list \<Rightarrow> nat \<Rightarrow> bool" for env where
  expands_send: "s_unlocated s = SSend t c \<Longrightarrow> expands env c as h \<Longrightarrow> expands env s ((Out, t) # as) (Suc h)"
| expands_recv: "s_unlocated s = SRecv t c \<Longrightarrow> expands env c as h \<Longrightarrow> expands env s ((In, t) # as) (Suc h)"
| expands_end: "s_unlocated s = SEnd \<Longrightarrow> expands env s [] 0"
| expands_name: "s_unlocated s = SName n \<Longrightarrow> map_of env n = Some b \<Longrightarrow> expands env b as h \<Longrightarrow>
    expands env s as (Suc h)"
| expands_dual: "s_unlocated s = SDual i \<Longrightarrow> expands env i as h \<Longrightarrow>
    expands env s (map (\<lambda>(d, t). (flip_pol d, t)) as) (Suc h)"

lemma expands_inv:
  "s_unlocated s = SSend t c \<Longrightarrow>
     expands env s as h \<longleftrightarrow> (\<exists>as' h'. as = (Out, t) # as' \<and> h = Suc h' \<and> expands env c as' h')"
  "s_unlocated s = SRecv t c \<Longrightarrow>
     expands env s as h \<longleftrightarrow> (\<exists>as' h'. as = (In, t) # as' \<and> h = Suc h' \<and> expands env c as' h')"
  "s_unlocated s = SEnd \<Longrightarrow> expands env s as h \<longleftrightarrow> as = [] \<and> h = 0"
  "s_unlocated s = SName n \<Longrightarrow>
     expands env s as h \<longleftrightarrow> (\<exists>b h'. map_of env n = Some b \<and> h = Suc h' \<and> expands env b as h')"
  "s_unlocated s = SDual i \<Longrightarrow> expands env s as h \<longleftrightarrow>
     (\<exists>as' h'. as = map (\<lambda>(d, t). (flip_pol d, t)) as' \<and> h = Suc h' \<and> expands env i as' h')"
  by (simp_all add: expands.simps [of env s]) blast+

lemma expands_unique: "expands env s as h \<Longrightarrow> expands env s as' h' \<Longrightarrow> as' = as \<and> h' = h"
proof (induction arbitrary: as' h' rule: expands.induct)
  case (expands_send s t c as h)
  then show ?case unfolding expands_inv(1) [OF expands_send.hyps(1)] by blast
next
  case (expands_recv s t c as h)
  then show ?case unfolding expands_inv(2) [OF expands_recv.hyps(1)] by blast
next
  case (expands_end s)
  then show ?case unfolding expands_inv(3) [OF expands_end.hyps(1)] by blast
next
  case (expands_name s n b as h)
  then show ?case unfolding expands_inv(4) [OF expands_name.hyps(1)] by (metis option.inject)
next
  case (expands_dual s i as h)
  then show ?case unfolding expands_inv(5) [OF expands_dual.hyps(1)] by blast
qed

lemma resolve_inner_simps:
  "s_unlocated s = SSend t c \<Longrightarrow> resolve_inner s env v =
     (case resolve_inner c env v of None \<Rightarrow> None | Some c' \<Rightarrow> Some (SSend t c'))"
  "s_unlocated s = SRecv t c \<Longrightarrow> resolve_inner s env v =
     (case resolve_inner c env v of None \<Rightarrow> None | Some c' \<Rightarrow> Some (SRecv t c'))"
  "s_unlocated s = SEnd \<Longrightarrow> resolve_inner s env v = Some SEnd"
  "s_unlocated s = SName n \<Longrightarrow> resolve_inner s env v =
     (if n \<in> v then None
      else (case map_of env n of Some body \<Rightarrow> resolve_inner body env (insert n v) | None \<Rightarrow> None))"
  "s_unlocated s = SDual i \<Longrightarrow> resolve_inner s env v =
     (case resolve_inner i env v of None \<Rightarrow> None | Some r \<Rightarrow> Some (dual r))"
  by (subst resolve_inner.simps, simp)+

lemma resolve_sound:
  "resolve_inner s env v = Some r \<Longrightarrow> \<exists>as h. expands env s as h \<and> proto r = (as, TailEnd)"
proof (induction s env v arbitrary: r rule: resolve_inner.induct)
  case A: (1 s env v)
  show ?case
  proof (cases s rule: s_unlocated_cases)
    case (1 t c)
    then obtain c' where c: "resolve_inner c env v = Some c'" "r = SSend t c'"
      using A.prems by (auto simp: resolve_inner_simps(1) [OF 1] split: option.splits)
    then show ?thesis using A(1) [OF 1 c(1)] expands_send [OF 1] by (fastforce simp: act_def)
  next
    case (2 t c)
    then obtain c' where c: "resolve_inner c env v = Some c'" "r = SRecv t c'"
      using A.prems by (auto simp: resolve_inner_simps(2) [OF 2] split: option.splits)
    then show ?thesis using A(2) [OF 2 c(1)] expands_recv [OF 2] by (fastforce simp: act_def)
  next
    case (3 i)
    then obtain i' where i: "resolve_inner i env v = Some i'" "r = dual i'"
      using A.prems by (auto simp: resolve_inner_simps(5) [OF 3] split: option.splits)
    then obtain as h where "expands env i as h" "proto i' = (as, TailEnd)" using A(3) [OF 3 i(1)] by blast
    then show ?thesis using i(2) expands_dual [OF 3] by (fastforce simp: proto_dual flip_def)
  next
    case (4 n)
    then have n: "n \<notin> v" using A.prems by (auto simp: resolve_inner_simps(4) [OF 4] split: if_splits)
    then obtain b where b: "map_of env n = Some b" "resolve_inner b env (insert n v) = Some r"
      using A.prems by (auto simp: resolve_inner_simps(4) [OF 4] split: option.splits)
    show ?thesis using A(4) [OF 4 n b] expands_name [OF 4 b(1)] by blast
  next
    case 5
    then show ?thesis using A.prems expands_end [OF 5] by (auto simp: resolve_inner_simps(3) [OF 5])
  qed
qed

lemma resolve_complete:
  assumes "expands env s as h"
    and "\<And>m. m \<in> v \<Longrightarrow> \<exists>b as' h'. map_of env m = Some b \<and> expands env b as' h' \<and> h \<le> h'"
  shows "resolve_inner s env v \<noteq> None"
  using assms
proof (induction arbitrary: v rule: expands.induct)
  case (expands_send s t c as h)
  have "resolve_inner c env v \<noteq> None"
    by (rule expands_send.IH) (metis Suc_leD expands_send.prems)
  then show ?case by (auto simp: resolve_inner_simps(1) [OF expands_send.hyps(1)])
next
  case (expands_recv s t c as h)
  have "resolve_inner c env v \<noteq> None"
    by (rule expands_recv.IH) (metis Suc_leD expands_recv.prems)
  then show ?case by (auto simp: resolve_inner_simps(2) [OF expands_recv.hyps(1)])
next
  case (expands_end s)
  then show ?case by (simp add: resolve_inner_simps(3))
next
  case (expands_name s n b as h)
  have n: "n \<notin> v"
  proof
    assume "n \<in> v"
    then obtain b' as' h' where "map_of env n = Some b'" "expands env b' as' h'" "Suc h \<le> h'"
      using expands_name.prems by blast
    then show False using expands_unique [OF expands_name.hyps(3)] expands_name.hyps(2) by fastforce
  qed
  have "resolve_inner b env (insert n v) \<noteq> None"
  proof (rule expands_name.IH)
    fix m
    assume "m \<in> insert n v"
    then show "\<exists>b as' h'. map_of env m = Some b \<and> expands env b as' h' \<and> h \<le> h'"
      using expands_name.hyps(2,3) expands_name.prems by (metis Suc_leD insertE order_refl)
  qed
  then show ?case using n expands_name.hyps(2) by (simp add: resolve_inner_simps(4) [OF expands_name.hyps(1)])
next
  case (expands_dual s i as h)
  have "resolve_inner i env v \<noteq> None"
    by (rule expands_dual.IH) (metis Suc_leD expands_dual.prems)
  then show ?case by (auto simp: resolve_inner_simps(5) [OF expands_dual.hyps(1)])
qed

text \<open>
  Resolution terminates on every environment, circular ones included. It returns a session
  exactly when unfolding all names ends, and then the result is closed and speaks the unfolded
  protocol; an unknown name or a circular definition on the way gives \<open>None\<close>.
\<close>

theorem resolve_correct:
  "case resolve s env of
     Some r \<Rightarrow> (\<exists>as h. expands env s as h \<and> proto r = (as, TailEnd))
   | None \<Rightarrow> \<not> (\<exists>as h. expands env s as h)"
  using resolve_sound [of s env "{}"] resolve_complete [of env s _ _ "{}"]
  by (auto simp: resolve_def split: option.split)

end
