(* ===== verification/Mimi_SessionRun.thy ===== *)
theory Mimi_SessionRun
  imports Mimi_Session
begin

text \<open>
  The order checker \<open>apply_action\<close> of \<open>src/session.rs\<close>, its agreement with the protocol, and
  the run of two dual endpoints against each other. \<open>debug\<close> stands for the derived \<open>Debug\<close>
  formatting of the types the short printer does not cover.
\<close>

section \<open>Printing\<close>

fun join_comma :: "string list \<Rightarrow> string" where
  "join_comma [] = []"
| "join_comma [x] = x"
| "join_comma (x # xs) = x @ '', '' @ join_comma xs"

function session_fmt_type :: "(Type \<Rightarrow> string) \<Rightarrow> Type \<Rightarrow> string" where
  "session_fmt_type debug ty =
     (case ty_unlocated ty of
        TyName n args \<Rightarrow>
          if args = [] then n
          else n @ ''['' @ join_comma (map (session_fmt_type debug) args) @ '']''
      | TyOption i \<Rightarrow> ''Option['' @ session_fmt_type debug i @ '']''
      | TyResult a b \<Rightarrow> ''Result['' @ session_fmt_type debug a @ '', '' @ session_fmt_type debug b @ '']''
      | TyTuple es \<Rightarrow> ''('' @ join_comma (map (session_fmt_type debug) es) @ '')''
      | _ \<Rightarrow> debug ty)"
  by pat_completeness auto
termination
proof (relation "measure (\<lambda>(d, t). size t)", goal_cases)
  case (2 debug ty n args x)
  then have "x \<in> set (ty_kids (ty_unlocated ty))" by simp
  then show ?case using size_kids [of x "ty_unlocated ty"] size_unlocated [of ty] by simp
next
  case (3 debug ty i)
  then have "i \<in> set (ty_kids (ty_unlocated ty))" by simp
  then show ?case using size_kids [of i "ty_unlocated ty"] size_unlocated [of ty] by simp
next
  case (4 debug ty a b)
  then have "a \<in> set (ty_kids (ty_unlocated ty))" by simp
  then show ?case using size_kids [of a "ty_unlocated ty"] size_unlocated [of ty] by simp
next
  case (5 debug ty a b)
  then have "b \<in> set (ty_kids (ty_unlocated ty))" by simp
  then show ?case using size_kids [of b "ty_unlocated ty"] size_unlocated [of ty] by simp
next
  case (6 debug ty es x)
  then have "x \<in> set (ty_kids (ty_unlocated ty))" by simp
  then show ?case using size_kids [of x "ty_unlocated ty"] size_unlocated [of ty] by simp
qed simp

fun fmt_session :: "(Type \<Rightarrow> string) \<Rightarrow> SessionType \<Rightarrow> string" where
  "fmt_session debug (SLocated _ s) = fmt_session debug s"
| "fmt_session debug (SSend t c) = ''!'' @ session_fmt_type debug t @ '' . '' @ fmt_session debug c"
| "fmt_session debug (SRecv t c) = ''?'' @ session_fmt_type debug t @ '' . '' @ fmt_session debug c"
| "fmt_session debug (SDual i) = ''dual('' @ fmt_session debug i @ '')''"
| "fmt_session debug (SName n) = n"
| "fmt_session debug SEnd = ''end''"

section \<open>Actions\<close>

datatype SessionAction = ActSend | ActRecv | ActClose

datatype SessionOrderError =
    ExpectedSend string
  | ExpectedRecv string
  | ExpectedEnd string
  | AlreadyEnded

definition normalize_residual :: "SessionType \<Rightarrow> SessionType" where
  "normalize_residual residual =
     (case s_unlocated residual of SDual inner \<Rightarrow> dual inner | other \<Rightarrow> other)"

definition apply_action ::
    "(Type \<Rightarrow> string) \<Rightarrow> SessionType \<Rightarrow> SessionAction \<Rightarrow> SessionOrderError + (SessionType \<times> Type option)" where
  "apply_action debug residual action =
     (let r = normalize_residual residual in
      case action of
        ActSend \<Rightarrow>
          (case r of SSend t cont \<Rightarrow> Ok (cont, Some t)
           | SEnd \<Rightarrow> Err AlreadyEnded
           | other \<Rightarrow> Err (ExpectedSend (fmt_session debug other)))
      | ActRecv \<Rightarrow>
          (case r of SRecv t cont \<Rightarrow> Ok (cont, Some t)
           | SEnd \<Rightarrow> Err AlreadyEnded
           | other \<Rightarrow> Err (ExpectedRecv (fmt_session debug other)))
      | ActClose \<Rightarrow>
          (case r of SEnd \<Rightarrow> Ok (SEnd, None)
           | other \<Rightarrow> Err (ExpectedEnd (fmt_session debug other))))"

text \<open>A normalised residual shows the next action of its protocol at its root.\<close>

lemma dual_root: "dual s \<noteq> SLocated m t \<and> (dual s = SDual i \<longrightarrow> (\<exists>n. i = SName n))"
proof (induction s rule: dual.induct)
  case A: (1 s)
  show ?case
  proof (cases s rule: s_unlocated_cases)
    case (3 x)
    show ?thesis
    proof (cases "\<exists>j. s_unlocated x = SDual j")
      case True
      then obtain j where j: "s_unlocated x = SDual j" ..
      show ?thesis using A(3) [OF 3 j] dual_simps(5) [OF 3 j] by simp
    next
      case False
      then show ?thesis using dual_of_dual [OF 3] s_unlocated_not [of x] by auto
    qed
  qed (auto simp: dual_simps)
qed

lemma normalize_root:
  "normalize_residual s \<noteq> SLocated m t" "normalize_residual s = SDual i \<Longrightarrow> \<exists>n. i = SName n"
  using dual_root s_unlocated_not [of s] by (auto simp: normalize_residual_def split: SessionType.splits)

lemma normalize_proto: "proto s = proto (normalize_residual s)"
  by (cases s rule: s_unlocated_cases) (auto simp: normalize_residual_def proto_dual dest: proto_view)

text \<open>
  The order checker follows the protocol. It accepts an action exactly when it is the next
  action of the residual's protocol, returns the type to transfer and a residual that speaks the
  rest; it reports an ended session exactly for a send or receive after \<open>end\<close>.
\<close>

theorem apply_action_follows_protocol:
  "case apply_action debug s a of
     Ok (s', payload) \<Rightarrow>
       (case a of
          ActSend \<Rightarrow> (\<exists>t. payload = Some t \<and> proto s = act Out t (proto s'))
        | ActRecv \<Rightarrow> (\<exists>t. payload = Some t \<and> proto s = act In t (proto s'))
        | ActClose \<Rightarrow> payload = None \<and> proto s = ([], TailEnd) \<and> proto s' = ([], TailEnd))
   | Err e \<Rightarrow>
       (case a of
          ActSend \<Rightarrow> (\<nexists>t p. proto s = act Out t p)
        | ActRecv \<Rightarrow> (\<nexists>t p. proto s = act In t p)
        | ActClose \<Rightarrow> proto s \<noteq> ([], TailEnd)) \<and>
       (e = AlreadyEnded \<longleftrightarrow> a \<noteq> ActClose \<and> proto s = ([], TailEnd))"
  using normalize_proto [of s] normalize_root [of s]
  by (cases "normalize_residual s"; cases a) (auto simp: apply_action_def act_def)


section \<open>Two endpoints\<close>

text \<open>
  The run of a pair of endpoints: at each step one side sends what the other receives, or both
  close. A pair that cannot move has no run.
\<close>

fun run_pair :: "(Type \<Rightarrow> string) \<Rightarrow> nat \<Rightarrow> SessionType \<Rightarrow> SessionType \<Rightarrow> (Polarity \<times> Type) list option" where
  "run_pair debug 0 a b = None"
| "run_pair debug (Suc k) a b =
     (case (apply_action debug a ActSend, apply_action debug b ActRecv) of
        (Ok (a', Some t), Ok (b', Some u)) \<Rightarrow>
          if t = u then map_option (\<lambda>r. (Out, t) # r) (run_pair debug k a' b') else None
      | _ \<Rightarrow>
          (case (apply_action debug a ActRecv, apply_action debug b ActSend) of
             (Ok (a', Some t), Ok (b', Some u)) \<Rightarrow>
               if t = u then map_option (\<lambda>r. (In, t) # r) (run_pair debug k a' b') else None
           | _ \<Rightarrow>
               (case (apply_action debug a ActClose, apply_action debug b ActClose) of
                  (Ok _, Ok _) \<Rightarrow> Some []
                | _ \<Rightarrow> None)))"

lemma apply_by_proto:
  "proto s = act Out t p \<Longrightarrow> \<exists>s'. apply_action debug s ActSend = Ok (s', Some t) \<and> proto s' = p"
  "proto s = act In t p \<Longrightarrow> \<exists>s'. apply_action debug s ActRecv = Ok (s', Some t) \<and> proto s' = p"
  "proto s = act In t p \<Longrightarrow> \<exists>e. apply_action debug s ActSend = Err e"
  "proto s = ([], TailEnd) \<Longrightarrow> apply_action debug s ActClose = Ok (SEnd, None) \<and>
     apply_action debug s ActSend = Err AlreadyEnded \<and> apply_action debug s ActRecv = Err AlreadyEnded"
  using normalize_proto [of s] normalize_root [of s]
  by (cases "normalize_residual s"; auto simp: apply_action_def act_def prod_eq_iff)+

lemma run_pair_complete:
  "proto a = (as, TailEnd) \<Longrightarrow> proto b = flip (proto a) \<Longrightarrow> run_pair debug (Suc (length as)) a b = Some as"
proof (induction as arbitrary: a b)
  case Nil
  then show ?case using apply_by_proto(4) [of a debug] apply_by_proto(4) [of b debug] by simp
next
  case (Cons x as)
  obtain d t where x: "x = (d, t)" by (cases x)
  have a: "proto a = act d t (as, TailEnd)" using Cons.prems(1) by (simp add: x act_def)
  have b: "proto b = act (flip_pol d) t (flip (as, TailEnd))" using Cons.prems(2) by (simp add: a)
  show ?case
  proof (cases d)
    case Out
    obtain a' b' where "apply_action debug a ActSend = Ok (a', Some t)" "proto a' = (as, TailEnd)"
      "apply_action debug b ActRecv = Ok (b', Some t)" "proto b' = flip (as, TailEnd)"
      using apply_by_proto(1) [of a t] apply_by_proto(2) [of b t] a b Out by (metis flip_pol.simps(1))
    then show ?thesis using Cons.IH [of a' b'] by (simp add: x Out)
  next
    case In
    obtain a' b' where "apply_action debug a ActRecv = Ok (a', Some t)" "proto a' = (as, TailEnd)"
      "apply_action debug b ActSend = Ok (b', Some t)" "proto b' = flip (as, TailEnd)"
      using apply_by_proto(2) [of a t] apply_by_proto(1) [of b t] a b In by (metis flip_pol.simps(2))
    moreover obtain e where "apply_action debug a ActSend = Err e" using apply_by_proto(3) [of a t] a In by blast
    ultimately show ?thesis using Cons.IH [of a' b'] by (simp add: x In)
  qed
qed

text \<open>
  C19: session fidelity and progress. Whenever a session resolves, an endpoint with the resolved
  type and one with its dual run against each other without getting stuck, transfer exactly the
  unfolded protocol in order, agree on every type and both close.
\<close>

theorem dual_endpoints_complete:
  assumes "resolve s env = Some r"
  shows "\<exists>as h. expands env s as h \<and> run_pair debug (Suc (length as)) r (dual r) = Some as"
proof -
  obtain as h where "expands env s as h" "proto r = (as, TailEnd)"
    using resolve_sound [of s env "{}" r] assms by (auto simp: resolve_def)
  then show ?thesis using run_pair_complete [of r as "dual r" debug] by (auto simp: proto_dual)
qed

theorem dual_endpoints_complete_witness:
  "\<exists>as h. expands [(''S'', SSend TyInfer SEnd)] (SDual (SName ''S'')) as h \<and>
     run_pair (\<lambda>_. []) (Suc (length as)) (SRecv TyInfer SEnd) (dual (SRecv TyInfer SEnd)) = Some as"
proof (rule dual_endpoints_complete)
  show "resolve (SDual (SName ''S'')) [(''S'', SSend TyInfer SEnd)] = Some (SRecv TyInfer SEnd)"
    by (simp add: resolve_def resolve_inner_simps dual_simps)
qed

section \<open>Residuals of channel types\<close>

definition is_chan_name :: "string \<Rightarrow> bool" where
  "is_chan_name n = (n = ''SessionChan'' \<or> n = ''session_chan'')"

definition session_from_chan_type :: "Type \<Rightarrow> string option" where
  "session_from_chan_type ty =
     (case ty_unlocated ty of
        TyName n args \<Rightarrow>
          if is_chan_name n then
            (case args of
               [] \<Rightarrow> None
             | first # _ \<Rightarrow> (case ty_unlocated first of TyName s _ \<Rightarrow> Some s | _ \<Rightarrow> None))
          else None
      | _ \<Rightarrow> None)"

definition residual_from_chan_type :: "Type \<Rightarrow> session_env \<Rightarrow> SessionType option" where
  "residual_from_chan_type ty env =
     (case ty_unlocated ty of
        TyName n args \<Rightarrow>
          if \<not> is_chan_name n then None
          else
            (case args of
               [] \<Rightarrow> None
             | first # _ \<Rightarrow>
                 (case ty_unlocated first of
                    TyName m inner \<Rightarrow>
                      if m = ''dual'' \<and> length inner = 1 then
                        (case ty_unlocated (hd inner) of
                           TyName x xargs \<Rightarrow>
                             if xargs = [] then
                               (case map_of env x of
                                  None \<Rightarrow> None
                                | Some body \<Rightarrow>
                                    Some (dual (case resolve body env of Some r \<Rightarrow> r | None \<Rightarrow> body)))
                             else None
                         | _ \<Rightarrow> None)
                      else if inner = [] then
                        (case map_of env m of
                           None \<Rightarrow> None
                         | Some body \<Rightarrow> Some (case resolve body env of Some r \<Rightarrow> r | None \<Rightarrow> body))
                      else None
                  | _ \<Rightarrow> None))
      | _ \<Rightarrow> None)"

text \<open>
  the two channel annotations of a session pair, \<open>SessionChan<X>\<close> and
  \<open>SessionChan<dual X>\<close>, have residuals with opposite protocols.
\<close>

theorem chan_annotations_dual:
  "case residual_from_chan_type (TyName ''SessionChan'' [TyName x []]) env of
     None \<Rightarrow> residual_from_chan_type (TyName ''SessionChan'' [TyName ''dual'' [TyName x []]]) env = None
   | Some r \<Rightarrow> (\<exists>r'. residual_from_chan_type (TyName ''SessionChan'' [TyName ''dual'' [TyName x []]]) env = Some r'
       \<and> proto r' = flip (proto r))"
  by (simp add: residual_from_chan_type_def is_chan_name_def proto_dual split: option.split)

end
