(* ===== verification/Mimi_SessionCycle.thy ===== *)
theory Mimi_SessionCycle
  imports Mimi_SessionRun
begin

text \<open>
  \<open>detect_session_cycle\<close> of \<open>src/session.rs\<close>: the three-colour depth-first search over the
  reference graph of the session definitions, with its explicit stack. \<open>order\<close> is the unspecified
  iteration order of a \<open>HashSet\<close>; the order of the environment list is that of the \<open>HashMap\<close>.
\<close>

section \<open>The search\<close>

fun referenced_names :: "SessionType \<Rightarrow> string list \<Rightarrow> string list" where
  "referenced_names (SLocated _ s) out = referenced_names s out"
| "referenced_names (SSend _ c) out = referenced_names c out"
| "referenced_names (SRecv _ c) out = referenced_names c out"
| "referenced_names (SDual i) out = referenced_names i out"
| "referenced_names (SName n) out = (if n \<in> set out then out else n # out)"
| "referenced_names SEnd out = out"

definition session_edges :: "(string list \<Rightarrow> string list) \<Rightarrow> session_env \<Rightarrow> string \<Rightarrow> string list" where
  "session_edges order env n =
     (case map_of env n of
        None \<Rightarrow> []
      | Some body \<Rightarrow> filter (\<lambda>m. m \<in> fst ` set env) (order (referenced_names body [])))"

text \<open>Colours: 0 unvisited, 1 on the current path, 2 done.\<close>

type_synonym colors = "string \<Rightarrow> nat"

function dfs_loop ::
    "(string list \<Rightarrow> string list) \<Rightarrow> session_env \<Rightarrow> colors \<Rightarrow> (string \<times> nat) list \<Rightarrow> string list
       \<Rightarrow> string list option + colors" where
  "dfs_loop order env color stack path =
     (case stack of
        [] \<Rightarrow> Inr color
      | (node, idx) # rest \<Rightarrow>
          let edges = session_edges order env node in
          if idx < length edges then
            (let nxt = edges ! idx; stack' = (node, idx + 1) # rest in
             if color nxt = 0 then dfs_loop order env (color(nxt := 1)) ((nxt, 0) # stack') (path @ [nxt])
             else if color nxt = 1 then
               Inl (case position (\<lambda>m. m = nxt) path of
                      None \<Rightarrow> None
                    | Some pos \<Rightarrow> Some (drop pos path @ [nxt]))
             else dfs_loop order env color stack' path)
          else dfs_loop order env (color(node := 2)) rest (butlast path))"
  by pat_completeness auto

definition whites :: "session_env \<Rightarrow> colors \<Rightarrow> nat" where
  "whites env color = card {n \<in> fst ` set env. color n = 0}"

definition frames_left :: "(string list \<Rightarrow> string list) \<Rightarrow> session_env \<Rightarrow> (string \<times> nat) list \<Rightarrow> nat" where
  "frames_left order env stack = sum_list (map (\<lambda>(n, i). Suc (length (session_edges order env n)) - i) stack)"

lemma session_edges_keys: "n \<in> set (session_edges order env m) \<Longrightarrow> n \<in> fst ` set env"
  by (auto simp: session_edges_def split: option.splits)

lemma whites_gray: "n \<in> fst ` set env \<Longrightarrow> color n = 0 \<Longrightarrow> whites env (color(n := Suc c)) < whites env color"
  unfolding whites_def by (intro psubset_card_mono) auto

lemma whites_mono: "whites env (color(n := Suc c)) \<le> whites env color"
  unfolding whites_def by (intro card_mono) auto

termination dfs_loop
proof (relation "measures [\<lambda>(order, env, color, stack, path). whites env color,
    \<lambda>(order, env, color, stack, path). frames_left order env stack,
    \<lambda>(order, env, color, stack, path). length stack]", goal_cases)
  case (2 order env color stack path fr rest node idx edges nxt stack')
  then have "nxt \<in> fst ` set env" using session_edges_keys by (metis nth_mem)
  then show ?case using whites_gray [of nxt env color 0] 2 by simp
next
  case (3 order env color stack path fr rest node idx edges nxt stack')
  then show ?case by (auto simp: frames_left_def)
next
  case (4 order env color stack path fr rest node idx edges)
  then show ?case using whites_mono [of env color node 1] by (auto simp: frames_left_def numeral_2_eq_2)
qed simp

declare dfs_loop.simps [simp del]

fun dfs_starts ::
    "(string list \<Rightarrow> string list) \<Rightarrow> session_env \<Rightarrow> colors \<Rightarrow> string list \<Rightarrow> string list option" where
  "dfs_starts order env color [] = None"
| "dfs_starts order env color (start # ks) =
     (if color start \<noteq> 0 then dfs_starts order env color ks
      else (case dfs_loop order env (color(start := 1)) [(start, 0)] [start] of
              Inl result \<Rightarrow> result
            | Inr color' \<Rightarrow> dfs_starts order env color' ks))"

definition detect_session_cycle :: "(string list \<Rightarrow> string list) \<Rightarrow> session_env \<Rightarrow> string list option" where
  "detect_session_cycle order env = dfs_starts order env (\<lambda>_. 0) (map fst env)"

section \<open>What it decides\<close>

definition session_graph :: "session_env \<Rightarrow> (string \<times> string) set" where
  "session_graph env =
     {(a, b). \<exists>body. map_of env a = Some body \<and> b \<in> set (referenced_names body []) \<and> b \<in> fst ` set env}"

definition is_cycle :: "session_env \<Rightarrow> string list \<Rightarrow> bool" where
  "is_cycle env c \<longleftrightarrow> 2 \<le> length c \<and> hd c = last c \<and> successively (\<lambda>a b. (a, b) \<in> session_graph env) c"

definition hash_order :: "(string list \<Rightarrow> string list) \<Rightarrow> bool" where
  "hash_order order \<longleftrightarrow> (\<forall>xs. set (order xs) = set xs)"

lemma session_edges_graph:
  "hash_order order \<Longrightarrow> b \<in> set (session_edges order env a) \<longleftrightarrow> (a, b) \<in> session_graph env"
  by (cases "map_of env a") (auto simp: session_edges_def session_graph_def hash_order_def)

text \<open>
  The invariant of the search: the stack is the path, grey nodes are those on it, each frame's
  finished edges lead to black nodes or to the frame above, and black nodes only lead to black
  nodes, without a cycle.
\<close>

definition blacks :: "colors \<Rightarrow> string set" where
  "blacks color = {n. color n = 2}"

fun frames_ok :: "(string list \<Rightarrow> string list) \<Rightarrow> session_env \<Rightarrow> colors \<Rightarrow> string option \<Rightarrow> (string \<times> nat) list \<Rightarrow> bool"
where
  "frames_ok order env color abv [] = True"
| "frames_ok order env color abv ((n, i) # fs) =
     ((\<forall>j < i. j < length (session_edges order env n) \<longrightarrow>
         color (session_edges order env n ! j) = 2 \<or> Some (session_edges order env n ! j) = abv) \<and>
      (case abv of None \<Rightarrow> True | Some m \<Rightarrow> m \<in> set (session_edges order env n)) \<and>
      frames_ok order env color (Some n) fs)"

definition dfs_inv ::
    "(string list \<Rightarrow> string list) \<Rightarrow> session_env \<Rightarrow> colors \<Rightarrow> (string \<times> nat) list \<Rightarrow> string list \<Rightarrow> bool" where
  "dfs_inv order env color stack path \<longleftrightarrow>
     path = rev (map fst stack) \<and> distinct path \<and> {n. color n = 1} = set path \<and> (\<forall>n. color n \<le> 2) \<and>
     frames_ok order env color None stack \<and>
     session_graph env `` blacks color \<subseteq> blacks color \<and>
     acyclic (session_graph env \<inter> blacks color \<times> UNIV)"

lemma dfs_invD:
  assumes "dfs_inv order env color stack path"
  shows "path = rev (map fst stack)" "distinct path" "{n. color n = 1} = set path" "\<forall>n. color n \<le> 2"
    "frames_ok order env color None stack" "session_graph env `` blacks color \<subseteq> blacks color"
    "acyclic (session_graph env \<inter> blacks color \<times> UNIV)"
  using assms unfolding dfs_inv_def by - (elim conjE, assumption)+

lemma frames_ok_color:
  "frames_ok order env color abv stack \<Longrightarrow> (\<And>n. color n = 2 \<Longrightarrow> color' n = 2) \<Longrightarrow>
     frames_ok order env color' abv stack"
proof (induction stack arbitrary: abv)
  case (Cons f fs)
  obtain n i where f: "f = (n, i)" by (cases f)
  have "frames_ok order env color' (Some n) fs" using Cons.IH [of "Some n"] Cons.prems by (simp add: f)
  moreover have "\<forall>j < i. j < length (session_edges order env n) \<longrightarrow>
      color' (session_edges order env n ! j) = 2 \<or> Some (session_edges order env n ! j) = abv"
    using Cons.prems by (fastforce simp: f)
  ultimately show ?case using Cons.prems(1) by (simp add: f)
qed simp

lemma frames_ok_path:
  "frames_ok order env color abv stack \<Longrightarrow> hash_order order \<Longrightarrow>
     successively (\<lambda>a b. (a, b) \<in> session_graph env) (rev (map fst stack) @ (case abv of None \<Rightarrow> [] | Some m \<Rightarrow> [m]))"
proof (induction stack arbitrary: abv)
  case (Cons f fs)
  obtain n i where f: "f = (n, i)" by (cases f)
  have "successively (\<lambda>a b. (a, b) \<in> session_graph env) (rev (map fst fs) @ [n])"
    using Cons.IH [of "Some n"] Cons.prems by (simp add: f)
  then show ?case
    using Cons.prems session_edges_graph [OF Cons.prems(2)]
    by (auto simp: f successively_append_iff split: option.splits)
qed (simp split: option.split)

lemma acyclic_extend:
  assumes acyc: "acyclic (r \<inter> B \<times> UNIV)" and closed: "r `` B \<subseteq> B" and succ: "r `` {n} \<subseteq> B" and new: "n \<notin> B"
  shows "acyclic (r \<inter> insert n B \<times> UNIV)"
proof -
  have into: "(a, b) \<in> (r \<inter> insert n B \<times> UNIV)\<^sup>+ \<Longrightarrow> b \<in> B" for a b
    by (induction rule: trancl_induct) (use closed succ in auto)
  have inside: "(a, b) \<in> (r \<inter> insert n B \<times> UNIV)\<^sup>+ \<Longrightarrow> a \<in> B \<Longrightarrow> (a, b) \<in> (r \<inter> B \<times> UNIV)\<^sup>+" for a b
  proof (induction rule: trancl_induct)
    case (base y)
    then show ?case by auto
  next
    case (step y z)
    have "y \<in> B" using into [OF step.hyps(1)] .
    then have "(y, z) \<in> r \<inter> B \<times> UNIV" using step.hyps(2) by auto
    then show ?case using step.IH [OF step.prems] by (rule trancl_into_trancl [rotated])
  qed
  show ?thesis
    unfolding acyclic_def
  proof (intro allI notI)
    fix x
    assume x: "(x, x) \<in> (r \<inter> insert n B \<times> UNIV)\<^sup>+"
    then have "(x, x) \<in> (r \<inter> B \<times> UNIV)\<^sup>+" using into inside by blast
    then show False using acyc by (simp add: acyclic_def)
  qed
qed


section \<open>The search keeps its invariant\<close>

lemma gray_iff: "dfs_inv order env color stack path \<Longrightarrow> n \<in> set path \<longleftrightarrow> color n = 1"
  unfolding dfs_inv_def by blast

lemma dfs_push:
  assumes inv: "dfs_inv order env color ((node, idx) # rest) path"
    and idx: "idx < length (session_edges order env node)"
    and white: "color (session_edges order env node ! idx) = 0"
  shows "dfs_inv order env (color(session_edges order env node ! idx := 1))
    ((session_edges order env node ! idx, 0) # (node, idx + 1) # rest) (path @ [session_edges order env node ! idx])"
proof -
  let ?nxt = "session_edges order env node ! idx"
  let ?c = "color(?nxt := 1)"
  have blacks: "blacks ?c = blacks color" using white by (auto simp: blacks_def)
  have gray: "{n. ?c n = 1} = insert ?nxt {n. color n = 1}" by auto
  have notin: "?nxt \<notin> set path" using gray_iff [OF inv] white by (metis zero_neq_one)
  have keep: "\<And>n. color n = 2 \<Longrightarrow> ?c n = 2" using white by auto
  have "frames_ok order env color (Some node) rest" "\<forall>j < idx. j < length (session_edges order env node) \<longrightarrow>
      color (session_edges order env node ! j) = 2"
    using inv by (auto simp: dfs_inv_def)
  moreover from this(1) have "frames_ok order env ?c (Some node) rest" by (rule frames_ok_color) (rule keep)
  ultimately have "frames_ok order env ?c None ((?nxt, 0) # (node, idx + 1) # rest)"
    using idx keep by (simp add: less_Suc_eq)
  moreover have "distinct (path @ [?nxt])" using notin dfs_invD(2) [OF inv] by simp
  moreover have "{n. ?c n = 1} = set (path @ [?nxt])" unfolding gray dfs_invD(3) [OF inv] by simp
  moreover have "\<forall>n. ?c n \<le> 2" using dfs_invD(4) [OF inv] by simp
  moreover have "path @ [?nxt] = rev (map fst ((?nxt, 0) # (node, idx + 1) # rest))" using dfs_invD(1) [OF inv] by simp
  ultimately show ?thesis
    using dfs_invD(6,7) [OF inv] unfolding dfs_inv_def blacks by (intro conjI)
qed

lemma dfs_skip:
  assumes inv: "dfs_inv order env color ((node, idx) # rest) path"
    and idx: "idx < length (session_edges order env node)"
    and "color (session_edges order env node ! idx) \<noteq> 0" and "color (session_edges order env node ! idx) \<noteq> 1"
  shows "dfs_inv order env color ((node, idx + 1) # rest) path"
proof -
  have "color (session_edges order env node ! idx) \<le> 2" using inv by (auto simp: dfs_inv_def)
  then have "color (session_edges order env node ! idx) = 2" using assms(3,4) by linarith
  then have "frames_ok order env color None ((node, idx + 1) # rest)"
    using inv by (simp add: dfs_inv_def less_Suc_eq)
  moreover have "path = rev (map fst ((node, idx + 1) # rest))" using dfs_invD(1) [OF inv] by simp
  ultimately show ?thesis using dfs_invD [OF inv] unfolding dfs_inv_def by (intro conjI)
qed

lemma dfs_pop:
  assumes order: "hash_order order" and inv: "dfs_inv order env color ((node, idx) # rest) path"
    and idx: "\<not> idx < length (session_edges order env node)"
  shows "dfs_inv order env (color(node := 2)) rest (butlast path)"
proof -
  let ?c = "color(node := 2)"
  note dist = dfs_invD(2) [OF inv] and grays = dfs_invD(3) [OF inv] and le = dfs_invD(4) [OF inv]
    and closed = dfs_invD(6) [OF inv] and acyc = dfs_invD(7) [OF inv]
  have path: "path = rev (map fst rest) @ [node]" using dfs_invD(1) [OF inv] by simp
  have frames: "frames_ok order env color (Some node) rest" using dfs_invD(5) [OF inv] by simp
  have top: "\<forall>j < length (session_edges order env node). color (session_edges order env node ! j) = 2"
    using dfs_invD(5) [OF inv] idx by simp
  have gray: "color node = 1" using gray_iff [OF inv, of node] path by simp
  have blacks: "blacks ?c = insert node (blacks color)" by (auto simp: blacks_def)
  have succ: "session_graph env `` {node} \<subseteq> blacks color"
  proof
    fix x
    assume "x \<in> session_graph env `` {node}"
    then have "x \<in> set (session_edges order env node)" using session_edges_graph [OF order] by blast
    then show "x \<in> blacks color" using top by (auto simp: blacks_def in_set_conv_nth)
  qed
  have new: "node \<notin> blacks color" using gray by (simp add: blacks_def)
  have "{n. ?c n = 1} = {n. color n = 1} - {node}" by auto
  then have "{n. ?c n = 1} = set (rev (map fst rest))" using path dist unfolding grays by auto
  moreover have "frames_ok order env ?c None rest"
  proof (cases rest)
    case (Cons f fs)
    obtain m i where f: "f = (m, i)" by (cases f)
    show ?thesis using frames by (auto simp: Cons f intro: frames_ok_color)
  qed simp
  moreover have "session_graph env `` blacks ?c \<subseteq> blacks ?c" using closed succ by (auto simp: blacks)
  moreover have "acyclic (session_graph env \<inter> blacks ?c \<times> UNIV)"
    unfolding blacks by (rule acyclic_extend [OF acyc closed succ new])
  moreover have "butlast path = rev (map fst rest)" "distinct (butlast path)" using dist by (simp_all add: path)
  ultimately show ?thesis using le unfolding dfs_inv_def by (intro conjI) simp_all
qed

lemma dfs_found:
  assumes order: "hash_order order" and inv: "dfs_inv order env color ((node, idx) # rest) path"
    and idx: "idx < length (session_edges order env node)" and gray: "color (session_edges order env node ! idx) = 1"
  shows "\<exists>pos. position (\<lambda>m. m = session_edges order env node ! idx) path = Some pos \<and>
    is_cycle env (drop pos path @ [session_edges order env node ! idx])"
proof -
  let ?nxt = "session_edges order env node ! idx"
  have "?nxt \<in> set path" using gray_iff [OF inv] gray by blast
  then obtain pos where pos: "position (\<lambda>m. m = ?nxt) path = Some pos"
    using position_None [of "\<lambda>m. m = ?nxt" path] by (cases "position (\<lambda>m. m = ?nxt) path") auto
  then have p: "pos < length path" "path ! pos = ?nxt" using position_Some [OF pos] by auto
  have path: "path = rev (map fst rest) @ [node]" using inv by (simp add: dfs_inv_def)
  have chain: "successively (\<lambda>a b. (a, b) \<in> session_graph env) path"
    using frames_ok_path [of order env color None "(node, idx) # rest"] inv order by (simp add: dfs_inv_def)
  have last: "last (drop pos path) = node" "drop pos path \<noteq> []" using p(1) by (simp_all add: path)
  have "(node, ?nxt) \<in> session_graph env"
    using session_edges_graph [OF order, of ?nxt env node] idx nth_mem by blast
  moreover have "successively (\<lambda>a b. (a, b) \<in> session_graph env) (drop pos path)"
    using chain by (metis append_take_drop_id successively_append_iff)
  ultimately have "successively (\<lambda>a b. (a, b) \<in> session_graph env) (drop pos path @ [?nxt])"
    using last by (simp add: successively_append_iff)
  moreover have "hd (drop pos path @ [?nxt]) = ?nxt" using p last(2) by (simp add: hd_drop_conv_nth)
  moreover have "2 \<le> length (drop pos path @ [?nxt])" using p(1) by simp
  ultimately show ?thesis using pos by (auto simp: is_cycle_def)
qed

definition loop_ok ::
    "(string list \<Rightarrow> string list) \<Rightarrow> session_env \<Rightarrow> string set \<Rightarrow> string list option + colors \<Rightarrow> bool" where
  "loop_ok order env S r =
     (case r of
        Inl c \<Rightarrow> (\<exists>cyc. c = Some cyc \<and> is_cycle env cyc)
      | Inr color' \<Rightarrow> dfs_inv order env color' [] [] \<and> S \<subseteq> blacks color')"

lemma loop_ok_mono: "loop_ok order env S r \<Longrightarrow> T \<subseteq> S \<Longrightarrow> loop_ok order env T r"
  by (cases r) (auto simp: loop_ok_def)

lemma dfs_loop_correct:
  assumes "hash_order order" and "dfs_inv order env color stack path"
  shows "loop_ok order env (blacks color \<union> set path) (dfs_loop order env color stack path)"
  using assms
proof (induction order env color stack path rule: dfs_loop.induct)
  case A: (1 order env color stack path)
  show ?case
  proof (cases stack)
    case Nil
    then show ?thesis using A.prems by (subst dfs_loop.simps) (auto simp: dfs_inv_def loop_ok_def)
  next
    case (Cons f rest)
    obtain node idx where f: "f = (node, idx)" by (cases f)
    note st = Cons [unfolded f]
    note inv = A.prems(2) [unfolded st]
    let ?es = "session_edges order env node"
    show ?thesis
    proof (cases "idx < length ?es")
      case idx: True
      consider "color (?es ! idx) = 0" | "color (?es ! idx) = 1" | "color (?es ! idx) \<noteq> 0" "color (?es ! idx) \<noteq> 1"
        by blast
      then show ?thesis
      proof cases
        case 1
        have eq: "dfs_loop order env color stack path =
            dfs_loop order env (color(?es ! idx := 1)) ((?es ! idx, 0) # (node, idx + 1) # rest) (path @ [?es ! idx])"
          using st idx 1 by (subst dfs_loop.simps) (simp add: Let_def)
        have "blacks color \<union> set path \<subseteq> blacks (color(?es ! idx := 1)) \<union> set (path @ [?es ! idx])"
          using 1 by (auto simp: blacks_def)
        then show ?thesis
          unfolding eq
          by (rule loop_ok_mono [OF A.IH(1) [OF st refl refl idx refl refl 1 A.prems(1) dfs_push [OF inv idx 1]]])
      next
        case 2
        then show ?thesis
          using dfs_found [OF A.prems(1) inv idx 2] st idx by (subst dfs_loop.simps) (auto simp: Let_def loop_ok_def)
      next
        case 3
        have eq: "dfs_loop order env color stack path = dfs_loop order env color ((node, idx + 1) # rest) path"
          using st idx 3 by (subst dfs_loop.simps) (simp add: Let_def)
        show ?thesis
          using A.IH(2) [OF st refl refl idx refl refl 3 A.prems(1) dfs_skip [OF inv idx 3]] unfolding eq .
      qed
    next
      case idx: False
      have eq: "dfs_loop order env color stack path = dfs_loop order env (color(node := 2)) rest (butlast path)"
        using st idx by (subst dfs_loop.simps) (simp add: Let_def)
      have "blacks color \<union> set path \<subseteq> blacks (color(node := 2)) \<union> set (butlast path)"
        using inv by (auto simp: dfs_inv_def blacks_def)
      then show ?thesis
        unfolding eq
        by (rule loop_ok_mono [OF A.IH(3) [OF st refl refl idx A.prems(1) dfs_pop [OF A.prems(1) inv idx]]])
    qed
  qed
qed

lemma dfs_starts_correct:
  assumes "hash_order order" and "dfs_inv order env color [] []"
  shows "case dfs_starts order env color ks of
      Some c \<Rightarrow> is_cycle env c
    | None \<Rightarrow> (\<exists>color'. dfs_inv order env color' [] [] \<and> blacks color \<union> set ks \<subseteq> blacks color')"
  using assms
proof (induction ks arbitrary: color)
  case Nil
  then show ?case by auto
next
  case (Cons k ks)
  have gray: "{n. color n = 1} = {}" and le: "color k \<le> 2" using Cons.prems(2) by (auto simp: dfs_inv_def)
  show ?case
  proof (cases "color k = 0")
    case True
    have blacks: "blacks (color(k := 1)) = blacks color" using True by (auto simp: blacks_def)
    have "{n. (color(k := 1)) n = 1} = {k}" using gray by auto
    then have inv: "dfs_inv order env (color(k := 1)) [(k, 0)] [k]"
      using Cons.prems(2) unfolding dfs_inv_def blacks by simp
    note loop = dfs_loop_correct [OF Cons.prems(1) inv]
    show ?thesis
    proof (cases "dfs_loop order env (color(k := 1)) [(k, 0)] [k]")
      case (Inl r)
      then show ?thesis using loop True by (auto simp: loop_ok_def)
    next
      case (Inr color')
      then have "dfs_inv order env color' [] []" "insert k (blacks color) \<subseteq> blacks color'"
        using loop blacks by (auto simp: loop_ok_def)
      then show ?thesis using Cons.IH [OF Cons.prems(1), of color'] True Inr by (fastforce split: option.splits)
    qed
  next
    case False
    then have "color k = 2" using gray le by (metis (mono_tags) One_nat_def Suc_1 empty_iff le_SucE le_zero_eq mem_Collect_eq)
    then show ?thesis using Cons.IH [OF Cons.prems] False by (fastforce simp: blacks_def split: option.splits)
  qed
qed

text \<open>
  C20: the cycle detector is correct for every iteration order of the hash containers: it
  terminates, a path it returns is a genuine cycle of definitions that starts and ends with the
  same name, and when it returns none the definitions are acyclic.
\<close>

theorem detect_session_cycle_correct:
  assumes "hash_order order"
  shows "case detect_session_cycle order env of
      Some c \<Rightarrow> is_cycle env c
    | None \<Rightarrow> acyclic (session_graph env)"
proof -
  have start: "dfs_inv order env (\<lambda>_. 0) [] []" by (simp add: dfs_inv_def blacks_def acyclic_def)
  have "acyclic (session_graph env)"
    if "dfs_inv order env color [] []" "set (map fst env) \<subseteq> blacks color" for color
  proof -
    have "session_graph env \<subseteq> session_graph env \<inter> blacks color \<times> UNIV"
      using that(2) by (auto simp: session_graph_def dest!: map_of_SomeD)
    then show ?thesis using that(1) acyclic_subset unfolding dfs_inv_def by blast
  qed
  then show ?thesis
    using dfs_starts_correct [OF assms start, of "map fst env"]
    by (fastforce simp: detect_session_cycle_def split: option.splits)
qed

theorem detect_session_cycle_correct_witness:
  "is_cycle [(''A'', SName ''B''), (''B'', SDual (SName ''A''))] [''A'', ''B'', ''A'']"
proof -
  have "hash_order (\<lambda>xs. xs)" by (simp add: hash_order_def)
  moreover have "detect_session_cycle (\<lambda>xs. xs) [(''A'', SName ''B''), (''B'', SDual (SName ''A''))] =
      Some [''A'', ''B'', ''A'']"
    by code_simp
  ultimately show ?thesis
    using detect_session_cycle_correct [of "\<lambda>xs. xs" "[(''A'', SName ''B''), (''B'', SDual (SName ''A''))]"] by simp
qed

end
