(* ===== verification/Mimi_Bytes.thy ===== *)
theory Mimi_Bytes
  imports Mimi_Prelude
begin

text \<open>
  What the byte formats of the component boundary take from the standard library: little-endian
  conversion of integers (\<open>to_le_bytes\<close>, \<open>from_le_bytes\<close>), the validity test of
  \<open>str::from_utf8\<close>, and \<open>usize\<close> arithmetic with its overflow at 64 bits. The locale
  \<open>delimited\<close> states the contract of a decoder that finds the end of the value at the head of
  a buffer by itself; the lemmas on counted sequences are proved once under it.
\<close>

section \<open>usize\<close>

definition usize_add :: "nat \<Rightarrow> nat \<Rightarrow> nat option" where
  "usize_add a b = (if a + b < 2 ^ 64 then Some (a + b) else None)"

lemma usize_add_Some: "usize_add a b = Some c \<longleftrightarrow> c = a + b \<and> a + b < 2 ^ 64"
  by (auto simp: usize_add_def)

section \<open>Little-endian bytes\<close>

definition to_le :: "nat \<Rightarrow> 'a::len word \<Rightarrow> u8 list" where
  "to_le n w = map (\<lambda>i. ucast (drop_bit (8 * i) w)) [0..<n]"

fun from_le :: "u8 list \<Rightarrow> 'a::len word" where
  "from_le [] = 0"
| "from_le (b # bs) = ucast b OR push_bit 8 (from_le bs)"

lemma length_to_le [simp]: "length (to_le n w) = n"
  by (simp add: to_le_def)

lemma bit_from_le:
  "bit (from_le bs :: 'a::len word) k \<longleftrightarrow> k < LENGTH('a) \<and> k div 8 < length bs \<and> bit (bs ! (k div 8)) (k mod 8)"
proof (induction bs arbitrary: k)
  case (Cons b bs)
  show ?case
  proof (cases "k < 8")
    case True
    then show ?thesis by (simp add: bit_simps)
  next
    case False
    then obtain j where "k = j + 8" using le_Suc_ex by (metis add.commute not_less)
    moreover have "(j + 8) div 8 = Suc (j div 8)" by simp
    ultimately show ?thesis using Cons.IH [of j] by (auto simp: bit_simps dest: bit_imp_le_length)
  qed
qed simp

lemma from_to_le:
  fixes w :: "'a::len word"
  assumes "LENGTH('a) = 8 * n"
  shows "from_le (to_le n w) = w"
proof (rule bit_word_eqI)
  fix k
  assume "k < LENGTH('a)"
  then have "k div 8 < n" "k < LENGTH('a)" using assms by linarith+
  then show "bit (from_le (to_le n w) :: 'a word) k \<longleftrightarrow> bit w k"
    by (simp add: bit_from_le to_le_def bit_simps)
qed

lemma to_from_le:
  assumes "LENGTH('a::len) = 8 * n" and "length bs = n"
  shows "to_le n (from_le bs :: 'a word) = bs"
proof (rule nth_equalityI)
  show "length (to_le n (from_le bs :: 'a word)) = length bs" using assms by simp
  fix i
  assume "i < length (to_le n (from_le bs :: 'a word))"
  then have i: "i < n" by simp
  show "to_le n (from_le bs :: 'a word) ! i = bs ! i"
  proof (rule bit_word_eqI)
    fix k
    assume k: "k < LENGTH(8)"
    then have "(8 * i + k) div 8 = i" "(8 * i + k) mod 8 = k" "8 * i + k < 8 * n" using i by simp_all
    then show "bit (to_le n (from_le bs :: 'a word) ! i) k \<longleftrightarrow> bit (bs ! i) k"
      using i k assms by (simp add: to_le_def bit_simps bit_from_le)
  qed
qed

section \<open>UTF-8\<close>

definition utf8_cont :: "u8 \<Rightarrow> bool" where
  "utf8_cont b \<longleftrightarrow> 0x80 \<le> b \<and> b \<le> 0xBF"

text \<open>The well-formed byte sequences of the Unicode standard, which \<open>str::from_utf8\<close> accepts.\<close>

fun utf8_valid :: "u8 list \<Rightarrow> bool" where
  "utf8_valid [] = True"
| "utf8_valid (b # bs) =
     (if b < 0x80 then utf8_valid bs
      else if 0xC2 \<le> b \<and> b \<le> 0xDF then
        (case bs of c1 # r \<Rightarrow> utf8_cont c1 \<and> utf8_valid r | _ \<Rightarrow> False)
      else if 0xE0 \<le> b \<and> b \<le> 0xEF then
        (case bs of c1 # c2 # r \<Rightarrow>
           utf8_cont c1 \<and> utf8_cont c2 \<and> (b = 0xE0 \<longrightarrow> 0xA0 \<le> c1) \<and> (b = 0xED \<longrightarrow> c1 \<le> 0x9F) \<and> utf8_valid r
         | _ \<Rightarrow> False)
      else if 0xF0 \<le> b \<and> b \<le> 0xF4 then
        (case bs of c1 # c2 # c3 # r \<Rightarrow>
           utf8_cont c1 \<and> utf8_cont c2 \<and> utf8_cont c3 \<and> (b = 0xF0 \<longrightarrow> 0x90 \<le> c1) \<and> (b = 0xF4 \<longrightarrow> c1 \<le> 0x8F)
           \<and> utf8_valid r
         | _ \<Rightarrow> False)
      else False)"

section \<open>Self-delimiting decoders\<close>

text \<open>
  \<open>dec\<close> takes a value of the language \<open>lang\<close> from the head of a buffer and reports its bytes
  and its length: what it returns is a prefix of the buffer in the language, and it finds every
  value of the language that stands at the head, whatever follows. A buffer is shorter than
  \<open>2 ^ 63\<close> bytes, as every Rust slice is.
\<close>

locale delimited =
  fixes lang :: "u8 list \<Rightarrow> bool"
    and dec :: "u8 list \<Rightarrow> (u8 list \<times> nat) option"
  assumes dec_sound: "dec data = Some (b, n) \<Longrightarrow> n \<le> length data \<and> b = take n data \<and> lang b"
    and dec_complete: "lang b \<Longrightarrow> length (b @ rest) < 2 ^ 63 \<Longrightarrow> dec (b @ rest) = Some (b, length b)"
begin

lemma dec_iff:
  assumes "length data < 2 ^ 63"
  shows "dec data = Some (b, n) \<longleftrightarrow> n \<le> length data \<and> b = take n data \<and> lang b"
proof
  assume r: "n \<le> length data \<and> b = take n data \<and> lang b"
  then have "data = b @ drop n data" "length b = n" by simp_all
  then show "dec data = Some (b, n)" using dec_complete [of b "drop n data"] r assms by metis
qed (rule dec_sound)

lemma prefix_free:
  assumes "lang b" and "lang c" and eq: "b @ r = c @ s" and len: "length (b @ r) < 2 ^ 63"
  shows "b = c"
proof -
  have "dec (b @ r) = Some (b, length b)" using assms(1) len by (rule dec_complete)
  moreover have "dec (b @ r) = Some (c, length c)"
    using dec_complete [OF assms(2), of s] len by (simp only: eq)
  ultimately show ?thesis by simp
qed

end

end
