(* ===== verification/Mimi_Wire.thy ===== *)
theory Mimi_Wire
  imports Mimi_Bytes
begin

text \<open>
  The wire format of the component boundary, \<open>src/component/wire.rs\<close>: the versioned envelope,
  the wire types with their primitive and composite codecs, and the schema validator. A byte
  buffer is a list of bytes, \<open>usize\<close> is 64 bits wide, a \<open>String\<close> is its UTF-8 bytes.
\<close>

section \<open>Errors and the envelope\<close>

datatype WireError =
    BadMagic u32
  | VersionMismatch u32 u32
  | LengthMismatch u64 u64
  | TooShort nat
  | Truncated nat nat
  | TrailingData nat nat
  | LengthOverflow nat nat

record WireEnvelope =
  we_magic :: u32
  we_version :: u32
  we_payload_len :: u64
  we_payload :: "u8 list"

definition MAGIC :: u32 where
  "MAGIC = 0x494D494D"

definition WIRE_VERSION :: u32 where
  "WIRE_VERSION = 0x00010000"

definition envelope_new :: "u8 list \<Rightarrow> WireEnvelope" where
  "envelope_new payload =
     \<lparr>we_magic = MAGIC, we_version = WIRE_VERSION, we_payload_len = word_of_nat (length payload),
      we_payload = payload\<rparr>"

definition envelope_validate :: "WireEnvelope \<Rightarrow> WireError + unit" where
  "envelope_validate e =
     (if we_magic e \<noteq> MAGIC then Err (BadMagic (we_magic e))
      else if drop_bit 16 (we_version e) \<noteq> drop_bit 16 WIRE_VERSION then
        Err (VersionMismatch (drop_bit 16 WIRE_VERSION) (drop_bit 16 (we_version e)))
      else if we_payload_len e \<noteq> word_of_nat (length (we_payload e)) then
        Err (LengthMismatch (we_payload_len e) (word_of_nat (length (we_payload e))))
      else Ok ())"

definition envelope_to_bytes :: "WireEnvelope \<Rightarrow> u8 list" where
  "envelope_to_bytes e =
     to_le 4 (we_magic e) @ to_le 4 (we_version e) @ to_le 8 (we_payload_len e) @ we_payload e"

definition envelope_from_bytes :: "u8 list \<Rightarrow> WireError + WireEnvelope" where
  "envelope_from_bytes data =
     (if length data < 16 then Err (TooShort (length data)) else
      let magic = from_le (take 4 data); version = from_le (take 4 (drop 4 data));
          payload_len = from_le (take 8 (drop 8 data)) :: u64
      in case usize_add 16 (unat payload_len) of
           None \<Rightarrow> Err (Truncated (2 ^ 64 - 1) (length data))
         | Some tot \<Rightarrow>
             if length data < tot then Err (Truncated tot (length data))
             else if length data > tot then Err (TrailingData tot (length data))
             else
               (let envelope = \<lparr>we_magic = magic, we_version = version, we_payload_len = payload_len,
                                we_payload = take (tot - 16) (drop 16 data)\<rparr>
                in case envelope_validate envelope of
                     Err e \<Rightarrow> Err e
                   | Ok _ \<Rightarrow> Ok envelope))"

section \<open>Wire types\<close>

datatype WireType =
    WBool | WI8 | WI16 | WI32 | WI64 | WU8 | WU16 | WU32 | WU64 | WF32 | WF64
  | WString | WBytes | WArray WireType | WMap WireType WireType | WHandle
  | WOptional WireType | WResult WireType WireType | WUnit

fun fixed_size :: "WireType \<Rightarrow> nat option" where
  "fixed_size WBool = Some 1" | "fixed_size WI8 = Some 1" | "fixed_size WU8 = Some 1"
| "fixed_size WI16 = Some 2" | "fixed_size WU16 = Some 2"
| "fixed_size WI32 = Some 4" | "fixed_size WU32 = Some 4" | "fixed_size WF32 = Some 4"
| "fixed_size WI64 = Some 8" | "fixed_size WU64 = Some 8" | "fixed_size WF64 = Some 8"
| "fixed_size WHandle = Some 8"
| "fixed_size WUnit = Some 0"
| "fixed_size _ = None"

fun contains_handle_depth :: "WireType \<Rightarrow> nat \<Rightarrow> bool" where
  "contains_handle_depth ty depth =
     (if depth > 128 then True
      else case ty of
        WHandle \<Rightarrow> True
      | WArray inner \<Rightarrow> contains_handle_depth inner (depth + 1)
      | WMap k v \<Rightarrow> contains_handle_depth k (depth + 1) \<or> contains_handle_depth v (depth + 1)
      | WOptional inner \<Rightarrow> contains_handle_depth inner (depth + 1)
      | WResult ok err \<Rightarrow> contains_handle_depth ok (depth + 1) \<or> contains_handle_depth err (depth + 1)
      | _ \<Rightarrow> False)"

declare contains_handle_depth.simps [simp del]

definition contains_handle :: "WireType \<Rightarrow> bool" where
  "contains_handle ty = contains_handle_depth ty 0"

text \<open>A value travels as its 64 bits; a float is its bit pattern.\<close>

fun encode_primitive :: "WireType \<Rightarrow> u64 \<Rightarrow> u8 list option" where
  "encode_primitive WBool v = Some [if v \<noteq> 0 then 1 else 0]"
| "encode_primitive WI8 v = Some (to_le 1 (ucast v :: u8))"
| "encode_primitive WI16 v = Some (to_le 2 (ucast v :: u16))"
| "encode_primitive WI32 v = Some (to_le 4 (ucast v :: u32))"
| "encode_primitive WI64 v = Some (to_le 8 v)"
| "encode_primitive WU8 v = Some (to_le 1 (ucast v :: u8))"
| "encode_primitive WU16 v = Some (to_le 2 (ucast v :: u16))"
| "encode_primitive WU32 v = Some (to_le 4 (ucast v :: u32))"
| "encode_primitive WU64 v = Some (to_le 8 v)"
| "encode_primitive WHandle v = Some (to_le 8 v)"
| "encode_primitive WF32 v = Some (to_le 4 (ucast v :: u32))"
| "encode_primitive WF64 v = Some (to_le 8 v)"
| "encode_primitive WUnit v = Some []"
| "encode_primitive _ v = None"

text \<open>\<open>try_into\<close> an array of \<open>n\<close> bytes.\<close>

definition bytes_array :: "nat \<Rightarrow> u8 list \<Rightarrow> u8 list option" where
  "bytes_array n bs = (if length bs = n then Some bs else None)"

fun decode_primitive :: "WireType \<Rightarrow> u8 list \<Rightarrow> u64 option" where
  "decode_primitive WBool bs = (if length bs = 1 then Some (if bs ! 0 \<noteq> 0 then 1 else 0) else None)"
| "decode_primitive WI8 bs = map_option (\<lambda>b. scast (from_le b :: u8)) (bytes_array 1 bs)"
| "decode_primitive WI16 bs = map_option (\<lambda>b. scast (from_le b :: u16)) (bytes_array 2 bs)"
| "decode_primitive WI32 bs = map_option (\<lambda>b. scast (from_le b :: u32)) (bytes_array 4 bs)"
| "decode_primitive WI64 bs = map_option from_le (bytes_array 8 bs)"
| "decode_primitive WU8 bs = map_option (\<lambda>b. ucast (from_le b :: u8)) (bytes_array 1 bs)"
| "decode_primitive WU16 bs = map_option (\<lambda>b. ucast (from_le b :: u16)) (bytes_array 2 bs)"
| "decode_primitive WU32 bs = map_option (\<lambda>b. ucast (from_le b :: u32)) (bytes_array 4 bs)"
| "decode_primitive WU64 bs = map_option from_le (bytes_array 8 bs)"
| "decode_primitive WHandle bs = map_option from_le (bytes_array 8 bs)"
| "decode_primitive WF32 bs = map_option (\<lambda>b. ucast (from_le b :: u32)) (bytes_array 4 bs)"
| "decode_primitive WF64 bs = map_option from_le (bytes_array 8 bs)"
| "decode_primitive WUnit bs = (if bs = [] then Some 0 else None)"
| "decode_primitive _ bs = None"

section \<open>Variable-length values\<close>

definition encode_bytes :: "u8 list \<Rightarrow> WireError + u8 list" where
  "encode_bytes b =
     (if length b < 2 ^ 32 then Ok (to_le 4 (word_of_nat (length b) :: u32) @ b)
      else Err (LengthOverflow (2 ^ 32 - 1) (length b)))"

definition encode_string :: "u8 list \<Rightarrow> WireError + u8 list" where
  "encode_string s =
     (if length s < 2 ^ 32 then Ok (to_le 4 (word_of_nat (length s) :: u32) @ s)
      else Err (LengthOverflow (2 ^ 32 - 1) (length s)))"

definition decode_bytes :: "u8 list \<Rightarrow> (u8 list \<times> nat) option" where
  "decode_bytes data =
     (if length data < 4 then None else
      let len = unat (from_le (take 4 data) :: u32)
      in case usize_add 4 len of
           None \<Rightarrow> None
         | Some tot \<Rightarrow>
             if length data < tot then None else Some (take (tot - 4) (drop 4 data), tot))"

definition decode_string :: "u8 list \<Rightarrow> (u8 list \<times> nat) option" where
  "decode_string data =
     (if length data < 4 then None else
      let len = unat (from_le (take 4 data) :: u32)
      in case usize_add 4 len of
           None \<Rightarrow> None
         | Some tot \<Rightarrow>
             if length data < tot then None
             else if utf8_valid (take (tot - 4) (drop 4 data))
             then Some (take (tot - 4) (drop 4 data), tot)
             else None)"

fun encode_optional :: "u8 list option \<Rightarrow> u8 list" where
  "encode_optional None = [0]"
| "encode_optional (Some value) = 1 # value"

definition encode_array_header :: "u32 \<Rightarrow> u8 list" where
  "encode_array_header count = to_le 4 count"

definition decode_array_header :: "u8 list \<Rightarrow> (u32 \<times> nat) option" where
  "decode_array_header data = (if length data < 4 then None else Some (from_le (take 4 data), 4))"

definition encode_map_header :: "u32 \<Rightarrow> u8 list" where
  "encode_map_header count = to_le 4 count"

definition decode_map_header :: "u8 list \<Rightarrow> (u32 \<times> nat) option" where
  "decode_map_header data = decode_array_header data"

definition encode_result_tag :: "bool \<Rightarrow> u8 list" where
  "encode_result_tag is_err = [if is_err then 1 else 0]"

definition decode_result_tag :: "u8 list \<Rightarrow> (bool \<times> nat) option" where
  "decode_result_tag data =
     (case data of [] \<Rightarrow> None
      | t # _ \<Rightarrow> if t = 0 then Some (False, 1) else if t = 1 then Some (True, 1) else None)"

section \<open>Type-driven decoding\<close>

text \<open>The loops of the array and map branches, over the decoder of the element, key or value.\<close>

fun decode_elems :: "(u8 list \<Rightarrow> (u8 list \<times> nat) option) \<Rightarrow> u8 list \<Rightarrow> nat \<Rightarrow> nat \<Rightarrow> nat option" where
  "decode_elems dec data 0 consumed = Some consumed"
| "decode_elems dec data (Suc k) consumed =
     (if consumed > length data then None else
      case dec (drop consumed data) of
        None \<Rightarrow> None
      | Some (_, n) \<Rightarrow>
          if n = 0 then None
          else case usize_add consumed n of
            None \<Rightarrow> None
          | Some c \<Rightarrow> decode_elems dec data k c)"

fun decode_pairs ::
    "(u8 list \<Rightarrow> (u8 list \<times> nat) option) \<Rightarrow> (u8 list \<Rightarrow> (u8 list \<times> nat) option) \<Rightarrow> u8 list \<Rightarrow> nat \<Rightarrow> nat
       \<Rightarrow> nat option" where
  "decode_pairs deck decv data 0 consumed = Some consumed"
| "decode_pairs deck decv data (Suc k) consumed =
     (if consumed > length data then None else
      case deck (drop consumed data) of
        None \<Rightarrow> None
      | Some (_, kn) \<Rightarrow>
          if kn = 0 then None
          else case usize_add consumed kn of
            None \<Rightarrow> None
          | Some c1 \<Rightarrow>
              if c1 > length data then None else
              case decv (drop c1 data) of
                None \<Rightarrow> None
              | Some (_, vn) \<Rightarrow>
                  if vn = 0 then None
                  else case usize_add c1 vn of
                    None \<Rightarrow> None
                  | Some c2 \<Rightarrow> decode_pairs deck decv data k c2)"

text \<open>\<open>(data[..consumed].to_vec(), consumed)\<close>.\<close>

definition taken :: "u8 list \<Rightarrow> nat \<Rightarrow> u8 list \<times> nat" where
  "taken data consumed = (take consumed data, consumed)"

function decode_value_depth :: "WireType \<Rightarrow> u8 list \<Rightarrow> nat \<Rightarrow> (u8 list \<times> nat) option"
  and decode_optional_depth :: "WireType \<Rightarrow> u8 list \<Rightarrow> nat \<Rightarrow> (u8 list option \<times> nat) option"
  and decode_result_depth :: "WireType \<Rightarrow> WireType \<Rightarrow> u8 list \<Rightarrow> nat \<Rightarrow> ((u8 list + u8 list) \<times> nat) option"
where
  "decode_value_depth ty data depth =
     (if depth > 128 then None
      else case ty of
        WUnit \<Rightarrow> Some ([], 0)
      | WString \<Rightarrow> map_option (\<lambda>(_, c). taken data c) (decode_string data)
      | WBytes \<Rightarrow> map_option (\<lambda>(_, c). taken data c) (decode_bytes data)
      | WArray elem \<Rightarrow>
          (case decode_array_header data of
             None \<Rightarrow> None
           | Some (count, c) \<Rightarrow>
               map_option (taken data)
                 (decode_elems (\<lambda>d. decode_value_depth elem d (depth + 1)) data (unat count) c))
      | WMap k v \<Rightarrow>
          (case decode_map_header data of
             None \<Rightarrow> None
           | Some (count, c) \<Rightarrow>
               map_option (taken data)
                 (decode_pairs (\<lambda>d. decode_value_depth k d (depth + 1))
                    (\<lambda>d. decode_value_depth v d (depth + 1)) data (unat count) c))
      | WOptional inner \<Rightarrow> map_option (\<lambda>(_, c). taken data c) (decode_optional_depth inner data (depth + 1))
      | WResult ok err \<Rightarrow> map_option (\<lambda>(_, c). taken data c) (decode_result_depth ok err data (depth + 1))
      | _ \<Rightarrow>
          (let n = (case fixed_size ty of Some n \<Rightarrow> n | None \<Rightarrow> 0)
           in if length data < n then None else Some (take n data, n)))"
| "decode_optional_depth inner data depth =
     (if depth > 128 then None
      else case data of
        [] \<Rightarrow> None
      | t # r \<Rightarrow>
          if t = 0 then Some (None, 1)
          else if t = 1 then
            (case decode_value_depth inner r (depth + 1) of
               None \<Rightarrow> None
             | Some (value, c) \<Rightarrow> map_option (\<lambda>n. (Some value, n)) (usize_add c 1))
          else None)"
| "decode_result_depth ok_ty err_ty data depth =
     (if depth > 128 then None
      else case decode_result_tag data of
        None \<Rightarrow> None
      | Some (is_err, tag_consumed) \<Rightarrow>
          (case decode_value_depth (if is_err then err_ty else ok_ty) (drop tag_consumed data) (depth + 1) of
             None \<Rightarrow> None
           | Some (payload, c) \<Rightarrow>
               map_option (\<lambda>n. (if is_err then Err payload else Ok payload, n)) (usize_add tag_consumed c)))"
  by pat_completeness auto
termination
  by (relation "measure (\<lambda>x. case x of Inl (ty, _, _) \<Rightarrow> 2 * size ty
        | Inr (Inl (inner, _, _)) \<Rightarrow> 2 * size inner + 1
        | Inr (Inr (ok_ty, err_ty, _, _)) \<Rightarrow> 2 * (size ok_ty + size err_ty) + 1)") auto

declare decode_value_depth.simps [simp del] decode_optional_depth.simps [simp del]
  decode_result_depth.simps [simp del]

definition decode_value :: "WireType \<Rightarrow> u8 list \<Rightarrow> (u8 list \<times> nat) option" where
  "decode_value ty data = decode_value_depth ty data 0"

definition decode_optional :: "WireType \<Rightarrow> u8 list \<Rightarrow> (u8 list option \<times> nat) option" where
  "decode_optional inner data = decode_optional_depth inner data 0"

definition decode_result :: "WireType \<Rightarrow> WireType \<Rightarrow> u8 list \<Rightarrow> ((u8 list + u8 list) \<times> nat) option" where
  "decode_result ok_ty err_ty data = decode_result_depth ok_ty err_ty data 0"

section \<open>Schemas\<close>

record WireField =
  wf_name :: string
  wf_ty :: WireType
  wf_index :: u32
  wf_optional :: bool

record WireSchema =
  ws_name :: string
  ws_version :: u32
  ws_fields :: "WireField list"

datatype WireSchemaError = DuplicateIndex u32 | DuplicateName string | NonContiguousIndex u32 u32

fun schema_duplicates :: "u32 set \<Rightarrow> string set \<Rightarrow> WireField list \<Rightarrow> WireSchemaError list" where
  "schema_duplicates seen_indices seen_names [] = []"
| "schema_duplicates seen_indices seen_names (f # fs) =
     (if wf_index f \<in> seen_indices then [DuplicateIndex (wf_index f)] else [])
     @ (if wf_name f \<in> seen_names then [DuplicateName (wf_name f)] else [])
     @ schema_duplicates (insert (wf_index f) seen_indices) (insert (wf_name f) seen_names) fs"

fun schema_gap :: "nat \<Rightarrow> u32 list \<Rightarrow> WireSchemaError list" where
  "schema_gap pos [] = []"
| "schema_gap pos (index # is) =
     (let expected = (if pos < 2 ^ 32 then word_of_nat pos else - 1)
      in if index \<noteq> expected then [NonContiguousIndex expected index] else schema_gap (pos + 1) is)"

definition schema_validate :: "WireSchema \<Rightarrow> WireSchemaError list" where
  "schema_validate s =
     (let errors = schema_duplicates {} {} (ws_fields s)
      in if errors = [] then schema_gap 0 (sort (map wf_index (ws_fields s))) else errors)"

end
