(* ===== verification/Mimi_WireLaws.thy ===== *)
theory Mimi_WireLaws
  imports Mimi_Wire
begin

text \<open>
  The laws of the wire format: the envelope parser is the inverse of the writer, the primitive
  codecs are inverse up to the width of the type, every composite decoder finds the exact end of
  its value, the handle test is exact below its depth bound and conservative above it, and the
  schema validator accepts exactly the schemas whose indices are dense.
\<close>

section \<open>Envelopes\<close>

lemmas le_roundtrip [simp] =
  from_to_le [where 'a = 32 and n = 4, simplified] from_to_le [where 'a = 64 and n = 8, simplified]
  from_to_le [where 'a = 8 and n = 1, simplified] from_to_le [where 'a = 16 and n = 2, simplified]

lemmas le_back =
  to_from_le [where 'a = 32 and n = 4, simplified] to_from_le [where 'a = 64 and n = 8, simplified]
  to_from_le [where 'a = 8 and n = 1, simplified] to_from_le [where 'a = 16 and n = 2, simplified]

lemma validate_Ok:
  "envelope_validate e = Ok u \<longleftrightarrow>
     we_magic e = MAGIC \<and> drop_bit 16 (we_version e) = drop_bit 16 WIRE_VERSION \<and>
     we_payload_len e = word_of_nat (length (we_payload e))"
  by (auto simp: envelope_validate_def)

lemma take_drop_split: "take 4 d @ take 4 (drop 4 d) @ take 8 (drop 8 d) @ drop 16 d = d"
proof -
  have "take 4 (drop 4 d) @ take 8 (drop 8 d) @ drop 16 d = drop 4 d"
    by (metis append_take_drop_id drop_drop numeral_Bit0 add_numeral_left)
  then show ?thesis by simp
qed

lemma envelope_read:
  assumes len: "length data < 2 ^ 63" and ok: "envelope_from_bytes data = Ok e"
  shows "data = envelope_to_bytes e \<and> envelope_validate e = Ok ()"
proof -
  let ?pl = "from_le (take 8 (drop 8 data)) :: u64"
  have n: "16 \<le> length data" using ok by (auto simp: envelope_from_bytes_def split: if_splits)
  obtain tot where tot: "usize_add 16 (unat ?pl) = Some tot"
    using ok n by (auto simp: envelope_from_bytes_def Let_def split: option.splits)
  have eq: "length data = tot"
  proof (rule ccontr)
    assume "length data \<noteq> tot"
    then have "\<exists>x. envelope_from_bytes data = Err x"
      using n tot unfolding envelope_from_bytes_def Let_def by (cases "length data < tot") simp_all
    then show False using ok by auto
  qed
  have "tot = 16 + unat ?pl" using tot unfolding usize_add_Some by blast
  then have pl: "unat ?pl = length data - 16" using eq by linarith
  define E where "E = \<lparr>we_magic = from_le (take 4 data), we_version = from_le (take 4 (drop 4 data)),
      we_payload_len = ?pl, we_payload = drop 16 data\<rparr>"
  have "envelope_from_bytes data = (case envelope_validate E of Err x \<Rightarrow> Err x | Ok _ \<Rightarrow> Ok E)"
    using n tot eq unfolding envelope_from_bytes_def Let_def E_def by (simp cong: sum.case_cong)
  then have e: "e = E" "envelope_validate e = Ok ()" using ok by (auto split: sum.splits)
  have "envelope_to_bytes e = data"
    using n take_drop_split [of data] by (simp add: e(1) E_def envelope_to_bytes_def le_back)
  then show ?thesis using e(2) by simp
qed

lemma envelope_write:
  assumes len: "length (envelope_to_bytes e) < 2 ^ 63" and ok: "envelope_validate e = Ok ()"
  shows "envelope_from_bytes (envelope_to_bytes e) = Ok e"
proof -
  let ?p = "length (we_payload e)"
  have p: "?p < 2 ^ 63" using len by (simp add: envelope_to_bytes_def)
  then have "unat (we_payload_len e) = ?p"
    using ok by (simp add: validate_Ok unsigned_of_nat take_bit_nat_eq_self)
  moreover have eta: "\<lparr>we_magic = we_magic e, we_version = we_version e, we_payload_len = we_payload_len e,
      we_payload = we_payload e\<rparr> = e"
    by simp
  ultimately show ?thesis
    using ok p by (simp add: eta envelope_from_bytes_def envelope_to_bytes_def usize_add_def Let_def)
qed

text \<open>
  C22: the envelope parser accepts a buffer exactly when it is the serialization of a valid
  envelope, and then returns that envelope, so a buffer that the parser accepts is the one serialization
  of what it returns, and every valid envelope shorter than \<open>2^63\<close> bytes (the limit of a Rust slice) is
  read back. The format has no checksum: a buffer in which a payload byte was changed is the
  serialization of another valid envelope and is accepted as that.
\<close>

theorem envelope_parse_exact:
  assumes "length data < 2 ^ 63"
  shows "envelope_from_bytes data = Ok e \<longleftrightarrow> data = envelope_to_bytes e \<and> envelope_validate e = Ok ()"
  using envelope_read [OF assms] envelope_write [of e] assms by blast

theorem envelope_parse_exact_witness:
  "envelope_from_bytes (envelope_to_bytes (envelope_new [7])) = Ok (envelope_new [7])"
proof -
  have "length (envelope_to_bytes (envelope_new [7])) < 2 ^ 63" "envelope_validate (envelope_new [7]) = Ok ()"
    by (simp_all add: envelope_to_bytes_def envelope_new_def validate_Ok)
  then show ?thesis using envelope_parse_exact by blast
qed

section \<open>Primitives\<close>

text \<open>The value a type's width keeps: truncation followed by sign or zero extension.\<close>

fun canonical :: "WireType \<Rightarrow> u64 \<Rightarrow> u64" where
  "canonical WBool v = (if v \<noteq> 0 then 1 else 0)"
| "canonical WI8 v = scast (ucast v :: u8)"
| "canonical WI16 v = scast (ucast v :: u16)"
| "canonical WI32 v = scast (ucast v :: u32)"
| "canonical WU8 v = ucast (ucast v :: u8)"
| "canonical WU16 v = ucast (ucast v :: u16)"
| "canonical WU32 v = ucast (ucast v :: u32)"
| "canonical WF32 v = ucast (ucast v :: u32)"
| "canonical WUnit v = 0"
| "canonical _ v = v"

lemma cast_back [simp]:
  "ucast (scast (x :: u8) :: u64) = x" "ucast (scast (y :: u16) :: u64) = y" "ucast (scast (z :: u32) :: u64) = z"
  "ucast (ucast (x :: u8) :: u64) = x" "ucast (ucast (y :: u16) :: u64) = y" "ucast (ucast (z :: u32) :: u64) = z"
  by (rule bit_word_eqI; auto simp: bit_simps)+

text \<open>
  A primitive is encoded exactly when its type has a fixed size, into that many bytes;
  decoding them gives the value at the type's width, sign or zero extended, and encoding that
  value again gives the same bytes.
\<close>

theorem primitive_roundtrip:
  "case encode_primitive ty v of
     None \<Rightarrow> fixed_size ty = None \<and> decode_primitive ty bs = None
   | Some b \<Rightarrow> fixed_size ty = Some (length b) \<and> decode_primitive ty b = Some (canonical ty v) \<and>
       encode_primitive ty (canonical ty v) = Some b"
  by (cases ty) (simp_all add: bytes_array_def)

section \<open>The language of a type\<close>

text \<open>
  The encodings of a type at a nesting depth, without the decoder: fixed-size values are any
  bytes of that size, variable ones a 32-bit length or count and their parts. The elements, keys
  and values of a collection are not empty, and the depth bound of the decoder is part of the
  language.
\<close>

definition counted :: "nat \<Rightarrow> u8 list" where
  "counted n = to_le 4 (word_of_nat n :: u32)"

primrec encodes_at :: "WireType \<Rightarrow> nat \<Rightarrow> u8 list \<Rightarrow> bool" where
  "encodes_at WBool d b = (d \<le> 128 \<and> length b = 1)"
| "encodes_at WI8 d b = (d \<le> 128 \<and> length b = 1)"
| "encodes_at WI16 d b = (d \<le> 128 \<and> length b = 2)"
| "encodes_at WI32 d b = (d \<le> 128 \<and> length b = 4)"
| "encodes_at WI64 d b = (d \<le> 128 \<and> length b = 8)"
| "encodes_at WU8 d b = (d \<le> 128 \<and> length b = 1)"
| "encodes_at WU16 d b = (d \<le> 128 \<and> length b = 2)"
| "encodes_at WU32 d b = (d \<le> 128 \<and> length b = 4)"
| "encodes_at WU64 d b = (d \<le> 128 \<and> length b = 8)"
| "encodes_at WF32 d b = (d \<le> 128 \<and> length b = 4)"
| "encodes_at WF64 d b = (d \<le> 128 \<and> length b = 8)"
| "encodes_at WHandle d b = (d \<le> 128 \<and> length b = 8)"
| "encodes_at WUnit d b = (d \<le> 128 \<and> b = [])"
| "encodes_at WString d b = (d \<le> 128 \<and> (\<exists>s. utf8_valid s \<and> length s < 2 ^ 32 \<and> b = counted (length s) @ s))"
| "encodes_at WBytes d b = (d \<le> 128 \<and> (\<exists>s. length s < 2 ^ 32 \<and> b = counted (length s) @ s))"
| "encodes_at (WArray e) d b =
     (d \<le> 128 \<and> (\<exists>bs. length bs < 2 ^ 32 \<and> b = counted (length bs) @ concat bs \<and>
        (\<forall>x \<in> set bs. x \<noteq> [] \<and> encodes_at e (d + 1) x)))"
| "encodes_at (WMap k v) d b =
     (d \<le> 128 \<and> (\<exists>bs. length bs < 2 ^ 32 \<and> b = counted (length bs) @ concat (map (\<lambda>(x, y). x @ y) bs) \<and>
        (\<forall>(x, y) \<in> set bs. x \<noteq> [] \<and> encodes_at k (d + 1) x \<and> y \<noteq> [] \<and> encodes_at v (d + 1) y)))"
| "encodes_at (WOptional t) d b = (d < 128 \<and> (b = [0] \<or> (\<exists>x. b = 1 # x \<and> encodes_at t (d + 2) x)))"
| "encodes_at (WResult t e) d b =
     (d < 128 \<and> ((\<exists>x. b = 0 # x \<and> encodes_at t (d + 2) x) \<or> (\<exists>x. b = 1 # x \<and> encodes_at e (d + 2) x)))"

lemma length_counted [simp]: "length (counted n) = 4"
  by (simp add: counted_def)

lemma from_counted [simp]: "n < 2 ^ 32 \<Longrightarrow> unat (from_le (counted n) :: u32) = n"
  by (simp add: counted_def unsigned_of_nat take_bit_nat_eq_self)

lemma counted_from: "length h = 4 \<Longrightarrow> counted (unat (from_le h :: u32)) = h"
  by (simp add: counted_def le_back)

text \<open>Counted sequences of self-delimiting elements.\<close>

context delimited
begin

lemma elems_sound:
  "decode_elems dec data k c = Some c' \<Longrightarrow> c \<le> length data \<Longrightarrow>
     \<exists>bs. length bs = k \<and> (\<forall>x \<in> set bs. x \<noteq> [] \<and> lang x) \<and> c' \<le> length data \<and>
       take c' data = take c data @ concat bs"
proof (induction k arbitrary: c)
  case (Suc k)
  obtain b n where b: "dec (drop c data) = Some (b, n)" "n \<noteq> 0"
    and rest: "decode_elems dec data k (c + n) = Some c'"
    using Suc.prems by (auto simp: usize_add_Some split: option.splits if_splits)
  have n: "n \<le> length data - c" and b_eq: "b = take n (drop c data)" and "lang b"
    using dec_sound [OF b(1)] by auto
  have in_data: "c + n \<le> length data" using n Suc.prems(2) by linarith
  obtain bs where bs: "length bs = k" "\<forall>x \<in> set bs. x \<noteq> [] \<and> lang x" "c' \<le> length data"
    "take c' data = take (c + n) data @ concat bs"
    using Suc.IH [OF rest] in_data by auto
  have "b \<noteq> []" using b(2) n b_eq Suc.prems(2) by auto
  then have "length (b # bs) = Suc k \<and> (\<forall>x \<in> set (b # bs). x \<noteq> [] \<and> lang x) \<and> c' \<le> length data \<and>
      take c' data = take c data @ concat (b # bs)"
    using bs \<open>lang b\<close> b_eq by (simp add: take_add)
  then show ?case by blast
qed auto

lemma elems_complete:
  assumes "length data < 2 ^ 63" and "\<forall>x \<in> set bs. x \<noteq> [] \<and> lang x" and "data = pre @ concat bs @ rest"
  shows "decode_elems dec data (length bs) (length pre) = Some (length pre + length (concat bs))"
  using assms(2,3)
proof (induction bs arbitrary: pre)
  case (Cons b bs)
  have "length (b @ concat bs @ rest) < 2 ^ 63" using assms(1) Cons.prems(2) by simp
  then have "dec (drop (length pre) data) = Some (b, length b)"
    using dec_complete [of b "concat bs @ rest"] Cons.prems by simp
  moreover have "length pre + length b < 2 ^ 64" using assms(1) Cons.prems(2) by simp
  ultimately show ?case
    using Cons.IH [of "pre @ b"] Cons.prems by (simp add: usize_add_def)
qed simp

end

text \<open>Two self-delimiting decoders in turn, as the map loop runs them.\<close>

locale delimited_pair = key: delimited langk deck + val: delimited langv decv
  for langk :: "u8 list \<Rightarrow> bool" and deck :: "u8 list \<Rightarrow> (u8 list \<times> nat) option"
    and langv :: "u8 list \<Rightarrow> bool" and decv :: "u8 list \<Rightarrow> (u8 list \<times> nat) option"
begin

abbreviation pair_ok :: "u8 list \<times> u8 list \<Rightarrow> bool" where
  "pair_ok \<equiv> (\<lambda>(x, y). x \<noteq> [] \<and> langk x \<and> y \<noteq> [] \<and> langv y)"

abbreviation flat :: "(u8 list \<times> u8 list) list \<Rightarrow> u8 list" where
  "flat bs \<equiv> concat (map (\<lambda>(x, y). x @ y) bs)"

lemma pairs_sound:
  "decode_pairs deck decv data k c = Some c' \<Longrightarrow> c \<le> length data \<Longrightarrow>
     \<exists>bs. length bs = k \<and> (\<forall>p \<in> set bs. pair_ok p) \<and> c' \<le> length data \<and> take c' data = take c data @ flat bs"
proof (induction k arbitrary: c)
  case (Suc k)
  obtain b n where b: "deck (drop c data) = Some (b, n)" "n \<noteq> 0"
    and more: "\<exists>e m. decv (drop (c + n) data) = Some (e, m) \<and> m \<noteq> 0 \<and> decode_pairs deck decv data k (c + n + m) = Some c'"
    using Suc.prems by (auto simp: usize_add_Some split: option.splits if_splits)
  obtain e m where e: "decv (drop (c + n) data) = Some (e, m)" "m \<noteq> 0"
    and rest: "decode_pairs deck decv data k (c + n + m) = Some c'"
    using more by blast
  have n: "n \<le> length data - c" "b = take n (drop c data)" "langk b" using key.dec_sound [OF b(1)] by auto
  have m: "m \<le> length data - (c + n)" "e = take m (drop (c + n) data)" "langv e" using val.dec_sound [OF e(1)] by auto
  have in_data: "c + n + m \<le> length data" using n(1) m(1) Suc.prems(2) e(2) by linarith
  obtain bs where bs: "length bs = k" "\<forall>p \<in> set bs. pair_ok p" "c' \<le> length data"
    "take c' data = take (c + n + m) data @ flat bs"
    using Suc.IH [OF rest in_data] by auto
  have "b \<noteq> []" "e \<noteq> []" using b(2) e(2) n m in_data by auto
  then have "length ((b, e) # bs) = Suc k \<and> (\<forall>p \<in> set ((b, e) # bs). pair_ok p) \<and> c' \<le> length data \<and>
      take c' data = take c data @ flat ((b, e) # bs)"
    using bs n m by (simp add: take_add)
  then show ?case by blast
qed auto

lemma pairs_complete:
  assumes "length data < 2 ^ 63" and "\<forall>p \<in> set bs. pair_ok p" and "data = pre @ flat bs @ rest"
  shows "decode_pairs deck decv data (length bs) (length pre) = Some (length pre + length (flat bs))"
  using assms(2,3)
proof (induction bs arbitrary: pre)
  case (Cons p bs)
  obtain b e where p: "p = (b, e)" by (cases p)
  have bound: "length pre + length b + length e + length (flat bs @ rest) < 2 ^ 63"
    using assms(1) Cons.prems(2) by (simp add: p)
  have k: "deck (drop (length pre) data) = Some (b, length b)"
    using key.dec_complete [of b "e @ flat bs @ rest"] Cons.prems bound by (simp add: p)
  have v: "decv (drop (length pre + length b) data) = Some (e, length e)"
    using val.dec_complete [of e "flat bs @ rest"] Cons.prems bound by (simp add: p)
  have "decode_pairs deck decv data (length bs) (length (pre @ b @ e)) = Some (length (pre @ b @ e) + length (flat bs))"
    using Cons.IH [of "pre @ b @ e"] Cons.prems by (simp add: p)
  then show ?case
    using k v Cons.prems bound by (simp add: p usize_add_def add.assoc)
qed simp

end

section \<open>The decoder against the language\<close>

lemma decode_header:
  "decode_array_header data = Some (count, c) \<longleftrightarrow>
     4 \<le> length data \<and> count = from_le (take 4 data) \<and> c = 4"
  by (auto simp: decode_array_header_def)

lemma take_counted:
  assumes "4 \<le> length data"
  shows "take 4 data = counted (unat (from_le (take 4 data) :: u32))"
  using assms by (simp add: counted_from)

lemma bytes_iff:
  "decode_bytes data = Some (s, n) \<longleftrightarrow>
     length s < 2 ^ 32 \<and> n = 4 + length s \<and> n \<le> length data \<and> take n data = counted (length s) @ s"
proof (cases "length data < 4")
  case True
  then show ?thesis by (simp add: decode_bytes_def)
next
  case False
  let ?len = "unat (from_le (take 4 data) :: u32)"
  have small: "?len < 2 ^ 32" using unsigned_less [of "from_le (take 4 data) :: u32"] by simp
  have eq: "decode_bytes data =
      (if length data < 4 + ?len then None else Some (take ?len (drop 4 data), 4 + ?len))"
    using False small by (simp add: decode_bytes_def usize_add_def Let_def)
  show ?thesis
  proof
    assume "decode_bytes data = Some (s, n)"
    then have s: "4 + ?len \<le> length data" "s = take ?len (drop 4 data)" "n = 4 + ?len"
      unfolding eq by (auto split: if_splits)
    then have "length s = ?len" by simp
    moreover have "take n data = take 4 data @ s" unfolding s(2,3) by (simp add: take_add)
    ultimately show "length s < 2 ^ 32 \<and> n = 4 + length s \<and> n \<le> length data \<and> take n data = counted (length s) @ s"
      using small s False take_counted [of data] by simp
  next
    assume r: "length s < 2 ^ 32 \<and> n = 4 + length s \<and> n \<le> length data \<and> take n data = counted (length s) @ s"
    then have "take 4 data @ take (length s) (drop 4 data) = counted (length s) @ s" by (metis take_add)
    moreover have "length (take 4 data) = length (counted (length s))" using r by simp
    ultimately have four: "take 4 data = counted (length s)" and "take (length s) (drop 4 data) = s"
      using append_eq_append_conv by blast+
    note this(2)
    moreover have "?len = length s" unfolding four using r by simp
    ultimately show "decode_bytes data = Some (s, n)" unfolding eq using r by simp
  qed
qed

lemma string_iff:
  "decode_string data = Some (s, n) \<longleftrightarrow> decode_bytes data = Some (s, n) \<and> utf8_valid s"
  by (auto simp: decode_string_def decode_bytes_def Let_def split: option.splits)

lemma taken_iff [simp]: "taken data c = (b, n) \<longleftrightarrow> b = take c data \<and> n = c"
  by (auto simp: taken_def)

lemma counted_take:
  assumes "4 \<le> length data" and "length xs = unat (from_le (take 4 data) :: u32)"
  shows "take 4 data = counted (length xs)" and "length xs < 2 ^ 32"
  using assms counted_from [of "take 4 data"] unsigned_less [of "from_le (take 4 data) :: u32"] by simp_all

lemma delimited_array:
  assumes d: "d \<le> 128" and elem: "delimited (encodes_at e (d + 1)) (\<lambda>data. decode_value_depth e data (d + 1))"
  shows "delimited (encodes_at (WArray e) d) (\<lambda>data. decode_value_depth (WArray e) data d)"
proof
  fix data b n
  assume "decode_value_depth (WArray e) data d = Some (b, n)"
  then obtain c where c: "4 \<le> length data" "n = c" "b = take c data"
      "decode_elems (\<lambda>data. decode_value_depth e data (d + 1)) data (unat (from_le (take 4 data) :: u32)) 4 = Some c"
    using d by (subst (asm) decode_value_depth.simps)
      (auto simp: decode_header split: option.splits)
  from delimited.elems_sound [OF elem c(4) c(1)] obtain bs where
    bs: "length bs = unat (from_le (take 4 data) :: u32)" "\<forall>x \<in> set bs. x \<noteq> [] \<and> encodes_at e (d + 1) x"
      "c \<le> length data" "take c data = take 4 data @ concat bs"
    by auto
  then show "n \<le> length data \<and> b = take n data \<and> encodes_at (WArray e) d b"
    using c d counted_take [OF c(1) bs(1)] by auto
next
  fix b rest :: "u8 list"
  assume lang: "encodes_at (WArray e) d b" and len: "length (b @ rest) < 2 ^ 63"
  then obtain bs where bs: "length bs < 2 ^ 32" "b = counted (length bs) @ concat bs"
      "\<forall>x \<in> set bs. x \<noteq> [] \<and> encodes_at e (d + 1) x"
    by auto
  then have "decode_elems (\<lambda>data. decode_value_depth e data (d + 1)) (b @ rest) (length bs) 4 = Some (length b)"
    using delimited.elems_complete [OF elem len, of bs "counted (length bs)" rest] by simp
  moreover have "take 4 (b @ rest) = counted (length bs)" "4 \<le> length (b @ rest)" using bs(2) by simp_all
  ultimately show "decode_value_depth (WArray e) (b @ rest) d = Some (b, length b)"
    using d bs(1) by (subst decode_value_depth.simps) (simp add: decode_array_header_def)
qed

lemma delimited_map:
  assumes d: "d \<le> 128" and key: "delimited (encodes_at k (d + 1)) (\<lambda>data. decode_value_depth k data (d + 1))"
    and val: "delimited (encodes_at v (d + 1)) (\<lambda>data. decode_value_depth v data (d + 1))"
  shows "delimited (encodes_at (WMap k v) d) (\<lambda>data. decode_value_depth (WMap k v) data d)"
proof
  let ?loop = "decode_pairs (\<lambda>data. decode_value_depth k data (d + 1)) (\<lambda>data. decode_value_depth v data (d + 1))"
  note pair = delimited_pair.intro [OF key val]
  fix data b n
  assume "decode_value_depth (WMap k v) data d = Some (b, n)"
  then obtain c where c: "4 \<le> length data" "n = c" "b = take c data"
      "?loop data (unat (from_le (take 4 data) :: u32)) 4 = Some c"
    using d by (subst (asm) decode_value_depth.simps)
      (auto simp: decode_header decode_map_header_def split: option.splits)
  from delimited_pair.pairs_sound [OF pair c(4) c(1)] obtain bs where
    bs: "length bs = unat (from_le (take 4 data) :: u32)"
      "\<forall>(x, y) \<in> set bs. x \<noteq> [] \<and> encodes_at k (d + 1) x \<and> y \<noteq> [] \<and> encodes_at v (d + 1) y"
      "c \<le> length data" "take c data = take 4 data @ concat (map (\<lambda>(x, y). x @ y) bs)"
    by auto
  then show "n \<le> length data \<and> b = take n data \<and> encodes_at (WMap k v) d b"
    using c d counted_take [OF c(1) bs(1)] by auto
next
  let ?loop = "decode_pairs (\<lambda>data. decode_value_depth k data (d + 1)) (\<lambda>data. decode_value_depth v data (d + 1))"
  note pair = delimited_pair.intro [OF key val]
  fix b rest :: "u8 list"
  assume lang: "encodes_at (WMap k v) d b" and len: "length (b @ rest) < 2 ^ 63"
  then obtain bs where bs: "length bs < 2 ^ 32" "b = counted (length bs) @ concat (map (\<lambda>(x, y). x @ y) bs)"
      "\<forall>(x, y) \<in> set bs. x \<noteq> [] \<and> encodes_at k (d + 1) x \<and> y \<noteq> [] \<and> encodes_at v (d + 1) y"
    by auto
  then have "?loop (b @ rest) (length bs) 4 = Some (length b)"
    using delimited_pair.pairs_complete [OF pair len, of bs "counted (length bs)" rest] by simp
  moreover have "take 4 (b @ rest) = counted (length bs)" "4 \<le> length (b @ rest)" using bs(2) by simp_all
  ultimately show "decode_value_depth (WMap k v) (b @ rest) d = Some (b, length b)"
    using d bs(1) by (subst decode_value_depth.simps) (simp add: decode_array_header_def decode_map_header_def)
qed

lemma delimited_optional:
  assumes d: "d < 128" and inner: "delimited (encodes_at t (d + 2)) (\<lambda>data. decode_value_depth t data (d + 2))"
  shows "delimited (encodes_at (WOptional t) d) (\<lambda>data. decode_value_depth (WOptional t) data d)"
proof
  fix data b n
  assume "decode_value_depth (WOptional t) data d = Some (b, n)"
  then obtain v where v: "decode_optional_depth t data (d + 1) = Some (v, n)" "b = take n data"
    using d by (subst (asm) decode_value_depth.simps) (auto split: option.splits)
  then obtain tag r where data: "data = tag # r"
    using d by (cases data) (auto simp: decode_optional_depth.simps)
  consider "tag = 0" "n = 1"
    | x m where "tag = 1" "decode_value_depth t r (d + 2) = Some (x, m)" "n = Suc m"
    using v(1) d by (auto simp: data decode_optional_depth.simps usize_add_Some split: option.splits if_splits)
  then show "n \<le> length data \<and> b = take n data \<and> encodes_at (WOptional t) d b"
  proof cases
    case 2
    then show ?thesis using delimited.dec_sound [OF inner 2(2)] v(2) d by (auto simp: data)
  qed (use v(2) d in \<open>simp add: data\<close>)
next
  fix b rest :: "u8 list"
  assume lang: "encodes_at (WOptional t) d b" and len: "length (b @ rest) < 2 ^ 63"
  then consider "b = [0]" | x where "b = 1 # x" "encodes_at t (d + 2) x" by auto
  then show "decode_value_depth (WOptional t) (b @ rest) d = Some (b, length b)"
  proof cases
    case 1
    then show ?thesis using d by (simp add: decode_value_depth.simps [of "WOptional t"] decode_optional_depth.simps)
  next
    case 2
    then have "decode_value_depth t (x @ rest) (d + 2) = Some (x, length x)"
      using delimited.dec_complete [OF inner, of x rest] len by simp
    then show ?thesis
      using d len 2 by (simp add: decode_value_depth.simps [of "WOptional t"] decode_optional_depth.simps usize_add_def)
  qed
qed

lemma delimited_result:
  assumes d: "d < 128" and ok: "delimited (encodes_at t (d + 2)) (\<lambda>data. decode_value_depth t data (d + 2))"
    and err: "delimited (encodes_at e (d + 2)) (\<lambda>data. decode_value_depth e data (d + 2))"
  shows "delimited (encodes_at (WResult t e) d) (\<lambda>data. decode_value_depth (WResult t e) data d)"
proof
  fix data b n
  assume "decode_value_depth (WResult t e) data d = Some (b, n)"
  then obtain v where v: "decode_result_depth t e data (d + 1) = Some (v, n)" "b = take n data"
    using d by (subst (asm) decode_value_depth.simps) (auto split: option.splits)
  then obtain tag r where data: "data = tag # r"
    using d by (cases data) (auto simp: decode_result_depth.simps decode_result_tag_def)
  consider x m where "tag = 0" "decode_value_depth t r (d + 2) = Some (x, m)" "n = Suc m"
    | x m where "tag = 1" "decode_value_depth e r (d + 2) = Some (x, m)" "n = Suc m"
    using v(1) d
    by (auto simp: data decode_result_depth.simps decode_result_tag_def usize_add_Some split: option.splits if_splits)
  then show "n \<le> length data \<and> b = take n data \<and> encodes_at (WResult t e) d b"
  proof cases
    case 1
    then show ?thesis using delimited.dec_sound [OF ok 1(2)] v(2) d by (auto simp: data)
  next
    case 2
    then show ?thesis using delimited.dec_sound [OF err 2(2)] v(2) d by (auto simp: data)
  qed
next
  fix b rest :: "u8 list"
  assume lang: "encodes_at (WResult t e) d b" and len: "length (b @ rest) < 2 ^ 63"
  then consider x where "b = 0 # x" "encodes_at t (d + 2) x" | x where "b = 1 # x" "encodes_at e (d + 2) x" by auto
  then show "decode_value_depth (WResult t e) (b @ rest) d = Some (b, length b)"
  proof cases
    case 1
    then have "decode_value_depth t (x @ rest) (d + 2) = Some (x, length x)"
      using delimited.dec_complete [OF ok, of x rest] len by simp
    then show ?thesis
      using d len 1 by (simp add: decode_value_depth.simps [of "WResult t e"] decode_result_depth.simps
          decode_result_tag_def usize_add_def)
  next
    case 2
    then have "decode_value_depth e (x @ rest) (d + 2) = Some (x, length x)"
      using delimited.dec_complete [OF err, of x rest] len by simp
    then show ?thesis
      using d len 2 by (simp add: decode_value_depth.simps [of "WResult t e"] decode_result_depth.simps
          decode_result_tag_def usize_add_def)
  qed
qed

text \<open>The types whose decoding needs no recursion.\<close>

lemma fixed_views:
  assumes "fixed_size ty = Some k"
  shows "decode_value_depth ty data d = (if 128 < d \<or> length data < k then None else Some (take k data, k))"
    and "encodes_at ty d b \<longleftrightarrow> d \<le> 128 \<and> length b = k"
proof -
  show "decode_value_depth ty data d = (if 128 < d \<or> length data < k then None else Some (take k data, k))"
    using assms by (subst decode_value_depth.simps) (cases ty; simp)
  show "encodes_at ty d b \<longleftrightarrow> d \<le> 128 \<and> length b = k"
    using assms by (cases ty; simp)
qed

lemma delimited_fixed:
  assumes "fixed_size ty = Some k"
  shows "delimited (encodes_at ty d) (\<lambda>data. decode_value_depth ty data d)"
  by unfold_locales (auto simp: fixed_views [OF assms] split: if_splits)

lemma delimited_blob:
  assumes ty: "ty = WString \<or> ty = WBytes"
  shows "delimited (encodes_at ty d) (\<lambda>data. decode_value_depth ty data d)"
proof
  fix data b n
  assume "decode_value_depth ty data d = Some (b, n)"
  then obtain s where "d \<le> 128" "b = take n data" "decode_bytes data = Some (s, n)" "ty = WString \<longrightarrow> utf8_valid s"
    using ty by (subst (asm) decode_value_depth.simps) (auto simp: string_iff split: if_splits)
  then show "n \<le> length data \<and> b = take n data \<and> encodes_at ty d b"
    using ty by (auto simp: bytes_iff)
next
  fix b rest :: "u8 list"
  assume "encodes_at ty d b"
  then obtain s where s: "d \<le> 128" "length s < 2 ^ 32" "b = counted (length s) @ s" "ty = WString \<longrightarrow> utf8_valid s"
    using ty by auto
  then have "decode_bytes (b @ rest) = Some (s, length b)" by (simp add: bytes_iff)
  then show "decode_value_depth ty (b @ rest) d = Some (b, length b)"
    using ty s by (subst decode_value_depth.simps) (auto simp: string_iff)
qed

lemma delimited_deep: "128 < d \<Longrightarrow> delimited (encodes_at ty d) (\<lambda>data. decode_value_depth ty data d)"
  by unfold_locales (cases ty; simp add: decode_value_depth.simps)+

lemma decode_delimited: "delimited (encodes_at ty d) (\<lambda>data. decode_value_depth ty data d)"
proof (induction ty arbitrary: d)
  case (WArray ty)
  then show ?case using delimited_array [of d ty] delimited_deep [of d] by (cases "d \<le> 128") (simp_all del: encodes_at.simps)
next
  case (WMap k v)
  then show ?case using delimited_map [of d k v] delimited_deep [of d] by (cases "d \<le> 128") (simp_all del: encodes_at.simps)
next
  case (WOptional ty)
  show ?case
  proof (cases "d < 128")
    case True
    then show ?thesis using WOptional.IH by (intro delimited_optional) auto
  next
    case False
    then show ?thesis
      by (cases "d = 128"; unfold_locales)
        (simp_all add: decode_value_depth.simps [of "WOptional ty"] decode_optional_depth.simps)
  qed
next
  case (WResult t e)
  show ?case
  proof (cases "d < 128")
    case True
    then show ?thesis using WResult.IH by (intro delimited_result) auto
  next
    case False
    then show ?thesis
      by (cases "d = 128"; unfold_locales)
        (simp_all add: decode_value_depth.simps [of "WResult t e"] decode_result_depth.simps)
  qed
qed (rule delimited_fixed, rule fixed_size.simps | rule delimited_blob, simp)+

interpretation wire: delimited "encodes_at ty d" "\<lambda>data. decode_value_depth ty data d" for ty d
  by (rule decode_delimited)

text \<open>
  C21: the decoder of a type finds exactly the encodings of the type that stand at the head of a
  buffer: it returns a value and a length exactly when the first bytes of that length are an
  encoding of the type, and it returns them, whatever follows. So a field that follows a
  variable-length value starts at its exact offset, and no encoding is a prefix of another.
\<close>

theorem decode_value_exact:
  assumes "length data < 2 ^ 63"
  shows "decode_value ty data = Some (b, n) \<longleftrightarrow> n \<le> length data \<and> b = take n data \<and> encodes_at ty 0 b"
  using wire.dec_iff [OF assms] unfolding decode_value_def .

theorem decode_value_exact_witness:
  "decode_value (WOptional WBytes) [1, 0, 0, 0, 0, 99] = Some ([1, 0, 0, 0, 0], 5)"
proof -
  have "counted 0 = [0, 0, 0, 0]" by (simp add: counted_def to_le_def upt_rec)
  then have "encodes_at (WOptional WBytes) 0 [1, 0, 0, 0, 0]" by (auto intro!: exI [of _ "[]"])
  then show ?thesis
    using decode_value_exact [of "[1, 0, 0, 0, 0, 99]" "WOptional WBytes" "[1, 0, 0, 0, 0]" 5] by simp
qed

section \<open>Handles in a type\<close>

primrec has_handle :: "WireType \<Rightarrow> bool" where
  "has_handle WHandle = True"
| "has_handle (WArray e) = has_handle e"
| "has_handle (WMap k v) = (has_handle k \<or> has_handle v)"
| "has_handle (WOptional t) = has_handle t"
| "has_handle (WResult t e) = (has_handle t \<or> has_handle e)"
| "has_handle WBool = False" | "has_handle WI8 = False" | "has_handle WI16 = False"
| "has_handle WI32 = False" | "has_handle WI64 = False" | "has_handle WU8 = False"
| "has_handle WU16 = False" | "has_handle WU32 = False" | "has_handle WU64 = False"
| "has_handle WF32 = False" | "has_handle WF64 = False" | "has_handle WString = False"
| "has_handle WBytes = False" | "has_handle WUnit = False"

fun nesting :: "WireType \<Rightarrow> nat" where
  "nesting (WArray e) = Suc (nesting e)"
| "nesting (WMap k v) = Suc (max (nesting k) (nesting v))"
| "nesting (WOptional t) = Suc (nesting t)"
| "nesting (WResult t e) = Suc (max (nesting t) (nesting e))"
| "nesting _ = 0"

lemma handle_found: "has_handle ty \<Longrightarrow> contains_handle_depth ty d"
  by (induction ty arbitrary: d) (auto simp: contains_handle_depth.simps)

lemma handle_exact: "d + nesting ty \<le> 128 \<Longrightarrow> contains_handle_depth ty d \<Longrightarrow> has_handle ty"
  by (induction ty arbitrary: d) (force simp: contains_handle_depth.simps)+

text \<open>
  the handle test never misses a handle, at any nesting, and is exact for types nested at
  most 128 deep.
\<close>

theorem contains_handle_conservative:
  "(has_handle ty \<longrightarrow> contains_handle ty) \<and> (nesting ty \<le> 128 \<longrightarrow> contains_handle ty = has_handle ty)"
  using handle_found handle_exact [of 0] by (auto simp: contains_handle_def)

theorem contains_handle_conservative_witness: "contains_handle (WArray (WOptional WHandle))"
  using contains_handle_conservative [of "WArray (WOptional WHandle)"] by simp

section \<open>Schemas\<close>

lemma no_duplicates:
  "schema_duplicates I N fs = [] \<longleftrightarrow>
     distinct (map wf_index fs) \<and> distinct (map wf_name fs) \<and>
     set (map wf_index fs) \<inter> I = {} \<and> set (map wf_name fs) \<inter> N = {}"
  by (induction fs arbitrary: I N) (auto simp: result_simps)

lemma no_gap: "schema_gap pos is = [] \<longleftrightarrow> (\<forall>j < length is. is ! j = (if pos + j < 2 ^ 32 then word_of_nat (pos + j) else - 1))"
  by (induction "is" arbitrary: pos) (auto simp: Let_def less_Suc_eq_0_disj)

lemma dense_indices:
  fixes xs :: "u32 list"
  assumes "distinct xs"
  shows "schema_gap 0 (sort xs) = [] \<longleftrightarrow> unat ` set xs = {..<length xs}"
proof -
  let ?ys = "map unat (sort xs)"
  have inj: "inj_on unat (A :: u32 set)" for A by (auto simp: inj_on_def word_unat_eq_iff)
  have ys: "sorted ?ys" "distinct ?ys" "set ?ys = unat ` set xs" "length ?ys = length xs"
    using assms inj by (auto simp: sorted_wrt_map word_le_nat_alt distinct_map intro: sorted_wrt_mono_rel [OF _ sorted_sort])
  have small: "length xs \<le> 2 ^ 32"
  proof -
    have "card (set xs) \<le> card (UNIV :: u32 set)" by (rule card_mono) simp_all
    then show ?thesis using assms by (simp add: distinct_card card_word)
  qed
  have "schema_gap 0 (sort xs) = [] \<longleftrightarrow> (\<forall>j < length xs. sort xs ! j = word_of_nat j)"
    using small by (auto simp: no_gap)
  also have "\<dots> \<longleftrightarrow> (\<forall>j < length xs. ?ys ! j = j)"
  proof (intro all_cong)
    fix j
    assume "j < length xs"
    then have "unat (word_of_nat j :: u32) = j" using small by (simp add: unsigned_of_nat take_bit_nat_eq_self)
    then have "sort xs ! j = word_of_nat j \<longleftrightarrow> unat (sort xs ! j) = j" by (metis word_unat_eq_iff)
    then show "sort xs ! j = word_of_nat j \<longleftrightarrow> ?ys ! j = j" using \<open>j < length xs\<close> by simp
  qed
  also have "\<dots> \<longleftrightarrow> ?ys = [0..<length xs]" unfolding list_eq_iff_nth_eq [of ?ys] by simp
  also have "\<dots> \<longleftrightarrow> set ?ys = {..<length xs}"
    using sorted_distinct_set_unique [OF ys(1,2), of "[0..<length xs]"]
    by (metis atLeast_upt distinct_upt sorted_upt)
  finally show ?thesis by (simp add: ys(3))
qed

text \<open>
  C23: the schema validator reports nothing exactly when the field names are distinct and the
  field indices are a permutation of 0 to the number of fields.
\<close>

theorem schema_validate_exact:
  "schema_validate s = [] \<longleftrightarrow>
     distinct (map wf_name (ws_fields s)) \<and> distinct (map wf_index (ws_fields s)) \<and>
     unat ` wf_index ` set (ws_fields s) = {..<length (ws_fields s)}"
  using dense_indices [of "map wf_index (ws_fields s)"]
  by (auto simp: schema_validate_def no_duplicates Let_def)

end
