(* ===== verification/Mimi_Epoch.thy ===== *)
theory Mimi_Epoch
  imports Mimi_Prelude
begin

text \<open>
  The epochs of escaped Flow values, \<open>src/runtime/epoch.rs\<close>: the slot table with its free list
  and the \<open>extern "C"\<close> operations on packed handles. The state is the table together with the
  error and the pack counters of the calling thread; every operation runs under the table's
  lock. The abstract view of a table is the map from packed handles to their epoch and payload,
  and every operation is an update of that map.
\<close>

section \<open>State\<close>

type_synonym i32 = "32 word"

definition EPOCH_INITIAL :: u64 where "EPOCH_INITIAL = 1"

definition EPOCH_OK :: i32 where "EPOCH_OK = 0"

datatype EpochError = EpInvalid | EpStale | EpBareRecord

fun epoch_code :: "EpochError \<Rightarrow> i32" where
  "epoch_code EpInvalid = 1"
| "epoch_code EpStale = 2"
| "epoch_code EpBareRecord = 3"

record FlowSlot =
  fl_epoch :: u64
  fl_payload :: i64
  fl_live :: bool

record FlowTable =
  ft_slots :: "FlowSlot list"
  ft_free :: "u32 list"
  ft_last_error :: i32
  ft_pack_count :: u64
  ft_pack_count_global :: u64

definition empty_slot :: FlowSlot where
  "empty_slot = \<lparr>fl_epoch = 0, fl_payload = 0, fl_live = False\<rparr>"

definition flow_new :: FlowTable where
  "flow_new = \<lparr>ft_slots = [empty_slot], ft_free = [], ft_last_error = EPOCH_OK,
     ft_pack_count = 0, ft_pack_count_global = 0\<rparr>"

definition set_epoch_error :: "EpochError \<Rightarrow> FlowTable \<Rightarrow> FlowTable" where
  "set_epoch_error e s = s\<lparr>ft_last_error := epoch_code e\<rparr>"

definition clear_epoch_error :: "FlowTable \<Rightarrow> FlowTable" where
  "clear_epoch_error s = s\<lparr>ft_last_error := EPOCH_OK\<rparr>"

definition bump_pack_count :: "FlowTable \<Rightarrow> FlowTable" where
  "bump_pack_count s = s\<lparr>ft_pack_count := saturating_add (ft_pack_count s) 1,
     ft_pack_count_global := ft_pack_count_global s + 1\<rparr>"

section \<open>Packed handles\<close>

definition flow_pack :: "u32 \<Rightarrow> u64 \<Rightarrow> i64" where
  "flow_pack index epoch =
     (let tag = ucast epoch :: u32 in push_bit 32 (ucast tag) OR ucast index)"

definition flow_unpack :: "i64 \<Rightarrow> EpochError + (u32 \<times> u32)" where
  "flow_unpack handle =
     (if handle = 0 then Err EpInvalid
      else
        let index = ucast handle :: u32; tag = ucast (signed_drop_bit 32 handle) :: u32
        in if index = 0 then Err EpInvalid else Ok (index, tag))"

definition flow_lookup :: "FlowTable \<Rightarrow> i64 \<Rightarrow> EpochError + (u32 \<times> FlowSlot)" where
  "flow_lookup s handle =
     (case flow_unpack handle of
        Err e \<Rightarrow> Err e
      | Ok (index, tag) \<Rightarrow>
          if \<not> unat index < length (ft_slots s) then Err EpInvalid
          else
            let slot = ft_slots s ! unat index
            in if \<not> fl_live slot then Err EpStale
               else if ucast (fl_epoch slot) \<noteq> tag then Err EpStale
               else Ok (index, slot))"

section \<open>Operations\<close>

definition set_slot :: "u32 \<Rightarrow> FlowSlot \<Rightarrow> FlowTable \<Rightarrow> FlowTable" where
  "set_slot index slot s = s\<lparr>ft_slots := (ft_slots s)[unat index := slot]\<rparr>"

text \<open>\<open>None\<close> is the panic of an index from the free list that is out of range.\<close>

definition mimi_flow_pack :: "i64 \<Rightarrow> FlowTable \<Rightarrow> (i64 \<times> FlowTable) option" where
  "mimi_flow_pack payload s0 =
     (let s = bump_pack_count (clear_epoch_error s0);
          (index, s1) =
            (case vec_pop (ft_free s) of
               Some (free, rest) \<Rightarrow> (free, s\<lparr>ft_free := rest\<rparr>)
             | None \<Rightarrow>
                 (word_of_nat (length (ft_slots s)) :: u32,
                  s\<lparr>ft_slots := vec_push (ft_slots s) empty_slot\<rparr>))
      in if unat index < length (ft_slots s1) then
           Some (flow_pack index EPOCH_INITIAL,
                 set_slot index \<lparr>fl_epoch = EPOCH_INITIAL, fl_payload = payload, fl_live = True\<rparr> s1)
         else None)"

definition mimi_flow_epoch :: "i64 \<Rightarrow> FlowTable \<Rightarrow> i64 \<times> FlowTable" where
  "mimi_flow_epoch handle s0 =
     (let s = clear_epoch_error s0 in
      case flow_lookup s handle of
        Ok (_, slot) \<Rightarrow> (fl_epoch slot, s)
      | Err e \<Rightarrow> (0, set_epoch_error e s))"

definition mimi_flow_check_epoch :: "i64 \<Rightarrow> i64 \<Rightarrow> FlowTable \<Rightarrow> i32 \<times> FlowTable" where
  "mimi_flow_check_epoch handle expected s0 =
     (let s = clear_epoch_error s0 in
      case flow_lookup s handle of
        Ok (_, slot) \<Rightarrow>
          if fl_epoch slot \<noteq> expected then (epoch_code EpStale, set_epoch_error EpStale s)
          else (EPOCH_OK, s)
      | Err e \<Rightarrow> (epoch_code e, set_epoch_error e s))"

definition mimi_flow_bump_epoch :: "i64 \<Rightarrow> FlowTable \<Rightarrow> i64 \<times> FlowTable" where
  "mimi_flow_bump_epoch handle s0 =
     (let s = clear_epoch_error s0 in
      case flow_lookup s handle of
        Ok (index, slot) \<Rightarrow>
          let slot' = slot\<lparr>fl_epoch := saturating_add (fl_epoch slot) 1\<rparr>
          in (flow_pack index (fl_epoch slot'), set_slot index slot' s)
      | Err e \<Rightarrow> (0, set_epoch_error e s))"

definition mimi_flow_unpack :: "i64 \<Rightarrow> FlowTable \<Rightarrow> i64 \<times> FlowTable" where
  "mimi_flow_unpack handle s0 =
     (let s = clear_epoch_error s0 in
      case flow_lookup s handle of
        Ok (_, slot) \<Rightarrow> (fl_payload slot, s)
      | Err e \<Rightarrow> (0, set_epoch_error e s))"

definition mimi_flow_drop :: "i64 \<Rightarrow> FlowTable \<Rightarrow> i32 \<times> FlowTable" where
  "mimi_flow_drop handle s0 =
     (let s = clear_epoch_error s0 in
      case flow_lookup s handle of
        Ok (index, slot) \<Rightarrow>
          let slot' = \<lparr>fl_epoch = saturating_add (fl_epoch slot) 1, fl_payload = 0, fl_live = False\<rparr>;
              s1 = set_slot index slot' s
          in (EPOCH_OK, s1\<lparr>ft_free := vec_push (ft_free s1) index\<rparr>)
      | Err e \<Rightarrow> (epoch_code e, set_epoch_error e s))"

definition mimi_flow_reject_bare_record :: "i64 \<Rightarrow> FlowTable \<Rightarrow> i32 \<times> FlowTable" where
  "mimi_flow_reject_bare_record raw s = (epoch_code EpBareRecord, set_epoch_error EpBareRecord s)"

section \<open>The table invariant\<close>

text \<open>
  Slot 0 is never used; a free slot is dead, in range and listed once, and every dead slot but
  the first is free. The table is smaller than the index space.
\<close>

definition flow_inv :: "FlowTable \<Rightarrow> bool" where
  "flow_inv s \<longleftrightarrow>
     ft_slots s \<noteq> [] \<and> \<not> fl_live (ft_slots s ! 0) \<and> length (ft_slots s) < 2 ^ 32 \<and>
     distinct (ft_free s) \<and>
     (\<forall>i. i \<in> set (ft_free s) \<longleftrightarrow> i \<noteq> 0 \<and> unat i < length (ft_slots s) \<and> \<not> fl_live (ft_slots s ! unat i))"

lemma pack_fields:
  "ucast (flow_pack i e) = i" "ucast (signed_drop_bit 32 (flow_pack i e)) = (ucast e :: u32)"
  unfolding flow_pack_def Let_def
  by (rule bit_word_eqI; auto simp: bit_simps dest: bit_imp_le_length)+

lemma pack_unique:
  assumes "ucast h = i" and "ucast (signed_drop_bit 32 h) = (ucast e :: u32)"
  shows "h = flow_pack i e"
proof (rule bit_word_eqI)
  fix k
  assume k: "k < LENGTH(64)"
  have low: "bit h k = bit i k" if "k < 32"
  proof -
    have "bit (ucast h :: u32) k = bit i k" by (simp only: assms(1))
    then show ?thesis using that by (simp add: bit_simps)
  qed
  have high: "bit h k = bit e (k - 32)" if "32 \<le> k"
  proof -
    have "bit (ucast (signed_drop_bit 32 h) :: u32) (k - 32) = bit (ucast e :: u32) (k - 32)" by (simp only: assms(2))
    moreover have "32 + (k - 32) = k" "\<not> 32 \<le> k - 32" using that k by simp_all
    ultimately show ?thesis using that k by (simp add: bit_simps)
  qed
  show "bit h k = bit (flow_pack i e) k"
    using low high k bit_imp_le_length [of i k] by (cases "k < 32") (auto simp: flow_pack_def Let_def bit_simps)
qed

lemma unpack_pack: "i \<noteq> 0 \<Longrightarrow> flow_unpack (flow_pack i e) = Ok (i, ucast e)"
  using pack_fields [of i e] by (auto simp: flow_unpack_def Let_def)

section \<open>The table as a map of live handles\<close>

definition flow_view :: "FlowTable \<Rightarrow> i64 \<Rightarrow> (u64 \<times> i64) option" where
  "flow_view s h = (case flow_lookup s h of Ok (_, slot) \<Rightarrow> Some (fl_epoch slot, fl_payload slot) | Err _ \<Rightarrow> None)"

text \<open>A slot of the table that a handle can name.\<close>

definition slot_at :: "FlowTable \<Rightarrow> u32 \<Rightarrow> FlowSlot option" where
  "slot_at s i =
     (if i \<noteq> 0 \<and> unat i < length (ft_slots s) \<and> fl_live (ft_slots s ! unat i) then Some (ft_slots s ! unat i) else None)"

lemma flow_unpack_Ok: "flow_unpack h = Ok (i, tag) \<longleftrightarrow> i \<noteq> 0 \<and> ucast h = i \<and> ucast (signed_drop_bit 32 h) = tag"
  by (auto simp: flow_unpack_def Let_def)

lemma lookup_Ok: "flow_lookup s h = Ok (i, slot) \<longleftrightarrow> slot_at s i = Some slot \<and> h = flow_pack i (fl_epoch slot)"
proof
  assume "flow_lookup s h = Ok (i, slot)"
  then show "slot_at s i = Some slot \<and> h = flow_pack i (fl_epoch slot)"
    by (auto simp: flow_lookup_def slot_at_def Let_def flow_unpack_Ok pack_unique split: sum.splits if_splits)
next
  assume r: "slot_at s i = Some slot \<and> h = flow_pack i (fl_epoch slot)"
  then have "i \<noteq> 0" by (auto simp: slot_at_def split: if_splits)
  then have "flow_unpack h = Ok (i, ucast (fl_epoch slot))" using r unpack_pack by simp
  then show "flow_lookup s h = Ok (i, slot)"
    using r by (auto simp: flow_lookup_def slot_at_def Let_def split: if_splits)
qed

lemma view_lookup:
  "flow_view s h = Some (e, p) \<longleftrightarrow>
     (\<exists>i slot. flow_lookup s h = Ok (i, slot) \<and> fl_epoch slot = e \<and> fl_payload slot = p)"
  by (auto simp: flow_view_def split: sum.splits)

lemma view_Some:
  "flow_view s h = Some (e, p) \<longleftrightarrow>
     (\<exists>i slot. slot_at s i = Some slot \<and> h = flow_pack i e \<and> fl_epoch slot = e \<and> fl_payload slot = p)"
  unfolding view_lookup lookup_Ok by blast

lemma view_None: "flow_view s h = None \<longleftrightarrow> (\<exists>e. flow_lookup s h = Err e)"
  by (auto simp: flow_view_def split: sum.splits)

lemma pack_inj: "flow_pack i e = flow_pack j d \<Longrightarrow> i = j \<and> (ucast e :: u32) = ucast d"
  using pack_fields [of i e] pack_fields [of j d] by metis

text \<open>Two tables that differ in one slot have views that differ in the handles of that slot.\<close>

lemma view_by_slots:
  assumes "\<And>j. j \<noteq> i \<Longrightarrow> slot_at s' j = slot_at s j" and "ucast h \<noteq> i"
  shows "flow_view s' h = flow_view s h"
proof -
  have "flow_lookup s' h = Ok (j, slot) \<longleftrightarrow> flow_lookup s h = Ok (j, slot)" for j slot
  proof (cases "j = i")
    case True
    then show ?thesis using assms(2) pack_fields(1) by (auto simp: lookup_Ok)
  qed (simp add: lookup_Ok assms(1))
  then have "flow_view s' h = Some x \<longleftrightarrow> flow_view s h = Some x" for x
    by (cases x) (simp add: view_lookup)
  then show ?thesis by (rule option_eqI)
qed

lemma view_slot:
  assumes "ucast h = i"
  shows "flow_view s h =
    (case slot_at s i of None \<Rightarrow> None
     | Some slot \<Rightarrow> if h = flow_pack i (fl_epoch slot) then Some (fl_epoch slot, fl_payload slot) else None)"
proof -
  let ?r = "case slot_at s i of None \<Rightarrow> None
     | Some slot \<Rightarrow> if h = flow_pack i (fl_epoch slot) then Some (fl_epoch slot, fl_payload slot) else None"
  have iff: "flow_view s h = Some (e, p) \<longleftrightarrow>
      (\<exists>slot. slot_at s i = Some slot \<and> h = flow_pack i e \<and> fl_epoch slot = e \<and> fl_payload slot = p)" for e p
    unfolding view_Some using assms pack_fields(1) by metis
  have "flow_view s h = Some x \<longleftrightarrow> ?r = Some x" for x
  proof (cases x)
    case (Pair e p)
    show ?thesis unfolding Pair iff by (cases "slot_at s i") auto
  qed
  then show ?thesis by (rule option_eqI)
qed

lemma view_dead: "slot_at s i = None \<Longrightarrow> ucast h = i \<Longrightarrow> flow_view s h = None"
  by (simp add: view_slot)

text \<open>The update of the view when one slot is set: the slot's old handle goes, the new one comes.\<close>

lemma view_update:
  assumes other: "\<And>j. j \<noteq> i \<Longrightarrow> slot_at s' j = slot_at s j"
    and here: "slot_at s' i = new"
    and old: "\<And>h. ucast h = i \<Longrightarrow> flow_view s h \<noteq> None \<Longrightarrow> h = h0"
    and h0: "ucast h0 = i"
  shows "flow_view s' =
    (case new of None \<Rightarrow> (flow_view s)(h0 := None)
     | Some slot \<Rightarrow> (flow_view s)(h0 := None, flow_pack i (fl_epoch slot) \<mapsto> (fl_epoch slot, fl_payload slot)))"
proof
  fix h
  show "flow_view s' h =
    (case new of None \<Rightarrow> (flow_view s)(h0 := None)
     | Some slot \<Rightarrow> (flow_view s)(h0 := None, flow_pack i (fl_epoch slot) \<mapsto> (fl_epoch slot, fl_payload slot))) h"
  proof (cases "ucast h = i")
    case True
    have "h \<noteq> h0 \<Longrightarrow> flow_view s h = None" using old [OF True] by blast
    then show ?thesis using True here by (auto simp: view_slot [OF True, of s'] split: option.splits)
  next
    case False
    moreover have "h \<noteq> h0" using False h0 by auto
    moreover have "h \<noteq> flow_pack i e" for e using False pack_fields(1) by auto
    ultimately show ?thesis using view_by_slots [OF other False] by (auto split: option.splits)
  qed
qed

section \<open>Every operation updates the map\<close>

datatype FlowOp = FPack i64 | FEpoch i64 | FCheck i64 i64 | FBump i64 | FUnpack i64 | FDrop i64

text \<open>The operations under one type of result; a status is its 32-bit code.\<close>

fun flow_op :: "FlowOp \<Rightarrow> FlowTable \<Rightarrow> (u64 \<times> FlowTable) option" where
  "flow_op (FPack p) s = mimi_flow_pack p s"
| "flow_op (FEpoch h) s = Some (mimi_flow_epoch h s)"
| "flow_op (FCheck h x) s = Some (map_prod ucast id (mimi_flow_check_epoch h x s))"
| "flow_op (FBump h) s = Some (mimi_flow_bump_epoch h s)"
| "flow_op (FUnpack h) s = Some (mimi_flow_unpack h s)"
| "flow_op (FDrop h) s = Some (map_prod ucast id (mimi_flow_drop h s))"

text \<open>The contract: what an operation returns and how it changes the map of live handles.\<close>

type_synonym flow_map = "i64 \<Rightarrow> (u64 \<times> i64) option"

fun flow_spec :: "FlowOp \<Rightarrow> u64 \<Rightarrow> flow_map \<Rightarrow> flow_map \<Rightarrow> bool" where
  "flow_spec (FPack p) r m m' = (r \<noteq> 0 \<and> m r = None \<and> m' = m(r \<mapsto> (1, p)))"
| "flow_spec (FEpoch h) r m m' = (m' = m \<and> r = (case m h of Some (e, _) \<Rightarrow> e | None \<Rightarrow> 0))"
| "flow_spec (FCheck h x) r m m' =
     (m' = m \<and> (case m h of Some (e, _) \<Rightarrow> r = (if e = x then 0 else 2) | None \<Rightarrow> r \<in> {1, 2}))"
| "flow_spec (FBump h) r m m' =
     (case m h of
        None \<Rightarrow> r = 0 \<and> m' = m
      | Some (e, p) \<Rightarrow> r \<noteq> h \<and> m r = None \<and> m' = m(h := None, r \<mapsto> (e + 1, p)))"
| "flow_spec (FUnpack h) r m m' = (m' = m \<and> r = (case m h of Some (_, p) \<Rightarrow> p | None \<Rightarrow> 0))"
| "flow_spec (FDrop h) r m m' =
     (case m h of None \<Rightarrow> r \<in> {1, 2} \<and> m' = m | Some _ \<Rightarrow> r = 0 \<and> m' = m(h := None))"

lemma error_fields [simp]:
  "ft_slots (clear_epoch_error s) = ft_slots s" "ft_free (clear_epoch_error s) = ft_free s"
  "ft_slots (set_epoch_error e s) = ft_slots s" "ft_free (set_epoch_error e s) = ft_free s"
  "ft_slots (bump_pack_count s) = ft_slots s" "ft_free (bump_pack_count s) = ft_free s"
  by (simp_all add: clear_epoch_error_def set_epoch_error_def bump_pack_count_def)

lemma same_table:
  assumes "ft_slots s' = ft_slots s"
  shows "flow_lookup s' h = flow_lookup s h" and "flow_view s' = flow_view s" and "slot_at s' = slot_at s"
proof -
  show "slot_at s' = slot_at s" by (intro ext) (simp only: slot_at_def assms)
  show lookup: "flow_lookup s' h = flow_lookup s h" for h by (simp only: flow_lookup_def assms)
  show "flow_view s' = flow_view s" by (intro ext) (simp only: flow_view_def lookup)
qed

lemmas error_views [simp] = same_table [of "clear_epoch_error s" s for s, simplified]
  same_table [of "set_epoch_error e s" s for e s, simplified] same_table [of "bump_pack_count s" s for s, simplified]

lemma flow_inv_same: "ft_slots s' = ft_slots s \<Longrightarrow> ft_free s' = ft_free s \<Longrightarrow> flow_inv s' = flow_inv s"
  by (simp add: flow_inv_def)

lemma lookup_errors: "flow_lookup s h = Err e \<Longrightarrow> e = EpInvalid \<or> e = EpStale"
  by (auto simp: flow_lookup_def flow_unpack_def Let_def split: if_splits sum.splits)

lemma reads_refine:
  "flow_spec (FEpoch h) (fst (mimi_flow_epoch h s)) (flow_view s) (flow_view (snd (mimi_flow_epoch h s)))"
  "flow_spec (FUnpack h) (fst (mimi_flow_unpack h s)) (flow_view s) (flow_view (snd (mimi_flow_unpack h s)))"
  "flow_spec (FCheck h x) (ucast (fst (mimi_flow_check_epoch h x s))) (flow_view s) (flow_view (snd (mimi_flow_check_epoch h x s)))"
  by (cases "flow_lookup s h";
      force simp: mimi_flow_epoch_def mimi_flow_unpack_def mimi_flow_check_epoch_def flow_view_def Let_def EPOCH_OK_def
        dest: lookup_errors)+

text \<open>Setting the slot of a live handle.\<close>

lemma nth_set_word: "(xs[unat i := y]) ! unat j = (if i = j \<and> unat i < length xs then y else xs ! unat j)"
  by (metis list_update_beyond not_le nth_list_update_eq nth_list_update_neq word_unat_eq_iff)

lemma slot_set:
  assumes "i \<noteq> 0" and "unat i < length (ft_slots s)"
  shows "slot_at (set_slot i slot s) j =
    (if j = i then (if fl_live slot then Some slot else None) else slot_at s j)"
  using assms by (auto simp: slot_at_def set_slot_def nth_set_word)

lemma live_view_unique: "slot_at s i = Some slot \<Longrightarrow> ucast h = i \<Longrightarrow> flow_view s h \<noteq> None \<Longrightarrow> h = flow_pack i (fl_epoch slot)"
  by (simp add: view_slot split: if_splits)

lemma inv_kill:
  assumes inv: "flow_inv s" and i: "slot_at s i = Some old" and dead: "\<not> fl_live slot"
  shows "flow_inv ((set_slot i slot s)\<lparr>ft_free := vec_push (ft_free s) i\<rparr>)"
proof -
  have i': "i \<noteq> 0" "unat i < length (ft_slots s)" "fl_live (ft_slots s ! unat i)"
    using i by (auto simp: slot_at_def split: if_splits)
  then have "i \<notin> set (ft_free s)" "unat i \<noteq> 0"
    using inv by (auto simp: flow_inv_def unat_eq_0)
  then have "\<not> fl_live ((ft_slots s)[unat i := slot] ! 0)" using inv by (simp add: flow_inv_def)
  moreover have "j \<in> insert i (set (ft_free s)) \<longleftrightarrow>
      j \<noteq> 0 \<and> unat j < length (ft_slots s) \<and> \<not> fl_live ((ft_slots s)[unat i := slot] ! unat j)" for j
    using inv i' dead by (cases "i = j") (simp_all add: flow_inv_def nth_set_word)
  ultimately show ?thesis
    using inv \<open>i \<notin> set (ft_free s)\<close> by (simp add: flow_inv_def set_slot_def vec_simps)
qed

lemma inv_keep:
  assumes inv: "flow_inv s" and i: "slot_at s i = Some old" and live: "fl_live slot"
  shows "flow_inv (set_slot i slot s)"
proof -
  have i': "i \<noteq> 0" "unat i < length (ft_slots s)" "fl_live (ft_slots s ! unat i)"
    using i by (auto simp: slot_at_def split: if_splits)
  then have "unat i \<noteq> 0" by (simp add: unat_eq_0)
  then have "\<not> fl_live ((ft_slots s)[unat i := slot] ! 0)" using inv by (simp add: flow_inv_def)
  moreover have "j \<in> set (ft_free s) \<longleftrightarrow> j \<noteq> 0 \<and> unat j < length (ft_slots s) \<and> \<not> fl_live ((ft_slots s)[unat i := slot] ! unat j)" for j
    using inv i' live by (cases "i = j") (simp_all add: flow_inv_def nth_set_word)
  ultimately show ?thesis
    using inv by (simp add: flow_inv_def set_slot_def)
qed

lemma saturating_add_max: "saturating_add (e :: u64) 1 = (if e = - 1 then - 1 else e + 1)"
proof -
  have "unat e < 2 ^ 64" using unsigned_less [of e] by simp
  moreover have "e = - 1 \<longleftrightarrow> unat e = 2 ^ 64 - 1" by (simp add: word_unat_eq_iff unsigned_minus_1_eq_mask mask_eq_exp_minus_1)
  ultimately show ?thesis by (auto simp: saturating_add_def)
qed

lemma ucast_add_one: "(ucast (e + 1 :: u64) :: u32) = ucast e + 1"
  by (rule word_unat_eq_iff [THEN iffD2]) (simp add: unat_word_ariths unsigned_ucast_eq take_bit_eq_mod mod_simps mod_mod_cancel)

lemma drop_refines:
  assumes inv: "flow_inv s"
  shows "flow_inv (snd (mimi_flow_drop h s)) \<and>
    flow_spec (FDrop h) (ucast (fst (mimi_flow_drop h s))) (flow_view s) (flow_view (snd (mimi_flow_drop h s)))"
proof (cases "flow_lookup s h")
  case (Inl e)
  then have eq: "mimi_flow_drop h s = (epoch_code e, set_epoch_error e (clear_epoch_error s))"
      and "flow_view s h = None"
    by (simp_all add: mimi_flow_drop_def flow_view_def)
  moreover have "flow_inv (set_epoch_error e (clear_epoch_error s))" using inv by (simp add: flow_inv_def)
  moreover have "(ucast (epoch_code e) :: u64) \<in> {1, 2}" using lookup_errors [OF Inl] by auto
  ultimately show ?thesis by simp
next
  case (Inr r)
  obtain i old where r: "r = (i, old)" by (cases r)
  define slot where "slot = \<lparr>fl_epoch = saturating_add (fl_epoch old) 1, fl_payload = 0, fl_live = False\<rparr>"
  define s' where "s' = (set_slot i slot (clear_epoch_error s))\<lparr>ft_free := vec_push (ft_free s) i\<rparr>"
  have eq: "mimi_flow_drop h s = (EPOCH_OK, s')"
    using Inr by (simp add: mimi_flow_drop_def r s'_def slot_def set_slot_def)
  have at: "slot_at s i = Some old" and h: "h = flow_pack i (fl_epoch old)" using Inr by (auto simp: r lookup_Ok)
  then have i: "i \<noteq> 0" "unat i < length (ft_slots s)" by (auto simp: slot_at_def split: if_splits)
  have "flow_inv (clear_epoch_error s)" using inv by (simp add: flow_inv_def)
  then have "flow_inv s'"
    using inv_kill [of "clear_epoch_error s" i old slot] at by (simp add: s'_def slot_def)
  moreover have slots: "slot_at s' j = (if j = i then None else slot_at s j)" for j
    using slot_set [of i "clear_epoch_error s" slot] i same_table(3) [of s' "set_slot i slot (clear_epoch_error s)"]
    by (simp add: s'_def slot_def)
  then have "flow_view s' = (flow_view s)(h := None)"
    using view_update [of i s' s None h] live_view_unique [OF at] h pack_fields(1) by simp
  moreover have "flow_view s h \<noteq> None" using Inr by (simp add: flow_view_def r)
  ultimately show ?thesis by (auto simp: eq EPOCH_OK_def)
qed

lemma bump_refines:
  assumes inv: "flow_inv s" and max: "\<And>e p. flow_view s h = Some (e, p) \<Longrightarrow> e \<noteq> - 1"
  shows "flow_inv (snd (mimi_flow_bump_epoch h s)) \<and>
    flow_spec (FBump h) (fst (mimi_flow_bump_epoch h s)) (flow_view s) (flow_view (snd (mimi_flow_bump_epoch h s)))"
proof (cases "flow_lookup s h")
  case (Inl e)
  then have eq: "mimi_flow_bump_epoch h s = (0, set_epoch_error e (clear_epoch_error s))"
      and "flow_view s h = None"
    by (simp_all add: mimi_flow_bump_epoch_def flow_view_def)
  moreover have "flow_inv (set_epoch_error e (clear_epoch_error s))" using inv by (simp add: flow_inv_def)
  ultimately show ?thesis by simp
next
  case (Inr r)
  obtain i old where r: "r = (i, old)" by (cases r)
  let ?e = "fl_epoch old + 1"
  have view: "flow_view s h = Some (fl_epoch old, fl_payload old)" using Inr by (simp add: flow_view_def r)
  then have "saturating_add (fl_epoch old) 1 = ?e" using max by (auto simp: saturating_add_max)
  define slot where "slot = old\<lparr>fl_epoch := ?e\<rparr>"
  define s' where "s' = set_slot i slot (clear_epoch_error s)"
  have eq: "mimi_flow_bump_epoch h s = (flow_pack i ?e, s')"
    using Inr \<open>saturating_add (fl_epoch old) 1 = ?e\<close> by (simp add: mimi_flow_bump_epoch_def r s'_def slot_def Let_def)
  have at: "slot_at s i = Some old" and h: "h = flow_pack i (fl_epoch old)" using Inr by (auto simp: r lookup_Ok)
  then have i: "i \<noteq> 0" "unat i < length (ft_slots s)" and live: "fl_live slot"
    by (auto simp: slot_at_def slot_def split: if_splits)
  have "flow_inv (clear_epoch_error s)" using inv by (simp add: flow_inv_def)
  then have "flow_inv s'"
    using inv_keep [of "clear_epoch_error s" i old slot] at live by (simp add: s'_def)
  moreover have slots: "slot_at s' j = (if j = i then Some slot else slot_at s j)" for j
    using slot_set [of i "clear_epoch_error s" slot] i live by (simp add: s'_def)
  then have "flow_view s' = (flow_view s)(h := None, flow_pack i ?e \<mapsto> (?e, fl_payload old))"
    using view_update [of i s' s "Some slot" h] live_view_unique [OF at] h pack_fields(1) by (simp add: slot_def)
  moreover have ne: "flow_pack i ?e \<noteq> h"
  proof
    assume "flow_pack i ?e = h"
    then have "(ucast ?e :: u32) = ucast (fl_epoch old)" unfolding h by (blast dest: pack_inj)
    moreover have "(ucast ?e :: u32) = ucast (fl_epoch old) + 1" by (rule ucast_add_one)
    ultimately show False by simp
  qed
  moreover have "flow_view s (flow_pack i ?e) = None"
    using live_view_unique [OF at, of "flow_pack i ?e"] ne pack_fields(1) h by blast
  ultimately show ?thesis using view by (simp add: eq)
qed

lemma pack_nonzero: "i \<noteq> 0 \<Longrightarrow> flow_pack i e \<noteq> 0"
  using pack_fields(1) [of i e] by (metis unsigned_0)

text \<open>Making a dead slot live publishes one new handle.\<close>

lemma publish_view:
  assumes i: "i \<noteq> 0" "unat i < length (ft_slots t)" and dead: "slot_at s i = None"
    and other: "\<And>j. j \<noteq> i \<Longrightarrow> slot_at t j = slot_at s j" and live: "fl_live slot"
  shows "flow_view s (flow_pack i (fl_epoch slot)) = None"
    and "flow_view (set_slot i slot t) = (flow_view s)(flow_pack i (fl_epoch slot) \<mapsto> (fl_epoch slot, fl_payload slot))"
proof -
  let ?h = "flow_pack i (fl_epoch slot)"
  have none: "\<And>h. ucast h = i \<Longrightarrow> flow_view s h = None" by (rule view_dead [OF dead])
  show view: "flow_view s ?h = None" by (rule none) (rule pack_fields)
  have "slot_at (set_slot i slot t) j = (if j = i then Some slot else slot_at s j)" for j
    using slot_set [OF i, of slot] other live by simp
  then show "flow_view (set_slot i slot t) = (flow_view s)(?h \<mapsto> (fl_epoch slot, fl_payload slot))"
    using view_update [of i "set_slot i slot t" s "Some slot" ?h] none pack_fields(1) by simp
qed

lemma inv_pop:
  assumes inv: "flow_inv s" and free: "ft_free s = rest @ [i]" and live: "fl_live slot"
  shows "i \<noteq> 0" "unat i < length (ft_slots s)" "slot_at s i = None" "flow_inv (set_slot i slot (s\<lparr>ft_free := rest\<rparr>))"
proof -
  have i: "i \<noteq> 0" "unat i < length (ft_slots s)" "\<not> fl_live (ft_slots s ! unat i)" "i \<notin> set rest"
    using inv free by (auto simp: flow_inv_def)
  then show "i \<noteq> 0" "unat i < length (ft_slots s)" "slot_at s i = None" by (simp_all add: slot_at_def)
  have "unat i \<noteq> 0" using i by (simp add: unat_eq_0)
  then have "\<not> fl_live ((ft_slots s)[unat i := slot] ! 0)" using inv by (simp add: flow_inv_def)
  moreover have "j \<in> set rest \<longleftrightarrow> j \<noteq> 0 \<and> unat j < length (ft_slots s) \<and> \<not> fl_live ((ft_slots s)[unat i := slot] ! unat j)" for j
  proof (cases "i = j")
    case False
    then have "j \<in> set rest \<longleftrightarrow> j \<in> set (ft_free s)" using free by simp
    then show ?thesis using inv False by (simp add: flow_inv_def nth_set_word)
  qed (use i live in \<open>simp add: nth_set_word\<close>)
  ultimately show "flow_inv (set_slot i slot (s\<lparr>ft_free := rest\<rparr>))"
    using inv free by (simp add: flow_inv_def set_slot_def)
qed

lemma inv_grow:
  assumes inv: "flow_inv s" and room: "length (ft_slots s) < 2 ^ 32 - 1" and none: "ft_free s = []" and live: "fl_live slot"
  defines "i \<equiv> word_of_nat (length (ft_slots s)) :: u32"
  shows "unat i = length (ft_slots s)" "i \<noteq> 0" "slot_at s i = None"
    and "flow_inv (set_slot i slot (s\<lparr>ft_slots := vec_push (ft_slots s) empty_slot\<rparr>))"
proof -
  show len: "unat i = length (ft_slots s)"
    using room by (simp add: i_def unsigned_of_nat take_bit_nat_eq_self)
  moreover have "ft_slots s \<noteq> []" using inv by (simp add: flow_inv_def)
  ultimately show i: "i \<noteq> 0" by (metis length_0_conv unat_0)
  show "slot_at s i = None" by (simp add: slot_at_def len)
  have "j = 0 \<or> \<not> unat j < length (ft_slots s) \<or> fl_live (ft_slots s ! unat j)" for j :: u32
  proof -
    have "j \<notin> set (ft_free s)" by (simp add: none)
    then show ?thesis using inv unfolding flow_inv_def by blast
  qed
  then have "j = 0 \<or> \<not> unat j < Suc (length (ft_slots s)) \<or> fl_live ((ft_slots s @ [slot]) ! unat j)" for j :: u32
    using live by (auto simp: nth_append less_Suc_eq)
  moreover have "(vec_push (ft_slots s) empty_slot)[unat i := slot] = ft_slots s @ [slot]"
    by (simp add: vec_push_def len list_update_append)
  ultimately show "flow_inv (set_slot i slot (s\<lparr>ft_slots := vec_push (ft_slots s) empty_slot\<rparr>))"
    using inv room none by (auto simp: flow_inv_def set_slot_def nth_append)
qed

lemma pack_refines:
  assumes inv: "flow_inv s" and room: "length (ft_slots s) < 2 ^ 32 - 1"
  shows "\<exists>h s'. mimi_flow_pack p s = Some (h, s') \<and> flow_inv s' \<and> flow_spec (FPack p) h (flow_view s) (flow_view s')"
proof -
  define t where "t = bump_pack_count (clear_epoch_error s)"
  define slot where "slot = \<lparr>fl_epoch = EPOCH_INITIAL, fl_payload = p, fl_live = True\<rparr>"
  have t: "ft_slots t = ft_slots s" "ft_free t = ft_free s" by (simp_all add: t_def)
  have inv_t: "flow_inv t" using inv t by (simp add: flow_inv_def)
  have room_t: "length (ft_slots t) < 2 ^ 32 - 1" using room t by simp
  have live: "fl_live slot" by (simp add: slot_def)
  obtain i t1 where pick: "(case vec_pop (ft_free t) of Some (free, rest) \<Rightarrow> (free, t\<lparr>ft_free := rest\<rparr>)
      | None \<Rightarrow> (word_of_nat (length (ft_slots t)), t\<lparr>ft_slots := vec_push (ft_slots t) empty_slot\<rparr>)) = (i, t1)"
    and i: "i \<noteq> 0" "unat i < length (ft_slots t1)" "slot_at t i = None" "flow_inv (set_slot i slot t1)"
    and other: "\<And>j. j \<noteq> i \<Longrightarrow> slot_at t1 j = slot_at t j"
  proof (cases "vec_pop (ft_free t)")
    case None
    let ?i = "word_of_nat (length (ft_slots t)) :: u32"
    let ?t1 = "t\<lparr>ft_slots := vec_push (ft_slots t) empty_slot\<rparr>"
    have none: "ft_free t = []" using None by (simp add: vec_simps)
    note g = inv_grow [OF inv_t room_t none live]
    have "slot_at ?t1 j = slot_at t j" if "j \<noteq> ?i" for j
    proof -
      have "unat j \<noteq> length (ft_slots t)" using that g(1) by (metis word_unat_eq_iff)
      then show ?thesis by (auto simp: slot_at_def vec_push_def nth_append)
    qed
    then show ?thesis using that [of ?i ?t1] None g by (simp add: vec_push_def)
  next
    case (Some r)
    obtain j rest where r: "r = (j, rest)" by (cases r)
    have "ft_free t = rest @ [j]" using Some by (simp add: r vec_simps)
    from inv_pop [OF inv_t this live] show ?thesis
      using that [of j "t\<lparr>ft_free := rest\<rparr>"] Some same_table(3) [of "t\<lparr>ft_free := rest\<rparr>" t] by (simp add: r)
  qed
  have "mimi_flow_pack p s = Some (flow_pack i EPOCH_INITIAL, set_slot i slot t1)"
    using pick i(2) unfolding mimi_flow_pack_def t_def [symmetric] Let_def slot_def by simp
  moreover have "flow_view t = flow_view s" by (rule same_table) (rule t)
  ultimately show ?thesis
    using publish_view [OF i(1,2,3) other live] i(4) pack_nonzero [OF i(1)] by (simp add: slot_def EPOCH_INITIAL_def)
qed

lemma flow_op_refines:
  assumes inv: "flow_inv s" and room: "length (ft_slots s) < 2 ^ 32 - 1"
    and max: "\<And>h e p. flow_view s h = Some (e, p) \<Longrightarrow> e \<noteq> - 1"
  shows "\<exists>r s'. flow_op op s = Some (r, s') \<and> flow_inv s' \<and> flow_spec op r (flow_view s) (flow_view s')"
proof (cases op)
  case (FPack p)
  then show ?thesis using pack_refines [OF inv room] by simp
next
  case (FBump h)
  have "e \<noteq> - 1" if "flow_view s h = Some (e, p)" for e p using that by (rule max)
  then show ?thesis using bump_refines [OF inv, of h] FBump by (metis flow_op.simps(4) prod.collapse)
next
  case (FDrop h)
  then show ?thesis using drop_refines [OF inv, of h] by (cases "mimi_flow_drop h s") simp
next
  case (FEpoch h)
  moreover have "flow_inv (snd (mimi_flow_epoch h s))"
    using inv by (auto simp: mimi_flow_epoch_def Let_def flow_inv_def split: sum.splits)
  ultimately show ?thesis using reads_refine(1) [of h s] by (metis flow_op.simps(2) prod.collapse)
next
  case (FUnpack h)
  moreover have "flow_inv (snd (mimi_flow_unpack h s))"
    using inv by (auto simp: mimi_flow_unpack_def Let_def flow_inv_def split: sum.splits)
  ultimately show ?thesis using reads_refine(2) [of h s] by (metis flow_op.simps(5) prod.collapse)
next
  case (FCheck h x)
  moreover have "flow_inv (snd (mimi_flow_check_epoch h x s))"
    using inv by (auto simp: mimi_flow_check_epoch_def Let_def flow_inv_def split: sum.splits)
  ultimately show ?thesis using reads_refine(3) [of h x s] by (cases "mimi_flow_check_epoch h x s") simp
qed

text \<open>
  C24: every operation on packed Flow values is an update of the map from live handles to epoch
  and payload, and keeps the table's invariant: pack adds a handle that was not live, with epoch
  1; a bump replaces the handle by a new one with the next epoch and the same payload, so the
  consumed epoch is no longer accepted; a drop removes the handle; every use of a handle that is
  not live fails and changes nothing. The bounds are a table below the index space and epochs
  below the saturation point.
\<close>

theorem flow_ops_refine_map:
  assumes "flow_inv s" and "length (ft_slots s) < 2 ^ 32 - 1"
    and "\<And>h e p. flow_view s h = Some (e, p) \<Longrightarrow> e \<noteq> - 1"
  shows "\<exists>r s'. flow_op op s = Some (r, s') \<and> flow_inv s' \<and> flow_spec op r (flow_view s) (flow_view s')"
  using assms by (rule flow_op_refines)

lemma flow_new_inv: "flow_inv flow_new"
  by (auto simp: flow_inv_def flow_new_def empty_slot_def unat_eq_0)

lemma flow_new_view: "flow_view flow_new h = None"
  by (rule view_dead [of _ "ucast h"]) (auto simp: slot_at_def flow_new_def empty_slot_def unat_eq_0)

theorem flow_ops_refine_map_witness:
  "\<exists>r s'. flow_op (FPack 7) flow_new = Some (r, s') \<and> flow_inv s' \<and>
     flow_spec (FPack 7) r (flow_view flow_new) (flow_view s')"
  by (rule flow_ops_refine_map) (simp_all add: flow_new_inv flow_new_view, simp add: flow_new_def)

text \<open>
  A handle survives its own drop. Packing after a drop reuses the slot and starts again at
  epoch 1, so a holder of the dropped handle reads the new owner's payload, and its check of
  epoch 1 succeeds, where the drop promises a stale error.
\<close>

theorem dropped_handle_revived:
  "\<exists>h s1 s2 s3. mimi_flow_pack p flow_new = Some (h, s1) \<and> mimi_flow_drop h s1 = (EPOCH_OK, s2) \<and>
     mimi_flow_pack q s2 = Some (h, s3) \<and> fst (mimi_flow_unpack h s3) = q \<and>
     fst (mimi_flow_check_epoch h 1 s3) = EPOCH_OK"
proof -
  let ?live = "\<lambda>x. \<lparr>fl_epoch = 1, fl_payload = x, fl_live = True\<rparr>"
  let ?tab = "\<lambda>slot fr n. \<lparr>ft_slots = [empty_slot, slot], ft_free = fr, ft_last_error = EPOCH_OK,
     ft_pack_count = n, ft_pack_count_global = n\<rparr>"
  let ?h = "flow_pack 1 1"
  have unp: "flow_unpack ?h = Ok (1, 1)" using unpack_pack [of 1 1] by simp
  have "mimi_flow_pack p flow_new = Some (?h, ?tab (?live p) [] 1)"
    by (simp add: mimi_flow_pack_def flow_new_def EPOCH_INITIAL_def bump_pack_count_def clear_epoch_error_def
        vec_pop_def vec_push_def set_slot_def saturating_add_def EPOCH_OK_def)
  moreover have "mimi_flow_drop ?h (?tab (?live p) [] 1) =
      (EPOCH_OK, ?tab \<lparr>fl_epoch = 2, fl_payload = 0, fl_live = False\<rparr> [1] 1)"
    by (simp add: mimi_flow_drop_def flow_lookup_def unp clear_epoch_error_def set_slot_def vec_push_def
        saturating_add_def EPOCH_OK_def)
  moreover have "mimi_flow_pack q (?tab \<lparr>fl_epoch = 2, fl_payload = 0, fl_live = False\<rparr> [1] 1) =
      Some (?h, ?tab (?live q) [] 2)"
    by (simp add: mimi_flow_pack_def EPOCH_INITIAL_def bump_pack_count_def clear_epoch_error_def
        vec_pop_def vec_push_def set_slot_def saturating_add_def EPOCH_OK_def)
  moreover have "fst (mimi_flow_unpack ?h (?tab (?live q) [] 2)) = q"
      "fst (mimi_flow_check_epoch ?h 1 (?tab (?live q) [] 2)) = EPOCH_OK"
    by (simp_all add: mimi_flow_unpack_def mimi_flow_check_epoch_def flow_lookup_def unp clear_epoch_error_def)
  ultimately show ?thesis by blast
qed

end
