(* ===== verification/Mimi_Abi.thy ===== *)
theory Mimi_Abi
  imports Mimi_Prelude
begin

text \<open>
  The Component IR: ABI types (\<open>src/component/types.rs\<close>), symbols (\<open>src/component/symbol.rs\<close>)
  and the IR with its consistency check (\<open>src/component/mod.rs\<close>). Identifiers are strings of
  8-bit characters; \<open>usize\<close> is 64 bits wide.
\<close>

section \<open>Types\<close>

datatype AbiPrimitive =
    PI8 | PI16 | PI32 | PI64 | PU8 | PU16 | PU32 | PU64 | PF32 | PF64 | PBool | PIntPtr | PUIntPtr

fun prim_c_name :: "AbiPrimitive \<Rightarrow> string" where
  "prim_c_name PI8 = ''int8_t''" | "prim_c_name PI16 = ''int16_t''" | "prim_c_name PI32 = ''int32_t''"
| "prim_c_name PI64 = ''int64_t''" | "prim_c_name PU8 = ''uint8_t''" | "prim_c_name PU16 = ''uint16_t''"
| "prim_c_name PU32 = ''uint32_t''" | "prim_c_name PU64 = ''uint64_t''" | "prim_c_name PF32 = ''float''"
| "prim_c_name PF64 = ''double''" | "prim_c_name PBool = ''bool''" | "prim_c_name PIntPtr = ''intptr_t''"
| "prim_c_name PUIntPtr = ''uintptr_t''"

fun prim_size_bytes :: "AbiPrimitive \<Rightarrow> u64" where
  "prim_size_bytes PI8 = 1" | "prim_size_bytes PU8 = 1" | "prim_size_bytes PBool = 1"
| "prim_size_bytes PI16 = 2" | "prim_size_bytes PU16 = 2"
| "prim_size_bytes PI32 = 4" | "prim_size_bytes PU32 = 4" | "prim_size_bytes PF32 = 4"
| "prim_size_bytes PI64 = 8" | "prim_size_bytes PU64 = 8" | "prim_size_bytes PF64 = 8"
| "prim_size_bytes PIntPtr = 8" | "prim_size_bytes PUIntPtr = 8"

fun prim_rust_name :: "AbiPrimitive \<Rightarrow> string" where
  "prim_rust_name PI8 = ''i8''" | "prim_rust_name PI16 = ''i16''" | "prim_rust_name PI32 = ''i32''"
| "prim_rust_name PI64 = ''i64''" | "prim_rust_name PU8 = ''u8''" | "prim_rust_name PU16 = ''u16''"
| "prim_rust_name PU32 = ''u32''" | "prim_rust_name PU64 = ''u64''" | "prim_rust_name PF32 = ''f32''"
| "prim_rust_name PF64 = ''f64''" | "prim_rust_name PBool = ''bool''" | "prim_rust_name PIntPtr = ''isize''"
| "prim_rust_name PUIntPtr = ''usize''"

definition from_mimi_type :: "string \<Rightarrow> AbiPrimitive option" where
  "from_mimi_type name =
     (if name = ''i8'' then Some PI8 else if name = ''i16'' then Some PI16
      else if name \<in> {''i32'', ''int''} then Some PI32 else if name = ''i64'' then Some PI64
      else if name = ''u8'' then Some PU8 else if name = ''u16'' then Some PU16
      else if name = ''u32'' then Some PU32 else if name = ''u64'' then Some PU64
      else if name \<in> {''f32'', ''float''} then Some PF32 else if name = ''f64'' then Some PF64
      else if name \<in> {''bool'', ''Bool''} then Some PBool else if name = ''isize'' then Some PIntPtr
      else if name = ''usize'' then Some PUIntPtr else None)"

datatype AbiTypeRef =
    RPrimitive AbiPrimitive
  | RNamed string
  | RPointer AbiTypeRef
  | RSlice AbiTypeRef
  | ROpaque string
  | RFatPointer AbiTypeRef bool
  | RVoid

section \<open>Names in generated code\<close>

definition is_ascii_digit :: "char \<Rightarrow> bool" where
  "is_ascii_digit c \<longleftrightarrow> CHR ''0'' \<le> c \<and> c \<le> CHR ''9''"

definition is_ascii_alphanumeric :: "char \<Rightarrow> bool" where
  "is_ascii_alphanumeric c \<longleftrightarrow>
     is_ascii_digit c \<or> (CHR ''a'' \<le> c \<and> c \<le> CHR ''z'') \<or> (CHR ''A'' \<le> c \<and> c \<le> CHR ''Z'')"

definition ident_char :: "char \<Rightarrow> char" where
  "ident_char c = (if is_ascii_alphanumeric c \<or> c = CHR ''_'' then c else CHR ''_'')"

definition safe_ident :: "string \<Rightarrow> string" where
  "safe_ident name =
     (let out = (case name of
          [] \<Rightarrow> []
        | c # cs \<Rightarrow> (if is_ascii_digit c then [CHR ''_'', c] else [ident_char c]) @ map ident_char cs)
      in if out = [] then ''_'' else out)"

text \<open>The header generator has its own rule for declared names, in \<open>c_header.rs\<close>, which avoids C keywords.\<close>

definition is_ascii_alphabetic :: "char \<Rightarrow> bool" where
  "is_ascii_alphabetic c \<longleftrightarrow> (CHR ''a'' \<le> c \<and> c \<le> CHR ''z'') \<or> (CHR ''A'' \<le> c \<and> c \<le> CHR ''Z'')"

definition is_valid_c_identifier :: "string \<Rightarrow> bool" where
  "is_valid_c_identifier name =
     (case name of
        [] \<Rightarrow> False
      | first # _ \<Rightarrow>
          if \<not> is_ascii_alphabetic first \<and> first \<noteq> CHR ''_'' then False
          else list_all (\<lambda>c. is_ascii_alphanumeric c \<or> c = CHR ''_'') name)"

definition C_KEYWORDS :: "string list" where
  "C_KEYWORDS =
     [''auto'', ''break'', ''case'', ''char'', ''const'', ''continue'', ''default'', ''do'', ''double'', ''else'',
      ''enum'', ''extern'', ''float'', ''for'', ''goto'', ''if'', ''inline'', ''int'', ''long'', ''register'',
      ''restrict'', ''return'', ''short'', ''signed'', ''sizeof'', ''static'', ''struct'', ''switch'', ''typedef'',
      ''union'', ''unsigned'', ''void'', ''volatile'', ''while'', ''_Alignas'', ''_Alignof'', ''_Atomic'', ''_Bool'',
      ''_Complex'', ''_Generic'', ''_Imaginary'', ''_Noreturn'', ''_Static_assert'', ''_Thread_local'']"

definition sanitize_c_identifier :: "string \<Rightarrow> string \<times> bool" where
  "sanitize_c_identifier name =
     (if is_valid_c_identifier name then
        (if name \<in> set C_KEYWORDS then (name @ ''_'', True) else (name, False))
      else
        let out = (case name of
              [] \<Rightarrow> []
            | c # cs \<Rightarrow> (if is_ascii_digit c then [CHR ''_'', c] else [ident_char c]) @ map ident_char cs)
        in (if out = [] then ''_'' else out, True))"

text \<open>\<open>str::replace\<close> of the closing comment mark: left to right, without overlaps.\<close>

fun replace_close :: "string \<Rightarrow> string" where
  "replace_close (a # b # cs) =
     (if a = CHR ''*'' \<and> b = CHR ''/'' then ''* /'' @ replace_close cs else a # replace_close (b # cs))"
| "replace_close cs = cs"

definition safe_comment :: "string \<Rightarrow> string" where
  "safe_comment s = map (\<lambda>c. if c = CHR 10 \<or> c = CHR 13 then CHR '' '' else c) (replace_close s)"

fun c_type_name_depth :: "AbiTypeRef \<Rightarrow> nat \<Rightarrow> string" where
  "c_type_name_depth ty depth =
     (if depth > 64 then ''void*/* depth limit */''
      else case ty of
        RPrimitive p \<Rightarrow> prim_c_name p
      | RNamed name \<Rightarrow> safe_ident name
      | RPointer inner \<Rightarrow> c_type_name_depth inner (depth + 1) @ ''*''
      | RSlice inner \<Rightarrow> ''MimiSlice/* '' @ safe_comment (c_type_name_depth inner (depth + 1)) @ '' */''
      | ROpaque name \<Rightarrow> ''MimiHandle/* '' @ safe_comment (safe_ident name) @ '' */''
      | RFatPointer element has_capacity \<Rightarrow>
          (if has_capacity then ''MimiString/* '' @ safe_comment (c_type_name_depth element (depth + 1)) @ '' */''
           else ''MimiSlice/* '' @ safe_comment (c_type_name_depth element (depth + 1)) @ '' */'')
      | RVoid \<Rightarrow> ''void'')"

declare c_type_name_depth.simps [simp del]

definition c_type_name :: "AbiTypeRef \<Rightarrow> string" where
  "c_type_name ty = c_type_name_depth ty 0"

fun rust_type_name_depth :: "AbiTypeRef \<Rightarrow> nat \<Rightarrow> string" where
  "rust_type_name_depth ty depth =
     (if depth > 64 then ''/* depth limit */''
      else case ty of
        RPrimitive p \<Rightarrow> prim_rust_name p
      | RNamed name \<Rightarrow> safe_ident name
      | RPointer inner \<Rightarrow> ''*mut '' @ rust_type_name_depth inner (depth + 1)
      | RSlice inner \<Rightarrow> ''&['' @ rust_type_name_depth inner (depth + 1) @ '']''
      | ROpaque name \<Rightarrow> safe_ident name @ ''Handle''
      | RFatPointer element has_capacity \<Rightarrow>
          (if has_capacity then ''MimiString''
           else ''MimiSlice<'' @ rust_type_name_depth element (depth + 1) @ ''>'')
      | RVoid \<Rightarrow> ''()'')"

declare rust_type_name_depth.simps [simp del]

definition rust_type_name :: "AbiTypeRef \<Rightarrow> string" where
  "rust_type_name ty = rust_type_name_depth ty 0"

section \<open>Type definitions\<close>

record AbiField =
  af_name :: string
  af_ty :: AbiTypeRef
  af_offset :: "u64 option"

record AbiStruct =
  as_name :: string
  as_fields :: "AbiField list"
  as_is_repr_c :: bool
  as_size :: "u64 option"
  as_align :: "u64 option"

record AbiEnum =
  ae_name :: string
  ae_variants :: "(string \<times> i64) list"
  ae_repr :: AbiPrimitive

record AbiAlias =
  aa_name :: string
  aa_target :: AbiTypeRef

record AbiOpaque =
  ao_name :: string
  ao_description :: string

datatype AbiTypeDef = DStruct AbiStruct | DEnum AbiEnum | DAlias AbiAlias | DOpaque AbiOpaque

fun typedef_name :: "AbiTypeDef \<Rightarrow> string" where
  "typedef_name (DStruct s) = as_name s"
| "typedef_name (DEnum e) = ae_name e"
| "typedef_name (DAlias a) = aa_name a"
| "typedef_name (DOpaque ob) = ao_name ob"

section \<open>Symbols\<close>

datatype AbiSymbolKind = SkFunction | SkExternFunction | SkMethod | SkConstructor | SkDestructor | SkCallback

datatype AbiCallbackCategory =
    SyncSameThread | SyncCrossThread | AsyncOneShot | AsyncMultiShot | AsyncSubscription

definition cb_is_sync :: "AbiCallbackCategory \<Rightarrow> bool" where
  "cb_is_sync c \<longleftrightarrow> c \<in> {SyncSameThread, SyncCrossThread}"

definition cb_is_one_shot :: "AbiCallbackCategory \<Rightarrow> bool" where
  "cb_is_one_shot c \<longleftrightarrow> c = AsyncOneShot"

definition cb_needs_cancellation :: "AbiCallbackCategory \<Rightarrow> bool" where
  "cb_needs_cancellation c \<longleftrightarrow> c = AsyncSubscription"

record AbiParam =
  ap_name :: string
  ap_ty :: AbiTypeRef
  ap_is_nullable :: bool

datatype AbiCallConv = CcC | CcSystemV | CcWin64 | CcFast | CcMimiInternal

fun llvm_name :: "AbiCallConv \<Rightarrow> string" where
  "llvm_name CcC = ''ccc''"
| "llvm_name CcSystemV = ''x86_64_sysvcc''"
| "llvm_name CcWin64 = ''win64cc''"
| "llvm_name CcFast = ''fastcc''"
| "llvm_name CcMimiInternal = ''mimi_internal''"

record AbiSymbol =
  sy_name :: string
  sy_kind :: AbiSymbolKind
  sy_params :: "AbiParam list"
  sy_ret :: AbiTypeRef
  sy_effects :: "string list"
  sy_is_unsafe :: bool
  sy_call_conv :: AbiCallConv
  sy_callback_category :: "AbiCallbackCategory option"

definition c_decl :: "AbiSymbol \<Rightarrow> string" where
  "c_decl s =
     (let params = (if sy_params s = [] then ''void''
                    else join_with '', '' (map (\<lambda>p. c_type_name (ap_ty p) @ '' '' @ ap_name p) (sy_params s)))
      in c_type_name (sy_ret s) @ '' '' @ sy_name s @ ''('' @ params @ '')'')"

definition is_runtime_export :: "AbiSymbol \<Rightarrow> bool" where
  "is_runtime_export s \<longleftrightarrow> take 5 (sy_name s) = ''mimi_''"

section \<open>The IR\<close>

record ComponentIdentity =
  ci_name :: string
  ci_version :: string
  ci_abi_version :: u32

record ComponentIr =
  ir_identity :: ComponentIdentity
  ir_exports :: "AbiSymbol list"
  ir_imports :: "AbiSymbol list"
  ir_types :: "AbiTypeDef list"

definition ir_export :: "ComponentIr \<Rightarrow> string \<Rightarrow> AbiSymbol option" where
  "ir_export ir name = find (\<lambda>s. sy_name s = name) (ir_exports ir)"

definition ir_import :: "ComponentIr \<Rightarrow> string \<Rightarrow> AbiSymbol option" where
  "ir_import ir name = find (\<lambda>s. sy_name s = name) (ir_imports ir)"

definition ir_type_def :: "ComponentIr \<Rightarrow> string \<Rightarrow> AbiTypeDef option" where
  "ir_type_def ir name = find (\<lambda>t. typedef_name t = name) (ir_types ir)"

definition all_symbol_names :: "ComponentIr \<Rightarrow> string list" where
  "all_symbol_names ir = remdups_adj (sort (map sy_name (ir_exports ir @ ir_imports ir)))"

datatype ComponentIrError =
    DuplicateExport string
  | DuplicateImport string
  | ExportImportConflict string
  | DuplicateType string
  | UnresolvedTypeRef string string
  | UnsupportedTypeRef string string

fun check_type_refs :: "AbiTypeRef \<Rightarrow> string set \<Rightarrow> string \<Rightarrow> ComponentIrError list" where
  "check_type_refs (RNamed name) known ctx = (if name \<notin> known then [UnresolvedTypeRef name ctx] else [])"
| "check_type_refs (ROpaque name) known ctx = (if name \<notin> known then [UnresolvedTypeRef name ctx] else [])"
| "check_type_refs (RPointer inner) known ctx = check_type_refs inner known ctx"
| "check_type_refs (RSlice inner) known ctx = UnsupportedTypeRef ''Slice'' ctx # check_type_refs inner known ctx"
| "check_type_refs (RFatPointer element _) known ctx =
     UnsupportedTypeRef ''FatPointer'' ctx # check_type_refs element known ctx"
| "check_type_refs _ known ctx = []"

text \<open>The loops that insert names into a set and report the ones already there.\<close>

fun duplicate_names :: "(string \<Rightarrow> ComponentIrError) \<Rightarrow> string set \<Rightarrow> string list \<Rightarrow> ComponentIrError list" where
  "duplicate_names err seen [] = []"
| "duplicate_names err seen (n # ns) =
     (if n \<in> seen then [err n] else []) @ duplicate_names err (insert n seen) ns"

definition symbol_refs :: "AbiSymbol \<Rightarrow> AbiTypeRef list" where
  "symbol_refs s = sy_ret s # map ap_ty (sy_params s)"

text \<open>\<open>order\<close> is the iteration order of the \<open>HashSet\<close> of the export names.\<close>

definition ir_validate :: "(string list \<Rightarrow> string list) \<Rightarrow> ComponentIr \<Rightarrow> ComponentIrError list" where
  "ir_validate order ir =
     (let exports = map sy_name (ir_exports ir); imports = map sy_name (ir_imports ir);
          types = map typedef_name (ir_types ir)
      in duplicate_names DuplicateExport {} exports
         @ duplicate_names DuplicateImport {} imports
         @ map ExportImportConflict (filter (\<lambda>n. n \<in> set imports) (order (remdups exports)))
         @ duplicate_names DuplicateType {} types
         @ concat (map (\<lambda>s. concat (map (\<lambda>t. check_type_refs t (set types) (sy_name s)) (symbol_refs s)))
             (ir_exports ir @ ir_imports ir)))"

section \<open>Generated C type names\<close>

text \<open>
  Whether a C text ends inside a comment, when it starts outside (or inside) one, and what is left of
  it without the comments.
\<close>

fun in_comment :: "bool \<Rightarrow> string \<Rightarrow> bool" where
  "in_comment inside (a # b # cs) =
     (if inside then (if a = CHR ''*'' \<and> b = CHR ''/'' then in_comment False cs else in_comment True (b # cs))
      else (if a = CHR ''/'' \<and> b = CHR ''*'' then in_comment True cs else in_comment False (b # cs)))"
| "in_comment inside cs = inside"

fun code_text :: "bool \<Rightarrow> string \<Rightarrow> string" where
  "code_text inside (a # b # cs) =
     (if inside then (if a = CHR ''*'' \<and> b = CHR ''/'' then code_text False cs else code_text True (b # cs))
      else (if a = CHR ''/'' \<and> b = CHR ''*'' then code_text True cs else a # code_text False (b # cs)))"
| "code_text inside cs = (if inside then [] else cs)"

fun no_close :: "string \<Rightarrow> bool" where
  "no_close (a # b # cs) = (\<not> (a = CHR ''*'' \<and> b = CHR ''/'') \<and> no_close (b # cs))"
| "no_close cs = True"

text \<open>A text that leaves the reader of what follows where it was, and reads as \<open>w\<close>.\<close>

definition reads_as :: "string \<Rightarrow> string \<Rightarrow> bool" where
  "reads_as t w \<longleftrightarrow>
     (\<forall>rest. in_comment False (t @ rest) = in_comment False rest \<and> code_text False (t @ rest) = w @ code_text False rest)"

lemma outside_step:
  "c \<noteq> CHR ''/'' \<Longrightarrow> in_comment False (c # rest) = in_comment False rest \<and>
     code_text False (c # rest) = c # code_text False rest"
  by (cases rest) auto

lemma reads_plain: "CHR ''/'' \<notin> set t \<Longrightarrow> reads_as t t"
proof (induction t)
  case (Cons c t)
  then show ?case using outside_step [of c] by (auto simp: reads_as_def)
qed (simp add: reads_as_def)

lemma reads_append: "reads_as t w \<Longrightarrow> reads_as u v \<Longrightarrow> reads_as (t @ u) (w @ v)"
  by (simp add: reads_as_def)

lemma inside_body:
  "no_close t \<Longrightarrow> in_comment True (t @ '' */'' @ rest) = in_comment False rest \<and>
     code_text True (t @ '' */'' @ rest) = code_text False rest"
  by (induction t rule: no_close.induct) auto

lemma reads_comment: "no_close t \<Longrightarrow> reads_as (''/* '' @ t @ '' */'') []"
  unfolding reads_as_def
proof
  fix rest
  assume "no_close t"
  then have "no_close (CHR '' '' # t)" by (cases t) auto
  then show "in_comment False ((''/* '' @ t @ '' */'') @ rest) = in_comment False rest \<and>
      code_text False ((''/* '' @ t @ '' */'') @ rest) = [] @ code_text False rest"
    using inside_body [of "CHR '' '' # t" rest] by simp
qed

lemma replace_head: "hd (replace_close (a # cs)) = a"
  by (cases cs) auto

lemma no_close_Cons: "no_close cs \<Longrightarrow> \<not> (a = CHR ''*'' \<and> cs \<noteq> [] \<and> hd cs = CHR ''/'') \<Longrightarrow> no_close (a # cs)"
  by (cases cs) auto

lemma replace_no_close: "no_close (replace_close s)"
proof (induction s rule: replace_close.induct)
  case (1 a b cs)
  show ?case
  proof (cases "a = CHR ''*'' \<and> b = CHR ''/''")
    case True
    then have "no_close (CHR ''/'' # replace_close cs)" using 1 by (intro no_close_Cons) auto
    then show ?thesis using True by simp
  next
    case False
    then have "no_close (a # replace_close (b # cs))"
      using 1 replace_head [of b cs] by (intro no_close_Cons) auto
    then show ?thesis using False by (simp only: replace_close.simps if_False)
  qed
qed auto

lemma no_close_map:
  assumes "\<And>c. f c = CHR ''*'' \<longleftrightarrow> c = CHR ''*''" and "\<And>c. f c = CHR ''/'' \<longleftrightarrow> c = CHR ''/''"
  shows "no_close (map f s) = no_close s"
  by (induction s rule: no_close.induct) (auto simp: assms)

lemma safe_comment_no_close: "no_close (safe_comment s)"
  unfolding safe_comment_def by (subst no_close_map) (auto simp: replace_no_close)

lemma alnum_not_slash: "is_ascii_alphanumeric c \<Longrightarrow> c \<noteq> CHR ''/''"
  by (auto simp: is_ascii_alphanumeric_def is_ascii_digit_def less_eq_char_def)

lemma ident_char_ok: "is_ascii_alphanumeric (ident_char c) \<or> ident_char c = CHR ''_''"
  by (auto simp: ident_char_def)

lemma safe_ident_chars: "c \<in> set (safe_ident name) \<Longrightarrow> is_ascii_alphanumeric c \<or> c = CHR ''_''"
  using ident_char_ok
  by (auto simp: safe_ident_def Let_def is_ascii_alphanumeric_def split: list.splits if_splits)

definition c_word :: "string \<Rightarrow> bool" where
  "c_word s \<longleftrightarrow> s \<noteq> [] \<and> \<not> is_ascii_digit (hd s) \<and> (\<forall>c \<in> set s. is_ascii_alphanumeric c \<or> c = CHR ''_'')"

lemma safe_ident_word: "c_word (safe_ident name)"
proof -
  have "\<not> is_ascii_digit (CHR ''_'')" by (simp add: is_ascii_digit_def less_eq_char_def)
  then have "safe_ident name \<noteq> [] \<and> \<not> is_ascii_digit (hd (safe_ident name))"
    by (auto simp: safe_ident_def Let_def ident_char_def split: list.splits)
  then show ?thesis using safe_ident_chars by (auto simp: c_word_def)
qed

lemma word_reads: "c_word w \<Longrightarrow> reads_as w w"
proof -
  have "\<not> is_ascii_alphanumeric CHR ''/'' \<and> CHR ''/'' \<noteq> CHR ''_''" using alnum_not_slash by auto
  then show "c_word w \<Longrightarrow> ?thesis" by (intro reads_plain) (auto simp only: c_word_def)
qed

lemma prim_word: "c_word (prim_c_name p)"
  by (cases p) (simp_all add: c_word_def is_ascii_alphanumeric_def is_ascii_digit_def less_eq_char_def)

lemma fixed_words: "c_word ''void''" "c_word ''MimiSlice''" "c_word ''MimiString''" "c_word ''MimiHandle''"
  by (simp_all add: c_word_def is_ascii_alphanumeric_def is_ascii_digit_def less_eq_char_def)

text \<open>A type name reads as one word and the stars of the pointers around it.\<close>

definition word_and_stars :: "string \<Rightarrow> bool" where
  "word_and_stars t \<longleftrightarrow> (\<exists>w n. c_word w \<and> reads_as t (w @ replicate n CHR ''*''))"

lemma word_commented: "c_word w \<Longrightarrow> no_close t \<Longrightarrow> word_and_stars (w @ ''/* '' @ t @ '' */'')"
  using reads_append [OF word_reads reads_comment, of w t] unfolding word_and_stars_def
  by (intro exI [of _ w] exI [of _ 0]) simp

lemma word_alone: "c_word w \<Longrightarrow> word_and_stars w"
  using word_reads [of w] unfolding word_and_stars_def by (intro exI [of _ w] exI [of _ 0]) simp

lemma word_starred: "word_and_stars t \<Longrightarrow> word_and_stars (t @ ''*'')"
proof -
  assume "word_and_stars t"
  then obtain w n where w: "c_word w" "reads_as t (w @ replicate n CHR ''*'')" unfolding word_and_stars_def by blast
  have "reads_as ''*'' ''*''" by (rule reads_plain) simp
  then have "reads_as (t @ ''*'') (w @ replicate (Suc n) CHR ''*'')"
    using reads_append [OF w(2), of "''*''" "''*''"] by (simp add: replicate_append_same)
  then show ?thesis using w(1) unfolding word_and_stars_def by blast
qed

lemma depth_limit_name: "word_and_stars ''void*/* depth limit */''"
proof -
  have "reads_as (''void*'' @ ''/* depth limit */'') (''void*'' @ [])"
    using reads_append [OF reads_plain reads_comment, of "''void*''" "''depth limit''"] by simp
  then show ?thesis using fixed_words(1) unfolding word_and_stars_def
    by (intro exI [of _ "''void''"] exI [of _ 1]) simp
qed

lemma type_name_reads: "word_and_stars (c_type_name_depth ty d)"
proof (induction ty arbitrary: d)
  case (RPointer inner)
  then show ?case using word_starred depth_limit_name by (subst c_type_name_depth.simps) simp
next
  case (RSlice inner)
  show ?case
    using word_commented [OF fixed_words(2) safe_comment_no_close] depth_limit_name
    by (subst c_type_name_depth.simps) simp
next
  case (ROpaque name)
  show ?case
    using word_commented [OF fixed_words(4) safe_comment_no_close] depth_limit_name
    by (subst c_type_name_depth.simps) simp
next
  case (RFatPointer element has_capacity)
  show ?case
    using word_commented [OF fixed_words(2) safe_comment_no_close]
      word_commented [OF fixed_words(3) safe_comment_no_close] depth_limit_name
    by (subst c_type_name_depth.simps) simp
next
  case (RPrimitive p)
  show ?case using word_alone [OF prim_word] depth_limit_name by (subst c_type_name_depth.simps) simp
next
  case (RNamed name)
  show ?case using word_alone [OF safe_ident_word] depth_limit_name by (subst c_type_name_depth.simps) simp
next
  case RVoid
  show ?case using word_alone [OF fixed_words(1)] depth_limit_name by (subst c_type_name_depth.simps) simp
qed

definition one_line :: "string \<Rightarrow> bool" where
  "one_line s \<longleftrightarrow> CHR 0x0A \<notin> set s \<and> CHR 0x0D \<notin> set s"

lemma word_one_line: "c_word w \<Longrightarrow> one_line w"
proof -
  have "\<not> is_ascii_alphanumeric (CHR 0x0A)" "\<not> is_ascii_alphanumeric (CHR 0x0D)"
    by (simp_all add: is_ascii_alphanumeric_def is_ascii_digit_def less_eq_char_def)
  then show "c_word w \<Longrightarrow> ?thesis" by (auto simp: c_word_def one_line_def)
qed

lemma one_line_append [simp]: "one_line (s @ t) \<longleftrightarrow> one_line s \<and> one_line t"
  by (auto simp: one_line_def)

lemma comment_one_line: "one_line (safe_comment s)"
  by (auto simp: one_line_def safe_comment_def)

lemma type_name_one_line: "one_line (c_type_name_depth ty d)"
proof (induction ty arbitrary: d)
  case (RPointer inner)
  then show ?case by (subst c_type_name_depth.simps) (simp, simp add: one_line_def)
next
  case (RPrimitive p)
  show ?case using word_one_line [OF prim_word] by (subst c_type_name_depth.simps) (simp, simp add: one_line_def)
next
  case (RNamed name)
  show ?case using word_one_line [OF safe_ident_word] by (subst c_type_name_depth.simps) (simp, simp add: one_line_def)
qed (subst c_type_name_depth.simps; use comment_one_line in \<open>simp add: one_line_def\<close>)+

text \<open>
  C30: whatever names a component file carries, a C type name made from a type reference is one line
  that closes every comment it opens, and without its comments it is a single word of letters, digits
  and underscores, not starting with a digit, followed by the stars of pointers: a hostile type name
  cannot comment out what follows, and brings no blank, line break or punctuation but these stars into
  the code around it. A reference to a named type is written as \<open>safe_ident\<close> makes the name, which is such
  a word. The word can be a C keyword: \<open>safe_ident\<close> does not avoid them (\<open>keyword_type_name\<close>).
\<close>

theorem c_type_name_cannot_inject:
  "one_line (c_type_name ty) \<and>
   (\<exists>word n. c_word word \<and>
     (\<forall>rest. in_comment False (c_type_name ty @ rest) = in_comment False rest \<and>
        code_text False (c_type_name ty @ rest) = word @ replicate n CHR ''*'' @ code_text False rest)) \<and>
   c_type_name (RNamed name) = safe_ident name \<and> c_word (safe_ident name)"
  using type_name_reads [of ty 0] type_name_one_line [of ty 0] safe_ident_word [of name]
  by (simp add: word_and_stars_def reads_as_def c_type_name_def c_type_name_depth.simps [of "RNamed name"])

text \<open>
  A type named by a C keyword is declared under another name than the one its uses are given, and the
  uses do not compile.
\<close>

lemma keyword_type_name:
  "sanitize_c_identifier ''while'' = (''while_'', True)" "c_type_name (RNamed ''while'') = ''while''"
  by code_simp+

section \<open>Consistency of the IR\<close>

primrec ref_names :: "AbiTypeRef \<Rightarrow> string set" where
  "ref_names (RPrimitive _) = {}"
| "ref_names (RNamed n) = {n}"
| "ref_names (RPointer t) = ref_names t"
| "ref_names (RSlice t) = ref_names t"
| "ref_names (ROpaque n) = {n}"
| "ref_names (RFatPointer t _) = ref_names t"
| "ref_names RVoid = {}"

fun thin :: "AbiTypeRef \<Rightarrow> bool" where
  "thin (RPointer t) = thin t"
| "thin (RSlice _) = False"
| "thin (RFatPointer _ _) = False"
| "thin _ = True"

lemma type_refs_ok: "check_type_refs t known ctx = [] \<longleftrightarrow> ref_names t \<subseteq> known \<and> thin t"
  by (induction t) auto

lemma duplicate_names_Nil: "duplicate_names err seen ns = [] \<longleftrightarrow> distinct ns \<and> set ns \<inter> seen = {}"
  by (induction ns arbitrary: seen) auto

lemma ir_validate_Nil:
  assumes "\<And>xs. set (order xs) = set xs"
  shows "ir_validate order ir = [] \<longleftrightarrow>
    distinct (map sy_name (ir_exports ir @ ir_imports ir)) \<and> distinct (map typedef_name (ir_types ir)) \<and>
    (\<forall>s \<in> set (ir_exports ir @ ir_imports ir). \<forall>t \<in> set (symbol_refs s).
       ref_names t \<subseteq> typedef_name ` set (ir_types ir) \<and> thin t)"
proof -
  have "(\<forall>n \<in> set (order (remdups (map sy_name (ir_exports ir)))). n \<notin> set (map sy_name (ir_imports ir))) \<longleftrightarrow>
      set (map sy_name (ir_exports ir)) \<inter> set (map sy_name (ir_imports ir)) = {}"
    unfolding assms set_remdups by blast
  then have conflicts: "map ExportImportConflict (filter (\<lambda>n. n \<in> set (map sy_name (ir_imports ir)))
        (order (remdups (map sy_name (ir_exports ir))))) = [] \<longleftrightarrow>
      set (map sy_name (ir_exports ir)) \<inter> set (map sy_name (ir_imports ir)) = {}"
    unfolding map_is_Nil_conv filter_empty_conv .
  have refs: "concat (map (\<lambda>s. concat (map (\<lambda>t. check_type_refs t K (sy_name s)) (symbol_refs s))) ss) = [] \<longleftrightarrow>
      (\<forall>s \<in> set ss. \<forall>t \<in> set (symbol_refs s). ref_names t \<subseteq> K \<and> thin t)" for K ss
    by (simp add: type_refs_ok)
  show ?thesis
    unfolding ir_validate_def Let_def append_is_Nil_conv duplicate_names_Nil conflicts refs
      map_append [of sy_name] distinct_append Int_empty_right set_map [of typedef_name, symmetric] simp_thms
    by argo
qed

text \<open>
  C31: the consistency check of the Component IR reports nothing exactly when the symbol names are
  distinct across exports and imports, the type names are distinct, and every type reference of
  a symbol's signature names a defined type and uses no slice or fat pointer. The order of the
  hash set does not matter.
\<close>

theorem ir_validate_exact:
  assumes "\<And>xs. set (order xs) = set xs"
  shows "ir_validate order ir = [] \<longleftrightarrow>
    distinct (map sy_name (ir_exports ir @ ir_imports ir)) \<and> distinct (map typedef_name (ir_types ir)) \<and>
    (\<forall>s \<in> set (ir_exports ir @ ir_imports ir). \<forall>t \<in> set (symbol_refs s).
       ref_names t \<subseteq> typedef_name ` set (ir_types ir) \<and> thin t)"
  by (rule ir_validate_Nil) (rule assms)

definition demo_ir :: ComponentIr where
  "demo_ir =
     \<lparr>ir_identity = \<lparr>ci_name = ''demo'', ci_version = ''1'', ci_abi_version = 1\<rparr>,
      ir_exports = [], ir_imports = [],
      ir_types = [DStruct \<lparr>as_name = ''Node'', as_fields = [\<lparr>af_name = ''next'', af_ty = RNamed ''Missing'', af_offset = Some 0\<rparr>],
        as_is_repr_c = True, as_size = Some 8, as_align = Some 8\<rparr>]\<rparr>"

theorem ir_validate_exact_witness: "ir_validate rev demo_ir = []"
  using ir_validate_exact [of rev demo_ir] by (simp add: demo_ir_def)

text \<open>
  The check reads only the signatures of symbols: a type definition whose field names an
  undefined type passes, although the contract says that every reference resolves.
\<close>

theorem ir_validate_misses_type_fields:
  "ir_validate order demo_ir = [] \<and> ir_type_def demo_ir ''Missing'' = None"
  by (simp add: ir_validate_def demo_ir_def ir_type_def_def symbol_refs_def)

lemma all_symbol_names_set:
  "set (all_symbol_names ir) = sy_name ` set (ir_exports ir @ ir_imports ir)"
  "sorted (all_symbol_names ir)"
  by (auto simp: all_symbol_names_def)

end
