(* ===== verification/Mimi_AbiFile.thy ===== *)
theory Mimi_AbiFile
  imports Mimi_Abi
begin

text \<open>
  The serialized form of the Component IR, \<open>src/component/serialize.rs\<close>: the two conversions,
  whose enum values travel as the names of their variants, the parsers of those names with their
  fallbacks, and the validation of a deserialized file. \<open>JSON\<close> parsing and \<open>BLAKE3\<close> hashing are
  libraries: the parser is a parameter of the operation that uses it. The one-time warning of a
  fallback is output and is not modelled.
\<close>

section \<open>Serialized types\<close>

datatype MimiAbiTypeRef =
    MPrimitive string
  | MNamed string
  | MPointer MimiAbiTypeRef
  | MSlice MimiAbiTypeRef
  | MOpaque string
  | MFatPointer MimiAbiTypeRef bool
  | MVoid

record MimiAbiIdentity =
  mi_name :: string
  mi_version :: string
  mi_abi_version :: u32

record MimiAbiParam =
  mp_name :: string
  mp_ty :: MimiAbiTypeRef
  mp_is_nullable :: bool

record MimiAbiSymbol =
  ms_name :: string
  ms_kind :: string
  ms_params :: "MimiAbiParam list"
  ms_ret :: MimiAbiTypeRef
  ms_effects :: "string list"
  ms_is_unsafe :: bool
  ms_call_conv :: string
  ms_callback_category :: "string option"

record MimiAbiField =
  mf_name :: string
  mf_ty :: MimiAbiTypeRef
  mf_offset :: "u64 option"

datatype MimiAbiType =
    MTStruct string "MimiAbiField list" "u64 option" "u64 option"
  | MTEnum string "(string \<times> i64) list" string
  | MTAlias string MimiAbiTypeRef
  | MTOpaque string string

record MimiAbi =
  ma_format_version :: u32
  ma_identity :: MimiAbiIdentity
  ma_exports :: "MimiAbiSymbol list"
  ma_imports :: "MimiAbiSymbol list"
  ma_types :: "MimiAbiType list"

definition FORMAT_VERSION :: u32 where
  "FORMAT_VERSION = 1"

section \<open>Names of the variants\<close>

text \<open>The derived \<open>Debug\<close> form of a field-less enum is the name of the variant.\<close>

fun debug_primitive :: "AbiPrimitive \<Rightarrow> string" where
  "debug_primitive PI8 = ''I8''" | "debug_primitive PI16 = ''I16''" | "debug_primitive PI32 = ''I32''"
| "debug_primitive PI64 = ''I64''" | "debug_primitive PU8 = ''U8''" | "debug_primitive PU16 = ''U16''"
| "debug_primitive PU32 = ''U32''" | "debug_primitive PU64 = ''U64''" | "debug_primitive PF32 = ''F32''"
| "debug_primitive PF64 = ''F64''" | "debug_primitive PBool = ''Bool''" | "debug_primitive PIntPtr = ''IntPtr''"
| "debug_primitive PUIntPtr = ''UIntPtr''"

fun debug_symbol_kind :: "AbiSymbolKind \<Rightarrow> string" where
  "debug_symbol_kind SkFunction = ''Function''"
| "debug_symbol_kind SkExternFunction = ''ExternFunction''"
| "debug_symbol_kind SkMethod = ''Method''"
| "debug_symbol_kind SkConstructor = ''Constructor''"
| "debug_symbol_kind SkDestructor = ''Destructor''"
| "debug_symbol_kind SkCallback = ''Callback''"

fun debug_call_conv :: "AbiCallConv \<Rightarrow> string" where
  "debug_call_conv CcC = ''C''"
| "debug_call_conv CcSystemV = ''SystemV''"
| "debug_call_conv CcWin64 = ''Win64''"
| "debug_call_conv CcFast = ''Fast''"
| "debug_call_conv CcMimiInternal = ''MimiInternal''"

fun debug_category :: "AbiCallbackCategory \<Rightarrow> string" where
  "debug_category SyncSameThread = ''SyncSameThread''"
| "debug_category SyncCrossThread = ''SyncCrossThread''"
| "debug_category AsyncOneShot = ''AsyncOneShot''"
| "debug_category AsyncMultiShot = ''AsyncMultiShot''"
| "debug_category AsyncSubscription = ''AsyncSubscription''"

definition try_parse_primitive :: "string \<Rightarrow> AbiPrimitive option" where
  "try_parse_primitive name =
     (if name = ''I8'' then Some PI8 else if name = ''I16'' then Some PI16
      else if name = ''I32'' then Some PI32 else if name = ''I64'' then Some PI64
      else if name = ''U8'' then Some PU8 else if name = ''U16'' then Some PU16
      else if name = ''U32'' then Some PU32 else if name = ''U64'' then Some PU64
      else if name = ''F32'' then Some PF32 else if name = ''F64'' then Some PF64
      else if name = ''Bool'' then Some PBool else if name = ''IntPtr'' then Some PIntPtr
      else if name = ''UIntPtr'' then Some PUIntPtr else None)"

definition try_parse_symbol_kind :: "string \<Rightarrow> AbiSymbolKind option" where
  "try_parse_symbol_kind name =
     (if name = ''Function'' then Some SkFunction else if name = ''ExternFunction'' then Some SkExternFunction
      else if name = ''Method'' then Some SkMethod else if name = ''Constructor'' then Some SkConstructor
      else if name = ''Destructor'' then Some SkDestructor else if name = ''Callback'' then Some SkCallback
      else None)"

definition try_parse_call_conv :: "string \<Rightarrow> AbiCallConv option" where
  "try_parse_call_conv name =
     (if name = ''C'' then Some CcC else if name = ''SystemV'' then Some CcSystemV
      else if name = ''Win64'' then Some CcWin64 else if name = ''Fast'' then Some CcFast
      else if name = ''MimiInternal'' then Some CcMimiInternal else None)"

definition try_parse_callback_category :: "string \<Rightarrow> AbiCallbackCategory option" where
  "try_parse_callback_category name =
     (if name = ''SyncSameThread'' then Some SyncSameThread
      else if name = ''SyncCrossThread'' then Some SyncCrossThread
      else if name = ''AsyncOneShot'' then Some AsyncOneShot
      else if name = ''AsyncMultiShot'' then Some AsyncMultiShot
      else if name = ''AsyncSubscription'' then Some AsyncSubscription else None)"

definition parse_primitive :: "string \<Rightarrow> AbiPrimitive" where
  "parse_primitive name = (case try_parse_primitive name of Some p \<Rightarrow> p | None \<Rightarrow> PI64)"

definition parse_symbol_kind :: "string \<Rightarrow> AbiSymbolKind" where
  "parse_symbol_kind name = (case try_parse_symbol_kind name of Some k \<Rightarrow> k | None \<Rightarrow> SkFunction)"

definition parse_call_conv :: "string \<Rightarrow> AbiCallConv" where
  "parse_call_conv name = (case try_parse_call_conv name of Some c \<Rightarrow> c | None \<Rightarrow> CcC)"

definition parse_callback_category :: "string \<Rightarrow> AbiCallbackCategory" where
  "parse_callback_category name =
     (case try_parse_callback_category name of Some c \<Rightarrow> c | None \<Rightarrow> SyncSameThread)"

section \<open>From the IR\<close>

primrec ref_to_file :: "AbiTypeRef \<Rightarrow> MimiAbiTypeRef" where
  "ref_to_file (RPrimitive p) = MPrimitive (debug_primitive p)"
| "ref_to_file (RNamed n) = MNamed n"
| "ref_to_file (RPointer t) = MPointer (ref_to_file t)"
| "ref_to_file (RSlice t) = MSlice (ref_to_file t)"
| "ref_to_file (ROpaque n) = MOpaque n"
| "ref_to_file (RFatPointer t c) = MFatPointer (ref_to_file t) c"
| "ref_to_file RVoid = MVoid"

definition identity_to_file :: "ComponentIdentity \<Rightarrow> MimiAbiIdentity" where
  "identity_to_file i = \<lparr>mi_name = ci_name i, mi_version = ci_version i, mi_abi_version = ci_abi_version i\<rparr>"

definition param_to_file :: "AbiParam \<Rightarrow> MimiAbiParam" where
  "param_to_file p = \<lparr>mp_name = ap_name p, mp_ty = ref_to_file (ap_ty p), mp_is_nullable = ap_is_nullable p\<rparr>"

definition symbol_to_file :: "AbiSymbol \<Rightarrow> MimiAbiSymbol" where
  "symbol_to_file s =
     \<lparr>ms_name = sy_name s, ms_kind = debug_symbol_kind (sy_kind s), ms_params = map param_to_file (sy_params s),
      ms_ret = ref_to_file (sy_ret s), ms_effects = sy_effects s, ms_is_unsafe = sy_is_unsafe s,
      ms_call_conv = debug_call_conv (sy_call_conv s),
      ms_callback_category = map_option debug_category (sy_callback_category s)\<rparr>"

definition field_to_file :: "AbiField \<Rightarrow> MimiAbiField" where
  "field_to_file f = \<lparr>mf_name = af_name f, mf_ty = ref_to_file (af_ty f), mf_offset = af_offset f\<rparr>"

fun typedef_to_file :: "AbiTypeDef \<Rightarrow> MimiAbiType" where
  "typedef_to_file (DStruct s) = MTStruct (as_name s) (map field_to_file (as_fields s)) (as_size s) (as_align s)"
| "typedef_to_file (DEnum e) = MTEnum (ae_name e) (ae_variants e) (debug_primitive (ae_repr e))"
| "typedef_to_file (DAlias a) = MTAlias (aa_name a) (ref_to_file (aa_target a))"
| "typedef_to_file (DOpaque ob) = MTOpaque (ao_name ob) (ao_description ob)"

definition from_component_ir :: "ComponentIr \<Rightarrow> MimiAbi" where
  "from_component_ir ir =
     \<lparr>ma_format_version = FORMAT_VERSION, ma_identity = identity_to_file (ir_identity ir),
      ma_exports = map symbol_to_file (ir_exports ir), ma_imports = map symbol_to_file (ir_imports ir),
      ma_types = map typedef_to_file (ir_types ir)\<rparr>"

section \<open>To the IR\<close>

primrec ref_of_file :: "MimiAbiTypeRef \<Rightarrow> AbiTypeRef" where
  "ref_of_file (MPrimitive n) = RPrimitive (parse_primitive n)"
| "ref_of_file (MNamed n) = RNamed n"
| "ref_of_file (MPointer t) = RPointer (ref_of_file t)"
| "ref_of_file (MSlice t) = RSlice (ref_of_file t)"
| "ref_of_file (MOpaque n) = ROpaque n"
| "ref_of_file (MFatPointer t c) = RFatPointer (ref_of_file t) c"
| "ref_of_file MVoid = RVoid"

definition param_of_file :: "MimiAbiParam \<Rightarrow> AbiParam" where
  "param_of_file p = \<lparr>ap_name = mp_name p, ap_ty = ref_of_file (mp_ty p), ap_is_nullable = mp_is_nullable p\<rparr>"

definition symbol_of_file :: "MimiAbiSymbol \<Rightarrow> AbiSymbol" where
  "symbol_of_file s =
     \<lparr>sy_name = ms_name s, sy_kind = parse_symbol_kind (ms_kind s), sy_params = map param_of_file (ms_params s),
      sy_ret = ref_of_file (ms_ret s), sy_effects = ms_effects s, sy_is_unsafe = ms_is_unsafe s,
      sy_call_conv = parse_call_conv (ms_call_conv s),
      sy_callback_category = map_option parse_callback_category (ms_callback_category s)\<rparr>"

definition field_of_file :: "MimiAbiField \<Rightarrow> AbiField" where
  "field_of_file f = \<lparr>af_name = mf_name f, af_ty = ref_of_file (mf_ty f), af_offset = mf_offset f\<rparr>"

fun typedef_of_file :: "MimiAbiType \<Rightarrow> AbiTypeDef" where
  "typedef_of_file (MTStruct n fs sz al) =
     DStruct \<lparr>as_name = n, as_fields = map field_of_file fs, as_is_repr_c = True, as_size = sz, as_align = al\<rparr>"
| "typedef_of_file (MTEnum n vs repr) = DEnum \<lparr>ae_name = n, ae_variants = vs, ae_repr = parse_primitive repr\<rparr>"
| "typedef_of_file (MTAlias n t) = DAlias \<lparr>aa_name = n, aa_target = ref_of_file t\<rparr>"
| "typedef_of_file (MTOpaque n d) = DOpaque \<lparr>ao_name = n, ao_description = d\<rparr>"

definition to_component_ir :: "MimiAbi \<Rightarrow> ComponentIr" where
  "to_component_ir abi =
     \<lparr>ir_identity = \<lparr>ci_name = mi_name (ma_identity abi), ci_version = mi_version (ma_identity abi),
                     ci_abi_version = mi_abi_version (ma_identity abi)\<rparr>,
      ir_exports = map symbol_of_file (ma_exports abi), ir_imports = map symbol_of_file (ma_imports abi),
      ir_types = map typedef_of_file (ma_types abi)\<rparr>"

section \<open>Validation\<close>

datatype MimiAbiError =
    MeJson string
  | MeBadFormatVersion u32 u32
  | MeUnknownPrimitive string
  | MeUnknownSymbolKind string
  | MeUnknownCallConv string
  | MeUnknownCallbackCategory string
  | MeInvalidComponentIr string

fun validate_type_ref :: "MimiAbiTypeRef \<Rightarrow> MimiAbiError + unit" where
  "validate_type_ref (MPrimitive name) =
     (if try_parse_primitive name = None then Err (MeUnknownPrimitive name) else Ok ())"
| "validate_type_ref (MPointer inner) = validate_type_ref inner"
| "validate_type_ref (MSlice inner) = validate_type_ref inner"
| "validate_type_ref (MFatPointer element _) = validate_type_ref element"
| "validate_type_ref _ = Ok ()"

text \<open>The loops with \<open>?\<close>: the first error ends the check.\<close>

fun each_ok :: "('a \<Rightarrow> 'e + unit) \<Rightarrow> 'a list \<Rightarrow> 'e + unit" where
  "each_ok f [] = Ok ()"
| "each_ok f (x # xs) = (case f x of Err e \<Rightarrow> Err e | Ok _ \<Rightarrow> each_ok f xs)"

definition validate_symbol :: "MimiAbiSymbol \<Rightarrow> MimiAbiError + unit" where
  "validate_symbol s =
     (if try_parse_symbol_kind (ms_kind s) = None then Err (MeUnknownSymbolKind (ms_kind s))
      else if try_parse_call_conv (ms_call_conv s) = None then Err (MeUnknownCallConv (ms_call_conv s))
      else case (case ms_callback_category s of
                   None \<Rightarrow> Ok ()
                 | Some cat \<Rightarrow> if try_parse_callback_category cat = None then Err (MeUnknownCallbackCategory cat) else Ok ())
           of Err e \<Rightarrow> Err e
            | Ok _ \<Rightarrow>
                (case validate_type_ref (ms_ret s) of
                   Err e \<Rightarrow> Err e
                 | Ok _ \<Rightarrow> each_ok (\<lambda>p. validate_type_ref (mp_ty p)) (ms_params s)))"

fun validate_type :: "MimiAbiType \<Rightarrow> MimiAbiError + unit" where
  "validate_type (MTStruct _ fs _ _) = each_ok (\<lambda>f. validate_type_ref (mf_ty f)) fs"
| "validate_type (MTEnum _ _ repr) = (if try_parse_primitive repr = None then Err (MeUnknownPrimitive repr) else Ok ())"
| "validate_type (MTAlias _ target) = validate_type_ref target"
| "validate_type (MTOpaque _ _) = Ok ()"

text \<open>\<open>debug\<close> is the derived \<open>Debug\<close> form of an IR error, \<open>order\<close> the order of a hash set.\<close>

definition validate_deserialized ::
    "(ComponentIrError \<Rightarrow> string) \<Rightarrow> (string list \<Rightarrow> string list) \<Rightarrow> MimiAbi \<Rightarrow> MimiAbiError + unit" where
  "validate_deserialized debug order abi =
     (if ma_format_version abi \<noteq> FORMAT_VERSION
      then Err (MeBadFormatVersion FORMAT_VERSION (ma_format_version abi))
      else case each_ok validate_symbol (ma_exports abi @ ma_imports abi) of
        Err e \<Rightarrow> Err e
      | Ok _ \<Rightarrow>
          (case each_ok validate_type (ma_types abi) of
             Err e \<Rightarrow> Err e
           | Ok _ \<Rightarrow>
               (case ir_validate order (to_component_ir abi) of
                  [] \<Rightarrow> Ok ()
                | err # _ \<Rightarrow> Err (MeInvalidComponentIr (debug err)))))"

text \<open>\<open>parse\<close> is the \<open>serde_json\<close> parser of the file's record.\<close>

definition from_json_validated ::
    "(string \<Rightarrow> string + MimiAbi) \<Rightarrow> (ComponentIrError \<Rightarrow> string) \<Rightarrow> (string list \<Rightarrow> string list) \<Rightarrow> string
       \<Rightarrow> MimiAbiError + MimiAbi" where
  "from_json_validated parse debug order json =
     (case parse json of
        Err e \<Rightarrow> Err (MeJson e)
      | Ok abi \<Rightarrow> (case validate_deserialized debug order abi of Err e \<Rightarrow> Err e | Ok _ \<Rightarrow> Ok abi))"

section \<open>Round trips\<close>

lemma parse_debug [simp]:
  "try_parse_primitive (debug_primitive p) = Some p"
  "try_parse_symbol_kind (debug_symbol_kind k) = Some k"
  "try_parse_call_conv (debug_call_conv c) = Some c"
  "try_parse_callback_category (debug_category g) = Some g"
proof -
  show "try_parse_primitive (debug_primitive p) = Some p" by (cases p; simp add: try_parse_primitive_def)
  show "try_parse_symbol_kind (debug_symbol_kind k) = Some k" by (cases k; simp add: try_parse_symbol_kind_def)
  show "try_parse_call_conv (debug_call_conv c) = Some c" by (cases c; simp add: try_parse_call_conv_def)
  show "try_parse_callback_category (debug_category g) = Some g"
    by (cases g; simp add: try_parse_callback_category_def)
qed

lemma debug_parse:
  "try_parse_primitive n = Some p \<Longrightarrow> debug_primitive p = n"
  "try_parse_symbol_kind n = Some k \<Longrightarrow> debug_symbol_kind k = n"
  "try_parse_call_conv n = Some c \<Longrightarrow> debug_call_conv c = n"
  "try_parse_callback_category n = Some g \<Longrightarrow> debug_category g = n"
  by (auto simp: try_parse_primitive_def try_parse_symbol_kind_def try_parse_call_conv_def
      try_parse_callback_category_def split: if_splits)

lemma ref_roundtrip [simp]: "ref_of_file (ref_to_file t) = t"
  by (induction t) (simp_all add: parse_primitive_def)

lemma param_roundtrip [simp]: "param_of_file (param_to_file p) = p"
  by (simp add: param_of_file_def param_to_file_def)

lemma field_roundtrip [simp]: "field_of_file (field_to_file f) = f"
  by (simp add: field_of_file_def field_to_file_def)

lemma symbol_roundtrip [simp]: "symbol_of_file (symbol_to_file s) = s"
  by (simp add: symbol_of_file_def symbol_to_file_def parse_symbol_kind_def parse_call_conv_def
      parse_callback_category_def comp_def option.map_comp map_idI option.map_ident)

text \<open>The file does not carry \<open>is_repr_c\<close>; the reader sets it.\<close>

fun repr_c :: "AbiTypeDef \<Rightarrow> bool" where
  "repr_c (DStruct s) = as_is_repr_c s"
| "repr_c _ = True"

lemma typedef_roundtrip: "repr_c d \<Longrightarrow> typedef_of_file (typedef_to_file d) = d"
  by (cases d) (auto simp: parse_primitive_def map_idI)

lemma each_ok_iff: "each_ok f xs = Ok () \<longleftrightarrow> (\<forall>x \<in> set xs. f x = Ok ())"
  by (induction xs) (auto split: sum.splits)

lemma ref_back: "validate_type_ref t = Ok () \<Longrightarrow> ref_to_file (ref_of_file t) = t"
  by (induction t) (auto simp: parse_primitive_def dest: debug_parse split: if_splits)

lemma ref_valid: "validate_type_ref (ref_to_file t) = Ok ()"
  by (induction t) simp_all

lemma symbol_valid: "validate_symbol (symbol_to_file s) = Ok ()"
  by (auto simp: validate_symbol_def symbol_to_file_def ref_valid each_ok_iff param_to_file_def split: option.splits)

lemma typedef_valid: "validate_type (typedef_to_file d) = Ok ()"
  by (cases d) (simp_all add: ref_valid each_ok_iff field_to_file_def)

lemma symbol_back:
  assumes "validate_symbol s = Ok ()"
  shows "symbol_to_file (symbol_of_file s) = s"
proof -
  have "map (param_to_file \<circ> param_of_file) (ms_params s) = ms_params s"
  proof (rule map_idI)
    fix p
    assume "p \<in> set (ms_params s)"
    then have "validate_type_ref (mp_ty p) = Ok ()"
      using assms by (auto simp: validate_symbol_def each_ok_iff split: if_splits sum.splits)
    then show "(param_to_file \<circ> param_of_file) p = p"
      by (simp add: param_to_file_def param_of_file_def ref_back)
  qed
  moreover have "validate_type_ref (ms_ret s) = Ok ()"
    using assms by (auto simp: validate_symbol_def split: if_splits sum.splits)
  moreover have "debug_symbol_kind (parse_symbol_kind (ms_kind s)) = ms_kind s"
      "debug_call_conv (parse_call_conv (ms_call_conv s)) = ms_call_conv s"
    using assms by (auto simp: validate_symbol_def parse_symbol_kind_def parse_call_conv_def dest: debug_parse split: if_splits)
  moreover have "map_option (debug_category \<circ> parse_callback_category) (ms_callback_category s) = ms_callback_category s"
    using assms
    by (cases "ms_callback_category s")
      (auto simp: validate_symbol_def parse_callback_category_def dest: debug_parse split: if_splits sum.splits)
  ultimately show ?thesis
    by (simp add: symbol_to_file_def symbol_of_file_def ref_back option.map_comp)
qed

lemma typedef_back: "validate_type d = Ok () \<Longrightarrow> typedef_to_file (typedef_of_file d) = d"
  by (cases d) (auto simp: ref_back each_ok_iff field_to_file_def field_of_file_def parse_primitive_def
      dest: debug_parse intro!: map_idI split: if_splits)

lemma each_ok_append: "each_ok f (xs @ ys) = Ok () \<longleftrightarrow> each_ok f xs = Ok () \<and> each_ok f ys = Ok ()"
  by (auto simp: each_ok_iff)

lemma ok_unit: "(r :: 'e + unit) = Ok () \<or> (\<exists>e. r = Err e)"
  by (cases r) auto

lemma validate_deserialized_Ok:
  "validate_deserialized debug order abi = Ok () \<longleftrightarrow>
     ma_format_version abi = FORMAT_VERSION \<and>
     (\<forall>s \<in> set (ma_exports abi @ ma_imports abi). validate_symbol s = Ok ()) \<and>
     (\<forall>t \<in> set (ma_types abi). validate_type t = Ok ()) \<and> ir_validate order (to_component_ir abi) = []"
  unfolding each_ok_iff [symmetric]
  using ok_unit [of "each_ok validate_symbol (ma_exports abi @ ma_imports abi)"]
    ok_unit [of "each_ok validate_type (ma_types abi)"]
  by (auto simp: validate_deserialized_def split: list.splits)

lemma ir_roundtrip:
  assumes "\<forall>d \<in> set (ir_types ir). repr_c d"
  shows "to_component_ir (from_component_ir ir) = ir"
  using assms
  by (simp add: to_component_ir_def from_component_ir_def identity_to_file_def comp_def typedef_roundtrip map_idI)

lemma file_roundtrip:
  assumes "validate_deserialized debug order abi = Ok ()"
  shows "from_component_ir (to_component_ir abi) = abi"
proof -
  note ok = assms [unfolded validate_deserialized_Ok]
  have "map (symbol_to_file \<circ> symbol_of_file) (ma_exports abi) = ma_exports abi"
      "map (symbol_to_file \<circ> symbol_of_file) (ma_imports abi) = ma_imports abi"
      "map (typedef_to_file \<circ> typedef_of_file) (ma_types abi) = ma_types abi"
    using ok by (auto intro!: map_idI symbol_back typedef_back)
  moreover have "identity_to_file \<lparr>ci_name = mi_name (ma_identity abi), ci_version = mi_version (ma_identity abi),
      ci_abi_version = mi_abi_version (ma_identity abi)\<rparr> = ma_identity abi"
    by (simp add: identity_to_file_def)
  ultimately show ?thesis using ok by (simp add: from_component_ir_def to_component_ir_def)
qed

text \<open>
  C26: writing a Component IR whose structs are C structs and reading it back gives the same IR,
  and the written file passes validation exactly when the IR is consistent.
\<close>

theorem component_ir_roundtrip:
  assumes "\<forall>d \<in> set (ir_types ir). repr_c d"
  shows "to_component_ir (from_component_ir ir) = ir \<and>
    (validate_deserialized debug order (from_component_ir ir) = Ok () \<longleftrightarrow> ir_validate order ir = [])"
proof -
  have "validate_deserialized debug order (from_component_ir ir) = Ok () \<longleftrightarrow> ir_validate order ir = []"
    unfolding validate_deserialized_Ok ir_roundtrip [OF assms]
    by (auto simp: from_component_ir_def symbol_valid typedef_valid)
  then show ?thesis using ir_roundtrip [OF assms] by blast
qed

theorem component_ir_roundtrip_witness:
  "to_component_ir (from_component_ir demo_ir) = demo_ir"
proof -
  have "\<forall>d \<in> set (ir_types demo_ir). repr_c d" by (simp add: demo_ir_def)
  then show ?thesis using component_ir_roundtrip [of demo_ir "\<lambda>_. []" "\<lambda>xs. xs"] by blast
qed

section \<open>The errors of the reader\<close>

text \<open>The names of a file that no parser knows, as the errors that report them.\<close>

primrec ref_primitives :: "MimiAbiTypeRef \<Rightarrow> string set" where
  "ref_primitives (MPrimitive n) = {n}"
| "ref_primitives (MNamed n) = {}"
| "ref_primitives (MPointer t) = ref_primitives t"
| "ref_primitives (MSlice t) = ref_primitives t"
| "ref_primitives (MOpaque n) = {}"
| "ref_primitives (MFatPointer t e) = ref_primitives t"
| "ref_primitives MVoid = {}"

definition unknown_primitives :: "string set \<Rightarrow> MimiAbiError set" where
  "unknown_primitives ns = MeUnknownPrimitive ` {n \<in> ns. try_parse_primitive n = None}"

definition unknown_in_symbol :: "MimiAbiSymbol \<Rightarrow> MimiAbiError set" where
  "unknown_in_symbol s =
     {MeUnknownSymbolKind n |n. n = ms_kind s \<and> try_parse_symbol_kind n = None} \<union>
     {MeUnknownCallConv n |n. n = ms_call_conv s \<and> try_parse_call_conv n = None} \<union>
     {MeUnknownCallbackCategory n |n. ms_callback_category s = Some n \<and> try_parse_callback_category n = None} \<union>
     unknown_primitives (\<Union>t \<in> insert (ms_ret s) (mp_ty ` set (ms_params s)). ref_primitives t)"

primrec type_primitives :: "MimiAbiType \<Rightarrow> string set" where
  "type_primitives (MTStruct n fs sz al) = (\<Union>f \<in> set fs. ref_primitives (mf_ty f))"
| "type_primitives (MTEnum n vs repr) = {repr}"
| "type_primitives (MTAlias n target) = ref_primitives target"
| "type_primitives (MTOpaque n d) = {}"

definition unknown_in_file :: "MimiAbi \<Rightarrow> MimiAbiError set" where
  "unknown_in_file abi =
     (\<Union>s \<in> set (ma_exports abi @ ma_imports abi). unknown_in_symbol s) \<union>
     (\<Union>d \<in> set (ma_types abi). unknown_primitives (type_primitives d))"

text \<open>\<open>reports r E\<close>: the check fails exactly when there is something to report, and reports one of them.\<close>

definition reports :: "MimiAbiError + unit \<Rightarrow> MimiAbiError set \<Rightarrow> bool" where
  "reports r errors = (case r of Ok _ \<Rightarrow> errors = {} | Err e \<Rightarrow> e \<in> errors)"

lemma reports_each:
  assumes "\<And>x. x \<in> set xs \<Longrightarrow> reports (f x) (g x)"
  shows "reports (each_ok f xs) (\<Union>x \<in> set xs. g x)"
  using assms
proof (induction xs)
  case (Cons x xs)
  then have "reports (f x) (g x)" "reports (each_ok f xs) (\<Union>x \<in> set xs. g x)" by simp_all
  then show ?case by (cases "f x") (auto simp: reports_def split: sum.splits)
qed (simp add: reports_def)

lemma unknown_primitives_Un: "unknown_primitives (\<Union>x \<in> xs. g x) = (\<Union>x \<in> xs. unknown_primitives (g x))"
  by (auto simp: unknown_primitives_def)

lemma reports_ref: "reports (validate_type_ref t) (unknown_primitives (ref_primitives t))"
  by (induction t) (auto simp: reports_def unknown_primitives_def)

lemma reports_type: "reports (validate_type d) (unknown_primitives (type_primitives d))"
proof (cases d)
  case (MTStruct n fs sz al)
  show ?thesis using reports_each [OF reports_ref] unfolding MTStruct by (simp add: unknown_primitives_Un)
qed (auto simp: reports_ref, auto simp: reports_def unknown_primitives_def)

lemma reports_symbol: "reports (validate_symbol s) (unknown_in_symbol s)"
proof -
  have ret: "reports (validate_type_ref (ms_ret s)) (unknown_primitives (ref_primitives (ms_ret s)))" by (rule reports_ref)
  have params: "reports (each_ok (\<lambda>p. validate_type_ref (mp_ty p)) (ms_params s))
      (\<Union>p \<in> set (ms_params s). unknown_primitives (ref_primitives (mp_ty p)))"
    by (rule reports_each) (rule reports_ref)
  have primitives: "unknown_primitives (\<Union>t \<in> insert (ms_ret s) (mp_ty ` set (ms_params s)). ref_primitives t) =
      unknown_primitives (ref_primitives (ms_ret s)) \<union>
      (\<Union>p \<in> set (ms_params s). unknown_primitives (ref_primitives (mp_ty p)))"
    by (auto simp: unknown_primitives_def)
  show ?thesis
    using ret params
    unfolding validate_symbol_def unknown_in_symbol_def primitives reports_def
    by (auto split: option.splits sum.splits if_splits)
qed

lemma rejection_named:
  assumes "validate_deserialized debug order abi = Err e"
  shows "if ma_format_version abi \<noteq> FORMAT_VERSION
         then e = MeBadFormatVersion FORMAT_VERSION (ma_format_version abi)
         else if unknown_in_file abi \<noteq> {} then e \<in> unknown_in_file abi
         else \<exists>first others. ir_validate order (to_component_ir abi) = first # others \<and>
           e = MeInvalidComponentIr (debug first)"
proof -
  have symbols: "reports (each_ok validate_symbol (ma_exports abi @ ma_imports abi))
      (\<Union>s \<in> set (ma_exports abi @ ma_imports abi). unknown_in_symbol s)"
    by (rule reports_each) (rule reports_symbol)
  have types: "reports (each_ok validate_type (ma_types abi))
      (\<Union>d \<in> set (ma_types abi). unknown_primitives (type_primitives d))"
    by (rule reports_each) (rule reports_type)
  show ?thesis
    using assms symbols types unfolding validate_deserialized_def unknown_in_file_def reports_def
    by (auto split: if_splits sum.splits list.splits)
qed

lemma accepted_known:
  assumes "validate_deserialized debug order abi = Ok ()"
  shows "unknown_in_file abi = {}"
proof -
  have "unknown_in_symbol s = {}" if "s \<in> set (ma_exports abi @ ma_imports abi)" for s
    using assms that reports_symbol [of s] unfolding validate_deserialized_Ok by (simp add: reports_def)
  moreover have "unknown_primitives (type_primitives d) = {}" if "d \<in> set (ma_types abi)" for d
    using assms that reports_type [of d] unfolding validate_deserialized_Ok by (simp add: reports_def)
  ultimately show ?thesis by (simp add: unknown_in_file_def)
qed

text \<open>
  C25: a file accepted by the validating reader has the current format version and only known
  names, so no fallback is taken: converting it to the IR and back gives the same file, and the
  IR is consistent. A file that does not parse is rejected with the parser's error; one with another
  version with the error that names both versions; one of the current version in which a symbol kind,
  calling convention, callback category or primitive is unknown with the error for such a name that
  occurs in it; any other rejected file with the first inconsistency of its IR.
\<close>

theorem validated_file_lossless:
  "case from_json_validated parse debug order json of
     Ok abi \<Rightarrow> parse json = Ok abi \<and> ma_format_version abi = FORMAT_VERSION \<and>
       unknown_in_file abi = {} \<and> from_component_ir (to_component_ir abi) = abi \<and>
       ir_validate order (to_component_ir abi) = []
   | Err e \<Rightarrow>
       (case parse json of
          Err m \<Rightarrow> e = MeJson m
        | Ok abi \<Rightarrow>
            if ma_format_version abi \<noteq> FORMAT_VERSION
            then e = MeBadFormatVersion FORMAT_VERSION (ma_format_version abi)
            else if unknown_in_file abi \<noteq> {} then e \<in> unknown_in_file abi
            else \<exists>first others. ir_validate order (to_component_ir abi) = first # others \<and>
              e = MeInvalidComponentIr (debug first))"
proof (cases "parse json")
  case (Inr abi)
  show ?thesis
  proof (cases "validate_deserialized debug order abi")
    case (Inl e)
    then show ?thesis using Inr rejection_named [OF Inl] by (simp add: from_json_validated_def)
  next
    case (Inr u)
    then have ok: "validate_deserialized debug order abi = Ok ()" by simp
    show ?thesis
      using \<open>parse json = Ok abi\<close> ok accepted_known [OF ok] file_roundtrip [OF ok] ok [unfolded validate_deserialized_Ok]
      by (simp add: from_json_validated_def)
  qed
qed (simp add: from_json_validated_def)

end
