(* ===== verification/Mimi_AbiCheck.thy ===== *)
theory Mimi_AbiCheck
  imports Mimi_AbiFile
begin

text \<open>
  The tools over the serialized ABI: the diff of two versions (\<open>src/component/diff.rs\<close>), and
  the layout probe and the allocation ledger of the stability checkpoint
  (\<open>src/component/checkpoint.rs\<close>). The derived \<open>Debug\<close> texts that the diff compares are
  parameters, assumed to tell apart the values they are given; \<open>order\<close> is the iteration order of
  the hash maps.
\<close>

section \<open>The diff\<close>

datatype AbiChange =
    AddedExport string
  | RemovedExport string
  | ChangedExport string string
  | AddedImport string
  | RemovedImport string
  | ChangedImport string string
  | AddedType string
  | RemovedType string
  | ChangedType string string
  | VersionBumped u32 u32

fun is_breaking :: "AbiChange \<Rightarrow> bool" where
  "is_breaking (RemovedExport _) = True"
| "is_breaking (ChangedExport _ _) = True"
| "is_breaking (RemovedImport _) = True"
| "is_breaking (ChangedImport _ _) = True"
| "is_breaking (RemovedType _) = True"
| "is_breaking (ChangedType _ _) = True"
| "is_breaking _ = False"

definition has_breaking_changes :: "AbiChange list \<Rightarrow> bool" where
  "has_breaking_changes changes = list_ex is_breaking changes"

definition breaking_count :: "AbiChange list \<Rightarrow> nat" where
  "breaking_count changes = length (filter is_breaking changes)"

definition non_breaking_count :: "AbiChange list \<Rightarrow> nat" where
  "non_breaking_count changes = length changes - breaking_count changes"

definition diff_summary :: "AbiChange list \<Rightarrow> string" where
  "diff_summary changes =
     (if changes = [] then ''no changes''
      else if breaking_count changes > 0 then
        show_nat (breaking_count changes) @ '' breaking + '' @ show_nat (non_breaking_count changes)
        @ '' non-breaking change(s)''
      else show_nat (non_breaking_count changes) @ '' non-breaking change(s)'')"

fun type_name :: "MimiAbiType \<Rightarrow> string" where
  "type_name (MTStruct n _ _ _) = n"
| "type_name (MTEnum n _ _) = n"
| "type_name (MTAlias n _) = n"
| "type_name (MTOpaque n _) = n"

text \<open>The UTF-8 bytes of the arrow in the messages.\<close>

definition arrow :: string where
  "arrow = [CHR 32, CHR 0xE2, CHR 0x86, CHR 0x92, CHR 32]"

text \<open>Collecting pairs into a \<open>HashMap\<close>: the last one of a key stays.\<close>

definition by_name :: "('a \<Rightarrow> string) \<Rightarrow> 'a list \<Rightarrow> string \<Rightarrow> 'a option" where
  "by_name name xs = map_of (rev (map (\<lambda>x. (name x, x)) xs))"

definition param_changes ::
    "(MimiAbiTypeRef \<Rightarrow> string) \<Rightarrow> (string \<Rightarrow> string \<Rightarrow> AbiChange) \<Rightarrow> string \<Rightarrow> MimiAbiParam list
       \<Rightarrow> MimiAbiParam list \<Rightarrow> AbiChange list" where
  "param_changes debug changed name old new =
     concat (map (\<lambda>(i, op, np).
       let ot = debug (mp_ty op); nt = debug (mp_ty np)
       in if ot \<noteq> nt then [changed name (''param '' @ show_nat i @ '' type '' @ ot @ arrow @ nt)] else [])
       (zip [0..<length old] (zip old new)))"

definition symbol_changes ::
    "(MimiAbiTypeRef \<Rightarrow> string) \<Rightarrow> (string \<Rightarrow> string \<Rightarrow> AbiChange) \<Rightarrow> string \<Rightarrow> MimiAbiSymbol \<Rightarrow> MimiAbiSymbol
       \<Rightarrow> AbiChange list" where
  "symbol_changes debug changed name old new =
     (if length (ms_params old) \<noteq> length (ms_params new)
      then [changed name (''param count '' @ show_nat (length (ms_params old)) @ arrow
              @ show_nat (length (ms_params new)))]
      else param_changes debug changed name (ms_params old) (ms_params new))
     @ (let ort = debug (ms_ret old); nrt = debug (ms_ret new)
        in if ort \<noteq> nrt then [changed name (''return type '' @ ort @ arrow @ nrt)] else [])"

definition diff_symbols ::
    "(MimiAbiTypeRef \<Rightarrow> string) \<Rightarrow> (string list \<Rightarrow> string list) \<Rightarrow> (string \<Rightarrow> AbiChange) \<Rightarrow> (string \<Rightarrow> AbiChange)
       \<Rightarrow> (string \<Rightarrow> string \<Rightarrow> AbiChange) \<Rightarrow> MimiAbiSymbol list \<Rightarrow> MimiAbiSymbol list \<Rightarrow> AbiChange list" where
  "diff_symbols debug order added removed changed old new =
     concat (map (\<lambda>name.
         case by_name ms_name old name of
           None \<Rightarrow> []
         | Some old_sym \<Rightarrow>
             (case by_name ms_name new name of
                None \<Rightarrow> [removed name]
              | Some new_sym \<Rightarrow> symbol_changes debug changed name old_sym new_sym))
       (order (remdups (map ms_name old))))
     @ map added (filter (\<lambda>name. by_name ms_name old name = None) (order (remdups (map ms_name new))))"

definition diff_types ::
    "(MimiAbiType \<Rightarrow> string) \<Rightarrow> (string list \<Rightarrow> string list) \<Rightarrow> MimiAbiType list \<Rightarrow> MimiAbiType list
       \<Rightarrow> AbiChange list" where
  "diff_types debug order old new =
     concat (map (\<lambda>name.
         case by_name type_name old name of
           None \<Rightarrow> []
         | Some old_ty \<Rightarrow>
             (case by_name type_name new name of
                None \<Rightarrow> [RemovedType name]
              | Some new_ty \<Rightarrow> if debug old_ty \<noteq> debug new_ty then [ChangedType name ''definition changed''] else []))
       (order (remdups (map type_name old))))
     @ map AddedType (filter (\<lambda>name. by_name type_name old name = None) (order (remdups (map type_name new))))"

definition diff_abi ::
    "(MimiAbiTypeRef \<Rightarrow> string) \<Rightarrow> (MimiAbiType \<Rightarrow> string) \<Rightarrow> (string list \<Rightarrow> string list)
       \<Rightarrow> MimiAbi \<Rightarrow> MimiAbi \<Rightarrow> AbiChange list" where
  "diff_abi debug_ref debug_type order old new =
     (let ov = mi_abi_version (ma_identity old); nv = mi_abi_version (ma_identity new)
      in if ov \<noteq> nv then [VersionBumped ov nv] else [])
     @ diff_symbols debug_ref order AddedExport RemovedExport ChangedExport (ma_exports old) (ma_exports new)
     @ diff_symbols debug_ref order AddedImport RemovedImport ChangedImport (ma_imports old) (ma_imports new)
     @ diff_types debug_type order (ma_types old) (ma_types new)"

section \<open>What counts as compatible\<close>

definition same_signature :: "MimiAbiSymbol \<Rightarrow> MimiAbiSymbol \<Rightarrow> bool" where
  "same_signature a b \<longleftrightarrow> map mp_ty (ms_params a) = map mp_ty (ms_params b) \<and> ms_ret a = ms_ret b"

definition symbols_kept :: "MimiAbiSymbol list \<Rightarrow> MimiAbiSymbol list \<Rightarrow> bool" where
  "symbols_kept old new \<longleftrightarrow>
     (\<forall>n a. by_name ms_name old n = Some a \<longrightarrow> (\<exists>b. by_name ms_name new n = Some b \<and> same_signature a b))"

definition abi_kept :: "MimiAbi \<Rightarrow> MimiAbi \<Rightarrow> bool" where
  "abi_kept old new \<longleftrightarrow>
     symbols_kept (ma_exports old) (ma_exports new) \<and> symbols_kept (ma_imports old) (ma_imports new) \<and>
     (\<forall>n t. by_name type_name (ma_types old) n = Some t \<longrightarrow> by_name type_name (ma_types new) n = Some t)"

definition signature_refs :: "MimiAbiSymbol \<Rightarrow> MimiAbiTypeRef set" where
  "signature_refs s = insert (ms_ret s) (mp_ty ` set (ms_params s))"

definition abi_refs :: "MimiAbi \<Rightarrow> MimiAbiTypeRef set" where
  "abi_refs abi = (\<Union>s \<in> set (ma_exports abi @ ma_imports abi). signature_refs s)"

lemma by_name_mem: "by_name name xs n = Some x \<Longrightarrow> x \<in> set xs \<and> name x = n"
  by (auto simp: by_name_def dest!: map_of_SomeD)

lemma by_name_dom: "by_name name xs n = None \<longleftrightarrow> n \<notin> name ` set xs"
  by (force simp: by_name_def map_of_eq_None_iff)

lemma by_name_keys:
  "(\<exists>n \<in> name ` set xs. \<exists>a. by_name name xs n = Some a \<and> Q n a) \<longleftrightarrow>
     (\<exists>n a. by_name name xs n = Some a \<and> Q n a)"
proof -
  have "n \<in> name ` set xs" if "by_name name xs n = Some a" for n a
    using by_name_mem [OF that] by blast
  then show ?thesis by blast
qed

lemma param_changes_Nil:
  assumes "length old = length new" and "inj_on debug (mp_ty ` set (old @ new))"
  shows "param_changes debug changed name old new = [] \<longleftrightarrow> map mp_ty old = map mp_ty new"
proof -
  have "param_changes debug changed name old new = [] \<longleftrightarrow>
      (\<forall>i < length old. debug (mp_ty (old ! i)) = debug (mp_ty (new ! i)))"
  proof -
    have "set (zip [0..<length old] (zip old new)) = (\<lambda>i. (i, old ! i, new ! i)) ` {..<length old}"
    proof -
      have "zip [0..<length old] (zip old new) = map (\<lambda>i. (i, old ! i, new ! i)) [0..<length old]"
        using assms(1) by (intro nth_equalityI) simp_all
      then show ?thesis by (simp add: atLeast0LessThan)
    qed
    then show ?thesis by (simp add: param_changes_def Let_def) auto
  qed
  also have "\<dots> \<longleftrightarrow> (\<forall>i < length old. mp_ty (old ! i) = mp_ty (new ! i))"
  proof (intro all_cong)
    fix i
    assume "i < length old"
    then have "mp_ty (old ! i) \<in> mp_ty ` set (old @ new)" "mp_ty (new ! i) \<in> mp_ty ` set (old @ new)"
      using assms(1) by simp_all
    then show "debug (mp_ty (old ! i)) = debug (mp_ty (new ! i)) \<longleftrightarrow> mp_ty (old ! i) = mp_ty (new ! i)"
      by (rule inj_on_eq_iff [OF assms(2)])
  qed
  also have "\<dots> \<longleftrightarrow> map mp_ty old = map mp_ty new"
    unfolding list_eq_iff_nth_eq [of "map mp_ty old"] using assms(1) by simp
  finally show ?thesis .
qed

lemma symbol_changes_Nil:
  assumes "inj_on debug (signature_refs a \<union> signature_refs b)"
  shows "symbol_changes debug changed name a b = [] \<longleftrightarrow> same_signature a b"
proof (cases "length (ms_params a) = length (ms_params b)")
  case True
  have "inj_on debug (mp_ty ` set (ms_params a @ ms_params b))"
    by (rule inj_on_subset [OF assms]) (auto simp: signature_refs_def)
  then have params: "param_changes debug changed name (ms_params a) (ms_params b) = [] \<longleftrightarrow>
      map mp_ty (ms_params a) = map mp_ty (ms_params b)"
    by (rule param_changes_Nil [OF True])
  have ret: "debug (ms_ret a) = debug (ms_ret b) \<longleftrightarrow> ms_ret a = ms_ret b"
    by (rule inj_on_eq_iff [OF assms]) (simp_all add: signature_refs_def)
  have "symbol_changes debug changed name a b = [] \<longleftrightarrow>
      param_changes debug changed name (ms_params a) (ms_params b) = [] \<and> debug (ms_ret a) = debug (ms_ret b)"
    using True by (simp add: symbol_changes_def Let_def)
  then show ?thesis unfolding same_signature_def params ret .
next
  case False
  then show ?thesis by (auto simp: symbol_changes_def same_signature_def dest: map_eq_imp_length_eq)
qed

lemma symbol_changes_breaking:
  assumes "\<And>n d. is_breaking (changed n d)"
  shows "list_ex is_breaking (symbol_changes debug changed name a b) \<longleftrightarrow> symbol_changes debug changed name a b \<noteq> []"
proof -
  have "\<forall>c \<in> set (symbol_changes debug changed name a b). is_breaking c"
    using assms by (auto simp: symbol_changes_def param_changes_def Let_def split: if_splits prod.splits)
  then show ?thesis by (cases "symbol_changes debug changed name a b") auto
qed

lemma list_ex_concat_map: "list_ex P (concat (map f xs)) \<longleftrightarrow> (\<exists>x \<in> set xs. list_ex P (f x))"
  by (induction xs) auto

lemma list_ex_map: "list_ex P (map f xs) \<longleftrightarrow> (\<exists>x \<in> set xs. P (f x))"
  by (induction xs) auto

lemma diff_symbols_breaking:
  assumes order: "\<And>xs. set (order xs) = set xs"
    and inj: "inj_on debug (\<Union>s \<in> set (old @ new). signature_refs s)"
    and kinds: "\<And>n d. is_breaking (changed n d)" "\<And>n. is_breaking (removed n)" "\<And>n. \<not> is_breaking (added n)"
  shows "list_ex is_breaking (diff_symbols debug order added removed changed old new) \<longleftrightarrow> \<not> symbols_kept old new"
proof -
  have sig: "symbol_changes debug changed n a b \<noteq> [] \<longleftrightarrow> \<not> same_signature a b"
    if "by_name ms_name old n = Some a" "by_name ms_name new n = Some b" for n a b
  proof -
    have "inj_on debug (signature_refs a \<union> signature_refs b)"
      by (rule inj_on_subset [OF inj]) (use that by_name_mem in fastforce)
    then show ?thesis by (simp add: symbol_changes_Nil)
  qed
  have "list_ex is_breaking (case by_name ms_name old n of None \<Rightarrow> []
       | Some a \<Rightarrow> (case by_name ms_name new n of None \<Rightarrow> [removed n] | Some b \<Rightarrow> symbol_changes debug changed n a b)) \<longleftrightarrow>
      (\<exists>a. by_name ms_name old n = Some a \<and>
         (case by_name ms_name new n of None \<Rightarrow> True | Some b \<Rightarrow> symbol_changes debug changed n a b \<noteq> []))" for n
    using kinds(2) by (auto simp: symbol_changes_breaking [where changed = changed, OF kinds(1)] split: option.split)
  then have "list_ex is_breaking (diff_symbols debug order added removed changed old new) \<longleftrightarrow>
      (\<exists>n \<in> ms_name ` set old. \<exists>a. by_name ms_name old n = Some a \<and>
         (case by_name ms_name new n of None \<Rightarrow> True | Some b \<Rightarrow> symbol_changes debug changed n a b \<noteq> []))"
    using kinds(3) by (simp add: diff_symbols_def list_ex_concat_map list_ex_map order)
  also have "\<dots> \<longleftrightarrow> (\<exists>n a. by_name ms_name old n = Some a \<and>
         (case by_name ms_name new n of None \<Rightarrow> True | Some b \<Rightarrow> symbol_changes debug changed n a b \<noteq> []))"
    by (rule by_name_keys)
  also have "\<dots> \<longleftrightarrow> \<not> symbols_kept old new"
    using sig by (fastforce simp: symbols_kept_def split: option.splits)
  finally show ?thesis .
qed

lemma diff_types_breaking:
  assumes order: "\<And>xs. set (order xs) = set xs" and inj: "inj_on debug (set (old @ new))"
  shows "list_ex is_breaking (diff_types debug order old new) \<longleftrightarrow>
    \<not> (\<forall>n t. by_name type_name old n = Some t \<longrightarrow> by_name type_name new n = Some t)"
proof -
  have "list_ex is_breaking (case by_name type_name old n of None \<Rightarrow> []
       | Some a \<Rightarrow> (case by_name type_name new n of None \<Rightarrow> [RemovedType n]
           | Some b \<Rightarrow> if debug a \<noteq> debug b then [ChangedType n ''definition changed''] else [])) \<longleftrightarrow>
      (\<exists>a. by_name type_name old n = Some a \<and>
         (case by_name type_name new n of None \<Rightarrow> True | Some b \<Rightarrow> debug a \<noteq> debug b))" for n
    by (auto split: option.split)
  then have "list_ex is_breaking (diff_types debug order old new) \<longleftrightarrow>
      (\<exists>n \<in> type_name ` set old. \<exists>a. by_name type_name old n = Some a \<and>
         (case by_name type_name new n of None \<Rightarrow> True | Some b \<Rightarrow> debug a \<noteq> debug b))"
    by (simp add: diff_types_def list_ex_concat_map list_ex_map order)
  also have "\<dots> \<longleftrightarrow> (\<exists>n a. by_name type_name old n = Some a \<and>
         (case by_name type_name new n of None \<Rightarrow> True | Some b \<Rightarrow> debug a \<noteq> debug b))"
    by (rule by_name_keys)
  also have "\<dots> \<longleftrightarrow> (\<exists>n a. by_name type_name old n = Some a \<and> by_name type_name new n \<noteq> Some a)"
  proof -
    have "debug a \<noteq> debug b \<longleftrightarrow> a \<noteq> b"
      if "by_name type_name old n = Some a" "by_name type_name new n = Some b" for n a b
    proof -
      have "a \<in> set (old @ new)" "b \<in> set (old @ new)" using that by_name_mem by fastforce+
      then show ?thesis using inj by (simp add: inj_on_eq_iff)
    qed
    then show ?thesis by (intro ex_cong1 conj_cong refl) (auto split: option.split)
  qed
  finally show ?thesis by blast
qed

lemma diff_abi_breaking:
  assumes "\<And>xs. set (order xs) = set xs"
    and "inj_on debug_ref (abi_refs old \<union> abi_refs new)" and "inj_on debug_type (set (ma_types old @ ma_types new))"
  shows "has_breaking_changes (diff_abi debug_ref debug_type order old new) \<longleftrightarrow> \<not> abi_kept old new"
proof -
  have "inj_on debug_ref (\<Union>s \<in> set (ma_exports old @ ma_exports new). signature_refs s)"
      "inj_on debug_ref (\<Union>s \<in> set (ma_imports old @ ma_imports new). signature_refs s)"
    by (rule inj_on_subset [OF assms(2)]; auto simp: abi_refs_def)+
  note syms = this [THEN diff_symbols_breaking [OF assms(1)]]
  show ?thesis
    unfolding has_breaking_changes_def diff_abi_def abi_kept_def Let_def list_ex_append
    using syms diff_types_breaking [OF assms(1,3)] by simp
qed

text \<open>
  C27: the diff reports a breaking change exactly when some symbol of the old ABI is gone or has
  another parameter or return type in the new one, or some type is gone or has another
  definition. Additions and version bumps alone never count as breaking.
\<close>

theorem diff_abi_breaking_exact:
  assumes "\<And>xs. set (order xs) = set xs"
    and "inj_on debug_ref (abi_refs old \<union> abi_refs new)" and "inj_on debug_type (set (ma_types old @ ma_types new))"
  shows "has_breaking_changes (diff_abi debug_ref debug_type order old new) \<longleftrightarrow> \<not> abi_kept old new"
  by (rule diff_abi_breaking [OF assms])

definition demo_symbol :: "string \<Rightarrow> MimiAbiSymbol" where
  "demo_symbol conv = \<lparr>ms_name = ''f'', ms_kind = ''Function'', ms_params = [], ms_ret = MVoid, ms_effects = [],
     ms_is_unsafe = False, ms_call_conv = conv, ms_callback_category = None\<rparr>"

definition demo_abi :: "MimiAbiSymbol list \<Rightarrow> MimiAbi" where
  "demo_abi syms = \<lparr>ma_format_version = 1,
     ma_identity = \<lparr>mi_name = ''m'', mi_version = ''1'', mi_abi_version = 1\<rparr>,
     ma_exports = syms, ma_imports = [], ma_types = []\<rparr>"

theorem diff_abi_breaking_exact_witness:
  "has_breaking_changes (diff_abi (\<lambda>_. []) (\<lambda>_. []) rev (demo_abi [demo_symbol ''C'']) (demo_abi []))"
proof -
  have "by_name ms_name [demo_symbol ''C''] ''f'' = Some (demo_symbol ''C'')"
    by (simp add: by_name_def demo_symbol_def)
  then have "\<not> abi_kept (demo_abi [demo_symbol ''C'']) (demo_abi [])"
    by (auto simp: abi_kept_def symbols_kept_def demo_abi_def by_name_def)
  moreover have "inj_on (\<lambda>_. []) (abi_refs (demo_abi [demo_symbol ''C'']) \<union> abi_refs (demo_abi []))"
    by (simp add: abi_refs_def demo_abi_def demo_symbol_def signature_refs_def)
  ultimately show ?thesis
    using diff_abi_breaking_exact [of rev "\<lambda>_. []" "demo_abi [demo_symbol ''C'']" "demo_abi []" "\<lambda>_. []"]
    by (simp add: demo_abi_def)
qed

text \<open>
  The diff does not look at the calling convention, the kind, the safety or the callback category
  of a symbol: two versions of a function with different calling conventions show no change.
\<close>

theorem diff_abi_ignores_call_conv:
  "diff_abi debug_ref debug_type (\<lambda>xs. xs) (demo_abi [demo_symbol ''C'']) (demo_abi [demo_symbol ''Win64'']) = []"
  by (simp add: diff_abi_def diff_symbols_def diff_types_def demo_abi_def demo_symbol_def by_name_def
      symbol_changes_def param_changes_def)

section \<open>The layout probe\<close>

datatype LayoutFault =
    OffsetOutOfBounds string string u64 u64
  | FieldOverflowsStruct string string u64 u64 u64
  | FieldMisaligned string string u64 u64
  | OffsetsNotMonotonic string string
  | SizeNotAligned string u64 u64
  | AlignNotPow2 string u64

definition prim_type_size :: "string \<Rightarrow> u64 option" where
  "prim_type_size name =
     (if name \<in> {''I8'', ''U8'', ''Bool''} then Some 1
      else if name \<in> {''I16'', ''U16''} then Some 2
      else if name \<in> {''I32'', ''U32'', ''F32''} then Some 4
      else if name \<in> {''I64'', ''U64'', ''F64'', ''IntPtr'', ''UIntPtr''} then Some 8
      else None)"

fun type_size :: "MimiAbiTypeRef \<Rightarrow> u64 option" where
  "type_size (MPrimitive name) = prim_type_size name"
| "type_size (MPointer _) = Some 8"
| "type_size (MOpaque _) = Some 8"
| "type_size (MNamed _) = Some 8"
| "type_size (MSlice _) = Some 16"
| "type_size (MFatPointer _ has_capacity) = Some (if has_capacity then 24 else 16)"
| "type_size MVoid = Some 0"

definition field_align :: "u64 \<Rightarrow> u64" where
  "field_align n = (if n = 0 \<or> n = 1 then 1 else if n = 2 then 2 else if n = 4 then 4 else 8)"

definition probe_bounds :: "string \<Rightarrow> u64 option \<Rightarrow> MimiAbiField \<Rightarrow> u64 \<Rightarrow> LayoutFault list" where
  "probe_bounds name sz f offset =
     (case sz of
        None \<Rightarrow> []
      | Some n \<Rightarrow>
          if n \<le> offset then [OffsetOutOfBounds name (mf_name f) offset n]
          else case type_size (mf_ty f) of
            None \<Rightarrow> []
          | Some fsize \<Rightarrow>
              if (case checked_add offset fsize of None \<Rightarrow> True | Some e \<Rightarrow> e > n)
              then [FieldOverflowsStruct name (mf_name f) offset fsize n] else [])"

definition probe_alignment :: "string \<Rightarrow> u64 option \<Rightarrow> MimiAbiField \<Rightarrow> u64 \<Rightarrow> LayoutFault list" where
  "probe_alignment name al f offset =
     (case type_size (mf_ty f) of
        None \<Rightarrow> []
      | Some fsize \<Rightarrow>
          let falign = min (field_align fsize) (case al of Some a \<Rightarrow> a | None \<Rightarrow> 8)
          in if falign > 1 \<and> offset mod falign \<noteq> 0 then [FieldMisaligned name (mf_name f) offset falign] else [])"

fun probe_fields :: "string \<Rightarrow> u64 option \<Rightarrow> u64 option \<Rightarrow> u64 option \<Rightarrow> MimiAbiField list \<Rightarrow> LayoutFault list" where
  "probe_fields name sz al prev [] = []"
| "probe_fields name sz al prev (f # fs) =
     (case mf_offset f of
        None \<Rightarrow> probe_fields name sz al prev fs
      | Some offset \<Rightarrow>
          probe_bounds name sz f offset @ probe_alignment name al f offset
          @ (case prev of Some p \<Rightarrow> if offset \<le> p then [OffsetsNotMonotonic name (mf_name f)] else [] | None \<Rightarrow> [])
          @ probe_fields name sz al (Some offset) fs)"

definition probe_align :: "string \<Rightarrow> u64 option \<Rightarrow> u64 option \<Rightarrow> LayoutFault list" where
  "probe_align name sz al =
     (case al of
        None \<Rightarrow> []
      | Some a \<Rightarrow>
          (if a = 0 \<or> a AND (a - 1) \<noteq> 0 then [AlignNotPow2 name a] else [])
          @ (case sz of Some n \<Rightarrow> if a \<noteq> 0 \<and> n mod a \<noteq> 0 then [SizeNotAligned name n a] else [] | None \<Rightarrow> []))"

fun probe_type :: "MimiAbiType \<Rightarrow> LayoutFault list" where
  "probe_type (MTStruct name fs sz al) = probe_align name sz al @ probe_fields name sz al None fs"
| "probe_type _ = []"

definition probe_layout :: "MimiAbi \<Rightarrow> LayoutFault list" where
  "probe_layout abi = concat (map probe_type (ma_types abi))"

fun is_struct :: "MimiAbiType \<Rightarrow> bool" where
  "is_struct (MTStruct _ _ _ _) = True"
| "is_struct _ = False"

definition struct_type_count :: "MimiAbi \<Rightarrow> nat" where
  "struct_type_count abi = length (filter is_struct (ma_types abi))"

section \<open>What the probe accepts\<close>

lemma power_of_two_test:
  fixes a :: u64
  shows "a \<noteq> 0 \<and> a AND (a - 1) = 0 \<longleftrightarrow> (\<exists>k. unat a = 2 ^ k)"
proof
  assume a: "a \<noteq> 0 \<and> a AND (a - 1) = 0"
  then have pos: "0 < unat a" by (simp add: unat_gt_0)
  then obtain k where range: "2 ^ k \<le> unat a" "unat a < 2 ^ (k + 1)"
    using ex_power_ivl1 [of 2 "unat a"] by auto
  have pred: "unat (a - 1) = unat a - 1" using a by (simp add: unat_minus_one)
  have top: "bit n k" if "2 ^ k \<le> n" "n < 2 ^ (k + 1)" for n :: nat
  proof -
    have "n div 2 ^ k = 1" using that by (intro div_nat_eqI) simp_all
    then show ?thesis by (simp add: bit_iff_odd)
  qed
  have "unat a = 2 ^ k"
  proof (rule ccontr)
    assume "unat a \<noteq> 2 ^ k"
    then have "bit (unat a) k" "bit (unat a - 1) k" using top range by simp_all
    then have "bit (unat a) k" "bit (unat (a - 1)) k" unfolding pred by simp_all
    then have "bit a k" "bit (a - 1) k" by (simp_all only: bit_unsigned_iff)
    then have "bit (a AND (a - 1)) k" by (simp add: bit_and_iff)
    then show False using a by simp
  qed
  then show "\<exists>k. unat a = 2 ^ k" ..
next
  assume "\<exists>k. unat a = 2 ^ k"
  then obtain k where k: "unat a = 2 ^ k" ..
  then have "a \<noteq> 0" by (auto simp: unat_eq_0)
  moreover have "a AND (a - 1) = 0"
  proof (rule bit_word_eqI)
    fix j
    have "unat (a - 1) = mask k" using \<open>a \<noteq> 0\<close> k by (simp add: unat_minus_one mask_eq_exp_minus_1)
    then have "bit (unat (a - 1)) j \<Longrightarrow> j < k" by (simp add: bit_mask_iff)
    moreover have "bit (unat a) j \<Longrightarrow> j = k" by (simp add: k bit_exp_iff)
    ultimately show "bit (a AND (a - 1)) j \<longleftrightarrow> bit (0 :: u64) j"
      by (auto simp: bit_and_iff bit_unsigned_iff dest: bit_imp_le_length)
  qed
  ultimately show "a \<noteq> 0 \<and> a AND (a - 1) = 0" by blast
qed

text \<open>The fields that have an offset, with it.\<close>

definition placed :: "MimiAbiField list \<Rightarrow> (MimiAbiField \<times> u64) list" where
  "placed fs = concat (map (\<lambda>f. case mf_offset f of None \<Rightarrow> [] | Some off \<Rightarrow> [(f, off)]) fs)"

text \<open>The place of a field, in the natural numbers: inside the struct, and at its natural alignment.\<close>

definition well_placed :: "u64 option \<Rightarrow> u64 option \<Rightarrow> MimiAbiField \<Rightarrow> u64 \<Rightarrow> bool" where
  "well_placed sz al f off \<longleftrightarrow>
     (\<forall>n. sz = Some n \<longrightarrow> unat off < unat n \<and>
        (\<forall>k. type_size (mf_ty f) = Some k \<longrightarrow> unat off + unat k \<le> unat n)) \<and>
     (\<forall>k. type_size (mf_ty f) = Some k \<longrightarrow>
        min (unat (field_align k)) (case al of Some a \<Rightarrow> unat a | None \<Rightarrow> 8) dvd unat off
        \<or> al = Some 0)"

definition struct_consistent :: "MimiAbiField list \<Rightarrow> u64 option \<Rightarrow> u64 option \<Rightarrow> bool" where
  "struct_consistent fs sz al \<longleftrightarrow>
     (\<forall>a. al = Some a \<longrightarrow> (\<exists>k. unat a = 2 ^ k) \<and> (\<forall>n. sz = Some n \<longrightarrow> unat a dvd unat n)) \<and>
     sorted_wrt (<) (map snd (placed fs)) \<and> (\<forall>(f, off) \<in> set (placed fs). well_placed sz al f off)"

lemma bounds_Nil:
  "probe_bounds name sz f off = [] \<longleftrightarrow>
     (\<forall>n. sz = Some n \<longrightarrow> unat off < unat n \<and>
        (\<forall>k. type_size (mf_ty f) = Some k \<longrightarrow> unat off + unat k \<le> unat n))"
proof (cases sz)
  case (Some n)
  have "(case checked_add off k of None \<Rightarrow> True | Some e \<Rightarrow> e > n) \<longleftrightarrow> \<not> unat off + unat k \<le> unat n" for k
  proof (cases "checked_add off k")
    case None
    then have "\<not> unat off + unat k < 2 ^ 64" by (auto simp: checked_add_def split: if_splits)
    moreover have "unat n < 2 ^ 64" using unsigned_less [of n] by simp
    ultimately show ?thesis using None by simp
  next
    case (Some e)
    then show ?thesis using checked_add_Some [OF Some] by (simp add: word_less_nat_alt not_le)
  qed
  then show ?thesis
    by (cases "type_size (mf_ty f)") (auto simp: probe_bounds_def Some word_less_nat_alt word_le_nat_alt)
qed (simp add: probe_bounds_def)

lemma unat_min: "unat (min (x :: u64) y) = min (unat x) (unat y)"
  by (auto simp: min_def word_le_nat_alt)

lemma alignment_Nil:
  assumes "al \<noteq> Some 0"
  shows "probe_alignment name al f off = [] \<longleftrightarrow>
     (\<forall>k. type_size (mf_ty f) = Some k \<longrightarrow>
        min (unat (field_align k)) (case al of Some a \<Rightarrow> unat a | None \<Rightarrow> 8) dvd unat off)"
proof (cases "type_size (mf_ty f)")
  case (Some k)
  let ?b = "case al of Some a \<Rightarrow> a | None \<Rightarrow> 8"
  let ?m = "min (field_align k) ?b"
  have b: "unat ?b = (case al of Some a \<Rightarrow> unat a | None \<Rightarrow> 8)" by (simp split: option.split)
  have "?b \<noteq> 0" using assms by (auto split: option.split)
  then have "?m \<noteq> 0" by (auto simp: min_def field_align_def)
  then have "unat ?m \<noteq> 0" by (simp only: unat_eq_0 not_False_eq_True)
  then have "1 < ?m \<or> ?m = 1" by (simp only: word_less_nat_alt word_unat_eq_iff unsigned_1) linarith
  moreover have "off mod ?m = 0 \<longleftrightarrow> unat ?m dvd unat off"
    by (simp add: word_unat_eq_iff unat_mod_distrib dvd_eq_mod_eq_0)
  ultimately have "(1 < ?m \<and> off mod ?m \<noteq> 0) \<longleftrightarrow> \<not> unat ?m dvd unat off"
    by (metis dvd_1_left dvd_1_iff_1 less_irrefl one_dvd unsigned_1)
  then show ?thesis by (simp add: probe_alignment_def Some Let_def unat_min b)
qed (simp add: probe_alignment_def)

lemma probe_fields_Nil:
  assumes "al \<noteq> Some 0"
  shows "probe_fields name sz al prev fs = [] \<longleftrightarrow>
    sorted_wrt (<) ((case prev of Some p \<Rightarrow> [p] | None \<Rightarrow> []) @ map snd (placed fs)) \<and>
    (\<forall>(f, off) \<in> set (placed fs). well_placed sz al f off)"
proof (induction fs arbitrary: prev)
  case Nil
  then show ?case by (simp add: placed_def split: option.split)
next
  case (Cons f fs)
  show ?case
  proof (cases "mf_offset f")
    case None
    then show ?thesis using Cons.IH [of prev] by (simp add: placed_def)
  next
    case (Some off)
    have place: "placed (f # fs) = (f, off) # placed fs" by (simp add: placed_def Some)
    have here: "probe_bounds name sz f off = [] \<and> probe_alignment name al f off = [] \<longleftrightarrow> well_placed sz al f off"
      using assms by (simp add: bounds_Nil alignment_Nil well_placed_def)
    have trans: "sorted_wrt (<) (p # off # offs) \<longleftrightarrow> p < off \<and> sorted_wrt (<) (off # offs)" for p :: u64 and offs
      by auto
    show ?thesis
      unfolding place using here Cons.IH [of "Some off"] trans
      by (cases prev) (auto simp: Some not_le)
  qed
qed

lemma probe_align_Nil:
  "probe_align name sz al = [] \<longleftrightarrow>
     (\<forall>a. al = Some a \<longrightarrow> (\<exists>k. unat a = 2 ^ k) \<and> (\<forall>n. sz = Some n \<longrightarrow> unat a dvd unat n))"
proof (cases al)
  case (Some a)
  have "n mod a = 0 \<longleftrightarrow> unat a dvd unat n" for n
    by (simp add: word_unat_eq_iff unat_mod_distrib dvd_eq_mod_eq_0)
  then show ?thesis
    using power_of_two_test [of a] by (cases sz) (auto simp: probe_align_def Some)
qed (simp add: probe_align_def)

lemma probe_struct_Nil: "probe_type (MTStruct name fs sz al) = [] \<longleftrightarrow> struct_consistent fs sz al"
proof (cases "al = Some 0")
  case True
  then show ?thesis by (simp add: probe_align_def struct_consistent_def)
next
  case False
  then show ?thesis
    by (simp add: probe_align_Nil probe_fields_Nil struct_consistent_def)
qed

text \<open>
  C28: the layout probe accepts an ABI exactly when every struct is consistent, in the arithmetic
  of the natural numbers: the alignment is a power of two that divides the size, the offsets
  strictly increase, every field of known size lies inside the struct, even at offsets near the
  top of the address space, and sits at its natural alignment capped by the struct's.
\<close>

theorem probe_layout_exact:
  "probe_layout abi = [] \<longleftrightarrow>
     (\<nexists>name fs sz al. MTStruct name fs sz al \<in> set (ma_types abi) \<and> \<not> struct_consistent fs sz al)"
proof -
  have "probe_type t = [] \<longleftrightarrow> (\<nexists>name fs sz al. t = MTStruct name fs sz al \<and> \<not> struct_consistent fs sz al)" for t
    by (cases t) (simp_all add: probe_struct_Nil del: probe_type.simps(1))
  then show ?thesis by (auto simp: probe_layout_def)
qed

text \<open>
  Strictly increasing offsets do not exclude overlap: the probe accepts a struct whose second
  field starts inside the first.
\<close>

theorem probe_accepts_overlap:
  "probe_type (MTStruct ''S''
     [\<lparr>mf_name = ''a'', mf_ty = MPrimitive ''I64'', mf_offset = Some 0\<rparr>,
      \<lparr>mf_name = ''b'', mf_ty = MPrimitive ''I32'', mf_offset = Some 4\<rparr>] (Some 16) (Some 8)) = []"
  by (simp add: prim_type_size_def probe_align_def probe_bounds_def probe_alignment_def checked_add_def field_align_def)

section \<open>The allocation ledger\<close>

datatype AllocSide = SideMimi | SideForeign

datatype AllocFault = UnknownPointer u64 | DoubleFree u64 | DoubleAlloc u64 | WrongSide u64 AllocSide AllocSide

text \<open>The map of live allocations, one pair per pointer.\<close>

type_synonym ledger = "(u64 \<times> AllocSide) list"

definition ledger_new :: ledger where
  "ledger_new = []"

definition record_alloc :: "u64 \<Rightarrow> AllocSide \<Rightarrow> ledger \<Rightarrow> (AllocFault + unit) \<times> ledger" where
  "record_alloc ptr side l =
     (if map_of l ptr \<noteq> None then (Err (DoubleAlloc ptr), l) else (Ok (), (ptr, side) # l))"

definition record_free :: "u64 \<Rightarrow> AllocSide \<Rightarrow> ledger \<Rightarrow> (AllocFault + unit) \<times> ledger" where
  "record_free ptr side l =
     (case map_of l ptr of
        None \<Rightarrow> (Err (UnknownPointer ptr), l)
      | Some alloc_side \<Rightarrow>
          if alloc_side \<noteq> side then (Err (WrongSide ptr alloc_side side), l)
          else (Ok (), filter (\<lambda>(p, _). p \<noteq> ptr) l))"

definition record_free_checked :: "u64 \<Rightarrow> AllocSide \<Rightarrow> bool \<Rightarrow> ledger \<Rightarrow> (AllocFault + unit) \<times> ledger" where
  "record_free_checked ptr side ever_allocated l =
     (if map_of l ptr = None \<and> ever_allocated then (Err (DoubleFree ptr), l) else record_free ptr side l)"

definition leak_count :: "ledger \<Rightarrow> nat" where
  "leak_count l = length l"

datatype LedgerOp = LAlloc u64 AllocSide | LFree u64 AllocSide | LFreeChecked u64 AllocSide bool

fun ledger_op :: "LedgerOp \<Rightarrow> ledger \<Rightarrow> (AllocFault + unit) \<times> ledger" where
  "ledger_op (LAlloc p s) l = record_alloc p s l"
| "ledger_op (LFree p s) l = record_free p s l"
| "ledger_op (LFreeChecked p s e) l = record_free_checked p s e l"

text \<open>A run with the operations it accepted, in order.\<close>

fun ledger_run :: "ledger \<Rightarrow> LedgerOp list \<Rightarrow> ledger \<times> LedgerOp list" where
  "ledger_run l [] = (l, [])"
| "ledger_run l (c # cs) =
     (let (r, l') = ledger_op c l; (l'', done') = ledger_run l' cs in (l'', (if is_ok r then [c] else []) @ done'))"

text \<open>The history of one pointer: allocations and frees alternate, and the sides agree.\<close>

fun paired :: "u64 \<Rightarrow> AllocSide option \<Rightarrow> LedgerOp list \<Rightarrow> AllocSide option \<Rightarrow> bool" where
  "paired p a [] b = (a = b)"
| "paired p a (LAlloc q s # cs) b = (if q = p then a = None \<and> paired p (Some s) cs b else paired p a cs b)"
| "paired p a (LFree q s # cs) b = (if q = p then a = Some s \<and> paired p None cs b else paired p a cs b)"
| "paired p a (LFreeChecked q s _ # cs) b = (if q = p then a = Some s \<and> paired p None cs b else paired p a cs b)"

fun is_alloc :: "LedgerOp \<Rightarrow> bool" where
  "is_alloc (LAlloc _ _) = True"
| "is_alloc _ = False"

lemma map_of_remove: "map_of (filter (\<lambda>(p, _). p \<noteq> q) l) p = (if p = q then None else map_of l p)"
  by (induction l) auto

lemma remove_length:
  "distinct (map fst l) \<Longrightarrow> map_of l q \<noteq> None \<Longrightarrow> Suc (length (filter (\<lambda>(p, _). p \<noteq> q) l)) = length l"
proof (induction l)
  case (Cons a l)
  obtain p s where a: "a = (p, s)" by (cases a)
  show ?case
  proof (cases "p = q")
    case True
    then have "filter (\<lambda>(p, _). p \<noteq> q) l = l" using Cons.prems by (force simp: a filter_id_conv)
    then show ?thesis using True by (simp add: a)
  next
    case False
    then show ?thesis using Cons by (simp add: a)
  qed
qed simp

lemma remove_distinct: "distinct (map fst l) \<Longrightarrow> distinct (map fst (filter (\<lambda>(p, _). p \<noteq> q) l))"
  by (induction l) auto

lemma free_checked_ok:
  "record_free_checked p s e l = (Ok (), l') \<Longrightarrow> record_free p s l = (Ok (), l')"
  by (simp add: record_free_checked_def split: if_splits)

lemma free_ok:
  "record_free p s l = (Ok (), l') \<longleftrightarrow> map_of l p = Some s \<and> l' = filter (\<lambda>(q, _). q \<noteq> p) l"
  by (auto simp: record_free_def split: option.splits)

lemma alloc_ok: "record_alloc p s l = (Ok (), l') \<longleftrightarrow> map_of l p = None \<and> l' = (p, s) # l"
  by (auto simp: record_alloc_def)

lemma ledger_op_err: "ledger_op c l = (Err e, l') \<Longrightarrow> l' = l"
  by (cases c) (auto simp: record_alloc_def record_free_def record_free_checked_def split: if_splits option.splits)

lemma ledger_run_paired:
  assumes "distinct (map fst l)" and "ledger_run l cs = (l', acc)"
  shows "distinct (map fst l') \<and> paired p (map_of l p) acc (map_of l' p) \<and>
    length l' + length (filter (Not \<circ> is_alloc) acc) = length l + length (filter is_alloc acc)"
  using assms
proof (induction cs arbitrary: l acc)
  case (Cons c cs)
  obtain r l1 where step: "ledger_op c l = (r, l1)" by fastforce
  obtain acc1 where rest: "ledger_run l1 cs = (l', acc1)" and res: "acc = (if is_ok r then [c] else []) @ acc1"
    using Cons.prems(2) by (auto simp: step split: prod.splits)
  show ?case
  proof (cases r)
    case (Inl e)
    then have "l1 = l" using step ledger_op_err by blast
    then show ?thesis using Cons.IH [OF _ rest] Cons.prems(1) res Inl by simp
  next
    case (Inr u)
    then have step: "ledger_op c l = (Ok (), l1)" using step by simp
    have free: ?thesis if op: "record_free q s l = (Ok (), l1)"
      and c: "\<And>cs a b. paired p a (c # cs) b = (if q = p then a = Some s \<and> paired p None cs b else paired p a cs b)"
        "\<not> is_alloc c" for q s
    proof -
      have l1: "map_of l q = Some s" "l1 = filter (\<lambda>(p, _). p \<noteq> q) l" using op by (simp_all add: free_ok)
      have "distinct (map fst l1)" unfolding l1(2) by (rule remove_distinct) (rule Cons.prems)
      from Cons.IH [OF this rest] have IH: "distinct (map fst l')" "paired p (map_of l1 p) acc1 (map_of l' p)"
          "length l' + length (filter (Not \<circ> is_alloc) acc1) = length l1 + length (filter is_alloc acc1)"
        by blast+
      have "Suc (length l1) = length l" using remove_length [OF Cons.prems(1), of q] l1 by simp
      moreover have "paired p (map_of l p) (c # acc1) (map_of l' p)"
      proof (cases "q = p")
        case True
        then show ?thesis using IH(2) l1(1) unfolding l1(2) by (simp add: c map_of_remove)
      next
        case False
        then show ?thesis using IH(2) unfolding l1(2) by (simp add: c map_of_remove)
      qed
      ultimately show ?thesis using IH c(2) res Inr by (simp add: comp_def)
    qed
    show ?thesis
    proof (cases c)
      case (LAlloc q s)
      then have l1: "map_of l q = None" "l1 = (q, s) # l" using step by (simp_all add: alloc_ok)
      have "distinct (map fst l1)" using Cons.prems(1) l1 by (auto simp: map_of_eq_None_iff)
      from Cons.IH [OF this rest] show ?thesis using l1 res Inr LAlloc by (auto split: if_splits)
    next
      case (LFree q s)
      then show ?thesis using free [of q s] step by simp
    next
      case (LFreeChecked q s e)
      then have "record_free q s l = (Ok (), l1)" using step free_checked_ok by simp
      then show ?thesis using free [of q s] LFreeChecked by simp
    qed
  qed
qed simp

text \<open>
  C29: over any sequence of ledger operations from the empty ledger, the operations accepted on a
  pointer alternate between an allocation and a free by the same side, the ledger holds exactly
  the allocations that are not yet freed, and the leak count is the number of accepted
  allocations less the number of accepted frees. A rejected operation changes nothing.
\<close>

theorem ledger_pairs_frees:
  "case ledger_run ledger_new cs of
     (l, acc) \<Rightarrow> (\<nexists>p. \<not> paired p None acc (map_of l p)) \<and>
       leak_count l + length (filter (Not \<circ> is_alloc) acc) = length (filter is_alloc acc)"
proof -
  obtain l acc where run: "ledger_run [] cs = (l, acc)" by fastforce
  show ?thesis
    using ledger_run_paired [OF _ run] by (simp add: ledger_new_def leak_count_def run)
qed

end
