(* ===== verification/Mimi_Unify.thy ===== *)
theory Mimi_Unify
  imports Mimi_SessionRun
begin

text \<open>
  The unification table of the type checker (\<open>src/core/unification.rs\<close>): parent links of a
  union-find forest, bindings of the roots, and an undo trail that makes every constraint
  atomic. An operation takes the table and returns its outcome with the table it leaves;
  \<open>None\<close> is an operation that does not return (a walk around a cycle of parent links) or a
  unification deeper than the fuel. \<open>Mimi_UnifyTerm\<close> shows that neither happens on the tables the
  operations build.
\<close>

section \<open>Errors and the table\<close>

datatype ResolveError =
    ReDepthOverflow string
  | ReUnboundVar u32
  | ReBindingCycle u32
  | ReResidualType string
  | ReEscapeHatch string

datatype UnifyError =
    UeMismatch string
  | UeOccurCheck u32 string
  | UeResolve ResolveError
  | UeLinearContainerEscape string

datatype Undo =
    UndoParent u32 "u32 option"
  | UndoBinding u32 "Type option"
  | UndoNextVar u32

record UnificationTable =
  ut_parent :: "u32 \<rightharpoonup> u32"
  ut_binding :: "u32 \<rightharpoonup> Type"
  ut_next_var :: u32
  ut_trail :: "Undo list"
  ut_depth :: nat
  ut_linear_names :: "string set"

definition ut_new :: UnificationTable where
  "ut_new = \<lparr>ut_parent = Map.empty, ut_binding = Map.empty, ut_next_var = 0, ut_trail = [],
     ut_depth = 0, ut_linear_names = {}\<rparr>"

definition ut_reset :: "UnificationTable \<Rightarrow> UnificationTable" where
  "ut_reset t = t\<lparr>ut_parent := Map.empty, ut_binding := Map.empty, ut_next_var := 0, ut_trail := [],
     ut_depth := 0\<rparr>"

definition note_linear_type_name :: "string \<Rightarrow> UnificationTable \<Rightarrow> UnificationTable" where
  "note_linear_type_name n t = t\<lparr>ut_linear_names := insert n (ut_linear_names t)\<rparr>"

definition get_binding :: "UnificationTable \<Rightarrow> u32 \<Rightarrow> Type option" where
  "get_binding t root = ut_binding t root"

text \<open>Operations that may fail or not return, and the \<open>?\<close> that chains them.\<close>

type_synonym ('e, 'a) table_op = "UnificationTable \<Rightarrow> (('e + 'a) \<times> UnificationTable) option"

definition op_bind :: "('e, 'a) table_op \<Rightarrow> ('a \<Rightarrow> ('e, 'b) table_op) \<Rightarrow> ('e, 'b) table_op" where
  "op_bind m f t =
     (case m t of
        None \<Rightarrow> None
      | Some (Err e, t') \<Rightarrow> Some (Err e, t')
      | Some (Ok x, t') \<Rightarrow> f x t')"

definition op_return :: "'a \<Rightarrow> ('e, 'a) table_op" where
  "op_return x t = Some (Ok x, t)"

definition op_fail :: "'e \<Rightarrow> ('e, 'a) table_op" where
  "op_fail e t = Some (Err e, t)"

definition op_update :: "(UnificationTable \<Rightarrow> UnificationTable) \<Rightarrow> ('e, unit) table_op" where
  "op_update f t = Some (Ok (), f t)"

text \<open>\<open>From<ResolveError>\<close>: the conversion that \<open>?\<close> applies.\<close>

definition lift_resolve :: "(ResolveError, 'a) table_op \<Rightarrow> (UnifyError, 'a) table_op" where
  "lift_resolve m t =
     (case m t of
        None \<Rightarrow> None
      | Some (Err e, t') \<Rightarrow> Some (Err (UeResolve e), t')
      | Some (Ok x, t') \<Rightarrow> Some (Ok x, t'))"

fun op_map :: "('a \<Rightarrow> ('e, 'b) table_op) \<Rightarrow> 'a list \<Rightarrow> ('e, 'b list) table_op" where
  "op_map f [] = op_return []"
| "op_map f (x # xs) = op_bind (f x) (\<lambda>y. op_bind (op_map f xs) (\<lambda>ys. op_return (y # ys)))"

fun op_each :: "('a \<Rightarrow> ('e, unit) table_op) \<Rightarrow> 'a list \<Rightarrow> ('e, unit) table_op" where
  "op_each f [] = op_return ()"
| "op_each f (x # xs) = op_bind (f x) (\<lambda>_. op_each f xs)"

section \<open>Writes that record how to undo them\<close>

definition record_undo :: "Undo \<Rightarrow> UnificationTable \<Rightarrow> UnificationTable" where
  "record_undo u t = (if 0 < ut_depth t then t\<lparr>ut_trail := vec_push (ut_trail t) u\<rparr> else t)"

definition set_parent :: "u32 \<Rightarrow> u32 \<Rightarrow> UnificationTable \<Rightarrow> UnificationTable" where
  "set_parent i p t =
     (if ut_parent t i = Some p then t
      else (record_undo (UndoParent i (ut_parent t i)) t)\<lparr>ut_parent := (ut_parent t)(i \<mapsto> p)\<rparr>)"

definition set_binding :: "u32 \<Rightarrow> Type \<Rightarrow> UnificationTable \<Rightarrow> UnificationTable" where
  "set_binding i ty t =
     (if (case ut_binding t i of Some old \<Rightarrow> type_eq old ty | None \<Rightarrow> False) then t
      else (record_undo (UndoBinding i (ut_binding t i)) t)\<lparr>ut_binding := (ut_binding t)(i \<mapsto> ty)\<rparr>)"

definition undo_one :: "Undo \<Rightarrow> UnificationTable \<Rightarrow> UnificationTable" where
  "undo_one u t =
     (case u of
        UndoParent i previous \<Rightarrow> t\<lparr>ut_parent := (ut_parent t)(i := previous)\<rparr>
      | UndoBinding i previous \<Rightarrow> t\<lparr>ut_binding := (ut_binding t)(i := previous)\<rparr>
      | UndoNextVar previous \<Rightarrow> t\<lparr>ut_next_var := previous\<rparr>)"

function rollback_to :: "nat \<Rightarrow> UnificationTable \<Rightarrow> UnificationTable" where
  "rollback_to checkpoint t =
     (if checkpoint < length (ut_trail t)
      then rollback_to checkpoint (undo_one (last (ut_trail t)) (t\<lparr>ut_trail := butlast (ut_trail t)\<rparr>))
      else t)"
  by pat_completeness auto
termination
  by (relation "measure (\<lambda>(c, t). length (ut_trail t))") (auto simp: undo_one_def split: Undo.split)

declare rollback_to.simps [simp del]

text \<open>\<open>fresh_var\<close>; the identifiers running out is a panic, here \<open>None\<close>.\<close>

definition fresh_var :: "UnificationTable \<Rightarrow> (u32 \<times> UnificationTable) option" where
  "fresh_var t =
     (let i = ut_next_var t; t = record_undo (UndoNextVar i) t
      in case checked_add i 1 of
           None \<Rightarrow> None
         | Some n \<Rightarrow> Some (i, set_parent i i (t\<lparr>ut_next_var := n\<rparr>)))"

section \<open>Roots\<close>

definition parent_of :: "(u32 \<rightharpoonup> u32) \<Rightarrow> u32 \<Rightarrow> u32" where
  "parent_of p c = (case p c of Some q \<Rightarrow> q | None \<Rightarrow> c)"

partial_function (option) find_walk :: "(u32 \<rightharpoonup> u32) \<Rightarrow> u32 \<Rightarrow> u32 option" where
  "find_walk p current =
     (let parent = parent_of p current
      in if parent = current then Some current else find_walk p parent)"

declare find_walk.simps [code]

partial_function (option) compress :: "u32 \<Rightarrow> u32 \<Rightarrow> UnificationTable \<Rightarrow> UnificationTable option" where
  "compress root current t =
     (if current = root then Some t
      else compress root (parent_of (ut_parent t) current) (set_parent current root t))"

declare compress.simps [code]

definition ut_find :: "u32 \<Rightarrow> ('e, u32) table_op" where
  "ut_find i t =
     (case find_walk (ut_parent t) i of
        None \<Rightarrow> None
      | Some root \<Rightarrow> map_option (\<lambda>t'. (Ok root, t')) (compress root i t))"

section \<open>Printing\<close>

text \<open>\<open>fmt_type\<close> of \<open>src/core/helpers.rs\<close>; a string is its UTF-8 bytes.\<close>

fun fmt_type :: "Type \<Rightarrow> string" where
  "fmt_type (TyLocated _ t) = fmt_type t"
| "fmt_type (TyName n args) =
     (if args = [] then n else n @ ''<'' @ join_comma (map fmt_type args) @ ''>'')"
| "fmt_type (TyRef lt inner) =
     (case lt of Some l \<Rightarrow> ''&'' @ [CHR 0x27] @ l @ '' '' @ fmt_type inner | None \<Rightarrow> ''&'' @ fmt_type inner)"
| "fmt_type (TyRefMut lt inner) =
     (case lt of Some l \<Rightarrow> ''&'' @ [CHR 0x27] @ l @ '' mut '' @ fmt_type inner
      | None \<Rightarrow> ''&mut '' @ fmt_type inner)"
| "fmt_type (TyOption inner) = ''Option<'' @ fmt_type inner @ ''>''"
| "fmt_type (TyResult ok err) = ''Result<'' @ fmt_type ok @ '', '' @ fmt_type err @ ''>''"
| "fmt_type (TyTuple elems) = ''('' @ join_comma (map fmt_type elems) @ '')''"
| "fmt_type (TyFunc args ret) = ''fn('' @ join_comma (map fmt_type args) @ '') -> '' @ fmt_type ret"
| "fmt_type (TyExternFunc args ret) =
     ''extern '' @ [CHR 0x22] @ ''C'' @ [CHR 0x22] @ '' fn('' @ join_comma (map fmt_type args) @ '') -> ''
     @ fmt_type ret"
| "fmt_type (TyCBuffer inner) = ''CBuffer<'' @ fmt_type inner @ ''>''"
| "fmt_type (TyCap n) = ''cap '' @ n"
| "fmt_type (TyCapAtom n) = ''cap '' @ n"
| "fmt_type (TyShared inner) = ''shared '' @ fmt_type inner"
| "fmt_type (TyWeak inner) = ''weak '' @ fmt_type inner"
| "fmt_type (TyNewtype n inner) =
     (case ty_unlocated inner of
        TyNewtype _ _ \<Rightarrow> ''newtype '' @ n @ '' '' @ fmt_type inner
      | _ \<Rightarrow> fmt_type inner)"
| "fmt_type (TyArray inner len) = ''['' @ fmt_type inner @ ''; '' @ show_nat len @ '']''"
| "fmt_type (TySlice inner) = ''['' @ fmt_type inner @ '']''"
| "fmt_type (TyImplTrait traits) = ''impl '' @ join_with '' + '' traits"
| "fmt_type (TyDynTrait traits) = ''dyn '' @ join_with '' + '' traits"
| "fmt_type (TyRawPtr inner) = ''*'' @ fmt_type inner"
| "fmt_type (TyRawPtrMut inner) = ''*mut '' @ fmt_type inner"
| "fmt_type TyNothing = ''nothing''"
| "fmt_type TyInfer = ''infer''"
| "fmt_type (TyTypeVar i) = ''?T'' @ show_nat (unat i)"
| "fmt_type (TyForAll params body) = ''forall '' @ join_comma params @ ''. '' @ fmt_type body"
| "fmt_type TyTyErr = [CHR 0xC2, CHR 0xAB] @ ''error'' @ [CHR 0xC2, CHR 0xBB]"

section \<open>Predicates on types\<close>

fun contains_linear_surface :: "string set \<Rightarrow> Type \<Rightarrow> bool" where
  "contains_linear_surface names (TyLocated _ t) = contains_linear_surface names t"
| "contains_linear_surface names (TyCap _) = True"
| "contains_linear_surface names (TyCapAtom _) = True"
| "contains_linear_surface names (TyName n args) =
     (n \<in> names \<or> ((n = ''SessionChan'' \<or> n = ''session_chan'') \<and> args \<noteq> []) \<or>
      list_ex (contains_linear_surface names) args)"
| "contains_linear_surface names (TyOption t) = contains_linear_surface names t"
| "contains_linear_surface names (TyCBuffer t) = contains_linear_surface names t"
| "contains_linear_surface names (TySlice t) = contains_linear_surface names t"
| "contains_linear_surface names (TyNewtype _ t) = contains_linear_surface names t"
| "contains_linear_surface names (TyArray t _) = contains_linear_surface names t"
| "contains_linear_surface names (TyResult t e) =
     (contains_linear_surface names t \<or> contains_linear_surface names e)"
| "contains_linear_surface names (TyTuple ts) = list_ex (contains_linear_surface names) ts"
| "contains_linear_surface names _ = False"

definition occurs_in :: "u32 \<Rightarrow> Type \<Rightarrow> bool" where
  "occurs_in v t = type_any (\<lambda>n. n = TyTypeVar v) t"

definition is_escape_type :: "Type \<Rightarrow> bool" where
  "is_escape_type t =
     type_any (\<lambda>n. case n of TyInfer \<Rightarrow> True | TyForAll _ _ \<Rightarrow> True
                   | TyName name _ \<Rightarrow> name = ''_'' \<or> name = ''unknown'' | _ \<Rightarrow> False) t"

definition residual_node :: "Type \<Rightarrow> ResolveError + unit" where
  "residual_node n =
     (case n of
        TyTypeVar i \<Rightarrow> Err (ReUnboundVar i)
      | TyForAll _ _ \<Rightarrow> Err (ReResidualType ''unresolved ForAll quantifier'')
      | TyInfer \<Rightarrow> Err (ReEscapeHatch ''Infer placeholder'')
      | TyName name _ \<Rightarrow>
          if name = ''_'' \<or> name = ''unknown''
          then Err (ReEscapeHatch (''non-final type name '' @ quoted name)) else Ok ()
      | TyTyErr \<Rightarrow> Err (ReResidualType ''TyErr poison type in finalized output'')
      | _ \<Rightarrow> Ok ())"

definition scan_residual :: "Type \<Rightarrow> ResolveError + unit" where
  "scan_residual t = type_try_visit residual_node t"

section \<open>Resolution\<close>

definition MAX_RESOLVE_DEPTH :: nat where
  "MAX_RESOLVE_DEPTH = 64"

text \<open>
  The first argument is the number of levels left, \<open>MAX_RESOLVE_DEPTH - depth\<close>. The set of
  variables being resolved is passed down: the code removes a root from it again when its
  binding resolved, and drops the set when it did not.
\<close>

primrec resolve_with_depth :: "nat \<Rightarrow> u32 set \<Rightarrow> Type \<Rightarrow> (ResolveError, Type) table_op" where
  "resolve_with_depth 0 resolving ty = op_fail (ReDepthOverflow (fmt_type ty))"
| "resolve_with_depth (Suc left) resolving ty =
     (case ty of
        TyLocated m inner \<Rightarrow>
          op_bind (resolve_with_depth left resolving inner) (\<lambda>r. op_return (ty_with_meta m r))
      | TyTypeVar i \<Rightarrow>
          op_bind (ut_find i) (\<lambda>root t.
            case ut_binding t root of
              None \<Rightarrow> op_return (TyTypeVar root) t
            | Some bound \<Rightarrow>
                if root \<in> resolving then op_fail (ReBindingCycle root) t
                else op_bind (resolve_with_depth left (insert root resolving) bound) (\<lambda>r.
                       op_bind (op_update (set_binding root r)) (\<lambda>_. op_return r)) t)
      | TyForAll _ _ \<Rightarrow> op_return ty
      | _ \<Rightarrow>
          op_bind (op_map (resolve_with_depth left resolving) (ty_kids ty)) (\<lambda>ks.
            op_return (ty_with_kids ty ks)))"

definition resolve_infer :: "Type \<Rightarrow> (ResolveError, Type) table_op" where
  "resolve_infer ty = resolve_with_depth MAX_RESOLVE_DEPTH {} ty"

text \<open>A failed debug assertion is a panic, here \<open>None\<close>; \<open>debug\<close> is \<open>cfg!(debug_assertions)\<close>.\<close>

definition zonk_or_unknown :: "bool \<Rightarrow> Type \<Rightarrow> UnificationTable \<Rightarrow> (Type \<times> UnificationTable) option" where
  "zonk_or_unknown debug ty t =
     (case resolve_infer ty t of
        None \<Rightarrow> None
      | Some (Ok r, t') \<Rightarrow> Some (r, t')
      | Some (Err e, t') \<Rightarrow> if debug then None else Some (TyName ''unknown'' [], t'))"

definition zonk :: "Type \<Rightarrow> (ResolveError, Type) table_op" where
  "zonk ty =
     op_bind (resolve_infer ty) (\<lambda>r. case scan_residual r of Err e \<Rightarrow> op_fail e | Ok _ \<Rightarrow> op_return r)"

section \<open>Unification\<close>

text \<open>
  What the arms of \<open>unify_inference_inner\<close> below the variable arms ask for: pairs to unify in
  order, or an error. The arms are read in the order of the code: the escape types first, then
  the constructors. \<open>a\<close>, \<open>b\<close> are the resolved types, \<open>ua\<close>, \<open>ub\<close> the same without their
  outer annotations.
\<close>

type_synonym goals = "UnifyError + (Type \<times> Type) list"

definition is_name :: "string \<Rightarrow> Type \<Rightarrow> bool" where
  "is_name s ty = (case ty of TyName n _ \<Rightarrow> n = s | _ \<Rightarrow> False)"

definition cannot_unify :: "string \<Rightarrow> string \<Rightarrow> UnifyError" where
  "cannot_unify x y = UeMismatch (''cannot unify '' @ x @ '' with '' @ y)"

definition linear_escape :: "string \<Rightarrow> Type \<Rightarrow> Type \<Rightarrow> UnifyError" where
  "linear_escape n a b =
     UeLinearContainerEscape (''linear elements cannot flow through bare container annotation '' @ quoted n @
       '' ('' @ quoted (fmt_type a) @ '' vs '' @ quoted (fmt_type b) @
       ''); bare containers are not linearly tracked'')"

text \<open>The last arms: a newtype on the right unfolds, anything else does not unify.\<close>

definition other_arm :: "Type \<Rightarrow> Type \<Rightarrow> goals" where
  "other_arm a b =
     (case ty_unlocated b of
        TyNewtype _ inner \<Rightarrow> Ok [(inner, ty_unlocated a)]
      | _ \<Rightarrow> Err (cannot_unify (fmt_type a) (fmt_type b)))"

definition name_arms :: "string set \<Rightarrow> Type \<Rightarrow> Type \<Rightarrow> string \<Rightarrow> Type list \<Rightarrow> goals" where
  "name_arms names a b na aa =
     (case ty_unlocated b of
        TyOption inner \<Rightarrow>
          if na = ''Option'' \<and> length aa = 1 then Ok [(aa ! 0, inner)] else other_arm a b
      | TyResult ok err \<Rightarrow>
          if na = ''Result'' \<and> length aa = 2 then Ok [(aa ! 0, ok), (aa ! 1, err)] else other_arm a b
      | TyName nb ab \<Rightarrow>
          if na = nb \<and> (aa = [] \<or> ab = []) \<and> (na = ''List'' \<or> na = ''Set'' \<or> na = ''Map'')
          then if contains_linear_surface names a \<or> contains_linear_surface names b
               then Err (linear_escape na a b) else Ok []
          else if na = nb \<and> length aa = length ab then Ok (zip aa ab)
          else other_arm a b
      | _ \<Rightarrow> other_arm a b)"

definition func_arm :: "Type list \<Rightarrow> Type \<Rightarrow> Type list \<Rightarrow> Type \<Rightarrow> goals" where
  "func_arm a_args a_ret b_args b_ret =
     (if length a_args \<noteq> length b_args
      then Err (UeMismatch (''function arity mismatch: '' @ show_nat (length a_args) @ '' vs '' @
             show_nat (length b_args)))
      else Ok (zip a_args b_args @ [(a_ret, b_ret)]))"

definition trait_arm :: "string list \<Rightarrow> string list \<Rightarrow> goals" where
  "trait_arm ta tb =
     (if ta = tb then Ok []
      else Err (UeMismatch (''trait mismatch: '' @ join_comma ta @ '' vs '' @ join_comma tb)))"

definition cap_arm :: "string \<Rightarrow> string \<Rightarrow> goals" where
  "cap_arm ca cb =
     (if ca = cb then Ok [] else Err (UeMismatch (''capability mismatch: '' @ ca @ '' vs '' @ cb)))"

definition constructor_arms :: "string set \<Rightarrow> Type \<Rightarrow> Type \<Rightarrow> goals" where
  "constructor_arms names a b =
     (let ua = ty_unlocated a; ub = ty_unlocated b in
      case ua of
        TyName na aa \<Rightarrow> name_arms names a b na aa
      | TyOption x \<Rightarrow>
          (case ub of
             TyName n args \<Rightarrow>
               if n = ''Option'' \<and> length args = 1 then Ok [(x, args ! 0)] else other_arm a b
           | TyOption y \<Rightarrow> Ok [(x, y)] | _ \<Rightarrow> other_arm a b)
      | TyResult x1 x2 \<Rightarrow>
          (case ub of
             TyName n args \<Rightarrow>
               if n = ''Result'' \<and> length args = 2 then Ok [(x1, args ! 0), (x2, args ! 1)]
               else other_arm a b
           | TyResult y1 y2 \<Rightarrow> Ok [(x1, y1), (x2, y2)] | _ \<Rightarrow> other_arm a b)
      | TyTuple xs \<Rightarrow>
          (case ub of TyTuple ys \<Rightarrow> if length xs = length ys then Ok (zip xs ys) else other_arm a b
           | _ \<Rightarrow> other_arm a b)
      | TyFunc xs x \<Rightarrow> (case ub of TyFunc ys y \<Rightarrow> func_arm xs x ys y | _ \<Rightarrow> other_arm a b)
      | TyExternFunc xs x \<Rightarrow> (case ub of TyExternFunc ys y \<Rightarrow> func_arm xs x ys y | _ \<Rightarrow> other_arm a b)
      | TyRef _ x \<Rightarrow> (case ub of TyRef _ y \<Rightarrow> Ok [(x, y)] | _ \<Rightarrow> other_arm a b)
      | TyRefMut _ x \<Rightarrow> (case ub of TyRefMut _ y \<Rightarrow> Ok [(x, y)] | _ \<Rightarrow> other_arm a b)
      | TyShared x \<Rightarrow> (case ub of TyShared y \<Rightarrow> Ok [(x, y)] | _ \<Rightarrow> other_arm a b)
      | TyWeak x \<Rightarrow> (case ub of TyWeak y \<Rightarrow> Ok [(x, y)] | _ \<Rightarrow> other_arm a b)
      | TyRawPtr x \<Rightarrow> (case ub of TyRawPtr y \<Rightarrow> Ok [(x, y)] | _ \<Rightarrow> other_arm a b)
      | TyRawPtrMut x \<Rightarrow> (case ub of TyRawPtrMut y \<Rightarrow> Ok [(x, y)] | _ \<Rightarrow> other_arm a b)
      | TyCBuffer x \<Rightarrow> (case ub of TyCBuffer y \<Rightarrow> Ok [(x, y)] | _ \<Rightarrow> other_arm a b)
      | TySlice x \<Rightarrow> (case ub of TySlice y \<Rightarrow> Ok [(x, y)] | _ \<Rightarrow> other_arm a b)
      | TyArray x n \<Rightarrow>
          (case ub of TyArray y k \<Rightarrow> if n = k then Ok [(x, y)] else other_arm a b | _ \<Rightarrow> other_arm a b)
      | TyNewtype na x \<Rightarrow>
          (case ub of
             TyNewtype nb y \<Rightarrow>
               if na = nb then Ok [(x, y)] else Err (cannot_unify (fmt_type a) (fmt_type b))
           | _ \<Rightarrow> Ok [(x, ub)])
      | TyImplTrait ta \<Rightarrow> (case ub of TyImplTrait tb \<Rightarrow> trait_arm ta tb | _ \<Rightarrow> other_arm a b)
      | TyDynTrait ta \<Rightarrow> (case ub of TyDynTrait tb \<Rightarrow> trait_arm ta tb | _ \<Rightarrow> other_arm a b)
      | TyCap ca \<Rightarrow>
          (case ub of TyCap cb \<Rightarrow> cap_arm ca cb | TyCapAtom cb \<Rightarrow> cap_arm ca cb | _ \<Rightarrow> other_arm a b)
      | TyCapAtom ca \<Rightarrow>
          (case ub of TyCap cb \<Rightarrow> cap_arm ca cb | TyCapAtom cb \<Rightarrow> cap_arm ca cb | _ \<Rightarrow> other_arm a b)
      | _ \<Rightarrow> other_arm a b)"

definition type_arms :: "string set \<Rightarrow> Type \<Rightarrow> Type \<Rightarrow> goals" where
  "type_arms names a b =
     (let ua = ty_unlocated a; ub = ty_unlocated b in
      if is_name ''_'' ua \<or> is_name ''_'' ub then Ok []
      else if is_name ''Any'' ua then Ok []
      else if ua = TyInfer \<and> is_name ''Any'' ub then Ok []
      else if is_name ''Any'' ub \<and> (is_name ''Any'' ua \<or> is_name ''_'' ua) then Ok []
      else if ua = TyTyErr \<or> ub = TyTyErr then Ok []
      else case (ua, ub) of
        (TyName na aa, TyName nb ab) \<Rightarrow>
          if na = ''unknown'' \<and> nb \<noteq> ''unknown'' then Err (cannot_unify ''unknown'' nb)
          else if nb = ''unknown'' \<and> na \<noteq> ''unknown'' then Err (cannot_unify na ''unknown'')
          else constructor_arms names a b
      | _ \<Rightarrow> if ua = TyInfer \<or> ub = TyInfer then Ok [] else constructor_arms names a b)"

text \<open>A variable against a type that is no variable.\<close>

definition bind_var :: "u32 \<Rightarrow> Type \<Rightarrow> (UnifyError, unit) table_op" where
  "bind_var i ty =
     (if occurs_in i ty then op_fail (UeOccurCheck i (fmt_type ty))
      else op_bind (ut_find i) (\<lambda>root. op_update (set_binding root ty)))"

definition join_vars :: "u32 \<Rightarrow> u32 \<Rightarrow> (UnifyError, unit) table_op" where
  "join_vars i j =
     op_bind (ut_find i) (\<lambda>ri. op_bind (ut_find j) (\<lambda>rj.
       if ri \<noteq> rj then op_update (set_parent ri rj) else op_return ()))"

definition unify_resolved ::
  "(Type \<times> Type \<Rightarrow> (UnifyError, unit) table_op) \<Rightarrow> Type \<Rightarrow> Type \<Rightarrow> (UnifyError, unit) table_op" where
  "unify_resolved unify a b t =
     (case (ty_unlocated a, ty_unlocated b) of
        (TyTypeVar i, TyTypeVar j) \<Rightarrow> join_vars i j t
      | (TyTypeVar i, _) \<Rightarrow> bind_var i b t
      | (_, TyTypeVar j) \<Rightarrow> bind_var j a t
      | _ \<Rightarrow>
          (case type_arms (ut_linear_names t) a b of
             Err e \<Rightarrow> op_fail e t
           | Ok goals \<Rightarrow> op_each unify goals t))"

text \<open>The first argument bounds the depth of the recursion.\<close>

primrec unify_inference_inner :: "nat \<Rightarrow> Type \<Rightarrow> Type \<Rightarrow> (UnifyError, unit) table_op" where
  "unify_inference_inner 0 a b = (\<lambda>t. None)"
| "unify_inference_inner (Suc n) a b =
     op_bind (lift_resolve (resolve_infer a)) (\<lambda>ar.
       op_bind (lift_resolve (resolve_infer b)) (\<lambda>br.
         unify_resolved (\<lambda>(x, y). unify_inference_inner n x y) ar br))"

section \<open>Transactions\<close>

definition end_transaction :: "nat \<Rightarrow> bool \<Rightarrow> UnificationTable \<Rightarrow> UnificationTable" where
  "end_transaction checkpoint keep t =
     (let t = t\<lparr>ut_depth := ut_depth t - 1\<rparr>;
          t = (if keep then t else rollback_to checkpoint t)
      in if ut_depth t = 0 then t\<lparr>ut_trail := []\<rparr> else t)"

definition transaction :: "(UnifyError, unit) table_op \<Rightarrow> (UnifyError, unit) table_op" where
  "transaction operation t =
     (case operation (t\<lparr>ut_depth := ut_depth t + 1\<rparr>) of
        None \<Rightarrow> None
      | Some (r, t') \<Rightarrow> Some (r, end_transaction (length (ut_trail t)) (is_ok r) t'))"

definition constrain :: "nat \<Rightarrow> Type \<Rightarrow> Type \<Rightarrow> (UnifyError, unit) table_op" where
  "constrain n a b =
     transaction
       (op_bind (lift_resolve (resolve_infer a)) (\<lambda>ar.
          op_bind (lift_resolve (resolve_infer b)) (\<lambda>br.
            if is_escape_type ar \<or> is_escape_type br
            then op_fail (UeMismatch (''checked unification rejects escape types '' @ fmt_type ar @
                   '' and '' @ fmt_type br))
            else unify_inference_inner n ar br)))"

definition unify :: "nat \<Rightarrow> Type \<Rightarrow> Type \<Rightarrow> (UnifyError, unit) table_op" where
  "unify n a b = constrain n a b"

definition unify_inference :: "nat \<Rightarrow> Type \<Rightarrow> Type \<Rightarrow> (UnifyError, unit) table_op" where
  "unify_inference n a b = transaction (unify_inference_inner n a b)"

definition probe_compatible :: "nat \<Rightarrow> Type \<Rightarrow> Type \<Rightarrow> UnificationTable \<Rightarrow> (bool \<times> UnificationTable) option" where
  "probe_compatible n a b t =
     (case constrain n a b (t\<lparr>ut_depth := ut_depth t + 1\<rparr>) of
        None \<Rightarrow> None
      | Some (r, t') \<Rightarrow> Some (is_ok r, end_transaction (length (ut_trail t)) False t'))"

end
