(* ===== verification/Mimi_UnifyRun.thy ===== *)
theory Mimi_UnifyRun
  imports Mimi_Unify
begin

text \<open>
  What every run of the table operations does to the table, for any relation that the four
  primitive writes respect (path compression, caching of a resolved binding, joining two roots,
  binding a root). The relation is the parameter of a locale; its interpretations give the undo
  trail, the absence of cycles of parents, and the progress of unification.
\<close>

section \<open>Roots of the parent forest\<close>

text \<open>The second argument bounds the number of links followed.\<close>

inductive leads :: "(u32 \<rightharpoonup> u32) \<Rightarrow> nat \<Rightarrow> u32 \<Rightarrow> u32 \<Rightarrow> bool" for p where
  leads_root: "parent_of p r = r \<Longrightarrow> leads p n r r"
| leads_step: "parent_of p c \<noteq> c \<Longrightarrow> leads p n (parent_of p c) r \<Longrightarrow> leads p (Suc n) c r"

definition root_of :: "(u32 \<rightharpoonup> u32) \<Rightarrow> u32 \<Rightarrow> u32 \<Rightarrow> bool" where
  "root_of p c r = (\<exists>n. leads p n c r)"

lemma leads_end: "leads p n c r \<Longrightarrow> parent_of p r = r"
  by (induction rule: leads.induct) auto

lemma leads_unique: "leads p n c r \<Longrightarrow> leads p m c s \<Longrightarrow> r = s"
proof (induction arbitrary: m rule: leads.induct)
  case (leads_root r n)
  from leads_root(2,1) show ?case by (cases rule: leads.cases) auto
next
  case (leads_step c n r)
  from leads_step(4,1) show ?case by (cases rule: leads.cases) (auto intro: leads_step.IH)
qed

lemma root_of_unique: "root_of p c r \<Longrightarrow> root_of p c s \<Longrightarrow> r = s"
  by (auto simp: root_of_def dest: leads_unique)

lemma root_of_end: "root_of p c r \<Longrightarrow> parent_of p r = r"
  by (auto simp: root_of_def dest: leads_end)

lemma root_of_self: "parent_of p r = r \<Longrightarrow> root_of p r s \<longleftrightarrow> s = r"
  by (auto simp: root_of_def intro: leads_root dest: leads_unique [OF leads_root])

lemma root_of_step: "parent_of p c \<noteq> c \<Longrightarrow> root_of p c r \<longleftrightarrow> root_of p (parent_of p c) r"
  by (auto simp: root_of_def intro: leads_step elim: leads.cases)

lemma find_walk_sound:
  assumes "find_walk p c = Some r"
  shows "root_of p c r"
proof (rule find_walk.raw_induct [where P = root_of, OF _ assms])
  fix walk q d s
  assume IH: "\<And>q d s. walk q d = Some s \<Longrightarrow> root_of q d s"
    and run: "(let parent = parent_of q d in if parent = d then Some d else walk q parent) = Some s"
  show "root_of q d s"
  proof (cases "parent_of q d = d")
    case True
    then show ?thesis using run by (simp add: root_of_self)
  next
    case False
    then show ?thesis using run IH by (simp add: root_of_step)
  qed
qed

lemma find_walk_complete: "leads p n c r \<Longrightarrow> find_walk p c = Some r"
  by (induction rule: leads.induct) (subst find_walk.simps; simp add: Let_def)+

lemma find_walk_iff: "find_walk p c = Some r \<longleftrightarrow> root_of p c r"
  using find_walk_sound find_walk_complete by (auto simp: root_of_def)

lemma parent_of_upd: "parent_of (p(c \<mapsto> r)) v = (if v = c then r else parent_of p v)"
  by (simp add: parent_of_def)

lemma set_parent_fields [simp]:
  "ut_parent (set_parent c r t) = (ut_parent t)(c \<mapsto> r)"
  "ut_binding (set_parent c r t) = ut_binding t"
  "ut_next_var (set_parent c r t) = ut_next_var t"
  "ut_depth (set_parent c r t) = ut_depth t"
  "ut_linear_names (set_parent c r t) = ut_linear_names t"
  by (auto simp: set_parent_def record_undo_def)

lemma set_binding_fields [simp]:
  "ut_parent (set_binding c b t) = ut_parent t"
  "ut_next_var (set_binding c b t) = ut_next_var t"
  "ut_depth (set_binding c b t) = ut_depth t"
  "ut_linear_names (set_binding c b t) = ut_linear_names t"
  "ut_binding (set_binding c b t) v = None \<longleftrightarrow> v \<noteq> c \<and> ut_binding t v = None"
  by (auto simp: set_binding_def record_undo_def split: option.splits)

text \<open>Pointing a variable at its root shortens paths and changes no root.\<close>

lemma compress_leads:
  assumes c: "root_of p c r" and v: "leads p n v s"
  shows "leads (p(c \<mapsto> r)) n v s"
  using v
proof (induction rule: leads.induct)
  case (leads_root v n)
  have "parent_of (p(c \<mapsto> r)) v = v"
    using leads_root c root_of_self [of p v r] by (cases "v = c") (simp_all add: parent_of_upd)
  then show ?case by (rule leads.leads_root)
next
  case (leads_step v n s)
  show ?case
  proof (cases "v = c")
    case True
    then have "s = r" using leads_step c by (auto simp: root_of_def dest: leads_unique leads.leads_step)
    moreover have "parent_of p r = r" using c by (rule root_of_end)
    moreover have "r \<noteq> v" using leads_step(1) calculation(2) by auto
    moreover have "leads (p(c \<mapsto> r)) n r r"
      using calculation by (intro leads.leads_root) (simp add: parent_of_upd)
    ultimately have "leads (p(c \<mapsto> r)) (Suc n) v s"
      using True leads.leads_step [of "p(c \<mapsto> r)" v n r] by (simp add: parent_of_upd)
    then show ?thesis .
  next
    case False
    moreover have "leads (p(c \<mapsto> r)) n (parent_of p v) s" by (rule leads_step.IH)
    ultimately have "leads (p(c \<mapsto> r)) (Suc n) v s"
      using leads_step.hyps leads.leads_step [of "p(c \<mapsto> r)" v n s] by (simp add: parent_of_upd)
    then show ?thesis .
  qed
qed

lemma compress_leads_back:
  assumes c: "root_of p c r" and v: "leads (p(c \<mapsto> r)) n v s"
  shows "root_of p v s"
  using v
proof (induction rule: leads.induct)
  case (leads_root v n)
  then show ?case using c by (cases "v = c") (auto simp: parent_of_upd root_of_self)
next
  case (leads_step v n s)
  show ?case
  proof (cases "v = c")
    case True
    have "parent_of p r = r" using c by (rule root_of_end)
    then have "s = r" using leads_step True by (simp add: parent_of_upd root_of_self)
    then show ?thesis using c True by simp
  next
    case False
    then show ?thesis using leads_step by (simp add: parent_of_upd root_of_step)
  qed
qed

lemma compress_root_of: "root_of p c r \<Longrightarrow> root_of (p(c \<mapsto> r)) v s \<longleftrightarrow> root_of p v s"
  using compress_leads [of p c r] compress_leads_back [of p c r] root_of_def [of p v s]
    root_of_def [of "p(c \<mapsto> r)" v s] by metis

lemma compress_unfold:
  "compress root c t =
     (if c = root then Some t
      else compress root (parent_of (ut_parent t) c) (set_parent c root t))"
  by (subst compress.simps) simp

lemma leads_parent: "leads p (Suc n) c r \<Longrightarrow> leads p n (parent_of p c) r"
  by (cases rule: leads.cases) (auto intro: leads_root)

lemma compress_returns: "leads (ut_parent t) n c root \<Longrightarrow> compress root c t \<noteq> None"
proof (induction n arbitrary: c t)
  case 0
  then have "c = root" by (cases rule: leads.cases) auto
  then show ?case by (simp add: compress_unfold)
next
  case (Suc n)
  have "leads ((ut_parent t)(c \<mapsto> root)) n (parent_of (ut_parent t) c) root"
    using Suc.prems by (intro compress_leads leads_parent) (auto simp: root_of_def)
  then have "leads (ut_parent (set_parent c root t)) n (parent_of (ut_parent t) c) root"
    by (simp only: set_parent_fields)
  from Suc.IH [OF this] show ?case by (subst compress_unfold) simp
qed

lemma find_root: "parent_of (ut_parent t) i = i \<Longrightarrow> ut_find i t = Some (Ok i, t)"
  by (subst ut_find_def, subst find_walk.simps, subst compress_unfold) simp

section \<open>Runs of the operations\<close>

text \<open>\<open>keeps ok R m\<close>: every run of \<open>m\<close> from a table that satisfies \<open>ok\<close> is a step of \<open>R\<close>.\<close>

definition keeps ::
  "(UnificationTable \<Rightarrow> bool) \<Rightarrow> (UnificationTable \<Rightarrow> UnificationTable \<Rightarrow> bool) \<Rightarrow> ('e, 'a) table_op \<Rightarrow> bool" where
  "keeps ok R m = (\<forall>t r t'. ok t \<longrightarrow> m t = Some (r, t') \<longrightarrow> R t t')"

lemma keepsD: "keeps ok R m \<Longrightarrow> ok t \<Longrightarrow> m t = Some (r, t') \<Longrightarrow> R t t'"
  by (auto simp: keeps_def)

lemma op_bind_run:
  assumes "op_bind m f t = Some (r, t')"
  obtains (err) e where "m t = Some (Err e, t')" "r = Err e"
    | (ok) x t1 where "m t = Some (Ok x, t1)" "f x t1 = Some (r, t')"
  using assms by (auto simp: op_bind_def split: option.splits sum.splits prod.splits)

lemma lift_resolve_run:
  assumes "lift_resolve m t = Some (r, t')"
  obtains r' where "m t = Some (r', t')" "is_ok r = is_ok r'" "\<And>x. r = Ok x \<longleftrightarrow> r' = Ok x"
  using assms by (auto simp: lift_resolve_def split: option.splits sum.splits prod.splits)

lemma lift_resolve_ok: "lift_resolve m t = Some (Ok x, t') \<longleftrightarrow> m t = Some (Ok x, t')"
  by (auto simp: lift_resolve_def split: option.splits sum.splits prod.splits)

locale runs =
  fixes ok :: "UnificationTable \<Rightarrow> bool"
    and R :: "UnificationTable \<Rightarrow> UnificationTable \<Rightarrow> bool"
  assumes R_refl: "ok t \<Longrightarrow> R t t"
    and R_trans: "ok t \<Longrightarrow> R t t' \<Longrightarrow> R t' t'' \<Longrightarrow> R t t''"
    and R_ok: "ok t \<Longrightarrow> R t t' \<Longrightarrow> ok t'"
begin

lemma keeps_return [inv_intros]: "keeps ok R (op_return x)"
  by (auto simp: keeps_def op_return_def intro: R_refl)

lemma keeps_fail [inv_intros]: "keeps ok R (op_fail e)"
  by (auto simp: keeps_def op_fail_def intro: R_refl)

lemma keeps_bind [inv_intros]:
  assumes m: "keeps ok R m" and f: "\<And>x. keeps ok R (f x)"
  shows "keeps ok R (op_bind m f)"
  unfolding keeps_def
proof (intro allI impI)
  fix t r t'
  assume "ok t" and "op_bind m f t = Some (r, t')"
  from this(2) show "R t t'"
  proof (cases rule: op_bind_run)
    case (err e)
    then show ?thesis using m \<open>ok t\<close> by (auto dest: keepsD)
  next
    case (ok x t1)
    have "R t t1" using m \<open>ok t\<close> ok(1) by (rule keepsD)
    moreover have "R t1 t'" using f R_ok [OF \<open>ok t\<close> \<open>R t t1\<close>] ok(2) by (rule keepsD)
    ultimately show ?thesis using R_trans \<open>ok t\<close> by blast
  qed
qed

lemma keeps_lift [inv_intros]: "keeps ok R m \<Longrightarrow> keeps ok R (lift_resolve m)"
  by (auto simp: keeps_def elim!: lift_resolve_run)

lemma keeps_map: "(\<And>x. x \<in> set xs \<Longrightarrow> keeps ok R (f x)) \<Longrightarrow> keeps ok R (op_map f xs)"
  by (induction xs) (auto intro!: inv_intros)

lemma keeps_each: "(\<And>x. x \<in> set xs \<Longrightarrow> keeps ok R (f x)) \<Longrightarrow> keeps ok R (op_each f xs)"
  by (induction xs) (auto intro!: inv_intros)

end

locale table_runs = runs ok R for ok R +
  assumes R_bound: "ok t \<Longrightarrow> R t t' \<Longrightarrow> ut_binding t i \<noteq> None \<Longrightarrow> ut_binding t' i \<noteq> None"
    and R_compress: "ok t \<Longrightarrow> root_of (ut_parent t) c r \<Longrightarrow> R t (set_parent c r t)"
    and R_cache: "ok t \<Longrightarrow> ut_binding t i \<noteq> None \<Longrightarrow> R t (set_binding i ty t)"
begin

lemma compress_keeps:
  assumes "compress root c t = Some t'"
  shows "ok t \<longrightarrow> root_of (ut_parent t) c root \<longrightarrow> R t t'"
proof (rule compress.raw_induct [where P = "\<lambda>root c t t'. ok t \<longrightarrow> root_of (ut_parent t) c root \<longrightarrow> R t t'", OF _ assms], intro impI)
  fix walk root c t t'
  assume IH: "\<And>root c t t'. walk root c t = Some t' \<Longrightarrow> ok t \<longrightarrow> root_of (ut_parent t) c root \<longrightarrow> R t t'"
    and run: "(if c = root then Some t else walk root (parent_of (ut_parent t) c) (set_parent c root t)) = Some t'"
    and ok: "ok t" and c: "root_of (ut_parent t) c root"
  show "R t t'"
  proof (cases "c = root")
    case True
    then show ?thesis using run ok R_refl by simp
  next
    case False
    then have p: "parent_of (ut_parent t) c \<noteq> c" using c root_of_self by metis
    have one: "R t (set_parent c root t)" using ok c by (rule R_compress)
    have "root_of (ut_parent (set_parent c root t)) (parent_of (ut_parent t) c) root"
      using c p by (simp add: compress_root_of root_of_step)
    then have "R (set_parent c root t) t'" using IH run False R_ok [OF ok one] by auto
    with one show ?thesis by (rule R_trans [OF ok])
  qed
qed

lemma keeps_find: "keeps ok R (ut_find i)"
  by (auto simp: keeps_def ut_find_def find_walk_iff split: option.splits intro: compress_keeps [rule_format])

lemma keeps_resolve: "keeps ok R (resolve_with_depth n S ty)"
proof (induction n arbitrary: S ty)
  case (Suc n)
  have var: "keeps ok R (resolve_with_depth (Suc n) S (TyTypeVar i))" for i
    unfolding keeps_def
  proof (intro allI impI)
    fix t r t'
    assume t: "ok t" and run: "resolve_with_depth (Suc n) S (TyTypeVar i) t = Some (r, t')"
    from run show "R t t'"
      unfolding resolve_with_depth.simps Type.case
    proof (cases rule: op_bind_run)
      case (err e)
      then show ?thesis using keepsD [OF keeps_find t] by blast
    next
      case (ok root t1)
      note t1 = keepsD [OF keeps_find t ok(1)]
      show ?thesis
      proof (cases "ut_binding t1 root")
        case None
        then show ?thesis using ok(2) t1 by (simp add: op_return_def)
      next
        case (Some b)
        show ?thesis
        proof (cases "root \<in> S")
          case True
          then show ?thesis using ok(2) Some t1 by (simp add: op_fail_def)
        next
          case False
          let ?m = "resolve_with_depth n (insert root S) b"
          have "op_bind ?m (\<lambda>r. op_bind (op_update (set_binding root r)) (\<lambda>_. op_return r)) t1 = Some (r, t')"
            using ok(2) Some False by simp
          then have "R t1 t'"
          proof (cases rule: op_bind_run)
            case (err e)
            then show ?thesis using keepsD [OF Suc R_ok [OF t t1]] by blast
          next
            case (ok x t2)
            have t2: "R t1 t2" using Suc R_ok [OF t t1] ok(1) by (rule keepsD)
            have "t' = set_binding root x t2" using ok(2) by (simp add: op_bind_def op_update_def op_return_def)
            moreover have "ut_binding t2 root \<noteq> None" using R_bound [OF R_ok [OF t t1] t2] Some by simp
            ultimately have "R t2 t'" using R_cache R_ok t t1 t2 by blast
            then show ?thesis using R_trans R_ok t t1 t2 by blast
          qed
          then show ?thesis using R_trans t t1 by blast
        qed
      qed
    qed
  qed
  show ?case
  proof (cases ty)
    case (TyTypeVar i)
    then show ?thesis using var by simp
  qed (auto simp del: op_map.simps intro!: inv_intros keeps_map Suc)
qed (simp add: inv_intros)

lemma keeps_resolve_infer: "keeps ok R (resolve_infer ty)"
  unfolding resolve_infer_def by (rule keeps_resolve)

end

section \<open>Resolution keeps roots and bound variables\<close>

definition same_vars :: "UnificationTable \<Rightarrow> UnificationTable \<Rightarrow> bool" where
  "same_vars t t' \<longleftrightarrow>
     (\<forall>v r. root_of (ut_parent t) v r = root_of (ut_parent t') v r) \<and>
     (\<forall>i. (ut_binding t i = None) = (ut_binding t' i = None))"

interpretation same: table_runs "\<lambda>_. True" same_vars
  by unfold_locales (auto simp: same_vars_def compress_root_of)

lemma same_sym: "same_vars t t' \<Longrightarrow> same_vars t' t"
  by (auto simp: same_vars_def)

lemma resolve_same: "resolve_with_depth n S ty t = Some (r, t') \<Longrightarrow> same_vars t t'"
  using same.keeps_resolve by (rule keepsD) auto

text \<open>
  A type as resolution returns it: its variables are unbound roots, except below \<open>ForAll\<close>, which
  resolution does not enter, and no annotation wraps another.
\<close>

definition free_root :: "UnificationTable \<Rightarrow> u32 \<Rightarrow> bool" where
  "free_root t i = (root_of (ut_parent t) i i \<and> ut_binding t i = None)"

function normal :: "UnificationTable \<Rightarrow> Type \<Rightarrow> bool" where
  "normal t ty =
     (case ty of
        TyTypeVar i \<Rightarrow> free_root t i
      | TyForAll _ _ \<Rightarrow> True
      | TyLocated _ x \<Rightarrow> ty_shape x \<noteq> ShLocated \<and> normal t x
      | _ \<Rightarrow> list_all (normal t) (ty_kids ty))"
  by pat_completeness auto
termination
  by (relation "measure (\<lambda>(t, ty). size ty)")
    (auto dest!: size_list_estimation' [of _ _ _ size, OF _ order_refl])

declare normal.simps [simp del]

text \<open>The nodes resolution rebuilds from their children.\<close>

definition plain :: "Type \<Rightarrow> bool" where
  "plain ty = (case ty of TyTypeVar _ \<Rightarrow> False | TyForAll _ _ \<Rightarrow> False | TyLocated _ _ \<Rightarrow> False | _ \<Rightarrow> True)"

lemma plain_cases [case_names var forall located plain]:
  obtains i where "ty = TyTypeVar i" | ps b where "ty = TyForAll ps b" | m x where "ty = TyLocated m x"
    | "plain ty"
  by (cases ty) (auto simp: plain_def)

lemma plain_shape: "ty_shape a = ty_shape b \<Longrightarrow> plain a = plain b"
  by (cases a; cases b) (simp_all add: plain_def)

lemma plain_not_located: "plain ty \<Longrightarrow> ty_shape ty \<noteq> ShLocated"
  by (cases ty) (auto simp: plain_def)

lemma normal_simps [simp]:
  "normal t (TyTypeVar i) = free_root t i"
  "normal t (TyForAll ps b)"
  "normal t (TyLocated m x) \<longleftrightarrow> ty_shape x \<noteq> ShLocated \<and> normal t x"
  by (subst normal.simps, simp)+

lemma normal_plain: "plain ty \<Longrightarrow> normal t ty = list_all (normal t) (ty_kids ty)"
  by (subst normal.simps, cases ty) (auto simp: plain_def)

lemma resolve_plain:
  "plain ty \<Longrightarrow> resolve_with_depth (Suc n) S ty =
     op_bind (op_map (resolve_with_depth n S) (ty_kids ty)) (\<lambda>ks. op_return (ty_with_kids ty ks))"
  by (cases ty) (auto simp: plain_def)

lemma free_root_same: "same_vars t t' \<Longrightarrow> free_root t i = free_root t' i"
  by (simp add: same_vars_def free_root_def)

lemma normal_same: "same_vars t t' \<Longrightarrow> normal t ty = normal t' ty"
proof (induction t ty rule: normal.induct)
  case (1 t ty)
  show ?case
  proof (cases ty rule: plain_cases)
    case plain
    have "normal t k = normal t' k" if "k \<in> set (ty_kids ty)" for k
      using plain 1 that by (cases ty) (auto simp: plain_def)
    then show ?thesis using plain by (simp add: normal_plain list_all_iff)
  qed (use 1 free_root_same in auto)
qed

lemma normal_with_meta: "normal t x \<Longrightarrow> normal t (ty_with_meta m x)"
  by (cases x) auto

lemma normal_unlocated: "normal t x \<Longrightarrow> normal t (ty_unlocated x)"
  by (induction x rule: ty_unlocated.induct) auto

lemma op_return_run [simp]: "op_return x t = Some (r, t') \<longleftrightarrow> r = Ok x \<and> t' = t"
  by (auto simp: op_return_def)

lemma op_fail_run [simp]: "op_fail e t = Some (r, t') \<longleftrightarrow> r = Err e \<and> t' = t"
  by (auto simp: op_fail_def)

lemma op_update_run [simp]: "op_update f t = Some (r, t') \<longleftrightarrow> r = Ok () \<and> t' = f t"
  by (auto simp: op_update_def)

lemma op_bind_ok:
  "op_bind m f t = Some (Ok y, t') \<longleftrightarrow> (\<exists>x t1. m t = Some (Ok x, t1) \<and> f x t1 = Some (Ok y, t'))"
  by (auto simp: op_bind_def split: option.splits sum.splits prod.splits)

text \<open>A successful loop over a list, with a fact about each result that later runs keep.\<close>

lemma op_map_ok:
  assumes "op_map f xs t = Some (Ok ys, t')"
    and "\<And>x t y t'. x \<in> set xs \<Longrightarrow> f x t = Some (Ok y, t') \<Longrightarrow> same_vars t t' \<and> normal t' y"
  shows "same_vars t t' \<and> length ys = length xs \<and> list_all (normal t') ys"
  using assms
proof (induction xs arbitrary: t ys)
  case Nil
  then show ?case by (simp add: same.R_refl)
next
  case (Cons x xs)
  then obtain y t1 zs where y: "f x t = Some (Ok y, t1)" and zs: "op_map f xs t1 = Some (Ok zs, t')"
      and ys: "ys = y # zs"
    by (auto simp: op_bind_ok)
  have "same_vars t1 t' \<and> length zs = length xs \<and> list_all (normal t') zs"
    using zs by (rule Cons.IH) (rule Cons.prems(2), simp_all)
  moreover have "same_vars t t1 \<and> normal t1 y" using y by (intro Cons.prems(2)) simp_all
  ultimately show ?case using ys normal_same same.R_trans by auto
qed

lemma find_run:
  assumes "ut_find i t = Some (r, t')"
  shows "\<exists>root. r = Ok root \<and> root_of (ut_parent t) i root \<and> same_vars t t'"
proof -
  have "same_vars t t'" using same.keeps_find _ assms by (rule keepsD) simp
  then show ?thesis using assms by (auto simp: ut_find_def find_walk_iff split: option.splits)
qed

lemma find_free_root: "free_root t i \<Longrightarrow> ut_find i t = Some (Ok i, t)"
  by (auto simp: free_root_def intro: find_root dest: root_of_end)

lemma resolve_var_ok:
  "resolve_with_depth (Suc n) S (TyTypeVar i) t = Some (Ok r, t') \<longleftrightarrow>
     (\<exists>root t1. (ut_find i :: (ResolveError, u32) table_op) t = Some (Ok root, t1) \<and>
       (ut_binding t1 root = None \<and> r = TyTypeVar root \<and> t' = t1 \<or>
        (\<exists>b t2. ut_binding t1 root = Some b \<and> root \<notin> S \<and>
           resolve_with_depth n (insert root S) b t1 = Some (Ok r, t2) \<and> t' = set_binding root r t2)))"
proof -
  have body: "(case ut_binding t1 root of None \<Rightarrow> op_return (TyTypeVar root) t1
        | Some b \<Rightarrow> if root \<in> S then op_fail (ReBindingCycle root) t1
            else op_bind (resolve_with_depth n (insert root S) b)
                   (\<lambda>r. op_bind (op_update (set_binding root r)) (\<lambda>_. op_return r)) t1) = Some (Ok r, t') \<longleftrightarrow>
      (ut_binding t1 root = None \<and> r = TyTypeVar root \<and> t' = t1 \<or>
        (\<exists>b t2. ut_binding t1 root = Some b \<and> root \<notin> S \<and>
           resolve_with_depth n (insert root S) b t1 = Some (Ok r, t2) \<and> t' = set_binding root r t2))"
    for root t1
    by (cases "ut_binding t1 root") (auto simp: op_bind_ok)
  show ?thesis by (simp add: op_bind_ok [of "ut_find i"] body)
qed

lemma resolve_normal: "resolve_with_depth n S ty t = Some (Ok r, t') \<Longrightarrow> normal t' r"
proof (induction n arbitrary: S ty t r t')
  case (Suc n)
  show ?case
  proof (cases ty rule: plain_cases)
    case (var i)
    then obtain root t1 where f: "(ut_find i :: (ResolveError, u32) table_op) t = Some (Ok root, t1)"
        and rest: "ut_binding t1 root = None \<and> r = TyTypeVar root \<and> t' = t1 \<or>
        (\<exists>b t2. ut_binding t1 root = Some b \<and> root \<notin> S \<and>
           resolve_with_depth n (insert root S) b t1 = Some (Ok r, t2) \<and> t' = set_binding root r t2)"
      using Suc.prems unfolding var resolve_var_ok by blast
    show ?thesis
    proof (cases "ut_binding t1 root")
      case None
      have "root_of (ut_parent t) i root" "same_vars t t1" using find_run [OF f] by auto
      then have "root_of (ut_parent t1) root root"
        by (auto simp: same_vars_def root_of_self dest: root_of_end)
      then show ?thesis using rest None by (simp add: free_root_def)
    next
      case (Some b)
      then obtain t2 where b: "resolve_with_depth n (insert root S) b t1 = Some (Ok r, t2)"
          and t': "t' = set_binding root r t2"
        using rest by auto
      have "ut_binding t2 root \<noteq> None"
        using same.R_bound [OF TrueI resolve_same [OF b], of root] Some by simp
      then have "same_vars t2 t'" using t' same.R_cache by blast
      then show ?thesis using Suc.IH [OF b] normal_same by blast
    qed
  next
    case plain
    then obtain ks where ks: "op_map (resolve_with_depth n S) (ty_kids ty) t = Some (Ok ks, t')"
        and r: "r = ty_with_kids ty ks"
      using Suc.prems unfolding resolve_plain [OF plain] by (auto simp: op_bind_ok)
    have ks': "length ks = length (ty_kids ty)" "list_all (normal t') ks"
      using op_map_ok [OF ks] Suc.IH resolve_same by (metis (no_types, lifting))+
    then have "plain r" using plain r ty_with_kids_views(1) plain_shape by metis
    then show ?thesis using ks' r by (simp add: normal_plain ty_with_kids_views)
  qed (use Suc in \<open>auto simp: op_bind_ok normal_with_meta\<close>)
qed simp

text \<open>Resolving a resolved type changes nothing, when it stays within the depth bound.\<close>

lemma resolve_of_normal:
  "normal t ty \<Longrightarrow> resolve_with_depth n S ty t = Some (Ok r, t') \<Longrightarrow> r = ty \<and> t' = t"
proof (induction n arbitrary: S ty r t')
  case (Suc n)
  have kids: "op_map (resolve_with_depth n S) xs t = Some (Ok ks, t') \<Longrightarrow> list_all (normal t) xs \<Longrightarrow>
      ks = xs \<and> t' = t" for xs ks
    by (induction xs arbitrary: ks) (auto simp: op_bind_ok dest: Suc.IH)
  show ?case
  proof (cases ty rule: plain_cases)
    case (var i)
    then have i: "free_root t i" using Suc.prems by simp
    then have "ut_binding t i = None" by (simp add: free_root_def)
    then show ?thesis using Suc.prems(2) unfolding var resolve_var_ok find_free_root [OF i] by auto
  next
    case plain
    then have "list_all (normal t) (ty_kids ty)" using Suc.prems(1) by (simp add: normal_plain)
    then show ?thesis using Suc.prems(2) kids unfolding resolve_plain [OF plain] by (fastforce simp: op_bind_ok)
  next
    case (located m x)
    then obtain y where y: "resolve_with_depth n S x t = Some (Ok y, t')" "r = ty_with_meta m y"
      using Suc.prems(2) by (auto simp: op_bind_ok)
    have x: "normal t x" "ty_shape x \<noteq> ShLocated" using located Suc.prems(1) by auto
    then show ?thesis using Suc.IH [OF x(1) y(1)] y(2) located by (simp add: with_meta_located)
  qed (use Suc.prems in auto)
qed simp

section \<open>Runs of unification\<close>

text \<open>The goals of the arms are pairs of children of the two types, or a type itself under a newtype.\<close>

definition part :: "Type \<Rightarrow> Type \<Rightarrow> bool" where
  "part x a \<longleftrightarrow> x = ty_unlocated a \<or> x \<in> set (ty_kids (ty_unlocated a))"

lemma unify_resolved_views:
  "ty_unlocated a = TyTypeVar i \<Longrightarrow> ty_unlocated b = TyTypeVar j \<Longrightarrow> unify_resolved sub a b t = join_vars i j t"
  "ty_unlocated a = TyTypeVar i \<Longrightarrow> (\<nexists>j. ty_unlocated b = TyTypeVar j) \<Longrightarrow> unify_resolved sub a b t = bind_var i b t"
  "(\<nexists>i. ty_unlocated a = TyTypeVar i) \<Longrightarrow> ty_unlocated b = TyTypeVar j \<Longrightarrow> unify_resolved sub a b t = bind_var j a t"
  "(\<nexists>i. ty_unlocated a = TyTypeVar i) \<Longrightarrow> (\<nexists>j. ty_unlocated b = TyTypeVar j) \<Longrightarrow>
     unify_resolved sub a b t = (case type_arms (ut_linear_names t) a b of
       Err e \<Rightarrow> op_fail e t | Ok goals \<Rightarrow> op_each sub goals t)"
  unfolding unify_resolved_def by (auto split: Type.splits)

locale constraint_runs = runs ok R for ok R +
  assumes R_resolve: "ok t \<Longrightarrow> resolve_infer ty t = Some (r, t') \<Longrightarrow> R t t'"
    and R_join: "ok t \<Longrightarrow> free_root t i \<Longrightarrow> free_root t j \<Longrightarrow> i \<noteq> j \<Longrightarrow> R t (set_parent i j t)"
    and R_bind: "ok t \<Longrightarrow> free_root t i \<Longrightarrow> normal t ty \<Longrightarrow> \<not> occurs_in i ty \<Longrightarrow> R t (set_binding i ty t)"
begin

lemma keeps_resolve_ty: "keeps ok R (resolve_infer ty)"
  by (auto simp: keeps_def intro: R_resolve)

lemma keeps_unify_resolved:
  assumes ok: "ok t" and rec: "\<And>p. keeps ok R (sub p)"
    and a: "normal t a" and b: "normal t b"
    and run: "unify_resolved sub a b t = Some (r, t')"
  shows "R t t'"
proof -
  have ua: "normal t (ty_unlocated a)" and ub: "normal t (ty_unlocated b)"
    using a b normal_unlocated by auto
  have bind: "R t t'" if "bind_var i ty t = Some (r, t')" "free_root t i" "normal t ty" for i ty
    using that ok R_refl R_bind by (auto simp: bind_var_def op_bind_def find_free_root split: if_splits)
  have join: "R t t'" if "join_vars i j t = Some (r, t')" "free_root t i" "free_root t j" for i j
    using that ok R_refl R_join by (auto simp: join_vars_def op_bind_def find_free_root split: if_splits)
  have rest: "R t t'" if "(case type_arms (ut_linear_names t) a b of
      Err e \<Rightarrow> op_fail e t | Ok goals \<Rightarrow> op_each sub goals t) = Some (r, t')"
    using that ok R_refl keeps_each [of _ sub] rec
    by (auto simp: keeps_def split: sum.splits)
  show ?thesis
  proof (cases "\<exists>i. ty_unlocated a = TyTypeVar i")
    case True
    then obtain i where i: "ty_unlocated a = TyTypeVar i" by blast
    then have fi: "free_root t i" using ua by simp
    show ?thesis
    proof (cases "\<exists>j. ty_unlocated b = TyTypeVar j")
      case True
      then obtain j where j: "ty_unlocated b = TyTypeVar j" by blast
      then show ?thesis using run join fi ub unfolding unify_resolved_views(1) [OF i j] by simp
    next
      case False
      then show ?thesis using run bind fi b unfolding unify_resolved_views(2) [OF i False] by simp
    qed
  next
    case na: False
    show ?thesis
    proof (cases "\<exists>j. ty_unlocated b = TyTypeVar j")
      case True
      then obtain j where j: "ty_unlocated b = TyTypeVar j" by blast
      then show ?thesis using run bind ub a unfolding unify_resolved_views(3) [OF na j] by simp
    next
      case False
      then show ?thesis using run rest unfolding unify_resolved_views(4) [OF na False] by simp
    qed
  qed
qed

lemma keeps_resolved_pair:
  assumes "\<And>ar br t2. normal t2 ar \<Longrightarrow> normal t2 br \<Longrightarrow> ok t2 \<Longrightarrow> f ar br t2 = Some (r, t') \<Longrightarrow> R t2 t'"
    and ok: "ok t"
    and run: "op_bind (lift_resolve (resolve_infer a)) (\<lambda>ar. op_bind (lift_resolve (resolve_infer b)) (f ar)) t
      = Some (r, t')"
  shows "R t t'"
  using run
proof (cases rule: op_bind_run)
  case (err e)
  then show ?thesis using keepsD [OF keeps_lift [OF keeps_resolve_ty] ok] by blast
next
  case (ok ar t1)
  have one: "R t t1" using keepsD [OF keeps_lift [OF keeps_resolve_ty] \<open>ok t\<close> ok(1)] .
  note ok1 = R_ok [OF \<open>ok t\<close> one]
  have na: "normal t1 ar" using ok(1) by (auto simp: lift_resolve_ok resolve_infer_def dest: resolve_normal)
  from ok(2) have "R t1 t'"
  proof (cases rule: op_bind_run)
    case (err e)
    then show ?thesis using keepsD [OF keeps_lift [OF keeps_resolve_ty] ok1] by blast
  next
    case (ok br t2)
    have two: "R t1 t2" using keepsD [OF keeps_lift [OF keeps_resolve_ty] ok1 ok(1)] .
    have b: "normal t2 br \<and> same_vars t1 t2" using ok(1)
      by (auto simp: lift_resolve_ok resolve_infer_def dest: resolve_normal resolve_same)
    then have "R t2 t'" using assms(1) [of t2 ar br] na normal_same R_ok [OF ok1 two] ok(2) by blast
    with two show ?thesis by (rule R_trans [OF ok1])
  qed
  with one show ?thesis by (rule R_trans [OF \<open>ok t\<close>])
qed

lemma keeps_unify_inner: "keeps ok R (unify_inference_inner n a b)"
proof (induction n arbitrary: a b)
  case (Suc n)
  show ?case
    unfolding keeps_def unify_inference_inner.simps
  proof (intro allI impI)
    fix t r t'
    let ?sub = "\<lambda>(x, y). unify_inference_inner n x y"
    assume "ok t" and "op_bind (lift_resolve (resolve_infer a)) (\<lambda>ar. op_bind (lift_resolve (resolve_infer b))
      (\<lambda>br. unify_resolved ?sub ar br)) t = Some (r, t')"
    then show "R t t'"
      by (rule keeps_resolved_pair [rotated]) (rule keeps_unify_resolved; auto simp: Suc split: prod.splits)
  qed
qed (simp add: keeps_def)

text \<open>The body of \<open>constrain\<close>, run inside its transaction.\<close>

lemma keeps_constrain_body:
  "keeps ok R (op_bind (lift_resolve (resolve_infer a)) (\<lambda>ar. op_bind (lift_resolve (resolve_infer b)) (\<lambda>br.
     if is_escape_type ar \<or> is_escape_type br
     then op_fail (UeMismatch (''checked unification rejects escape types '' @ fmt_type ar @ '' and '' @ fmt_type br))
     else unify_inference_inner n ar br)))"
  by (auto intro!: keeps_bind keeps_lift keeps_fail keeps_resolve_ty keeps_unify_inner)

end

locale unify_runs = table_runs ok R for ok R +
  assumes R_joins: "ok t \<Longrightarrow> free_root t i \<Longrightarrow> free_root t j \<Longrightarrow> i \<noteq> j \<Longrightarrow> R t (set_parent i j t)"
    and R_binds: "ok t \<Longrightarrow> free_root t i \<Longrightarrow> R t (set_binding i ty t)"

sublocale unify_runs \<subseteq> constraint_runs
  using keeps_resolve_infer R_joins R_binds by unfold_locales (auto simp: keeps_def)

end
