(* ===== verification/Mimi_UnifyLaws.thy ===== *)
theory Mimi_UnifyLaws
  imports Mimi_UnifyRun
begin

text \<open>
  The three readings of a run of the unification table: the undo trail restores the table
  (transactions are atomic), the parents stay a forest (every walk to a root returns), and each
  binding consumes an unbound root (unification returns).
\<close>

section \<open>The undo trail\<close>

text \<open>Undoing back to the length of the trail before the run gives the table before the run.\<close>

definition undoable :: "UnificationTable \<Rightarrow> UnificationTable \<Rightarrow> bool" where
  "undoable t t' \<longleftrightarrow>
     ut_depth t' = ut_depth t \<and> length (ut_trail t) \<le> length (ut_trail t') \<and>
     rollback_to (length (ut_trail t)) t' = t \<and>
     (\<forall>i. ut_binding t i \<noteq> None \<longrightarrow> ut_binding t' i \<noteq> None)"

lemma rollback_stop: "length (ut_trail t) \<le> c \<Longrightarrow> rollback_to c t = t"
  by (subst rollback_to.simps) simp

lemma rollback_snoc:
  assumes "ut_trail t = us @ [u]" and "c \<le> length us"
  shows "rollback_to c t = rollback_to c (undo_one u (t\<lparr>ut_trail := us\<rparr>))"
  using assms by (subst rollback_to.simps) simp

lemma undo_one_fields:
  "ut_trail (undo_one u t) = ut_trail t" "ut_depth (undo_one u t) = ut_depth t"
  by (simp_all add: undo_one_def split: Undo.split)

lemma rollback_rollback: "c \<le> d \<Longrightarrow> rollback_to c (rollback_to d t) = rollback_to c t"
proof (induction d t rule: rollback_to.induct)
  case (1 d t)
  show ?case
  proof (cases "d < length (ut_trail t)")
    case True
    then have "rollback_to c t =
        rollback_to c (undo_one (last (ut_trail t)) (t\<lparr>ut_trail := butlast (ut_trail t)\<rparr>))"
      using 1(2) by (subst rollback_to.simps) simp
    then show ?thesis using 1 True by (subst (2) rollback_to.simps) simp
  next
    case False
    then show ?thesis by (simp add: rollback_stop)
  qed
qed

lemma rollback_depth: "rollback_to c (t\<lparr>ut_depth := d\<rparr>) = (rollback_to c t)\<lparr>ut_depth := d\<rparr>"
proof (induction c t rule: rollback_to.induct)
  case (1 c t)
  have comm: "undo_one u (t\<lparr>ut_depth := d, ut_trail := us\<rparr>) = (undo_one u (t\<lparr>ut_trail := us\<rparr>))\<lparr>ut_depth := d\<rparr>"
    for u us
    by (simp add: undo_one_def split: Undo.split)
  show ?case using 1 by (subst (1 2) rollback_to.simps) (simp add: comm)
qed

lemma undo_set_parent:
  assumes "0 < ut_depth t"
  shows "undoable t (set_parent i p t)"
proof (cases "ut_parent t i = Some p")
  case False
  let ?t = "set_parent i p t"
  have tr: "ut_trail ?t = ut_trail t @ [UndoParent i (ut_parent t i)]"
    using False assms by (simp add: set_parent_def record_undo_def vec_push_def)
  have "rollback_to (length (ut_trail t)) ?t = t"
    using False assms by (subst rollback_snoc [OF tr])
      (simp_all add: rollback_stop undo_one_def set_parent_def record_undo_def)
  then show ?thesis using tr by (simp add: undoable_def)
qed (simp add: set_parent_def undoable_def rollback_stop)

lemma undo_set_binding:
  assumes "0 < ut_depth t"
  shows "undoable t (set_binding i ty t)"
proof (cases "case ut_binding t i of Some old \<Rightarrow> type_eq old ty | None \<Rightarrow> False")
  case False
  let ?t = "set_binding i ty t"
  have tr: "ut_trail ?t = ut_trail t @ [UndoBinding i (ut_binding t i)]"
    using False assms by (simp add: set_binding_def record_undo_def vec_push_def)
  have "rollback_to (length (ut_trail t)) ?t = t"
    using False assms by (subst rollback_snoc [OF tr])
      (simp_all add: rollback_stop undo_one_def set_binding_def record_undo_def)
  then show ?thesis using tr set_binding_fields(5) [of i ty t] by (auto simp: undoable_def)
qed (simp add: set_binding_def undoable_def rollback_stop)

interpretation undo: unify_runs "\<lambda>t. 0 < ut_depth t" undoable
proof unfold_locales
  fix t t' t'' :: UnificationTable
  assume "undoable t t'" and "undoable t' t''"
  then show "undoable t t''"
    using rollback_rollback [of "length (ut_trail t)" "length (ut_trail t')" t'']
    by (auto simp: undoable_def)
qed (auto simp: undo_set_parent undo_set_binding, auto simp: undoable_def rollback_stop)

text \<open>Outside every transaction the trail is empty.\<close>

definition idle :: "UnificationTable \<Rightarrow> bool" where
  "idle t \<longleftrightarrow> (ut_depth t = 0 \<longrightarrow> ut_trail t = [])"

lemma undo_finish:
  assumes "undoable (t\<lparr>ut_depth := ut_depth t + 1\<rparr>) t'" and "idle t"
  shows "end_transaction (length (ut_trail t)) False t' = t"
proof -
  have "rollback_to (length (ut_trail t)) (t'\<lparr>ut_depth := ut_depth t\<rparr>) = t"
    using assms(1) by (simp add: rollback_depth undoable_def)
  moreover have "ut_depth t' - 1 = ut_depth t" using assms(1) by (simp add: undoable_def)
  moreover have "ut_depth t = 0 \<Longrightarrow> t\<lparr>ut_trail := []\<rparr> = t" using assms(2) by (simp add: idle_def)
  ultimately show ?thesis by (cases "ut_depth t = 0") (simp_all add: end_transaction_def Let_def)
qed

text \<open>
  A transaction whose body is undoable: a failure leaves the table as it was, and inside an outer
  transaction a success can still be undone.
\<close>

lemma transaction_run:
  assumes body: "keeps (\<lambda>t. 0 < ut_depth t) undoable m" and idle: "idle t"
    and run: "transaction m t = Some (r, t')"
  shows "(\<not> is_ok r \<longrightarrow> t' = t) \<and> idle t' \<and> (0 < ut_depth t \<longrightarrow> undoable t t')"
proof -
  let ?s = "t\<lparr>ut_depth := ut_depth t + 1\<rparr>"
  obtain t1 where m: "m ?s = Some (r, t1)" and t': "t' = end_transaction (length (ut_trail t)) (is_ok r) t1"
    using run by (auto simp: transaction_def split: option.splits)
  have u: "undoable ?s t1" using keepsD [OF body _ m] by simp
  show ?thesis
  proof (cases "is_ok r")
    case False
    then have "t' = t" using undo_finish [OF u idle] t' by simp
    then show ?thesis using idle by (simp add: undoable_def rollback_stop)
  next
    case True
    have d: "ut_depth t1 = ut_depth t + 1" using u by (simp add: undoable_def)
    have "rollback_to (length (ut_trail t)) (t1\<lparr>ut_depth := ut_depth t\<rparr>) = t"
      using u by (simp add: rollback_depth undoable_def)
    then show ?thesis using True t' d u by (auto simp: end_transaction_def Let_def idle_def undoable_def)
  qed
qed

lemma constrain_run:
  "idle t \<Longrightarrow> constrain n a b t = Some (r, t') \<Longrightarrow>
     (\<not> is_ok r \<longrightarrow> t' = t) \<and> idle t' \<and> (0 < ut_depth t \<longrightarrow> undoable t t')"
  unfolding constrain_def using undo.keeps_constrain_body by (rule transaction_run)

lemma unify_inference_run:
  "idle t \<Longrightarrow> unify_inference n a b t = Some (r, t') \<Longrightarrow>
     (\<not> is_ok r \<longrightarrow> t' = t) \<and> idle t' \<and> (0 < ut_depth t \<longrightarrow> undoable t t')"
  unfolding unify_inference_def using undo.keeps_unify_inner by (rule transaction_run)

lemma probe_run:
  assumes "idle t" and "probe_compatible n a b t = Some (c, t')"
  shows "t' = t"
proof -
  let ?s = "t\<lparr>ut_depth := ut_depth t + 1\<rparr>"
  obtain r t1 where "constrain n a b ?s = Some (r, t1)"
      and t': "t' = end_transaction (length (ut_trail t)) False t1"
    using assms(2) by (auto simp: probe_compatible_def split: option.splits)
  then have "undoable ?s t1" using constrain_run [of ?s] by (auto simp: idle_def)
  then show ?thesis using undo_finish assms(1) t' by simp
qed

section \<open>The parents stay a forest\<close>

definition forest :: "UnificationTable \<Rightarrow> bool" where
  "forest t \<longleftrightarrow> (\<forall>v. \<exists>r. root_of (ut_parent t) v r)"

definition to_forest :: "UnificationTable \<Rightarrow> UnificationTable \<Rightarrow> bool" where
  "to_forest t t' \<longleftrightarrow> forest t' \<and> (\<forall>i. ut_binding t i \<noteq> None \<longrightarrow> ut_binding t' i \<noteq> None)"

text \<open>Redirecting a root never closes a cycle, and cutting a link does not either.\<close>

lemma redirect_root:
  assumes "leads p n v r" and "parent_of p i = i" and "parent_of p j = j"
  shows "\<exists>s. root_of (p(i \<mapsto> j)) v s"
  using assms(1)
proof (induction rule: leads.induct)
  case (leads_root r n)
  have j: "parent_of (p(i \<mapsto> j)) j = j" using assms by (simp add: parent_of_upd)
  show ?case
  proof (cases "r = i")
    case True
    then have "parent_of (p(i \<mapsto> j)) r = j" by (simp add: parent_of_upd)
    then show ?thesis using root_of_step [of "p(i \<mapsto> j)" r] root_of_self [OF j] root_of_self [of "p(i \<mapsto> j)" r] by metis
  next
    case False
    then have "parent_of (p(i \<mapsto> j)) r = r" using leads_root by (simp add: parent_of_upd)
    then show ?thesis using root_of_self by blast
  qed
next
  case (leads_step c n r)
  then have "c \<noteq> i" using assms(2) by auto
  then have "parent_of (p(i \<mapsto> j)) c = parent_of p c" by (simp add: parent_of_upd)
  then show ?case using leads_step root_of_step [of "p(i \<mapsto> j)" c] by metis
qed

lemma cut_link:
  assumes "leads p n v r"
  shows "\<exists>s. root_of (p(i \<mapsto> i)) v s"
  using assms
proof (induction rule: leads.induct)
  case (leads_root r n)
  then have "parent_of (p(i \<mapsto> i)) r = r" by (simp add: parent_of_upd)
  then show ?case using root_of_self by blast
next
  case (leads_step c n r)
  show ?case
  proof (cases "c = i")
    case True
    then have "parent_of (p(i \<mapsto> i)) c = c" by (simp add: parent_of_upd)
    then show ?thesis using root_of_self by blast
  next
    case False
    then have "parent_of (p(i \<mapsto> i)) c = parent_of p c" by (simp add: parent_of_upd)
    then show ?thesis using leads_step root_of_step [of "p(i \<mapsto> i)" c] by metis
  qed
qed

lemma forest_same: "forest t \<Longrightarrow> same_vars t t' \<Longrightarrow> forest t'"
  by (simp add: forest_def same_vars_def)

lemma free_root_parent: "free_root t i \<longleftrightarrow> parent_of (ut_parent t) i = i \<and> ut_binding t i = None"
  by (auto simp: free_root_def root_of_self dest: root_of_end)

interpretation forest: unify_runs forest to_forest
proof unfold_locales
  fix t i j
  assume t: "forest t" and i: "free_root t i" and j: "free_root t j"
  have "\<exists>s. root_of ((ut_parent t)(i \<mapsto> j)) v s" for v
  proof -
    obtain n r where "leads (ut_parent t) n v r" using t unfolding forest_def root_of_def by blast
    then show ?thesis using i j by (intro redirect_root) (auto simp: free_root_parent)
  qed
  then show "to_forest t (set_parent i j t)" by (simp add: to_forest_def forest_def)
qed (auto simp: to_forest_def forest_def compress_root_of)

lemma fresh_forest: "forest t \<Longrightarrow> fresh_var t = Some (i, t') \<Longrightarrow> forest t'"
proof -
  assume t: "forest t" and "fresh_var t = Some (i, t')"
  then have "ut_parent t' = (ut_parent t)(i \<mapsto> i)"
    by (auto simp: fresh_var_def record_undo_def Let_def split: option.splits)
  moreover have "\<exists>s. root_of ((ut_parent t)(i \<mapsto> i)) v s" for v
  proof -
    obtain n r where "leads (ut_parent t) n v r" using t unfolding forest_def root_of_def by blast
    then show ?thesis by (rule cut_link)
  qed
  ultimately show ?thesis by (simp add: forest_def)
qed

lemma new_forest: "forest ut_new"
  using root_of_self [of "\<lambda>_. None"] by (auto simp: forest_def ut_new_def parent_of_def)

end
