(* ===== verification/Mimi_UnifyGoals.thy ===== *)
theory Mimi_UnifyGoals
  imports Mimi_UnifyRun
begin

text \<open>
  What the arms of unification accept, read off the code case by case: an escape, a bare container,
  two nodes with matching heads whose children are to be unified pairwise, or a newtype to unfold.
  The goals are parts of the two types and smaller than they are together.
\<close>

section \<open>The accepted pairs of nodes\<close>

text \<open>
  Heads that may stand for each other: equal ones, references whatever their lifetimes, \<open>Option\<close>
  and \<open>Result\<close> in their two spellings, and a capability with its atom.
\<close>

definition heads_match :: "TyShape \<Rightarrow> TyShape \<Rightarrow> bool" where
  "heads_match s s' \<longleftrightarrow>
     s = s' \<or> (\<exists>l l'. s = ShRef l \<and> s' = ShRef l') \<or> (\<exists>l l'. s = ShRefMut l \<and> s' = ShRefMut l') \<or>
     {s, s'} = {ShName ''Option'', ShOption} \<or> {s, s'} = {ShName ''Result'', ShResult} \<or>
     (\<exists>n. {s, s'} = {ShCap n, ShCapAtom n})"

text \<open>The pairs that unify whatever their children: placeholders, \<open>Any\<close> on the left, poison.\<close>

definition escapes :: "Type \<Rightarrow> Type \<Rightarrow> bool" where
  "escapes ua ub \<longleftrightarrow>
     is_name ''_'' ua \<or> is_name ''_'' ub \<or> is_name ''Any'' ua \<or> ua = TyTyErr \<or> ub = TyTyErr \<or>
     ua = TyInfer \<or> ub = TyInfer"

definition bare_container :: "Type \<Rightarrow> Type \<Rightarrow> bool" where
  "bare_container ua ub \<longleftrightarrow>
     (\<exists>n as bs. ua = TyName n as \<and> ub = TyName n bs \<and> (as = [] \<or> bs = []) \<and>
        (n = ''List'' \<or> n = ''Set'' \<or> n = ''Map''))"

definition is_newtype :: "Type \<Rightarrow> bool" where
  "is_newtype ty = (case ty of TyNewtype _ _ \<Rightarrow> True | _ \<Rightarrow> False)"

definition arm_goals :: "Type \<Rightarrow> Type \<Rightarrow> (Type \<times> Type) list \<Rightarrow> bool" where
  "arm_goals ua ub gs \<longleftrightarrow>
     (escapes ua ub \<or> bare_container ua ub) \<and> gs = [] \<or>
     plain ua \<and> plain ub \<and> heads_match (ty_shape ua) (ty_shape ub) \<and>
       length (ty_kids ua) = length (ty_kids ub) \<and> gs = zip (ty_kids ua) (ty_kids ub) \<or>
     \<not> is_newtype ub \<and> (\<exists>n i. ua = TyNewtype n i \<and> gs = [(i, ub)]) \<or>
     \<not> is_newtype ua \<and> (\<exists>n i. ub = TyNewtype n i \<and> gs = [(i, ua)])"

lemma arm_zip:
  "plain ua \<Longrightarrow> plain ub \<Longrightarrow> heads_match (ty_shape ua) (ty_shape ub) \<Longrightarrow>
     length (ty_kids ua) = length (ty_kids ub) \<Longrightarrow> arm_goals ua ub (zip (ty_kids ua) (ty_kids ub))"
  by (simp add: arm_goals_def)

lemma plain_iff [simp]:
  "plain (TyName n as)" "plain (TyRef l x)" "plain (TyRefMut l x)" "plain (TyOption x)" "plain (TyResult x y)"
  "plain (TyTuple as)" "plain (TyFunc as x)" "plain (TyExternFunc as x)" "plain (TyCBuffer x)" "plain (TyCap n)"
  "plain (TyCapAtom n)" "plain (TyShared x)" "plain (TyWeak x)" "plain (TyNewtype n x)" "plain (TyArray x k)"
  "plain (TySlice x)" "plain (TyImplTrait ts)" "plain (TyDynTrait ts)" "plain (TyRawPtr x)" "plain (TyRawPtrMut x)"
  "\<not> plain (TyTypeVar i)" "\<not> plain (TyForAll ps x)" "\<not> plain (TyLocated m x)"
  by (simp_all add: plain_def)

lemma other_goals: "other_arm a b = Ok gs \<Longrightarrow> \<not> is_newtype (ty_unlocated a) \<Longrightarrow> arm_goals (ty_unlocated a) (ty_unlocated b) gs"
  by (cases "ty_unlocated b") (auto simp: other_arm_def arm_goals_def)

lemma name_goals:
  assumes "name_arms names a b na aa = Ok gs" and a: "ty_unlocated a = TyName na aa"
  shows "arm_goals (ty_unlocated a) (ty_unlocated b) gs"
proof -
  have "\<not> is_newtype (ty_unlocated a)" by (simp add: a is_newtype_def)
  note other_goals = other_goals [OF _ this]
  have one: "length aa = 1 \<Longrightarrow> [aa ! 0] = aa" by (cases aa) auto
  have two: "length aa = 2 \<Longrightarrow> [aa ! 0, aa ! 1] = aa" by (cases aa; cases "tl aa") auto
  show ?thesis
  proof (cases "ty_unlocated b")
    case (TyName nb ab)
    then show ?thesis using assms other_goals [of b gs] arm_zip [of "TyName na aa" "TyName nb ab"]
      by (auto simp: name_arms_def arm_goals_def bare_container_def heads_match_def split: if_splits)
  next
    case (TyOption x)
    then show ?thesis
      using assms other_goals [of b gs] arm_zip [of "TyName na aa" "TyOption x"] one
      by (auto simp: name_arms_def heads_match_def split: if_splits) (metis zip_Cons_Cons zip_Nil)
  next
    case (TyResult x y)
    then show ?thesis
      using assms other_goals [of b gs] arm_zip [of "TyName na aa" "TyResult x y"] two
      by (auto simp: name_arms_def heads_match_def split: if_splits) (metis zip_Cons_Cons zip_Nil)
  qed (use assms other_goals [of b gs] in \<open>simp_all add: name_arms_def\<close>)
qed

lemma func_goals: "func_arm xs x ys y = Ok gs \<Longrightarrow> length xs = length ys \<and> gs = zip (xs @ [x]) (ys @ [y])"
  by (auto simp: func_arm_def split: if_splits)

lemma leaf_goals: "trait_arm ta tb = Ok gs \<Longrightarrow> gs = [] \<and> ta = tb" "cap_arm ca cb = Ok gs \<Longrightarrow> gs = [] \<and> ca = cb"
  by (auto simp: trait_arm_def cap_arm_def split: if_splits)

lemma constructor_goals:
  assumes "constructor_arms names a b = Ok gs"
  shows "arm_goals (ty_unlocated a) (ty_unlocated b) gs"
proof -
  note other = other_goals [of a b gs]
  note defs = constructor_arms_def arm_goals_def heads_match_def is_newtype_def
  show ?thesis
  proof (cases "ty_unlocated a")
    case (TyName na aa)
    then show ?thesis using assms name_goals by (simp add: constructor_arms_def)
  next
    case (TyOption x)
    have one: "length as = 1 \<Longrightarrow> [as ! 0] = as" for as :: "Type list" by (cases as) auto
    show ?thesis using assms other TyOption
      by (cases "ty_unlocated b") (auto simp: defs zip_Cons1 dest: one split: if_splits list.splits)
  next
    case (TyResult x y)
    show ?thesis using assms other TyResult
      by (cases "ty_unlocated b") (auto simp: defs zip_Cons1 numeral_2_eq_2 length_Suc_conv split: if_splits list.splits)
  next
    case (TyFunc xs x)
    then show ?thesis using assms other
      by (cases "ty_unlocated b") (auto simp: defs dest!: func_goals)
  next
    case (TyExternFunc xs x)
    then show ?thesis using assms other
      by (cases "ty_unlocated b") (auto simp: defs dest!: func_goals)
  qed (use assms other in \<open>cases "ty_unlocated b"; auto simp: defs dest!: leaf_goals split: if_splits\<close>)+
qed

lemma name_pair_case:
  assumes "\<nexists>na aa nb ab. ua = TyName na aa \<and> ub = TyName nb ab"
  shows "(case (ua, ub) of (TyName na aa, TyName nb ab) \<Rightarrow> f na aa nb ab | _ \<Rightarrow> g) = g"
proof (cases ua)
  case (TyName na aa)
  then show ?thesis using assms by (cases ub) simp_all
qed simp_all

lemma type_arms_cases:
  assumes "type_arms names a b = Ok gs"
  shows "escapes (ty_unlocated a) (ty_unlocated b) \<and> gs = [] \<or> constructor_arms names a b = Ok gs"
proof (cases "\<exists>na aa nb ab. ty_unlocated a = TyName na aa \<and> ty_unlocated b = TyName nb ab")
  case True
  then show ?thesis using assms by (auto simp: type_arms_def Let_def escapes_def split: if_splits)
next
  case False
  show ?thesis
    using assms unfolding type_arms_def Let_def name_pair_case [OF False] escapes_def
    by (simp split: if_splits; blast)
qed

lemma type_arms_goals: "type_arms names a b = Ok gs \<Longrightarrow> arm_goals (ty_unlocated a) (ty_unlocated b) gs"
  using type_arms_cases [of names a b gs] constructor_goals [of names a b gs] by (auto simp: arm_goals_def)

section \<open>Goals are smaller parts\<close>

definition goal_of :: "Type \<Rightarrow> Type \<Rightarrow> Type \<times> Type \<Rightarrow> bool" where
  "goal_of ua ub p \<longleftrightarrow>
     fst p \<in> set (ty_kids ua) \<and> plain ua \<and> snd p \<in> set (ty_kids ub) \<and> plain ub \<or>
     fst p \<in> set (ty_kids ua) \<and> plain ua \<and> snd p = ub \<or>
     fst p \<in> set (ty_kids ub) \<and> plain ub \<and> snd p = ua"

lemma goal_smaller: "goal_of ua ub p \<Longrightarrow> size (fst p) + size (snd p) < size ua + size ub"
  using size_kids by (auto simp: goal_of_def intro: add_strict_mono)

lemma goal_normal:
  "goal_of ua ub p \<Longrightarrow> normal t ua \<Longrightarrow> normal t ub \<Longrightarrow> normal t (fst p) \<and> normal t (snd p)"
  by (auto simp: goal_of_def normal_plain list_all_iff)

lemma goals_type:
  assumes "type_arms names a b = Ok gs" and "p \<in> set gs"
  shows "goal_of (ty_unlocated a) (ty_unlocated b) p"
  using type_arms_goals [OF assms(1)] assms(2) unfolding arm_goals_def goal_of_def
  by (cases p) (auto dest: set_zip_leftD set_zip_rightD)

end
