(* ===== verification/Mimi_UnifyTerm.thy ===== *)
theory Mimi_UnifyTerm
  imports Mimi_UnifyLaws Mimi_UnifyGoals
begin

text \<open>
  Unification returns. Every variable that gets bound or joined was an unbound root and stops being
  one, so between two such writes only the sizes of the resolved types matter, and the goals of an
  arm are smaller than the types they come from. Enough fuel therefore exists for every pair of
  types on every table whose parents form a forest.
\<close>

section \<open>Each write consumes an unbound root\<close>

definition roots_left :: "UnificationTable \<Rightarrow> nat" where
  "roots_left t = card {i. free_root t i}"

definition advances :: "UnificationTable \<Rightarrow> UnificationTable \<Rightarrow> bool" where
  "advances t t' \<longleftrightarrow>
     roots_left t' \<le> roots_left t \<and> (roots_left t' = roots_left t \<longrightarrow> same_vars t t') \<and>
     (\<forall>i. ut_binding t i \<noteq> None \<longrightarrow> ut_binding t' i \<noteq> None)"

lemma same_roots_left: "same_vars t t' \<Longrightarrow> roots_left t' = roots_left t"
  using free_root_same by (simp add: roots_left_def)

lemma same_advances: "same_vars t t' \<Longrightarrow> advances t t'"
  using same.R_bound [OF TrueI] by (auto simp: advances_def same_roots_left)

lemma consume_advances:
  assumes "free_root t i" and "\<And>j. free_root t' j \<Longrightarrow> free_root t j \<and> j \<noteq> i"
    and "\<And>j. ut_binding t j \<noteq> None \<Longrightarrow> ut_binding t' j \<noteq> None"
  shows "advances t t'"
proof -
  have "{j. free_root t' j} \<subset> {j. free_root t j}" using assms(1,2) by blast
  then have "roots_left t' < roots_left t"
    unfolding roots_left_def by (intro psubset_card_mono) simp
  then show ?thesis using assms(3) by (auto simp: advances_def)
qed

interpretation progress: unify_runs "\<lambda>_. True" advances
proof unfold_locales
  fix t t' t''
  assume "advances t t'" and "advances t' t''"
  then show "advances t t''" by (auto simp: advances_def intro: same.R_trans)
next
  fix t i j
  assume "free_root t i" and "free_root t j" and "i \<noteq> j"
  then show "advances t (set_parent i j t)"
    by (intro consume_advances [of t i]) (auto simp: free_root_parent parent_of_upd split: if_splits)
next
  fix t i ty
  assume "free_root t i"
  then show "advances t (set_binding i ty t)"
    by (intro consume_advances [of t i]) (auto simp: free_root_parent)
qed (auto intro!: same_advances same.R_refl same.R_compress same.R_cache, auto simp: advances_def)

section \<open>Resolution returns\<close>

definition returns :: "('e, 'a) table_op \<Rightarrow> bool" where
  "returns m \<longleftrightarrow> (\<forall>t. forest t \<longrightarrow> m t \<noteq> None)"

lemma returns_bind:
  assumes m: "returns m" "keeps forest to_forest m" and f: "\<And>x. returns (f x)"
  shows "returns (op_bind m f)"
  unfolding returns_def
proof (intro allI impI)
  fix t
  assume t: "forest t"
  then obtain r t1 where m1: "m t = Some (r, t1)" using m(1) unfolding returns_def by fastforce
  then have "forest t1" using keepsD [OF m(2) t m1] by (simp add: to_forest_def)
  then show "op_bind m f t \<noteq> None" using f m1 by (cases r) (auto simp: op_bind_def returns_def)
qed

lemma returns_simple [simp]: "returns (op_return x)" "returns (op_fail e)" "returns (op_update h)"
  by (simp_all add: returns_def op_return_def op_fail_def op_update_def)

lemma returns_lift: "returns m \<Longrightarrow> returns (lift_resolve m)"
  by (auto simp: returns_def lift_resolve_def split: option.splits sum.splits)

lemma returns_map:
  "(\<And>x. returns (f x)) \<Longrightarrow> (\<And>x. keeps forest to_forest (f x)) \<Longrightarrow> returns (op_map f xs)"
proof (induction xs)
  case (Cons x xs)
  then show ?case
    by (auto intro!: returns_bind forest.keeps_map)
qed simp

lemma returns_find: "returns (ut_find i)"
  unfolding returns_def
proof (intro allI impI)
  fix t
  assume "forest t"
  then obtain n r where l: "leads (ut_parent t) n i r" unfolding forest_def root_of_def by blast
  then have "find_walk (ut_parent t) i = Some r" by (rule find_walk_complete)
  then show "ut_find i t \<noteq> None" using compress_returns [OF l] by (simp add: ut_find_def)
qed

lemma returns_resolve: "returns (resolve_with_depth n S ty)"
proof (induction n arbitrary: S ty)
  case (Suc n)
  show ?case
  proof (cases ty rule: plain_cases)
    case (var i)
    have "returns (\<lambda>t. case ut_binding t root of None \<Rightarrow> op_return (TyTypeVar root) t
        | Some b \<Rightarrow> if root \<in> S then op_fail (ReBindingCycle root) t
            else op_bind (resolve_with_depth n (insert root S) b)
                   (\<lambda>r. op_bind (op_update (set_binding root r)) (\<lambda>_. op_return r)) t)" for root
      unfolding returns_def
    proof (intro allI impI)
      fix t
      assume t: "forest t"
      have upd: "op_bind (op_update (set_binding root r)) (\<lambda>_. op_return r) t \<noteq> None" for r t
        by (simp add: op_bind_def op_update_def op_return_def)
      have "returns (op_bind (resolve_with_depth n (insert root S) b)
          (\<lambda>r. op_bind (op_update (set_binding root r)) (\<lambda>_. op_return r)))" for b
        by (rule returns_bind [OF Suc forest.keeps_resolve]) (simp add: upd returns_def)
      then have "op_bind (resolve_with_depth n (insert root S) b)
          (\<lambda>r. op_bind (op_update (set_binding root r)) (\<lambda>_. op_return r)) t \<noteq> None" for b
        using t unfolding returns_def by blast
      then show "(case ut_binding t root of None \<Rightarrow> op_return (TyTypeVar root) t
        | Some b \<Rightarrow> if root \<in> S then op_fail (ReBindingCycle root) t
            else op_bind (resolve_with_depth n (insert root S) b)
                   (\<lambda>r. op_bind (op_update (set_binding root r)) (\<lambda>_. op_return r)) t) \<noteq> None"
        by (simp add: op_return_def op_fail_def split: option.split)
    qed
    then show ?thesis using var by (auto intro!: returns_bind returns_find forest.keeps_find)
  next
    case plain
    then show ?thesis using Suc forest.keeps_resolve unfolding resolve_plain [OF plain]
      by (auto intro!: returns_bind returns_map forest.keeps_map)
  qed (auto intro!: returns_bind Suc forest.keeps_resolve)
qed simp

lemma returns_resolve_infer: "returns (resolve_infer ty)"
  unfolding resolve_infer_def by (rule returns_resolve)

section \<open>Enough fuel\<close>

lemma bind_mono:
  assumes "\<And>x t r. f x t = Some r \<Longrightarrow> g x t = Some r" and "op_bind m f t = Some r"
  shows "op_bind m g t = Some r"
  using assms by (auto simp: op_bind_def split: option.splits sum.splits prod.splits)

lemma each_mono:
  assumes "\<And>p t x. f p t = Some x \<Longrightarrow> g p t = Some x"
  shows "op_each f ps t = Some x \<Longrightarrow> op_each g ps t = Some x"
  by (induction ps arbitrary: t) (auto simp: op_bind_def split: option.splits sum.splits prod.splits dest: assms)

lemma unify_resolved_mono:
  assumes "\<And>p t x. f p t = Some x \<Longrightarrow> g p t = Some x" and "unify_resolved f a b t = Some x"
  shows "unify_resolved g a b t = Some x"
proof (cases "(\<exists>i. ty_unlocated a = TyTypeVar i) \<or> (\<exists>j. ty_unlocated b = TyTypeVar j)")
  case True
  then have "unify_resolved g a b t = unify_resolved f a b t"
    by (cases "\<exists>i. ty_unlocated a = TyTypeVar i"; cases "\<exists>j. ty_unlocated b = TyTypeVar j")
      (auto simp: unify_resolved_views)
  then show ?thesis using assms(2) by simp
next
  case False
  then show ?thesis using assms(2) each_mono [of f g, OF assms(1)]
    by (auto simp: unify_resolved_views split: sum.splits)
qed

lemma fuel_mono: "unify_inference_inner n a b t = Some x \<Longrightarrow> n \<le> m \<Longrightarrow> unify_inference_inner m a b t = Some x"
proof (induction n arbitrary: a b t x m)
  case (Suc n)
  then obtain k where m: "m = Suc k" "n \<le> k" by (cases m) auto
  have "\<And>p t x. (case p of (x, y) \<Rightarrow> unify_inference_inner n x y) t = Some x \<Longrightarrow>
      (case p of (x, y) \<Rightarrow> unify_inference_inner k x y) t = Some x"
    by (simp only: case_prod_beta) (erule Suc.IH [OF _ m(2)])
  note up = unify_resolved_mono [OF this]
  have inner: "op_bind (lift_resolve (resolve_infer b)) (\<lambda>br. unify_resolved (\<lambda>(x, y). unify_inference_inner k x y) ar br) t = Some r"
    if "op_bind (lift_resolve (resolve_infer b)) (\<lambda>br. unify_resolved (\<lambda>(x, y). unify_inference_inner n x y) ar br) t = Some r"
    for ar t r
    using up that by (rule bind_mono)
  show ?case using inner Suc.prems(1) unfolding m(1) unify_inference_inner.simps by (rule bind_mono)
qed simp

abbreviation settles :: "Type \<Rightarrow> Type \<Rightarrow> UnificationTable \<Rightarrow> bool" where
  "settles a b t \<equiv> \<exists>n x. unify_inference_inner n a b t = Some x"

lemma inner_keeps: "unify_inference_inner n a b t = Some (r, t') \<Longrightarrow> forest t \<Longrightarrow> forest t' \<and> advances t t'"
  using keepsD [OF forest.keeps_unify_inner] keepsD [OF progress.keeps_unify_inner] by (auto simp: to_forest_def)

text \<open>A list of goals settles when each goal does on every later table.\<close>

lemma goals_settle:
  assumes "\<And>p t'. p \<in> set gs \<Longrightarrow> forest t' \<Longrightarrow> advances t t' \<Longrightarrow> settles (fst p) (snd p) t'"
    and "forest t1" and "advances t t1"
  shows "\<exists>n x. op_each (\<lambda>(x, y). unify_inference_inner n x y) gs t1 = Some x"
  using assms
proof (induction gs arbitrary: t1)
  case Nil
  then show ?case by (auto simp: op_return_def)
next
  case (Cons p gs)
  obtain n r t2 where p: "unify_inference_inner n (fst p) (snd p) t1 = Some (r, t2)"
    using Cons.prems by fastforce
  note t2 = inner_keeps [OF p Cons.prems(2)]
  show ?case
  proof (cases r)
    case (Inl e)
    then have "op_each (\<lambda>(x, y). unify_inference_inner n x y) (p # gs) t1 = Some (Err e, t2)"
      using p by (simp add: op_bind_def case_prod_beta)
    then show ?thesis by blast
  next
    case (Inr u)
    have "advances t t2" using Cons.prems(3) t2 progress.R_trans by blast
    then obtain m x where m: "op_each (\<lambda>(x, y). unify_inference_inner m x y) gs t2 = Some x"
      using Cons.IH [of t2] Cons.prems(1) t2 by auto
    let ?k = "max n m"
    have "op_each (\<lambda>(x, y). unify_inference_inner ?k x y) gs t2 = Some x"
      using each_mono [OF _ m, of "\<lambda>(x, y). unify_inference_inner ?k x y"] fuel_mono [of m _ _ _ _ ?k] by auto
    then have "op_each (\<lambda>(x, y). unify_inference_inner ?k x y) (p # gs) t1 = Some x"
      using fuel_mono [OF p, of ?k] Inr by (simp add: op_bind_def case_prod_beta)
    then show ?thesis by blast
  qed
qed

text \<open>Both types resolve, or the unification ends there.\<close>

lemma settles_resolved:
  assumes t: "forest t"
    and step: "\<And>ar br t1 t2. resolve_infer a t = Some (Ok ar, t1) \<Longrightarrow> resolve_infer b t1 = Some (Ok br, t2) \<Longrightarrow>
      forest t2 \<Longrightarrow> \<exists>n x. unify_resolved (\<lambda>(x, y). unify_inference_inner n x y) ar br t2 = Some x"
  shows "settles a b t"
proof -
  obtain r t1 where a: "resolve_infer a t = Some (r, t1)"
    using returns_resolve_infer t unfolding returns_def by fastforce
  have t1: "forest t1" using keepsD [OF forest.keeps_resolve_infer t a] by (simp add: to_forest_def)
  obtain s t2 where b: "resolve_infer b t1 = Some (s, t2)"
    using returns_resolve_infer t1 unfolding returns_def by fastforce
  have t2: "forest t2" using keepsD [OF forest.keeps_resolve_infer t1 b] by (simp add: to_forest_def)
  show ?thesis
  proof (cases "\<exists>ar br. r = Ok ar \<and> s = Ok br")
    case True
    then obtain ar br n x where "r = Ok ar" "s = Ok br"
        and u: "unify_resolved (\<lambda>(x, y). unify_inference_inner n x y) ar br t2 = Some x"
      using step a b t2 by blast
    then have "unify_inference_inner (Suc n) a b t = Some x" using a b by (simp add: op_bind_def lift_resolve_def)
    then show ?thesis by blast
  next
    case False
    then have "\<exists>x. unify_inference_inner (Suc 0) a b t = Some x"
      using a b by (cases r; cases s) (simp_all add: op_bind_def lift_resolve_def)
    then show ?thesis by blast
  qed
qed

lemma var_returns:
  assumes "normal t a" and "normal t b"
    and "(\<exists>i. ty_unlocated a = TyTypeVar i) \<or> (\<exists>j. ty_unlocated b = TyTypeVar j)"
  shows "unify_resolved f a b t \<noteq> None"
proof -
  have bind: "bind_var i ty t \<noteq> None" if "free_root t i" for i ty
    using that by (simp add: bind_var_def op_bind_def find_free_root op_fail_def op_update_def)
  have join: "join_vars i j t \<noteq> None" if "free_root t i" "free_root t j" for i j
    using that by (simp add: join_vars_def op_bind_def find_free_root op_return_def op_update_def)
  have n: "normal t (ty_unlocated a)" "normal t (ty_unlocated b)"
    using assms normal_unlocated by auto
  show ?thesis
  proof (cases "\<exists>i. ty_unlocated a = TyTypeVar i")
    case True
    then show ?thesis using n bind join
      by (cases "\<exists>j. ty_unlocated b = TyTypeVar j") (auto simp: unify_resolved_views)
  next
    case False
    then show ?thesis using n bind assms(3) by (auto simp: unify_resolved_views)
  qed
qed

text \<open>
  The induction: on the unbound roots left, and while no root is consumed on the sizes of the
  resolved types, which resolve to themselves.
\<close>

lemma unify_settles: "forest t \<Longrightarrow> settles a b t"
proof (induction "roots_left t" arbitrary: a b t rule: less_induct)
  case less
  have resolved: "\<exists>n x. unify_resolved (\<lambda>(x, y). unify_inference_inner n x y) ar br t2 = Some x"
    if "forest t2" "normal t2 ar" "normal t2 br" "roots_left t2 \<le> roots_left t" for ar br t2
    using that
  proof (induction "size ar + size br" arbitrary: ar br t2 rule: less_induct)
    case inner: less
    show ?case
    proof (cases "(\<exists>i. ty_unlocated ar = TyTypeVar i) \<or> (\<exists>j. ty_unlocated br = TyTypeVar j)")
      case True
      then show ?thesis using var_returns inner.prems by blast
    next
      case False
      show ?thesis
      proof (cases "type_arms (ut_linear_names t2) ar br")
        case (Inl e)
        then show ?thesis using False by (simp add: unify_resolved_views op_fail_def)
      next
        case (Inr gs)
        have "settles (fst p) (snd p) t'" if p: "p \<in> set gs" and t': "forest t'" "advances t2 t'" for p t'
        proof (cases "roots_left t' < roots_left t")
          case True
          then show ?thesis using less.hyps t' by blast
        next
          case False
          then have same: "same_vars t2 t'" and left: "roots_left t' \<le> roots_left t"
            using t'(2) inner.prems(4) by (auto simp: advances_def)
          have g: "goal_of (ty_unlocated ar) (ty_unlocated br) p" using goals_type Inr p by blast
          have n: "normal t' (fst p) \<and> normal t' (snd p)"
            using goal_normal [OF g] normal_unlocated inner.prems normal_same [OF same] by blast
          have "size (fst p) + size (snd p) < size ar + size br"
            using goal_smaller [OF g] size_unlocated [of ar] size_unlocated [of br] by linarith
          then have "\<exists>n x. unify_resolved (\<lambda>(x, y). unify_inference_inner n x y) (fst p) (snd p) t' = Some x"
            using inner.hyps t'(1) n left by blast
          then show ?thesis
            using n by (intro settles_resolved [OF t'(1)]) (auto simp: resolve_infer_def dest!: resolve_of_normal)
        qed
        then have "\<exists>n x. op_each (\<lambda>(x, y). unify_inference_inner n x y) gs t2 = Some x"
          using goals_settle inner.prems(1) progress.R_refl by blast
        then show ?thesis using False Inr by (simp add: unify_resolved_views)
      qed
    qed
  qed
  show ?case
  proof (rule settles_resolved [OF less.prems])
    fix ar br t1 t2
    assume a: "resolve_infer a t = Some (Ok ar, t1)" and b: "resolve_infer b t1 = Some (Ok br, t2)"
      and t2: "forest t2"
    have same: "same_vars t t1" "same_vars t1 t2"
      using a b resolve_same by (auto simp: resolve_infer_def)
    have "normal t1 ar" "normal t2 br" using a b resolve_normal by (auto simp: resolve_infer_def)
    then have "normal t2 ar" "normal t2 br" using normal_same same(2) by auto
    moreover have "roots_left t2 \<le> roots_left t" using same same_roots_left by simp
    ultimately show "\<exists>n x. unify_resolved (\<lambda>(x, y). unify_inference_inner n x y) ar br t2 = Some x"
      using resolved t2 by blast
  qed
qed

text \<open>One fuel gives the outcome of \<open>constrain\<close>, and every larger one the same.\<close>

lemma constrain_mono: "constrain n a b t = Some x \<Longrightarrow> n \<le> m \<Longrightarrow> constrain m a b t = Some x"
proof -
  assume run: "constrain n a b t = Some x" and nm: "n \<le> m"
  let ?body = "\<lambda>k ar br. if is_escape_type ar \<or> is_escape_type br
      then op_fail (UeMismatch (''checked unification rejects escape types '' @ fmt_type ar @ '' and '' @ fmt_type br))
      else unify_inference_inner k ar br"
  have step: "?body m ar br s = Some r" if "?body n ar br s = Some r" for ar br s r
    using that fuel_mono [OF _ nm] by (auto split: if_splits)
  have inner: "op_bind (lift_resolve (resolve_infer b)) (?body m ar) s = Some r"
    if "op_bind (lift_resolve (resolve_infer b)) (?body n ar) s = Some r" for ar s r
    using step that by (rule bind_mono)
  have "op_bind (lift_resolve (resolve_infer a)) (\<lambda>ar. op_bind (lift_resolve (resolve_infer b)) (?body m ar)) s = Some r"
    if "op_bind (lift_resolve (resolve_infer a)) (\<lambda>ar. op_bind (lift_resolve (resolve_infer b)) (?body n ar)) s = Some r"
    for s r
    using inner that by (rule bind_mono)
  then show ?thesis using run by (auto simp: constrain_def transaction_def split: option.splits)
qed

lemma constrain_settles:
  assumes "forest t"
  shows "\<exists>n x. constrain n a b t = Some x"
proof -
  let ?s = "t\<lparr>ut_depth := ut_depth t + 1\<rparr>"
  have s: "forest ?s" using assms by (simp add: forest_def)
  obtain r t1 where a: "resolve_infer a ?s = Some (r, t1)"
    using returns_resolve_infer s unfolding returns_def by fastforce
  have t1: "forest t1" using keepsD [OF forest.keeps_resolve_infer s a] by (simp add: to_forest_def)
  obtain q t2 where b: "resolve_infer b t1 = Some (q, t2)"
    using returns_resolve_infer t1 unfolding returns_def by fastforce
  have t2: "forest t2" using keepsD [OF forest.keeps_resolve_infer t1 b] by (simp add: to_forest_def)
  show ?thesis
  proof (cases "\<exists>ar br. r = Ok ar \<and> q = Ok br")
    case True
    then obtain ar br where "r = Ok ar" "q = Ok br" by blast
    moreover obtain n r' t' where "unify_inference_inner n ar br t2 = Some (r', t')"
      using unify_settles [OF t2, of ar br] by auto
    ultimately have "\<exists>x. constrain n a b t = Some x"
      using a b by (simp add: constrain_def transaction_def op_bind_def lift_resolve_def op_fail_def)
    then show ?thesis by blast
  next
    case False
    then have "\<exists>x. constrain 0 a b t = Some x"
      using a b by (cases r; cases q) (simp_all add: constrain_def transaction_def op_bind_def lift_resolve_def)
    then show ?thesis by blast
  qed
qed

end
