(* ===== verification/Mimi_UnifyProps.thy ===== *)
theory Mimi_UnifyProps
  imports Mimi_UnifyTerm
begin

text \<open>
  What the type checker relies on: on every table that the operations can build, a constraint is
  decided, a rejected one leaves no trace, and the compatibility probe answers what the constraint
  would without leaving one.
\<close>

section \<open>The trail does not influence the outcome\<close>

definition erase :: "UnificationTable \<Rightarrow> UnificationTable" where
  "erase t = t\<lparr>ut_trail := [], ut_depth := 0\<rparr>"

definition agree :: "(('e + 'a) \<times> UnificationTable) option \<Rightarrow> (('e + 'a) \<times> UnificationTable) option \<Rightarrow> bool" where
  "agree x y \<longleftrightarrow> map_option (\<lambda>(r, t). (r, erase t)) x = map_option (\<lambda>(r, t). (r, erase t)) y"

definition oblivious :: "('e, 'a) table_op \<Rightarrow> bool" where
  "oblivious m \<longleftrightarrow> (\<forall>t s. erase t = erase s \<longrightarrow> agree (m t) (m s))"

lemma erase_fields:
  assumes "erase t = erase s"
  shows "ut_parent t = ut_parent s" "ut_binding t = ut_binding s" "ut_linear_names t = ut_linear_names s"
  using assms by (cases t; cases s; simp add: erase_def)+

lemma erase_set_parent: "erase t = erase s \<Longrightarrow> erase (set_parent i p t) = erase (set_parent i p s)"
  by (cases t; cases s) (auto simp: erase_def set_parent_def record_undo_def)

lemma erase_set_binding: "erase t = erase s \<Longrightarrow> erase (set_binding i ty t) = erase (set_binding i ty s)"
  by (cases t; cases s) (auto simp: erase_def set_binding_def record_undo_def split: option.splits)

lemma agree_simps [simp]:
  "agree None None" "agree (Some (r, t)) (Some (r', s)) \<longleftrightarrow> r = r' \<and> erase t = erase s"
  "\<not> agree None (Some y)" "\<not> agree (Some x) None"
  by (auto simp: agree_def)

lemma agreeE:
  assumes "agree x y"
  obtains "x = None" "y = None" | r t s where "x = Some (r, t)" "y = Some (r, s)" "erase t = erase s"
  using assms by (cases x; cases y) auto

lemma oblivious_bind:
  assumes "oblivious m" and "\<And>x. oblivious (f x)"
  shows "oblivious (op_bind m f)"
  unfolding oblivious_def
proof (intro allI impI)
  fix t s
  assume "erase t = erase s"
  then have "agree (m t) (m s)" using assms(1) by (simp add: oblivious_def)
  then show "agree (op_bind m f t) (op_bind m f s)"
    using assms(2) by (cases rule: agreeE) (auto simp: op_bind_def oblivious_def split: sum.split)
qed

lemma oblivious_simple [simp]: "oblivious (op_return x)" "oblivious (op_fail e)"
  by (simp_all add: oblivious_def op_return_def op_fail_def)

lemma oblivious_lift: "oblivious m \<Longrightarrow> oblivious (lift_resolve m)"
  unfolding oblivious_def
proof (intro allI impI)
  fix t s
  assume "\<forall>t s. erase t = erase s \<longrightarrow> agree (m t) (m s)" and "erase t = erase s"
  then have "agree (m t) (m s)" by blast
  then show "agree (lift_resolve m t) (lift_resolve m s)"
    by (cases rule: agreeE) (auto simp: lift_resolve_def split: sum.split)
qed

lemma oblivious_map: "(\<And>x. oblivious (f x)) \<Longrightarrow> oblivious (op_map f xs)"
  by (induction xs) (auto intro!: oblivious_bind)

lemma oblivious_each: "(\<And>x. oblivious (f x)) \<Longrightarrow> oblivious (op_each f xs)"
  by (induction xs) (auto intro!: oblivious_bind)

lemma compress_oblivious:
  "leads (ut_parent t) n c root \<Longrightarrow> erase t = erase s \<Longrightarrow>
     \<exists>t' s'. compress root c t = Some t' \<and> compress root c s = Some s' \<and> erase t' = erase s'"
proof (induction n arbitrary: c t s)
  case 0
  then have "c = root" by (cases rule: leads.cases) auto
  then show ?case using 0 by (simp add: compress_unfold)
next
  case (Suc n)
  have "leads ((ut_parent t)(c \<mapsto> root)) n (parent_of (ut_parent t) c) root"
    using Suc.prems(1) by (intro compress_leads leads_parent) (auto simp: root_of_def)
  then have "leads (ut_parent (set_parent c root t)) n (parent_of (ut_parent t) c) root"
    by (simp only: set_parent_fields)
  from Suc.IH [OF this erase_set_parent [OF Suc.prems(2)]] show ?case
    using Suc.prems(2) erase_fields(1) [OF Suc.prems(2)] compress_unfold [of root c t] compress_unfold [of root c s]
    by auto
qed

lemma oblivious_find: "oblivious (ut_find i)"
  unfolding oblivious_def
proof (intro allI impI)
  fix t s
  assume e: "erase t = erase s"
  show "agree (ut_find i t) (ut_find i s)"
  proof (cases "find_walk (ut_parent t) i")
    case None
    then show ?thesis using erase_fields(1) [OF e] by (simp add: ut_find_def)
  next
    case (Some root)
    then obtain n where "leads (ut_parent t) n i root" by (auto simp: find_walk_iff root_of_def)
    from compress_oblivious [OF this e] show ?thesis
      using Some erase_fields(1) [OF e] by (auto simp: ut_find_def)
  qed
qed

lemma oblivious_update: "(\<And>t s. erase t = erase s \<Longrightarrow> erase (h t) = erase (h s)) \<Longrightarrow> oblivious (op_update h)"
  unfolding oblivious_def op_update_def agree_simps by blast

lemma oblivious_resolve: "oblivious (resolve_with_depth n S ty)"
proof (induction n arbitrary: S ty)
  case (Suc n)
  show ?case
  proof (cases ty rule: plain_cases)
    case (var i)
    have cached: "oblivious (op_bind (resolve_with_depth n (insert root S) b)
        (\<lambda>r. op_bind (op_update (set_binding root r)) (\<lambda>_. op_return r)))" for root b
      by (intro oblivious_bind Suc oblivious_update erase_set_binding) simp_all
    have "oblivious (\<lambda>t. case ut_binding t root of None \<Rightarrow> op_return (TyTypeVar root) t
        | Some b \<Rightarrow> if root \<in> S then op_fail (ReBindingCycle root) t
            else op_bind (resolve_with_depth n (insert root S) b)
                   (\<lambda>r. op_bind (op_update (set_binding root r)) (\<lambda>_. op_return r)) t)" for root
      unfolding oblivious_def
    proof (intro allI impI)
      fix t s
      assume e: "erase t = erase s"
      have "agree (op_bind (resolve_with_depth n (insert root S) b)
                   (\<lambda>r. op_bind (op_update (set_binding root r)) (\<lambda>_. op_return r)) t)
                 (op_bind (resolve_with_depth n (insert root S) b)
                   (\<lambda>r. op_bind (op_update (set_binding root r)) (\<lambda>_. op_return r)) s)" for b
        using cached e unfolding oblivious_def by blast
      then show "agree (case ut_binding t root of None \<Rightarrow> op_return (TyTypeVar root) t
        | Some b \<Rightarrow> if root \<in> S then op_fail (ReBindingCycle root) t
            else op_bind (resolve_with_depth n (insert root S) b)
                   (\<lambda>r. op_bind (op_update (set_binding root r)) (\<lambda>_. op_return r)) t)
        (case ut_binding s root of None \<Rightarrow> op_return (TyTypeVar root) s
        | Some b \<Rightarrow> if root \<in> S then op_fail (ReBindingCycle root) s
            else op_bind (resolve_with_depth n (insert root S) b)
                   (\<lambda>r. op_bind (op_update (set_binding root r)) (\<lambda>_. op_return r)) s)"
        using e by (simp add: erase_fields(2) [OF e] op_return_def op_fail_def split: option.split)
    qed
    then show ?thesis using var by (auto intro!: oblivious_bind oblivious_find)
  next
    case plain
    show ?thesis unfolding resolve_plain [OF plain] using Suc by (auto intro!: oblivious_bind oblivious_map)
  qed (auto intro!: oblivious_bind Suc)
qed simp

lemma oblivious_bind_var: "oblivious (bind_var i ty)"
  by (auto simp: bind_var_def intro!: oblivious_bind oblivious_find oblivious_update erase_set_binding)

lemma oblivious_join: "oblivious (join_vars i j)"
  by (auto simp: join_vars_def intro!: oblivious_bind oblivious_find oblivious_update erase_set_parent)

lemma oblivious_resolved:
  assumes "\<And>p. oblivious (f p)"
  shows "oblivious (unify_resolved f a b)"
  unfolding oblivious_def
proof (intro allI impI)
  fix t s
  assume e: "erase t = erase s"
  show "agree (unify_resolved f a b t) (unify_resolved f a b s)"
  proof (cases "(\<exists>i. ty_unlocated a = TyTypeVar i) \<or> (\<exists>j. ty_unlocated b = TyTypeVar j)")
    case True
    then show ?thesis
      using oblivious_bind_var oblivious_join e
      by (cases "\<exists>i. ty_unlocated a = TyTypeVar i"; cases "\<exists>j. ty_unlocated b = TyTypeVar j")
        (auto simp: unify_resolved_views oblivious_def)
  next
    case False
    then show ?thesis using e erase_fields(3) [OF e] oblivious_each [of f, OF assms]
      by (auto simp: unify_resolved_views oblivious_def op_fail_def split: sum.split)
  qed
qed

lemma oblivious_inner: "oblivious (unify_inference_inner n a b)"
proof (induction n arbitrary: a b)
  case 0
  then show ?case by (simp add: oblivious_def)
next
  case (Suc n)
  then show ?case
    by (auto simp: resolve_infer_def intro!: oblivious_bind oblivious_lift oblivious_resolve oblivious_resolved)
qed

lemma is_ok_probe:
  assumes "erase t = erase s" and "transaction m t = Some (r, t')" and m: "oblivious m"
  shows "\<exists>s'. transaction m s = Some (r, s')"
proof -
  have "erase (t\<lparr>ut_depth := ut_depth t + 1\<rparr>) = erase (s\<lparr>ut_depth := ut_depth s + 1\<rparr>)"
    using assms(1) by (simp add: erase_def)
  then have "agree (m (t\<lparr>ut_depth := ut_depth t + 1\<rparr>)) (m (s\<lparr>ut_depth := ut_depth s + 1\<rparr>))"
    using m unfolding oblivious_def by blast
  then show ?thesis using assms(2) by (cases rule: agreeE) (auto simp: transaction_def)
qed

lemma constrain_deeper:
  assumes "constrain n a b t = Some (r, t')"
  shows "\<exists>t''. constrain n a b (t\<lparr>ut_depth := d\<rparr>) = Some (r, t'')"
  using assms unfolding constrain_def
  by (rule is_ok_probe [rotated])
    (auto simp: erase_def resolve_infer_def intro!: oblivious_bind oblivious_lift oblivious_resolve oblivious_inner)

section \<open>The tables that the operations build\<close>

inductive table_reached :: "UnificationTable \<Rightarrow> bool" where
  reached_new: "table_reached ut_new"
| reached_reset: "table_reached t \<Longrightarrow> table_reached (ut_reset t)"
| reached_note: "table_reached t \<Longrightarrow> table_reached (note_linear_type_name n t)"
| reached_fresh: "table_reached t \<Longrightarrow> fresh_var t = Some (i, t') \<Longrightarrow> table_reached t'"
| reached_find: "table_reached t \<Longrightarrow> (ut_find i :: (ResolveError, u32) table_op) t = Some (r, t') \<Longrightarrow> table_reached t'"
| reached_resolve: "table_reached t \<Longrightarrow> resolve_infer ty t = Some (r, t') \<Longrightarrow> table_reached t'"
| reached_constrain: "table_reached t \<Longrightarrow> constrain n a b t = Some (r, t') \<Longrightarrow> table_reached t'"
| reached_infer: "table_reached t \<Longrightarrow> unify_inference n a b t = Some (r, t') \<Longrightarrow> table_reached t'"
| reached_probe: "table_reached t \<Longrightarrow> probe_compatible n a b t = Some (c, t') \<Longrightarrow> table_reached t'"

lemma trail_untouched:
  "ut_depth t = 0 \<Longrightarrow> ut_trail (record_undo u t) = ut_trail t"
  "ut_depth t = 0 \<Longrightarrow> ut_trail (set_parent i p t) = ut_trail t"
  "ut_depth t = 0 \<Longrightarrow> ut_trail (set_binding i ty t) = ut_trail t"
  "ut_depth (record_undo u t) = ut_depth t"
  by (auto simp: record_undo_def set_parent_def set_binding_def)

text \<open>Outside a transaction nothing is recorded; inside one the trail may grow.\<close>

definition stays_idle :: "UnificationTable \<Rightarrow> UnificationTable \<Rightarrow> bool" where
  "stays_idle t t' \<longleftrightarrow> idle t' \<and> (\<forall>i. ut_binding t i \<noteq> None \<longrightarrow> ut_binding t' i \<noteq> None)"

interpretation idles: table_runs idle stays_idle
  by unfold_locales (auto simp: stays_idle_def idle_def trail_untouched)

lemma transaction_forest:
  assumes "keeps forest to_forest m" and "keeps (\<lambda>t. 0 < ut_depth t) undoable m"
    and "forest t" and "idle t" and run: "transaction m t = Some (r, t')"
  shows "forest t' \<and> idle t'"
proof -
  let ?s = "t\<lparr>ut_depth := ut_depth t + 1\<rparr>"
  obtain t1 where m: "m ?s = Some (r, t1)" and t': "t' = end_transaction (length (ut_trail t)) (is_ok r) t1"
    using run by (auto simp: transaction_def split: option.splits)
  have f: "forest t1" using keepsD [OF assms(1) _ m] assms(3) by (simp add: to_forest_def forest_def)
  show ?thesis
  proof (cases "is_ok r")
    case True
    then show ?thesis using f t' transaction_run [OF assms(2,4) run]
      by (auto simp: end_transaction_def Let_def forest_def)
  next
    case False
    then show ?thesis using transaction_run [OF assms(2,4) run] assms(3) by auto
  qed
qed

lemma reached_ok: "table_reached t \<Longrightarrow> forest t \<and> idle t"
proof (induction rule: table_reached.induct)
  case reached_new
  then show ?case using new_forest by (simp add: idle_def ut_new_def)
next
  case (reached_reset t)
  then show ?case using new_forest by (simp add: idle_def ut_reset_def ut_new_def forest_def)
next
  case (reached_note t n)
  then show ?case by (simp add: idle_def note_linear_type_name_def forest_def)
next
  case (reached_fresh t i t')
  then show ?case using fresh_forest
    by (auto simp: fresh_var_def Let_def idle_def trail_untouched split: option.splits)
next
  case (reached_find t i r t')
  then show ?case using keepsD [OF forest.keeps_find _ reached_find(2)] keepsD [OF idles.keeps_find _ reached_find(2)]
    by (simp add: to_forest_def stays_idle_def)
next
  case (reached_resolve t ty r t')
  then show ?case
    using keepsD [OF forest.keeps_resolve_infer _ reached_resolve(2)]
      keepsD [OF idles.keeps_resolve_infer _ reached_resolve(2)]
    by (simp add: to_forest_def stays_idle_def)
next
  case (reached_constrain t n a b r t')
  then show ?case unfolding constrain_def
    using transaction_forest [OF forest.keeps_constrain_body undo.keeps_constrain_body] by blast
next
  case (reached_infer t n a b r t')
  then show ?case unfolding unify_inference_def
    using transaction_forest [OF forest.keeps_unify_inner undo.keeps_unify_inner] by blast
next
  case (reached_probe t n a b c t')
  then have "t' = t" using probe_run by blast
  then show ?case using reached_probe.IH by simp
qed

section \<open>Properties\<close>

lemma reached_settles:
  assumes "table_reached t"
  shows "\<exists>n r t'. table_reached t' \<and> (\<forall>m \<ge> n. constrain m a b t = Some (r, t'))"
proof -
  obtain n r t' where "constrain n a b t = Some (r, t')"
    using constrain_settles reached_ok [OF assms] by fastforce
  then show ?thesis using constrain_mono reached_constrain [OF assms] by blast
qed

lemma probe_settles:
  assumes t: "table_reached t" and run: "constrain n a b t = Some (r, t')"
  shows "probe_compatible n a b t = Some (is_ok r, t)"
proof -
  obtain t'' where "constrain n a b (t\<lparr>ut_depth := ut_depth t + 1\<rparr>) = Some (r, t'')"
    using constrain_deeper [OF run] by blast
  then have "\<exists>t1. probe_compatible n a b t = Some (is_ok r, t1)" by (simp add: probe_compatible_def)
  then show ?thesis using probe_run reached_ok [OF t] by blast
qed

text \<open>A tuple whose first components would bind a variable and whose second ones clash.\<close>

definition demo_left :: Type where
  "demo_left = TyTuple [TyTypeVar 0, TyName ''i32'' []]"

definition demo_right :: Type where
  "demo_right = TyTuple [TyName ''bool'' [], TyName ''string'' []]"

lemma demo_runs:
  "map_option (\<lambda>(r, t). is_ok r) (constrain 3 demo_left demo_right ut_new) = Some False"
  by code_simp

end
