(* ===== verification/Mimi_UnifyResolve.thy ===== *)
theory Mimi_UnifyResolve
  imports Mimi_UnifyProps
begin

text \<open>
  What resolution computes: the type with every bound variable replaced by what its root is bound
  to, all the way down. The paths it compresses and the bindings it caches are invisible.
\<close>

section \<open>The meaning of a type in a table\<close>

inductive resolves :: "UnificationTable \<Rightarrow> Type \<Rightarrow> Type \<Rightarrow> bool" for t where
  res_free: "root_of (ut_parent t) i r \<Longrightarrow> ut_binding t r = None \<Longrightarrow> resolves t (TyTypeVar i) (TyTypeVar r)"
| res_bound: "root_of (ut_parent t) i r \<Longrightarrow> ut_binding t r = Some b \<Longrightarrow> resolves t b y \<Longrightarrow>
    resolves t (TyTypeVar i) y"
| res_located: "resolves t x y \<Longrightarrow> resolves t (TyLocated m x) (ty_with_meta m y)"
| res_forall: "resolves t (TyForAll ps b) (TyForAll ps b)"
| res_node: "plain ty \<Longrightarrow> list_all2 (resolves t) (ty_kids ty) ks \<Longrightarrow> resolves t ty (ty_with_kids ty ks)"

lemma resolves_plain:
  assumes "plain ty"
  shows "resolves t ty y \<longleftrightarrow> (\<exists>ks. list_all2 (resolves t) (ty_kids ty) ks \<and> y = ty_with_kids ty ks)"
proof
  assume "resolves t ty y"
  then show "\<exists>ks. list_all2 (resolves t) (ty_kids ty) ks \<and> y = ty_with_kids ty ks"
    by (cases rule: resolves.cases) (use assms in auto)
qed (use assms in \<open>auto intro: res_node\<close>)

lemma list_all2_unique:
  "list_all2 (\<lambda>x y. P x y \<and> (\<forall>z. P x z \<longrightarrow> z = y)) xs ys \<Longrightarrow> list_all2 P xs zs \<Longrightarrow> zs = ys"
proof (induction xs ys arbitrary: zs rule: list_all2_induct)
  case (Cons x xs y ys)
  from Cons.prems obtain z zs' where "zs = z # zs'" "P x z" "list_all2 P xs zs'"
    by (cases zs) auto
  then show ?case using Cons.hyps(1) Cons.IH by blast
qed simp

lemma resolves_var_cases:
  assumes "resolves t (TyTypeVar i) z"
  obtains r where "root_of (ut_parent t) i r" "ut_binding t r = None" "z = TyTypeVar r"
    | r b where "root_of (ut_parent t) i r" "ut_binding t r = Some b" "resolves t b z"
  using assms by (cases rule: resolves.cases) auto

lemma resolves_unique: "resolves t x y \<Longrightarrow> resolves t x z \<Longrightarrow> z = y"
proof (induction arbitrary: z rule: resolves.induct)
  case (res_free i r)
  from res_free(3) show ?case
    by (rule resolves_var_cases) (use res_free(1,2) root_of_unique [OF res_free(1)] in auto)
next
  case (res_bound i r b y)
  from res_bound.prems show ?case
    by (rule resolves_var_cases) (use res_bound(2) res_bound.IH root_of_unique [OF res_bound(1)] in auto)
next
  case (res_located x y m)
  from res_located.prems obtain w where "z = ty_with_meta m w" "resolves t x w"
    by (cases rule: resolves.cases) auto
  then show ?case using res_located.IH by simp
next
  case (res_forall ps b)
  then show ?case by (cases rule: resolves.cases) auto
next
  case (res_node ty ks)
  obtain ls where ls: "list_all2 (resolves t) (ty_kids ty) ls" and z: "z = ty_with_kids ty ls"
    using res_node.prems resolves_plain [OF res_node(1)] by blast
  show ?case using list_all2_unique [OF res_node(2) ls] z by simp
qed

lemma resolves_normal: "resolves t x y \<Longrightarrow> normal t y"
proof (induction rule: resolves.induct)
  case (res_free i r)
  then show ?case by (simp add: free_root_parent root_of_end)
next
  case (res_node ty ks)
  have len: "length ks = length (ty_kids ty)" and n: "list_all (normal t) ks"
    using res_node(2) by (auto simp: list_all2_conv_all_nth list_all_length)
  have "plain (ty_with_kids ty ks)" using res_node(1) plain_shape ty_with_kids_views(1) [OF len] by metis
  then show ?case using n by (simp add: normal_plain ty_with_kids_views(2) [OF len])
qed (auto simp: normal_with_meta)

lemma normal_resolves: "normal t x \<Longrightarrow> resolves t x x"
proof (induction t x rule: normal.induct)
  case (1 t x)
  show ?case
  proof (cases x rule: plain_cases)
    case (var i)
    then have "root_of (ut_parent t) i i" "ut_binding t i = None"
      using "1.prems" by (simp_all add: free_root_def)
    then show ?thesis using var by (auto intro: res_free)
  next
    case (located m y)
    then have "resolves t y y" "ty_shape y \<noteq> ShLocated" using 1 by auto
    then show ?thesis using located res_located [of t y y m] by (simp add: with_meta_located)
  next
    case plain
    have "resolves t k k" if "k \<in> set (ty_kids x)" for k
      using plain 1 that by (cases x) (auto simp: plain_def normal_plain list_all_iff)
    then have "list_all2 (resolves t) (ty_kids x) (ty_kids x)" by (simp add: list_all2_same)
    then show ?thesis using plain res_node [of x t "ty_kids x"] by simp
  qed (auto intro: res_forall)
qed

section \<open>The writes of resolution do not change it\<close>

definition same_meaning :: "UnificationTable \<Rightarrow> UnificationTable \<Rightarrow> bool" where
  "same_meaning t t' \<longleftrightarrow> (\<forall>x y. resolves t x y \<longleftrightarrow> resolves t' x y)"

lemma meaning_by_roots:
  assumes "\<And>i r. root_of (ut_parent t) i r \<Longrightarrow> root_of (ut_parent t') i r" and "ut_binding t = ut_binding t'"
  shows "resolves t x y \<Longrightarrow> resolves t' x y"
proof (induction rule: resolves.induct)
  case (res_node ty ks)
  then show ?case by (auto intro!: resolves.res_node elim: list_all2_mono)
qed (use assms in \<open>auto intro: resolves.intros\<close>)

lemma meaning_compress: "root_of (ut_parent t) c r \<Longrightarrow> same_meaning t (set_parent c r t)"
  unfolding same_meaning_def
  using meaning_by_roots [of t "set_parent c r t"] meaning_by_roots [of "set_parent c r t" t]
  by (auto simp: compress_root_of)

lemma binding_upd:
  "ut_binding (set_binding i ty t) j = ut_binding t j \<or> j = i \<and> ut_binding (set_binding i ty t) j = Some ty"
  by (auto simp: set_binding_def record_undo_def)

lemma meaning_cache:
  assumes b: "ut_binding t v = Some b" and r: "resolves t b r"
  shows "same_meaning t (set_binding v r t)"
proof -
  let ?t = "set_binding v r t"
  have free: "free_root t i = free_root ?t i" for i using b by (auto simp: free_root_parent)
  have rn: "normal t r" using r by (rule resolves_normal)
  have same: "same_vars t ?t" using same.R_cache b by (simp add: same.R_cache)
  have fwd: "resolves t x y \<Longrightarrow> resolves ?t x y" for x y
  proof (induction rule: resolves.induct)
    case (res_free i s)
    then show ?case using b by (intro resolves.res_free) auto
  next
    case (res_bound i s b' y)
    show ?case
    proof (cases "ut_binding ?t s = ut_binding t s")
      case True
      then show ?thesis using res_bound by (intro resolves.res_bound) auto
    next
      case False
      then have "s = v" "ut_binding ?t s = Some r" using binding_upd [of v r t s] by auto
      moreover have "y = r" using res_bound b r resolves_unique \<open>s = v\<close> by auto
      moreover have "resolves ?t r r" using normal_resolves normal_same [OF same] rn by blast
      ultimately show ?thesis using res_bound(1) by (intro resolves.res_bound) auto
    qed
  next
    case (res_node ty ks)
    then show ?case by (auto intro!: resolves.res_node elim: list_all2_mono)
  qed (auto intro: resolves.intros)
  have bwd: "resolves ?t x y \<Longrightarrow> resolves t x y" for x y
  proof (induction rule: resolves.induct)
    case (res_free i s)
    then show ?case by (intro resolves.res_free) auto
  next
    case (res_bound i s b' y)
    show ?case
    proof (cases "ut_binding ?t s = ut_binding t s")
      case True
      then show ?thesis using res_bound by (intro resolves.res_bound) auto
    next
      case False
      then have "s = v" "b' = r" using binding_upd [of v r t s] res_bound(2) by auto
      then have "y = r" using res_bound.IH normal_resolves [OF rn] resolves_unique by blast
      then show ?thesis using res_bound(1) b r \<open>s = v\<close> by (auto intro: resolves.res_bound)
    qed
  next
    case (res_node ty ks)
    then show ?case by (auto intro!: resolves.res_node elim: list_all2_mono)
  qed (auto intro: resolves.intros)
  show ?thesis using fwd bwd by (auto simp: same_meaning_def)
qed

lemma meaning_refl: "same_meaning t t"
  by (simp add: same_meaning_def)

lemma meaning_trans: "same_meaning t t' \<Longrightarrow> same_meaning t' t'' \<Longrightarrow> same_meaning t t''"
  by (simp add: same_meaning_def)

section \<open>Resolution computes the meaning\<close>

definition resolves_by :: "Type \<Rightarrow> (ResolveError, Type) table_op \<Rightarrow> bool" where
  "resolves_by ty m \<longleftrightarrow>
     (\<forall>t r t'. m t = Some (r, t') \<longrightarrow> same_meaning t t' \<and> (\<forall>y. r = Ok y \<longrightarrow> resolves t ty y))"

lemma resolves_byD:
  "resolves_by ty m \<Longrightarrow> m t = Some (r, t') \<Longrightarrow> same_meaning t t' \<and> (\<forall>y. r = Ok y \<longrightarrow> resolves t ty y)"
  by (auto simp: resolves_by_def)

lemma map_meaning:
  assumes "\<And>x. resolves_by x (f x)" and "op_map f xs t = Some (r, t')"
  shows "same_meaning t t' \<and> (\<forall>ys. r = Ok ys \<longrightarrow> list_all2 (resolves t) xs ys)"
  using assms(2)
proof (induction xs arbitrary: t r t')
  case Nil
  then show ?case by (simp add: meaning_refl)
next
  case (Cons x xs)
  from Cons.prems have "op_bind (f x) (\<lambda>y. op_bind (op_map f xs) (\<lambda>ys. op_return (y # ys))) t = Some (r, t')"
    by simp
  then show ?case
  proof (cases rule: op_bind_run)
    case (err e)
    then show ?thesis using resolves_byD [OF assms(1)] by fastforce
  next
    case (ok y t1)
    have y: "same_meaning t t1" "resolves t x y" using resolves_byD [OF assms(1) ok(1)] by auto
    from ok(2) show ?thesis
    proof (cases rule: op_bind_run)
      case (err e)
      then show ?thesis using Cons.IH [OF err(1)] y meaning_trans by blast
    next
      case (ok ys t2)
      then have "same_meaning t1 t'" "list_all2 (resolves t1) xs ys" "r = Ok (y # ys)"
        using Cons.IH [OF ok(1)] by auto
      moreover have "resolves t1 = resolves t" using y(1) by (intro ext) (simp add: same_meaning_def)
      ultimately show ?thesis using y meaning_trans by auto
    qed
  qed
qed

lemma compress_meaning:
  "leads (ut_parent t) n c root \<Longrightarrow> compress root c t = Some t' \<Longrightarrow> same_meaning t t'"
proof (induction n arbitrary: c t)
  case 0
  then have "c = root" by (cases rule: leads.cases) auto
  then show ?case using 0 by (simp add: compress_unfold meaning_refl)
next
  case (Suc n)
  have c: "root_of (ut_parent t) c root" using Suc.prems(1) by (auto simp: root_of_def)
  have "leads ((ut_parent t)(c \<mapsto> root)) n (parent_of (ut_parent t) c) root"
    using Suc.prems(1) c by (intro compress_leads leads_parent) auto
  then have "leads (ut_parent (set_parent c root t)) n (parent_of (ut_parent t) c) root"
    by (simp only: set_parent_fields)
  from Suc.IH [OF this] show ?case
    using Suc.prems(2) meaning_compress [OF c] meaning_trans meaning_refl
    unfolding compress_unfold [of root c t] by (auto split: if_splits)
qed

lemma find_meaning:
  assumes "ut_find i t = Some (r, t')"
  shows "same_meaning t t' \<and> ut_binding t' = ut_binding t"
proof -
  obtain root where w: "root_of (ut_parent t) i root" and c: "compress root i t = Some t'"
    using assms by (auto simp: ut_find_def find_walk_iff split: option.splits)
  have bind: "compress root i t = Some t' \<Longrightarrow> leads (ut_parent t) n i root \<Longrightarrow> ut_binding t' = ut_binding t" for n i t
  proof (induction n arbitrary: i t)
    case 0
    from 0(2) have "i = root" by (cases rule: leads.cases) auto
    then show ?case using 0 by (simp add: compress_unfold)
  next
    case (Suc n)
    have "leads ((ut_parent t)(i \<mapsto> root)) n (parent_of (ut_parent t) i) root"
      using Suc.prems(2) by (intro compress_leads leads_parent) (auto simp: root_of_def)
    then have "leads (ut_parent (set_parent i root t)) n (parent_of (ut_parent t) i) root"
      by (simp only: set_parent_fields)
    from Suc.IH [OF _ this] show ?case using Suc.prems(1) unfolding compress_unfold [of root i t]
      by (auto split: if_splits)
  qed
  show ?thesis using w c bind compress_meaning by (auto simp: root_of_def)
qed

lemma resolve_meaning: "resolves_by ty (resolve_with_depth n S ty)"
proof (induction n arbitrary: S ty)
  case 0
  then show ?case by (simp add: resolves_by_def meaning_refl)
next
  case (Suc n)
  show ?case
    unfolding resolves_by_def
  proof (intro allI impI)
    fix t r t'
    assume run: "resolve_with_depth (Suc n) S ty t = Some (r, t')"
    show "same_meaning t t' \<and> (\<forall>y. r = Ok y \<longrightarrow> resolves t ty y)"
    proof (cases ty rule: plain_cases)
      case (var i)
      from run [unfolded var resolve_with_depth.simps Type.case] show ?thesis
      proof (cases rule: op_bind_run)
        case (err e)
        then show ?thesis using find_run by fastforce
      next
        case (ok root t1)
        have t1: "same_meaning t t1" "ut_binding t1 = ut_binding t" and root: "root_of (ut_parent t) i root"
          using find_meaning [OF ok(1)] find_run [OF ok(1)] by auto
        show ?thesis
        proof (cases "ut_binding t1 root")
          case None
          then show ?thesis using ok(2) t1 root var by (auto intro: res_free)
        next
          case (Some b)
          show ?thesis
          proof (cases "root \<in> S")
            case True
            then show ?thesis using ok(2) Some t1 by simp
          next
            case False
            let ?m = "resolve_with_depth n (insert root S) b"
            have "op_bind ?m (\<lambda>r. op_bind (op_update (set_binding root r)) (\<lambda>_. op_return r)) t1 = Some (r, t')"
              using ok(2) Some False by simp
            then show ?thesis
            proof (cases rule: op_bind_run)
              case (err e)
              then show ?thesis using resolves_byD [OF Suc err(1)] t1 meaning_trans by blast
            next
              case (ok y t2)
              have y: "same_meaning t1 t2" "resolves t1 b y" using resolves_byD [OF Suc ok(1)] by auto
              obtain b2 where b2: "ut_binding t2 root = Some b2"
                using same.R_bound [OF TrueI resolve_same [OF ok(1)], of root] Some by auto
              have r: "r = Ok y" "t' = set_binding root y t2" using ok(2) by (auto simp: op_bind_ok op_bind_def op_update_def)
              have "resolves t b y" using y(2) t1(1) by (simp add: same_meaning_def)
              then have ty: "resolves t ty y" using var root Some t1(2) by (auto intro: res_bound)
              have "same_meaning t2 t'"
              proof -
                have "root_of (ut_parent t2) root root"
                  using root find_run [OF \<open>ut_find i t = Some (Ok root, t1)\<close>] resolve_same [OF ok(1)]
                  by (auto simp: same_vars_def root_of_self dest: root_of_end)
                moreover have "resolves t (TyTypeVar root) y"
                  using \<open>resolves t b y\<close> root Some t1(2) root_of_self [OF root_of_end [OF root]]
                  by (auto intro: res_bound)
                then have "resolves t2 (TyTypeVar root) y" using t1(1) y(1) by (simp add: same_meaning_def)
                ultimately have "resolves t2 b2 y"
                  using b2 by (auto elim!: resolves_var_cases dest: root_of_unique)
                then show ?thesis using meaning_cache [OF b2] r(2) by simp
              qed
              then show ?thesis using r ty t1(1) y(1) meaning_trans by blast
            qed
          qed
        qed
      qed
    next
      case plain
      from run [unfolded resolve_plain [OF plain]] show ?thesis
      proof (cases rule: op_bind_run)
        case (err e)
        then show ?thesis using map_meaning [OF Suc err(1)] by simp
      next
        case (ok ks t1)
        then show ?thesis using map_meaning [OF Suc ok(1)] plain by (auto intro: res_node)
      qed
    next
      case (located m x)
      from run [unfolded located resolve_with_depth.simps Type.case] show ?thesis
      proof (cases rule: op_bind_run)
        case (err e)
        then show ?thesis using resolves_byD [OF Suc err(1)] by simp
      next
        case (ok y t1)
        then show ?thesis using resolves_byD [OF Suc ok(1)] located by (auto intro: res_located)
      qed
    qed (use run in \<open>auto simp: meaning_refl intro: res_forall\<close>)
  qed
qed

section \<open>Properties\<close>

text \<open>
  C33: on every table the operations can build, \<open>constrain\<close> decides the constraint: from some depth
  of recursion on the outcome is the same for every larger bound. The table it leaves is again
  one the operations build, and a rejected constraint leaves the table exactly as it was, with the
  bindings, links, identifiers and trail it had.
\<close>

theorem constraint_decided_atomically:
  assumes "table_reached t"
  shows "\<exists>n r t'. (\<forall>m \<ge> n. constrain m a b t = Some (r, t')) \<and> table_reached t' \<and> (is_ok r \<or> t' = t)"
proof -
  obtain n r t' where run: "\<forall>m \<ge> n. constrain m a b t = Some (r, t')" and t': "table_reached t'"
    using reached_settles [OF assms] by blast
  then have "is_ok r \<or> t' = t" using constrain_run reached_ok [OF assms] by blast
  then show ?thesis using run t' by blast
qed

theorem constraint_decided_atomically_witness:
  "\<exists>n e. \<forall>m \<ge> n. constrain m demo_left demo_right ut_new = Some (Err e, ut_new)"
proof -
  obtain n r t' where run: "\<forall>m \<ge> n. constrain m demo_left demo_right ut_new = Some (r, t')"
      and out: "is_ok r \<or> t' = ut_new"
    using constraint_decided_atomically [OF reached_new, of demo_left demo_right] by blast
  obtain r3 t3 where "constrain 3 demo_left demo_right ut_new = Some (r3, t3)" "\<not> is_ok r3"
    using demo_runs by auto
  then have "r3 = r" using run constrain_mono [of 3 demo_left demo_right ut_new _ "max 3 n"] by fastforce
  then have "\<not> is_ok r" using \<open>\<not> is_ok r3\<close> by simp
  then obtain e where "r = Err e" by (cases r) auto
  then show ?thesis using run out by auto
qed

text \<open>
  C34: the compatibility probe answers whether the constraint would succeed, and leaves the table
  exactly as it was, whatever the answer.
\<close>

theorem probe_decides_without_trace:
  assumes "table_reached t"
  shows "\<exists>n. \<forall>m \<ge> n. \<exists>r t'. constrain m a b t = Some (r, t') \<and> probe_compatible m a b t = Some (is_ok r, t)"
  using reached_settles [OF assms, of a b] probe_settles [OF assms, of _ a b] by blast

theorem probe_decides_without_trace_witness:
  "\<exists>n. \<forall>m \<ge> n. probe_compatible m demo_left demo_right ut_new = Some (False, ut_new)"
proof -
  obtain n where n: "\<forall>m \<ge> n. \<exists>r t'. constrain m demo_left demo_right ut_new = Some (r, t') \<and>
      probe_compatible m demo_left demo_right ut_new = Some (is_ok r, ut_new)"
    using probe_decides_without_trace [OF reached_new, of demo_left demo_right] by blast
  obtain r3 t3 where r3: "constrain 3 demo_left demo_right ut_new = Some (r3, t3)" "\<not> is_ok r3"
    using demo_runs by auto
  have "probe_compatible m demo_left demo_right ut_new = Some (False, ut_new)" if "max 3 n \<le> m" for m
    using n that constrain_mono [OF r3(1), of m] r3(2) by auto
  then show ?thesis by blast
qed

text \<open>
  C35: resolution returns on every such table, and a resolved type is the meaning of the type in the
  table: every bound variable outside a quantifier replaced, every remaining one an unbound root.
  The links it compresses and the bindings it caches change the meaning of no type.
\<close>

theorem resolution_exact:
  assumes "table_reached t"
  shows "\<exists>r t'. resolve_infer ty t = Some (r, t') \<and> same_meaning t t' \<and>
    (\<forall>y. r = Ok y \<longrightarrow> resolves t ty y \<and> normal t y)"
proof -
  obtain r t' where run: "resolve_infer ty t = Some (r, t')"
    using returns_resolve_infer reached_ok [OF assms] unfolding returns_def by fastforce
  then have "same_meaning t t' \<and> (\<forall>y. r = Ok y \<longrightarrow> resolves t ty y)"
    unfolding resolve_infer_def by (rule resolves_byD [OF resolve_meaning])
  then show ?thesis using run resolves_normal by blast
qed

theorem resolution_exact_witness:
  "\<exists>r t'. resolve_infer (TyOption (TyTypeVar 0)) ut_new = Some (r, t') \<and> same_meaning ut_new t' \<and>
    (\<nexists>y. r = Ok y \<and> \<not> (resolves ut_new (TyOption (TyTypeVar 0)) y \<and> normal ut_new y))"
  using resolution_exact [OF reached_new, of "TyOption (TyTypeVar 0)"] by blast

text \<open>The nodes no finished type may have.\<close>

definition residual :: "Type \<Rightarrow> bool" where
  "residual ty \<longleftrightarrow>
     (\<exists>i. ty = TyTypeVar i) \<or> (\<exists>ps b. ty = TyForAll ps b) \<or> ty = TyInfer \<or> ty = TyTyErr \<or>
     (\<exists>n as. ty = TyName n as \<and> (n = ''_'' \<or> n = ''unknown''))"

lemma residual_node_ok: "is_ok (residual_node ty) \<longleftrightarrow> \<not> residual ty"
  by (cases ty) (auto simp: residual_node_def residual_def)

lemma scan_residual_ok: "is_ok (scan_residual ty) \<longleftrightarrow> (\<nexists>s. subtype_of s ty \<and> residual s)"
  by (simp add: scan_residual_def type_try_visit_iff residual_node_ok)

text \<open>
  C36: \<open>zonk\<close> accepts exactly the types that resolve to one without a residual node anywhere: no
  inference variable, quantifier, placeholder, poison type, \<open>_\<close> or \<open>unknown\<close> reaches a finished type.
\<close>

theorem zonk_accepts_final_types:
  "zonk ty t = Some (Ok y, t') \<longleftrightarrow>
     resolve_infer ty t = Some (Ok y, t') \<and> (\<nexists>s. subtype_of s y \<and> residual s)"
proof -
  have "(case scan_residual r of Err e \<Rightarrow> op_fail e | Ok _ \<Rightarrow> op_return r) t1 = Some (Ok y, t') \<longleftrightarrow>
      r = y \<and> t1 = t' \<and> (\<nexists>s. subtype_of s r \<and> residual s)" for r t1
    unfolding scan_residual_ok [symmetric] by (cases "scan_residual r") auto
  then show ?thesis unfolding zonk_def op_bind_ok by auto
qed

section \<open>Where unification falls short\<close>

text \<open>
  A list whose element is still a variable flows into a bare \<open>List\<close>, and the variable may be bound
  to a capability afterwards: the list then carries a linear element through the bare annotation,
  which the same constraint rejects when the element is known.
\<close>

definition list_of :: "Type list \<Rightarrow> Type" where
  "list_of ts = TyName ''List'' ts"

lemma late_capability_escapes:
  "(case constrain 3 (list_of [TyTypeVar 0]) (list_of []) ut_new of
      Some (Ok _, t1) \<Rightarrow>
        (case constrain 3 (TyTypeVar 0) (TyCap ''file'') t1 of
           Some (Ok _, t2) \<Rightarrow>
             map_option fst (resolve_infer (list_of [TyTypeVar 0]) t2) = Some (Ok (list_of [TyCap ''file'']))
         | _ \<Rightarrow> False)
    | _ \<Rightarrow> False) \<and>
   map_option (\<lambda>(r, t). is_ok r) (constrain 3 (list_of [TyCap ''file'']) (list_of []) ut_new) = Some False"
  by code_simp

text \<open>No arm accepts the type \<open>nothing\<close> against itself.\<close>

lemma nothing_not_unifiable:
  "map_option (\<lambda>(r, t). is_ok r) (constrain 3 TyNothing TyNothing ut_new) = Some False"
  by code_simp

end
