(* ===== verification/Mimi_UnifySound.thy ===== *)
theory Mimi_UnifySound
  imports Mimi_UnifyResolve
begin

text \<open>
  Unification is sound: after a constraint was accepted both types have a meaning in the table, and
  the two meanings agree up to the escapes the code allows (placeholders, \<open>Any\<close>, poison, bare
  containers, transparent newtypes). The occurs check is what gives them a meaning at all.
\<close>

section \<open>Agreement of types without annotations\<close>

text \<open>
  A type whose head no binding changes, and which is no newtype: what a newtype's inner type is
  compared with.
\<close>

definition solid :: "Type \<Rightarrow> bool" where
  "solid u \<longleftrightarrow> plain u \<and> \<not> is_newtype u \<or> (\<exists>ps b. u = TyForAll ps b)"

inductive compatible :: "Type \<Rightarrow> Type \<Rightarrow> bool" where
  compat_same: "compatible u u"
| compat_escape: "escapes u v \<Longrightarrow> compatible u v"
| compat_bare: "bare_container u v \<Longrightarrow> compatible u v"
| compat_node: "plain u \<Longrightarrow> plain v \<Longrightarrow> heads_match (ty_shape u) (ty_shape v) \<Longrightarrow>
    list_all2 compatible (ty_kids u) (ty_kids v) \<Longrightarrow> compatible u v"
| compat_newtype_left: "solid v \<Longrightarrow> compatible i v \<Longrightarrow> compatible (TyNewtype n i) v"
| compat_newtype_right: "solid u \<Longrightarrow> compatible i u \<Longrightarrow> compatible u (TyNewtype n i)"

text \<open>The meaning of a type without its annotations.\<close>

definition means :: "UnificationTable \<Rightarrow> Type \<Rightarrow> Type \<Rightarrow> bool" where
  "means t u v \<longleftrightarrow> (\<exists>y. resolves t u y \<and> v = ty_strip y)"

lemma means_unique: "means t u v \<Longrightarrow> means t u w \<Longrightarrow> w = v"
  by (auto simp: means_def dest: resolves_unique)

lemma strip_located [simp]: "ty_strip (TyLocated m x) = ty_strip x"
  by (subst (1 2) ty_strip.simps) simp

lemma strip_with_meta [simp]: "ty_strip (ty_with_meta m x) = ty_strip x"
  by (cases x) simp_all

lemma strip_idem: "ty_strip (ty_strip x) = ty_strip x"
proof (induction x rule: ty_strip.induct)
  case (1 x)
  have "map ty_strip (map ty_strip (ty_kids (ty_unlocated x))) = map ty_strip (ty_kids (ty_unlocated x))"
    using 1 by simp
  then show ?case
    by (simp add: ty_view_eq [of "ty_strip (ty_strip x)"] strip_views shape_unlocated unlocated_id)
qed

lemma strip_plain: "plain x \<Longrightarrow> ty_strip x = ty_with_kids x (map ty_strip (ty_kids x))"
  by (subst ty_strip.simps) (simp add: unlocated_id plain_not_located)

lemma strip_unlocated: "ty_strip (ty_unlocated x) = ty_strip x"
  by (induction x rule: ty_unlocated.induct) auto

lemma plain_with_kids:
  "plain x \<Longrightarrow> length ks = length (ty_kids x) \<Longrightarrow> plain (ty_with_kids x ks)"
  using plain_shape ty_with_kids_views(1) by metis

lemma with_kids_again:
  assumes "length ks = length (ty_kids x)" and "length ls = length (ty_kids x)" and "plain x"
  shows "ty_with_kids (ty_with_kids x ks) ls = ty_with_kids x ls"
proof (rule ty_eqI)
  show "ty_shape (ty_with_kids (ty_with_kids x ks) ls) = ty_shape (ty_with_kids x ls)"
    using assms by (simp add: ty_with_kids_views)
  show "ty_kids (ty_with_kids (ty_with_kids x ks) ls) = ty_kids (ty_with_kids x ls)"
    using assms by (simp add: ty_with_kids_views)
  show "ty_shape (ty_with_kids (ty_with_kids x ks) ls) \<noteq> ShLocated"
    using assms plain_not_located by (simp add: ty_with_kids_views)
qed

lemma strip_with_kids:
  assumes "plain x" and "length ks = length (ty_kids x)"
  shows "ty_strip (ty_with_kids x ks) = ty_with_kids x (map ty_strip ks)"
  using assms by (simp add: strip_plain plain_with_kids ty_with_kids_views with_kids_again)

lemma means_plain:
  assumes "plain u"
  shows "means t u v \<longleftrightarrow> (\<exists>vs. list_all2 (means t) (ty_kids u) vs \<and> v = ty_with_kids u vs)"
proof
  assume "means t u v"
  then obtain ks where ks: "list_all2 (resolves t) (ty_kids u) ks" and v: "v = ty_strip (ty_with_kids u ks)"
    using resolves_plain [OF assms] by (auto simp: means_def)
  have "list_all2 (means t) (ty_kids u) (map ty_strip ks)"
    using ks by (auto simp: list_all2_map2 means_def elim: list_all2_mono)
  moreover have "v = ty_with_kids u (map ty_strip ks)"
    using v strip_with_kids [OF assms] ks by (simp add: list_all2_lengthD)
  ultimately show "\<exists>vs. list_all2 (means t) (ty_kids u) vs \<and> v = ty_with_kids u vs" by blast
next
  assume "\<exists>vs. list_all2 (means t) (ty_kids u) vs \<and> v = ty_with_kids u vs"
  then obtain vs where vs: "list_all2 (means t) (ty_kids u) vs" and v: "v = ty_with_kids u vs" by blast
  have "\<exists>ks. list_all2 (resolves t) us ks \<and> ws = map ty_strip ks" if "list_all2 (means t) us ws" for us ws
    using that
  proof (induction rule: list_all2_induct)
    case (Cons x xs y ys)
    then obtain k ks where "resolves t x k" "y = ty_strip k" "list_all2 (resolves t) xs ks" "ys = map ty_strip ks"
      by (auto simp: means_def)
    then show ?case by (intro exI [of _ "k # ks"]) simp
  qed simp
  then obtain ks where ks: "list_all2 (resolves t) (ty_kids u) ks" "vs = map ty_strip ks" using vs by blast
  then have "ty_strip (ty_with_kids u ks) = v"
    using v strip_with_kids [OF assms] by (simp add: list_all2_lengthD)
  moreover have "resolves t u (ty_with_kids u ks)" using res_node assms ks(1) by blast
  ultimately show "means t u v" by (auto simp: means_def)
qed

lemma means_located: "means t (TyLocated m x) v \<longleftrightarrow> means t x v"
proof
  assume "means t (TyLocated m x) v"
  then obtain y where "resolves t (TyLocated m x) y" "v = ty_strip y" by (auto simp: means_def)
  then show "means t x v" by (cases rule: resolves.cases) (auto simp: means_def)
qed (auto simp: means_def dest: res_located)

lemma means_unlocated: "means t (ty_unlocated x) v \<longleftrightarrow> means t x v"
  by (induction x rule: ty_unlocated.induct) (simp_all add: means_located)

text \<open>Annotations play no part in it.\<close>

lemma means_strip: "resolves t x y \<Longrightarrow> means t (ty_strip x) (ty_strip y)"
proof (induction rule: resolves.induct)
  case (res_free i r)
  then show ?case using resolves.res_free [of t i r] by (auto simp: means_def ty_strip.simps)
next
  case (res_bound i r b y)
  have "resolves t (TyTypeVar i) y" by (rule resolves.res_bound [OF res_bound(1,2,3)])
  then show ?case by (auto simp: means_def ty_strip.simps [of "TyTypeVar i"])
next
  case (res_forall ps b)
  have "ty_strip (TyForAll ps b) = TyForAll ps (ty_strip b)" by (subst ty_strip.simps) simp
  moreover have "ty_strip (TyForAll ps (ty_strip b)) = TyForAll ps (ty_strip b)"
    by (subst ty_strip.simps) (simp add: strip_idem)
  ultimately show ?case using resolves.res_forall [of t ps "ty_strip b"] by (auto simp: means_def)
next
  case (res_node ty ks)
  have len: "length ks = length (ty_kids ty)" using res_node(2) by (simp add: list_all2_lengthD)
  let ?u = "ty_with_kids ty (map ty_strip (ty_kids ty))"
  have "list_all2 (means t) (map ty_strip (ty_kids ty)) (map ty_strip ks)"
    using res_node(2) by (auto simp: list_all2_map1 list_all2_map2 elim: list_all2_mono)
  then have "means t ?u (ty_with_kids ?u (map ty_strip ks))"
    using means_plain [of ?u t] plain_with_kids [OF res_node(1)] ty_with_kids_views by (metis length_map)
  then show ?case
    using strip_plain [OF res_node(1)] strip_with_kids [OF res_node(1) len] with_kids_again res_node(1) len by simp
qed simp

section \<open>Later tables say more about a type\<close>

definition specialises :: "UnificationTable \<Rightarrow> UnificationTable \<Rightarrow> bool" where
  "specialises t t' \<longleftrightarrow>
     (\<forall>x y y'. resolves t x y \<longrightarrow> resolves t' y y' \<longrightarrow> resolves t' x y') \<and>
     (\<forall>y. normal t y \<longrightarrow> (\<exists>y'. resolves t' y y'))"

lemma specialises_resolves: "specialises t t' \<Longrightarrow> resolves t x y \<Longrightarrow> resolves t' y y' \<Longrightarrow> resolves t' x y'"
  by (auto simp: specialises_def)

lemma specialises_exists: "specialises t t' \<Longrightarrow> normal t y \<Longrightarrow> \<exists>y'. resolves t' y y'"
  by (auto simp: specialises_def)

lemma with_meta_twice [simp]: "ty_with_meta m (ty_with_meta m' x) = ty_with_meta m x"
  by (cases x) simp_all

text \<open>A step that keeps the bound roots and sends every free root to a type with a meaning.\<close>

lemma step_resolves:
  assumes roots: "\<And>v r s. root_of (ut_parent t) v r \<Longrightarrow> root_of (ut_parent t') r s \<Longrightarrow> root_of (ut_parent t') v s"
    and bound: "\<And>v b. root_of (ut_parent t) v v \<Longrightarrow> ut_binding t v = Some b \<Longrightarrow>
      root_of (ut_parent t') v v \<and> ut_binding t' v = Some b"
  shows "resolves t x y \<Longrightarrow> resolves t' y y' \<Longrightarrow> resolves t' x y'"
proof (induction arbitrary: y' rule: resolves.induct)
  case (res_free i r)
  from res_free(3) show ?case
    by (rule resolves_var_cases) (use res_free(1) roots in \<open>auto intro: resolves.intros\<close>)
next
  case (res_bound i r b y)
  have "root_of (ut_parent t) r r" using res_bound(1) root_of_self root_of_end by blast
  then have "root_of (ut_parent t') r r" "ut_binding t' r = Some b" using bound res_bound(2) by auto
  moreover have "root_of (ut_parent t') i r" using roots res_bound(1) calculation(1) by blast
  ultimately show ?case using res_bound.IH res_bound.prems resolves.res_bound by blast
next
  case (res_located x y m)
  have split: "\<exists>z. resolves t' y z \<and> y' = ty_with_meta m z"
  proof (cases "\<exists>m' y0. y = TyLocated m' y0")
    case True
    then obtain m' y0 where y: "y = TyLocated m' y0" by blast
    then obtain z where "resolves t' y0 z" "y' = ty_with_meta m z"
      using res_located.prems by (auto elim: resolves.cases)
    then show ?thesis using y resolves.res_located [of t' y0 z m'] by force
  next
    case False
    then have "ty_with_meta m y = TyLocated m y" by (cases y) auto
    then show ?thesis using res_located.prems by (auto elim: resolves.cases)
  qed
  then show ?case using res_located.IH by (auto intro: resolves.res_located)
next
  case (res_forall ps b)
  then show ?case by simp
next
  case (res_node ty ks)
  have len: "length ks = length (ty_kids ty)" using res_node(2) by (simp add: list_all2_lengthD)
  obtain ls where ls: "list_all2 (resolves t') ks ls" and y': "y' = ty_with_kids (ty_with_kids ty ks) ls"
    using res_node.prems resolves_plain [OF plain_with_kids [OF res_node(1) len]] ty_with_kids_views(2) [OF len] by auto
  have "list_all2 (resolves t') (ty_kids ty) ls"
    using list_all2_trans [OF _ res_node(2) ls] by blast
  moreover have "y' = ty_with_kids ty ls"
    using y' with_kids_again [OF len _ res_node(1)] ls len by (simp add: list_all2_lengthD)
  ultimately show ?case using res_node(1) by (simp add: resolves.res_node)
qed

lemma step_exists:
  assumes free: "\<And>i. free_root t i \<Longrightarrow> \<exists>z. resolves t' (TyTypeVar i) z"
  shows "normal t y \<Longrightarrow> \<exists>z. resolves t' y z"
proof (induction "size y" arbitrary: y rule: less_induct)
  case less
  show ?case
  proof (cases y rule: plain_cases)
    case (var i)
    then show ?thesis using less.prems free by simp
  next
    case (located m x)
    then obtain z where "resolves t' x z" using less.hyps [of x] less.prems by auto
    then show ?thesis using located by (auto intro: resolves.res_located)
  next
    case plain
    then have "normal t k" if "k \<in> set (ty_kids y)" for k
      using less.prems that by (simp add: normal_plain list_all_iff)
    then have "\<forall>k \<in> set (ty_kids y). \<exists>z. resolves t' k z" using less.hyps [OF size_kids] by blast
    then obtain f where "\<forall>k \<in> set (ty_kids y). resolves t' k (f k)" using bchoice by blast
    then have "list_all2 (resolves t') (ty_kids y) (map f (ty_kids y))"
      by (simp add: list_all2_map2 list_all2_same)
    then show ?thesis using plain res_node by blast
  qed (auto intro: resolves.res_forall)
qed

lemma redirect_follows:
  assumes "leads p n v r" and "parent_of p i = i" and "root_of (p(i \<mapsto> j)) r s"
  shows "root_of (p(i \<mapsto> j)) v s"
  using assms(1,3)
proof (induction rule: leads.induct)
  case (leads_step c n r)
  then have "c \<noteq> i" using assms(2) by auto
  then have "parent_of (p(i \<mapsto> j)) c = parent_of p c" by (simp add: parent_of_upd)
  moreover have "root_of (p(i \<mapsto> j)) (parent_of p c) s" using leads_step.prems by (rule leads_step.IH)
  ultimately have "root_of (p(i \<mapsto> j)) c s"
    using leads_step.hyps(1) root_of_step [of "p(i \<mapsto> j)" c s] by simp
  then show ?case .
qed simp

lemma step_specialises:
  assumes "\<And>v r s. root_of (ut_parent t) v r \<Longrightarrow> root_of (ut_parent t') r s \<Longrightarrow> root_of (ut_parent t') v s"
    and "\<And>v b. root_of (ut_parent t) v v \<Longrightarrow> ut_binding t v = Some b \<Longrightarrow>
      root_of (ut_parent t') v v \<and> ut_binding t' v = Some b"
    and "\<And>i. free_root t i \<Longrightarrow> \<exists>z. resolves t' (TyTypeVar i) z"
  shows "specialises t t'"
  unfolding specialises_def
proof (intro conjI allI impI)
  fix x y y'
  assume "resolves t x y" and "resolves t' y y'"
  then show "resolves t' x y'" by (rule step_resolves [rotated 2]) (use assms in blast)+
next
  fix y
  assume "normal t y"
  then show "\<exists>y'. resolves t' y y'" by (rule step_exists [rotated]) (use assms(3) in blast)
qed

lemma join_specialises:
  assumes i: "free_root t i" and j: "free_root t j" and ij: "i \<noteq> j"
  shows "specialises t (set_parent i j t)"
    and "resolves (set_parent i j t) (TyTypeVar i) (TyTypeVar j)"
    and "resolves (set_parent i j t) (TyTypeVar j) (TyTypeVar j)"
proof -
  let ?t = "set_parent i j t" and ?p = "(ut_parent t)(i \<mapsto> j)"
  have pj: "parent_of ?p j = j" using j ij by (simp add: parent_of_upd free_root_parent)
  then have rj: "root_of ?p j j" by (simp add: root_of_self)
  have "parent_of ?p i = j" by (simp add: parent_of_upd)
  then have ri: "root_of ?p i j" using root_of_step [of ?p i j] rj ij by simp
  have bj: "ut_binding ?t j = None" using j by (simp add: free_root_def)
  show vj: "resolves ?t (TyTypeVar j) (TyTypeVar j)" using rj bj by (intro res_free) simp_all
  show vi: "resolves ?t (TyTypeVar i) (TyTypeVar j)" using ri bj by (intro res_free) simp_all
  have roots: "root_of (ut_parent ?t) v s" if "root_of (ut_parent t) v r" "root_of (ut_parent ?t) r s" for v r s
  proof -
    from that(1) obtain n where l: "leads (ut_parent t) n v r" unfolding root_of_def by blast
    have "parent_of (ut_parent t) i = i" using i by (simp add: free_root_parent)
    from redirect_follows [OF l this] that(2) show ?thesis by simp
  qed
  have bound: "root_of (ut_parent ?t) v v \<and> ut_binding ?t v = Some b"
    if "root_of (ut_parent t) v v" "ut_binding t v = Some b" for v b
  proof -
    have "v \<noteq> i" using i that(2) by (auto simp: free_root_def)
    then have "parent_of ?p v = v" using root_of_end [OF that(1)] by (simp add: parent_of_upd)
    then show ?thesis using that(2) by (simp add: root_of_self)
  qed
  have free: "\<exists>z. resolves ?t (TyTypeVar v) z" if "free_root t v" for v
  proof (cases "v = i")
    case False
    then have "parent_of ?p v = v" using that by (simp add: parent_of_upd free_root_parent)
    then have "resolves ?t (TyTypeVar v) (TyTypeVar v)"
      using that by (intro res_free) (simp_all add: root_of_self free_root_def)
    then show ?thesis by blast
  qed (use vi in blast)
  show "specialises t ?t"
    by (rule step_specialises) (use roots bound free in blast)+
qed

lemma normal_avoids:
  "normal t y \<Longrightarrow> \<not> occurs_in i y \<Longrightarrow> normal (set_binding i ty t) y"
proof (induction "size y" arbitrary: y rule: less_induct)
  case less
  have avoid: "\<not> occurs_in i k" if "k \<in> set (ty_kids y)" for k
    using less.prems(2) that by (auto simp: occurs_in_def type_any_iff intro: subtype_kid)
  show ?case
  proof (cases y rule: plain_cases)
    case (var v)
    then have "v \<noteq> i" using less.prems(2) by (auto simp: occurs_in_def type_any_iff intro: subtype_self)
    then show ?thesis using var less.prems(1) by (simp add: free_root_def)
  next
    case (located m x)
    then show ?thesis using less.hyps [of x] less.prems(1) avoid by auto
  next
    case plain
    then show ?thesis
      using less.prems(1) less.hyps [OF size_kids] avoid by (simp add: normal_plain list_all_iff)
  qed simp
qed

lemma bind_specialises:
  assumes i: "free_root t i" and n: "normal t ty" and occ: "\<not> occurs_in i ty"
  shows "specialises t (set_binding i ty t)"
    and "resolves (set_binding i ty t) (TyTypeVar i) ty"
    and "resolves (set_binding i ty t) ty ty"
proof -
  let ?t = "set_binding i ty t"
  have b: "ut_binding ?t = (ut_binding t)(i \<mapsto> ty)"
    using i by (simp add: set_binding_def record_undo_def free_root_def)
  show ty: "resolves ?t ty ty" using normal_avoids [OF n occ] by (rule normal_resolves)
  have ri: "root_of (ut_parent t) i i" using i by (simp add: free_root_def)
  show vi: "resolves ?t (TyTypeVar i) ty" using ri b ty by (intro res_bound [of ?t i i ty ty]) simp_all
  have roots: "root_of (ut_parent ?t) v s" if "root_of (ut_parent t) v r" "root_of (ut_parent ?t) r s" for v r s
    using that root_of_self [OF root_of_end [OF that(1)]] by simp
  have bound: "root_of (ut_parent ?t) v v \<and> ut_binding ?t v = Some b"
    if "root_of (ut_parent t) v v" "ut_binding t v = Some b" for v b
    using that i \<open>ut_binding ?t = (ut_binding t)(i \<mapsto> ty)\<close> by (auto simp: free_root_def)
  have free: "\<exists>z. resolves ?t (TyTypeVar v) z" if "free_root t v" for v
  proof (cases "v = i")
    case False
    then have "resolves ?t (TyTypeVar v) (TyTypeVar v)"
      using that b by (intro res_free) (simp_all add: free_root_def)
    then show ?thesis by blast
  qed (use vi in blast)
  show "specialises t ?t"
    by (rule step_specialises) (use roots bound free in blast)+
qed

lemma meaning_specialises: "same_meaning t t' \<Longrightarrow> specialises t t'"
proof -
  assume m: "same_meaning t t'"
  then have eq: "resolves t' = resolves t" by (intro ext) (simp add: same_meaning_def)
  have "resolves t x y'" if "resolves t x y" "resolves t y y'" for x y y'
    using resolves_unique [OF normal_resolves [OF resolves_normal [OF that(1)]] that(2)] that(1) by simp
  then show ?thesis unfolding specialises_def eq using normal_resolves by blast
qed

lemma specialises_trans:
  assumes a: "specialises t t'" and b: "specialises t' t''"
  shows "specialises t t''"
  unfolding specialises_def
proof (intro conjI allI impI)
  fix y
  assume "normal t y"
  then obtain y1 where y1: "resolves t' y y1" using specialises_exists [OF a] by blast
  then obtain z where "resolves t'' y1 z" using specialises_exists [OF b] resolves_normal by blast
  then show "\<exists>y'. resolves t'' y y'" using specialises_resolves [OF b y1] by blast
next
  fix x y y'
  assume xy: "resolves t x y" and y': "resolves t'' y y'"
  obtain y1 where y1: "resolves t' y y1" using specialises_exists [OF a] resolves_normal [OF xy] by blast
  obtain z where z: "resolves t'' y1 z" using specialises_exists [OF b] resolves_normal [OF y1] by blast
  have "z = y'" using specialises_resolves [OF b y1 z] y' resolves_unique by blast
  moreover have "resolves t' x y1" using a xy y1 by (rule specialises_resolves)
  ultimately show "resolves t'' x y'" using b z specialises_resolves by blast
qed

interpretation sound: constraint_runs "\<lambda>_. True" specialises
proof unfold_locales
  fix t t' ty r
  assume "resolve_infer ty t = Some (r, t')"
  then show "specialises t t'"
    using resolves_byD [OF resolve_meaning] meaning_specialises unfolding resolve_infer_def by blast
next
  fix t
  show "specialises t t" using meaning_refl by (rule meaning_specialises)
qed (auto intro: specialises_trans join_specialises bind_specialises)

section \<open>Agreement survives later bindings\<close>

lemma means_views:
  assumes "plain u" and "means t u v"
  shows "plain v" and "ty_shape v = ty_shape u" and "list_all2 (means t) (ty_kids u) (ty_kids v)"
proof -
  obtain vs where vs: "list_all2 (means t) (ty_kids u) vs" "v = ty_with_kids u vs"
    using assms means_plain by blast
  then have len: "length vs = length (ty_kids u)" by (simp add: list_all2_lengthD)
  show "plain v" "ty_shape v = ty_shape u" "list_all2 (means t) (ty_kids u) (ty_kids v)"
    using vs plain_with_kids [OF assms(1) len] ty_with_kids_views [OF len] by simp_all
qed

lemma means_name: "means t (TyName n as) v \<Longrightarrow> \<exists>bs. v = TyName n bs \<and> length bs = length as"
  by (auto simp: means_plain dest: list_all2_lengthD)

lemma means_newtype: "means t (TyNewtype n i) v \<Longrightarrow> \<exists>j. v = TyNewtype n j \<and> means t i j"
  by (auto simp: means_plain list_all2_Cons1)

lemma is_newtype_shape: "ty_shape u = ty_shape v \<Longrightarrow> is_newtype u = is_newtype v"
  by (cases u; cases v) (simp_all add: is_newtype_def)

lemma means_forall: "means t (TyForAll ps b) v \<Longrightarrow> \<exists>b'. v = TyForAll ps b'"
proof -
  assume "means t (TyForAll ps b) v"
  then have v: "v = ty_strip (TyForAll ps b)" by (auto simp: means_def plain_def elim: resolves.cases)
  show ?thesis unfolding v by (subst ty_strip.simps) simp
qed

lemma solid_means: "solid u \<Longrightarrow> means t u v \<Longrightarrow> solid v"
  unfolding solid_def using means_views(1,2) is_newtype_shape means_forall by metis

lemma plain_leaves [simp]: "plain TyInfer" "plain TyTyErr" "plain TyNothing"
  by (simp_all add: plain_def)

lemma means_leaf: "means t TyInfer v \<longleftrightarrow> v = TyInfer" "means t TyTyErr v \<longleftrightarrow> v = TyTyErr"
  by (auto simp: means_plain)

lemma means_is_name: "means t u v \<Longrightarrow> is_name s u \<Longrightarrow> is_name s v"
  by (cases u) (auto simp: is_name_def dest: means_name)

lemma escapes_means: "escapes u v \<Longrightarrow> means t u u' \<Longrightarrow> means t v v' \<Longrightarrow> escapes u' v'"
  unfolding escapes_def using means_is_name means_leaf by blast

lemma bare_means:
  assumes "bare_container u v" and "means t u u'" and "means t v v'"
  shows "bare_container u' v'"
proof -
  obtain n as bs where u: "u = TyName n as" "v = TyName n bs" "as = [] \<or> bs = []"
      "n = ''List'' \<or> n = ''Set'' \<or> n = ''Map''"
    using assms(1) by (auto simp: bare_container_def)
  obtain as' bs' where "u' = TyName n as'" "length as' = length as" "v' = TyName n bs'" "length bs' = length bs"
    using assms(2,3) u means_name by blast
  then show ?thesis using u unfolding bare_container_def by auto
qed

lemma list_all2_join:
  assumes "list_all2 P as bs" and "list_all2 Q as as'" and "list_all2 Q bs bs'"
    and "\<And>a b a' b'. P a b \<Longrightarrow> Q a a' \<Longrightarrow> Q b b' \<Longrightarrow> P' a' b'"
  shows "list_all2 P' as' bs'"
  using assms by (auto simp: list_all2_conv_all_nth)

lemma compat_means: "compatible u v \<Longrightarrow> means t u u' \<Longrightarrow> means t v v' \<Longrightarrow> compatible u' v'"
proof (induction arbitrary: u' v' rule: compatible.induct)
  case (compat_same u)
  have "v' = u'" using means_unique [OF compat_same] .
  then show ?case by (simp add: compatible.compat_same)
next
  case (compat_escape u v)
  then show ?case using escapes_means by (auto intro: compatible.compat_escape)
next
  case (compat_bare u v)
  then show ?case using bare_means by (auto intro: compatible.compat_bare)
next
  case (compat_node u v)
  note u = means_views [OF compat_node(1) compat_node.prems(1)]
  note v = means_views [OF compat_node(2) compat_node.prems(2)]
  have "list_all2 compatible (ty_kids u') (ty_kids v')"
    by (rule list_all2_join [OF compat_node(4) u(3) v(3)]) blast
  then show ?case using compat_node(3) u v by (intro compatible.compat_node) simp_all
next
  case (compat_newtype_left i v n)
  then show ?case using means_newtype solid_means by (blast intro: compatible.compat_newtype_left)
next
  case (compat_newtype_right i u n)
  then show ?case using means_newtype solid_means by (blast intro: compatible.compat_newtype_right)
qed

definition agree_in :: "UnificationTable \<Rightarrow> Type \<Rightarrow> Type \<Rightarrow> bool" where
  "agree_in t a b \<longleftrightarrow> (\<exists>x y. means t a x \<and> means t b y \<and> compatible x y)"

lemma means_later:
  assumes s: "specialises t t'" and "means t a x"
  shows "\<exists>x'. means t' a x' \<and> means t' x x'"
proof -
  obtain y where y: "resolves t a y" "x = ty_strip y" using assms(2) by (auto simp: means_def)
  obtain z where z: "resolves t' y z" using specialises_exists [OF s resolves_normal [OF y(1)]] by blast
  then have "means t' a (ty_strip z)" using specialises_resolves [OF s y(1)] by (auto simp: means_def)
  then show ?thesis using means_strip [OF z] y(2) by blast
qed

lemma agree_later: "specialises t t' \<Longrightarrow> agree_in t a b \<Longrightarrow> agree_in t' a b"
  unfolding agree_in_def using means_later compat_means by meson

lemma agree_resolved:
  assumes s: "specialises t t'" and a: "resolves t a x" and b: "resolves t b y" and "agree_in t' x y"
  shows "agree_in t' a b"
  using assms(4) specialises_resolves [OF s a] specialises_resolves [OF s b]
  unfolding agree_in_def means_def by blast

lemma agree_unlocated: "agree_in t (ty_unlocated a) (ty_unlocated b) \<longleftrightarrow> agree_in t a b"
  by (simp add: agree_in_def means_unlocated)

text \<open>The goals of an arm that hold make its two types agree.\<close>

lemma arm_agrees:
  assumes arm: "arm_goals ua ub gs" and goals: "\<And>p q. (p, q) \<in> set gs \<Longrightarrow> agree_in t p q"
    and x: "means t ua x" and y: "means t ub y"
    and no_var: "\<And>i. ua \<noteq> TyTypeVar i" "\<And>i. ub \<noteq> TyTypeVar i"
    and no_loc: "\<And>m a. ua \<noteq> TyLocated m a" "\<And>m a. ub \<noteq> TyLocated m a"
  shows "compatible x y"
proof -
  have solid: "\<not> is_newtype ua \<Longrightarrow> solid x" "\<not> is_newtype ub \<Longrightarrow> solid y"
    using plain_cases [of ua] plain_cases [of ub] no_var no_loc solid_means [OF _ x] solid_means [OF _ y]
    unfolding solid_def by metis+
  have sub: "compatible p' q'" if "(p, q) \<in> set gs" "means t p p'" "means t q q'" for p q p' q'
    using goals [OF that(1)] that(2,3) means_unique unfolding agree_in_def by blast
  from arm consider "escapes ua ub \<or> bare_container ua ub"
    | "plain ua" "plain ub" "heads_match (ty_shape ua) (ty_shape ub)"
      "length (ty_kids ua) = length (ty_kids ub)" "gs = zip (ty_kids ua) (ty_kids ub)"
    | n i where "ua = TyNewtype n i" "gs = [(i, ub)]" "\<not> is_newtype ub"
    | n i where "ub = TyNewtype n i" "gs = [(i, ua)]" "\<not> is_newtype ua"
    unfolding arm_goals_def by blast
  then show ?thesis
  proof cases
    case 1
    then show ?thesis using escapes_means bare_means x y compat_escape compat_bare by blast
  next
    case 2
    note u = means_views [OF 2(1) x] and v = means_views [OF 2(2) y]
    have "list_all2 (\<lambda>p q. (p, q) \<in> set gs) (ty_kids ua) (ty_kids ub)"
      using 2(4,5) by (auto simp: list_all2_conv_all_nth set_zip)
    then have "list_all2 compatible (ty_kids x) (ty_kids y)"
      by (rule list_all2_join [OF _ u(3) v(3)]) (rule sub)
    then show ?thesis using 2(3) u v by (intro compat_node) simp_all
  next
    case 3
    then show ?thesis using means_newtype x y sub solid(2) by (fastforce intro: compat_newtype_left)
  next
    case 4
    then show ?thesis using means_newtype x y sub solid(1) by (fastforce intro: compat_newtype_right)
  qed
qed

section \<open>Soundness\<close>

definition sound_op :: "Type \<Rightarrow> Type \<Rightarrow> (UnifyError, unit) table_op \<Rightarrow> bool" where
  "sound_op a b m \<longleftrightarrow> (\<forall>t u t'. m t = Some (Ok u, t') \<longrightarrow> agree_in t' a b)"

lemma each_sound:
  assumes "\<And>p. sound_op (fst p) (snd p) (f p)" and "\<And>p. keeps (\<lambda>_. True) specialises (f p)"
  shows "op_each f ps t = Some (Ok u, t') \<Longrightarrow> (\<forall>p \<in> set ps. agree_in t' (fst p) (snd p)) \<and> specialises t t'"
proof (induction ps arbitrary: t)
  case Nil
  then show ?case using sound.R_refl by simp
next
  case (Cons p ps)
  then obtain v t1 where p: "f p t = Some (Ok v, t1)" and ps: "op_each f ps t1 = Some (Ok u, t')"
    by (auto simp: op_bind_ok)
  have "agree_in t1 (fst p) (snd p)" using assms(1) p by (auto simp: sound_op_def)
  moreover have "specialises t t1" using keepsD [OF assms(2) TrueI p] .
  ultimately show ?case using Cons.IH [OF ps] agree_later specialises_trans by auto
qed

lemma agree_vars:
  assumes "resolves t (TyTypeVar i) z" and "resolves t b z'" and "ty_strip z = ty_strip z'"
  shows "agree_in t (TyTypeVar i) b" and "agree_in t b (TyTypeVar i)"
  using assms compat_same unfolding agree_in_def means_def by metis+

lemma resolved_sound:
  assumes sub: "\<And>p. sound_op (fst p) (snd p) (f p)" "\<And>p. keeps (\<lambda>_. True) specialises (f p)"
    and a: "normal t a" and b: "normal t b" and run: "unify_resolved f a b t = Some (Ok u, t')"
  shows "agree_in t' a b"
proof -
  have ua: "normal t (ty_unlocated a)" and ub: "normal t (ty_unlocated b)"
    using a b normal_unlocated by auto
  have bound: "resolves t' (TyTypeVar i) ty \<and> resolves t' ty ty"
    if "bind_var i ty t = Some (Ok u, t')" "free_root t i" "normal t ty" for i ty
    using that bind_specialises(2,3)
    by (auto simp: bind_var_def op_bind_def find_free_root split: if_splits)
  show ?thesis
  proof (cases "\<exists>i. ty_unlocated a = TyTypeVar i")
    case True
    then obtain i where i: "ty_unlocated a = TyTypeVar i" by blast
    then have fi: "free_root t i" using ua by simp
    show ?thesis
    proof (cases "\<exists>j. ty_unlocated b = TyTypeVar j")
      case True
      then obtain j where j: "ty_unlocated b = TyTypeVar j" by blast
      then have fj: "free_root t j" using ub by simp
      have "t' = (if i = j then t else set_parent i j t)"
        using run unfolding unify_resolved_views(1) [OF i j]
        by (auto simp: join_vars_def op_bind_def find_free_root fi fj split: if_splits)
      then have "\<exists>z. resolves t' (TyTypeVar i) z \<and> resolves t' (TyTypeVar j) z"
        using join_specialises(2,3) [OF fi fj] normal_resolves [of t "TyTypeVar j"] fj by (cases "i = j") auto
      then have "agree_in t' (TyTypeVar i) (TyTypeVar j)" using agree_vars by blast
      then show ?thesis using i j agree_unlocated by metis
    next
      case False
      have "bind_var i b t = Some (Ok u, t')" using run unfolding unify_resolved_views(2) [OF i False] .
      then have "agree_in t' (TyTypeVar i) b" using bound fi b agree_vars(1) by blast
      then show ?thesis using i by (simp add: agree_in_def means_unlocated [of t' a, symmetric])
    qed
  next
    case na: False
    show ?thesis
    proof (cases "\<exists>j. ty_unlocated b = TyTypeVar j")
      case True
      then obtain j where j: "ty_unlocated b = TyTypeVar j" by blast
      then have fj: "free_root t j" using ub by simp
      have "bind_var j a t = Some (Ok u, t')" using run unfolding unify_resolved_views(3) [OF na j] .
      then have "agree_in t' a (TyTypeVar j)" using bound fj a agree_vars(2) by blast
      then show ?thesis using j by (simp add: agree_in_def means_unlocated [of t' b, symmetric])
    next
      case False
      then obtain gs where gs: "type_arms (ut_linear_names t) a b = Ok gs"
          and each: "op_each f gs t = Some (Ok u, t')"
        using run unfolding unify_resolved_views(4) [OF na False] by (auto split: sum.splits)
      have goals: "\<forall>p \<in> set gs. agree_in t' (fst p) (snd p)" and s: "specialises t t'"
        using each_sound [of f, OF sub each] by auto
      obtain x y where x: "means t' (ty_unlocated a) x" and y: "means t' (ty_unlocated b) y"
        using specialises_exists [OF s] ua ub by (meson means_def)
      have "compatible x y" 
        using arm_agrees [OF type_arms_goals [OF gs] _ x y] goals na False unlocated_not_located by force
      then show ?thesis using x y agree_unlocated unfolding agree_in_def by blast
    qed
  qed
qed

lemma inner_sound: "sound_op a b (unify_inference_inner n a b)"
proof (induction n arbitrary: a b)
  case 0
  then show ?case by (simp add: sound_op_def)
next
  case (Suc n)
  let ?f = "\<lambda>(x, y). unify_inference_inner n x y"
  show ?case
    unfolding sound_op_def
  proof (intro allI impI)
    fix t u t'
    assume "unify_inference_inner (Suc n) a b t = Some (Ok u, t')"
    then obtain ar t1 br t2 where ar: "resolve_infer a t = Some (Ok ar, t1)"
        and br: "resolve_infer b t1 = Some (Ok br, t2)" and run: "unify_resolved ?f ar br t2 = Some (Ok u, t')"
      by (auto simp: op_bind_ok lift_resolve_ok)
    have m: "same_meaning t t1" "resolves t a ar" "same_meaning t1 t2" "resolves t1 b br"
      using resolves_byD [OF resolve_meaning] ar br unfolding resolve_infer_def by blast+
    then have r: "resolves t2 a ar" "resolves t2 b br" by (auto simp: same_meaning_def)
    have n: "normal t2 ar" "normal t2 br" using r resolves_normal by auto
    have sub: "sound_op (fst p) (snd p) (?f p)" "keeps (\<lambda>_. True) specialises (?f p)" for p
      using Suc sound.keeps_unify_inner by (auto simp: case_prod_beta)
    have "specialises t2 t'"
      using sound.keeps_unify_resolved [OF TrueI sub(2) n run] .
    then show "agree_in t' a b" using agree_resolved r resolved_sound [OF sub n run] by blast
  qed
qed

text \<open>Only links and bindings give a type its meaning.\<close>

lemma agree_same_table:
  assumes "ut_parent t = ut_parent t'" and "ut_binding t = ut_binding t'"
  shows "agree_in t a b \<Longrightarrow> agree_in t' a b"
  using meaning_by_roots [of t t'] assms unfolding agree_in_def means_def by metis

lemma transaction_sound:
  assumes "sound_op a b m" and "transaction m t = Some (Ok u, t')"
  shows "agree_in t' a b"
proof -
  obtain t1 where "m (t\<lparr>ut_depth := ut_depth t + 1\<rparr>) = Some (Ok u, t1)" "t' = end_transaction (length (ut_trail t)) True t1"
    using assms(2) by (auto simp: transaction_def split: option.splits)
  then have "agree_in t1 a b" "ut_parent t1 = ut_parent t'" "ut_binding t1 = ut_binding t'"
    using assms(1) by (auto simp: sound_op_def end_transaction_def Let_def)
  then show ?thesis using agree_same_table by blast
qed

lemma constrain_body_sound:
  "sound_op a b (op_bind (lift_resolve (resolve_infer a)) (\<lambda>ar. op_bind (lift_resolve (resolve_infer b)) (\<lambda>br.
     if is_escape_type ar \<or> is_escape_type br
     then op_fail (UeMismatch (''checked unification rejects escape types '' @ fmt_type ar @ '' and '' @ fmt_type br))
     else unify_inference_inner n ar br)))"
  unfolding sound_op_def
proof (intro allI impI)
  fix t u t'
  assume "op_bind (lift_resolve (resolve_infer a)) (\<lambda>ar. op_bind (lift_resolve (resolve_infer b)) (\<lambda>br.
     if is_escape_type ar \<or> is_escape_type br
     then op_fail (UeMismatch (''checked unification rejects escape types '' @ fmt_type ar @ '' and '' @ fmt_type br))
     else unify_inference_inner n ar br)) t = Some (Ok u, t')"
  then obtain ar t1 br t2 where ar: "resolve_infer a t = Some (Ok ar, t1)"
      and br: "resolve_infer b t1 = Some (Ok br, t2)" and run: "unify_inference_inner n ar br t2 = Some (Ok u, t')"
    by (auto simp: op_bind_ok lift_resolve_ok split: if_splits)
  have m: "same_meaning t t1" "resolves t a ar" "same_meaning t1 t2" "resolves t1 b br"
    using resolves_byD [OF resolve_meaning] ar br unfolding resolve_infer_def by blast+
  then have r: "resolves t2 a ar" "resolves t2 b br" by (auto simp: same_meaning_def)
  have "specialises t2 t'" using keepsD [OF sound.keeps_unify_inner TrueI run] .
  moreover have "agree_in t' ar br" using inner_sound run by (auto simp: sound_op_def)
  ultimately show "agree_in t' a b" using agree_resolved r by blast
qed

text \<open>
  C32: an accepted constraint is sound. In the table it leaves both types have a meaning (the occurs
  check keeps every binding finite), and the two meanings agree (\<open>compatible\<close>): they are equal node by
  node up to annotations and lifetimes, except that \<open>Option\<close> and \<open>Result\<close> agree with the names spelled
  so, a capability with the atom of the same name, two containers \<open>List\<close>, \<open>Set\<close> or \<open>Map\<close> of one name when
  one of them has no arguments, a placeholder or poison type with everything, \<open>Any\<close> with everything when
  it stands on the left, and a newtype with a type that is no newtype when its inner type does. Two
  newtypes agree only under one name (\<open>newtypes_distinct\<close>). Comparing with a newtype on the right puts
  the inner type on the left, so a type also agrees with a newtype of \<open>Any\<close> there
  (\<open>newtype_of_any_accepted\<close>).
\<close>

theorem accepted_constraint_sound:
  assumes "constrain n a b t = Some (Ok u, t')"
  shows "\<exists>x y. means t' a x \<and> means t' b y \<and> compatible x y"
  using transaction_sound [OF constrain_body_sound] assms unfolding constrain_def agree_in_def by blast

lemma newtypes_distinct:
  assumes "n \<noteq> m"
  shows "\<not> compatible (TyNewtype n i) (TyNewtype m j)"
proof
  assume "compatible (TyNewtype n i) (TyNewtype m j)"
  then show False using assms
    by (cases rule: compatible.cases)
      (simp_all add: escapes_def bare_container_def heads_match_def solid_def is_newtype_def is_name_def doubleton_eq_iff)
qed

text \<open>
  A concrete type is refused against \<open>Any\<close> on the right, but not against a newtype of \<open>Any\<close>: the arm
  for a newtype on the right turns the pair around.
\<close>

lemma newtype_of_any_accepted:
  "map_option (\<lambda>(r, t). is_ok r) (constrain 4 (TyName ''i32'' []) (TyName ''Any'' []) ut_new) = Some False"
  "map_option (\<lambda>(r, t). is_ok r)
     (constrain 4 (TyName ''i32'' []) (TyNewtype ''N'' (TyName ''Any'' [])) ut_new) = Some True"
  by code_simp+

definition demo_pair :: Type where
  "demo_pair = TyTuple [TyTypeVar 0, TyOption (TyTypeVar 1)]"

definition demo_known :: Type where
  "demo_known = TyTuple [TyName ''i32'' [], TyName ''Option'' [TyName ''bool'' []]]"

lemma demo_pair_accepted:
  "map_option (\<lambda>(r, t). is_ok r) (constrain 4 demo_pair demo_known ut_new) = Some True"
  by code_simp

theorem accepted_constraint_sound_witness:
  "\<exists>u t' x y. constrain 4 demo_pair demo_known ut_new = Some (Ok u, t') \<and>
     means t' demo_pair x \<and> means t' demo_known y \<and> compatible x y"
proof -
  obtain u t' where run: "constrain 4 demo_pair demo_known ut_new = Some (Ok u, t')"
    using demo_pair_accepted by (auto simp: is_ok_iff)
  then show ?thesis using accepted_constraint_sound [OF run] by blast
qed

end
