(* ===== verification/Mimi_Regex.thy ===== *)
theory Mimi_Regex
  imports Mimi_Bytes
begin

text \<open>
  The runtime's regular expressions (\<open>src/runtime/regex.rs\<close>): the preparation of a pattern, the
  backtracking matcher with its limits on depth and work, the matcher with captures, and the
  searches over a text. Texts and patterns are byte lists (the UTF-8 bytes of the strings); a
  position in a slice is the rest of the slice from there on, so \<open>&pattern[after..]\<close> is the list
  itself. The work budget is threaded through; the one-time warning it prints is not modelled.
\<close>

section \<open>Bytes\<close>

definition ch :: "char \<Rightarrow> u8" where
  "ch c = of_char c"

definition starts :: "char \<Rightarrow> u8 list \<Rightarrow> bool" where
  "starts c p = (case p of [] \<Rightarrow> False | x # _ \<Rightarrow> x = ch c)"

definition is_digit :: "u8 \<Rightarrow> bool" where
  "is_digit c \<longleftrightarrow> 48 \<le> c \<and> c \<le> 57"

definition is_alnum :: "u8 \<Rightarrow> bool" where
  "is_alnum c \<longleftrightarrow> is_digit c \<or> 65 \<le> c \<and> c \<le> 90 \<or> 97 \<le> c \<and> c \<le> 122"

definition is_space :: "u8 \<Rightarrow> bool" where
  "is_space c \<longleftrightarrow> c = 32 \<or> c = 9 \<or> c = 10 \<or> c = 12 \<or> c = 13"

text \<open>\<open>n as i32\<close> wraps around.\<close>

definition as_i32 :: "nat \<Rightarrow> int" where
  "as_i32 n = sint (word_of_nat n :: 32 word)"

section \<open>Pattern elements\<close>

text \<open>The rest after a character class whose \<open>[\<close> and \<open>^\<close> were read.\<close>

fun class_end :: "u8 list \<Rightarrow> u8 list" where
  "class_end [] = []"
| "class_end (x # r) =
     (if x = ch CHR '']'' then r
      else if x = ch (CHR 0x5C) \<and> r \<noteq> [] then class_end (drop 1 r)
      else class_end r)"

text \<open>The rest after the element at the head, and whether the element is a class.\<close>

definition parse_element :: "u8 list \<Rightarrow> u8 list \<times> bool" where
  "parse_element p =
     (case p of
        [] \<Rightarrow> ([], False)
      | x # r \<Rightarrow>
          if x = ch (CHR 0x5C) then (drop 1 r, False)
          else if x = ch CHR ''['' then (class_end (if starts CHR ''^'' r then drop 1 r else r), True)
          else (r, False))"

text \<open>The members of a class from the current position on: whether \<open>c\<close> is one, and the rest.\<close>

function class_scan :: "u8 \<Rightarrow> bool \<Rightarrow> u8 list \<Rightarrow> bool \<times> u8 list" where
  "class_scan c matched p =
     (case p of
        [] \<Rightarrow> (matched, [])
      | x # r \<Rightarrow>
          if x = ch CHR '']'' then (matched, r)
          else (case r of
              d # y # r' \<Rightarrow>
                if d = ch CHR ''-'' \<and> y \<noteq> ch CHR '']''
                then class_scan c (matched \<or> x \<le> c \<and> c \<le> y) r'
                else class_scan c (matched \<or> c = x) r
            | _ \<Rightarrow> class_scan c (matched \<or> c = x) r))"
  by pat_completeness auto
termination
  by (relation "measure (\<lambda>(c, m, p). length p)") auto

declare class_scan.simps [simp del]

definition elem_match_in_class :: "u8 list \<Rightarrow> u8 \<Rightarrow> bool \<times> u8 list" where
  "elem_match_in_class p c =
     (let neg = starts CHR ''^'' p;
          (matched, rest) = class_scan c False (if neg then drop 1 p else p)
      in (if neg then \<not> matched else matched, rest))"

definition escape_match :: "u8 \<Rightarrow> u8 \<Rightarrow> bool" where
  "escape_match esc c =
     (if esc = ch CHR ''d'' then is_digit c
      else if esc = ch CHR ''D'' then \<not> is_digit c
      else if esc = ch CHR ''w'' then is_alnum c \<or> c = ch CHR ''_''
      else if esc = ch CHR ''W'' then \<not> (is_alnum c \<or> c = ch CHR ''_'')
      else if esc = ch CHR ''s'' then is_space c
      else if esc = ch CHR ''S'' then \<not> is_space c
      else c = esc)"

text \<open>Whether the element at the head of the pattern matches \<open>c\<close>, and the rest after it.\<close>

definition elem_match :: "u8 list \<Rightarrow> u8 \<Rightarrow> bool \<Rightarrow> bool \<times> u8 list" where
  "elem_match p c is_class =
     (case p of
        [] \<Rightarrow> (False, [])
      | x # r \<Rightarrow>
          if is_class then elem_match_in_class r c
          else if x = ch (CHR 0x5C) then
            (case r of [] \<Rightarrow> (False, p) | esc # r' \<Rightarrow> (escape_match esc c, r'))
          else if x = ch CHR ''.'' then (c \<noteq> 10 \<and> c \<noteq> 0, r)
          else (c = x, r))"

section \<open>The matcher\<close>

definition REGEX_MAX_DEPTH :: nat where "REGEX_MAX_DEPTH = 100"

definition REGEX_MAX_WORK :: nat where "REGEX_MAX_WORK = 1000000"

text \<open>How many characters at the head of the text the element matches in a row.\<close>

definition run_length :: "u8 list \<Rightarrow> bool \<Rightarrow> u8 list \<Rightarrow> nat" where
  "run_length p cls txt = length (takeWhile (\<lambda>c. fst (elem_match p c cls)) txt)"

type_synonym matcher = "u8 list \<Rightarrow> u8 list \<Rightarrow> nat \<Rightarrow> int \<times> nat"

text \<open>The counts of a quantified element from the largest down; the rest of the pattern decides.\<close>

fun try_counts :: "matcher \<Rightarrow> u8 list \<Rightarrow> u8 list \<Rightarrow> nat \<Rightarrow> nat \<Rightarrow> nat \<Rightarrow> (nat \<times> int) option \<times> nat" where
  "try_counts rec sub txt min_count count budget =
     (if count < min_count then (None, budget)
      else case rec sub (drop count txt) budget of
        (r, b) \<Rightarrow>
          if 0 \<le> r then (Some (count, r), b)
          else if count = 0 then (None, b)
          else try_counts rec sub txt min_count (count - 1) b)"

declare try_counts.simps [simp del]

lemma class_scan_shorter: "length (snd (class_scan c m p)) \<le> length p"
  by (induction c m p rule: class_scan.induct) (subst class_scan.simps; force split: list.splits if_splits)

lemma elem_match_shorter: "p \<noteq> [] \<Longrightarrow> fst (elem_match p c cls) \<Longrightarrow> length (snd (elem_match p c cls)) < length p"
  using class_scan_shorter [of c False "drop 1 (tl p)"] class_scan_shorter [of c False "tl p"]
  by (cases p) (auto simp: elem_match_def elem_match_in_class_def Let_def case_prod_beta split: list.splits if_splits)

text \<open>The loop over the pattern; a quantified element hands the rest of it to \<open>rec\<close>.\<close>

function here_loop :: "matcher \<Rightarrow> u8 list \<Rightarrow> u8 list \<Rightarrow> nat \<Rightarrow> nat \<Rightarrow> int \<times> nat" where
  "here_loop rec p txt ti budget =
     (if p = [] then (as_i32 ti, budget)
      else if p = [ch CHR ''$''] then (if txt = [] then as_i32 ti else -1, budget)
      else case parse_element p of
        (rest, cls) \<Rightarrow>
          if starts CHR ''*'' rest \<or> starts CHR ''+'' rest then
            (case try_counts rec (drop 1 rest) txt (if starts CHR ''+'' rest then 1 else 0)
                    (run_length p cls txt) budget of
               (None, b) \<Rightarrow> (-1, b)
             | (Some (count, r), b) \<Rightarrow> (as_i32 (ti + count + nat r), b))
          else
            (case txt of
               [] \<Rightarrow> (-1, budget)
             | c # txt' \<Rightarrow>
                 if fst (elem_match p c cls)
                 then here_loop rec (snd (elem_match p c cls)) txt' (ti + 1) budget
                 else (-1, budget)))"
  by pat_completeness auto
termination
  by (relation "measure (\<lambda>(r, p, txt, ti, b). length p)") (auto intro: elem_match_shorter)

declare here_loop.simps [simp del]

text \<open>The first argument is the number of levels left, \<open>REGEX_MAX_DEPTH - depth\<close>.\<close>

primrec match_here :: "nat \<Rightarrow> matcher" where
  "match_here 0 p txt budget = (-1, budget)"
| "match_here (Suc levels) p txt budget =
     (if budget = 0 then (-1, 0)
      else here_loop (match_here levels) (if starts CHR ''^'' p then drop 1 p else p) txt 0 (budget - 1))"

section \<open>Preparing a pattern\<close>

text \<open>
  \<open>out.push(b as char)\<close>: a byte from \<open>0x80\<close> on becomes the character of that number, two bytes in
  UTF-8.
\<close>

definition push_byte :: "u8 \<Rightarrow> u8 list" where
  "push_byte b = (if b < 0x80 then [b] else [0xC0 OR drop_bit 6 b, 0x80 OR (b AND 0x3F)])"

text \<open>A slice of a string that does not start on a character panics.\<close>

datatype Panic = Panic

definition char_boundary :: "u8 list \<Rightarrow> nat \<Rightarrow> bool" where
  "char_boundary s i = (i = 0 \<or> i = length s \<or> i < length s \<and> \<not> utf8_cont (s ! i))"

definition slice :: "u8 list \<Rightarrow> nat \<Rightarrow> nat \<Rightarrow> u8 list" where
  "slice s a b = take (b - a) (drop a s)"

definition str_slice :: "u8 list \<Rightarrow> nat \<Rightarrow> nat \<Rightarrow> Panic + u8 list" where
  "str_slice s a b =
     (if a \<le> b \<and> b \<le> length s \<and> char_boundary s a \<and> char_boundary s b then Ok (slice s a b) else Err Panic)"

text \<open>A slice of bytes panics when it is out of range.\<close>

definition byte_slice :: "u8 list \<Rightarrow> nat \<Rightarrow> nat \<Rightarrow> Panic + u8 list" where
  "byte_slice s a b = (if a \<le> b \<and> b \<le> length s then Ok (slice s a b) else Err Panic)"

definition byte_at :: "u8 list \<Rightarrow> nat \<Rightarrow> char \<Rightarrow> bool" where
  "byte_at b i c = (i < length b \<and> b ! i = ch c)"

definition unescaped :: "u8 list \<Rightarrow> nat \<Rightarrow> char \<Rightarrow> bool" where
  "unescaped b i c = (byte_at b i c \<and> (i = 0 \<or> \<not> byte_at b (i - 1) (CHR 0x5C)))"

text \<open>The end of the last atom: trailing \<open>*\<close> and \<open>+\<close> are skipped.\<close>

fun atom_end :: "u8 list \<Rightarrow> nat \<Rightarrow> nat" where
  "atom_end b 0 = 0"
| "atom_end b (Suc e) = (if byte_at b e CHR ''*'' \<or> byte_at b e CHR ''+'' then atom_end b e else Suc e)"

text \<open>Backwards from \<open>i\<close> to the bracket that opens a class.\<close>

fun class_start :: "u8 list \<Rightarrow> nat \<Rightarrow> nat option" where
  "class_start b 0 = None"
| "class_start b (Suc i) = (if unescaped b i CHR ''['' then Some i else class_start b i)"

text \<open>Backwards from \<open>i\<close> to the parenthesis that matches, at the given depth.\<close>

fun group_start :: "u8 list \<Rightarrow> int \<Rightarrow> nat \<Rightarrow> nat option" where
  "group_start b depth 0 = None"
| "group_start b depth (Suc i) =
     (if unescaped b i CHR '')'' then group_start b (depth + 1) i
      else if unescaped b i CHR ''('' then (if depth - 1 = 0 then Some i else group_start b (depth - 1) i)
      else group_start b depth i)"

definition atom_from :: "u8 list \<Rightarrow> nat \<Rightarrow> nat \<Rightarrow> Panic + (nat \<times> u8 list) option" where
  "atom_from out a e = (case str_slice out a e of Err p \<Rightarrow> Err p | Ok s \<Rightarrow> Ok (Some (a, s)))"

definition last_atom :: "u8 list \<Rightarrow> Panic + (nat \<times> u8 list) option" where
  "last_atom out =
     (let e = atom_end out (length out) in
      if e = 0 then Ok None
      else if byte_at out (e - 1) CHR '']'' then
        (case class_start out (e - 1) of None \<Rightarrow> Ok None | Some i \<Rightarrow> atom_from out i e)
      else if 2 \<le> e \<and> byte_at out (e - 2) (CHR 0x5C) then atom_from out (e - 2) e
      else if byte_at out (e - 1) CHR '')'' then
        (case group_start out 0 e of None \<Rightarrow> Ok None | Some i \<Rightarrow> atom_from out i e)
      else atom_from out (e - 1) e)"

definition digit_span :: "u8 list \<Rightarrow> u8 list \<times> u8 list" where
  "digit_span p = (takeWhile is_digit p, dropWhile is_digit p)"

text \<open>\<open>parse::<usize>()\<close> of a string of digits; the empty string and an overflow are errors.\<close>

definition parse_usize :: "u8 list \<Rightarrow> nat option" where
  "parse_usize ds =
     (let n = foldl (\<lambda>n d. 10 * n + (unat d - 48)) 0 ds
      in if ds \<noteq> [] \<and> n < 2 ^ 64 then Some n else None)"

text \<open>The counts \<open>{n}\<close> or \<open>{n,m}\<close> after the brace, smallest and largest, with the rest after it.\<close>

definition parse_braces :: "u8 list \<Rightarrow> (nat \<times> nat \<times> u8 list) option" where
  "parse_braces p =
     (let (n_str, p1) = digit_span p;
          (m_str, p2) = (if starts CHR '','' p1 then digit_span (drop 1 p1) else ([], p1))
      in if starts CHR ''}'' p2 \<and> n_str \<noteq> [] then
           (let n = min (case parse_usize n_str of Some k \<Rightarrow> k | None \<Rightarrow> 0) 64;
                m = (if m_str = [] then n
                     else min (case parse_usize m_str of Some k \<Rightarrow> k | None \<Rightarrow> n) 64)
            in Some (min n m, max n m, drop 1 p2))
         else None)"

lemma parse_braces_shorter:
  assumes "parse_braces p = Some (a, b, r)"
  shows "length r \<le> length p"
proof -
  define p1 where "p1 = dropWhile is_digit p"
  define p2 where "p2 = (if starts CHR '','' p1 then dropWhile is_digit (drop 1 p1) else p1)"
  have "r = drop 1 p2"
    using assms by (auto simp: parse_braces_def digit_span_def Let_def p1_def p2_def split: if_splits)
  moreover have "length p2 \<le> length p1" using length_dropWhile_le [of is_digit "drop 1 p1"] by (auto simp: p2_def)
  moreover have "length p1 \<le> length p" unfolding p1_def by (rule length_dropWhile_le)
  ultimately show ?thesis by simp
qed

text \<open>
  Braces repeat the last atom; the copies beyond the smallest count are not optional. A brace
  that is no quantifier is copied.
\<close>

function expand_braces :: "u8 list \<Rightarrow> u8 list \<Rightarrow> Panic + u8 list" where
  "expand_braces p out =
     (case p of
        [] \<Rightarrow> Ok out
      | x # r \<Rightarrow>
          if x = ch (CHR 0x5C) \<and> r \<noteq> []
          then expand_braces (drop 1 r) (out @ push_byte x @ push_byte (hd r))
          else if x = ch CHR ''{'' then
            (case last_atom out of
               Err e \<Rightarrow> Err e
             | Ok None \<Rightarrow> expand_braces r (out @ push_byte x)
             | Ok (Some (atom_start, atom)) \<Rightarrow>
                 (case parse_braces r of
                    None \<Rightarrow> expand_braces r (out @ push_byte x)
                  | Some (min_c, max_c, rest) \<Rightarrow>
                      expand_braces rest
                        (take atom_start out @ concat (replicate min_c atom) @
                         concat (replicate (max_c - min_c) atom))))
          else expand_braces r (out @ push_byte x))"
  by pat_completeness auto
termination
  by (relation "measure (\<lambda>(p, out). length p)") (auto dest: parse_braces_shorter)

declare expand_braces.simps [simp del]

fun strip_captures :: "u8 list \<Rightarrow> u8 list" where
  "strip_captures [] = []"
| "strip_captures (x # r) =
     (if x = ch (CHR 0x5C) \<and> r \<noteq> [] then push_byte x @ push_byte (hd r) @ strip_captures (drop 1 r)
      else if x = ch CHR ''('' \<or> x = ch CHR '')'' then strip_captures r
      else push_byte x @ strip_captures r)"

text \<open>The pattern that the searches run.\<close>

definition prepare :: "u8 list \<Rightarrow> Panic + u8 list" where
  "prepare pattern = (case expand_braces pattern [] of Err e \<Rightarrow> Err e | Ok p \<Rightarrow> Ok (strip_captures p))"

section \<open>Searches\<close>

abbreviation match_at :: matcher where
  "match_at \<equiv> match_here REGEX_MAX_DEPTH"

text \<open>The starts from the current one on, which the first argument numbers.\<close>

fun search :: "nat \<Rightarrow> bool \<Rightarrow> u8 list \<Rightarrow> u8 list \<Rightarrow> nat \<Rightarrow> (nat \<times> nat) option" where
  "search start anchored p txt budget =
     (case match_at p txt budget of
        (r, b) \<Rightarrow>
          if 0 \<le> r then Some (start, start + nat r)
          else if anchored then None
          else (case txt of [] \<Rightarrow> None | _ # txt' \<Rightarrow> search (start + 1) anchored p txt' b))"

declare search.simps [simp del]

definition find_match :: "u8 list \<Rightarrow> u8 list \<Rightarrow> Panic + (nat \<times> nat) option" where
  "find_match text pattern =
     (case prepare pattern of
        Err e \<Rightarrow> Err e
      | Ok p \<Rightarrow> Ok (search 0 (starts CHR ''^'' p) p text REGEX_MAX_WORK))"

definition match_pattern :: "u8 list \<Rightarrow> u8 list \<Rightarrow> Panic + bool" where
  "match_pattern text pattern =
     (case prepare pattern of
        Err e \<Rightarrow> Err e
      | Ok p \<Rightarrow> Ok (search 0 (starts CHR ''^'' p) p text REGEX_MAX_WORK \<noteq> None))"

text \<open>
  The first match at or after the cursor: the bytes before it and those it consumes. No match is
  tried at the end of the text.
\<close>

fun first_match :: "nat \<Rightarrow> u8 list \<Rightarrow> u8 list \<Rightarrow> nat \<Rightarrow> (nat \<times> nat) option \<times> nat" where
  "first_match skipped p [] budget = (None, budget)"
| "first_match skipped p (c # txt) budget =
     (case match_at p (c # txt) budget of
        (r, b) \<Rightarrow> if 0 \<le> r then (Some (skipped, nat r), b) else first_match (skipped + 1) p txt b)"

text \<open>\<open>str::from_utf8(..).unwrap_or("")\<close>.\<close>

definition utf8_or_empty :: "u8 list \<Rightarrow> u8 list" where
  "utf8_or_empty s = (if utf8_valid s then s else [])"

text \<open>Every attempt costs work, so the searches that loop terminate.\<close>

lemma try_counts_budget:
  assumes "\<And>p t b. snd (rec p t b) \<le> b"
  shows "snd (try_counts rec sub txt m n b) \<le> b"
proof (induction n arbitrary: b)
  case 0
  then show ?case using assms [of sub "txt" b] by (subst try_counts.simps) (auto split: prod.splits)
next
  case (Suc n)
  obtain r b' where r: "rec sub (drop (Suc n) txt) b = (r, b')" by fastforce
  then have "b' \<le> b" using assms [of sub "drop (Suc n) txt" b] by simp
  then show ?case using r Suc.IH [of b'] by (subst try_counts.simps) auto
qed

lemma here_loop_budget:
  assumes "\<And>p t b. snd (rec p t b) \<le> b"
  shows "snd (here_loop rec p txt ti b) \<le> b"
proof (induction p arbitrary: "txt" ti b rule: measure_induct_rule [where f = length])
  case (less p)
  obtain rest cls where e: "parse_element p = (rest, cls)" by fastforce
  show ?case
  proof (cases "p = [] \<or> p = [ch CHR ''$'']")
    case True
    then show ?thesis by (subst here_loop.simps) auto
  next
    case p: False
    show ?thesis
    proof (cases "starts CHR ''*'' rest \<or> starts CHR ''+'' rest")
      case True
      let ?t = "try_counts rec (drop 1 rest) txt (if starts CHR ''+'' rest then 1 else 0) (run_length p cls txt) b"
      have "snd ?t \<le> b" using assms by (rule try_counts_budget)
      then show ?thesis using p e True by (subst here_loop.simps) (auto split: prod.splits option.splits)
    next
      case False
      then show ?thesis using p e less elem_match_shorter
        by (subst here_loop.simps) (auto split: list.splits)
    qed
  qed
qed

lemma match_here_budget: "snd (match_here n p t b) \<le> b"
proof (induction n arbitrary: p t b)
  case (Suc n)
  have "snd (here_loop (match_here n) q t 0 (b - 1)) \<le> b - 1" for q
    by (rule here_loop_budget) (rule Suc)
  then have "snd (here_loop (match_here n) q t 0 (b - 1)) \<le> b" for q by (rule order_trans) simp
  then show ?case by simp
qed simp

lemma match_here_spends:
  assumes "0 \<le> fst (match_here n p t b)"
  shows "snd (match_here n p t b) < b"
proof (cases n)
  case (Suc k)
  then have b: "0 < b" using assms by (cases b) auto
  have "snd (here_loop (match_here k) q t 0 (b - 1)) \<le> b - 1" for q
    by (rule here_loop_budget) (rule match_here_budget)
  then have "snd (here_loop (match_here k) q t 0 (b - 1)) < b" for q by (rule le_less_trans) (use b in simp)
  then show ?thesis using Suc b by simp
qed (use assms in simp)

lemma first_match_spends:
  "first_match k p txt b = (r, b') \<Longrightarrow> b' \<le> b \<and> (\<forall>x. r = Some x \<longrightarrow> b' < b)"
proof (induction k p "txt" b arbitrary: r b' rule: first_match.induct)
  case (2 k p c s b)
  obtain q d where m: "match_at p (c # s) b = (q, d)" by fastforce
  show ?case
  proof (cases "0 \<le> q")
    case True
    then have "d < b" using match_here_spends [of REGEX_MAX_DEPTH p "c # s" b] m by simp
    then show ?thesis using 2(2) m True by auto
  next
    case False
    then have "first_match (k + 1) p s d = (r, b')" using 2(2) m by simp
    then have "b' \<le> d \<and> (\<forall>x. r = Some x \<longrightarrow> b' < d)" using 2(1) [OF m [symmetric] False] by blast
    moreover have "d \<le> b" using match_here_budget [of REGEX_MAX_DEPTH p "c # s" b] m by simp
    ultimately show ?thesis by auto
  qed
qed simp

text \<open>
  A match that consumes nothing leaves the cursor where it is: the loop replaces again at the same
  place until the budget is spent.
\<close>

function replace_loop :: "u8 list \<Rightarrow> u8 list \<Rightarrow> u8 list \<Rightarrow> nat \<Rightarrow> u8 list \<Rightarrow> Panic + u8 list" where
  "replace_loop p replacement txt budget result =
     (if txt = [] then Ok result
      else case first_match 0 p txt budget of
        (None, b) \<Rightarrow> Ok (result @ utf8_or_empty txt)
      | (Some (pos, len), b) \<Rightarrow>
          (case byte_slice txt 0 pos of
             Err e \<Rightarrow> Err e
           | Ok prefix \<Rightarrow>
               replace_loop p replacement (drop (pos + len) txt) b (result @ utf8_or_empty prefix @ replacement)))"
  by pat_completeness auto
termination
  by (relation "measure (\<lambda>(p, r, txt, b, res). b + length txt)")
    (auto dest!: first_match_spends [OF sym])

declare replace_loop.simps [simp del]

definition replace_all :: "u8 list \<Rightarrow> u8 list \<Rightarrow> u8 list \<Rightarrow> Panic + u8 list" where
  "replace_all text pattern replacement =
     (case prepare pattern of
        Err e \<Rightarrow> Err e
      | Ok p \<Rightarrow> replace_loop p replacement text REGEX_MAX_WORK [])"

text \<open>\<open>mimi_regex_find_all\<close> runs the pattern as it is given and steps over an empty match.\<close>

function find_all_loop :: "u8 list \<Rightarrow> u8 list \<Rightarrow> nat \<Rightarrow> Panic + u8 list list" where
  "find_all_loop p txt budget =
     (if txt = [] then Ok []
      else case first_match 0 p txt budget of
        (None, b) \<Rightarrow> Ok []
      | (Some (pos, len), b) \<Rightarrow>
          (case byte_slice txt pos (pos + len) of
             Err e \<Rightarrow> Err e
           | Ok matched \<Rightarrow>
               (case find_all_loop p (drop (if len = 0 then pos + 1 else pos + len) txt) b of
                  Err e \<Rightarrow> Err e
                | Ok found \<Rightarrow> Ok (utf8_or_empty matched # found))))"
  by pat_completeness auto
termination
  by (relation "measure (\<lambda>(p, txt, b). length txt)") auto

declare find_all_loop.simps [simp del]

section \<open>Captures\<close>

type_synonym span = "nat \<times> nat"

type_synonym cap_matcher = "u8 list \<Rightarrow> u8 list \<Rightarrow> span list \<Rightarrow> nat \<Rightarrow> nat option \<times> span list \<times> nat"

definition MAX_REPEAT :: nat where "MAX_REPEAT = 10000"

text \<open>The position of the parenthesis that closes the one at the head, from position \<open>i\<close> on.\<close>

function find_matching_paren :: "u8 list \<Rightarrow> int \<Rightarrow> nat \<Rightarrow> nat option" where
  "find_matching_paren p depth i =
     (case p of
        [] \<Rightarrow> None
      | x # r \<Rightarrow>
          if x = ch (CHR 0x5C) then find_matching_paren (drop 1 r) depth (i + 2)
          else if x = ch CHR ''('' then find_matching_paren r (depth + 1) (i + 1)
          else if x = ch CHR '')'' then
            (if depth - 1 = 0 then Some i else find_matching_paren r (depth - 1) (i + 1))
          else find_matching_paren r depth (i + 1))"
  by pat_completeness auto
termination
  by (relation "measure (\<lambda>(p, d, i). length p)") auto

declare find_matching_paren.simps [simp del]

definition read_quant :: "u8 list \<Rightarrow> (nat \<times> nat) \<times> u8 list" where
  "read_quant p =
     (if starts CHR ''*'' p then ((0, MAX_REPEAT), drop 1 p)
      else if starts CHR ''+'' p then ((1, MAX_REPEAT), drop 1 p)
      else ((1, 1), p))"

definition shift :: "nat \<Rightarrow> span \<Rightarrow> span" where
  "shift k s = (fst s + k, snd s + k)"

text \<open>
  The repetitions of a group, each on the suffix of the text that the one before left (in range, since
  a match consumes no more than its text): the position reached, or \<open>None\<close> when one fails, with the captures
  of the repetitions so far.
\<close>

fun group_reps :: "cap_matcher \<Rightarrow> u8 list \<Rightarrow> u8 list \<Rightarrow> nat \<Rightarrow> nat \<Rightarrow> span list \<Rightarrow> nat
    \<Rightarrow> nat option \<times> span list \<times> nat" where
  "group_reps rec inner txt 0 t2 caps budget = (Some t2, caps, budget)"
| "group_reps rec inner txt (Suc k) t2 caps budget =
     (case rec inner (drop t2 txt) [] budget of
        (None, _, b) \<Rightarrow> (None, caps, b)
      | (Some n, inner_caps, b) \<Rightarrow>
          group_reps rec inner txt k (t2 + n) (caps @ map (shift t2) inner_caps) b)"

text \<open>
  The rest of the pattern after \<open>t2\<close> characters. The captures it adds are relative to its text and
  are moved to this one; on a failure they are dropped by the caller.
\<close>

definition match_rest :: "cap_matcher \<Rightarrow> u8 list \<Rightarrow> u8 list \<Rightarrow> nat \<Rightarrow> span list \<Rightarrow> nat
    \<Rightarrow> nat option \<times> span list \<times> nat" where
  "match_rest rec after txt t2 caps budget =
     (case rec after (drop t2 txt) caps budget of
        (None, caps', b) \<Rightarrow> (None, caps', b)
      | (Some rest, caps', b) \<Rightarrow>
          (Some (t2 + rest), take (length caps) caps' @ map (shift t2) (drop (length caps) caps'), b))"

text \<open>The counts of a group from the largest down; \<open>caps_len\<close> captures are older than the group.\<close>

fun group_counts :: "cap_matcher \<Rightarrow> u8 list \<Rightarrow> u8 list \<Rightarrow> u8 list \<Rightarrow> nat \<Rightarrow> nat \<Rightarrow> span list \<Rightarrow> nat
    \<Rightarrow> nat option \<times> span list \<times> nat" where
  "group_counts rec inner after txt min_c count caps budget =
     (if count < min_c then (None, caps, budget)
      else
        let (res, caps', b) =
          (case group_reps rec inner txt count 0 caps budget of
             (None, caps1, b1) \<Rightarrow> (None, caps1, b1)
           | (Some t2, caps1, b1) \<Rightarrow>
               match_rest rec after txt t2
                 (take (length caps) caps1 @ (0, t2) # drop (length caps) caps1) b1)
        in case res of
             Some n \<Rightarrow> (Some n, caps', b)
           | None \<Rightarrow>
               if count = 0 then (None, take (length caps) caps', b)
               else group_counts rec inner after txt min_c (count - 1) (take (length caps) caps') b)"

declare group_counts.simps [simp del]

text \<open>The counts of a single element; the first \<open>count\<close> characters are checked again.\<close>

fun elem_counts :: "cap_matcher \<Rightarrow> u8 list \<Rightarrow> bool \<Rightarrow> u8 list \<Rightarrow> u8 list \<Rightarrow> nat \<Rightarrow> nat \<Rightarrow> span list \<Rightarrow> nat
    \<Rightarrow> nat option \<times> span list \<times> nat" where
  "elem_counts rec p cls after txt min_c count caps budget =
     (if count < min_c then (None, caps, budget)
      else
        let (res, caps', b) =
          (if count \<le> length txt \<and> list_all (\<lambda>c. fst (elem_match p c cls)) (take count txt)
           then match_rest rec after txt count caps budget
           else (None, caps, budget))
        in case res of
             Some n \<Rightarrow> (Some n, caps', b)
           | None \<Rightarrow>
               if count = 0 then (None, caps', b)
               else elem_counts rec p cls after txt min_c (count - 1) caps' b)"

declare elem_counts.simps [simp del]

text \<open>The longest run of the element, at most one more than \<open>MAX_REPEAT\<close>.\<close>

definition capped_run :: "u8 list \<Rightarrow> bool \<Rightarrow> u8 list \<Rightarrow> nat" where
  "capped_run p cls txt = min (run_length p cls txt) (MAX_REPEAT + 1)"

definition caps_body :: "cap_matcher \<Rightarrow> cap_matcher" where
  "caps_body rec p txt caps budget =
     (if p = [] then (Some 0, caps, budget)
      else if p = [ch CHR ''$''] then (if txt = [] then Some 0 else None, caps, budget)
      else if starts CHR ''('' p then
        (case find_matching_paren p 0 0 of
           None \<Rightarrow> (None, caps, budget)
         | Some close \<Rightarrow>
             (case read_quant (drop (close + 1) p) of
                ((min_c, max_c), after) \<Rightarrow>
                  group_counts rec (slice p 1 close) after txt min_c max_c caps budget))
      else case parse_element p of
        (rest, cls) \<Rightarrow>
          let star = starts CHR ''*'' rest; plus = starts CHR ''+'' rest;
              min_c = (if plus then 1 else if star then 0 else 1);
              max_c = (if star \<or> plus then capped_run p cls txt else 1)
          in if max_c < min_c then (None, caps, budget)
             else elem_counts rec p cls (if star \<or> plus then drop 1 rest else rest) txt min_c max_c caps budget)"

primrec match_with_captures :: "nat \<Rightarrow> cap_matcher" where
  "match_with_captures 0 p txt caps budget = (None, caps, budget)"
| "match_with_captures (Suc levels) p txt caps budget =
     (if budget = 0 then (None, caps, 0)
      else caps_body (match_with_captures levels) (if starts CHR ''^'' p then drop 1 p else p) txt caps
             (budget - 1))"

text \<open>A slice of bytes out of range panics.\<close>

definition group_text :: "u8 list \<Rightarrow> nat \<Rightarrow> span \<Rightarrow> Panic + u8 list" where
  "group_text text start s =
     (if start + fst s \<le> start + snd s \<and> start + snd s \<le> length text
      then Ok (utf8_or_empty (slice text (start + fst s) (start + snd s))) else Err Panic)"

fun all_ok :: "('e + 'a) list \<Rightarrow> 'e + 'a list" where
  "all_ok [] = Ok []"
| "all_ok (x # xs) =
     (case x of Err e \<Rightarrow> Err e | Ok y \<Rightarrow> (case all_ok xs of Err e \<Rightarrow> Err e | Ok ys \<Rightarrow> Ok (y # ys)))"

fun capture_search :: "nat \<Rightarrow> bool \<Rightarrow> u8 list \<Rightarrow> u8 list \<Rightarrow> u8 list \<Rightarrow> nat \<Rightarrow> Panic + u8 list list option" where
  "capture_search start anchored p text txt budget =
     (case match_with_captures REGEX_MAX_DEPTH p txt [] budget of
        (Some _, caps, b) \<Rightarrow>
          (case all_ok (map (group_text text start) caps) of Err e \<Rightarrow> Err e | Ok gs \<Rightarrow> Ok (Some gs))
      | (None, _, b) \<Rightarrow>
          if anchored then Ok None
          else (case txt of [] \<Rightarrow> Ok None | _ # txt' \<Rightarrow> capture_search (start + 1) anchored p text txt' b))"

declare capture_search.simps [simp del]

definition capture_groups :: "u8 list \<Rightarrow> u8 list \<Rightarrow> Panic + u8 list list option" where
  "capture_groups text pattern =
     (case expand_braces pattern [] of
        Err e \<Rightarrow> Err e
      | Ok p \<Rightarrow> capture_search 0 (starts CHR ''^'' p) p text text REGEX_MAX_WORK)"

section \<open>The exported functions\<close>

text \<open>
  A pointer is \<open>None\<close> when it is null, otherwise the string that \<open>cstr_to_string\<close> reads from it; a
  panic does not cross the \<open>extern "C"\<close> boundary, it aborts the process.
\<close>

definition MAX_REGEX_PATTERN_LEN :: nat where "MAX_REGEX_PATTERN_LEN = 512"

definition text_bytes :: "string \<Rightarrow> u8 list" where
  "text_bytes s = map ch s"

definition hex_digit :: "nat \<Rightarrow> u8" where
  "hex_digit n = (if n < 10 then word_of_nat (48 + n) else word_of_nat (87 + n))"

text \<open>The escapes both printers share; a control character becomes \<open>\u00xx\<close>.\<close>

definition json_byte :: "u8 \<Rightarrow> u8 list" where
  "json_byte c =
     (if c = 34 then [ch (CHR 0x5C), 34]
      else if c = ch (CHR 0x5C) then [ch (CHR 0x5C), ch (CHR 0x5C)]
      else if c = 10 then [ch (CHR 0x5C), ch CHR ''n'']
      else if c = 13 then [ch (CHR 0x5C), ch CHR ''r'']
      else if c = 9 then [ch (CHR 0x5C), ch CHR ''t'']
      else if c < 0x20 then
        [ch (CHR 0x5C), ch CHR ''u'', 48, 48, hex_digit (unat c div 16), hex_digit (unat c mod 16)]
      else [c])"

text \<open>\<open>find_all\<close> also escapes the two line separators, \<open>E2 80 A8\<close> and \<open>E2 80 A9\<close> in UTF-8.\<close>

fun json_escape_all :: "u8 list \<Rightarrow> u8 list" where
  "json_escape_all [] = []"
| "json_escape_all (c # r) =
     (if c = 0xE2 \<and> take 2 r = [0x80, 0xA8]
      then ch (CHR 0x5C) # text_bytes ''u2028'' @ json_escape_all (drop 2 r)
      else if c = 0xE2 \<and> take 2 r = [0x80, 0xA9]
      then ch (CHR 0x5C) # text_bytes ''u2029'' @ json_escape_all (drop 2 r)
      else json_byte c @ json_escape_all r)"

definition json_escape_groups :: "u8 list \<Rightarrow> u8 list" where
  "json_escape_groups s = concat (map json_byte s)"

fun comma_separated :: "u8 list list \<Rightarrow> u8 list" where
  "comma_separated [] = []"
| "comma_separated [x] = x"
| "comma_separated (x # xs) = x @ [ch CHR '',''] @ comma_separated xs"

definition json_array :: "(u8 list \<Rightarrow> u8 list) \<Rightarrow> u8 list list \<Rightarrow> u8 list" where
  "json_array esc xs =
     [ch CHR ''[''] @ comma_separated (map (\<lambda>x. [34] @ esc x @ [34]) xs) @ [ch CHR '']'']"

definition mimi_regex_match :: "u8 list option \<Rightarrow> u8 list option \<Rightarrow> Panic + int" where
  "mimi_regex_match text pattern =
     (case (text, pattern) of
        (Some t, Some p) \<Rightarrow>
          if MAX_REGEX_PATTERN_LEN < length p then Ok 0
          else (case match_pattern t p of Err e \<Rightarrow> Err e | Ok m \<Rightarrow> Ok (if m then 1 else 0))
      | _ \<Rightarrow> Ok 0)"

definition mimi_regex_find :: "u8 list option \<Rightarrow> u8 list option \<Rightarrow> Panic + u8 list" where
  "mimi_regex_find text pattern =
     (case (text, pattern) of
        (Some t, Some p) \<Rightarrow>
          if MAX_REGEX_PATTERN_LEN < length p then Ok []
          else (case find_match t p of
              Err e \<Rightarrow> Err e
            | Ok None \<Rightarrow> Ok []
            | Ok (Some (a, b)) \<Rightarrow> (case str_slice t a b of Err _ \<Rightarrow> Ok [] | Ok s \<Rightarrow> Ok s))
      | _ \<Rightarrow> Ok [])"

text \<open>The result \<open>None\<close> is the null pointer.\<close>

definition mimi_regex_replace ::
    "u8 list option \<Rightarrow> u8 list option \<Rightarrow> u8 list option \<Rightarrow> Panic + u8 list option" where
  "mimi_regex_replace text pattern replacement =
     (case (text, pattern, replacement) of
        (Some t, Some p, Some r) \<Rightarrow>
          if MAX_REGEX_PATTERN_LEN < length p then Ok None
          else (case replace_all t p r of Err e \<Rightarrow> Err e | Ok s \<Rightarrow> Ok (Some s))
      | _ \<Rightarrow> Ok None)"

definition mimi_regex_find_all :: "u8 list option \<Rightarrow> u8 list option \<Rightarrow> Panic + u8 list" where
  "mimi_regex_find_all text pattern =
     (case (text, pattern) of
        (Some t, Some p) \<Rightarrow>
          if MAX_REGEX_PATTERN_LEN < length p then Ok (text_bytes ''[]'')
          else (case find_all_loop p t REGEX_MAX_WORK of
              Err e \<Rightarrow> Err e
            | Ok found \<Rightarrow> Ok (json_array json_escape_all found))
      | _ \<Rightarrow> Ok (text_bytes ''[]''))"

definition mimi_regex_capture_groups :: "u8 list option \<Rightarrow> u8 list option \<Rightarrow> Panic + u8 list" where
  "mimi_regex_capture_groups text pattern =
     (case (text, pattern) of
        (Some t, Some p) \<Rightarrow>
          if MAX_REGEX_PATTERN_LEN < length p then Ok (text_bytes ''[]'')
          else (case capture_groups t p of
              Err e \<Rightarrow> Err e
            | Ok (Some gs) \<Rightarrow> Ok (json_array json_escape_groups gs)
            | Ok None \<Rightarrow> Ok (text_bytes ''[]''))
      | _ \<Rightarrow> Ok (text_bytes ''[]''))"

end
