(* ===== verification/Mimi_RegexLaws.thy ===== *)
theory Mimi_RegexLaws
  imports Mimi_Regex
begin

text \<open>
  What the backtracking matcher decides. A pattern denotes a list of items, each a set of bytes
  that occurs once or a number of times, and \<open>match_lengths\<close> lists the lengths of all its matches at
  a position, the greedy ones first. The matcher returns the first of them; it fails only when there
  is none, when the pattern has too many quantifiers for the depth limit, or when the work is spent.
  A bound on the work of a search says when it is never spent.
\<close>

section \<open>The items of a pattern\<close>

datatype item = One "u8 \<Rightarrow> bool" | Many nat "u8 \<Rightarrow> bool"

definition skip_caret :: "u8 list \<Rightarrow> u8 list" where
  "skip_caret p = (if starts CHR ''^'' p then drop 1 p else p)"

definition quantified :: "u8 list \<Rightarrow> bool" where
  "quantified rest \<longleftrightarrow> starts CHR ''*'' rest \<or> starts CHR ''+'' rest"

definition elem_bytes :: "u8 list \<Rightarrow> u8 \<Rightarrow> bool" where
  "elem_bytes p c = fst (elem_match p c (snd (parse_element p)))"

definition elem_rest :: "u8 list \<Rightarrow> u8 list" where
  "elem_rest p = (if p = [ch (CHR 0x5C)] then [] else snd (elem_match p 0 (snd (parse_element p))))"

lemma class_scan_rest: "snd (class_scan c m p) = snd (class_scan c' m' p)"
proof (induction p arbitrary: m m' rule: measure_induct_rule [where f = length])
  case (less p)
  then show ?case
    by (subst (1 2) class_scan.simps) (auto split: list.splits)
qed

lemma elem_rest_shorter: "p \<noteq> [] \<Longrightarrow> length (elem_rest p) < length p"
  using class_scan_shorter [of 0 False "drop 1 (tl p)"] class_scan_shorter [of 0 False "tl p"]
  by (cases p) (auto simp: elem_rest_def parse_element_def elem_match_def elem_match_in_class_def Let_def
    case_prod_beta split: list.splits if_splits)

lemma elem_match_elem:
  assumes "parse_element p = (rest, cls)"
  shows "fst (elem_match p c cls) = elem_bytes p c"
    and "elem_bytes p c \<Longrightarrow> snd (elem_match p c cls) = elem_rest p"
proof -
  show "fst (elem_match p c cls) = elem_bytes p c" using assms by (simp add: elem_bytes_def)
  assume "elem_bytes p c"
  then have "fst (elem_match p c cls)" using assms by (simp add: elem_bytes_def)
  moreover have "snd (elem_match_in_class r c) = snd (elem_match_in_class r 0)" for r
    using class_scan_rest by (simp add: elem_match_in_class_def Let_def case_prod_beta)
  moreover have "\<not> cls" if "p = [ch (CHR 0x5C)]" using assms that by (simp add: parse_element_def)
  ultimately show "snd (elem_match p c cls) = elem_rest p"
    using assms unfolding elem_rest_def elem_match_def by (auto split: list.splits if_splits)
qed

lemma parse_element_shorter: "p \<noteq> [] \<Longrightarrow> length (fst (parse_element p)) < length p"
proof -
  have "length (class_end r) \<le> length r" for r by (induction r rule: class_end.induct) auto
  from this [of "tl p"] this [of "drop 1 (tl p)"] show "p \<noteq> [] \<Longrightarrow> ?thesis"
    by (auto simp: parse_element_def less_Suc_eq_le split: list.splits if_splits)
qed

text \<open>The items, and whether the match must end at the end of the text.\<close>

function items :: "u8 list \<Rightarrow> item list \<times> bool" where
  "items p =
     (if p = [] then ([], False)
      else if p = [ch CHR ''$''] then ([], True)
      else let rest = fst (parse_element p) in
        if quantified rest
        then apfst (Cons (Many (if starts CHR ''+'' rest then 1 else 0) (elem_bytes p)))
               (items (skip_caret (drop 1 rest)))
        else apfst (Cons (One (elem_bytes p))) (items (elem_rest p)))"
  by pat_completeness auto
termination
proof (relation "measure length", goal_cases)
  case (2 p rest)
  then have "length rest < length p" using parse_element_shorter by simp
  then show ?case by (auto simp: skip_caret_def)
qed (auto intro: elem_rest_shorter)

declare items.simps [simp del]

section \<open>Matches of items\<close>

fun match_lengths :: "item list \<Rightarrow> bool \<Rightarrow> u8 list \<Rightarrow> nat list" where
  "match_lengths [] at_end t = (if at_end \<and> t \<noteq> [] then [] else [0])"
| "match_lengths (One S # is) at_end t =
     (case t of [] \<Rightarrow> [] | c # t' \<Rightarrow> if S c then map Suc (match_lengths is at_end t') else [])"
| "match_lengths (Many m S # is) at_end t =
     concat (map (\<lambda>k. map (\<lambda>n. k + n) (match_lengths is at_end (drop k t)))
       (rev [m..<Suc (length (takeWhile S t))]))"

text \<open>The words of the items, independent of an order of search.\<close>

fun item_word :: "item list \<Rightarrow> u8 list \<Rightarrow> bool" where
  "item_word [] w \<longleftrightarrow> w = []"
| "item_word (One S # is) w \<longleftrightarrow> (case w of [] \<Rightarrow> False | c # w' \<Rightarrow> S c \<and> item_word is w')"
| "item_word (Many m S # is) w \<longleftrightarrow>
     list_ex (\<lambda>k. m \<le> k \<and> list_all S (take k w) \<and> item_word is (drop k w)) [0..<Suc (length w)]"

lemma takeWhile_covers: "k \<le> length (takeWhile S t) \<longleftrightarrow> k \<le> length t \<and> list_all S (take k t)"
proof (induction t arbitrary: k)
  case (Cons c t)
  then show ?case by (cases k) auto
qed simp

lemma Many_lengths:
  "n \<in> set (match_lengths (Many m S # is) at_end t) \<longleftrightarrow>
     (\<exists>k j. m \<le> k \<and> k \<le> length (takeWhile S t) \<and> j \<in> set (match_lengths is at_end (drop k t)) \<and> n = k + j)"
  by (auto simp: less_Suc_eq_le image_iff simp del: upt_Suc)

lemma match_lengths_iff:
  "n \<in> set (match_lengths is at_end t) \<longleftrightarrow>
     n \<le> length t \<and> item_word is (take n t) \<and> (at_end \<longrightarrow> n = length t)"
proof (induction "is" at_end t arbitrary: n rule: match_lengths.induct)
  case (1 at_end t)
  then show ?case by (cases t) auto
next
  case (2 S "is" at_end t)
  show ?case
  proof (cases t)
    case (Cons c t')
    then show ?thesis using 2 by (cases n) auto
  qed simp
next
  case (3 m S "is" at_end t)
  have step: "j \<in> set (match_lengths is at_end (drop k t)) \<longleftrightarrow>
      j \<le> length (drop k t) \<and> item_word is (take j (drop k t)) \<and> (at_end \<longrightarrow> j = length (drop k t))"
    if "m \<le> k" "k \<le> length (takeWhile S t)" for j k
    by (rule 3) (use that in auto)
  show ?case
  proof
    assume "n \<in> set (match_lengths (Many m S # is) at_end t)"
    then obtain k j where k: "m \<le> k" "k \<le> length (takeWhile S t)" and n: "n = k + j"
      and "j \<in> set (match_lengths is at_end (drop k t))"
      unfolding Many_lengths by blast
    then have j: "j \<le> length (drop k t)" "item_word is (take j (drop k t))" "at_end \<longrightarrow> j = length (drop k t)"
      using step [OF k, of j] by blast+
    have t: "k \<le> length t" "list_all S (take k t)" using k(2) by (simp_all add: takeWhile_covers)
    have "take k (take n t) = take k t" "drop k (take n t) = take j (drop k t)"
      using n by (simp_all add: take_drop min_def add.commute)
    then have "item_word (Many m S # is) (take n t)"
      using k(1) n j t by (auto simp: list_ex_iff intro!: bexI [of _ k])
    then show "n \<le> length t \<and> item_word (Many m S # is) (take n t) \<and> (at_end \<longrightarrow> n = length t)"
      using n j t(1) by auto
  next
    assume a: "n \<le> length t \<and> item_word (Many m S # is) (take n t) \<and> (at_end \<longrightarrow> n = length t)"
    then obtain k where in_range: "k \<in> set [0..<Suc (length (take n t))]"
      and k: "m \<le> k" "list_all S (take k (take n t))" "item_word is (drop k (take n t))"
      by (auto simp only: item_word.simps list_ex_iff)
    have k_n: "k \<le> n" using in_range by auto
    have "take k (take n t) = take k t" "drop k (take n t) = take (n - k) (drop k t)"
      using k_n by (simp_all add: min_def drop_take)
    then have "k \<le> length (takeWhile S t)" "n - k \<in> set (match_lengths is at_end (drop k t))"
      using a k k_n by (auto simp: takeWhile_covers step)
    then show "n \<in> set (match_lengths (Many m S # is) at_end t)"
      unfolding Many_lengths using k_n k(1) le_add_diff_inverse [OF k_n, symmetric] by blast
  qed
qed

section \<open>What the matcher returns\<close>

lemma as_i32_id: "n < 2 ^ 31 \<Longrightarrow> as_i32 n = int n"
  by (simp add: as_i32_def signed_of_nat signed_take_bit_int_eq_self_iff)

primrec loops :: "item list \<Rightarrow> nat" where
  "loops [] = 0"
| "loops (i # is) = (case i of One S \<Rightarrow> 0 | Many m S \<Rightarrow> 1) + loops is"

text \<open>
  A result is the first of the lengths; it is a failure only when there is none, when the work is
  spent or when the pattern has too many loops for the levels left.
\<close>

definition decides :: "nat \<Rightarrow> nat \<Rightarrow> int \<times> nat \<Rightarrow> nat list \<Rightarrow> bool" where
  "decides levels loop_count result lengths =
     (if 0 \<le> fst result
      then loop_count < levels \<and> (\<exists>others. lengths = nat (fst result) # others)
      else snd result = 0 \<or> lengths = [] \<or> levels \<le> loop_count)"

lemma try_counts_spent:
  assumes "\<And>t. rec sub t 0 = (-1, 0)"
  shows "try_counts rec sub txt m n 0 = (None, 0)"
  by (induction n) (subst try_counts.simps; simp add: assms)+

definition loop_lengths :: "(nat \<Rightarrow> nat list) \<Rightarrow> nat \<Rightarrow> nat \<Rightarrow> nat list" where
  "loop_lengths f m n = concat (map (\<lambda>k. map (\<lambda>j. k + j) (f k)) (rev [m..<Suc n]))"

lemma loop_lengths_Suc:
  "loop_lengths f m (Suc n) = (if Suc n < m then [] else map (\<lambda>j. Suc n + j) (f (Suc n)) @ loop_lengths f m n)"
  by (simp add: loop_lengths_def)

lemma try_counts_decides:
  assumes rec: "\<And>k b. k \<le> n \<Longrightarrow> decides lv q (rec sub (drop k t) b) (f k)"
    and spent: "\<And>t. rec sub t 0 = (-1, 0)"
  shows "case try_counts rec sub t m n b of
      (None, b') \<Rightarrow> b' = 0 \<or> loop_lengths f m n = [] \<or> lv \<le> q
    | (Some (c, r), b') \<Rightarrow> 0 \<le> r \<and> q < lv \<and> c \<le> n \<and> (\<exists>ys. f c = nat r # ys) \<and> (\<exists>ys. loop_lengths f m n = (c + nat r) # ys)"
  using rec
proof (induction n arbitrary: b)
  case 0
  obtain r b' where r: "rec sub t b = (r, b')" by fastforce
  have "decides lv q (r, b') (f 0)" using 0 [of 0 b] r by simp
  then show ?case using r by (subst try_counts.simps) (auto simp: decides_def loop_lengths_def split: if_splits)
next
  case (Suc n)
  show ?case
  proof (cases "Suc n < m")
    case True
    then show ?thesis by (subst try_counts.simps) (simp add: loop_lengths_Suc)
  next
    case False
    obtain r b' where r: "rec sub (drop (Suc n) t) b = (r, b')" by fastforce
    have dec: "decides lv q (r, b') (f (Suc n))" using Suc.prems [of "Suc n" b] r by simp
    have lens: "loop_lengths f m (Suc n) = map (\<lambda>j. Suc n + j) (f (Suc n)) @ loop_lengths f m n"
      using False by (simp add: loop_lengths_Suc)
    show ?thesis
    proof (cases "0 \<le> r")
      case True
      then show ?thesis using r dec False lens by (subst try_counts.simps) (auto simp: decides_def)
    next
      case neg: False
      have t: "try_counts rec sub t m (Suc n) b = try_counts rec sub t m n b'"
        using r neg False by (subst try_counts.simps) simp
      consider "b' = 0" | "f (Suc n) = []" | "lv \<le> q" using dec neg by (auto simp: decides_def)
      then show ?thesis
      proof cases
        case 1
        then show ?thesis using t try_counts_spent [of rec sub, OF spent] by simp
      next
        case 2
        then show ?thesis using t lens Suc.IH [of b'] Suc.prems by (auto split: prod.splits option.splits)
      next
        case 3
        then show ?thesis using t Suc.IH [of b'] Suc.prems by (auto split: prod.splits option.splits)
      qed
    qed
  qed
qed

lemma match_lengths_bounded: "n \<in> set (match_lengths is at_end t) \<Longrightarrow> n \<le> length t"
  by (simp add: match_lengths_iff)

lemma match_lengths_Many:
  "match_lengths (Many m S # is) at_end t =
     loop_lengths (\<lambda>k. match_lengths is at_end (drop k t)) m (length (takeWhile S t))"
  by (simp add: loop_lengths_def)

text \<open>The loop over the pattern, when the matcher for the rest decides at \<open>levels\<close>.\<close>

lemma here_loop_decides:
  assumes rec: "\<And>p t b. length t < 2 ^ 31 \<Longrightarrow>
      decides levels (loops (fst (items (skip_caret p)))) (rec p t b)
        (match_lengths (fst (items (skip_caret p))) (snd (items (skip_caret p))) t)"
    and spent: "\<And>p t. rec p t 0 = (-1, 0)"
  shows "ti + length t < 2 ^ 31 \<Longrightarrow>
      decides (Suc levels) (loops (fst (items p))) (here_loop rec p t ti b)
        (map (\<lambda>n. ti + n) (match_lengths (fst (items p)) (snd (items p)) t))"
proof (induction p arbitrary: t ti rule: measure_induct_rule [where f = length])
  case (less p)
  obtain rest cls where e: "parse_element p = (rest, cls)" by fastforce
  consider "p = []" | "p = [ch CHR ''$'']" | "p \<noteq> []" "p \<noteq> [ch CHR ''$'']" by blast
  then show ?case
  proof cases
    case 1
    then show ?thesis using less.prems
      by (subst here_loop.simps, subst (1 2 3) items.simps) (simp add: decides_def as_i32_id)
  next
    case 2
    then show ?thesis using less.prems
      by (subst here_loop.simps, subst (1 2 3) items.simps) (simp add: decides_def as_i32_id)
  next
    case p: 3
    show ?thesis
    proof (cases "quantified rest")
      case True
      define m :: nat where "m = (if starts CHR ''+'' rest then 1 else 0)"
      define after where "after = drop 1 rest"
      define rest_items where "rest_items = items (skip_caret after)"
      let ?n = "run_length p cls t"
      let ?f = "\<lambda>k. match_lengths (fst rest_items) (snd rest_items) (drop k t)"
      have items: "items p = apfst (Cons (Many m (elem_bytes p))) rest_items"
        using p True e by (subst items.simps) (simp add: m_def after_def rest_items_def)
      have n: "length (takeWhile (elem_bytes p) t) = ?n"
        by (simp add: run_length_def elem_match_elem(1) [OF e])
      have n_le: "?n \<le> length t" by (simp add: run_length_def length_takeWhile_le)
      have "decides levels (loops (fst rest_items)) (rec after (drop k t) b) (?f k)" for k b
        unfolding rest_items_def by (rule rec) (use less.prems in simp)
      then have outcome: "case try_counts rec after t m ?n b of
            (None, b') \<Rightarrow> b' = 0 \<or> loop_lengths ?f m ?n = [] \<or> levels \<le> loops (fst rest_items)
          | (Some (c, r), b') \<Rightarrow> 0 \<le> r \<and> loops (fst rest_items) < levels \<and> c \<le> ?n \<and> (\<exists>ys. ?f c = nat r # ys) \<and>
              (\<exists>ys. loop_lengths ?f m ?n = (c + nat r) # ys)"
        by (rule try_counts_decides) (rule spent)
      have run: "here_loop rec p t ti b =
          (case try_counts rec after t m ?n b of
             (None, b) \<Rightarrow> (-1, b) | (Some (count, r), b) \<Rightarrow> (as_i32 (ti + count + nat r), b))"
        using p True e by (subst here_loop.simps) (simp add: quantified_def m_def after_def)
      have lengths: "match_lengths (fst (items p)) (snd (items p)) t = loop_lengths ?f m ?n"
        by (simp only: items match_lengths_Many n fst_apfst snd_apfst)
      have loops: "loops (fst (items p)) = Suc (loops (fst rest_items))" by (simp add: items)
      show ?thesis
      proof (cases "try_counts rec after t m ?n b")
        case (Pair found b')
        show ?thesis
        proof (cases found)
          case None
          then show ?thesis using outcome run Pair by (auto simp: decides_def lengths loops)
        next
          case (Some cr)
          obtain c r where cr: "cr = (c, r)" by fastforce
          obtain ys zs where f: "?f c = nat r # ys" and ls: "loop_lengths ?f m ?n = (c + nat r) # zs"
            and ok: "0 \<le> r" "loops (fst rest_items) < levels" "c \<le> ?n"
            using outcome Pair Some cr by auto
          have "nat r \<le> length (drop c t)" by (rule match_lengths_bounded [of _ "fst rest_items" "snd rest_items"]) (use f in simp)
          then have "as_i32 (ti + c + nat r) = int (ti + c + nat r)"
            using ok(3) n_le less.prems by (intro as_i32_id) auto
          then show ?thesis using run Pair Some cr ls ok by (auto simp: decides_def lengths loops)
        qed
      qed
    next
      case False
      have items: "items p = apfst (Cons (One (elem_bytes p))) (items (elem_rest p))"
        using p False e by (subst items.simps) simp
      show ?thesis
      proof (cases t)
        case Nil
        then show ?thesis using p False e
          by (subst here_loop.simps) (simp add: quantified_def items decides_def)
      next
        case (Cons c t')
        show ?thesis
        proof (cases "elem_bytes p c")
          case True
          then have "here_loop rec p t ti b = here_loop rec (elem_rest p) t' (ti + 1) b"
            using p False e Cons elem_match_elem [OF e, of c] by (subst here_loop.simps) (simp add: quantified_def)
          moreover have "decides (Suc levels) (loops (fst (items (elem_rest p)))) (here_loop rec (elem_rest p) t' (ti + 1) b)
              (map (\<lambda>n. ti + 1 + n) (match_lengths (fst (items (elem_rest p))) (snd (items (elem_rest p))) t'))"
            using less p(1) Cons by (intro less.IH) (auto intro: elem_rest_shorter)
          ultimately show ?thesis using True Cons by (simp add: items comp_def)
        next
          case neq: False
          then show ?thesis using p False e Cons elem_match_elem(1) [OF e]
            by (subst here_loop.simps) (simp add: quantified_def items decides_def)
        qed
      qed
    qed
  qed
qed

lemma match_here_spent: "match_here n p t 0 = (-1, 0)"
  by (cases n) auto

lemma match_here_decides:
  "length t < 2 ^ 31 \<Longrightarrow>
    decides levels (loops (fst (items (skip_caret p)))) (match_here levels p t b)
      (match_lengths (fst (items (skip_caret p))) (snd (items (skip_caret p))) t)"
proof (induction levels arbitrary: p t b)
  case 0
  then show ?case by (simp add: decides_def)
next
  case (Suc levels)
  show ?case
  proof (cases "b = 0")
    case True
    then show ?thesis by (simp add: decides_def)
  next
    case False
    have "decides (Suc levels) (loops (fst (items (skip_caret p)))) (here_loop (match_here levels) (skip_caret p) t 0 (b - 1))
        (map (\<lambda>n. 0 + n) (match_lengths (fst (items (skip_caret p))) (snd (items (skip_caret p))) t))"
      by (rule here_loop_decides) (use Suc match_here_spent in auto)
    then show ?thesis using False by (simp add: skip_caret_def)
  qed
qed

section \<open>How much work a match is\<close>

primrec attempts :: "nat \<Rightarrow> nat \<Rightarrow> nat" where
  "attempts 0 n = 1"
| "attempts (Suc k) n = 1 + (n + 1) * attempts k n"

lemma try_counts_work:
  assumes "\<And>k b. k \<le> count \<Longrightarrow> b \<le> snd (rec sub (drop k t) b) + w"
  shows "b \<le> snd (try_counts rec sub t m count b) + (count + 1) * w"
  using assms
proof (induction count arbitrary: b)
  case 0
  then have "b \<le> snd (rec sub (drop 0 t) b) + w" by blast
  then show ?case by (subst try_counts.simps) (auto split: prod.splits)
next
  case (Suc count)
  obtain r b' where r: "rec sub (drop (Suc count) t) b = (r, b')" by fastforce
  have "b \<le> b' + w" using Suc.prems [of "Suc count" b] r by simp
  moreover have "b' \<le> snd (try_counts rec sub t m count b') + (count + 1) * w" by (rule Suc.IH) (use Suc.prems in simp)
  ultimately show ?case using r by (subst try_counts.simps) auto
qed

lemma here_loop_work:
  assumes rec: "\<And>p t b. length t \<le> n \<Longrightarrow> b \<le> snd (rec p t b) + attempts (loops (fst (items (skip_caret p)))) n"
  shows "length t \<le> n \<Longrightarrow>
    b \<le> snd (here_loop rec p t ti b) + (attempts (loops (fst (items p))) n - 1)"
proof (induction p arbitrary: t ti rule: measure_induct_rule [where f = length])
  case (less p)
  obtain rest cls where e: "parse_element p = (rest, cls)" by fastforce
  consider "p = [] \<or> p = [ch CHR ''$'']" | "p \<noteq> []" "p \<noteq> [ch CHR ''$'']" by blast
  then show ?case
  proof cases
    case 1
    then show ?thesis by (subst here_loop.simps) auto
  next
    case p: 2
    show ?thesis
    proof (cases "quantified rest")
      case True
      define after where "after = drop 1 rest"
      define m :: nat where "m = (if starts CHR ''+'' rest then 1 else 0)"
      define w where "w = attempts (loops (fst (items (skip_caret after)))) n"
      let ?n = "run_length p cls t"
      have loops: "loops (fst (items p)) = Suc (loops (fst (items (skip_caret after))))"
        using p True e by (subst items.simps) (simp add: after_def)
      have n_le: "?n \<le> n" using less.prems length_takeWhile_le unfolding run_length_def by (rule order_trans [rotated])
      have "b \<le> snd (try_counts rec after t m ?n b) + (?n + 1) * w"
        by (rule try_counts_work) (use rec less.prems in \<open>simp add: w_def\<close>)
      also have "(?n + 1) * w \<le> (n + 1) * w" using n_le by (intro mult_le_mono1) simp
      finally have "b \<le> snd (try_counts rec after t m ?n b) + (n + 1) * w" by simp
      then show ?thesis using p True e
        by (subst here_loop.simps) (auto simp: quantified_def m_def after_def loops w_def split: prod.splits option.splits)
    next
      case False
      have loops: "loops (fst (items p)) = loops (fst (items (elem_rest p)))"
        using p False e by (subst items.simps) simp
      show ?thesis
      proof (cases t)
        case Nil
        then show ?thesis using p False e by (subst here_loop.simps) (simp add: quantified_def)
      next
        case (Cons c t')
        show ?thesis
        proof (cases "elem_bytes p c")
          case True
          then have "here_loop rec p t ti b = here_loop rec (elem_rest p) t' (ti + 1) b"
            using p False e Cons elem_match_elem [OF e, of c] by (subst here_loop.simps) (simp add: quantified_def)
          then show ?thesis using less.IH [OF elem_rest_shorter [OF p(1)], of t' "ti + 1"] less.prems Cons loops by simp
        next
          case neq: False
          then show ?thesis using p False e Cons elem_match_elem(1) [OF e]
            by (subst here_loop.simps) (simp add: quantified_def)
        qed
      qed
    qed
  qed
qed

lemma attempts_pos: "1 \<le> attempts k n"
  by (cases k) auto

lemma match_here_work:
  "length t \<le> n \<Longrightarrow> b \<le> snd (match_here levels p t b) + attempts (loops (fst (items (skip_caret p)))) n"
proof (induction levels arbitrary: p t b)
  case (Suc levels)
  show ?case
  proof (cases "b = 0")
    case False
    have "b - 1 \<le> snd (here_loop (match_here levels) (skip_caret p) t 0 (b - 1)) +
        (attempts (loops (fst (items (skip_caret p)))) n - 1)"
      by (rule here_loop_work) (use Suc in auto)
    then show ?thesis using False attempts_pos [of "loops (fst (items (skip_caret p)))" n]
      by (auto simp: skip_caret_def)
  qed simp
qed simp

section \<open>Searches\<close>

text \<open>The lengths of the matches of a prepared pattern at a start, the first one first.\<close>

definition matches_at :: "u8 list \<Rightarrow> u8 list \<Rightarrow> nat \<Rightarrow> nat list" where
  "matches_at p text start =
     match_lengths (fst (items (skip_caret p))) (snd (items (skip_caret p))) (drop start text)"

definition loop_count :: "u8 list \<Rightarrow> nat" where
  "loop_count p = loops (fst (items (skip_caret p)))"

definition search_work :: "u8 list \<Rightarrow> u8 list \<Rightarrow> nat" where
  "search_work p text = (length text + 1) * attempts (loop_count p) (length text)"

definition within_limits :: "u8 list \<Rightarrow> u8 list \<Rightarrow> bool" where
  "within_limits p text \<longleftrightarrow> loop_count p < REGEX_MAX_DEPTH \<and> search_work p text < REGEX_MAX_WORK"

text \<open>The first start with a match takes its first length.\<close>

definition leftmost :: "bool \<Rightarrow> (nat \<Rightarrow> nat list) \<Rightarrow> nat \<Rightarrow> nat \<times> nat \<Rightarrow> bool" where
  "leftmost anchored lengths_at limit found \<longleftrightarrow>
     (case found of (a, b) \<Rightarrow>
        a \<le> b \<and> a \<le> limit \<and> (anchored \<longrightarrow> a = 0) \<and> (\<exists>others. lengths_at a = (b - a) # others) \<and>
        (\<forall>earlier<a. lengths_at earlier = []))"

lemma leftmost_Suc:
  "leftmost False f limit (a, b) \<Longrightarrow> g 0 = [] \<Longrightarrow> (\<And>k. g (Suc k) = f k) \<Longrightarrow>
    leftmost False g (Suc limit) (Suc a, Suc b)"
  by (auto simp: leftmost_def less_Suc_eq_0_disj)

lemma search_exact:
  assumes "length t \<le> n" "n < 2 ^ 31"
  shows "case search start anchored p t b of
      Some (a, e) \<Rightarrow> start \<le> a \<and> start \<le> e \<and> loop_count p < REGEX_MAX_DEPTH \<and> 0 < b \<and>
        leftmost anchored (matches_at p t) (length t) (a - start, e - start)
    | None \<Rightarrow> (\<forall>k\<le>(if anchored then 0 else length t). matches_at p t k = []) \<or>
        REGEX_MAX_DEPTH \<le> loop_count p \<or> b \<le> (length t + 1) * attempts (loop_count p) n"
  using assms(1)
proof (induction t arbitrary: start b)
  case Nil
  obtain r b' where r: "match_at p [] b = (r, b')" by fastforce
  have d: "decides REGEX_MAX_DEPTH (loop_count p) (r, b') (matches_at p [] 0)"
    using match_here_decides [of "[]" REGEX_MAX_DEPTH p b] r by (simp add: loop_count_def matches_at_def)
  have "b \<le> b' + attempts (loop_count p) n"
    using match_here_work [of "[]" n b REGEX_MAX_DEPTH p] r by (simp add: loop_count_def)
  moreover have "0 < b" if "0 \<le> r"
    using match_here_spends [of REGEX_MAX_DEPTH p "[]" b] r that by simp
  ultimately show ?case using r d by (subst search.simps) (auto simp: decides_def leftmost_def split: if_splits)
next
  case (Cons c t)
  let ?m = "matches_at p (c # t)"
  obtain r b' where r: "match_at p (c # t) b = (r, b')" by fastforce
  have d: "decides REGEX_MAX_DEPTH (loop_count p) (r, b') (?m 0)"
    using match_here_decides [of "c # t" REGEX_MAX_DEPTH p b] r Cons.prems assms(2)
    by (simp add: loop_count_def matches_at_def)
  have w: "b \<le> b' + attempts (loop_count p) n"
    using match_here_work [of "c # t" n b REGEX_MAX_DEPTH p] r Cons.prems by (simp add: loop_count_def)
  have shift: "?m (Suc k) = matches_at p t k" for k by (simp add: matches_at_def)
  have pos: "0 < b" if "0 \<le> r"
    using match_here_spends [of REGEX_MAX_DEPTH p "c # t" b] r that by simp
  show ?case
  proof (cases "0 \<le> r \<or> anchored")
    case True
    then show ?thesis using r d w pos by (subst search.simps) (auto simp: decides_def leftmost_def split: if_splits)
  next
    case False
    then have s: "search start anchored p (c # t) b = search (start + 1) False p t b'"
      using r by (subst search.simps) simp
    have fail: "b' = 0 \<or> ?m 0 = [] \<or> REGEX_MAX_DEPTH \<le> loop_count p" using d False by (simp add: decides_def)
    have all: "(\<forall>k\<le>length (c # t). ?m k = []) \<longleftrightarrow> ?m 0 = [] \<and> (\<forall>k\<le>length t. matches_at p t k = [])"
      using shift by (metis (no_types) Suc_le_mono length_Cons not0_implies_Suc zero_le)
    have ih: "case search (start + 1) False p t b' of
        Some (a, e) \<Rightarrow> start + 1 \<le> a \<and> start + 1 \<le> e \<and> loop_count p < REGEX_MAX_DEPTH \<and> 0 < b' \<and>
          leftmost False (matches_at p t) (length t) (a - (start + 1), e - (start + 1))
      | None \<Rightarrow> (\<forall>k\<le>length t. matches_at p t k = []) \<or>
          REGEX_MAX_DEPTH \<le> loop_count p \<or> b' \<le> (length t + 1) * attempts (loop_count p) n"
    proof -
      have anchored: "anchored = False" and "length t \<le> n" using False Cons.prems by simp_all
      then show ?thesis using Cons.IH [of b' "start + 1"] unfolding anchored if_False by simp
    qed
    show ?thesis
    proof (cases "search (start + 1) False p t b'")
      case None
      then show ?thesis using s ih fail w False all by auto
    next
      case (Some ae)
      obtain a e where ae: "ae = (a, e)" by fastforce
      then have limits: "loop_count p < REGEX_MAX_DEPTH" "0 < b'" and l: "start + 1 \<le> a" "start + 1 \<le> e"
          "leftmost False (matches_at p t) (length t) (a - (start + 1), e - (start + 1))"
        using Some ih by auto
      have "?m 0 = []" using fail limits by auto
      then have "leftmost False ?m (Suc (length t)) (Suc (a - (start + 1)), Suc (e - (start + 1)))"
        using leftmost_Suc [OF l(3), of ?m] shift by blast
      moreover have "0 < b" using limits(2) r match_here_budget [of REGEX_MAX_DEPTH p "c # t" b] by auto
      ultimately show ?thesis using s Some ae l(1,2) limits(1) False by (simp add: Suc_diff_Suc)
    qed
  qed
qed

text \<open>
  C37: The search of \<open>find_match\<close> is exact on texts shorter than \<open>2^31\<close> bytes. A match it returns is the
  leftmost one, with the length that greedy matching takes first; when it returns none, the pattern
  matches nowhere in the text, unless the pattern has as many loops as the depth limit or the bound on
  the work of the search reaches the work budget. From \<open>2^31\<close> bytes on the code's cast of a consumed
  length to \<open>i32\<close> can wrap to a negative number, which the search takes for a failed match, and nothing
  is claimed (\<open>long_match_wraps\<close> shows the wrapped length).
\<close>
theorem find_match_exact:
  assumes "length text < 2 ^ 31" "prepare pattern = Ok p"
  shows "case find_match text pattern of
      Err e \<Rightarrow> False
    | Ok (Some (a, b)) \<Rightarrow>
        b \<le> length text \<and> leftmost (starts CHR ''^'' p) (matches_at p text) (length text) (a, b)
    | Ok None \<Rightarrow>
        (\<forall>a\<le>(if starts CHR ''^'' p then 0 else length text). matches_at p text a = []) \<or>
        \<not> within_limits p text"
proof (cases "search 0 (starts CHR ''^'' p) p text REGEX_MAX_WORK")
  case None
  then show ?thesis
    using search_exact [OF order.refl assms(1), where start = 0 and anchored = "starts CHR ''^'' p" and p = p and b = REGEX_MAX_WORK] assms(2)
    by (auto simp: find_match_def within_limits_def search_work_def)
next
  case (Some ab)
  obtain a b where ab: "ab = (a, b)" by fastforce
  then have l: "leftmost (starts CHR ''^'' p) (matches_at p text) (length text) (a, b)"
    using search_exact [OF order.refl assms(1), where start = 0 and anchored = "starts CHR ''^'' p" and p = p and b = REGEX_MAX_WORK] Some by auto
  then have "b - a \<in> set (matches_at p text a)" by (auto simp: leftmost_def)
  then have "b - a \<le> length (drop a text)" unfolding matches_at_def by (rule match_lengths_bounded)
  moreover have "a \<le> length text" "a \<le> b" using l by (auto simp: leftmost_def)
  ultimately have "b \<le> length text" by simp
  then show ?thesis using Some ab l assms(2) by (simp add: find_match_def)
qed

lemma matches_at_words:
  assumes "a \<le> length text"
  shows "matches_at p text a \<noteq> [] \<longleftrightarrow>
    (\<exists>b\<ge>a. b \<le> length text \<and> item_word (fst (items (skip_caret p))) (slice text a b) \<and>
       (snd (items (skip_caret p)) \<longrightarrow> b = length text))"
proof -
  have "matches_at p text a \<noteq> [] \<longleftrightarrow> (\<exists>n. n \<in> set (matches_at p text a))"
    by (cases "matches_at p text a") auto
  also have "\<dots> \<longleftrightarrow> (\<exists>n. a + n \<le> length text \<and> item_word (fst (items (skip_caret p))) (slice text a (a + n)) \<and>
      (snd (items (skip_caret p)) \<longrightarrow> a + n = length text))"
    unfolding matches_at_def match_lengths_iff using assms by (intro ex_cong1) (auto simp: slice_def)
  finally show ?thesis by (metis le_add1 le_add_diff_inverse)
qed

text \<open>
  Within the limits, \<open>match_pattern\<close> decides the language of the pattern: it answers whether some
  part of the text, one at the start for a pattern that begins with \<open>^\<close>, one up to the end for a
  pattern that ends with \<open>$\<close>, is a word of the pattern's items.
\<close>
theorem match_pattern_decides_language:
  assumes "length text < 2 ^ 31" "prepare pattern = Ok p" "within_limits p text"
  shows "match_pattern text pattern =
    Ok (\<exists>a b. a \<le> b \<and> b \<le> length text \<and> (starts CHR ''^'' p \<longrightarrow> a = 0) \<and>
        item_word (fst (items (skip_caret p))) (slice text a b) \<and>
        (snd (items (skip_caret p)) \<longrightarrow> b = length text))"
    (is "_ = Ok ?word")
proof -
  have "search 0 (starts CHR ''^'' p) p text REGEX_MAX_WORK \<noteq> None \<longleftrightarrow>
      (\<exists>a\<le>length text. (starts CHR ''^'' p \<longrightarrow> a = 0) \<and> matches_at p text a \<noteq> [])"
    using search_exact [OF order.refl assms(1), where start = 0 and anchored = "starts CHR ''^'' p" and p = p and b = REGEX_MAX_WORK] assms(3)
    by (cases "search 0 (starts CHR ''^'' p) p text REGEX_MAX_WORK")
      (auto simp: within_limits_def search_work_def leftmost_def intro: gr0I split: if_splits)
  also have "\<dots> \<longleftrightarrow> ?word"
  proof
    assume "\<exists>a\<le>length text. (starts CHR ''^'' p \<longrightarrow> a = 0) \<and> matches_at p text a \<noteq> []"
    then obtain a where "a \<le> length text" "starts CHR ''^'' p \<longrightarrow> a = 0" "matches_at p text a \<noteq> []" by blast
    then show ?word using matches_at_words [of a "text" p] by blast
  next
    assume ?word
    then obtain a b where "a \<le> b" "b \<le> length text" "starts CHR ''^'' p \<longrightarrow> a = 0"
        "item_word (fst (items (skip_caret p))) (slice text a b)" "snd (items (skip_caret p)) \<longrightarrow> b = length text"
      by blast
    moreover from this have "a \<le> length text" by simp
    ultimately show "\<exists>a\<le>length text. (starts CHR ''^'' p \<longrightarrow> a = 0) \<and> matches_at p text a \<noteq> []"
      using matches_at_words [of a "text" p] by blast
  qed
  finally show ?thesis using assms(2) by (simp add: match_pattern_def)
qed

section \<open>Captures stay inside the text\<close>

definition span_in :: "nat \<Rightarrow> span \<Rightarrow> bool" where
  "span_in n s \<longleftrightarrow> fst s \<le> snd s \<and> snd s \<le> n"

text \<open>A failure leaves the captures alone; a success adds spans of its own text.\<close>

definition adds_spans :: "nat \<Rightarrow> span list \<Rightarrow> nat option \<times> span list \<times> nat \<Rightarrow> bool" where
  "adds_spans n caps result =
     (case result of
        (None, caps', b) \<Rightarrow> caps' = caps
      | (Some k, caps', b) \<Rightarrow> k \<le> n \<and> (\<exists>new. caps' = caps @ new \<and> list_all (span_in n) new))"

lemma span_in_shift: "span_in n s \<Longrightarrow> k + n \<le> m \<Longrightarrow> span_in m (shift k s)"
  by (auto simp: span_in_def shift_def)

lemma all_span_in_shift: "list_all (span_in n) ss \<Longrightarrow> k + n \<le> m \<Longrightarrow> list_all (span_in m) (map (shift k) ss)"
  by (auto simp: list_all_iff intro: span_in_shift)

lemma match_rest_spans:
  assumes "\<And>t c b. adds_spans (length t) c (rec after t c b)" "t2 \<le> length t"
  shows "adds_spans (length t) caps (match_rest rec after t t2 caps b)"
proof -
  obtain r caps' b' where r: "rec after (drop t2 t) caps b = (r, caps', b')" by (metis prod_cases3)
  then have a: "adds_spans (length (drop t2 t)) caps (r, caps', b')" using assms(1) by metis
  show ?thesis
  proof (cases r)
    case None
    then show ?thesis using r a by (simp add: match_rest_def adds_spans_def)
  next
    case (Some k)
    then obtain new where "caps' = caps @ new" "list_all (span_in (length (drop t2 t))) new" "k \<le> length (drop t2 t)"
      using a by (auto simp: adds_spans_def)
    then show ?thesis using r Some assms(2) all_span_in_shift [of "length (drop t2 t)" new t2 "length t"]
      by (auto simp: match_rest_def adds_spans_def)
  qed
qed

lemma group_reps_spans:
  assumes rec: "\<And>t c b. adds_spans (length t) c (rec inner t c b)"
  shows "t2 \<le> length t \<Longrightarrow>
    (case group_reps rec inner t k t2 caps b of
       (r, caps', b') \<Rightarrow> (\<exists>new. caps' = caps @ new \<and> list_all (span_in (length t)) new) \<and>
         (\<forall>e. r = Some e \<longrightarrow> e \<le> length t))"
proof (induction k arbitrary: t2 caps b)
  case (Suc k)
  obtain r new b' where r: "rec inner (drop t2 t) [] b = (r, new, b')" by (metis prod_cases3)
  then have a: "adds_spans (length (drop t2 t)) [] (r, new, b')" using rec by metis
  show ?case
  proof (cases r)
    case None
    then show ?thesis using r by simp
  next
    case (Some n)
    then have n: "t2 + n \<le> length t" and new: "list_all (span_in (length (drop t2 t))) new"
      using a Suc.prems by (auto simp: adds_spans_def)
    have "list_all (span_in (length t)) (map (shift t2) new)"
      by (rule all_span_in_shift [OF new]) (use Suc.prems in simp)
    then show ?thesis using r Some Suc.IH [OF n, of "caps @ map (shift t2) new" b']
      by (auto split: prod.splits)
  qed
qed simp

text \<open>One attempt at a count of a group, before the captures of a failure are dropped.\<close>

lemma group_attempt_spans:
  assumes rec: "\<And>p t c b. adds_spans (length t) c (rec p t c b)"
  shows "case (case group_reps rec inner t count 0 caps b of
        (None, caps1, b1) \<Rightarrow> (None, caps1, b1)
      | (Some t2, caps1, b1) \<Rightarrow>
          match_rest rec after t t2 (take (length caps) caps1 @ (0, t2) # drop (length caps) caps1) b1) of
      (r, caps', b') \<Rightarrow> (\<exists>new. caps' = caps @ new \<and> list_all (span_in (length t)) new) \<and>
        (\<forall>e. r = Some e \<longrightarrow> e \<le> length t)"
proof -
  obtain r caps1 b1 where g: "group_reps rec inner t count 0 caps b = (r, caps1, b1)" by (metis prod_cases3)
  obtain new where new: "caps1 = caps @ new" "list_all (span_in (length t)) new" and r: "\<forall>e. r = Some e \<longrightarrow> e \<le> length t"
    using group_reps_spans [where rec = rec and inner = inner and ?t2.0 = 0 and t = t and k = count and caps = caps and b = b, OF rec] g by auto
  show ?thesis
  proof (cases r)
    case None
    then show ?thesis using g new by auto
  next
    case (Some t2)
    then have "adds_spans (length t) (caps @ (0, t2) # new) (match_rest rec after t t2 (caps @ (0, t2) # new) b1)"
      using rec r by (intro match_rest_spans) auto
    moreover have "list_all (span_in (length t)) ((0, t2) # new)" using new(2) r Some by (simp add: span_in_def)
    ultimately show ?thesis using g Some new(1)
      by (auto simp: adds_spans_def split: prod.splits option.splits)
  qed
qed

lemma group_counts_spans:
  assumes rec: "\<And>p t c b. adds_spans (length t) c (rec p t c b)"
  shows "adds_spans (length t) caps (group_counts rec inner after t m count caps b)"
proof (induction count arbitrary: b rule: less_induct)
  case (less count)
  let ?attempt = "case group_reps rec inner t count 0 caps b of
      (None, caps1, b1) \<Rightarrow> (None, caps1, b1)
    | (Some t2, caps1, b1) \<Rightarrow>
        match_rest rec after t t2 (take (length caps) caps1 @ (0, t2) # drop (length caps) caps1) b1"
  obtain r caps' b' where a: "?attempt = (r, caps', b')" by (cases ?attempt) (rule that)
  have "case ?attempt of (r, caps', b') \<Rightarrow> (\<exists>new. caps' = caps @ new \<and> list_all (span_in (length t)) new) \<and>
      (\<forall>e. r = Some e \<longrightarrow> e \<le> length t)"
    by (rule group_attempt_spans) (rule rec)
  then obtain new where new: "caps' = caps @ new" "list_all (span_in (length t)) new" "\<forall>e. r = Some e \<longrightarrow> e \<le> length t"
    unfolding a prod.case by blast
  have "group_counts rec inner after t m count caps b =
      (if count < m then (None, caps, b)
       else case r of
           Some n \<Rightarrow> (Some n, caps', b')
         | None \<Rightarrow> if count = 0 then (None, caps, b') else group_counts rec inner after t m (count - 1) caps b')"
    unfolding group_counts.simps [of rec inner after t m count] a Let_def prod.case new(1)
    by (simp cong: option.case_cong)
  moreover have "adds_spans (length t) caps (group_counts rec inner after t m (count - 1) caps b')" if "count \<noteq> 0"
    by (rule less) (use that in simp)
  ultimately show ?case using new by (cases r) (auto simp: adds_spans_def)
qed

lemma elem_counts_spans:
  assumes rec: "\<And>p t c b. adds_spans (length t) c (rec p t c b)"
  shows "adds_spans (length t) caps (elem_counts rec p cls after t m count caps b)"
proof (induction count arbitrary: b)
  case 0
  show ?case using match_rest_spans [of rec after 0 t caps b, OF rec]
    by (subst elem_counts.simps) (auto simp: adds_spans_def Let_def split: prod.splits option.splits)
next
  case (Suc count)
  let ?attempt = "if Suc count \<le> length t \<and> list_all (\<lambda>c. fst (elem_match p c cls)) (take (Suc count) t)
    then match_rest rec after t (Suc count) caps b else (None, caps, b)"
  obtain r caps' b' where a: "?attempt = (r, caps', b')" by (metis prod_cases3)
  have "adds_spans (length t) caps ?attempt"
    using match_rest_spans [of rec after "Suc count" t caps b, OF rec] by (simp add: adds_spans_def)
  then have att: "adds_spans (length t) caps (r, caps', b')" unfolding a .
  have "elem_counts rec p cls after t m (Suc count) caps b =
      (if Suc count < m then (None, caps, b)
       else case r of Some n \<Rightarrow> (Some n, caps', b') | None \<Rightarrow> elem_counts rec p cls after t m count caps' b')"
    by (subst elem_counts.simps, subst a) (simp cong: option.case_cong)
  then show ?case using Suc [of b'] att by (cases r) (auto simp: adds_spans_def)
qed

lemma match_with_captures_spans: "adds_spans (length t) caps (match_with_captures n p t caps b)"
proof (induction n arbitrary: p t caps b)
  case 0
  then show ?case by (simp add: adds_spans_def)
next
  case (Suc n)
  have unchanged: "adds_spans (length t) caps (None, caps, k)" "adds_spans (length t) caps (Some 0, caps, k)" for k
    by (simp_all add: adds_spans_def)
  note counts = group_counts_spans [of "match_with_captures n", OF Suc] elem_counts_spans [of "match_with_captures n", OF Suc]
  have "adds_spans (length t) caps (caps_body (match_with_captures n) q t caps k)" for q k
  proof (cases "q = [] \<or> q = [ch CHR ''$'']")
    case True
    then show ?thesis using unchanged by (auto simp: caps_body_def adds_spans_def)
  next
    case False
    then have "q \<noteq> []" "q \<noteq> [ch CHR ''$'']" by auto
    then show ?thesis using unchanged counts
      by (simp add: caps_body_def Let_def del: length_greater_0_conv split: option.split prod.split)
  qed
  then show ?case using unchanged by simp
qed

lemma all_ok_Ok: "list_all (\<lambda>x. \<exists>y. x = Ok y) xs \<Longrightarrow> \<exists>ys. all_ok xs = Ok ys"
  by (induction xs) auto

lemma groups_read:
  assumes "adds_spans (length t) [] (Some k, caps, b)" "start + length t = length text"
  shows "\<exists>gs. all_ok (map (group_text text start) caps) = Ok gs"
proof (rule all_ok_Ok)
  have "list_all (span_in (length t)) caps" using assms(1) by (auto simp: adds_spans_def)
  then show "list_all (\<lambda>x. \<exists>y. x = Ok y) (map (group_text text start) caps)"
    using assms(2) by (auto simp: list_all_iff span_in_def group_text_def)
qed


lemma capture_search_returns:
  "start + length t = length text \<Longrightarrow> \<exists>r. capture_search start anchored p text t b = Ok r"
proof (induction t arbitrary: start b)
  case Nil
  obtain r caps b' where m: "match_with_captures REGEX_MAX_DEPTH p [] [] b = (r, caps, b')" by (metis prod_cases3)
  have "adds_spans (length []) [] (r, caps, b')" using match_with_captures_spans [of "[]" "[]" REGEX_MAX_DEPTH p b] m by simp
  then show ?case using m groups_read [of "[]" "the r" caps b' start "text"] Nil
    by (subst capture_search.simps) (force split: option.splits)
next
  case (Cons c t)
  obtain r caps b' where m: "match_with_captures REGEX_MAX_DEPTH p (c # t) [] b = (r, caps, b')" by (metis prod_cases3)
  have "adds_spans (length (c # t)) [] (r, caps, b')"
    using match_with_captures_spans [of "c # t" "[]" REGEX_MAX_DEPTH p b] m by simp
  then show ?case using m groups_read [of "c # t" "the r" caps b' start "text"] Cons
    by (subst capture_search.simps) (force split: option.splits)
qed

section \<open>A match lies in the text\<close>

text \<open>The cast to \<open>i32\<close> never makes a length larger, so what is consumed fits in any text.\<close>

lemma as_i32_le: "as_i32 n \<le> int n"
proof -
  have "as_i32 n = signed_take_bit 31 (int n)" by (simp add: as_i32_def signed_of_nat)
  also have "\<dots> \<le> int n" unfolding signed_take_bit_int_less_eq_self_iff by simp
  finally show ?thesis .
qed

lemma as_i32_bound: "n \<le> m \<Longrightarrow> as_i32 n \<le> int m"
  using as_i32_le [of n] by simp

definition consumes :: "matcher \<Rightarrow> bool" where
  "consumes rec \<longleftrightarrow> (\<forall>p t b. fst (rec p t b) \<le> int (length t))"

lemma try_counts_bound:
  assumes "consumes rec"
  shows "try_counts rec sub t m n b = (Some (k, r), b') \<Longrightarrow> n \<le> length t \<Longrightarrow> k + nat r \<le> length t"
proof (induction n arbitrary: b)
  case (0 b)
  obtain q b1 where q: "rec sub t b = (q, b1)" by fastforce
  then have "q \<le> int (length t)" using assms unfolding consumes_def by (metis fst_conv)
  then show ?case using 0 q by (subst (asm) try_counts.simps) (auto split: if_splits)
next
  case (Suc n b)
  obtain q b1 where q: "rec sub (drop (Suc n) t) b = (q, b1)" by fastforce
  then have "q \<le> int (length (drop (Suc n) t))" using assms unfolding consumes_def by (metis fst_conv)
  then have "0 \<le> q \<Longrightarrow> Suc n + nat q \<le> length t" using Suc.prems(2) by auto
  then show ?case using Suc q by (subst (asm) try_counts.simps) (auto split: if_splits)
qed

lemma here_loop_bound:
  assumes "consumes rec"
  shows "fst (here_loop rec p t ti b) \<le> int (ti + length t)"
proof (induction p arbitrary: t ti b rule: measure_induct_rule [where f = length])
  case (less p)
  obtain rest cls where e: "parse_element p = (rest, cls)" by fastforce
  have run: "run_length p cls t \<le> length t" by (simp add: run_length_def length_takeWhile_le)
  have counted: "as_i32 (ti + k + nat r) \<le> int (ti + length t)"
    if "try_counts rec (drop 1 rest) t m (run_length p cls t) b = (Some (k, r), b')" for m k r b'
    using try_counts_bound [OF assms that run] by (intro as_i32_bound) simp
  show ?case
  proof (cases "p = [] \<or> p = [ch CHR ''$'']")
    case True
    then show ?thesis using as_i32_bound [of ti "ti + length t"] by (subst here_loop.simps) auto
  next
    case p: False
    show ?thesis
    proof (cases "starts CHR ''*'' rest \<or> starts CHR ''+'' rest")
      case True
      then show ?thesis using p e counted
        by (subst here_loop.simps) (auto split: prod.splits option.splits)
    next
      case False
      have "fst (here_loop rec (snd (elem_match p c cls)) t' (ti + 1) b) \<le> int (ti + length (c # t'))"
        if "fst (elem_match p c cls)" for c t'
        using less [of "snd (elem_match p c cls)" t' "ti + 1" b] elem_match_shorter [OF _ that] p by simp
      then show ?thesis using p e False
        by (subst here_loop.simps) (auto split: list.splits simp del: of_nat_add simp add: of_nat_add [symmetric])
    qed
  qed
qed

lemma match_here_consumes: "consumes (match_here n)"
proof (induction n)
  case (Suc n)
  show ?case unfolding consumes_def
  proof (intro allI)
    fix p t b
    show "fst (match_here (Suc n) p t b) \<le> int (length t)"
      using here_loop_bound [OF Suc, of _ t 0 "b - 1"] by simp
  qed
qed (simp add: consumes_def)

lemma first_match_bound:
  "first_match k p t b = (Some (pos, len), b') \<Longrightarrow> k \<le> pos \<and> pos + len \<le> k + length t"
proof (induction k p t b rule: first_match.induct)
  case (2 k p c s b)
  obtain q d where m: "match_at p (c # s) b = (q, d)" by fastforce
  then have "q \<le> int (length (c # s))" using match_here_consumes unfolding consumes_def by (metis fst_conv)
  then show ?case using 2 m by (fastforce split: if_splits)
qed simp

lemma replace_loop_returns: "\<exists>r. replace_loop p new t b res = Ok r"
proof (induction p new t b res rule: replace_loop.induct)
  case (1 p new t b res)
  show ?case
  proof (cases "fst (first_match 0 p t b)")
    case None
    then show ?thesis by (subst replace_loop.simps) (auto split: prod.splits)
  next
    case (Some m)
    obtain pos len b' where m: "first_match 0 p t b = (Some (pos, len), b')"
      using Some by (cases "first_match 0 p t b", cases m) auto
    then have "byte_slice t 0 pos = Ok (slice t 0 pos)"
      using first_match_bound [OF m] by (simp add: byte_slice_def)
    then show ?thesis using 1 m by (subst replace_loop.simps) (auto split: prod.splits)
  qed
qed

lemma find_all_loop_returns: "\<exists>ms. find_all_loop p t b = Ok ms"
proof (induction p t b rule: find_all_loop.induct)
  case (1 p t b)
  show ?case
  proof (cases "t = [] \<or> fst (first_match 0 p t b) = None")
    case True
    then show ?thesis by (subst find_all_loop.simps) (auto split: prod.splits)
  next
    case False
    then obtain pos len b' where m: "first_match 0 p t b = (Some (pos, len), b')"
      by (cases "first_match 0 p t b") auto
    then have s: "byte_slice t pos (pos + len) = Ok (slice t pos (pos + len))"
      using first_match_bound [OF m] by (simp add: byte_slice_def)
    obtain ms where "find_all_loop p (drop (if len = 0 then pos + 1 else pos + len) t) b' = Ok ms"
      using 1 [OF _ m [symmetric] refl refl s] False by blast
    then show ?thesis using m s False by (subst find_all_loop.simps) simp
  qed
qed

lemma find_all_never_panics: "\<exists>r. mimi_regex_find_all text pattern = Ok r"
  using find_all_loop_returns
  by (auto simp: mimi_regex_find_all_def split: option.split sum.split) (metis sum.distinct(1))

section \<open>ASCII patterns never panic\<close>

definition ascii :: "u8 list \<Rightarrow> bool" where
  "ascii s \<longleftrightarrow> list_all (\<lambda>b. b < 0x80) s"

lemma ascii_append [simp]: "ascii (s @ t) \<longleftrightarrow> ascii s \<and> ascii t"
  by (auto simp: ascii_def)

lemma ascii_parts:
  "ascii s \<Longrightarrow> ascii (take n s)" "ascii s \<Longrightarrow> ascii (drop n s)" "ascii s \<Longrightarrow> ascii (concat (replicate n s))"
  by (auto simp: ascii_def list_all_iff dest: in_set_takeD in_set_dropD)

lemma ascii_push: "b < 0x80 \<Longrightarrow> push_byte b = [b]"
  by (simp add: push_byte_def)

lemma ascii_boundary: "ascii s \<Longrightarrow> i \<le> length s \<Longrightarrow> char_boundary s i"
proof -
  assume a: "ascii s" "i \<le> length s"
  have "\<not> utf8_cont (s ! i)" if "i < length s"
  proof -
    have "s ! i < 0x80" using a(1) that by (simp add: ascii_def list_all_length)
    then show ?thesis by (auto simp: utf8_cont_def)
  qed
  then show ?thesis using a(2) by (auto simp: char_boundary_def)
qed

lemma ascii_slice: "ascii s \<Longrightarrow> a \<le> b \<Longrightarrow> b \<le> length s \<Longrightarrow> str_slice s a b = Ok (slice s a b) \<and> ascii (slice s a b)"
  by (simp add: str_slice_def ascii_boundary slice_def ascii_parts)

lemma ascii_atom_from:
  "ascii s \<Longrightarrow> a \<le> b \<Longrightarrow> b \<le> length s \<Longrightarrow> atom_from s a b = Ok (Some (a, slice s a b)) \<and> ascii (slice s a b)"
  by (simp add: atom_from_def ascii_slice)

lemma atom_end_le: "atom_end b n \<le> n"
  by (induction b n rule: atom_end.induct) auto

lemma class_start_less: "class_start b n = Some i \<Longrightarrow> i < n"
  by (induction b n rule: class_start.induct) (auto split: if_splits)

lemma group_start_less: "group_start b d n = Some i \<Longrightarrow> i < n"
  by (induction b d n rule: group_start.induct) (auto split: if_splits)

lemma ascii_last_atom:
  assumes "ascii out"
  shows "last_atom out = Ok None \<or> (\<exists>a s. last_atom out = Ok (Some (a, s)) \<and> ascii s)"
proof -
  define e where "e = atom_end out (length out)"
  have e: "e \<le> length out" unfolding e_def by (rule atom_end_le)
  define good where "good r \<longleftrightarrow> r = Ok None \<or> (\<exists>a s. r = Ok (Some (a, s)) \<and> ascii s)"
    for r :: "Panic + (nat \<times> u8 list) option"
  have none: "good (Ok None)" by (simp add: good_def)
  have at: "good (atom_from out a e)" if "a \<le> e" for a
    using ascii_atom_from [OF assms that e] by (auto simp: good_def)
  have "good (last_atom out)"
    unfolding last_atom_def e_def [symmetric] Let_def
    by (auto split: option.split intro!: none at dest!: class_start_less group_start_less)
  then show ?thesis by (simp add: good_def)
qed

lemma parse_braces_ascii: "ascii p \<Longrightarrow> parse_braces p = Some (a, b, r) \<Longrightarrow> ascii r"
proof -
  assume a: "ascii p" and b: "parse_braces p = Some (a, b, r)"
  have dw: "ascii (dropWhile P s)" if "ascii s" for P and s :: "u8 list"
    using that by (auto simp: ascii_def list_all_iff dest: set_dropWhileD)
  show "ascii r"
    using b dw [OF a] dw [OF ascii_parts(2) [OF dw [OF a]]]
    by (auto simp: parse_braces_def digit_span_def Let_def intro!: ascii_parts(2) split: if_splits)
qed

lemma expand_braces_ascii:
  "ascii p \<Longrightarrow> ascii out \<Longrightarrow> \<exists>q. expand_braces p out = Ok q \<and> ascii q"
proof (induction p arbitrary: out rule: measure_induct_rule [where f = length])
  case (less p)
  show ?case
  proof (cases p)
    case Nil
    then show ?thesis using less.prems by (subst expand_braces.simps) simp
  next
    case (Cons x r)
    have x: "x < 0x80" and r: "ascii r" using less.prems(1) Cons by (auto simp: ascii_def)
    have sx: "ascii [x]" using x by (simp add: ascii_def)
    have plain: "\<exists>q. expand_braces r (out @ push_byte x) = Ok q \<and> ascii q"
      using less.IH [of r "out @ push_byte x"] Cons r sx less.prems(2) x by (simp add: ascii_push)
    have esc: "\<exists>q. expand_braces (drop 1 r) (out @ push_byte x @ push_byte (hd r)) = Ok q \<and> ascii q" if "r \<noteq> []"
    proof -
      have "hd r < 0x80" using r that by (cases r) (auto simp: ascii_def)
      moreover from this have "ascii [hd r]" by (simp add: ascii_def)
      ultimately show ?thesis
        using less.IH [of "drop 1 r" "out @ push_byte x @ push_byte (hd r)"] Cons r sx less.prems(2) x
        using \<open>ascii [hd r]\<close> ascii_append [of "[x]" "[hd r]"] by (simp add: ascii_push ascii_parts less_Suc_eq_le)
    qed
    have brace: "\<exists>q. expand_braces rest (take a out @ concat (replicate k atom) @ concat (replicate j atom)) = Ok q \<and> ascii q"
      if "parse_braces r = Some (n, m, rest)" "ascii atom" for n m rest a k j atom
      using less.IH [of rest] parse_braces_ascii [OF r that(1)] parse_braces_shorter [OF that(1)] that(2) Cons less.prems(2)
      by (simp add: ascii_parts)
    show ?thesis
      using plain esc brace ascii_last_atom [OF less.prems(2)] Cons
      by (subst expand_braces.simps) (auto split: option.splits)
  qed
qed

text \<open>
  C38: A pattern of ASCII characters never panics: \<open>mimi_regex_match\<close>, \<open>mimi_regex_find\<close>,
  \<open>mimi_regex_find_all\<close>, \<open>mimi_regex_replace\<close> and \<open>mimi_regex_capture_groups\<close> all return a value, whatever
  the bytes of the text and of the replacement are. So no slice of the pattern taken while braces are
  expanded leaves the pattern or splits a character, and no slice that copies a match, the text before a
  match or a captured group leaves the text. The suffixes of the text that the matchers go on with are
  taken by a total \<open>drop\<close>; that they start inside the text is \<open>match_with_captures_spans\<close> for the capture
  matcher and \<open>try_counts_bound\<close> for the other.
\<close>

theorem ascii_patterns_never_panic:
  assumes "ascii pattern"
  shows "\<exists>a b c d e.
    mimi_regex_match (Some text) (Some pattern) = Ok a \<and>
    mimi_regex_find (Some text) (Some pattern) = Ok b \<and>
    mimi_regex_replace (Some text) (Some pattern) (Some replacement) = Ok c \<and>
    mimi_regex_capture_groups (Some text) (Some pattern) = Ok d \<and>
    mimi_regex_find_all (Some text) (Some pattern) = Ok e"
proof -
  obtain q where q: "expand_braces pattern [] = Ok q"
    using expand_braces_ascii [OF assms, of "[]"] by (auto simp: ascii_def)
  obtain r where "capture_groups text pattern = Ok r"
    using capture_search_returns [of 0 "text" "text" "starts CHR ''^'' q" q REGEX_MAX_WORK] q
    by (simp add: capture_groups_def) blast
  moreover obtain s where "replace_loop (strip_captures q) replacement text REGEX_MAX_WORK [] = Ok s"
    using replace_loop_returns by blast
  ultimately show ?thesis using q find_all_never_panics [of "Some text" "Some pattern"]
    by (auto simp: mimi_regex_match_def mimi_regex_find_def mimi_regex_replace_def mimi_regex_capture_groups_def
      match_pattern_def find_match_def replace_all_def prepare_def split: option.split sum.split prod.split)
qed

end
