(* ===== verification/Mimi_RegexDemo.thy ===== *)
theory Mimi_RegexDemo
  imports Mimi_RegexLaws
begin

text \<open>
  The searches evaluated on concrete patterns, and the inputs on which the runtime's regular
  expressions do not do what their comments say.
\<close>

section \<open>The searches on a concrete pattern\<close>

lemma demo_prepare: "prepare (text_bytes ''b+[0-9]'') = Ok (text_bytes ''b+[0-9]'')"
  by code_simp

lemma demo_matches:
  "matches_at (text_bytes ''b+[0-9]'') (text_bytes ''abb12'') 0 = []"
  "matches_at (text_bytes ''b+[0-9]'') (text_bytes ''abb12'') 1 = [3]"
  by code_simp+

lemma demo_limits: "within_limits (text_bytes ''b+[0-9]'') (text_bytes ''abb12'')"
proof -
  have "loop_count (text_bytes ''b+[0-9]'') = 1" by code_simp
  then show ?thesis by (simp add: within_limits_def search_work_def REGEX_MAX_DEPTH_def REGEX_MAX_WORK_def text_bytes_def)
qed

lemma leftmost_start:
  assumes "leftmost anchored f limit (a, b)" "f k \<noteq> []" "\<forall>j<k. f j = []"
  shows "a = k \<and> b = k + hd (f k)"
proof -
  from assms(1) obtain others where a: "a \<le> b" "f a = (b - a) # others" "\<forall>j<a. f j = []"
    by (auto simp: leftmost_def)
  then have "\<not> a < k" "\<not> k < a" using assms(2,3) by auto
  then have "a = k" by simp
  then show ?thesis using a by simp
qed

theorem find_match_exact_witness:
  "find_match (text_bytes ''abb12'') (text_bytes ''b+[0-9]'') = Ok (Some (1, 4))"
proof -
  let ?t = "text_bytes ''abb12''" and ?p = "text_bytes ''b+[0-9]''"
  have len: "length ?t < 2 ^ 31" and nc: "\<not> starts CHR ''^'' ?p" by (simp add: text_bytes_def, code_simp)
  note exact = find_match_exact [OF len demo_prepare]
  have first: "\<forall>j<1. matches_at ?p ?t j = []" using demo_matches(1) by simp
  obtain r where r: "find_match ?t ?p = Ok r" using exact by (cases "find_match ?t ?p") auto
  show ?thesis
  proof (cases r)
    case None
    then have "matches_at ?p ?t 1 = []" using exact r nc demo_limits by (simp add: text_bytes_def)
    then show ?thesis using demo_matches(2) by simp
  next
    case (Some ab)
    obtain a b where ab: "ab = (a, b)" by fastforce
    have "leftmost (starts CHR ''^'' ?p) (matches_at ?p ?t) (length ?t) (a, b)"
      using exact unfolding r Some ab by simp
    then have "a = 1 \<and> b = 1 + hd (matches_at ?p ?t 1)"
      by (rule leftmost_start) (use demo_matches(2) first in simp_all)
    then show ?thesis using r Some ab demo_matches(2) by simp
  qed
qed

theorem match_pattern_decides_language_witness:
  "match_pattern (text_bytes ''abb12'') (text_bytes ''b+[0-9]'') = Ok True"
proof -
  let ?t = "text_bytes ''abb12''" and ?p = "text_bytes ''b+[0-9]''"
  have len: "length ?t < 2 ^ 31" by (simp add: text_bytes_def)
  have "item_word (fst (items (skip_caret ?p))) (slice ?t 1 4) \<and> \<not> snd (items (skip_caret ?p)) \<and> \<not> starts CHR ''^'' ?p \<and> 4 \<le> length ?t"
    by code_simp
  then have "(1::nat) \<le> 4 \<and> 4 \<le> length ?t \<and> (starts CHR ''^'' ?p \<longrightarrow> (1::nat) = 0) \<and>
      item_word (fst (items (skip_caret ?p))) (slice ?t 1 4) \<and> (snd (items (skip_caret ?p)) \<longrightarrow> 4 = length ?t)"
    by simp
  then show ?thesis unfolding match_pattern_decides_language [OF len demo_prepare demo_limits] sum.inject by blast
qed

theorem ascii_patterns_never_panic_witness:
  "\<exists>a b c d e.
    mimi_regex_match (Some [0xC3, 0xA9]) (Some (text_bytes ''(a{2})*.'')) = Ok a \<and>
    mimi_regex_find (Some [0xC3, 0xA9]) (Some (text_bytes ''(a{2})*.'')) = Ok b \<and>
    mimi_regex_replace (Some [0xC3, 0xA9]) (Some (text_bytes ''(a{2})*.'')) (Some []) = Ok c \<and>
    mimi_regex_capture_groups (Some [0xC3, 0xA9]) (Some (text_bytes ''(a{2})*.'')) = Ok d \<and>
    mimi_regex_find_all (Some [0xC3, 0xA9]) (Some (text_bytes ''(a{2})*.'')) = Ok e"
  by (rule ascii_patterns_never_panic) code_simp

section \<open>Where the code does not do what it says\<close>

text \<open>A character outside ASCII before a brace panics.\<close>

lemma non_ascii_brace_panics:
  "mimi_regex_match (Some (text_bytes ''a'')) (Some ([0xC3, 0xA9] @ text_bytes ''{2}'')) = Err Panic"
  by (simp add: mimi_regex_match_def match_pattern_def MAX_REGEX_PATTERN_LEN_def text_bytes_def) code_simp

text \<open>A pattern outside ASCII does not match itself: its bytes are encoded again, twice.\<close>

lemma non_ascii_reencoded: "prepare [0xC3, 0xA9] = Ok [0xC3, 0x83, 0xC2, 0x83, 0xC3, 0x82, 0xC2, 0xA9]"
  by code_simp


text \<open>The counts of a brace are not optional: the pattern needs the largest one.\<close>

lemma brace_needs_maximum: "prepare (text_bytes ''a{1,3}'') = Ok (text_bytes ''aaa'')"
proof -
  have "parse_usize [49] = Some 1" "parse_usize [51] = Some 3" by (simp_all add: parse_usize_def)
  moreover have "digit_span (text_bytes ''1,3}'') = ([49], text_bytes '',3}'')"
      "starts CHR '','' (text_bytes '',3}'')" "digit_span (drop 1 (text_bytes '',3}'')) = ([51], text_bytes ''}'')"
      "starts CHR ''}'' (text_bytes ''}'')" "drop 1 (text_bytes ''}'') = []"
    by code_simp+
  ultimately have braces: "parse_braces (text_bytes ''1,3}'') = Some (1, 3, [])"
    by (simp add: parse_braces_def)
  have "last_atom [97] = Ok (Some (0, [97]))" by code_simp
  moreover have "text_bytes ''a{1,3}'' = 97 # 123 # text_bytes ''1,3}''" "push_byte 97 = [97]" by code_simp+
  moreover have "ch (CHR 0x5C) = 92" "ch CHR ''{'' = 123" by code_simp+
  moreover have "concat (replicate 2 [97 :: u8]) = [97, 97]" by (simp add: numeral_eq_Suc)
  ultimately have "expand_braces (text_bytes ''a{1,3}'') [] = expand_braces [] [97, 97, 97]"
    using braces by (subst expand_braces.simps, simp, subst expand_braces.simps, simp)
  moreover have "strip_captures [97, 97, 97] = text_bytes ''aaa''" by code_simp
  ultimately show ?thesis by (simp add: prepare_def expand_braces.simps)
qed

text \<open>
  From \<open>2^31\<close> bytes on the cast of the length wraps to a negative number, which reads as a failure: the
  search passes over the match at the start of the text.
\<close>

lemma stars_to_the_end:
  "match_here (Suc (Suc k)) (text_bytes ''a*$'') (replicate n 97) (Suc (Suc b)) = (as_i32 n, b)"
proof -
  have e: "parse_element (text_bytes ''a*$'') = (text_bytes ''*$'', False)" by code_simp
  have s: "\<not> starts CHR ''^'' (text_bytes ''a*$'')" "starts CHR ''*'' (text_bytes ''*$'')"
    "\<not> starts CHR ''+'' (text_bytes ''*$'')" "\<not> starts CHR ''^'' [ch CHR ''$'']" by code_simp+
  have p: "text_bytes ''a*$'' \<noteq> []" "text_bytes ''a*$'' \<noteq> [ch CHR ''$'']" "drop 1 (text_bytes ''*$'') = [ch CHR ''$'']"
    by (simp_all add: text_bytes_def)
  have "fst (elem_match (text_bytes ''a*$'') 97 False)" by code_simp
  then have l: "run_length (text_bytes ''a*$'') False (replicate n 97) = n" by (simp add: run_length_def)
  have "here_loop rec [ch CHR ''$''] [] 0 j = (0, j)" for rec j by (subst here_loop.simps) (simp add: as_i32_def)
  then have "try_counts (match_here (Suc k)) [ch CHR ''$''] (replicate n 97) 0 n (Suc b) = (Some (n, 0), b)"
    using s(4) by (subst try_counts.simps) simp
  then have "here_loop (match_here (Suc k)) (text_bytes ''a*$'') (replicate n 97) 0 (Suc b) = (as_i32 n, b)"
    using e l s p by (subst here_loop.simps) simp
  then show ?thesis using s(1) by (simp only: match_here.simps) simp
qed

lemma long_match_wraps:
  "find_match (replicate (2 ^ 31) 97) (text_bytes ''a*$'') = Ok (Some (1, 2 ^ 31))"
proof -
  define m :: nat where "m = 2 ^ 31 - 1"
  have m: "2 ^ 31 = Suc m" by (simp add: m_def)
  have wrapped: "as_i32 (Suc m) = - (2 ^ 31)" unfolding m [symmetric] by (simp add: as_i32_def)
  have fits: "as_i32 m = int m" by (rule as_i32_id) (simp add: m_def)
  have levels: "REGEX_MAX_DEPTH = Suc (Suc 98)" by (simp add: REGEX_MAX_DEPTH_def)
  have at: "match_at (text_bytes ''a*$'') (replicate n 97) (Suc (Suc b)) = (as_i32 n, b)" for n b
    unfolding levels by (rule stars_to_the_end)
  obtain b where work: "REGEX_MAX_WORK = Suc (Suc (Suc (Suc b)))"
    by (rule that [of 999996]) (simp add: REGEX_MAX_WORK_def)
  have s: "\<not> starts CHR ''^'' (text_bytes ''a*$'')" "prepare (text_bytes ''a*$'') = Ok (text_bytes ''a*$'')" by code_simp+
  have "search 1 False (text_bytes ''a*$'') (replicate m 97) (Suc (Suc b)) = Some (1, 1 + m)"
    by (subst search.simps) (simp add: at fits)
  moreover have "search 0 False (text_bytes ''a*$'') (replicate (Suc m) 97) REGEX_MAX_WORK
      = search 1 False (text_bytes ''a*$'') (replicate m 97) (Suc (Suc b))"
    unfolding work by (subst search.simps) (simp only: at wrapped prod.case, simp)
  ultimately show ?thesis unfolding m using s by (simp add: find_match_def)
qed

text \<open>
  A match that consumes nothing is replaced again and again at the same place until the work is
  spent: a text of one byte becomes half a million copies of the replacement.
\<close>

lemma empty_match_costs_two: "match_at (text_bytes ''a*'') [98] (Suc (Suc b)) = (0, b)"
proof -
  have e: "parse_element (text_bytes ''a*'') = (text_bytes ''*'', False)" by code_simp
  have l: "run_length (text_bytes ''a*'') False [98] = 0" by code_simp
  have s: "\<not> starts CHR ''^'' (text_bytes ''a*'')" "starts CHR ''*'' (text_bytes ''*'')" "\<not> starts CHR ''+'' (text_bytes ''*'')"
    by code_simp+
  have p: "text_bytes ''a*'' \<noteq> []" "text_bytes ''a*'' \<noteq> [ch CHR ''$'']" "drop 1 (text_bytes ''*'') = []"
    by (simp_all add: text_bytes_def)
  have "here_loop rec [] t ti k = (as_i32 ti, k)" for rec t ti k by (subst here_loop.simps) simp
  then have r: "match_here (Suc n) [] t (Suc k) = (0, k)" for n t k by (simp add: starts_def as_i32_def)
  have "try_counts (match_here 99) [] [98] 0 0 (Suc b) = (Some (0, 0), b)"
    using r [of 98] by (subst try_counts.simps) (simp add: numeral_eq_Suc)
  then have "here_loop (match_here 99) (text_bytes ''a*'') [98] 0 (Suc b) = (0, b)"
    using e l s p by (subst here_loop.simps) (simp add: as_i32_def)
  moreover have levels: "REGEX_MAX_DEPTH = Suc 99" by (simp add: REGEX_MAX_DEPTH_def)
  ultimately show ?thesis using s unfolding levels match_here.simps by simp
qed

lemma replace_loop_repeats:
  "replace_loop (text_bytes ''a*'') r [98] (2 * k) res = Ok (res @ concat (replicate k r) @ [98])"
proof (induction k arbitrary: res)
  case 0
  have "utf8_or_empty [98] = [98]" by code_simp
  then show ?case by (subst replace_loop.simps) (simp add: match_here_spent)
next
  case (Suc k)
  have "utf8_or_empty [] = []" by code_simp
  then show ?case using Suc [of "res @ r"] empty_match_costs_two [of "2 * k"]
    by (subst replace_loop.simps) (simp add: byte_slice_def slice_def)
qed

lemma empty_match_repeats:
  "mimi_regex_replace (Some [98]) (Some (text_bytes ''a*'')) (Some r) =
     Ok (Some (concat (replicate 500000 r) @ [98]))"
proof -
  have "prepare (text_bytes ''a*'') = Ok (text_bytes ''a*'')" by code_simp
  then show ?thesis using replace_loop_repeats [of r 500000 "[]"]
    by (simp add: mimi_regex_replace_def MAX_REGEX_PATTERN_LEN_def replace_all_def REGEX_MAX_WORK_def text_bytes_def)
qed

end
