(* ===== verification/Mimi_Fold.thy ===== *)
theory Mimi_Fold
  imports Mimi_Unify
begin

text \<open>
  The shared transformation of types (\<open>src/core/type_folder.rs\<close>): \<open>walk_type\<close> with its folders, the
  collection and the renaming of type variables, and the substitution of named parameters.
\<close>

section \<open>Folders\<close>

text \<open>
  A folder with its state: \<open>fd_node\<close> stands for the methods \<open>fold_name\<close>, \<open>fold_tuple\<close>, ...,
  \<open>fold_leaf\<close>, each the case of its constructor, applied to the node rebuilt from its walked
  children. An annotation is not handed to the folder.
\<close>

record 's folder =
  fd_enter :: "string list \<Rightarrow> 's \<Rightarrow> 's"
  fd_exit :: "'s \<Rightarrow> 's"
  fd_node :: "Type \<Rightarrow> 's \<Rightarrow> Type \<times> 's"

definition default_folder :: "'s folder" where
  "default_folder = \<lparr>fd_enter = (\<lambda>_ s. s), fd_exit = (\<lambda>s. s), fd_node = Pair\<rparr>"

fun walk_list :: "('a \<Rightarrow> 's \<Rightarrow> 'b \<times> 's) \<Rightarrow> 'a list \<Rightarrow> 's \<Rightarrow> 'b list \<times> 's" where
  "walk_list w [] s = ([], s)"
| "walk_list w (x # xs) s = (case w x s of (y, s1) \<Rightarrow> case walk_list w xs s1 of (ys, s2) \<Rightarrow> (y # ys, s2))"

lemma walk_list_cong [fundef_cong]:
  "xs = ys \<Longrightarrow> s = s' \<Longrightarrow> (\<And>x t. x \<in> set ys \<Longrightarrow> f x t = g x t) \<Longrightarrow> walk_list f xs s = walk_list g ys s'"
  by (induction ys arbitrary: xs s s') (auto split: prod.split)

fun forall_params :: "Type \<Rightarrow> string list option" where
  "forall_params (TyForAll ps _) = Some ps"
| "forall_params t = None"

fun is_located :: "Type \<Rightarrow> bool" where
  "is_located (TyLocated _ _) = True"
| "is_located t = False"

function walk_type :: "'s folder \<Rightarrow> Type \<Rightarrow> 's \<Rightarrow> Type \<times> 's" where
  "walk_type f t s =
     (let s = (case forall_params t of Some ps \<Rightarrow> fd_enter f ps s | None \<Rightarrow> s);
          (ks, s) = walk_list (walk_type f) (ty_kids t) s;
          s = (case forall_params t of Some ps \<Rightarrow> fd_exit f s | None \<Rightarrow> s)
      in if is_located t then (ty_with_kids t ks, s) else fd_node f (ty_with_kids t ks) s)"
  by pat_completeness auto
termination
  by (relation "measure (\<lambda>(f, t, s). size t)") (auto dest: size_kids)

declare walk_type.simps [simp del]

section \<open>Type variables\<close>

text \<open>The variables a quantifier binds: the numbers below the count of its parameters.\<close>

definition binder_ids :: "string list \<Rightarrow> u32 set" where
  "binder_ids ps = {i. i < word_of_nat (length ps)}"

definition shadows :: "'a set list \<Rightarrow> 'a \<Rightarrow> bool" where
  "shadows scopes x \<longleftrightarrow> list_ex (\<lambda>scope. x \<in> scope) scopes"

definition collect_vars_folder :: "(u32 list \<times> u32 set list) folder" where
  "collect_vars_folder = \<lparr>
     fd_enter = (\<lambda>ps (vars, shadowed). (vars, binder_ids ps # shadowed)),
     fd_exit = (\<lambda>(vars, shadowed). (vars, drop 1 shadowed)),
     fd_node = (\<lambda>t (vars, shadowed).
       (t, (case t of
              TyTypeVar i \<Rightarrow> (if shadows shadowed i then vars else vars @ [i])
            | _ \<Rightarrow> vars), shadowed))\<rparr>"

definition collect_vars :: "Type \<Rightarrow> u32 list" where
  "collect_vars t = fst (snd (walk_type collect_vars_folder t ([], [])))"

definition remap_folder :: "(u32 \<rightharpoonup> u32) \<Rightarrow> u32 set list folder" where
  "remap_folder mapping = \<lparr>
     fd_enter = (\<lambda>ps shadowed. binder_ids ps # shadowed),
     fd_exit = (\<lambda>shadowed. drop 1 shadowed),
     fd_node = (\<lambda>t shadowed.
       (case t of
          TyTypeVar i \<Rightarrow>
            if shadows shadowed i then TyTypeVar i
            else (case mapping i of Some new_id \<Rightarrow> TyTypeVar new_id | None \<Rightarrow> TyTypeVar i)
        | _ \<Rightarrow> t, shadowed))\<rparr>"

definition remap :: "(u32 \<rightharpoonup> u32) \<Rightarrow> Type \<Rightarrow> Type" where
  "remap mapping t = fst (walk_type (remap_folder mapping) t [])"

section \<open>Named parameters\<close>

text \<open>
  \<open>walk_type\<close> with \<open>NamedSubstitutionFolder\<close>, written out because a replacement is walked again: the
  names being substituted are not replaced once more. The mapping is a finite association list.
\<close>

text \<open>A name without arguments may be a parameter.\<close>

fun parameter_name :: "Type \<Rightarrow> string option" where
  "parameter_name (TyName name []) = Some name"
| "parameter_name t = None"

lemma pending_shrinks:
  assumes "map_of mapping name = Some t" "name \<notin> substituting"
  shows "card (fst ` set mapping - insert name substituting) < card (fst ` set mapping - substituting)"
proof (rule psubset_card_mono)
  have "name \<in> fst ` set mapping" using assms(1) by (auto dest: map_of_SomeD simp: rev_image_eqI)
  then show "fst ` set mapping - insert name substituting \<subset> fst ` set mapping - substituting"
    using assms(2) by auto
qed simp

function subst_named :: "(string \<times> Type) list \<Rightarrow> string set list \<Rightarrow> string set \<Rightarrow> Type \<Rightarrow> Type" where
  "subst_named mapping shadowed substituting t =
     (let scopes = (case forall_params t of Some ps \<Rightarrow> set ps # shadowed | None \<Rightarrow> shadowed);
          t' = ty_with_kids t (map (subst_named mapping scopes substituting) (ty_kids t))
      in case parameter_name t' of
           None \<Rightarrow> t'
         | Some name \<Rightarrow>
             if shadows shadowed name \<or> name \<in> substituting then t'
             else (case map_of mapping name of
                 Some replacement \<Rightarrow> subst_named mapping shadowed (insert name substituting) replacement
               | None \<Rightarrow> t'))"
  by pat_completeness auto
termination
proof (relation "(\<lambda>(m, sh, sub, t). card (fst ` set m - sub)) <*mlex*> measure (\<lambda>(m, sh, sub, t). size t)", goal_cases)
  case 1
  show ?case by (simp add: wf_mlex)
qed (auto simp: mlex_prod_def pending_shrinks dest: size_kids)

declare subst_named.simps [simp del]

section \<open>What the folders compute\<close>

definition ty_binders :: "Type \<Rightarrow> u32 set" where
  "ty_binders t = (case forall_params t of Some ps \<Rightarrow> binder_ids ps | None \<Rightarrow> {})"

fun type_var :: "Type \<Rightarrow> u32 option" where
  "type_var (TyTypeVar i) = Some i"
| "type_var t = None"

text \<open>The free variables in the order of the tree, under the binders of a set.\<close>

function free_vars :: "u32 set \<Rightarrow> Type \<Rightarrow> u32 list" where
  "free_vars B t =
     (case type_var t of
        Some i \<Rightarrow> if i \<in> B then [] else [i]
      | None \<Rightarrow> concat (map (free_vars (B \<union> ty_binders t)) (ty_kids t)))"
  by pat_completeness auto
termination
  by (relation "measure (\<lambda>(B, t). size t)") (auto dest: size_kids)

declare free_vars.simps [simp del]

text \<open>A renaming of the free variables.\<close>

function rename_free :: "(u32 \<Rightarrow> u32) \<Rightarrow> u32 set \<Rightarrow> Type \<Rightarrow> Type" where
  "rename_free \<rho> B t =
     (case type_var t of
        Some i \<Rightarrow> if i \<in> B then t else TyTypeVar (\<rho> i)
      | None \<Rightarrow> ty_with_kids t (map (rename_free \<rho> (B \<union> ty_binders t)) (ty_kids t)))"
  by pat_completeness auto
termination
  by (relation "measure (\<lambda>(\<rho>, B, t). size t)") (auto dest: size_kids)

declare rename_free.simps [simp del]

lemma type_kids_induct [case_names node]:
  assumes "\<And>t. (\<And>k. k \<in> set (ty_kids t) \<Longrightarrow> P k) \<Longrightarrow> P t"
  shows "P t"
proof (induction t rule: measure_induct_rule [where f = size])
  case (less t)
  then show ?case by (auto intro: assms size_kids)
qed

lemma walk_list_map:
  assumes "\<And>x s. x \<in> set xs \<Longrightarrow> w x s = (g x, h x s)"
  shows "walk_list w xs s = (map g xs, fold h xs s)"
  using assms by (induction xs arbitrary: s) auto

lemma shadows_Union: "shadows scopes x \<longleftrightarrow> x \<in> \<Union> (set scopes)"
  by (auto simp: shadows_def list_ex_iff)

lemma walk_default: "walk_type default_folder t s = (t, s)"
proof (induction t arbitrary: s rule: type_kids_induct)
  case (node t)
  have "walk_list (walk_type default_folder) (ty_kids t) s = (map (\<lambda>t. t) (ty_kids t), fold (\<lambda>_ s. s) (ty_kids t) s)"
    by (rule walk_list_map) (rule node)
  moreover have "fold (\<lambda>_ s. s) xs s = s" for xs :: "Type list" by (induction xs) auto
  ultimately show ?case
    by (subst walk_type.simps) (simp add: default_folder_def split: option.split)
qed

text \<open>The collecting walk leaves the type alone and appends the free variables.\<close>

lemma walk_collect:
  "walk_type collect_vars_folder t (vs, sh) = (t, (vs @ free_vars (\<Union> (set sh)) t, sh))"
proof (induction t arbitrary: vs sh rule: type_kids_induct)
  case (node t)
  define sh' where "sh' = (case forall_params t of Some ps \<Rightarrow> binder_ids ps # sh | None \<Rightarrow> sh)"
  have kids: "walk_list (walk_type collect_vars_folder) ks (vs, sh') =
      (ks, (vs @ concat (map (free_vars (\<Union> (set sh'))) ks), sh'))" if "set ks \<subseteq> set (ty_kids t)" for ks vs
    using that by (induction ks arbitrary: vs) (auto simp: node)
  have B: "\<Union> (set sh') = \<Union> (set sh) \<union> ty_binders t"
    by (auto simp: sh'_def ty_binders_def split: option.splits)
  show ?case
    using kids [of "ty_kids t" vs] shadows_Union [of sh]
    by (cases t; subst walk_type.simps; subst free_vars.simps)
      (simp_all add: collect_vars_folder_def sh'_def ty_binders_def Un_commute)
qed

lemma collect_vars_free: "collect_vars t = free_vars {} t"
  by (simp add: collect_vars_def walk_collect)

lemma walk_remap:
  "walk_type (remap_folder m) t sh = (rename_free (\<lambda>i. case m i of Some j \<Rightarrow> j | None \<Rightarrow> i) (\<Union> (set sh)) t, sh)"
proof (induction t arbitrary: sh rule: type_kids_induct)
  case (node t)
  let ?r = "\<lambda>i. case m i of Some j \<Rightarrow> j | None \<Rightarrow> i"
  define sh' where "sh' = (case forall_params t of Some ps \<Rightarrow> binder_ids ps # sh | None \<Rightarrow> sh)"
  have kids: "walk_list (walk_type (remap_folder m)) ks sh' = (map (rename_free ?r (\<Union> (set sh'))) ks, sh')"
    if "set ks \<subseteq> set (ty_kids t)" for ks
    using that by (induction ks) (auto simp: node)
  show ?case
    using kids [of "ty_kids t"] shadows_Union [of sh]
    by (cases t; subst walk_type.simps; subst rename_free.simps)
      (simp_all add: remap_folder_def sh'_def ty_binders_def Un_commute split: option.split)
qed

lemma remap_renames: "remap m t = rename_free (\<lambda>i. case m i of Some j \<Rightarrow> j | None \<Rightarrow> i) {} t"
  by (simp add: remap_def walk_remap)

text \<open>A renaming into variables that no quantifier of the type binds renames the free variables.\<close>

function all_binders :: "Type \<Rightarrow> u32 set" where
  "all_binders t = ty_binders t \<union> \<Union> (all_binders ` set (ty_kids t))"
  by pat_completeness auto
termination
  by (relation "measure size") (auto dest: size_kids)

declare all_binders.simps [simp del]

lemma rename_keeps_node:
  assumes "type_var t = None"
  shows "type_var (ty_with_kids t ks) = None" and "ty_binders (ty_with_kids t ks) = ty_binders t"
  using assms by (cases t; simp add: ty_binders_def)+

lemma type_var_kids: "type_var t = Some i \<Longrightarrow> t = TyTypeVar i"
  by (cases t) auto

lemma rename_free_vars:
  "\<forall>i\<in>set (free_vars B t). \<rho> i \<notin> B \<union> all_binders t \<Longrightarrow>
    free_vars B (rename_free \<rho> B t) = map \<rho> (free_vars B t)"
proof (induction t arbitrary: B rule: type_kids_induct)
  case (node t)
  show ?case
  proof (cases "type_var t")
    case (Some i)
    then have t: "t = TyTypeVar i" by (rule type_var_kids)
    then show ?thesis using node.prems by (subst rename_free.simps, subst (1 2) free_vars.simps)
        (auto simp: free_vars.simps [of B "TyTypeVar i"])
  next
    case None
    let ?B = "B \<union> ty_binders t"
    have fv: "free_vars B t = concat (map (free_vars ?B) (ty_kids t))"
      by (subst free_vars.simps) (simp add: None)
    have kid: "free_vars ?B (rename_free \<rho> ?B k) = map \<rho> (free_vars ?B k)" if "k \<in> set (ty_kids t)" for k
    proof (rule node.IH [OF that], rule ballI)
      fix i assume "i \<in> set (free_vars ?B k)"
      then have "i \<in> set (free_vars B t)" using that by (auto simp: fv)
      then have "\<rho> i \<notin> B \<union> all_binders t" using node.prems by blast
      then show "\<rho> i \<notin> ?B \<union> all_binders k" using that by (subst (asm) all_binders.simps) auto
    qed
    have "rename_free \<rho> B t = ty_with_kids t (map (rename_free \<rho> ?B) (ty_kids t))"
      by (subst rename_free.simps) (simp add: None)
    then have "free_vars B (rename_free \<rho> B t) = concat (map (free_vars ?B) (map (rename_free \<rho> ?B) (ty_kids t)))"
      using rename_keeps_node [OF None] by (subst free_vars.simps) (simp add: ty_with_kids_views)
    also have "\<dots> = concat (map (\<lambda>k. map \<rho> (free_vars ?B k)) (ty_kids t))"
      using kid by (simp add: comp_def cong: map_cong)
    finally show ?thesis by (simp add: fv map_concat comp_def)
  qed
qed


section \<open>Chains of named parameters\<close>

definition param_names :: "Type \<Rightarrow> string set" where
  "param_names t = {n. subtype_of (TyName n []) t}"

definition quantified_names :: "Type \<Rightarrow> string set" where
  "quantified_names t = {n. \<exists>ps b. subtype_of (TyForAll ps b) t \<and> n \<in> set ps}"

lemma param_names_kids:
  "param_names t = {n. parameter_name t = Some n} \<union> (\<Union>k\<in>set (ty_kids t). param_names k)"
proof -
  have "t = TyName n [] \<longleftrightarrow> parameter_name t = Some n" for n by (cases t rule: parameter_name.cases) auto
  moreover have "n \<in> param_names t \<longleftrightarrow> (\<exists>s. subtype_of s t \<and> s = TyName n [])" for n
    by (simp add: param_names_def)
  ultimately show ?thesis
    by (intro set_eqI) (simp add: subtype_of_split [of t "\<lambda>s. s = TyName n []" for n] param_names_def)
qed

lemma quantified_names_kids:
  "quantified_names t =
     (case forall_params t of Some ps \<Rightarrow> set ps | None \<Rightarrow> {}) \<union> (\<Union>k\<in>set (ty_kids t). quantified_names k)"
proof (rule set_eqI)
  fix n
  let ?P = "\<lambda>s. \<exists>ps b. s = TyForAll ps b \<and> n \<in> set ps"
  have "n \<in> quantified_names t \<longleftrightarrow> (\<exists>s. subtype_of s t \<and> ?P s)" for t
    by (auto simp: quantified_names_def)
  moreover have "?P t \<longleftrightarrow> n \<in> (case forall_params t of Some ps \<Rightarrow> set ps | None \<Rightarrow> {})"
    by (cases t) auto
  ultimately show "n \<in> quantified_names t \<longleftrightarrow>
      n \<in> (case forall_params t of Some ps \<Rightarrow> set ps | None \<Rightarrow> {}) \<union> (\<Union>k\<in>set (ty_kids t). quantified_names k)"
    using subtype_of_split [of t ?P] by simp
qed

lemma quantified_names_kid: "k \<in> set (ty_kids t) \<Longrightarrow> quantified_names k \<subseteq> quantified_names t"
  by (auto simp: quantified_names_def intro: subtype_kid)

lemma quantified_names_own: "forall_params t = Some ps \<Longrightarrow> set ps \<subseteq> quantified_names t"
  by (cases t) (auto simp: quantified_names_def intro: subtype_self)

lemma parameter_name_kids:
  "length ks = length (ty_kids t) \<Longrightarrow> parameter_name (ty_with_kids t ks) = parameter_name t"
  by (cases t rule: parameter_name.cases; cases ks) auto

text \<open>
  A mapping whose replacements mention mapped names of lower rank only, and whose names no quantifier
  binds.
\<close>

definition acyclic_mapping :: "(string \<Rightarrow> nat) \<Rightarrow> (string \<times> Type) list \<Rightarrow> bool" where
  "acyclic_mapping rank m \<longleftrightarrow>
     (\<forall>(n, rep)\<in>set m. quantified_names rep \<inter> dom (map_of m) = {} \<and>
        (\<forall>n'\<in>param_names rep \<inter> dom (map_of m). rank n' < rank n))"

lemma subst_named_resolves:
  assumes "acyclic_mapping rank m" "quantified_names t \<inter> dom (map_of m) = {}"
    and "\<forall>n\<in>dom (map_of m). \<not> shadows sh n"
    and "\<forall>n\<in>param_names t \<inter> dom (map_of m). \<forall>s\<in>S. rank n < rank s"
  shows "param_names (subst_named m sh S t) \<inter> dom (map_of m) = {}"
  using assms
proof (induction m sh S t rule: subst_named.induct)
  case (1 m sh S t)
  let ?d = "dom (map_of m)"
  define sh' where "sh' = (case forall_params t of Some ps \<Rightarrow> set ps # sh | None \<Rightarrow> sh)"
  let ?ks = "map (subst_named m sh' S) (ty_kids t)"
  let ?t = "ty_with_kids t ?ks"
  have name: "parameter_name ?t = parameter_name t" by (simp add: parameter_name_kids)
  have scopes: "\<forall>n\<in>?d. \<not> shadows sh' n"
    using "1.prems"(2,3) quantified_names_own [of t]
    by (auto simp: sh'_def shadows_def split: option.splits)
  have kids: "param_names (subst_named m sh' S k) \<inter> ?d = {}" if "k \<in> set (ty_kids t)" for k
  proof (rule "1.IH"(1) [OF sh'_def that])
    show "quantified_names k \<inter> ?d = {}" using "1.prems"(2) quantified_names_kid [OF that] by blast
    show "\<forall>n\<in>param_names k \<inter> ?d. \<forall>s\<in>S. rank n < rank s"
      using "1.prems"(4) that unfolding param_names_kids [of t] by blast
  qed (use "1.prems"(1) scopes in auto)
  have names: "param_names ?t \<inter> ?d = {n. parameter_name t = Some n} \<inter> ?d"
    unfolding param_names_kids [of ?t] using kids by (auto simp: name ty_with_kids_views)
  show ?case
  proof (cases "\<exists>n rep. parameter_name t = Some n \<and> map_of m n = Some rep")
    case False
    then have "param_names ?t \<inter> ?d = {}" unfolding names by auto
    moreover have "subst_named m sh S t = ?t"
      using False by (subst subst_named.simps) (auto simp: Let_def sh'_def [symmetric] name split: option.split)
    ultimately show ?thesis by simp
  next
    case True
    then obtain n rep where n: "parameter_name t = Some n" "map_of m n = Some rep" by blast
    then have mem: "n \<in> param_names t" "n \<in> ?d" "(n, rep) \<in> set m"
      unfolding param_names_kids [of t] by (auto dest: map_of_SomeD)
    then have free: "\<not> shadows sh n" "n \<notin> S" using "1.prems"(3,4) by auto
    have "subst_named m sh S t = subst_named m sh (insert n S) rep"
      using n free by (subst subst_named.simps) (simp add: Let_def sh'_def [symmetric] name)
    moreover have "param_names (subst_named m sh (insert n S) rep) \<inter> ?d = {}"
    proof (rule "1.IH"(2) [OF sh'_def refl _ _ n(2)])
      show "parameter_name ?t = Some n" using n(1) name by simp
      show "\<not> (shadows sh n \<or> n \<in> S)" using free by simp
      have rep: "quantified_names rep \<inter> ?d = {}" "\<forall>n'\<in>param_names rep \<inter> ?d. rank n' < rank n"
        using bspec [OF "1.prems"(1) [unfolded acyclic_mapping_def] mem(3)] by simp_all
      show "quantified_names rep \<inter> ?d = {}" by (rule rep)
      have "rank n < rank s" if "s \<in> S" for s using "1.prems"(4) mem that by blast
      then show "\<forall>n'\<in>param_names rep \<inter> ?d. \<forall>s\<in>insert n S. rank n' < rank s"
        using rep(2) by (auto intro: order.strict_trans)
    qed (use "1.prems"(1,3) in auto)
    ultimately show ?thesis by simp
  qed
qed

text \<open>
  Substituting named parameters follows chains to the end: for a mapping without a cycle, whose
  names no quantifier binds, no mapped parameter is left in the result, however the entries refer to
  each other. (The function itself returns for every mapping, cyclic or not.)
\<close>
theorem subst_named_follows_chains:
  assumes "acyclic_mapping rank m" "quantified_names t \<inter> dom (map_of m) = {}"
  shows "param_names (subst_named m [] {} t) \<inter> dom (map_of m) = {}"
  by (rule subst_named_resolves [OF assms]) (simp_all add: shadows_def)

theorem subst_named_follows_chains_witness:
  "param_names (subst_named [(''T'', TyOption (TyName ''U'' [])), (''U'', TyName ''i32'' [])] [] {}
     (TyTuple [TyName ''T'' [], TyName ''U'' []])) \<inter> {''T'', ''U''} = {}"
proof -
  let ?m = "[(''T'', TyOption (TyName ''U'' [])), (''U'', TyName ''i32'' [])]"
  let ?rank = "\<lambda>n. if n = ''T'' then 1 else (0::nat)"
  have names: "param_names (TyName n []) = {n}" "param_names (TyOption (TyName n [])) = {n}" for n
    by (simp_all add: param_names_kids [of "TyName n []"] param_names_kids [of "TyOption k" for k])
  have open_types: "quantified_names (TyName n []) = {}" "quantified_names (TyOption (TyName n [])) = {}"
    "quantified_names (TyTuple [TyName n [], TyName k []]) = {}" for n k
    by (simp_all add: quantified_names_kids [of "TyName n []" for n] quantified_names_kids [of "TyOption t" for t]
      quantified_names_kids [of "TyTuple ts" for ts])
  have "acyclic_mapping ?rank ?m"
    by (simp add: acyclic_mapping_def names open_types)
  moreover have "quantified_names (TyTuple [TyName ''T'' [], TyName ''U'' []]) \<inter> dom (map_of ?m) = {}"
    by (simp add: open_types)
  ultimately have "param_names (subst_named ?m [] {} (TyTuple [TyName ''T'' [], TyName ''U'' []])) \<inter> dom (map_of ?m) = {}"
    by (rule subst_named_follows_chains)
  moreover have "dom (map_of ?m) = {''T'', ''U''}" by auto
  ultimately show ?thesis by simp
qed

end
