(* ===== verification/Mimi_Phase.thy ===== *)
theory Mimi_Phase
  imports Mimi_Fold
begin

text \<open>
  The phases of a type (\<open>src/core/phase.rs\<close>): written by the user, under inference, resolved, and
  ready for a backend; the type schemes of polymorphic definitions.
\<close>

section \<open>Predicates on types\<close>

definition infer_artifact :: "Type \<Rightarrow> bool" where
  "infer_artifact t =
     (case t of
        TyTypeVar _ \<Rightarrow> True
      | TyForAll _ _ \<Rightarrow> True
      | TyInfer \<Rightarrow> True
      | TyTyErr \<Rightarrow> True
      | TyName n _ \<Rightarrow> n = ''_'' \<or> n = ''unknown''
      | _ \<Rightarrow> False)"

definition contains_infer_artifacts :: "Type \<Rightarrow> bool" where
  "contains_infer_artifacts t = type_any infer_artifact t"

definition contains_inference_variables :: "Type \<Rightarrow> bool" where
  "contains_inference_variables t =
     type_any (\<lambda>t. case t of TyTypeVar _ \<Rightarrow> True | TyForAll _ _ \<Rightarrow> True | _ \<Rightarrow> False) t"

definition is_any :: "Type \<Rightarrow> bool" where
  "is_any t = (case t of TyName n _ \<Rightarrow> n = ''Any'' | _ \<Rightarrow> False)"

function contains_dynamic_type :: "Type \<Rightarrow> bool" where
  "contains_dynamic_type t = (is_any t \<or> list_ex contains_dynamic_type (ty_kids t))"
  by pat_completeness auto
termination
  by (relation "measure size") (auto dest: size_kids)

declare contains_dynamic_type.simps [simp del]

section \<open>Phases\<close>

datatype SurfaceTy = SurfaceTy (surface_type: Type)

datatype InferTy = InferTy (infer_type: Type)

datatype ZonkedTy = ZonkedTy (zonked_type: Type)

datatype BackendTy = BackendTy (backend_type: Type)

definition surface_new :: "Type \<Rightarrow> ResolveError + SurfaceTy" where
  "surface_new ty =
     (if contains_inference_variables ty
      then Err (ReDepthOverflow ''surface type contains checker-only TypeVar/ForAll'')
      else Ok (SurfaceTy ty))"

definition into_infer :: "SurfaceTy \<Rightarrow> InferTy" where
  "into_infer s = InferTy (surface_type s)"

definition infer_from_type :: "Type \<Rightarrow> InferTy" where
  "infer_from_type ty = InferTy ty"

definition into_surface :: "InferTy \<Rightarrow> string + SurfaceTy" where
  "into_surface i =
     (if contains_infer_artifacts (infer_type i)
      then Err ''type still contains inference artifacts (TypeVar/ForAll)''
      else Ok (SurfaceTy (infer_type i)))"

definition from_resolved :: "Type \<Rightarrow> ResolveError + ZonkedTy" where
  "from_resolved ty = (case scan_residual ty of Err e \<Rightarrow> Err e | Ok _ \<Rightarrow> Ok (ZonkedTy ty))"

definition from_infer :: "InferTy \<Rightarrow> (ResolveError, ZonkedTy) table_op" where
  "from_infer i = op_bind (zonk (infer_type i)) (\<lambda>ty. op_return (ZonkedTy ty))"

text \<open>The variables that are still unbound become the empty type.\<close>

definition complete_uninhabited :: "unit folder" where
  "complete_uninhabited =
     default_folder\<lparr>fd_node := (\<lambda>t s. (case t of TyTypeVar _ \<Rightarrow> TyNothing | _ \<Rightarrow> t, s))\<rparr>"

definition from_expression_type :: "Type \<Rightarrow> (ResolveError, ZonkedTy) table_op" where
  "from_expression_type ty =
     op_bind (resolve_infer ty) (\<lambda>resolved.
       case from_resolved (fst (walk_type complete_uninhabited resolved ())) of
         Err e \<Rightarrow> op_fail e
       | Ok z \<Rightarrow> op_return z)"

datatype BackendProfile = Interpreter | Native | Verifier | Component

datatype BackendTypeError = UnsupportedDynamicValue BackendProfile

definition from_zonked :: "ZonkedTy \<Rightarrow> BackendProfile \<Rightarrow> BackendTypeError + BackendTy" where
  "from_zonked z profile =
     (if contains_dynamic_type (zonked_type z) \<and> profile \<noteq> Interpreter
      then Err (UnsupportedDynamicValue profile)
      else Ok (BackendTy (zonked_type z)))"

section \<open>Type schemes\<close>

record TypeScheme =
  sc_binders :: "u32 list"
  sc_body :: Type

definition scheme_new :: "u32 list \<Rightarrow> Type \<Rightarrow> ResolveError + TypeScheme" where
  "scheme_new binders body =
     (case find (\<lambda>v. v \<notin> set binders) (collect_vars body) of
        Some unbound \<Rightarrow> Err (ReUnboundVar unbound)
      | None \<Rightarrow> Ok \<lparr>sc_binders = binders, sc_body = body\<rparr>)"

definition scheme_mono :: "Type \<Rightarrow> TypeScheme" where
  "scheme_mono body = \<lparr>sc_binders = [], sc_body = body\<rparr>"

text \<open>One fresh variable per binder; running out of them is a panic, here \<open>None\<close>.\<close>

fun fresh_pairs :: "u32 list \<Rightarrow> UnificationTable \<Rightarrow> ((u32 \<times> u32) list \<times> UnificationTable) option" where
  "fresh_pairs [] t = Some ([], t)"
| "fresh_pairs (b # bs) t =
     (case fresh_var t of
        None \<Rightarrow> None
      | Some (i, t1) \<Rightarrow>
          (case fresh_pairs bs t1 of None \<Rightarrow> None | Some (pairs, t2) \<Rightarrow> Some ((b, i) # pairs, t2)))"

text \<open>A binder that occurs twice keeps the later variable, as \<open>collect\<close> builds the map.\<close>

definition scheme_instantiate :: "TypeScheme \<Rightarrow> UnificationTable \<Rightarrow> (InferTy \<times> UnificationTable) option" where
  "scheme_instantiate s t =
     (case fresh_pairs (sc_binders s) t of
        None \<Rightarrow> None
      | Some (pairs, t') \<Rightarrow> Some (infer_from_type (remap (map_of (rev pairs)) (sc_body s)), t'))"

section \<open>Instances of a scheme\<close>

lemma checked_succ:
  assumes "checked_add (n :: u32) 1 = Some m"
  shows "m = n + 1 \<and> n < n + 1"
proof -
  have u: "unat m = Suc (unat n)" using assms by (intro checked_add_one_Some) simp_all
  have "m = word_of_nat (unat m)" by simp
  also have "\<dots> = n + 1" unfolding u by simp
  finally have "m = n + 1" .
  then show ?thesis using u by (simp add: word_less_nat_alt)
qed

lemma fresh_var_next:
  assumes "fresh_var t = Some (i, t')"
  shows "i = ut_next_var t" and "ut_next_var t' = i + 1" and "i < i + 1" and "ut_binding t' = ut_binding t"
  using assms
  by (auto simp: fresh_var_def Let_def record_undo_def set_parent_def dest!: checked_succ
    split: option.splits if_splits)

text \<open>The variables of a run of \<open>fresh_var\<close> lie between the counter before and after, and differ.\<close>

lemma fresh_pairs_range:
  "fresh_pairs bs t = Some (pairs, t') \<Longrightarrow>
    map fst pairs = bs \<and> ut_next_var t \<le> ut_next_var t' \<and> ut_binding t' = ut_binding t \<and>
    distinct (map snd pairs) \<and> (\<forall>i\<in>set (map snd pairs). ut_next_var t \<le> i \<and> i < ut_next_var t')"
proof (induction bs arbitrary: t pairs)
  case (Cons b bs)
  obtain i t1 ps where f: "fresh_var t = Some (i, t1)" and r: "fresh_pairs bs t1 = Some (ps, t')"
    and p: "pairs = (b, i) # ps"
    using Cons.prems by (auto split: option.splits)
  note n = fresh_var_next [OF f]
  have ih: "map fst ps = bs" "ut_next_var t1 \<le> ut_next_var t'" "ut_binding t' = ut_binding t1" "distinct (map snd ps)"
      "\<forall>j\<in>set (map snd ps). ut_next_var t1 \<le> j \<and> j < ut_next_var t'"
    using Cons.IH [OF r] by blast+
  have lt: "i < ut_next_var t1" using n by simp
  moreover have "i \<notin> set (map snd ps)" using ih(5) lt by (auto dest: leD)
  ultimately show ?case using p n(1,4) ih
    by (auto intro: order.strict_implies_order less_le_trans)
qed simp


lemma map_of_rev_hits:
  assumes "map fst pairs = bs" "b \<in> set bs"
  shows "\<exists>i. map_of (rev pairs) b = Some i \<and> i \<in> set (map snd pairs)"
proof -
  have "map_of (rev pairs) b \<noteq> None" using assms by (auto simp: map_of_eq_None_iff image_iff)
  then obtain i where "map_of (rev pairs) b = Some i" by blast
  moreover from this have "i \<in> set (map snd pairs)" by (force dest: map_of_SomeD)
  ultimately show ?thesis by blast
qed

lemma scheme_new_closed:
  "scheme_new binders body = Ok s \<Longrightarrow> s = \<lparr>sc_binders = binders, sc_body = body\<rparr> \<and> set (free_vars {} body) \<subseteq> set binders"
  by (auto simp: scheme_new_def collect_vars_free find_None_iff split: option.splits)

lemma instance_vars:
  assumes "scheme_new binders body = Ok s" "scheme_instantiate s t = Some (InferTy a, t')"
    and "all_binders body \<subseteq> {i. i < ut_next_var t}"
  shows "set (free_vars {} a) \<subseteq> {i. ut_next_var t \<le> i \<and> i < ut_next_var t'}"
    and "ut_next_var t \<le> ut_next_var t'" and "ut_binding t' = ut_binding t"
    and "\<exists>\<rho>. a = rename_free \<rho> {} body \<and> free_vars {} a = map \<rho> (free_vars {} body) \<and> inj_on \<rho> (set binders)"
proof -
  note s = scheme_new_closed [OF assms(1)]
  obtain pairs where f: "fresh_pairs binders t = Some (pairs, t')" and a: "a = remap (map_of (rev pairs)) body"
    using assms(2) s by (auto simp: scheme_instantiate_def infer_from_type_def split: option.splits)
  have r: "map fst pairs = binders" "ut_next_var t \<le> ut_next_var t'" "ut_binding t' = ut_binding t"
      "distinct (map snd pairs)" "\<forall>i\<in>set (map snd pairs). ut_next_var t \<le> i \<and> i < ut_next_var t'"
    using fresh_pairs_range [OF f] by blast+
  define \<rho> where "\<rho> = (\<lambda>i. case map_of (rev pairs) i of Some j \<Rightarrow> j | None \<Rightarrow> i)"
  have hit: "\<rho> b \<in> set (map snd pairs)" if "b \<in> set binders" for b
    using map_of_rev_hits [OF r(1) that] unfolding \<rho>_def by (elim exE conjE) (simp only: option.case)
  have "\<rho> i \<notin> {} \<union> all_binders body" if "i \<in> set (free_vars {} body)" for i
  proof -
    have "ut_next_var t \<le> \<rho> i" using that s hit r(5) by blast
    then show ?thesis using assms(3) by (auto dest: leD)
  qed
  then have fv: "free_vars {} a = map \<rho> (free_vars {} body)"
    unfolding a remap_renames \<rho>_def [symmetric] by (intro rename_free_vars) blast
  show "set (free_vars {} a) \<subseteq> {i. ut_next_var t \<le> i \<and> i < ut_next_var t'}"
    using fv s hit r(5) by fastforce
  show "ut_next_var t \<le> ut_next_var t'" "ut_binding t' = ut_binding t" using r by blast+
  have "inj_on \<rho> (set binders)"
  proof (rule inj_onI)
    fix x y assume xy: "x \<in> set binders" "y \<in> set binders" "\<rho> x = \<rho> y"
    obtain i j where "map_of (rev pairs) x = Some i" "map_of (rev pairs) y = Some j"
      using map_of_rev_hits [OF r(1)] xy(1,2) by blast
    then have "(x, i) \<in> set pairs" "(y, j) \<in> set pairs" "i = j"
      using xy(3) by (auto simp: \<rho>_def dest: map_of_SomeD)
    moreover have "inj_on snd (set pairs)" using r(4) by (simp add: distinct_map)
    ultimately have "(x, i) = (y, i)" using inj_onD [of snd "set pairs" "(x, i)" "(y, i)"] by simp
    then show "x = y" by simp
  qed
  then show "\<exists>\<rho>. a = rename_free \<rho> {} body \<and> free_vars {} a = map \<rho> (free_vars {} body) \<and> inj_on \<rho> (set binders)"
    using fv a remap_renames \<rho>_def by blast
qed

text \<open>
  C40: A scheme that \<open>TypeScheme::new\<close> accepts is closed, whether or not a binder is repeated, and
  its instances are independent: an instance is the body with its variables renamed one to one into
  variables from the table's counter on, the instantiation binds no variable, and an instance shares no
  variable with any instance made later, from a table whose counter has not fallen behind the one the
  first instantiation left. The quantifiers inside the body must bind numbers below the counter
  (\<open>instance_captured\<close> shows why), and running out of variables, a panic of the code, is excluded.
\<close>

theorem scheme_instances_independent:
  assumes "scheme_new binders body = Ok s"
    and "scheme_instantiate s t = Some (InferTy a, t1)" "scheme_instantiate s t' = Some (InferTy b, t2)"
    and "ut_next_var t1 \<le> ut_next_var t'"
    and "all_binders body \<subseteq> {i. i < ut_next_var t}"
  shows "set (free_vars {} body) \<subseteq> set binders \<and>
    (\<exists>\<rho>. a = rename_free \<rho> {} body \<and> free_vars {} a = map \<rho> (free_vars {} body) \<and> inj_on \<rho> (set binders)) \<and>
    (\<forall>i\<in>set (free_vars {} a). ut_next_var t \<le> i) \<and>
    set (free_vars {} a) \<inter> set (free_vars {} b) = {} \<and> ut_binding t1 = ut_binding t"
proof -
  note a = instance_vars [OF assms(1,2,5)]
  have le: "ut_next_var t \<le> ut_next_var t'" using a(2) assms(4) by simp
  have "all_binders body \<subseteq> {i. i < ut_next_var t'}" using assms(5) le by (auto intro: less_le_trans)
  note b = instance_vars [OF assms(1,3) this]
  have "i < ut_next_var t'" if "i \<in> set (free_vars {} a)" for i
    using a(1) that assms(4) by (auto intro: less_le_trans)
  then have "set (free_vars {} a) \<inter> set (free_vars {} b) = {}" using b(1) by (auto dest: leD)
  then show ?thesis using a scheme_new_closed [OF assms(1)] by auto
qed

definition pair_scheme :: TypeScheme where
  "pair_scheme = \<lparr>sc_binders = [0, 1], sc_body = TyTuple [TyTypeVar 0, TyTypeVar 1]\<rparr>"

theorem scheme_instances_independent_witness:
  "\<exists>a b t1 t2. scheme_instantiate pair_scheme ut_new = Some (InferTy a, t1) \<and>
    scheme_instantiate pair_scheme t1 = Some (InferTy b, t2) \<and> set (free_vars {} a) \<inter> set (free_vars {} b) = {}"
proof -
  let ?body = "TyTuple [TyTypeVar 0, TyTypeVar 1]"
  have s: "scheme_new [0, 1] ?body = Ok pair_scheme"
    by (simp add: scheme_new_def collect_vars_free pair_scheme_def free_vars.simps ty_binders_def)
  have "all_binders (TyTypeVar i) = {}" for i by (subst all_binders.simps) (simp add: ty_binders_def)
  then have bs: "all_binders ?body \<subseteq> {i. i < ut_next_var ut_new}"
    by (subst all_binders.simps) (simp add: ty_binders_def)
  have steps: "\<exists>i t'. fresh_var t = Some (i, t') \<and> ut_next_var t' = k + 1" if "ut_next_var t = k" "k < 100" for t k
  proof -
    have "\<exists>m. checked_add k 1 = Some m" using that(2) by (simp add: checked_add_def word_less_nat_alt)
    then show ?thesis using that(1) by (auto simp: fresh_var_def Let_def record_undo_def set_parent_def dest: checked_succ)
  qed
  have run: "\<exists>a t'. scheme_instantiate pair_scheme t = Some (InferTy a, t') \<and> ut_next_var t' = k + 2"
    if "ut_next_var t = k" "k < 50" for t k
  proof -
    have "k < 100" using order.strict_trans [OF that(2), of 100] by simp
    then have "\<exists>i t'. fresh_var t = Some (i, t') \<and> ut_next_var t' = k + 1" by (rule steps [OF that(1)])
    then obtain i t1 where 1: "fresh_var t = Some (i, t1)" "ut_next_var t1 = k + 1" by blast
    have "k + 1 < 100" using that(2) by unat_arith
    then obtain j t2 where 2: "fresh_var t1 = Some (j, t2)" "ut_next_var t2 = k + 1 + 1" using steps [OF 1(2)] by blast
    show ?thesis using 1 2 by (auto simp: scheme_instantiate_def pair_scheme_def infer_from_type_def)
  qed
  have "ut_next_var ut_new = 0" by (simp add: ut_new_def)
  then obtain a t1 where 1: "scheme_instantiate pair_scheme ut_new = Some (InferTy a, t1)" "ut_next_var t1 = 2"
    using run [of ut_new 0] by auto
  then obtain b t2 where 2: "scheme_instantiate pair_scheme t1 = Some (InferTy b, t2)"
    using run [of t1 2] by auto
  from scheme_instances_independent [OF s 1(1) 2 order.refl bs] 1 2 show ?thesis by blast
qed

text \<open>
  A quantifier inside the body captures a fresh variable whose number it binds: the instance of this
  scheme in an empty table has no free variable left.
\<close>

lemma instance_captured:
  "scheme_new [5] (TyForAll [''U''] (TyTypeVar 5)) =
     Ok \<lparr>sc_binders = [5], sc_body = TyForAll [''U''] (TyTypeVar 5)\<rparr>"
  "map_option fst (scheme_instantiate \<lparr>sc_binders = [5], sc_body = TyForAll [''U''] (TyTypeVar 5)\<rparr> ut_new) =
     Some (InferTy (TyForAll [''U''] (TyTypeVar 0)))"
  "free_vars {} (TyForAll [''U''] (TyTypeVar 5)) = [5] \<and> free_vars {} (TyForAll [''U''] (TyTypeVar 0)) = []"
    apply (simp add: scheme_new_def collect_vars_free free_vars.simps ty_binders_def binder_ids_def)
   apply (simp add: scheme_instantiate_def fresh_var_def Let_def record_undo_def ut_new_def checked_add_def remap_renames
    rename_free.simps ty_binders_def binder_ids_def infer_from_type_def)
  apply (simp add: free_vars.simps ty_binders_def binder_ids_def)
  done


section \<open>What reaches a backend\<close>

function completed :: "Type \<Rightarrow> Type" where
  "completed t = (if type_var t \<noteq> None then TyNothing else ty_with_kids t (map completed (ty_kids t)))"
  by pat_completeness auto
termination
  by (relation "measure size") (auto dest: size_kids)

declare completed.simps [simp del]

lemma walk_complete: "walk_type complete_uninhabited t u = (completed t, u)"
proof (induction t arbitrary: u rule: type_kids_induct)
  case (node t)
  have "walk_list (walk_type complete_uninhabited) (ty_kids t) u' = (map completed (ty_kids t), fold (\<lambda>_ u. u) (ty_kids t) u')" for u'
    by (rule walk_list_map) (rule node)
  moreover have "fold (\<lambda>_ u. u) ks u' = u'" for ks :: "Type list" and u' :: unit by simp
  ultimately show ?case
    by (subst walk_type.simps, subst completed.simps)
      (cases t; simp add: complete_uninhabited_def default_folder_def)
qed

text \<open>A property of a node's own part holds somewhere in the completed type as in the type, variables apart.\<close>

lemma completed_nodes:
  assumes own: "\<And>t ks. length ks = length (ty_kids t) \<Longrightarrow> bad (ty_with_kids t ks) \<longleftrightarrow> bad t"
    and empty: "\<not> bad TyNothing"
  shows "(\<exists>s. subtype_of s (completed t) \<and> bad s) \<longleftrightarrow> (\<exists>s. subtype_of s t \<and> bad s \<and> type_var s = None)"
proof (induction t rule: type_kids_induct)
  case (node t)
  show ?case
  proof (cases "type_var t")
    case (Some i)
    then have t: "t = TyTypeVar i" by (rule type_var_kids)
    have "completed t = TyNothing" by (subst completed.simps) (simp add: Some)
    moreover have "\<not> (\<exists>s. subtype_of s TyNothing \<and> bad s)"
      using empty unfolding subtype_of_split [of TyNothing bad] by simp
    moreover have "\<not> (\<exists>s. subtype_of s t \<and> bad s \<and> type_var s = None)"
      unfolding subtype_of_split [of t "\<lambda>s. bad s \<and> type_var s = None"] by (simp add: t)
    ultimately show ?thesis by metis
  next
    case None
    have c: "completed t = ty_with_kids t (map completed (ty_kids t))" by (subst completed.simps) (simp add: None)
    have "(\<exists>s. subtype_of s (completed t) \<and> bad s) \<longleftrightarrow>
        bad t \<or> (\<exists>k\<in>set (ty_kids t). \<exists>s. subtype_of s (completed k) \<and> bad s)"
      using subtype_of_split [of "completed t" bad] by (simp add: c own ty_with_kids_views)
    also have "\<dots> \<longleftrightarrow> (\<exists>s. subtype_of s t \<and> bad s \<and> type_var s = None)"
      using subtype_of_split [of t "\<lambda>s. bad s \<and> type_var s = None"] node None by auto
    finally show ?thesis .
  qed
qed

lemma residual_own_part:
  "length ks = length (ty_kids t) \<Longrightarrow> is_ok (residual_node (ty_with_kids t ks)) \<longleftrightarrow> is_ok (residual_node t)"
  by (cases t) (auto simp: residual_node_def)

lemma contains_dynamic_iff: "contains_dynamic_type t \<longleftrightarrow> (\<exists>s. subtype_of s t \<and> is_any s)"
proof (induction t rule: type_kids_induct)
  case (node t)
  then show ?case using subtype_of_split [of t is_any]
    by (subst contains_dynamic_type.simps) (simp add: list_ex_iff)
qed

text \<open>
  C39: The type of an expression that is finished has no inference variable, placeholder, quantifier or
  error left in it, and the backend receives exactly this type, without \<open>Any\<close> unless it is the
  interpreter. Unbound variables are never the reason for a rejection: a type that resolves is
  rejected exactly when it still has one of the other residues.
\<close>
theorem finished_expression_types:
  assumes "resolve_infer ty t = Some (Ok resolved, t')"
  shows "\<exists>r. from_expression_type ty t = Some (r, t') \<and>
    (is_ok r \<longleftrightarrow> (\<forall>s. subtype_of s resolved \<longrightarrow> is_ok (residual_node s) \<or> type_var s \<noteq> None)) \<and>
    (case r of Err e \<Rightarrow> True | Ok z \<Rightarrow>
       (\<forall>s. subtype_of s (zonked_type z) \<longrightarrow> is_ok (residual_node s)) \<and>
       (\<forall>p b. from_zonked z p = Ok b \<longrightarrow>
          backend_type b = zonked_type z \<and> (p = Interpreter \<or> (\<forall>s. subtype_of s (backend_type b) \<longrightarrow> \<not> is_any s))))"
proof -
  let ?r = "from_resolved (completed resolved)"
  have run: "from_expression_type ty t = Some (?r, t')"
    using assms by (auto simp: from_expression_type_def op_bind_def walk_complete op_fail_def op_return_def split: sum.split)
  have scan: "is_ok (scan_residual (completed resolved)) \<longleftrightarrow>
      (\<forall>s. subtype_of s resolved \<longrightarrow> is_ok (residual_node s) \<or> type_var s \<noteq> None)"
  proof -
    have "is_ok (scan_residual (completed resolved)) \<longleftrightarrow> \<not> (\<exists>s. subtype_of s (completed resolved) \<and> \<not> is_ok (residual_node s))"
      by (simp add: scan_residual_def type_try_visit_iff)
    then show ?thesis
      using completed_nodes [of "\<lambda>s. \<not> is_ok (residual_node s)" resolved] residual_own_part
      by (auto simp: residual_node_def)
  qed
  have r: "?r = (case scan_residual (completed resolved) of Err e \<Rightarrow> Err e | Ok _ \<Rightarrow> Ok (ZonkedTy (completed resolved)))"
    by (simp add: from_resolved_def)
  have ok: "is_ok ?r \<longleftrightarrow> is_ok (scan_residual (completed resolved))"
    unfolding r by (cases "scan_residual (completed resolved)") simp_all
  have "(\<forall>s. subtype_of s (zonked_type z) \<longrightarrow> is_ok (residual_node s)) \<and>
       (\<forall>p b. from_zonked z p = Ok b \<longrightarrow>
          backend_type b = zonked_type z \<and> (p = Interpreter \<or> (\<forall>s. subtype_of s (backend_type b) \<longrightarrow> \<not> is_any s)))"
    if "?r = Ok z" for z
  proof -
    have "z = ZonkedTy (completed resolved)" "is_ok (scan_residual (completed resolved))"
      using that unfolding r by (cases "scan_residual (completed resolved)"; simp)+
    then show ?thesis
      by (auto simp: scan_residual_def type_try_visit_iff from_zonked_def contains_dynamic_iff split: if_splits)
  qed
  then have "case ?r of Err e \<Rightarrow> True | Ok z \<Rightarrow>
       (\<forall>s. subtype_of s (zonked_type z) \<longrightarrow> is_ok (residual_node s)) \<and>
       (\<forall>p b. from_zonked z p = Ok b \<longrightarrow>
          backend_type b = zonked_type z \<and> (p = Interpreter \<or> (\<forall>s. subtype_of s (backend_type b) \<longrightarrow> \<not> is_any s)))"
    by (cases ?r) (simp_all only: sum.case, blast)
  then show ?thesis using run ok scan by blast
qed

theorem finished_expression_types_witness:
  "\<exists>z. from_expression_type (TyOption (TyTypeVar 0)) ut_new = Some (Ok z, ut_new)"
proof -
  have p: "parent_of (ut_parent ut_new) 0 = 0" by (simp add: parent_of_def ut_new_def)
  have "(ut_find 0 :: (ResolveError, u32) table_op) ut_new = Some (Ok 0, ut_new)"
    using p by (simp add: ut_find_def find_walk.simps [of "ut_parent ut_new" 0] compress.simps [of 0 0 ut_new])
  moreover have levels: "MAX_RESOLVE_DEPTH = Suc (Suc 62)" by (simp add: MAX_RESOLVE_DEPTH_def)
  moreover have "ut_binding ut_new 0 = None" by (simp add: ut_new_def)
  ultimately have "resolve_infer (TyOption (TyTypeVar 0)) ut_new = Some (Ok (TyOption (TyTypeVar 0)), ut_new)"
    unfolding resolve_infer_def levels resolve_with_depth.simps by (simp add: op_bind_def op_return_def)
  note finished = finished_expression_types [OF this]
  have leaf: "s = TyTypeVar 0" if "subtype_of s (TyTypeVar 0)" for s
    using that by (cases rule: subtype_of.cases) auto
  have "is_ok (residual_node s) \<or> type_var s \<noteq> None" if "subtype_of s (TyOption (TyTypeVar 0))" for s
    using that by (cases rule: subtype_of.cases) (auto simp: residual_node_def dest: leaf)
  then have "\<forall>s. subtype_of s (TyOption (TyTypeVar 0)) \<longrightarrow> is_ok (residual_node s) \<or> type_var s \<noteq> None" by blast
  then obtain r where "from_expression_type (TyOption (TyTypeVar 0)) ut_new = Some (r, ut_new)" "is_ok r"
    using finished by (elim exE conjE) simp
  then show ?thesis by (cases r) auto
qed

end
