(* ===== verification/Mimi_MirTypes.thy ===== *)
theory Mimi_MirTypes
  imports Mimi_CfgValidate
begin

text \<open>
  The type-level data of the canonical middle-level IR: the identities and resolved operators it
  takes from \<open>src/core/ir\<close>, and the ownership, ABI, glue, builtin, conversion and receipt
  records of \<open>src/core/mir/types.rs\<close> that its instructions carry.
\<close>

section \<open>Identities\<close>

text \<open>The identity newtypes around \<open>String\<close>; their constructor refuses blank text.\<close>

type_synonym MirBlockId = string
type_synonym MirEdgeId = string
type_synonym MirValueId = string
type_synonym MirInstructionId = string
type_synonym ResolvedTypeId = string
type_synonym NominalTypeId = string
type_synonym BuiltinId = string
type_synonym MethodId = string
type_synonym SessionResidualId = string
type_synonym ResolvedLocalId = NodeId

record MirIdError =
  ie_kind :: string
  ie_value :: string

definition mir_id_new :: "string \<Rightarrow> string \<Rightarrow> MirIdError + string" where
  "mir_id_new label v = (if is_blank v then Err \<lparr>ie_kind = label, ie_value = v\<rparr> else Ok v)"

section \<open>Resolved operators, literals, places and callees\<close>

datatype Permission = PermView | PermMutate | PermConsume

datatype ResolvedLiteral =
    LitInt i64 | LitFloatBits u64 | LitBool bool | LitString string | LitUnit

datatype ResolvedBinaryOp =
    OpAdd | OpSubtract | OpMultiply | OpDivide | OpRemainder | OpPower
  | OpEqual | OpNotEqual | OpLess | OpGreater | OpLessEqual | OpGreaterEqual
  | OpLogicalAnd | OpLogicalOr | OpBitAnd | OpBitOr | OpBitXor | OpShiftLeft | OpShiftRight

datatype ResolvedUnaryOp = OpNegate | OpNot | OpBorrowShared | OpBorrowMutable | OpDereference

datatype ResolvedIndex = RiConstant i64 | RiDynamic NodeId

datatype ResolvedProjection =
    RpField NodeId string (rp_ty: ResolvedTypeId)
  | RpTuple nat (rp_ty: ResolvedTypeId)
  | RpIndex ResolvedIndex (rp_ty: ResolvedTypeId)
  | RpDeref (rp_ty: ResolvedTypeId)

record ResolvedPlace =
  rpl_base :: ResolvedLocalId
  rpl_projections :: "ResolvedProjection list"

definition place_root :: "ResolvedLocalId \<Rightarrow> ResolvedPlace" where
  "place_root base = \<lparr>rpl_base = base, rpl_projections = []\<rparr>"

definition projected_type :: "ResolvedPlace \<Rightarrow> ResolvedTypeId \<Rightarrow> ResolvedTypeId" where
  "projected_type p local_ty =
     (if rpl_projections p = [] then local_ty else rp_ty (last (rpl_projections p)))"

record StateId =
  st_flow :: string
  st_name :: string

record TransitionId =
  tr_flow :: string
  tr_event :: string
  tr_source :: StateId

definition transition_owner_from_id :: "TransitionId \<Rightarrow> NodeId" where
  "transition_owner_from_id t =
     NodeId (''transition:'' @ tr_flow t @ ''::'' @ tr_event t @ ''::'' @ st_name (tr_source t))"

datatype ResolvedCallee =
    CalleeFunction NodeId
  | CalleeConstructor NodeId
  | CalleeExtern NodeId
  | CalleeBuiltin BuiltinId
  | CalleeLocalClosure ResolvedLocalId
  | CalleeActorMethod NodeId MethodId
  | CalleeProtocolMethod NodeId MethodId
  | CalleeTransition TransitionId

datatype PrimitiveType =
    PrI8 | PrI16 | PrI32 | PrI64 | PrI128 | PrU8 | PrU16 | PrU32 | PrU64 | PrU128
  | PrIsize | PrUsize | PrF32 | PrF64 | PrBool | PrChar | PrString | PrUnit

section \<open>Ownership, ABI classes and glue\<close>

datatype MirOwnership = OwnCopy | OwnMove | OwnLinear | OwnSharedBorrow | OwnWeakBorrow

fun needs_drop :: "MirOwnership \<Rightarrow> bool" where
  "needs_drop OwnMove = True"
| "needs_drop OwnLinear = True"
| "needs_drop _ = False"

definition needs_clone :: "MirOwnership \<Rightarrow> bool" where
  "needs_clone w \<longleftrightarrow> w \<noteq> OwnCopy"

datatype MirAbiClass =
    AbiUnit | AbiInteger u16 bool | AbiFloat u16 | AbiBool | AbiChar | AbiStringHandle
  | AbiSetHandle | AbiOpaqueHandle | AbiPointer | AbiAggregate | AbiFunctionPointer

datatype MirFfiScalarKind = FfiI32 | FfiI64 | FfiBool | FfiF32 | FfiF64 | FfiUnit

fun ffi_abi_class :: "MirFfiScalarKind \<Rightarrow> MirAbiClass" where
  "ffi_abi_class FfiI32 = AbiInteger 32 True"
| "ffi_abi_class FfiI64 = AbiInteger 64 True"
| "ffi_abi_class FfiBool = AbiBool"
| "ffi_abi_class FfiF32 = AbiFloat 32"
| "ffi_abi_class FfiF64 = AbiFloat 64"
| "ffi_abi_class FfiUnit = AbiUnit"

definition canonical_ffi_scalar_kind :: "MirAbiClass \<Rightarrow> MirFfiScalarKind option" where
  "canonical_ffi_scalar_kind c =
     (case c of
        AbiInteger bits sg \<Rightarrow>
          if bits = 32 \<and> sg then Some FfiI32
          else if bits = 64 \<and> sg then Some FfiI64 else None
      | AbiBool \<Rightarrow> Some FfiBool
      | AbiFloat bits \<Rightarrow>
          if bits = 32 then Some FfiF32 else if bits = 64 then Some FfiF64 else None
      | AbiUnit \<Rightarrow> Some FfiUnit
      | _ \<Rightarrow> None)"

text \<open>The scalar kinds and their ABI classes are inverse to each other.\<close>

lemma canonical_ffi_scalar_kind_iff: "canonical_ffi_scalar_kind c = Some k \<longleftrightarrow> c = ffi_abi_class k"
  by (cases k) (auto simp: canonical_ffi_scalar_kind_def split: MirAbiClass.splits if_splits)

datatype MirGlueKind =
    GlueNoop | GlueOwnedString | GlueList | GlueSet | GlueMapRoot | GlueAggregate | GlueSession
  | GlueUnsupported

datatype MirGlueOperation = GoMoveOut | GoClone | GoDrop

record MirGlueContract =
  gc_move_out :: MirGlueKind
  gc_clone :: MirGlueKind
  gc_drop :: MirGlueKind

definition MIR_TRAP_CODE_MAX_LEN :: nat where
  "MIR_TRAP_CODE_MAX_LEN = 128"

text \<open>\<open>trim\<close> on ASCII text, and the control characters.\<close>

definition ascii_blank :: "char \<Rightarrow> bool" where
  "ascii_blank c \<longleftrightarrow> of_char c = (32::nat) \<or> 9 \<le> (of_char c :: nat) \<and> of_char c \<le> (13::nat)"

definition trim :: "string \<Rightarrow> string" where
  "trim s = rev (dropWhile ascii_blank (rev (dropWhile ascii_blank s)))"

definition is_control :: "char \<Rightarrow> bool" where
  "is_control c \<longleftrightarrow> (of_char c :: nat) < 32 \<or> of_char c = (127::nat)"

lemma is_blank_trim: "is_blank s \<longleftrightarrow> trim s = []"
proof -
  have "is_blank s \<longleftrightarrow> (\<forall>c \<in> set s. ascii_blank c)"
    by (simp add: is_blank_def ascii_blank_def list_all_iff)
  moreover have "trim s = [] \<longleftrightarrow> dropWhile ascii_blank s = []"
  proof (cases "dropWhile ascii_blank s = []")
    case False
    then have "\<not> ascii_blank (hd (dropWhile ascii_blank s))"
      and "hd (dropWhile ascii_blank s) \<in> set (dropWhile ascii_blank s)"
      by (rule hd_dropWhile, rule hd_in_set)
    then have "dropWhile ascii_blank (rev (dropWhile ascii_blank s)) \<noteq> []"
      by (metis dropWhile_eq_Nil_conv set_rev)
    then have "trim s \<noteq> []" unfolding trim_def by (metis rev_is_Nil_conv)
    with False show ?thesis by blast
  next
    case True
    show ?thesis unfolding trim_def True by simp
  qed
  ultimately show ?thesis by (simp add: dropWhile_eq_Nil_conv)
qed

definition validate_trap_code :: "string \<Rightarrow> string + unit" where
  "validate_trap_code raw =
     (let code = trim raw in
      if code = [] then Err ''trap code is empty''
      else if MIR_TRAP_CODE_MAX_LEN < length code
      then Err (''trap code exceeds '' @ show_nat MIR_TRAP_CODE_MAX_LEN @ '' bytes'')
      else if list_ex is_control code then Err ''trap code contains a control character''
      else Ok ())"

section \<open>Builtins and conversions\<close>

datatype MirBuiltinKind =
    BkAbs | BkMin | BkMax | BkPrintlnBool | BkPrintlnInt | BkPrintlnFloat | BkPrintlnString
  | BkSessionOpen | BkSessionPair

datatype MirBuiltinEffect = EffPure | EffStdoutLine

record MirBuiltinContract =
  bc_kind :: MirBuiltinKind
  bc_name :: string
  bc_arity :: nat
  bc_input_abi :: MirAbiClass
  bc_preserves_type :: bool
  bc_requires_copy :: bool
  bc_requires_same_input_type :: bool
  bc_overflow_trap :: "string option"
  bc_result_must_be_unit :: bool
  bc_effect :: MirBuiltinEffect

text \<open>What the \<open>println\<close> contracts have in common.\<close>

definition println_contract :: "MirBuiltinKind \<Rightarrow> MirAbiClass \<Rightarrow> bool \<Rightarrow> MirBuiltinContract" where
  "println_contract k abi copy = \<lparr>bc_kind = k, bc_name = ''println'', bc_arity = 1, bc_input_abi = abi,
     bc_preserves_type = False, bc_requires_copy = copy, bc_requires_same_input_type = False,
     bc_overflow_trap = None, bc_result_must_be_unit = True, bc_effect = EffStdoutLine\<rparr>"

definition session_contract :: "MirBuiltinKind \<Rightarrow> string \<Rightarrow> MirAbiClass \<Rightarrow> MirBuiltinContract" where
  "session_contract k name abi = \<lparr>bc_kind = k, bc_name = name, bc_arity = 0, bc_input_abi = abi,
     bc_preserves_type = False, bc_requires_copy = False, bc_requires_same_input_type = False,
     bc_overflow_trap = None, bc_result_must_be_unit = False, bc_effect = EffPure\<rparr>"

fun builtin_for_kind :: "MirBuiltinKind \<Rightarrow> MirBuiltinContract" where
  "builtin_for_kind BkAbs = \<lparr>bc_kind = BkAbs, bc_name = ''abs'', bc_arity = 1,
     bc_input_abi = AbiInteger 64 True, bc_preserves_type = True, bc_requires_copy = True,
     bc_requires_same_input_type = False, bc_overflow_trap = Some ''E0802'',
     bc_result_must_be_unit = False, bc_effect = EffPure\<rparr>"
| "builtin_for_kind BkMin = \<lparr>bc_kind = BkMin, bc_name = ''min'', bc_arity = 2,
     bc_input_abi = AbiInteger 64 True, bc_preserves_type = True, bc_requires_copy = True,
     bc_requires_same_input_type = True, bc_overflow_trap = None,
     bc_result_must_be_unit = False, bc_effect = EffPure\<rparr>"
| "builtin_for_kind BkMax = \<lparr>bc_kind = BkMax, bc_name = ''max'', bc_arity = 2,
     bc_input_abi = AbiInteger 64 True, bc_preserves_type = True, bc_requires_copy = True,
     bc_requires_same_input_type = True, bc_overflow_trap = None,
     bc_result_must_be_unit = False, bc_effect = EffPure\<rparr>"
| "builtin_for_kind BkPrintlnBool = println_contract BkPrintlnBool AbiBool True"
| "builtin_for_kind BkPrintlnInt = println_contract BkPrintlnInt (AbiInteger 64 True) True"
| "builtin_for_kind BkPrintlnFloat = println_contract BkPrintlnFloat (AbiFloat 64) True"
| "builtin_for_kind BkPrintlnString = println_contract BkPrintlnString AbiStringHandle False"
| "builtin_for_kind BkSessionOpen = session_contract BkSessionOpen ''session_open'' AbiOpaqueHandle"
| "builtin_for_kind BkSessionPair = session_contract BkSessionPair ''session_pair'' AbiAggregate"

definition from_builtin :: "BuiltinId \<Rightarrow> MirBuiltinContract option" where
  "from_builtin i =
     (if i = ''abs'' then Some (builtin_for_kind BkAbs)
      else if i = ''min'' then Some (builtin_for_kind BkMin)
      else if i = ''max'' then Some (builtin_for_kind BkMax)
      else if i = ''session_open'' then Some (builtin_for_kind BkSessionOpen)
      else if i = ''session_pair'' then Some (builtin_for_kind BkSessionPair)
      else None)"

definition println_kind :: "MirAbiClass \<Rightarrow> MirBuiltinKind option" where
  "println_kind abi =
     (case abi of
        AbiBool \<Rightarrow> Some BkPrintlnBool
      | AbiInteger bits sg \<Rightarrow> if (bits = 32 \<or> bits = 64) \<and> sg then Some BkPrintlnInt else None
      | AbiFloat bits \<Rightarrow> if bits = 64 then Some BkPrintlnFloat else None
      | AbiStringHandle \<Rightarrow> Some BkPrintlnString
      | _ \<Rightarrow> None)"

definition from_builtin_with_abi :: "BuiltinId \<Rightarrow> MirAbiClass \<Rightarrow> MirBuiltinContract option" where
  "from_builtin_with_abi i abi =
     (if i = ''println'' then map_option builtin_for_kind (println_kind abi) else from_builtin i)"

definition accepts_abi :: "MirBuiltinContract \<Rightarrow> MirAbiClass \<Rightarrow> bool" where
  "accepts_abi c abi =
     (case bc_kind c of
        BkAbs \<Rightarrow> abi = AbiInteger 64 True \<or> abi = AbiFloat 64
      | BkMin \<Rightarrow> abi = AbiInteger 64 True
      | BkMax \<Rightarrow> abi = AbiInteger 64 True
      | BkPrintlnBool \<Rightarrow> abi = AbiBool
      | BkPrintlnInt \<Rightarrow> abi = AbiInteger 32 True \<or> abi = AbiInteger 64 True
      | BkPrintlnFloat \<Rightarrow> abi = AbiFloat 64
      | BkPrintlnString \<Rightarrow> abi = AbiStringHandle
      | BkSessionOpen \<Rightarrow> abi = AbiOpaqueHandle
      | BkSessionPair \<Rightarrow> abi = AbiAggregate)"

text \<open>Every contract accepts the ABI class it declares, and one resolved for a class accepts it.\<close>

lemma builtin_for_kind_kind [simp]: "bc_kind (builtin_for_kind k) = k"
  by (cases k) (simp_all add: println_contract_def session_contract_def)

lemma accepts_declared_abi: "accepts_abi (builtin_for_kind k) (bc_input_abi (builtin_for_kind k))"
  by (cases k) (simp_all add: accepts_abi_def println_contract_def session_contract_def)

lemma println_accepts:
  assumes "from_builtin_with_abi ''println'' abi = Some c"
  shows "accepts_abi c abi \<and> bc_name c = ''println'' \<and> bc_effect c = EffStdoutLine"
  using assms
  by (cases abi)
    (auto simp: from_builtin_with_abi_def println_kind_def accepts_abi_def println_contract_def
      split: if_splits)

datatype MirConversionKind =
    CvScalarIdentity | CvSignedI32ToI64 | CvSignedI32ToFloat64 | CvSignedI64ToFloat64
  | CvFloat64ToFloat32

record MirConversionContract =
  cv_kind :: MirConversionKind
  cv_name :: string
  cv_requires_scalar :: bool
  cv_requires_copy :: bool

fun conversion_name :: "MirConversionKind \<Rightarrow> string" where
  "conversion_name CvScalarIdentity = ''scalar identity''"
| "conversion_name CvSignedI32ToI64 = ''signed i32 to signed i64 widening''"
| "conversion_name CvSignedI32ToFloat64 = ''signed i32 to f64 widening''"
| "conversion_name CvSignedI64ToFloat64 = ''signed i64 to f64 widening''"
| "conversion_name CvFloat64ToFloat32 = ''f64 to f32 narrowing''"

definition conversion_for_kind :: "MirConversionKind \<Rightarrow> MirConversionContract" where
  "conversion_for_kind k = \<lparr>cv_kind = k, cv_name = conversion_name k, cv_requires_scalar = True,
     cv_requires_copy = True\<rparr>"

end
