(* ===== verification/Mimi_Mir.thy ===== *)
theory Mimi_Mir
  imports Mimi_MirTypes
begin

text \<open>
  The data of the canonical middle-level IR (\<open>src/core/mir/mod.rs\<close>) and the receipts its
  instructions carry (\<open>src/core/mir/types.rs\<close>, \<open>src/core/mir/contracts.rs\<close>): values, block
  parameters, instructions, terminators, blocks, functions, and the ownership summary.
\<close>

section \<open>Receipts\<close>

datatype MirSessionOperation = SoClose | SoSend | SoRecv

record MirSessionCallContract =
  scc_operation :: MirSessionOperation
  scc_endpoint_ty :: ResolvedTypeId
  scc_result_ty :: ResolvedTypeId
  scc_payload_ty :: "ResolvedTypeId option"
  scc_before :: SessionResidualId
  scc_after :: SessionResidualId
  scc_terminal :: bool

record MirSessionPairBindContract =
  spb_pair_ty :: ResolvedTypeId
  spb_lo_ty :: ResolvedTypeId
  spb_hi_ty :: ResolvedTypeId
  spb_lo_protocol :: ResolvedTypeId
  spb_hi_protocol :: ResolvedTypeId

datatype MirCallEffectKind = TransferSessionEffect

record MirCallEffectContract =
  cef_kind :: MirCallEffectKind
  cef_argument_index :: nat
  cef_argument_ty :: ResolvedTypeId

record MirVariantProjectionContract =
  vp_nominal :: NominalTypeId
  vp_variant :: NodeId
  vp_field :: NodeId
  vp_field_index :: nat
  vp_arity :: nat
  vp_field_ty :: ResolvedTypeId
  vp_ownership :: MirOwnership
  vp_move_out_glue :: MirGlueKind

record MirVariantProjectionTrapContract =
  vpt_source_ty :: ResolvedTypeId
  vpt_result_ty :: ResolvedTypeId
  vpt_projection :: MirVariantProjectionContract
  vpt_variant_name :: string
  vpt_discriminant :: u16
  vpt_trap_code :: string

record MirVariantProjectionFallbackContract =
  vpf_source_ty :: ResolvedTypeId
  vpf_result_ty :: ResolvedTypeId
  vpf_fallback_ty :: ResolvedTypeId
  vpf_projection :: MirVariantProjectionContract
  vpf_variant_name :: string
  vpf_discriminant :: u16
  vpf_fallback_variant :: NodeId
  vpf_fallback_variant_name :: string
  vpf_fallback_discriminant :: u16
  vpf_fallback_arity :: nat

record MirRecordProjectionContract =
  rp_nominal :: NominalTypeId
  rp_field :: NodeId
  rp_name :: string
  rp_field_index :: nat
  rp_arity :: nat
  rp_field_ty :: ResolvedTypeId

record MirStringFieldBorrowContract =
  sfb_source_ty :: ResolvedTypeId
  sfb_projection :: MirRecordProjectionContract

record MirFlowEffectReceipt =
  fe_transition :: NodeId
  fe_source :: ResolvedTypeId
  fe_parameters :: "ResolvedTypeId list"
  fe_result :: ResolvedTypeId
  fe_target :: ResolvedTypeId

record MirRecordUpdateContract =
  ru_source_ty :: ResolvedTypeId
  ru_result_ty :: ResolvedTypeId
  ru_nominal :: NominalTypeId
  ru_arity :: nat
  ru_fields :: "MirRecordProjectionContract list"

record MirRecordUpdateMoveField =
  rumf_projection :: MirRecordProjectionContract
  rumf_old_drop :: MirGlueKind
  rumf_new_move :: MirGlueKind

record MirRecordResidualMove =
  rrm_id :: NodeId
  rrm_name :: string
  rrm_index :: nat
  rrm_ty :: ResolvedTypeId
  rrm_glue :: MirGlueKind

record MirRecordUpdateMoveContract =
  rum_source_ty :: ResolvedTypeId
  rum_result_ty :: ResolvedTypeId
  rum_nominal :: NominalTypeId
  rum_arity :: nat
  rum_updates :: "MirRecordUpdateMoveField list"
  rum_residual :: "MirRecordResidualMove list"

record MirTupleProjectionContract =
  tp_tuple_ty :: ResolvedTypeId
  tp_field_index :: nat
  tp_arity :: nat
  tp_field_ty :: ResolvedTypeId

datatype MirReadProjectionKind = RkField NodeId | RkTuple nat

record MirReadProjectionStep =
  rs_base_ty :: ResolvedTypeId
  rs_result_ty :: ResolvedTypeId
  rs_projection :: MirReadProjectionKind

record MirReadProjectionContract =
  rpc_source_ty :: ResolvedTypeId
  rpc_result_ty :: ResolvedTypeId
  rpc_steps :: "MirReadProjectionStep list"

datatype MirListIndexProjectionMode = LiCopyScalar | LiCloneNestedList

record MirListIndexProjectionContract =
  li_list_ty :: ResolvedTypeId
  li_element_ty :: ResolvedTypeId
  li_index_ty :: ResolvedTypeId
  li_result_ty :: ResolvedTypeId
  li_mode :: MirListIndexProjectionMode

datatype MirListOperation = LoLen | LoReverse | LoConcat

datatype MirListOperationMode = LmScalar | LmNested

record MirListOperationContract =
  lo_list_ty :: ResolvedTypeId
  lo_element_ty :: ResolvedTypeId
  lo_result_ty :: ResolvedTypeId
  lo_argument_ty :: "ResolvedTypeId option"
  lo_operation :: MirListOperation
  lo_mode :: MirListOperationMode

record MirListConstructContract =
  lc_list_ty :: ResolvedTypeId
  lc_element_ty :: ResolvedTypeId
  lc_result_ty :: ResolvedTypeId
  lc_element_count :: nat

datatype MirVariantPredicate = VpIsSome | VpIsNone | VpIsOk | VpIsErr

record MirVariantPredicateContract =
  vpc_variant_ty :: ResolvedTypeId
  vpc_result_ty :: ResolvedTypeId
  vpc_nominal :: NominalTypeId
  vpc_variant :: NodeId
  vpc_variant_name :: string
  vpc_alternate_variant :: NodeId
  vpc_alternate_variant_name :: string
  vpc_predicate :: MirVariantPredicate
  vpc_discriminant :: u16

datatype MirVariantCallAbiMode = VmFlatCopy | VmMoveOwned | VmRecoverableAggregate

datatype MirVariantCallReturnMode =
    VrFlatCopyMerge | VrOwnershipPathExclusiveMerge | VrAggregateEnvelopeMerge

record MirVariantCallVariant =
  vcv_id :: NodeId
  vcv_name :: string
  vcv_discriminant :: u16
  vcv_payload_field :: "NodeId option"
  vcv_payload_arity :: nat

record MirVariantCallAbiContract =
  vca_callee :: NodeId
  vca_type_arguments :: "ResolvedTypeId list"
  vca_parameter_types :: "ResolvedTypeId list"
  vca_result_ty :: ResolvedTypeId
  vca_mode :: MirVariantCallAbiMode
  vca_return_mode :: MirVariantCallReturnMode
  vca_payload_ty :: ResolvedTypeId
  vca_payload_types :: "ResolvedTypeId list"
  vca_nominal :: NominalTypeId
  vca_variants :: "MirVariantCallVariant list"

record MirRecordResidualDrop =
  rrd_id :: NodeId
  rrd_name :: string
  rrd_index :: nat
  rrd_ty :: ResolvedTypeId
  rrd_glue :: MirGlueKind

record MirRecordMoveProjectionDropContract =
  rmd_source_ty :: ResolvedTypeId
  rmd_result_ty :: ResolvedTypeId
  rmd_projection :: MirRecordProjectionContract
  rmd_residual :: "MirRecordResidualDrop list"

section \<open>Values, projections, aggregates\<close>

record MirValue =
  val_id :: MirValueId
  val_ty :: ResolvedTypeId

record MirBlockParameter =
  bp_value :: MirValueId

datatype MirProjection =
    MpField NodeId
  | MpTuple nat
  | MpIndex MirValueId
  | MpDereference
  | MpReadPath MirReadProjectionContract

datatype MirAggregateKind = AggTuple | AggRecord NominalTypeId "NodeId list"

datatype MirSetOperation = SetSize | SetIsEmpty | SetContains | SetInsert | SetRemove | SetToList

section \<open>Contracts\<close>

datatype MirContractKind = CkRequires | CkEnsures | CkInvariant

datatype MirContractUnaryOp = CuNegate | CuNot

datatype MirContractBinaryOp =
    CbAdd | CbSubtract | CbMultiply | CbDivide | CbRemainder | CbEqual | CbNotEqual | CbLess
  | CbGreater | CbLessEqual | CbGreaterEqual | CbAnd | CbOr

datatype MirContractExpr =
    CeValue MirValueId
  | CeResult
  | CeOld MirValueId
  | CeProject MirContractExpr MirProjection
  | CeInt i64
  | CeBool bool
  | CeFloat u64
  | CeUnary MirContractUnaryOp MirContractExpr
  | CeBinary MirContractBinaryOp MirContractExpr MirContractExpr

record MirContract =
  ct_id :: NodeId
  ct_kind :: MirContractKind
  ct_condition :: MirContractExpr
  ct_expression_types :: "(u8 list, ResolvedTypeId) btree_map"

end
