(* ===== verification/Mimi_MirFn.thy ===== *)
theory Mimi_MirFn
  imports Mimi_Mir
begin

text \<open>
  Instructions, terminators, blocks and functions of the canonical IR
  (\<open>src/core/mir/mod.rs\<close>). A constructor's arguments are the source's fields in their order.
\<close>

section \<open>Instructions\<close>

datatype MirInstructionKind =
    IMapRootNew MirValueId
  | IMapRootSet MirValueId MirValueId string MirValueId
  | IMapRootRemove MirValueId MirValueId string
  | IMapRootSize MirValueId MirValueId
  | IMapRootContains MirValueId MirValueId string
  | IMapRootDrop MirValueId
  | IConst MirValueId ResolvedLiteral
  | ILoad MirValueId ResolvedPlace
  | ICopy MirValueId MirValueId
  | IMove MirValueId MirValueId
  | IClone MirValueId MirValueId
  | IDrop MirValueId
  | IBorrow NodeId NodeId "string option" "string option" MirValueId MirValueId bool
  | IEndBorrow MirValueId
  | IProject MirValueId MirValueId MirProjection "MirListIndexProjectionContract option"
  | IMoveProject MirValueId MirValueId MirProjection
  | IMoveProjectDrop MirValueId MirValueId MirProjection
      "MirRecordMoveProjectionDropContract option"
  | IVariantProject MirValueId MirValueId "MirVariantProjectionTrapContract option"
  | IVariantProjectOr MirValueId MirValueId MirValueId
      "MirVariantProjectionFallbackContract option"
  | IVariantProjectMove MirValueId MirValueId "MirVariantProjectionTrapContract option"
  | IConstruct MirValueId MirAggregateKind "MirValueId list"
  | IConstructList MirValueId "MirValueId list" "MirListConstructContract option"
  | IListOp MirValueId MirListOperation MirValueId "MirValueId option"
      "MirListOperationContract option"
  | IVariantPredicate MirValueId MirVariantPredicate MirValueId
      "MirVariantPredicateContract option"
  | IConstructSet MirValueId "MirValueId list"
  | ISetOp MirValueId MirSetOperation MirValueId "MirValueId option"
  | IConstructVariant MirValueId NominalTypeId NodeId "(NodeId \<times> MirValueId) list"
  | IConstructVariantMove MirValueId NominalTypeId NodeId "(NodeId \<times> MirValueId) list"
  | IUpdateRecord MirValueId MirValueId MirAggregateKind "MirValueId list"
      "MirRecordUpdateContract option" "MirRecordUpdateMoveContract option"
  | IBinary MirValueId ResolvedBinaryOp MirValueId MirValueId
  | IUnary MirValueId ResolvedUnaryOp MirValueId
  | ICall "MirValueId option" ResolvedCallee "ResolvedTypeId list" "MirValueId list"
      "MirCallEffectContract list" "MirVariantCallAbiContract option"
  | IFlowTransition MirValueId NodeId "MirValueId list" "MirFlowEffectReceipt option"
  | IBuiltinCall MirValueId MirBuiltinKind "MirValueId list" "MirStringFieldBorrowContract option"
  | ISessionCall MirValueId MirSessionOperation MirValueId "MirValueId option"
      "MirSessionCallContract option"
  | ISessionPairBind MirValueId MirValueId "MirSessionPairBindContract option"
  | IConvert MirValueId MirValueId
  | INop

record MirInstruction =
  ins_id :: MirInstructionId
  ins_kind :: MirInstructionKind

section \<open>Terminators, blocks, functions\<close>

datatype MirSwitchCase = CaseLiteral ResolvedLiteral | CaseVariant NodeId | CaseDefault

record MirSwitchBinding =
  sb_parameter :: MirValueId
  sb_projection :: MirVariantProjectionContract
  sb_nested_tuple :: "MirTupleProjectionContract option"

record MirSwitchArm =
  arm_edge :: MirEdgeId
  arm_target :: MirBlockId
  arm_arguments :: "MirValueId list"
  arm_bindings :: "MirSwitchBinding list"
  arm_case :: MirSwitchCase

datatype MirTerminator =
    TmGoto MirEdgeId MirBlockId "MirValueId list"
  | TmBranch MirValueId MirEdgeId MirBlockId "MirValueId list" MirEdgeId MirBlockId "MirValueId list"
  | TmSwitch MirValueId "MirSwitchArm list"
  | TmSwitchMove MirValueId "MirSwitchArm list"
  | TmReturn "MirValueId option"
  | TmTrap string
  | TmFault "MirValueId option"
  | TmUnreachable

record MirBlock =
  blk_id :: MirBlockId
  blk_parameters :: "MirBlockParameter list"
  blk_instructions :: "MirInstruction list"
  blk_terminator :: MirTerminator

datatype MirOwnershipEventKind =
    OeRead | OeWrite | OeIntroduce | OeMove | OeDrop | OeReturn | OeTransferSession
  | OeTransferChild | OeBorrowShared | OeBorrowMut | OeBorrowEnd

fun event_kind_str :: "MirOwnershipEventKind \<Rightarrow> string" where
  "event_kind_str OeRead = ''read''"
| "event_kind_str OeWrite = ''write''"
| "event_kind_str OeIntroduce = ''introduce''"
| "event_kind_str OeMove = ''move''"
| "event_kind_str OeDrop = ''drop''"
| "event_kind_str OeReturn = ''return''"
| "event_kind_str OeTransferSession = ''transfer_session''"
| "event_kind_str OeTransferChild = ''transfer_child''"
| "event_kind_str OeBorrowShared = ''borrow_shared''"
| "event_kind_str OeBorrowMut = ''borrow_mut''"
| "event_kind_str OeBorrowEnd = ''borrow_end''"

record MirOwnershipEvent =
  oe_kind :: MirOwnershipEventKind
  oe_resource :: string
  oe_value :: "MirValueId option"
  oe_source :: "string option"
  oe_target :: "string option"
  oe_point :: NodeId
  oe_loan :: "NodeId option"
  oe_checker_block :: "NodeId option"
  oe_checker_edge :: "NodeId option"

record MirCheckerLoanLocation =
  ll_block :: NodeId
  ll_point :: NodeId
  ll_edge :: "NodeId option"

record MirCheckerLoanEndSite =
  le_location :: MirCheckerLoanLocation
  le_resource :: string
  le_value :: "MirValueId option"
  le_source :: "string option"

record MirCheckerLoanContract =
  cl_loan :: NodeId
  cl_mutable :: bool
  cl_resource :: string
  cl_value :: "MirValueId option"
  cl_place :: Place
  cl_start :: MirCheckerLoanLocation
  cl_ends :: "MirCheckerLoanEndSite list"

datatype MapRootActionKind = MrNew | MrSet | MrRemove | MrSize | MrContains | MrDrop

record MirCheckerMapRootAction =
  mr_kind :: MapRootActionKind
  mr_point :: NodeId
  mr_local :: MirValueId
  mr_result :: "MirValueId option"
  mr_root :: string
  mr_key :: "string option"
  mr_value :: "MirValueId option"
  mr_value_type :: "ResolvedTypeId option"
  mr_source_local :: "MirValueId option"
  mr_source :: "string option"
  mr_instruction :: MirInstructionId

record MirOwnershipSummary =
  os_events :: "MirOwnershipEvent list"
  os_checker_loans :: "(NodeId, MirCheckerLoanContract) btree_map"
  os_checker_map_roots :: "MirCheckerMapRootAction list"

record MirFunction =
  fn_owner :: NodeId
  fn_parameters :: "MirValueId list"
  fn_parameter_permissions :: "Permission option list option"
  fn_result :: ResolvedTypeId
  fn_entry :: MirBlockId
  fn_values :: "(MirValueId, MirValue) btree_map"
  fn_blocks :: "(MirBlockId, MirBlock) btree_map"
  fn_contracts :: "MirContract list"
  fn_ownership :: MirOwnershipSummary

section \<open>Values an instruction reads and defines\<close>

text \<open>A \<open>Load\<close> names its local by the local's node identity.\<close>

definition load_local :: "ResolvedPlace \<Rightarrow> MirValueId list" where
  "load_local place =
     (case mir_id_new ''value'' (''local:'' @ node_str (rpl_base place)) of
        Ok local \<Rightarrow> [local] | Err _ \<Rightarrow> [])"

definition projection_index :: "MirProjection \<Rightarrow> MirValueId list" where
  "projection_index p = (case p of MpIndex i \<Rightarrow> [i] | _ \<Rightarrow> [])"

fun instruction_uses :: "MirInstructionKind \<Rightarrow> MirValueId list" where
  "instruction_uses (IConst _ _) = []"
| "instruction_uses INop = []"
| "instruction_uses (IMapRootNew _) = []"
| "instruction_uses (IMapRootSet _ source _ v) = [source, v]"
| "instruction_uses (IMapRootRemove _ source _) = [source]"
| "instruction_uses (IMapRootSize _ root) = [root]"
| "instruction_uses (IMapRootContains _ root _) = [root]"
| "instruction_uses (IMapRootDrop root) = [root]"
| "instruction_uses (ILoad _ place) = load_local place"
| "instruction_uses (ICopy _ source) = [source]"
| "instruction_uses (IMove _ source) = [source]"
| "instruction_uses (IClone _ source) = [source]"
| "instruction_uses (IConvert _ source) = [source]"
| "instruction_uses (IDrop v) = [v]"
| "instruction_uses (IEndBorrow v) = [v]"
| "instruction_uses (IBorrow _ _ _ _ _ source _) = [source]"
| "instruction_uses (IProject _ base p _) = base # projection_index p"
| "instruction_uses (IMoveProject _ base p) = base # projection_index p"
| "instruction_uses (IVariantProject _ base _) = [base]"
| "instruction_uses (IVariantProjectOr _ base fallback _) = [base, fallback]"
| "instruction_uses (IVariantProjectMove _ base _) = [base]"
| "instruction_uses (IMoveProjectDrop _ base p _) = base # projection_index p"
| "instruction_uses (IConstruct _ _ vs) = vs"
| "instruction_uses (IConstructList _ vs _) = vs"
| "instruction_uses (IListOp _ _ l arg _) = l # (case arg of Some a \<Rightarrow> [a] | None \<Rightarrow> [])"
| "instruction_uses (IVariantPredicate _ _ v _) = [v]"
| "instruction_uses (IConstructSet _ vs) = vs"
| "instruction_uses (ISetOp _ _ st arg) = st # (case arg of Some a \<Rightarrow> [a] | None \<Rightarrow> [])"
| "instruction_uses (IConstructVariant _ _ _ fs) = map snd fs"
| "instruction_uses (IConstructVariantMove _ _ _ fs) = map snd fs"
| "instruction_uses (IUpdateRecord _ base _ vs _ _) = base # vs"
| "instruction_uses (IBinary _ _ l r) = [l, r]"
| "instruction_uses (IUnary _ _ v) = [v]"
| "instruction_uses (ICall _ _ _ vs _ _) = vs"
| "instruction_uses (IFlowTransition _ _ vs _) = vs"
| "instruction_uses (IBuiltinCall _ _ vs _) = vs"
| "instruction_uses (ISessionCall _ _ endpoint payload _) =
     endpoint # (case payload of Some p \<Rightarrow> [p] | None \<Rightarrow> [])"
| "instruction_uses (ISessionPairBind _ _ _) = []"

fun terminator_uses :: "MirTerminator \<Rightarrow> MirValueId list" where
  "terminator_uses (TmGoto _ _ vs) = vs"
| "terminator_uses (TmBranch c _ _ vs _ _ ws) = c # vs @ ws"
| "terminator_uses (TmSwitch v arms) = v # concat (map arm_arguments arms)"
| "terminator_uses (TmSwitchMove v arms) = v # concat (map arm_arguments arms)"
| "terminator_uses (TmReturn v) = (case v of Some x \<Rightarrow> [x] | None \<Rightarrow> [])"
| "terminator_uses (TmFault v) = (case v of Some x \<Rightarrow> [x] | None \<Rightarrow> [])"
| "terminator_uses (TmTrap _) = []"
| "terminator_uses TmUnreachable = []"

text \<open>The values an instruction defines, in the order the validator records them.\<close>

fun instruction_results :: "MirInstructionKind \<Rightarrow> MirValueId list" where
  "instruction_results (IMapRootNew r) = [r]"
| "instruction_results (IMapRootSet r _ _ _) = [r]"
| "instruction_results (IMapRootRemove r _ _) = [r]"
| "instruction_results (IMapRootSize r _) = [r]"
| "instruction_results (IMapRootContains r _ _) = [r]"
| "instruction_results (IMapRootDrop _) = []"
| "instruction_results (IConst r _) = [r]"
| "instruction_results (ILoad r _) = [r]"
| "instruction_results (ICopy r _) = [r]"
| "instruction_results (IMove r _) = [r]"
| "instruction_results (IClone r _) = [r]"
| "instruction_results (IDrop _) = []"
| "instruction_results (IBorrow _ _ _ _ r _ _) = [r]"
| "instruction_results (IEndBorrow _) = []"
| "instruction_results (IProject r _ _ _) = [r]"
| "instruction_results (IMoveProject r _ _) = [r]"
| "instruction_results (IMoveProjectDrop r _ _ _) = [r]"
| "instruction_results (IVariantProject r _ _) = [r]"
| "instruction_results (IVariantProjectOr r _ _ _) = [r]"
| "instruction_results (IVariantProjectMove r _ _) = [r]"
| "instruction_results (IConstruct r _ _) = [r]"
| "instruction_results (IConstructList r _ _) = [r]"
| "instruction_results (IListOp r _ _ _ _) = [r]"
| "instruction_results (IVariantPredicate r _ _ _) = [r]"
| "instruction_results (IConstructSet r _) = [r]"
| "instruction_results (ISetOp r _ _ _) = [r]"
| "instruction_results (IConstructVariant r _ _ _) = [r]"
| "instruction_results (IConstructVariantMove r _ _ _) = [r]"
| "instruction_results (IUpdateRecord r _ _ _ _ _) = [r]"
| "instruction_results (IBinary r _ _ _) = [r]"
| "instruction_results (IUnary r _ _) = [r]"
| "instruction_results (ICall r _ _ _ _ _) = (case r of Some x \<Rightarrow> [x] | None \<Rightarrow> [])"
| "instruction_results (IFlowTransition r _ _ _) = [r]"
| "instruction_results (IBuiltinCall r _ _ _) = [r]"
| "instruction_results (ISessionCall r _ _ _ _) = [r]"
| "instruction_results (ISessionPairBind lo hi _) = [lo, hi]"
| "instruction_results (IConvert r _) = [r]"
| "instruction_results INop = []"

end
