(* ===== verification/Mimi_MirValidate.thy ===== *)
theory Mimi_MirValidate
  imports Mimi_MirFn
begin

text \<open>
  The structural validator of the canonical IR (\<open>MirValidator\<close> in \<open>src/core/mir/mod.rs\<close>):
  its accumulating state, the header, block, instruction and terminator checks. The dominance
  check, which runs last, is in the next theory.
\<close>

section \<open>The accumulating state\<close>

record MirValidationError =
  ve_subject :: string
  ve_message :: string

datatype MirDefinitionSite =
    SiteFunctionParameter
  | SiteBlockParameter MirBlockId
  | SiteInstruction MirBlockId nat

record MirValidator =
  mv_errors :: "MirValidationError list"
  mv_definitions :: "(MirValueId, string) btree_map"
  mv_sites :: "(MirValueId, MirDefinitionSite) btree_map"
  mv_instruction_ids :: "MirInstructionId btree_set"
  mv_edge_ids :: "MirEdgeId btree_set"

type_synonym check = "MirValidator \<Rightarrow> MirValidator"

definition validator_new :: MirValidator where
  "validator_new = \<lparr>mv_errors = [], mv_definitions = [], mv_sites = [], mv_instruction_ids = [],
     mv_edge_ids = []\<rparr>"

definition mv_error :: "string \<Rightarrow> string \<Rightarrow> check" where
  "mv_error subject msg s =
     s\<lparr>mv_errors := mv_errors s @ [\<lparr>ve_subject = subject, ve_message = msg\<rparr>]\<rparr>"

text \<open>A conditional report, and checks run one after the other.\<close>

definition error_if :: "bool \<Rightarrow> string \<Rightarrow> string \<Rightarrow> check" where
  "error_if c subject msg s = (if c then mv_error subject msg s else s)"

definition in_order :: "check list \<Rightarrow> check" where
  "in_order cs s = foldl (\<lambda>s c. c s) s cs"

definition define_at :: "MirFunction \<Rightarrow> MirValueId \<Rightarrow> string \<Rightarrow> MirDefinitionSite \<Rightarrow> check" where
  "define_at f v subject site s0 =
     (let s = error_if (\<not> bt_contains (fn_values f) v) v ''definition is absent from value catalog'' s0
      in case bt_get (mv_definitions s) v of
           Some previous \<Rightarrow>
             mv_error v (''value is defined more than once (also '' @ previous @ '')'') s
         | None \<Rightarrow> s\<lparr>mv_definitions := bt_insert v subject (mv_definitions s),
                      mv_sites := bt_insert v site (mv_sites s)\<rparr>)"

definition use_value :: "MirFunction \<Rightarrow> MirValueId \<Rightarrow> check" where
  "use_value f v = error_if (\<not> bt_contains (fn_values f) v) v ''use is absent from value catalog''"

definition use_values :: "MirFunction \<Rightarrow> MirValueId list \<Rightarrow> check" where
  "use_values f vs = in_order (map (use_value f) vs)"

definition result_at ::
    "MirFunction \<Rightarrow> MirValueId \<Rightarrow> MirInstructionId \<Rightarrow> MirBlockId \<Rightarrow> nat \<Rightarrow> check" where
  "result_at f v i block index =
     define_at f v (''instruction '' @ i) (SiteInstruction block index)"

definition check_edge :: "MirEdgeId \<Rightarrow> check" where
  "check_edge e s =
     (if e \<in> set (mv_edge_ids s) then mv_error e ''edge identity is duplicated'' s
      else s\<lparr>mv_edge_ids := bs_insert e (mv_edge_ids s)\<rparr>)"

definition check_target :: "MirFunction \<Rightarrow> MirBlockId \<Rightarrow> check" where
  "check_target f t = error_if (\<not> bt_contains (fn_blocks f) t) t ''edge targets a missing block''"

section \<open>The function header\<close>

definition check_parameter ::
    "MirFunction \<Rightarrow> MirValidator \<times> MirValueId btree_set \<Rightarrow> MirValueId \<Rightarrow>
      MirValidator \<times> MirValueId btree_set" where
  "check_parameter f st p =
     (case st of (s, seen) \<Rightarrow>
        (in_order
           [error_if (p \<in> set seen) p ''function parameter is duplicated'',
            error_if (\<not> bt_contains (fn_values f) p) p
              ''function parameter is absent from value catalog'',
            define_at f p ''function parameter'' SiteFunctionParameter] s,
         bs_insert p seen))"

definition check_function_header :: "MirFunction \<Rightarrow> check" where
  "check_function_header f s0 =
     (let s1 = in_order
            [error_if (is_blank (node_str (fn_owner f))) ''function'' ''owner identity is empty'',
             error_if (is_blank (fn_result f)) ''function'' ''result type identity is empty'',
             error_if (\<not> bt_contains (fn_blocks f) (fn_entry f)) (fn_entry f)
               ''entry block is missing'',
             (case fn_parameter_permissions f of
                None \<Rightarrow> \<lambda>s. s
              | Some ps \<Rightarrow> error_if (length ps \<noteq> length (fn_parameters f)) ''function''
                  (''parameter permission count '' @ show_nat (length ps) @
                   '' disagrees with parameter count '' @ show_nat (length (fn_parameters f))))] s0
      in fst (foldl (check_parameter f) (s1, []) (fn_parameters f)))"

section \<open>Instructions\<close>

definition key_without_nul :: "MirValueId \<Rightarrow> string \<Rightarrow> check" where
  "key_without_nul r key = error_if (CHR 0x00 \<in> set key) r ''MapRoot key contains NUL''"

definition blank_field :: "MirProjection \<Rightarrow> bool" where
  "blank_field p = (case p of MpField field \<Rightarrow> is_blank (node_str field) | _ \<Rightarrow> False)"

definition is_index :: "MirProjection \<Rightarrow> bool" where
  "is_index p = (case p of MpIndex _ \<Rightarrow> True | _ \<Rightarrow> False)"

definition is_field :: "MirProjection \<Rightarrow> bool" where
  "is_field p = (case p of MpField _ \<Rightarrow> True | _ \<Rightarrow> False)"

definition use_option :: "MirFunction \<Rightarrow> MirValueId option \<Rightarrow> check" where
  "use_option f v = (case v of None \<Rightarrow> \<lambda>s. s | Some x \<Rightarrow> use_value f x)"

definition check_payload_field :: "MirFunction \<Rightarrow> MirValueId \<Rightarrow> NodeId \<times> MirValueId \<Rightarrow> check" where
  "check_payload_field f r fv =
     in_order [use_value f (snd fv),
       error_if (is_blank (node_str (fst fv))) r ''variant payload field identity is empty'']"

definition payload_type :: "MirFunction \<Rightarrow> MirValueId option \<Rightarrow> ResolvedTypeId option" where
  "payload_type f p =
     (case p of None \<Rightarrow> None | Some v \<Rightarrow> map_option val_ty (bt_get (fn_values f) v))"

definition check_update_kind :: "MirValueId \<Rightarrow> MirAggregateKind \<Rightarrow> check" where
  "check_update_kind r k =
     (case k of
        AggRecord _ ids \<Rightarrow>
          in_order (map (\<lambda>field. error_if (is_blank (node_str field)) r
            ''record update field identity is empty'') ids)
      | AggTuple \<Rightarrow>
          mv_error r ''record update instruction requires a record aggregate kind'')"

text \<open>What an instruction is checked for before its results are recorded.\<close>

fun check_operands :: "MirFunction \<Rightarrow> MirInstructionId \<Rightarrow> MirInstructionKind \<Rightarrow> check list" where
  "check_operands f i (IMapRootNew _) = []"
| "check_operands f i (IMapRootSet r source key v) =
     [use_value f source, use_value f v, key_without_nul r key]"
| "check_operands f i (IMapRootRemove r source key) = [use_value f source, key_without_nul r key]"
| "check_operands f i (IMapRootSize _ root) = [use_value f root]"
| "check_operands f i (IMapRootContains r root key) = [use_value f root, key_without_nul r key]"
| "check_operands f i (IMapRootDrop root) = [use_value f root]"
| "check_operands f i (IConst _ _) = []"
| "check_operands f i (ILoad _ _) = []"
| "check_operands f i (ICopy _ source) = [use_value f source]"
| "check_operands f i (IMove _ source) = [use_value f source]"
| "check_operands f i (IClone _ source) = [use_value f source]"
| "check_operands f i (IConvert _ source) = [use_value f source]"
| "check_operands f i (IDrop v) = [use_value f v]"
| "check_operands f i (IEndBorrow v) = [use_value f v]"
| "check_operands f i (IBorrow _ _ _ _ _ source _) = [use_value f source]"
| "check_operands f i (IProject r base p c) =
     [use_value f base, use_values f (projection_index p),
      error_if (is_index p \<and> c = None) r ''List index projection has no canonical receipt'',
      error_if (\<not> is_index p \<and> c \<noteq> None) r
        ''List index receipt is attached to a non-index projection'',
      error_if (blank_field p) r ''record projection field identity is empty'']"
| "check_operands f i (IMoveProject r base p) =
     [use_value f base, use_values f (projection_index p),
      error_if (blank_field p) r ''record move projection field identity is empty'']"
| "check_operands f i (IMoveProjectDrop r base p c) =
     [use_value f base, use_values f (projection_index p),
      error_if (\<not> is_field p) r
        ''record move/drop projection requires a direct field projection'',
      error_if (c = None) r ''record move/drop projection has no canonical residual receipt'']"
| "check_operands f i (IVariantProject r base c) =
     [use_value f base,
      error_if (c = None) r ''direct variant projection has no canonical trap receipt'']"
| "check_operands f i (IVariantProjectOr r base fallback c) =
     [use_value f base, use_value f fallback,
      error_if (c = None) r ''variant projection fallback has no canonical receipt'']"
| "check_operands f i (IVariantProjectMove r base c) =
     [use_value f base,
      error_if (c = None) r
        ''consuming direct variant projection has no canonical move receipt'']"
| "check_operands f i (IConstruct _ _ vs) = [use_values f vs]"
| "check_operands f i (IConstructList _ vs _) = [use_values f vs]"
| "check_operands f i (IListOp r op l arg c) =
     [use_value f l, use_option f arg,
      error_if (c = None) r ''List operation has no canonical receipt'',
      error_if (case c of None \<Rightarrow> False | Some x \<Rightarrow> lo_operation x \<noteq> op) r
        ''List operation receipt disagrees with MIR operation'']"
| "check_operands f i (IVariantPredicate r _ v c) =
     [use_value f v, error_if (c = None) r ''Variant predicate has no canonical receipt'']"
| "check_operands f i (IConstructSet _ vs) = [use_values f vs]"
| "check_operands f i (ISetOp _ _ st arg) = [use_value f st, use_option f arg]"
| "check_operands f i (IConstructVariant r _ _ fs) = map (check_payload_field f r) fs"
| "check_operands f i (IConstructVariantMove r _ _ fs) = map (check_payload_field f r) fs"
| "check_operands f i (IUpdateRecord r base k vs c m) =
     [use_value f base, use_values f vs,
      error_if (c \<noteq> None \<and> m \<noteq> None) r
        ''record update cannot carry both Copy and Move receipts'',
      check_update_kind r k]"
| "check_operands f i (IBinary _ _ l r) = [use_value f l, use_value f r]"
| "check_operands f i (IUnary _ _ v) = [use_value f v]"
| "check_operands f i (ICall _ _ _ vs _ _) = [use_values f vs]"
| "check_operands f i (IFlowTransition _ _ vs _) = [use_values f vs]"
| "check_operands f i (IBuiltinCall _ _ vs _) = [use_values f vs]"
| "check_operands f i (ISessionCall r op endpoint payload c) =
     [use_value f endpoint, use_option f payload,
      error_if (c = None) r ''SessionCall has no canonical residual/ABI receipt'',
      error_if (case c of None \<Rightarrow> False | Some x \<Rightarrow> scc_operation x \<noteq> op) r
        ''SessionCall receipt disagrees with MIR operation'',
      error_if (case c of None \<Rightarrow> False | Some x \<Rightarrow>
          payload_type f payload \<noteq> scc_payload_ty x
          \<and> (payload \<noteq> None \<or> scc_payload_ty x \<noteq> None)) r
        ''SessionCall payload value disagrees with its receipt TypeDesc identity'']"
| "check_operands f i (ISessionPairBind _ _ c) =
     [error_if (c = None) i ''typed session_pair binding has no canonical TypeDesc receipt'']"
| "check_operands f i INop = []"

definition check_instruction :: "MirFunction \<Rightarrow> MirInstruction \<Rightarrow> MirBlockId \<Rightarrow> nat \<Rightarrow> check" where
  "check_instruction f ins block index =
     in_order (check_operands f (ins_id ins) (ins_kind ins)
       @ map (\<lambda>r. result_at f r (ins_id ins) block index) (instruction_results (ins_kind ins)))"

section \<open>Terminators\<close>

text \<open>An argument and the parameter it is passed for have different declared types.\<close>

definition types_disagree :: "MirFunction \<Rightarrow> MirValueId \<Rightarrow> MirValueId \<Rightarrow> bool" where
  "types_disagree f a p =
     (case (bt_get (fn_values f) a, bt_get (fn_values f) p) of
        (Some va, Some vp) \<Rightarrow> val_ty va \<noteq> val_ty vp
      | _ \<Rightarrow> False)"

definition check_argument ::
    "MirFunction \<Rightarrow> MirBlockId \<Rightarrow> nat \<times> MirValueId \<times> MirBlockParameter \<Rightarrow> check" where
  "check_argument f t e = (case e of (i, a, p) \<Rightarrow>
     error_if (types_disagree f a (bp_value p)) t
       (''edge argument '' @ show_nat i @ '' type disagrees with target parameter''))"

definition check_binding_parameter ::
    "MirBlockId \<Rightarrow> nat \<times> MirSwitchBinding \<times> MirBlockParameter \<Rightarrow> check" where
  "check_binding_parameter t e = (case e of (i, b, p) \<Rightarrow>
     error_if (sb_parameter b \<noteq> bp_value p) t
       (''switch binding '' @ show_nat i @ '' parameter '' @ quoted (sb_parameter b) @
        '' disagrees with target parameter '' @ quoted (bp_value p)))"

definition check_arity ::
    "MirFunction \<Rightarrow> MirBlockId \<Rightarrow> MirValueId list \<Rightarrow> MirSwitchBinding list \<Rightarrow> check" where
  "check_arity f t args binds =
     (case bt_get (fn_blocks f) t of
        None \<Rightarrow> \<lambda>s. s
      | Some block \<Rightarrow>
          let ps = blk_parameters block in
          in_order
            (error_if (length ps \<noteq> length args + length binds) t
               (''edge passes '' @ show_nat (length args + length binds) @
                '' values/bindings but target expects '' @ show_nat (length ps) @ '' parameters'')
             # map (check_argument f t) (enumerate 0 (zip args ps))
             @ map (check_binding_parameter t) (enumerate 0 (zip binds (drop (length args) ps)))))"

definition blank_binding :: "MirSwitchBinding \<Rightarrow> bool" where
  "blank_binding b \<longleftrightarrow>
     is_blank (sb_parameter b) \<or> is_blank (vp_nominal (sb_projection b))
     \<or> is_blank (node_str (vp_variant (sb_projection b)))
     \<or> is_blank (node_str (vp_field (sb_projection b))) \<or> is_blank (vp_field_ty (sb_projection b))"

definition check_binding ::
    "bool \<Rightarrow> MirEdgeId \<Rightarrow> MirValidator \<times> NodeId btree_set \<Rightarrow> MirSwitchBinding \<Rightarrow>
      MirValidator \<times> NodeId btree_set" where
  "check_binding consuming e st b =
     (case st of (s, seen) \<Rightarrow>
        let direct = sb_nested_tuple b = None;
            field = vp_field (sb_projection b)
        in (in_order
              [error_if (blank_binding b) e ''switch binding identity is empty'',
               error_if (vp_arity (sb_projection b) \<le> vp_field_index (sb_projection b)) e
                 ''switch binding projection index is outside its payload arity'',
               error_if (\<not> direct \<and> \<not> consuming) e
                 ''nested tuple switch bindings require SwitchMove'',
               error_if (direct \<and> field \<in> set seen) e
                 ''switch binding field identity is duplicated'',
               (case sb_nested_tuple b of
                  None \<Rightarrow> \<lambda>s. s
                | Some nested \<Rightarrow>
                    error_if (tp_tuple_ty nested \<noteq> vp_field_ty (sb_projection b)) e
                      ''nested tuple binding source type disagrees with variant payload receipt'')] s,
            if direct then bs_insert field seen else seen))"

definition check_arm ::
    "MirFunction \<Rightarrow> bool \<Rightarrow> MirValidator \<times> bool \<Rightarrow> MirSwitchArm \<Rightarrow> MirValidator \<times> bool" where
  "check_arm f consuming st arm =
     (case st of (s0, has_default) \<Rightarrow>
        let s1 = in_order
              [check_edge (arm_edge arm), check_target f (arm_target arm),
               use_values f (arm_arguments arm),
               check_arity f (arm_target arm) (arm_arguments arm) (arm_bindings arm)] s0;
            s2 = fst (foldl (check_binding consuming (arm_edge arm)) (s1, []) (arm_bindings arm))
        in (error_if (arm_case arm = CaseDefault \<and> has_default) (arm_edge arm)
              ''switch has more than one default arm'' s2,
            arm_case arm = CaseDefault \<or> has_default))"

definition check_arms :: "MirFunction \<Rightarrow> bool \<Rightarrow> MirSwitchArm list \<Rightarrow> check" where
  "check_arms f consuming arms s = fst (foldl (check_arm f consuming) (s, False) arms)"

definition check_terminator :: "MirFunction \<Rightarrow> MirTerminator \<Rightarrow> check" where
  "check_terminator f t =
     (case t of
        TmGoto e target args \<Rightarrow>
          in_order [check_edge e, check_target f target, use_values f args,
            check_arity f target args []]
      | TmBranch c e1 t1 args1 e2 t2 args2 \<Rightarrow>
          in_order [use_value f c, check_edge e1, check_edge e2, check_target f t1,
            check_target f t2, use_values f args1, use_values f args2,
            check_arity f t1 args1 [], check_arity f t2 args2 []]
      | TmSwitch v arms \<Rightarrow> in_order [use_value f v, check_arms f False arms]
      | TmSwitchMove v arms \<Rightarrow> in_order [use_value f v, check_arms f True arms]
      | TmReturn None \<Rightarrow> (\<lambda>s. s)
      | TmReturn (Some v) \<Rightarrow>
          in_order [use_value f v,
            (case bt_get (fn_values f) v of
               None \<Rightarrow> \<lambda>s. s
             | Some x \<Rightarrow> error_if (val_ty x \<noteq> fn_result f) v
                 ''return value type disagrees with function result type'')]
      | TmFault v \<Rightarrow> use_option f v
      | TmTrap code \<Rightarrow>
          (case validate_trap_code code of
             Err m \<Rightarrow> mv_error ''terminator'' m | Ok _ \<Rightarrow> \<lambda>s. s)
      | TmUnreachable \<Rightarrow> \<lambda>s. s)"

section \<open>Blocks and the value catalog\<close>

definition check_block_parameter ::
    "MirFunction \<Rightarrow> MirBlockId \<Rightarrow> MirValidator \<times> MirValueId btree_set \<Rightarrow> MirBlockParameter \<Rightarrow>
      MirValidator \<times> MirValueId btree_set" where
  "check_block_parameter f i st p =
     (case st of (s, seen) \<Rightarrow>
        (in_order
           [error_if (bp_value p \<in> set seen) (bp_value p) ''block parameter is duplicated'',
            define_at f (bp_value p) (''block '' @ i @ '' parameter'') (SiteBlockParameter i)] s,
         bs_insert (bp_value p) seen))"

definition check_indexed_instruction ::
    "MirFunction \<Rightarrow> MirBlockId \<Rightarrow> nat \<times> MirInstruction \<Rightarrow> check" where
  "check_indexed_instruction f block e s =
     (case e of (index, ins) \<Rightarrow>
        check_instruction f ins block index
          (if ins_id ins \<in> set (mv_instruction_ids s)
           then mv_error (ins_id ins) ''instruction identity is duplicated'' s
           else s\<lparr>mv_instruction_ids := bs_insert (ins_id ins) (mv_instruction_ids s)\<rparr>))"

definition check_block :: "MirFunction \<Rightarrow> MirBlockId \<times> MirBlock \<Rightarrow> check" where
  "check_block f e s =
     (case e of (i, block) \<Rightarrow>
        let s1 = error_if (i \<noteq> blk_id block) i ''block map key disagrees with block identity'' s;
            s2 = fst (foldl (check_block_parameter f i) (s1, []) (blk_parameters block));
            s3 = in_order (map (check_indexed_instruction f i)
                   (enumerate 0 (blk_instructions block))) s2
        in check_terminator f (blk_terminator block) s3)"

definition check_catalog_entry :: "MirValueId \<times> MirValue \<Rightarrow> check" where
  "check_catalog_entry e s =
     (case e of (i, v) \<Rightarrow>
        in_order
          [error_if (i \<noteq> val_id v) i ''value catalog key disagrees with value identity'',
           error_if (is_blank (val_ty v)) i ''value type identity is empty'',
           error_if (\<not> bt_contains (mv_definitions s) i) i
             ''value is declared but never defined''] s)"

text \<open>\<open>check_blocks\<close> up to its last call, \<open>check_dominance\<close>.\<close>

definition check_shape :: "MirFunction \<Rightarrow> check" where
  "check_shape f =
     in_order (map (check_block f) (fn_blocks f) @ map check_catalog_entry (fn_values f))"

end
