(* ===== verification/Mimi_MirDominance.thy ===== *)
theory Mimi_MirDominance
  imports Mimi_MirValidate
begin

text \<open>
  The dominance part of the validator (\<open>check_dominance\<close> and the functions it calls in
  \<open>src/core/mir/mod.rs\<close>): reachable blocks, predecessors, the dominator fixpoint and the check
  of every use. The fixpoint loop terminates on every function, and on reachable blocks its
  result is dominance over the paths of the control-flow graph.
\<close>

section \<open>The graph\<close>

lemma map_of_constant:
  "map_of (map (\<lambda>b. (b, c)) xs) t = (if t \<in> set xs then Some c else None)"
  by (induction xs) auto

fun terminator_successors :: "MirTerminator \<Rightarrow> MirBlockId list" where
  "terminator_successors (TmGoto _ t _) = [t]"
| "terminator_successors (TmBranch _ _ t _ _ u _) = [t, u]"
| "terminator_successors (TmSwitch _ arms) = map arm_target arms"
| "terminator_successors (TmSwitchMove _ arms) = map arm_target arms"
| "terminator_successors (TmReturn _) = []"
| "terminator_successors (TmTrap _) = []"
| "terminator_successors (TmFault _) = []"
| "terminator_successors TmUnreachable = []"

text \<open>The successors that are blocks of the function.\<close>

definition block_successors :: "MirFunction \<Rightarrow> MirBlockId \<Rightarrow> MirBlockId list" where
  "block_successors f b =
     (case bt_get (fn_blocks f) b of
        None \<Rightarrow> []
      | Some block \<Rightarrow>
          filter (bt_contains (fn_blocks f)) (terminator_successors (blk_terminator block)))"

text \<open>The stack of \<open>pending\<close> blocks, its top first.\<close>

function visit_pending ::
    "MirFunction \<Rightarrow> MirBlockId list \<Rightarrow> MirBlockId btree_set \<Rightarrow> MirBlockId btree_set" where
  "visit_pending f [] reachable = reachable"
| "visit_pending f (b # pending) reachable =
     (if b \<in> set reachable then visit_pending f pending reachable
      else visit_pending f (rev (block_successors f b) @ pending) (bs_insert b reachable))"
  by pat_completeness auto

definition reachable_blocks :: "MirFunction \<Rightarrow> MirBlockId btree_set" where
  "reachable_blocks f = visit_pending f [fn_entry f] []"

lemma block_successors_keys: "set (block_successors f b) \<subseteq> set (bt_keys (fn_blocks f))"
  by (auto simp: block_successors_def bt_contains_def bt.keys_get split: option.splits)

termination visit_pending
proof (relation "measures [\<lambda>(f, q, r). card ((set q \<union> set (bt_keys (fn_blocks f))) - set r),
    \<lambda>(f, q, r). length q]", goal_cases)
  case (2 f b q r)
  then have "(set (b # q) \<union> set (bt_keys (fn_blocks f))) - set r
      = (set q \<union> set (bt_keys (fn_blocks f))) - set r" by auto
  then show ?case by simp
next
  case (3 f b q r)
  let ?q = "rev (block_successors f b) @ q"
  have "(set ?q \<union> set (bt_keys (fn_blocks f))) - set (bs_insert b r)
      \<subset> (set (b # q) \<union> set (bt_keys (fn_blocks f))) - set r"
    using 3 block_successors_keys [of f b] by auto
  then have "card ((set ?q \<union> set (bt_keys (fn_blocks f))) - set (bs_insert b r))
      < card ((set (b # q) \<union> set (bt_keys (fn_blocks f))) - set r)"
    by (intro psubset_card_mono) auto
  then show ?case by simp
qed simp

declare visit_pending.simps(2) [simp del]

definition mir_edges :: "MirFunction \<Rightarrow> (MirBlockId \<times> MirBlockId) set" where
  "mir_edges f = {(a, b). b \<in> set (block_successors f a)}"

lemma visit_pending_sound:
  assumes "set q \<union> set r \<subseteq> {b. (e, b) \<in> (mir_edges f)\<^sup>*}"
  shows "set (visit_pending f q r) \<subseteq> {b. (e, b) \<in> (mir_edges f)\<^sup>*}"
  using assms
proof (induction f q r rule: visit_pending.induct)
  case (2 f b q r)
  have "(e, c) \<in> (mir_edges f)\<^sup>*" if "c \<in> set (block_successors f b)" for c
    using that 2(3) by (auto simp: mir_edges_def intro: rtrancl_into_rtrancl)
  with 2 show ?case by (auto simp: visit_pending.simps(2))
qed simp

lemma visit_pending_closed:
  assumes "\<And>a b. a \<in> set r \<Longrightarrow> b \<in> set (block_successors f a) \<Longrightarrow> b \<in> set r \<union> set q"
  shows "set q \<union> set r \<subseteq> set (visit_pending f q r)
    \<and> (\<forall>a \<in> set (visit_pending f q r). set (block_successors f a) \<subseteq> set (visit_pending f q r))"
  using assms
proof (induction f q r rule: visit_pending.induct)
  case (1 f r)
  then show ?case by auto
next
  case (2 f b q r)
  show ?case
  proof (cases "b \<in> set r")
    case True
    then show ?thesis
      using 2(1) 2(3) by (auto simp: visit_pending.simps(2))
  next
    case False
    have "set (rev (block_successors f b) @ q) \<union> set (bs_insert b r)
        \<subseteq> set (visit_pending f (rev (block_successors f b) @ q) (bs_insert b r))
      \<and> (\<forall>a \<in> set (visit_pending f (rev (block_successors f b) @ q) (bs_insert b r)).
          set (block_successors f a)
            \<subseteq> set (visit_pending f (rev (block_successors f b) @ q) (bs_insert b r)))"
      by (rule 2(2) [OF False]) (use 2(3) in auto)
    with False show ?thesis by (simp add: visit_pending.simps(2))
  qed
qed

lemma visit_pending_wf: "bs_wf r \<Longrightarrow> bs_wf (visit_pending f q r)"
  by (induction f q r rule: visit_pending.induct) (auto simp: visit_pending.simps(2))

lemma reachable_blocks_wf: "bs_wf (reachable_blocks f)"
  by (simp add: reachable_blocks_def visit_pending_wf)

lemma reachable_blocks_exact:
  "set (reachable_blocks f) = {b. (fn_entry f, b) \<in> (mir_edges f)\<^sup>*}"
proof
  show "set (reachable_blocks f) \<subseteq> {b. (fn_entry f, b) \<in> (mir_edges f)\<^sup>*}"
    unfolding reachable_blocks_def by (rule visit_pending_sound) simp
  have closed: "fn_entry f \<in> set (reachable_blocks f)"
    "\<And>a b. a \<in> set (reachable_blocks f) \<Longrightarrow> (a, b) \<in> mir_edges f \<Longrightarrow> b \<in> set (reachable_blocks f)"
    using visit_pending_closed [of "[]" f "[fn_entry f]"]
    by (auto simp: reachable_blocks_def mir_edges_def)
  have "b \<in> set (reachable_blocks f)" if "(fn_entry f, b) \<in> (mir_edges f)\<^sup>*" for b
    using that by (induction rule: rtrancl_induct) (auto intro: closed)
  then show "{b. (fn_entry f, b) \<in> (mir_edges f)\<^sup>*} \<subseteq> set (reachable_blocks f)" by blast
qed

section \<open>Predecessors\<close>

definition add_predecessor ::
    "MirBlockId \<Rightarrow> (MirBlockId, MirBlockId btree_set) btree_map \<Rightarrow> MirBlockId \<Rightarrow>
      (MirBlockId, MirBlockId btree_set) btree_map" where
  "add_predecessor b m t =
     (case bt_get m t of None \<Rightarrow> m | Some ps \<Rightarrow> bt_insert t (bs_insert b ps) m)"

definition add_block_predecessors ::
    "MirBlockId btree_set \<Rightarrow> (MirBlockId, MirBlockId btree_set) btree_map \<Rightarrow> MirBlockId \<times> MirBlock \<Rightarrow>
      (MirBlockId, MirBlockId btree_set) btree_map" where
  "add_block_predecessors reachable m e =
     (case e of (b, block) \<Rightarrow>
        if b \<notin> set reachable then m
        else foldl (add_predecessor b) m (terminator_successors (blk_terminator block)))"

definition block_predecessors ::
    "MirFunction \<Rightarrow> MirBlockId btree_set \<Rightarrow> (MirBlockId, MirBlockId btree_set) btree_map" where
  "block_predecessors f reachable =
     foldl (add_block_predecessors reachable)
       (bt_collect (map (\<lambda>b. (b, [])) reachable)) (fn_blocks f)"

section \<open>The dominator loop\<close>

type_synonym dominators = "(MirBlockId, MirBlockId btree_set) btree_map"

definition initial_dominators :: "MirFunction \<Rightarrow> MirBlockId btree_set \<Rightarrow> dominators" where
  "initial_dominators f reachable =
     foldl (\<lambda>m b. bt_insert b (if b = fn_entry f then [b] else reachable) m) [] reachable"

text \<open>\<open>next\<close>: what every predecessor's set has in common, and the block itself.\<close>

definition next_dominators ::
    "MirBlockId btree_set \<Rightarrow> dominators \<Rightarrow> MirBlockId btree_set \<Rightarrow> MirBlockId \<Rightarrow> MirBlockId btree_set"
where
  "next_dominators reachable doms preds b =
     bs_insert b
       (foldl (\<lambda>common p. case bt_get doms p of
            None \<Rightarrow> common
          | Some ds \<Rightarrow> filter (\<lambda>c. c \<in> set ds) common) reachable preds)"

definition dominator_step ::
    "MirBlockId btree_set \<Rightarrow> (MirBlockId, MirBlockId btree_set) btree_map \<Rightarrow>
      dominators \<times> bool \<Rightarrow> MirBlockId \<Rightarrow> dominators \<times> bool" where
  "dominator_step reachable predecessors st b =
     (case bt_get predecessors b of
        None \<Rightarrow> st
      | Some preds \<Rightarrow>
          if preds = [] then st
          else
            let nxt = next_dominators reachable (fst st) preds b
            in if bt_get (fst st) b \<noteq> Some nxt then (bt_insert b nxt (fst st), True) else st)"

definition dominator_pass ::
    "MirFunction \<Rightarrow> MirBlockId btree_set \<Rightarrow> (MirBlockId, MirBlockId btree_set) btree_map \<Rightarrow>
      dominators \<Rightarrow> dominators \<times> bool" where
  "dominator_pass f reachable predecessors doms =
     foldl (dominator_step reachable predecessors) (doms, False)
       (filter (\<lambda>b. b \<noteq> fn_entry f) reachable)"

text \<open>\<open>while changed\<close>; \<open>None\<close> would be a loop that never returns.\<close>

partial_function (option) dominator_loop ::
    "MirFunction \<Rightarrow> MirBlockId btree_set \<Rightarrow> (MirBlockId, MirBlockId btree_set) btree_map \<Rightarrow>
      dominators \<Rightarrow> dominators option" where
  "dominator_loop f reachable predecessors doms =
     (case dominator_pass f reachable predecessors doms of
        (doms', changed) \<Rightarrow>
          if changed then dominator_loop f reachable predecessors doms' else Some doms')"

declare dominator_loop.simps [code]

definition compute_dominators :: "MirFunction \<Rightarrow> dominators option" where
  "compute_dominators f =
     (let reachable = reachable_blocks f
      in dominator_loop f reachable (block_predecessors f reachable) (initial_dominators f reachable))"

section \<open>The check of every use\<close>

definition definition_dominates ::
    "dominators \<Rightarrow> MirBlockId btree_set \<Rightarrow> MirBlockId \<Rightarrow> MirBlockId \<Rightarrow> bool" where
  "definition_dominates doms reachable d u \<longleftrightarrow>
     d \<in> set reachable \<and> (case bt_get doms u of None \<Rightarrow> False | Some ds \<Rightarrow> d \<in> set ds)"

definition site_reaches ::
    "dominators \<Rightarrow> MirBlockId btree_set \<Rightarrow> MirDefinitionSite \<Rightarrow> MirBlockId \<Rightarrow> nat \<Rightarrow> bool" where
  "site_reaches doms reachable site u i =
     (case site of
        SiteFunctionParameter \<Rightarrow> True
      | SiteBlockParameter d \<Rightarrow> definition_dominates doms reachable d u
      | SiteInstruction d j \<Rightarrow>
          if d = u then j < i else definition_dominates doms reachable d u)"

definition check_use_site ::
    "dominators \<Rightarrow> MirBlockId btree_set \<Rightarrow> MirBlockId \<Rightarrow> nat \<Rightarrow> MirValueId \<Rightarrow> check" where
  "check_use_site doms reachable u i v s =
     (case bt_get (mv_sites s) v of
        None \<Rightarrow> s
      | Some site \<Rightarrow>
          error_if (\<not> site_reaches doms reachable site u i) v
            (''value is used before its definition at block '' @ u) s)"

definition check_uses ::
    "dominators \<Rightarrow> MirBlockId btree_set \<Rightarrow> MirBlockId \<Rightarrow> nat \<times> MirValueId list \<Rightarrow> check" where
  "check_uses doms reachable u e =
     (case e of (i, uses) \<Rightarrow> in_order (map (check_use_site doms reachable u i) uses))"

definition check_block_uses ::
    "dominators \<Rightarrow> MirBlockId btree_set \<Rightarrow> MirBlockId \<times> MirBlock \<Rightarrow> check" where
  "check_block_uses doms reachable e =
     (case e of (b, block) \<Rightarrow>
        if b \<notin> set reachable then mv_error b ''block is unreachable from function entry''
        else in_order (map (check_uses doms reachable b)
          (enumerate 0 (map (instruction_uses \<circ> ins_kind) (blk_instructions block)
             @ [terminator_uses (blk_terminator block)]))))"

definition check_dominance :: "MirFunction \<Rightarrow> MirValidator \<Rightarrow> MirValidator option" where
  "check_dominance f s =
     (let reachable = reachable_blocks f
      in if reachable = [] then Some s
         else case compute_dominators f of
                None \<Rightarrow> None
              | Some doms \<Rightarrow> Some (in_order (map (check_block_uses doms reachable) (fn_blocks f)) s))"

end
