(* ===== verification/Mimi_MirOwnership.thy ===== *)
theory Mimi_MirOwnership
  imports Mimi_MirDominance
begin

text \<open>
  The ownership summary a function carries (\<open>MirOwnershipSummary::validate\<close> and
  \<open>MirValidator::check_ownership\<close> in \<open>src/core/mir/mod.rs\<close>): identities and required metadata
  of the events and of the checker's loan contracts.
\<close>

section \<open>The summary on its own\<close>

definition report :: "bool \<Rightarrow> string \<Rightarrow> string \<Rightarrow> MirValidationError list" where
  "report c subject msg = (if c then [\<lparr>ve_subject = subject, ve_message = msg\<rparr>] else [])"

lemma report_Nil [simp]: "report c s m = [] \<longleftrightarrow> \<not> c"
  by (simp add: report_def)

text \<open>\<open>is_none_or\<close> over an optional identity: absent or blank.\<close>

definition none_or_blank :: "NodeId option \<Rightarrow> bool" where
  "none_or_blank n = (case n of None \<Rightarrow> True | Some i \<Rightarrow> is_blank (node_str i))"

definition needs_source :: "MirOwnershipEventKind \<Rightarrow> bool" where
  "needs_source k \<longleftrightarrow> k \<in> {OeMove, OeDrop, OeReturn, OeTransferSession, OeTransferChild}"

definition is_borrow_start :: "MirOwnershipEventKind \<Rightarrow> bool" where
  "is_borrow_start k \<longleftrightarrow> k = OeBorrowShared \<or> k = OeBorrowMut"

definition is_borrow_event :: "MirOwnershipEventKind \<Rightarrow> bool" where
  "is_borrow_event k \<longleftrightarrow> is_borrow_start k \<or> k = OeBorrowEnd"

definition loan_of_point :: "NodeId \<Rightarrow> string" where
  "loan_of_point p = node_str p @ ''/loan''"

definition event_errors :: "nat \<times> MirOwnershipEvent \<Rightarrow> MirValidationError list" where
  "event_errors e = (case e of (i, ev) \<Rightarrow>
     let subject = ''ownership['' @ show_nat i @ '']'';
         k = oe_kind ev; name = event_kind_str k
     in report (is_blank (oe_resource ev)) subject ''resource identity is empty''
        @ report (is_blank (node_str (oe_point ev))) subject ''event point identity is empty''
        @ report (needs_source k \<and> oe_source ev = None) subject
            (name @ '' event has no source place'')
        @ (if is_borrow_event k
           then report (none_or_blank (oe_loan ev)) subject
                  (name @ '' event has no stable loan identity'')
                @ report (none_or_blank (oe_checker_block ev)) subject
                  (name @ '' event has no checker CFG block identity'')
           else report (oe_loan ev \<noteq> None \<or> oe_checker_block ev \<noteq> None \<or> oe_checker_edge ev \<noteq> None)
                  subject ''non-borrow event carries checker loan metadata'')
        @ (if is_borrow_start k
           then report (oe_source ev = None \<or> oe_checker_edge ev \<noteq> None) subject
                  ''borrow start requires a source place and cannot name a CFG edge''
                @ report (case oe_loan ev of None \<Rightarrow> False
                    | Some l \<Rightarrow> node_str l \<noteq> loan_of_point (oe_point ev)) subject
                  ''borrow-start loan identity is not derived from its resolved point''
           else [])
        @ report (k = OeBorrowEnd \<and> oe_target ev \<noteq> None) subject
            ''borrow end cannot name a target place'')"

definition end_site_errors ::
    "string \<Rightarrow> MirCheckerLoanContract \<Rightarrow> MirValidationError list \<times> MirCheckerLoanEndSite list \<Rightarrow>
      MirCheckerLoanEndSite \<Rightarrow> MirValidationError list \<times> MirCheckerLoanEndSite list" where
  "end_site_errors subject c st e = (case st of (errs, seen) \<Rightarrow>
     (errs
      @ report (is_blank (node_str (ll_block (le_location e)))
          \<or> is_blank (node_str (ll_point (le_location e))) \<or> le_resource e \<noteq> cl_resource c
          \<or> le_value e \<noteq> cl_value c
          \<or> (case le_source e of None \<Rightarrow> False | Some x \<Rightarrow> x \<noteq> place_display (cl_place c)))
          subject ''checker loan contract contains an invalid borrow-end site''
      @ report (e \<in> set seen) subject
          ''checker loan contract contains a duplicate borrow-end site'',
      e # seen))"

definition loan_errors :: "NodeId \<times> MirCheckerLoanContract \<Rightarrow> MirValidationError list" where
  "loan_errors lc = (case lc of (l, c) \<Rightarrow>
     let subject = ''loan['' @ node_str l @ '']''
     in report (l \<noteq> cl_loan c) subject
          ''checker loan contract key disagrees with its loan identity''
        @ report (is_blank (cl_resource c) \<or> is_blank (node_str (ll_block (cl_start c)))
            \<or> is_blank (node_str (ll_point (cl_start c))) \<or> ll_edge (cl_start c) \<noteq> None
            \<or> is_blank (place_display (cl_place c))
            \<or> node_str (cl_loan c) \<noteq> loan_of_point (ll_point (cl_start c))) subject
          ''checker loan contract has an invalid borrow-start location or place''
        @ fst (foldl (end_site_errors subject c) ([], []) (cl_ends c)))"

definition summary_validate :: "MirOwnershipSummary \<Rightarrow> MirValidationError list + unit" where
  "summary_validate s =
     (let errors = concat (map event_errors (enumerate 0 (os_events s)))
            @ concat (map loan_errors (os_checker_loans s))
      in if errors = [] then Ok () else Err errors)"

section \<open>The summary in its function\<close>

definition event_value_check :: "MirFunction \<Rightarrow> nat \<times> MirOwnershipEvent \<Rightarrow> check" where
  "event_value_check f e = (case e of (i, ev) \<Rightarrow>
     (case oe_value ev of
        None \<Rightarrow> \<lambda>s. s
      | Some v \<Rightarrow> error_if (\<not> bt_contains (fn_values f) v) (''ownership['' @ show_nat i @ '']'')
          (''event value '' @ quoted v @ '' is absent from the function value catalog'')))"

definition check_ownership :: "MirFunction \<Rightarrow> check" where
  "check_ownership f s0 =
     (let s1 = (case summary_validate (fn_ownership f) of
                  Ok _ \<Rightarrow> s0 | Err errors \<Rightarrow> s0\<lparr>mv_errors := mv_errors s0 @ errors\<rparr>)
      in in_order (map (event_value_check f) (enumerate 0 (os_events (fn_ownership f)))) s1)"

text \<open>The validator of one function: \<open>None\<close> would be a dominator loop that never returns.\<close>

definition run_validator :: "MirFunction \<Rightarrow> MirValidator option" where
  "run_validator f =
     (case check_dominance f (check_shape f (check_function_header f validator_new)) of
        None \<Rightarrow> None
      | Some s \<Rightarrow> Some (check_ownership f s))"

definition validator_finish :: "MirValidator \<Rightarrow> MirValidationError list + unit" where
  "validator_finish s = (if mv_errors s = [] then Ok () else Err (mv_errors s))"

end
