(* ===== verification/Mimi_MirChecks.thy ===== *)
theory Mimi_MirChecks
  imports Mimi_MirOwnership
begin

text \<open>
  How the validator's checks compose. A check never removes an error, so a run that ends without
  errors passed each of its checks; and the definition sites it records are places where the
  function really defines the value.
\<close>

section \<open>Checks only add errors\<close>

definition adds_errors :: "check \<Rightarrow> bool" where
  "adds_errors c \<longleftrightarrow> (\<forall>s. mv_errors (c s) = [] \<longrightarrow> mv_errors s = [])"

text \<open>A check that some state passes.\<close>

definition passes :: "check \<Rightarrow> bool" where
  "passes c \<longleftrightarrow> (\<exists>s. mv_errors (c s) = [])"

lemma adds_errorsD: "adds_errors c \<Longrightarrow> mv_errors (c s) = [] \<Longrightarrow> mv_errors s = []"
  by (simp add: adds_errors_def)

lemma passesI: "mv_errors (c s) = [] \<Longrightarrow> passes c"
  by (auto simp: passes_def)

lemma adds_errors_id [intro, simp]: "adds_errors (\<lambda>s. s)"
  by (simp add: adds_errors_def)

lemma adds_errors_error [intro, simp]: "adds_errors (mv_error a b)"
  by (simp add: adds_errors_def mv_error_def)

lemma adds_errors_if [intro, simp]: "adds_errors (error_if c a b)"
  by (simp add: adds_errors_def error_if_def mv_error_def)

lemma passes_error_if [simp]: "passes (error_if c a b) \<longleftrightarrow> \<not> c"
  by (auto simp: passes_def error_if_def mv_error_def validator_new_def
      intro: exI [of _ validator_new])

lemma in_order_Nil [simp]: "in_order [] s = s"
  by (simp add: in_order_def)

lemma in_order_Cons [simp]: "in_order (c # cs) s = in_order cs (c s)"
  by (simp add: in_order_def)

lemma in_order_append [simp]: "in_order (cs @ ds) s = in_order ds (in_order cs s)"
  by (simp add: in_order_def)

lemma adds_errorsI: "(\<And>s. mv_errors (c s) = [] \<Longrightarrow> mv_errors s = []) \<Longrightarrow> adds_errors c"
  by (simp add: adds_errors_def)

lemma in_order_adds_errors:
  assumes "\<And>c. c \<in> set cs \<Longrightarrow> adds_errors c" and "mv_errors (in_order cs s) = []"
  shows "mv_errors s = []"
  using assms
proof (induction cs arbitrary: s)
  case (Cons c cs)
  then have "mv_errors (c s) = []" by simp
  with Cons.prems(1) [of c] show ?case by (simp add: adds_errorsD)
qed simp

lemma adds_errors_in_order [intro!]:
  "(\<And>c. c \<in> set cs \<Longrightarrow> adds_errors c) \<Longrightarrow> adds_errors (in_order cs)"
  by (rule adds_errorsI) (rule in_order_adds_errors)

lemma in_order_passes:
  assumes "mv_errors (in_order cs s) = []" and "\<And>c. c \<in> set cs \<Longrightarrow> adds_errors c"
  shows "\<forall>c \<in> set cs. passes c"
  using assms
proof (induction cs arbitrary: s)
  case (Cons c cs)
  have "mv_errors (c s) = []"
    by (rule in_order_adds_errors [of cs]) (use Cons.prems in simp_all)
  moreover have "\<forall>d \<in> set cs. passes d"
    by (rule Cons.IH [of "c s"]) (use Cons.prems in simp_all)
  ultimately show ?case by (simp add: passesI)
qed simp

text \<open>A fold that carries more than the validator's state.\<close>

lemma fold_adds_errors:
  assumes "\<And>st x. x \<in> set xs \<Longrightarrow> mv_errors (fst (g st x)) = [] \<Longrightarrow> mv_errors (fst st) = []"
  shows "mv_errors (fst (foldl g st xs)) = [] \<Longrightarrow>
    mv_errors (fst st) = [] \<and> (\<forall>x \<in> set xs. \<exists>st'. mv_errors (fst (g st' x)) = [])"
  using assms
proof (induction xs arbitrary: st)
  case (Cons x xs)
  have "mv_errors (fst (g st x)) = [] \<and> (\<forall>y \<in> set xs. \<exists>st'. mv_errors (fst (g st' y)) = [])"
    by (rule Cons.IH [of "g st x"])
      (use Cons.prems(1) in simp, rule Cons.prems(2) [OF list.set_intros(2)])
  moreover from this have "mv_errors (fst st) = []" using Cons.prems(2) [of x st] by simp
  ultimately show ?case unfolding list.set(2) by blast
qed simp

lemma adds_errors_define [intro, simp]: "adds_errors (define_at f v subject site)"
  by (auto simp: adds_errors_def define_at_def error_if_def mv_error_def Let_def
      split: option.splits if_splits)

lemma adds_errors_edge [intro, simp]: "adds_errors (check_edge e)"
  by (simp add: adds_errors_def check_edge_def mv_error_def)

lemma adds_errors_use [intro, simp]:
  "adds_errors (use_value f v)" "adds_errors (use_values f vs)" "adds_errors (use_option f w)"
  "adds_errors (check_target f t)"
  by (auto simp: use_value_def use_values_def use_option_def check_target_def split: option.split)

lemma adds_errors_result [intro, simp]: "adds_errors (result_at f v i b n)"
  by (simp add: result_at_def)

lemma passes_use [simp]: "passes (use_value f v) \<longleftrightarrow> bt_contains (fn_values f) v"
  "passes (check_target f t) \<longleftrightarrow> bt_contains (fn_blocks f) t"
  by (simp_all add: use_value_def check_target_def)

lemma passes_use_values: "passes (use_values f vs) \<Longrightarrow> \<forall>v \<in> set vs. bt_contains (fn_values f) v"
  unfolding passes_def use_values_def by (auto dest!: in_order_passes)

lemma passes_use_option: "passes (use_option f w) \<Longrightarrow> w = Some v \<Longrightarrow> bt_contains (fn_values f) v"
  by (simp add: use_option_def)

lemma adds_errors_update_kind [intro, simp]: "adds_errors (check_update_kind r k)"
  by (auto simp: check_update_kind_def split: MirAggregateKind.splits)

lemma adds_errors_payload [intro, simp]: "adds_errors (check_payload_field f r fv)"
  by (auto simp: check_payload_field_def)

lemma adds_errors_operands: "c \<in> set (check_operands f i k) \<Longrightarrow> adds_errors c"
  by (cases k) (auto simp: key_without_nul_def)

lemma adds_errors_instruction [intro, simp]: "adds_errors (check_instruction f ins b i)"
  unfolding check_instruction_def by (rule adds_errors_in_order) (auto dest: adds_errors_operands)

lemma adds_errors_arity [intro, simp]: "adds_errors (check_arity f t args binds)"
  unfolding check_arity_def
  by (auto simp: Let_def check_argument_def check_binding_parameter_def split: option.splits
      intro!: adds_errors_in_order)

section \<open>Terminators\<close>

lemma binding_adds_errors:
  "mv_errors (fst (check_binding consuming e st b)) = [] \<Longrightarrow> mv_errors (fst st) = []"
  by (auto simp: check_binding_def Let_def error_if_def mv_error_def
      split: prod.splits option.splits if_splits)

lemma arm_adds_errors:
  assumes "mv_errors (fst (check_arm f consuming st arm)) = []"
  shows "mv_errors (fst st) = [] \<and> bt_contains (fn_blocks f) (arm_target arm)
    \<and> (\<forall>v \<in> set (arm_arguments arm). bt_contains (fn_values f) v)
    \<and> passes (check_arity f (arm_target arm) (arm_arguments arm) (arm_bindings arm))"
proof -
  obtain s0 dflt where st: "st = (s0, dflt)" by (cases st)
  let ?cs = "[check_edge (arm_edge arm), check_target f (arm_target arm),
      use_values f (arm_arguments arm),
      check_arity f (arm_target arm) (arm_arguments arm) (arm_bindings arm)]"
  let ?s2 = "fst (foldl (check_binding consuming (arm_edge arm)) (in_order ?cs s0, [])
      (arm_bindings arm))"
  have "mv_errors ?s2 = []"
    using assms adds_errorsD [OF adds_errors_if]
    by (simp add: st check_arm_def Let_def del: in_order_Cons)
  then have "mv_errors (in_order ?cs s0) = []"
    using fold_adds_errors [of "arm_bindings arm" "check_binding consuming (arm_edge arm)"
        "(in_order ?cs s0, [])"] binding_adds_errors by auto
  moreover have "adds_errors c" if "c \<in> set ?cs" for c using that by auto
  ultimately have "mv_errors s0 = []" and "\<forall>c \<in> set ?cs. passes c"
    using in_order_passes adds_errorsD [OF adds_errors_in_order] by blast+
  then show ?thesis by (auto simp: st dest: passes_use_values)
qed

lemma adds_errors_arms [intro, simp]: "adds_errors (check_arms f consuming arms)"
proof (rule adds_errorsI)
  fix s
  assume "mv_errors (check_arms f consuming arms s) = []"
  then show "mv_errors s = []"
    using fold_adds_errors [of arms "check_arm f consuming" "(s, False)"] arm_adds_errors
    by (simp add: check_arms_def)
qed

lemma passes_arms:
  assumes "passes (check_arms f consuming arms)" and "arm \<in> set arms"
  shows "bt_contains (fn_blocks f) (arm_target arm)
    \<and> (\<forall>v \<in> set (arm_arguments arm). bt_contains (fn_values f) v)
    \<and> passes (check_arity f (arm_target arm) (arm_arguments arm) (arm_bindings arm))"
proof -
  obtain s where "mv_errors (fst (foldl (check_arm f consuming) (s, False) arms)) = []"
    using assms(1) by (auto simp: passes_def check_arms_def)
  then obtain st where "mv_errors (fst (check_arm f consuming st arm)) = []"
    using fold_adds_errors [of arms "check_arm f consuming" "(s, False)"] arm_adds_errors assms(2)
    by blast
  then show ?thesis by (simp add: arm_adds_errors)
qed

lemma adds_errors_terminator [intro, simp]: "adds_errors (check_terminator f t)"
  by (cases t) (auto simp: check_terminator_def split: option.split sum.split)

lemma passes_terminator:
  assumes "passes (check_terminator f t)"
  shows "(\<forall>b \<in> set (terminator_successors t). bt_contains (fn_blocks f) b)
    \<and> (\<forall>v \<in> set (terminator_uses t). bt_contains (fn_values f) v)"
proof -
  obtain s where s: "mv_errors (check_terminator f t s) = []" using assms by (auto simp: passes_def)
  show ?thesis
  proof (cases t)
    case (TmGoto e b vs)
    have "\<forall>c \<in> set [check_edge e, check_target f b, use_values f vs, check_arity f b vs []]. passes c"
      by (rule in_order_passes [of _ s]) (use s in \<open>auto simp: TmGoto check_terminator_def\<close>)
    then show ?thesis by (auto simp: TmGoto dest: passes_use_values)
  next
    case (TmBranch c e1 b1 vs e2 b2 ws)
    have "\<forall>c \<in> set [use_value f c, check_edge e1, check_edge e2, check_target f b1,
        check_target f b2, use_values f vs, use_values f ws, check_arity f b1 vs [],
        check_arity f b2 ws []]. passes c"
      by (rule in_order_passes [of _ s]) (use s in \<open>auto simp: TmBranch check_terminator_def\<close>)
    then show ?thesis by (auto simp: TmBranch dest: passes_use_values)
  next
    case (TmSwitch v arms)
    have "\<forall>c \<in> set [use_value f v, check_arms f False arms]. passes c"
      by (rule in_order_passes [of _ s]) (use s in \<open>auto simp: TmSwitch check_terminator_def\<close>)
    then show ?thesis by (auto simp: TmSwitch dest: passes_arms)
  next
    case (TmSwitchMove v arms)
    have "\<forall>c \<in> set [use_value f v, check_arms f True arms]. passes c"
      by (rule in_order_passes [of _ s]) (use s in \<open>auto simp: TmSwitchMove check_terminator_def\<close>)
    then show ?thesis by (auto simp: TmSwitchMove dest: passes_arms)
  next
    case (TmReturn w)
    have "bt_contains (fn_values f) v" if "w = Some v" for v
    proof -
      have "\<forall>c \<in> set [use_value f v, case bt_get (fn_values f) v of None \<Rightarrow> \<lambda>s. s
          | Some x \<Rightarrow> error_if (val_ty x \<noteq> fn_result f) v
              ''return value type disagrees with function result type'']. passes c"
        by (rule in_order_passes [of _ s])
          (use s in \<open>auto simp: TmReturn that check_terminator_def split: option.split\<close>)
      then show ?thesis by simp
    qed
    then show ?thesis by (auto simp: TmReturn split: option.split)
  next
    case (TmFault w)
    have "passes (use_option f w)" using s by (auto simp: TmFault check_terminator_def intro: passesI)
    then show ?thesis by (auto simp: TmFault dest: passes_use_option split: option.split)
  qed auto
qed

lemma passes_payload:
  assumes "passes (check_payload_field f r (n, u))" shows "bt_contains (fn_values f) u"
proof -
  obtain s where "mv_errors (check_payload_field f r (n, u) s) = []"
    using assms by (auto simp: passes_def)
  then have "\<forall>c \<in> set [use_value f u,
      error_if (is_blank (node_str n)) r ''variant payload field identity is empty'']. passes c"
    unfolding check_payload_field_def by (intro in_order_passes [of _ s]) auto
  then show ?thesis by simp
qed

text \<open>Every operand of an instruction except the local a \<open>Load\<close> names is in the value catalog.\<close>

lemma passes_operands:
  assumes "mv_errors (in_order (check_operands f i k) s) = []" and "\<And>r p. k \<noteq> ILoad r p"
    and "v \<in> set (instruction_uses k)"
  shows "bt_contains (fn_values f) v"
proof -
  have "\<forall>c \<in> set (check_operands f i k). passes c"
    by (rule in_order_passes [OF assms(1)]) (rule adds_errors_operands)
  then show ?thesis
    using assms(2,3)
    by (cases k) (force dest: passes_use_values passes_use_option passes_payload split: option.splits)+
qed

section \<open>The recorded sites are real\<close>

fun site_defines :: "MirFunction \<Rightarrow> MirValueId \<Rightarrow> MirDefinitionSite \<Rightarrow> bool" where
  "site_defines f v SiteFunctionParameter = (v \<in> set (fn_parameters f))"
| "site_defines f v (SiteBlockParameter b) =
     (\<exists>k. bt_get (fn_blocks f) b = Some k \<and> v \<in> bp_value ` set (blk_parameters k))"
| "site_defines f v (SiteInstruction b i) =
     (\<exists>k. bt_get (fn_blocks f) b = Some k \<and> i < length (blk_instructions k)
       \<and> v \<in> set (instruction_results (ins_kind (blk_instructions k ! i))))"

definition sites_ok :: "MirFunction \<Rightarrow> MirValidator \<Rightarrow> bool" where
  "sites_ok f s \<longleftrightarrow> dom (bt_get (mv_sites s)) = dom (bt_get (mv_definitions s))
     \<and> (\<forall>v site. bt_get (mv_sites s) v = Some site \<longrightarrow> site_defines f v site)"

definition keeps_sites :: "MirFunction \<Rightarrow> check \<Rightarrow> bool" where
  "keeps_sites f c \<longleftrightarrow> (\<forall>s. sites_ok f s \<longrightarrow> sites_ok f (c s))"

lemma sites_ok_new: "sites_ok f validator_new"
  by (simp add: sites_ok_def validator_new_def bt_simps)

lemma sites_ok_error [simp]: "sites_ok f (mv_error a b s) \<longleftrightarrow> sites_ok f s"
  "sites_ok f (error_if c a b s) \<longleftrightarrow> sites_ok f s"
  by (simp_all add: sites_ok_def mv_error_def error_if_def)

lemma keeps_sites_error [intro, simp]: "keeps_sites f (mv_error a b)" "keeps_sites f (error_if c a b)"
  "keeps_sites f (\<lambda>s. s)"
  by (simp_all add: keeps_sites_def)

lemma keeps_sites_in_order [intro!]:
  "(\<And>c. c \<in> set cs \<Longrightarrow> keeps_sites f c) \<Longrightarrow> keeps_sites f (in_order cs)"
proof (induction cs)
  case (Cons c cs)
  then have "keeps_sites f c" and "keeps_sites f (in_order cs)" by auto
  then show ?case by (simp add: keeps_sites_def)
qed (simp add: keeps_sites_def)

lemma keeps_sites_define:
  assumes "site_defines f v site" shows "keeps_sites f (define_at f v subject site)"
  using assms
  by (auto simp: keeps_sites_def define_at_def Let_def sites_ok_def error_if_def mv_error_def bt_simps
      split: option.splits if_splits)

lemma keeps_sites_uses [intro, simp]:
  "keeps_sites f (use_value f v)" "keeps_sites f (use_values f vs)" "keeps_sites f (use_option f w)"
  "keeps_sites f (check_target f t)" "keeps_sites f (check_edge e)" "keeps_sites f (check_update_kind r k)"
  "keeps_sites f (check_payload_field f r fv)" "keeps_sites f (check_arity f t args binds)"
proof -
  show "keeps_sites f (check_edge e)"
    by (simp add: keeps_sites_def check_edge_def sites_ok_def mv_error_def)
  show "keeps_sites f (use_value f v)" for v by (simp add: use_value_def)
  then show "keeps_sites f (use_values f vs)" "keeps_sites f (use_option f w)"
    "keeps_sites f (check_payload_field f r fv)"
    by (auto simp: use_values_def use_option_def check_payload_field_def split: option.split)
  show "keeps_sites f (check_update_kind r k)" "keeps_sites f (check_target f t)"
    by (auto simp: check_update_kind_def check_target_def split: MirAggregateKind.split)
  show "keeps_sites f (check_arity f t args binds)"
    by (auto simp: check_arity_def Let_def check_argument_def check_binding_parameter_def
        split: option.split)
qed

lemma fold_keeps_sites:
  assumes "\<And>st x. x \<in> set xs \<Longrightarrow> sites_ok f (fst st) \<Longrightarrow> sites_ok f (fst (g st x))"
  shows "sites_ok f (fst st) \<Longrightarrow> sites_ok f (fst (foldl g st xs))"
  using assms by (induction xs arbitrary: st) auto

end
