(* ===== verification/Mimi_MirDomLaws.thy ===== *)
theory Mimi_MirDomLaws
  imports Mimi_MirDominance
begin

text \<open>
  The dominator loop returns on every function, and what it returns is dominance: \<open>d\<close> is in the
  set of a reachable block \<open>b\<close> exactly when every walk from the entry to \<open>b\<close> visits \<open>d\<close>. The loop
  starts above the greatest fixpoint and descends, each change removing a block from a set.
\<close>

section \<open>Walks and dominance\<close>

text \<open>A walk from the entry, its last block first.\<close>

inductive walk :: "MirFunction \<Rightarrow> MirBlockId list \<Rightarrow> bool" for f where
  walk_entry: "walk f [fn_entry f]"
| walk_edge: "walk f (a # p) \<Longrightarrow> (a, b) \<in> mir_edges f \<Longrightarrow> walk f (b # a # p)"

inductive_cases walk_ConsE: "walk f (b # p)"

definition dominates :: "MirFunction \<Rightarrow> MirBlockId \<Rightarrow> MirBlockId \<Rightarrow> bool" where
  "dominates f d b \<longleftrightarrow> (\<forall>p. walk f (b # p) \<longrightarrow> d \<in> set (b # p))"

lemma walk_reaches: "walk f p \<Longrightarrow> b \<in> set p \<Longrightarrow> (fn_entry f, b) \<in> (mir_edges f)\<^sup>*"
proof (induction arbitrary: b rule: walk.induct)
  case (walk_edge a p c)
  have "(fn_entry f, a) \<in> (mir_edges f)\<^sup>*" by (rule walk_edge.IH) simp
  then have "(fn_entry f, c) \<in> (mir_edges f)\<^sup>*" by (rule rtrancl_into_rtrancl [OF _ walk_edge.hyps(2)])
  with walk_edge.IH [of b] walk_edge.prems show ?case by auto
qed simp

lemma walk_reachable: "walk f p \<Longrightarrow> b \<in> set p \<Longrightarrow> b \<in> set (reachable_blocks f)"
  by (simp add: reachable_blocks_exact walk_reaches)

lemma reaches_walk: "(fn_entry f, b) \<in> (mir_edges f)\<^sup>* \<Longrightarrow> \<exists>p. walk f (b # p)"
  by (induction rule: rtrancl_induct) (auto intro: walk.intros)

lemma dominates_entry: "dominates f d (fn_entry f) \<longleftrightarrow> d = fn_entry f"
  by (auto simp: dominates_def intro: walk_entry)

lemma dominates_pred:
  assumes "dominates f d b" and "d \<noteq> b" and "(a, b) \<in> mir_edges f"
  shows "dominates f d a"
  unfolding dominates_def
proof (intro allI impI)
  fix p
  assume "walk f (a # p)"
  then have "walk f (b # a # p)" using assms(3) by (rule walk_edge)
  then show "d \<in> set (a # p)" using assms(1,2) by (auto simp: dominates_def)
qed

lemma dominates_reachable:
  assumes "dominates f d b" and "b \<in> set (reachable_blocks f)"
  shows "d \<in> set (reachable_blocks f)"
proof -
  obtain p where p: "walk f (b # p)" using assms(2) reaches_walk by (auto simp: reachable_blocks_exact)
  then have "d \<in> set (b # p)" using assms(1) by (simp add: dominates_def)
  with p show ?thesis by (rule walk_reachable)
qed

section \<open>Predecessors\<close>

definition block_targets :: "MirFunction \<Rightarrow> MirBlockId \<Rightarrow> MirBlockId set" where
  "block_targets f a =
     (case bt_get (fn_blocks f) a of None \<Rightarrow> {} | Some k \<Rightarrow> set (terminator_successors (blk_terminator k)))"

lemma add_predecessors_get:
  "bt_get (foldl (add_predecessor b) m ts) t =
     map_option (\<lambda>ps. if t \<in> set ts then bs_insert b ps else ps) (bt_get m t)"
proof (induction ts arbitrary: m)
  case (Cons u ts)
  have "bs_insert b (bs_insert b ps) = bs_insert b ps" for ps
    by (simp add: bs_insert_def set_insort_key)
  then show ?case
    unfolding foldl_Cons Cons.IH
    by (cases "bt_get m u"; cases "bt_get m t") (auto simp: add_predecessor_def bt_simps)
qed (simp add: option.map_ident)

lemma block_predecessors_fold:
  "map_option set (bt_get (foldl (add_block_predecessors R) m bs) t) =
     map_option (\<lambda>ps. set ps \<union> {a. \<exists>k. (a, k) \<in> set bs \<and> a \<in> set R
       \<and> t \<in> set (terminator_successors (blk_terminator k))}) (bt_get m t)"
proof (induction bs arbitrary: m)
  case (Cons e bs)
  obtain a k where e: "e = (a, k)" by (cases e)
  show ?case
    unfolding foldl_Cons Cons.IH
    by (cases "bt_get m t") (auto simp: e add_block_predecessors_def add_predecessors_get)
qed (cases "bt_get m t"; simp)

lemma initial_predecessors_get:
  "bt_get (bt_collect (map (\<lambda>b. (b, [])) R)) t = (if t \<in> set R then Some [] else None)"
  by (simp add: bt_collect_get rev_map map_of_constant)

lemma block_predecessors_get:
  assumes "bt_wf (fn_blocks f)"
  shows "map_option set (bt_get (block_predecessors f R) t) =
    (if t \<in> set R then Some {a \<in> set R. t \<in> block_targets f a} else None)"
proof -
  have "(a, k) \<in> set (fn_blocks f) \<longleftrightarrow> bt_get (fn_blocks f) a = Some k" for a k
    using bt_get_mem [OF assms] bt_get_Some_mem by metis
  then have "{a. \<exists>k. (a, k) \<in> set (fn_blocks f) \<and> a \<in> set R
        \<and> t \<in> set (terminator_successors (blk_terminator k))}
      = {a \<in> set R. t \<in> block_targets f a}"
    by (auto simp: block_targets_def split: option.splits)
  then show ?thesis
    unfolding block_predecessors_def block_predecessors_fold initial_predecessors_get by auto
qed

lemma reachable_known:
  assumes "b \<in> set (reachable_blocks f)" and "b \<noteq> fn_entry f"
  shows "bt_contains (fn_blocks f) b"
proof -
  have "(fn_entry f, b) \<in> (mir_edges f)\<^sup>*" using assms(1) by (simp add: reachable_blocks_exact)
  then obtain a where "(a, b) \<in> mir_edges f" using assms(2) by (auto elim: rtranclE)
  then show ?thesis
    by (auto simp: mir_edges_def block_successors_def split: option.splits)
qed

lemma mir_edges_targets: "(a, b) \<in> mir_edges f \<longleftrightarrow> b \<in> block_targets f a \<and> bt_contains (fn_blocks f) b"
  by (auto simp: mir_edges_def block_successors_def block_targets_def split: option.splits)

text \<open>The predecessor catalog the dominator loop reads.\<close>

lemma preds_exact:
  assumes "bt_wf (fn_blocks f)" and "b \<in> set (reachable_blocks f)" and "b \<noteq> fn_entry f"
  obtains ps where "bt_get (block_predecessors f (reachable_blocks f)) b = Some ps"
    and "set ps = {a \<in> set (reachable_blocks f). (a, b) \<in> mir_edges f}" and "ps \<noteq> []"
proof -
  obtain ps where ps: "bt_get (block_predecessors f (reachable_blocks f)) b = Some ps"
    and set_ps: "set ps = {a \<in> set (reachable_blocks f). b \<in> block_targets f a}"
    using block_predecessors_get [OF assms(1), of "reachable_blocks f" b] assms(2) by auto
  have set_eq: "set ps = {a \<in> set (reachable_blocks f). (a, b) \<in> mir_edges f}"
    using set_ps reachable_known [OF assms(2,3)] by (auto simp: mir_edges_targets)
  obtain p where "walk f (b # p)" using assms(2) reaches_walk by (auto simp: reachable_blocks_exact)
  then obtain a q where "walk f (a # q)" and "(a, b) \<in> mir_edges f"
    using assms(3) by (auto elim: walk_ConsE)
  then have "a \<in> set ps" using walk_reachable [of f "a # q" a] by (simp add: set_eq)
  then have "ps \<noteq> []" by auto
  with ps set_eq show ?thesis by (rule that)
qed

section \<open>The descending iteration\<close>

definition dom_set :: "dominators \<Rightarrow> MirBlockId \<Rightarrow> MirBlockId set" where
  "dom_set doms b = (case bt_get doms b of None \<Rightarrow> UNIV | Some ds \<Rightarrow> set ds)"

lemma dom_set_insert: "dom_set (bt_insert b ds doms) c = (if c = b then set ds else dom_set doms c)"
  by (simp add: dom_set_def bt_simps)

lemma next_dominators_set:
  "set (next_dominators R doms ps b) = insert b (set R \<inter> (\<Inter>p \<in> set ps. dom_set doms p))"
proof -
  have "set (foldl (\<lambda>common p. case bt_get doms p of
            None \<Rightarrow> common | Some ds \<Rightarrow> filter (\<lambda>c. c \<in> set ds) common) acc ps)
      = set acc \<inter> (\<Inter>p \<in> set ps. dom_set doms p)" for acc
    by (induction ps arbitrary: acc) (auto simp: dom_set_def split: option.splits)
  then show ?thesis by (simp add: next_dominators_def)
qed

lemma next_dominators_wf: "bs_wf R \<Longrightarrow> bs_wf (next_dominators R doms ps b)"
proof -
  assume "bs_wf R"
  then have "bs_wf (foldl (\<lambda>common p. case bt_get doms p of
            None \<Rightarrow> common | Some ds \<Rightarrow> filter (\<lambda>c. c \<in> set ds) common) R ps)"
    by (induction ps arbitrary: R)
      (auto simp: bs_wf_def sorted_wrt_filter split: option.splits)
  then show ?thesis by (auto simp: next_dominators_def)
qed

text \<open>
  What the loop keeps: a set for every reachable block, all of them sorted lists of reachable
  blocks that contain the true dominators, the entry's own set, and that recomputing a set can
  only shrink it.
\<close>

definition dom_inv :: "MirFunction \<Rightarrow> dominators \<Rightarrow> bool" where
  "dom_inv f doms \<longleftrightarrow>
     dom (bt_get doms) = set (reachable_blocks f)
     \<and> bt_get doms (fn_entry f) = Some [fn_entry f]
     \<and> (\<forall>b ds. bt_get doms b = Some ds \<longrightarrow> bs_wf ds \<and> {d. dominates f d b} \<subseteq> set ds)
     \<and> (\<forall>b \<in> set (reachable_blocks f). \<forall>ps. b \<noteq> fn_entry f
          \<longrightarrow> bt_get (block_predecessors f (reachable_blocks f)) b = Some ps
          \<longrightarrow> set (next_dominators (reachable_blocks f) doms ps b) \<subseteq> dom_set doms b)"

definition dom_stable :: "MirFunction \<Rightarrow> dominators \<Rightarrow> MirBlockId \<Rightarrow> bool" where
  "dom_stable f doms b \<longleftrightarrow>
     (\<forall>ps. bt_get (block_predecessors f (reachable_blocks f)) b = Some ps
       \<longrightarrow> dom_set doms b = set (next_dominators (reachable_blocks f) doms ps b))"

definition dom_size :: "MirFunction \<Rightarrow> dominators \<Rightarrow> nat" where
  "dom_size f doms = (\<Sum>b \<in> set (reachable_blocks f). card (dom_set doms b))"

lemma dom_inv_get:
  assumes "dom_inv f doms" and "b \<in> set (reachable_blocks f)"
  obtains ds where "bt_get doms b = Some ds" and "dom_set doms b = set ds" and "bs_wf ds"
    and "{d. dominates f d b} \<subseteq> set ds"
proof -
  from assms obtain ds where "bt_get doms b = Some ds"
    unfolding dom_inv_def by blast
  with assms(1) show ?thesis by (intro that) (auto simp: dom_set_def dom_inv_def)
qed

lemma dominates_next:
  assumes wf: "bt_wf (fn_blocks f)" and inv: "dom_inv f doms"
    and b: "b \<in> set (reachable_blocks f)" "b \<noteq> fn_entry f"
    and ps: "bt_get (block_predecessors f (reachable_blocks f)) b = Some ps"
  shows "{d. dominates f d b} \<subseteq> set (next_dominators (reachable_blocks f) doms ps b)"
proof
  fix d
  assume d: "d \<in> {d. dominates f d b}"
  have set_ps: "set ps = {a \<in> set (reachable_blocks f). (a, b) \<in> mir_edges f}"
    by (rule preds_exact [OF wf b]) (simp add: ps)
  show "d \<in> set (next_dominators (reachable_blocks f) doms ps b)"
  proof (cases "d = b")
    case False
    have "d \<in> dom_set doms p" if "p \<in> set ps" for p
    proof -
      have "dominates f d p" using d False that by (auto simp: set_ps intro: dominates_pred)
      moreover have "p \<in> set (reachable_blocks f)" using that by (simp add: set_ps)
      ultimately show ?thesis using inv by (auto elim: dom_inv_get)
    qed
    moreover have "d \<in> set (reachable_blocks f)" using d b by (auto intro: dominates_reachable)
    ultimately show ?thesis by (simp add: next_dominators_set)
  qed (simp add: next_dominators_set)
qed

text \<open>One visit either changes nothing and the set is stable, or shrinks a set.\<close>

lemma dominator_update:
  assumes wf: "bt_wf (fn_blocks f)" and inv: "dom_inv f doms"
    and b: "b \<in> set (reachable_blocks f)" "b \<noteq> fn_entry f"
    and ps: "bt_get (block_predecessors f (reachable_blocks f)) b = Some ps"
    and nxt: "nxt = next_dominators (reachable_blocks f) doms ps b"
    and change: "bt_get doms b \<noteq> Some nxt"
  shows "dom_inv f (bt_insert b nxt doms) \<and> dom_size f (bt_insert b nxt doms) < dom_size f doms"
proof -
  let ?R = "reachable_blocks f" and ?doms = "bt_insert b nxt doms"
  obtain ds where ds: "bt_get doms b = Some ds" "dom_set doms b = set ds" "bs_wf ds"
    using inv b(1) by (rule dom_inv_get)
  have sub: "set nxt \<subseteq> set ds"
    using inv b ps unfolding dom_inv_def nxt ds(2) [symmetric] by blast
  have wf_nxt: "bs_wf nxt" by (simp add: nxt next_dominators_wf reachable_blocks_wf)
  have "set nxt \<noteq> set ds" using change ds bs_ext [OF wf_nxt ds(3)] by auto
  with sub have less: "set nxt \<subset> set ds" by blast
  have le: "dom_set ?doms c \<subseteq> dom_set doms c" for c using sub by (simp add: dom_set_insert ds(2))
  have shrink: "set (next_dominators ?R ?doms qs c) \<subseteq> set (next_dominators ?R doms qs c)" for qs c
    unfolding next_dominators_set using le by blast
  have "dom_inv f ?doms"
    unfolding dom_inv_def
  proof (intro conjI)
    show "dom (bt_get ?doms) = set ?R" using inv b(1) by (auto simp: dom_inv_def bt_simps)
    show "bt_get ?doms (fn_entry f) = Some [fn_entry f]"
      using inv b(2) by (simp add: dom_inv_def bt_simps)
    show "\<forall>c es. bt_get ?doms c = Some es \<longrightarrow> bs_wf es \<and> {d. dominates f d c} \<subseteq> set es"
      using inv wf_nxt dominates_next [OF wf inv b ps]
      by (auto simp: dom_inv_def bt_simps nxt)
    show "\<forall>c \<in> set ?R. \<forall>qs. c \<noteq> fn_entry f \<longrightarrow> bt_get (block_predecessors f ?R) c = Some qs
        \<longrightarrow> set (next_dominators ?R ?doms qs c) \<subseteq> dom_set ?doms c"
    proof (intro ballI allI impI)
      fix c qs
      assume c: "c \<in> set ?R" "c \<noteq> fn_entry f" "bt_get (block_predecessors f ?R) c = Some qs"
      show "set (next_dominators ?R ?doms qs c) \<subseteq> dom_set ?doms c"
      proof (cases "c = b")
        case True
        then have "qs = ps" using c(3) ps by simp
        with True show ?thesis using shrink [of ps b] by (simp add: dom_set_insert nxt)
      next
        case False
        then show ?thesis
          using shrink [of qs c] inv c unfolding dom_inv_def by (simp add: dom_set_insert) blast
      qed
    qed
  qed
  moreover have "dom_size f ?doms < dom_size f doms"
    unfolding dom_size_def
  proof (rule sum_strict_mono_ex1)
    have "finite (dom_set doms c)" if "c \<in> set ?R" for c using inv that by (auto elim: dom_inv_get)
    then show "\<forall>c \<in> set ?R. card (dom_set ?doms c) \<le> card (dom_set doms c)"
      using le by (auto intro: card_mono)
    show "\<exists>c \<in> set ?R. card (dom_set ?doms c) < card (dom_set doms c)"
      using b(1) less by (auto simp: dom_set_insert ds(2) intro!: bexI [of _ b] psubset_card_mono)
  qed simp
  ultimately show ?thesis by blast
qed

section \<open>The loop\<close>

lemma dominator_fold:
  assumes wf: "bt_wf (fn_blocks f)" and "dom_inv f doms"
    and "set bs \<subseteq> set (reachable_blocks f) - {fn_entry f}"
    and "foldl (dominator_step (reachable_blocks f) (block_predecessors f (reachable_blocks f)))
           (doms, flag) bs = (doms', flag')"
  shows "dom_inv f doms'
    \<and> dom_size f doms' + (if flag' \<and> \<not> flag then 1 else 0) \<le> dom_size f doms
    \<and> (\<not> flag' \<longrightarrow> doms' = doms \<and> \<not> flag \<and> (\<forall>b \<in> set bs. dom_stable f doms b))"
  using assms(2-)
proof (induction bs arbitrary: doms flag)
  case (Cons b bs)
  let ?R = "reachable_blocks f" and ?P = "block_predecessors f (reachable_blocks f)"
  have b: "b \<in> set ?R" "b \<noteq> fn_entry f" using Cons.prems(2) by auto
  obtain ps where ps: "bt_get ?P b = Some ps" and "ps \<noteq> []" using wf b by (rule preds_exact)
  define nxt where "nxt = next_dominators ?R doms ps b"
  show ?case
  proof (cases "bt_get doms b = Some nxt")
    case True
    then have "dominator_step ?R ?P (doms, flag) b = (doms, flag)"
      using \<open>ps \<noteq> []\<close> by (simp add: dominator_step_def ps nxt_def Let_def)
    moreover have "dom_stable f doms b"
      using True by (simp add: dom_stable_def ps dom_set_def nxt_def)
    ultimately show ?thesis using Cons.IH [of doms flag] Cons.prems by auto
  next
    case False
    then have "dominator_step ?R ?P (doms, flag) b = (bt_insert b nxt doms, True)"
      using \<open>ps \<noteq> []\<close> by (simp add: dominator_step_def ps nxt_def Let_def)
    moreover have "dom_inv f (bt_insert b nxt doms)"
      and "dom_size f (bt_insert b nxt doms) < dom_size f doms"
      using dominator_update [OF wf Cons.prems(1) b ps nxt_def False] by blast+
    ultimately show ?thesis
      using Cons.IH [of "bt_insert b nxt doms" True] Cons.prems by (auto split: if_splits)
  qed
qed simp

lemma dominator_loop_returns:
  assumes wf: "bt_wf (fn_blocks f)" and "dom_inv f doms"
  shows "\<exists>doms'. dominator_loop f (reachable_blocks f) (block_predecessors f (reachable_blocks f)) doms
      = Some doms' \<and> dom_inv f doms'
    \<and> (\<forall>b \<in> set (reachable_blocks f) - {fn_entry f}. dom_stable f doms' b)"
  using assms(2)
proof (induction "dom_size f doms" arbitrary: doms rule: less_induct)
  case less
  let ?R = "reachable_blocks f" and ?P = "block_predecessors f (reachable_blocks f)"
  obtain doms' changed where pass: "dominator_pass f ?R ?P doms = (doms', changed)" by fastforce
  have fold: "dom_inv f doms'
    \<and> dom_size f doms' + (if changed \<and> \<not> False then 1 else 0) \<le> dom_size f doms
    \<and> (\<not> changed \<longrightarrow> doms' = doms \<and> \<not> False
        \<and> (\<forall>b \<in> set (filter (\<lambda>b. b \<noteq> fn_entry f) ?R). dom_stable f doms b))"
    by (rule dominator_fold [OF wf less.prems _ pass [unfolded dominator_pass_def]]) auto
  show ?case
  proof (cases changed)
    case True
    then have "dom_size f doms' < dom_size f doms" and "dom_inv f doms'" using fold by auto
    from less.hyps [OF this] show ?thesis
      by (subst dominator_loop.simps) (simp add: pass True)
  next
    case False
    then show ?thesis
      using fold less.prems by (subst dominator_loop.simps) (auto simp: pass)
  qed
qed

lemma initial_dominators_get:
  "bt_get (initial_dominators f R) b =
     (if b \<in> set R then Some (if b = fn_entry f then [b] else R) else None)"
proof -
  have "bt_get (foldl (\<lambda>m b. bt_insert b (g b) m) m bs) b
      = (if b \<in> set bs then Some (g b) else bt_get m b)" for g :: "MirBlockId \<Rightarrow> MirBlockId list" and m bs
    by (induction bs arbitrary: m) (auto simp: bt_simps)
  then show ?thesis by (simp add: initial_dominators_def bt_simps)
qed

lemma initial_dominators_inv:
  assumes "bt_wf (fn_blocks f)"
  shows "dom_inv f (initial_dominators f (reachable_blocks f))"
proof -
  let ?R = "reachable_blocks f"
  have entry: "fn_entry f \<in> set ?R" by (simp add: reachable_blocks_exact)
  have "set (next_dominators ?R doms ps b) \<subseteq> set ?R" if "b \<in> set ?R" for doms ps b
    using that by (auto simp: next_dominators_set)
  then show ?thesis
    using entry reachable_blocks_wf [of f]
    by (auto simp: dom_inv_def initial_dominators_get dom_set_def dominates_entry bs_wf_def
        intro: dominates_reachable split: if_splits)
qed

lemma stable_sound:
  assumes wf: "bt_wf (fn_blocks f)" and inv: "dom_inv f doms"
    and stable: "\<forall>b \<in> set (reachable_blocks f) - {fn_entry f}. dom_stable f doms b"
    and "walk f (b # p)" and "d \<in> dom_set doms b"
  shows "d \<in> set (b # p)"
proof -
  have entry: "dom_set doms (fn_entry f) = {fn_entry f}" using inv by (simp add: dom_inv_def dom_set_def)
  have "\<forall>d \<in> dom_set doms (hd q). d \<in> set q" if "walk f q" for q
    using that
  proof (induction rule: walk.induct)
    case (walk_edge a p b)
    show ?case
    proof (cases "b = fn_entry f")
      case False
      have b: "b \<in> set (reachable_blocks f)" and a: "a \<in> set (reachable_blocks f)"
        using walk_reachable [OF walk.walk_edge [OF walk_edge.hyps]] by auto
      obtain ps where ps: "bt_get (block_predecessors f (reachable_blocks f)) b = Some ps"
        and "set ps = {a \<in> set (reachable_blocks f). (a, b) \<in> mir_edges f}"
        using wf b False by (rule preds_exact)
      then have "a \<in> set ps" using a walk_edge.hyps(2) by simp
      moreover have "dom_set doms b = set (next_dominators (reachable_blocks f) doms ps b)"
        using stable b False ps by (simp add: dom_stable_def)
      ultimately show ?thesis using walk_edge.IH by (auto simp: next_dominators_set)
    qed (simp add: entry)
  qed (simp add: entry)
  from this [OF assms(4)] assms(5) show ?thesis by simp
qed

text \<open>
  The loop returns, with a set for exactly the reachable blocks, and each set is the set of the
  block's dominators.
\<close>

lemma compute_dominators_exact:
  assumes "bt_wf (fn_blocks f)"
  shows "\<exists>doms. compute_dominators f = Some doms \<and> dom (bt_get doms) = set (reachable_blocks f)
    \<and> (\<forall>b \<in> set (reachable_blocks f). dom_set doms b = {d. dominates f d b})"
proof -
  obtain doms where doms: "compute_dominators f = Some doms" "dom_inv f doms"
    and stable: "\<forall>b \<in> set (reachable_blocks f) - {fn_entry f}. dom_stable f doms b"
    using dominator_loop_returns [OF assms initial_dominators_inv [OF assms]]
    by (auto simp: compute_dominators_def Let_def)
  have "dom_set doms b = {d. dominates f d b}" if "b \<in> set (reachable_blocks f)" for b
  proof
    show "dom_set doms b \<subseteq> {d. dominates f d b}"
      using stable_sound [OF assms doms(2) stable] by (auto simp: dominates_def)
    show "{d. dominates f d b} \<subseteq> dom_set doms b"
      using doms(2) that by (auto elim: dom_inv_get)
  qed
  with doms show ?thesis by (auto simp: dom_inv_def)
qed

end
