(* ===== verification/Mimi_MirSafe.thy ===== *)
theory Mimi_MirSafe
  imports Mimi_MirChecks Mimi_MirDomLaws
begin

text \<open>
  What acceptance by the structural validator means at run time: along every walk from the entry,
  the values an instruction or terminator reads have been defined, and every edge enters a block
  of the function with as many values as it has parameters.
\<close>

section \<open>The checks of a whole function\<close>

lemma in_order_each:
  assumes "mv_errors (in_order cs s) = []" and "\<And>c. c \<in> set cs \<Longrightarrow> adds_errors c"
    and "P s" and "\<And>c s. c \<in> set cs \<Longrightarrow> P s \<Longrightarrow> P (c s)"
  shows "\<forall>c \<in> set cs. \<exists>s'. P s' \<and> mv_errors (c s') = []"
  using assms
proof (induction cs arbitrary: s)
  case (Cons c cs)
  have "mv_errors (c s) = []"
    by (rule in_order_adds_errors [of cs]) (use Cons.prems in simp_all)
  moreover have "\<forall>d \<in> set cs. \<exists>s'. P s' \<and> mv_errors (d s') = []"
    by (rule Cons.IH [of "c s"]) (use Cons.prems in simp_all)
  ultimately show ?case using Cons.prems(3) by auto
qed simp

lemma adds_errors_indexed [intro, simp]: "adds_errors (check_indexed_instruction f b e)"
proof (rule adds_errorsI)
  fix s
  obtain n ins where e: "e = (n, ins)" by (cases e)
  let ?t = "if ins_id ins \<in> set (mv_instruction_ids s)
      then mv_error (ins_id ins) ''instruction identity is duplicated'' s
      else s\<lparr>mv_instruction_ids := bs_insert (ins_id ins) (mv_instruction_ids s)\<rparr>"
  assume "mv_errors (check_indexed_instruction f b e s) = []"
  then have "mv_errors (check_instruction f ins b n ?t) = []"
    by (simp only: check_indexed_instruction_def e prod.case)
  then have "mv_errors ?t = []" by (rule adds_errorsD [OF adds_errors_instruction])
  then show "mv_errors s = []" by (simp add: mv_error_def split: if_splits)
qed

lemma block_parameter_adds_errors:
  assumes "mv_errors (fst (check_block_parameter f i st p)) = []"
  shows "mv_errors (fst st) = []"
  using assms
  by (cases st)
    (auto simp: check_block_parameter_def
      dest!: adds_errorsD [OF adds_errors_define] adds_errorsD [OF adds_errors_if])

lemma check_block_accepted:
  assumes "mv_errors (check_block f (i, k) s) = []"
  shows "mv_errors s = [] \<and> passes (check_terminator f (blk_terminator k))
    \<and> (\<forall>c \<in> set (map (check_indexed_instruction f i) (enumerate 0 (blk_instructions k))). passes c)"
proof -
  let ?s1 = "error_if (i \<noteq> blk_id k) i ''block map key disagrees with block identity'' s"
  let ?s2 = "fst (foldl (check_block_parameter f i) (?s1, []) (blk_parameters k))"
  let ?cs = "map (check_indexed_instruction f i) (enumerate 0 (blk_instructions k))"
  have t: "mv_errors (check_terminator f (blk_terminator k) (in_order ?cs ?s2)) = []"
    using assms by (simp add: check_block_def Let_def)
  then have s3: "mv_errors (in_order ?cs ?s2) = []" by (rule adds_errorsD [OF adds_errors_terminator])
  have each: "\<forall>c \<in> set ?cs. passes c" by (rule in_order_passes [OF s3]) auto
  have "mv_errors ?s2 = []" by (rule in_order_adds_errors [OF _ s3]) auto
  then have "mv_errors ?s1 = []"
    using fold_adds_errors [of "blk_parameters k" "check_block_parameter f i" "(?s1, [])"]
      block_parameter_adds_errors by auto
  then have "mv_errors s = []" by (rule adds_errorsD [OF adds_errors_if])
  moreover have "passes (check_terminator f (blk_terminator k))" using t by (rule passesI)
  ultimately show ?thesis using each by blast
qed

lemma adds_errors_block [intro, simp]: "adds_errors (check_block f e)"
  by (cases e) (auto intro: adds_errorsI dest: check_block_accepted)

lemma adds_errors_catalog [intro, simp]: "adds_errors (check_catalog_entry e)"
  by (cases e) (auto simp: check_catalog_entry_def adds_errors_def error_if_def mv_error_def
      split: if_splits)

lemma adds_errors_use_site [intro, simp]: "adds_errors (check_use_site doms R u i v)"
  by (auto simp: check_use_site_def adds_errors_def error_if_def mv_error_def
      split: option.splits if_splits)

lemma adds_errors_uses [intro, simp]: "adds_errors (check_uses doms R b e)"
  by (cases e) (auto simp: check_uses_def)

lemma adds_errors_block_uses [intro, simp]: "adds_errors (check_block_uses doms R e)"
  by (cases e) (auto simp: check_block_uses_def check_uses_def)

lemma adds_errors_ownership [intro, simp]: "adds_errors (check_ownership f)"
proof (rule adds_errorsI)
  fix s
  assume acc: "mv_errors (check_ownership f s) = []"
  have "adds_errors (event_value_check f e)" for e
    by (cases e) (auto simp: event_value_check_def split: option.split)
  then have "mv_errors (case summary_validate (fn_ownership f) of
      Inr _ \<Rightarrow> s | Inl errors \<Rightarrow> s\<lparr>mv_errors := mv_errors s @ errors\<rparr>) = []"
    by (intro in_order_adds_errors [OF _ acc [unfolded check_ownership_def Let_def]]) auto
  then show "mv_errors s = []" by (simp split: sum.splits)
qed

section \<open>Sites over a whole function\<close>

lemma keeps_sites_operands: "c \<in> set (check_operands f i k) \<Longrightarrow> keeps_sites f c"
  by (cases k) (auto simp: key_without_nul_def)

lemma indexed_keeps_sites:
  assumes "bt_get (fn_blocks f) b = Some k" and "(n, ins) \<in> set (enumerate 0 (blk_instructions k))"
  shows "keeps_sites f (check_indexed_instruction f b (n, ins))"
proof -
  have n: "n < length (blk_instructions k)" "blk_instructions k ! n = ins"
    using assms(2) by (auto simp: in_set_enumerate_eq)
  have "keeps_sites f (check_instruction f ins b n)"
    unfolding check_instruction_def
    using n assms(1)
    by (auto dest: keeps_sites_operands simp: result_at_def intro!: keeps_sites_define)
  moreover have "sites_ok f (s\<lparr>mv_instruction_ids := x\<rparr>) \<longleftrightarrow> sites_ok f s" for s x
    by (simp add: sites_ok_def)
  ultimately show ?thesis by (simp add: keeps_sites_def check_indexed_instruction_def)
qed

lemma keeps_sites_arms [intro, simp]: "keeps_sites f (check_arms f consuming arms)"
proof -
  have bind: "sites_ok f (fst (check_binding consuming e st b))" if "sites_ok f (fst st)" for e st b
    using that by (auto simp: check_binding_def Let_def split: prod.splits option.splits)
  have "sites_ok f (fst (check_arm f consuming st arm))" if "sites_ok f (fst st)" for st arm
  proof -
    let ?cs = "[check_edge (arm_edge arm), check_target f (arm_target arm),
      use_values f (arm_arguments arm),
      check_arity f (arm_target arm) (arm_arguments arm) (arm_bindings arm)]"
    have "keeps_sites f (in_order ?cs)" by auto
    then have "sites_ok f (in_order ?cs (fst st))" using that by (simp add: keeps_sites_def)
    then show ?thesis
      using fold_keeps_sites [of "arm_bindings arm" f "check_binding consuming (arm_edge arm)"
          "(in_order ?cs (fst st), [])"] bind
      by (cases st) (simp add: check_arm_def Let_def del: in_order_Cons)
  qed
  then show ?thesis
    using fold_keeps_sites [of arms f "check_arm f consuming"]
    by (simp add: keeps_sites_def check_arms_def)
qed

lemma keeps_sites_terminator [intro, simp]: "keeps_sites f (check_terminator f t)"
  by (cases t) (auto simp: check_terminator_def split: option.split sum.split)

lemma block_keeps_sites:
  assumes k: "bt_get (fn_blocks f) b = Some k" shows "keeps_sites f (check_block f (b, k))"
proof -
  have param: "sites_ok f (fst (check_block_parameter f b st p))"
    if "p \<in> set (blk_parameters k)" and "sites_ok f (fst st)" for st p
    using that k keeps_sites_define [of f "bp_value p" "SiteBlockParameter b"]
    by (cases st) (auto simp: check_block_parameter_def keeps_sites_def)
  have "keeps_sites f (in_order (map (check_indexed_instruction f b) (enumerate 0 (blk_instructions k))))"
    using indexed_keeps_sites [OF k] by auto
  moreover have "sites_ok f (fst (foldl (check_block_parameter f b) (s, []) (blk_parameters k)))"
    if "sites_ok f s" for s
    using fold_keeps_sites [of "blk_parameters k" f "check_block_parameter f b" "(s, [])"] param that
    by simp
  ultimately show ?thesis
    using keeps_sites_terminator [of f "blk_terminator k"]
    by (simp add: keeps_sites_def check_block_def Let_def)
qed

lemma header_keeps_sites: "keeps_sites f (check_function_header f)"
proof -
  have param: "sites_ok f (fst (check_parameter f st p))"
    if "p \<in> set (fn_parameters f)" and "sites_ok f (fst st)" for st p
    using that keeps_sites_define [of f p SiteFunctionParameter]
    by (cases st) (auto simp: check_parameter_def keeps_sites_def)
  have "sites_ok f (fst (foldl (check_parameter f) (s, []) (fn_parameters f)))" if "sites_ok f s" for s
    using fold_keeps_sites [of "fn_parameters f" f "check_parameter f" "(s, [])"] param that by simp
  then show ?thesis
    by (simp add: keeps_sites_def check_function_header_def Let_def split: option.split)
qed

section \<open>Reads\<close>

text \<open>What position \<open>i\<close> of a block reads; the terminator comes after the instructions.\<close>

definition uses_at :: "MirBlock \<Rightarrow> nat \<Rightarrow> MirValueId list" where
  "uses_at k i =
     (if i < length (blk_instructions k) then instruction_uses (ins_kind (blk_instructions k ! i))
      else terminator_uses (blk_terminator k))"

definition block_defines :: "MirBlock \<Rightarrow> nat \<Rightarrow> MirValueId set" where
  "block_defines k i =
     bp_value ` set (blk_parameters k)
     \<union> (\<Union>ins \<in> set (take i (blk_instructions k)). set (instruction_results (ins_kind ins)))"

text \<open>
  What has been defined when control is at position \<open>i\<close> of block \<open>b\<close>, having executed the
  blocks \<open>p\<close> in full.
\<close>

definition defined_before :: "MirFunction \<Rightarrow> MirBlockId list \<Rightarrow> MirBlockId \<Rightarrow> nat \<Rightarrow> MirValueId set" where
  "defined_before f p b i =
     set (fn_parameters f)
     \<union> (\<Union>a \<in> set p. case bt_get (fn_blocks f) a of
          None \<Rightarrow> {} | Some k \<Rightarrow> block_defines k (length (blk_instructions k)))
     \<union> (case bt_get (fn_blocks f) b of None \<Rightarrow> {} | Some k \<Rightarrow> block_defines k i)"

lemma defined_on_walk:
  assumes "bt_get (fn_blocks f) d = Some k" and "v \<in> block_defines k n"
    and "d = b \<and> n \<le> i \<or> d \<in> set p"
  shows "v \<in> defined_before f p b i"
proof -
  have mono: "block_defines k n \<subseteq> block_defines k m" if "n \<le> m" for m
    using that set_take_subset_set_take [of n m "blk_instructions k"] by (auto simp: block_defines_def)
  have "block_defines k n \<subseteq> block_defines k (length (blk_instructions k))"
    by (auto simp: block_defines_def dest: in_set_takeD)
  then show ?thesis
    using assms mono [of i]
    by (cases "d \<in> set p") (auto simp: defined_before_def intro!: bexI [of _ d])
qed

lemma use_site_keeps [simp]: "mv_sites (check_use_site doms R u i v s) = mv_sites s"
  by (simp add: check_use_site_def error_if_def mv_error_def split: option.split)

lemma in_order_keeps_sites:
  "(\<And>c s. c \<in> set cs \<Longrightarrow> mv_sites (c s) = mv_sites s) \<Longrightarrow> mv_sites (in_order cs s) = mv_sites s"
  by (induction cs arbitrary: s) auto

lemma uses_keep [simp]: "mv_sites (check_uses doms R u e s) = mv_sites s"
  by (cases e) (auto simp: check_uses_def intro!: in_order_keeps_sites)

lemma block_uses_keep [simp]: "mv_sites (check_block_uses doms R e s) = mv_sites s"
  by (cases e) (auto simp: check_block_uses_def mv_error_def intro!: in_order_keeps_sites)

lemma block_uses_accepted:
  assumes acc: "mv_errors (in_order (map (check_block_uses doms R) bs) s) = []"
    and b: "(b, k) \<in> set bs" and i: "i \<le> length (blk_instructions k)"
    and v: "v \<in> set (uses_at k i)" and site: "bt_get (mv_sites s) v = Some site"
  shows "b \<in> set R \<and> site_reaches doms R site b i"
proof -
  let ?P = "\<lambda>s'. mv_sites s' = mv_sites s"
  let ?us = "map (instruction_uses \<circ> ins_kind) (blk_instructions k) @ [terminator_uses (blk_terminator k)]"
  have "\<forall>c \<in> set (map (check_block_uses doms R) bs). \<exists>s'. ?P s' \<and> mv_errors (c s') = []"
    by (rule in_order_each [OF acc]) auto
  then obtain s1 where s1: "?P s1" "mv_errors (check_block_uses doms R (b, k) s1) = []"
    using b by auto
  then have R: "b \<in> set R"
    and errs: "mv_errors (in_order (map (check_uses doms R b) (enumerate 0 ?us)) s1) = []"
    by (auto simp: check_block_uses_def mv_error_def split: if_splits)
  have "\<forall>c \<in> set (map (check_uses doms R b) (enumerate 0 ?us)). \<exists>s'. ?P s' \<and> mv_errors (c s') = []"
    by (rule in_order_each [OF errs]) (auto simp: s1)
  moreover have "(i, uses_at k i) \<in> set (enumerate 0 ?us)"
    using i by (auto simp: in_set_enumerate_eq uses_at_def nth_append)
  ultimately obtain s2 where s2: "?P s2" "mv_errors (check_uses doms R b (i, uses_at k i) s2) = []"
    by auto
  have "\<forall>c \<in> set (map (check_use_site doms R b i) (uses_at k i)). \<exists>s'. ?P s' \<and> mv_errors (c s') = []"
    by (rule in_order_each [of _ s2]) (use s2 in \<open>auto simp: check_uses_def\<close>)
  then obtain s3 where "?P s3" "mv_errors (check_use_site doms R b i v s3) = []"
    using v by auto
  with R show ?thesis
    using site by (auto simp: check_use_site_def error_if_def mv_error_def split: if_splits)
qed

section \<open>An accepted function\<close>

lemma validator_parts:
  assumes "run_validator f = Some s" and "mv_errors s = []"
  obtains doms where "compute_dominators f = Some doms"
    and "mv_errors (check_shape f (check_function_header f validator_new)) = []"
    and "mv_errors (in_order (map (check_block_uses doms (reachable_blocks f)) (fn_blocks f))
          (check_shape f (check_function_header f validator_new))) = []"
proof -
  let ?s2 = "check_shape f (check_function_header f validator_new)"
  obtain s3 where s3: "check_dominance f ?s2 = Some s3" "s = check_ownership f s3"
    using assms(1) by (auto simp: run_validator_def split: option.splits)
  have e3: "mv_errors s3 = []" using assms(2) adds_errorsD [OF adds_errors_ownership] by (simp add: s3)
  have "fn_entry f \<in> set (reachable_blocks f)" by (simp add: reachable_blocks_exact)
  then have "reachable_blocks f \<noteq> []" by auto
  then obtain doms where doms: "compute_dominators f = Some doms"
    "s3 = in_order (map (check_block_uses doms (reachable_blocks f)) (fn_blocks f)) ?s2"
    using s3(1) by (auto simp: check_dominance_def Let_def split: option.splits)
  have "mv_errors ?s2 = []"
    by (rule in_order_adds_errors [OF _ e3 [unfolded doms(2)]]) auto
  with doms e3 show ?thesis by (intro that) auto
qed

lemma shape_accepted:
  assumes wf: "bt_wf (fn_blocks f)"
    and acc: "mv_errors (check_shape f (check_function_header f validator_new)) = []"
  shows "sites_ok f (check_shape f (check_function_header f validator_new))"
    and "\<And>e. e \<in> set (fn_blocks f) \<Longrightarrow> \<exists>s. mv_errors (check_block f e s) = []"
    and "\<And>v. bt_contains (fn_values f) v \<Longrightarrow>
      v \<in> dom (bt_get (mv_sites (check_shape f (check_function_header f validator_new))))"
proof -
  let ?s1 = "check_function_header f validator_new"
  let ?blocks = "map (check_block f) (fn_blocks f)" and ?vals = "map check_catalog_entry (fn_values f)"
  have block: "keeps_sites f (check_block f e)" if "e \<in> set (fn_blocks f)" for e
    using that block_keeps_sites [of f "fst e" "snd e"] bt_get_mem [OF wf, of "fst e" "snd e"] by simp
  have entry: "keeps_sites f (check_catalog_entry e)" for e
    by (cases e) (simp add: keeps_sites_def check_catalog_entry_def)
  have "keeps_sites f (check_shape f)" unfolding check_shape_def using block entry by auto
  then show ok: "sites_ok f (check_shape f ?s1)"
    using header_keeps_sites [of f] sites_ok_new by (simp add: keeps_sites_def)
  have e2: "mv_errors (in_order ?vals (in_order ?blocks ?s1)) = []" using acc by (simp add: check_shape_def)
  then have "mv_errors (in_order ?blocks ?s1) = []" by (intro in_order_adds_errors [OF _ e2]) auto
  then have "\<forall>c \<in> set ?blocks. passes c" by (rule in_order_passes) auto
  then show "\<And>e. e \<in> set (fn_blocks f) \<Longrightarrow> \<exists>s. mv_errors (check_block f e s) = []"
    by (auto simp: passes_def)
  show "v \<in> dom (bt_get (mv_sites (check_shape f ?s1)))" if v: "bt_contains (fn_values f) v" for v
  proof -
    let ?P = "\<lambda>s'. mv_definitions s' = mv_definitions (in_order ?blocks ?s1)"
    have keep: "mv_definitions (check_catalog_entry e s) = mv_definitions s" for e s
      by (cases e) (simp add: check_catalog_entry_def error_if_def mv_error_def)
    have each: "\<forall>c \<in> set ?vals. \<exists>s'. ?P s' \<and> mv_errors (c s') = []"
      by (rule in_order_each [OF e2]) (auto simp: keep)
    obtain x where "(v, x) \<in> set (fn_values f)"
      using v bt_get_Some_mem by (fastforce simp: bt_contains_def)
    with each obtain s' where "?P s'" "mv_errors (check_catalog_entry (v, x) s') = []" by auto
    then have "bt_contains (mv_definitions (in_order ?blocks ?s1)) v"
      by (auto simp: check_catalog_entry_def error_if_def mv_error_def split: if_splits)
    moreover have "mv_definitions (in_order (map check_catalog_entry vs) s) = mv_definitions s" for vs s
      by (induction vs arbitrary: s) (auto simp: keep)
    then have "mv_definitions (check_shape f ?s1) = mv_definitions (in_order ?blocks ?s1)"
      by (simp add: check_shape_def)
    ultimately show ?thesis using ok by (auto simp: sites_ok_def bt_contains_def)
  qed
qed

lemma block_in_catalog:
  assumes wf: "bt_wf (fn_blocks f)"
    and acc: "mv_errors (check_shape f (check_function_header f validator_new)) = []"
    and k: "bt_get (fn_blocks f) b = Some k" and i: "i \<le> length (blk_instructions k)"
    and v: "v \<in> set (uses_at k i)"
    and load: "i < length (blk_instructions k) \<longrightarrow> (\<forall>r p. ins_kind (blk_instructions k ! i) \<noteq> ILoad r p)"
  shows "bt_contains (fn_values f) v"
proof -
  obtain s where s: "mv_errors (check_block f (b, k) s) = []"
    using shape_accepted(2) [OF wf acc, of "(b, k)"] bt_get_Some_mem [OF k] by auto
  show ?thesis
  proof (cases "i < length (blk_instructions k)")
    case False
    then show ?thesis
      using v check_block_accepted [OF s] passes_terminator by (auto simp: uses_at_def)
  next
    case True
    let ?ins = "blk_instructions k ! i"
    have "(i, ?ins) \<in> set (enumerate 0 (blk_instructions k))"
      using True by (simp add: in_set_enumerate_eq)
    then have "passes (check_indexed_instruction f b (i, ?ins))"
      using check_block_accepted [OF s] by auto
    then obtain t where "mv_errors (check_instruction f ?ins b i t) = []"
      by (auto simp: passes_def check_indexed_instruction_def)
    then have "mv_errors (in_order (map (\<lambda>r. result_at f r (ins_id ?ins) b i)
        (instruction_results (ins_kind ?ins)))
        (in_order (check_operands f (ins_id ?ins) (ins_kind ?ins)) t)) = []"
      by (simp add: check_instruction_def)
    then have "mv_errors (in_order (check_operands f (ins_id ?ins) (ins_kind ?ins)) t) = []"
      by (rule in_order_adds_errors [rotated]) auto
    then show ?thesis
      using load True v by (auto intro!: passes_operands simp: uses_at_def)
  qed
qed

text \<open>C8: In a function the structural validator accepts, a value that an instruction or a
  terminator reads has been defined on every walk from the entry that leads there: it is a
  parameter of the function, a parameter of a block entered on the way, or the result of an
  instruction executed before. The local that a \<open>Load\<close> names is covered when it is in the value
  catalog; every other operand always is.\<close>

theorem accepted_defines_before_use:
  assumes "bt_wf (fn_blocks f)" and "run_validator f = Some s" and "validator_finish s = Ok ()"
    and "walk f (b # p)" and "bt_get (fn_blocks f) b = Some k" and "i \<le> length (blk_instructions k)"
    and "v \<in> set (uses_at k i)"
    and "i < length (blk_instructions k) \<longrightarrow> (\<forall>r pl. ins_kind (blk_instructions k ! i) \<noteq> ILoad r pl)
      \<or> bt_contains (fn_values f) v"
  shows "v \<in> defined_before f p b i"
proof -
  have ok: "mv_errors s = []" using assms(3) by (simp add: validator_finish_def split: if_splits)
  obtain doms where doms: "compute_dominators f = Some doms"
    and shape: "mv_errors (check_shape f (check_function_header f validator_new)) = []"
    and uses: "mv_errors (in_order (map (check_block_uses doms (reachable_blocks f)) (fn_blocks f))
          (check_shape f (check_function_header f validator_new))) = []"
    by (rule validator_parts [OF assms(2) ok])
  let ?s2 = "check_shape f (check_function_header f validator_new)"
  have "bt_contains (fn_values f) v"
    using assms(8) block_in_catalog [OF assms(1) shape assms(5,6,7)] by blast
  then obtain site where site: "bt_get (mv_sites ?s2) v = Some site"
    using shape_accepted(3) [OF assms(1) shape] by blast
  then have real: "site_defines f v site"
    using shape_accepted(1) [OF assms(1) shape] by (simp add: sites_ok_def)
  have reach: "b \<in> set (reachable_blocks f)" "site_reaches doms (reachable_blocks f) site b i"
    using block_uses_accepted [OF uses bt_get_Some_mem [OF assms(5)] assms(6,7) site] by auto
  have on_walk: "d \<in> set (b # p)" if "definition_dominates doms (reachable_blocks f) d b" for d
  proof -
    have "dom_set doms b = {d. dominates f d b}"
      using compute_dominators_exact [OF assms(1)] doms reach(1) by auto
    moreover have "d \<in> dom_set doms b"
      using that by (auto simp: definition_dominates_def dom_set_def split: option.splits)
    ultimately have "dominates f d b" by simp
    then show ?thesis using assms(4) by (simp add: dominates_def)
  qed
  show ?thesis
  proof (cases site)
    case SiteFunctionParameter
    then show ?thesis using real by (simp add: defined_before_def)
  next
    case (SiteBlockParameter d)
    then have "d = b \<and> 0 \<le> i \<or> d \<in> set p" using reach(2) on_walk by (auto simp: site_reaches_def)
    moreover obtain kd where "bt_get (fn_blocks f) d = Some kd" "v \<in> block_defines kd 0"
      using real by (auto simp: SiteBlockParameter block_defines_def)
    ultimately show ?thesis using defined_on_walk by blast
  next
    case (SiteInstruction d j)
    have "d = b \<and> Suc j \<le> i \<or> d \<in> set p"
      using reach(2) on_walk [of d] by (auto simp: SiteInstruction site_reaches_def split: if_splits)
    moreover obtain kd where kd: "bt_get (fn_blocks f) d = Some kd" "j < length (blk_instructions kd)"
      and "v \<in> set (instruction_results (ins_kind (blk_instructions kd ! j)))"
      using real by (auto simp: SiteInstruction)
    then have "v \<in> block_defines kd (Suc j)"
      by (auto simp: block_defines_def take_Suc_conv_app_nth)
    ultimately show ?thesis using defined_on_walk kd(1) by blast
  qed
qed

section \<open>Edges\<close>

text \<open>The edges of a terminator: the target, the arguments and the bindings passed to it.\<close>

fun terminator_edges ::
    "MirTerminator \<Rightarrow> (MirBlockId \<times> MirValueId list \<times> MirSwitchBinding list) list" where
  "terminator_edges (TmGoto _ t vs) = [(t, vs, [])]"
| "terminator_edges (TmBranch _ _ t vs _ u ws) = [(t, vs, []), (u, ws, [])]"
| "terminator_edges (TmSwitch _ arms) = map (\<lambda>a. (arm_target a, arm_arguments a, arm_bindings a)) arms"
| "terminator_edges (TmSwitchMove _ arms) =
     map (\<lambda>a. (arm_target a, arm_arguments a, arm_bindings a)) arms"
| "terminator_edges _ = []"

definition edge_fits ::
    "MirFunction \<Rightarrow> MirBlockId \<times> MirValueId list \<times> MirSwitchBinding list \<Rightarrow> bool" where
  "edge_fits f e = (case e of (t, vs, bs) \<Rightarrow>
     (case bt_get (fn_blocks f) t of
        None \<Rightarrow> False
      | Some k \<Rightarrow>
          length (blk_parameters k) = length vs + length bs
          \<and> list_all (\<lambda>(v, p). \<not> types_disagree f v (bp_value p)) (zip vs (blk_parameters k))
          \<and> list_all (\<lambda>(b, p). sb_parameter b = bp_value p) (zip bs (drop (length vs) (blk_parameters k)))))"

lemma in_enumerate: "x \<in> set xs \<Longrightarrow> \<exists>i. (i, x) \<in> set (enumerate 0 xs)"
proof -
  assume "x \<in> set xs"
  then obtain i where "i < length xs" "xs ! i = x" by (auto simp: in_set_conv_nth)
  then have "(i, x) \<in> set (enumerate 0 xs)" by (simp add: in_set_enumerate_eq)
  then show ?thesis ..
qed

lemma arity_fits:
  assumes "passes (check_arity f t vs bs)" and "bt_contains (fn_blocks f) t"
  shows "edge_fits f (t, vs, bs)"
proof -
  obtain k where k: "bt_get (fn_blocks f) t = Some k" using assms(2) by (auto simp: bt_contains_def)
  let ?ps = "blk_parameters k"
  let ?cs = "error_if (length ?ps \<noteq> length vs + length bs) t
       (''edge passes '' @ show_nat (length vs + length bs) @
        '' values/bindings but target expects '' @ show_nat (length ?ps) @ '' parameters'')
     # map (check_argument f t) (enumerate 0 (zip vs ?ps))
     @ map (check_binding_parameter t) (enumerate 0 (zip bs (drop (length vs) ?ps)))"
  obtain s where "mv_errors (in_order ?cs s) = []"
    using assms(1) by (auto simp: passes_def check_arity_def k Let_def)
  then have each: "\<forall>c \<in> set ?cs. passes c"
    by (rule in_order_passes) (auto simp: check_argument_def check_binding_parameter_def)
  have "\<not> types_disagree f v (bp_value p)" if "(v, p) \<in> set (zip vs ?ps)" for v p
  proof -
    obtain i where "(i, v, p) \<in> set (enumerate 0 (zip vs ?ps))"
      using in_enumerate [OF \<open>(v, p) \<in> set (zip vs ?ps)\<close>] by blast
    then have "passes (check_argument f t (i, v, p))" using each by auto
    then show ?thesis by (simp add: check_argument_def)
  qed
  moreover have "sb_parameter b = bp_value p" if "(b, p) \<in> set (zip bs (drop (length vs) ?ps))" for b p
  proof -
    obtain i where "(i, b, p) \<in> set (enumerate 0 (zip bs (drop (length vs) ?ps)))"
      using in_enumerate [OF \<open>(b, p) \<in> set (zip bs (drop (length vs) ?ps))\<close>] by blast
    then have "passes (check_binding_parameter t (i, b, p))" using each by auto
    then show ?thesis by (simp add: check_binding_parameter_def)
  qed
  ultimately show ?thesis using each k by (auto simp: edge_fits_def list_all_iff)
qed

lemma terminator_fits:
  assumes "passes (check_terminator f t)" and "e \<in> set (terminator_edges t)"
  shows "edge_fits f e"
proof -
  obtain s where s: "mv_errors (check_terminator f t s) = []" using assms(1) by (auto simp: passes_def)
  have targets: "\<forall>b \<in> set (terminator_successors t). bt_contains (fn_blocks f) b"
    using passes_terminator [OF assms(1)] by blast
  show ?thesis
  proof (cases t)
    case (TmGoto x b vs)
    have "\<forall>c \<in> set [check_edge x, check_target f b, use_values f vs, check_arity f b vs []]. passes c"
      by (rule in_order_passes [of _ s]) (use s in \<open>auto simp: TmGoto check_terminator_def\<close>)
    then show ?thesis using assms(2) targets by (auto simp: TmGoto intro: arity_fits)
  next
    case (TmBranch c e1 b1 vs e2 b2 ws)
    have "\<forall>c \<in> set [use_value f c, check_edge e1, check_edge e2, check_target f b1,
        check_target f b2, use_values f vs, use_values f ws, check_arity f b1 vs [],
        check_arity f b2 ws []]. passes c"
      by (rule in_order_passes [of _ s]) (use s in \<open>auto simp: TmBranch check_terminator_def\<close>)
    then show ?thesis using assms(2) targets by (auto simp: TmBranch intro: arity_fits)
  next
    case (TmSwitch v arms)
    have "\<forall>c \<in> set [use_value f v, check_arms f False arms]. passes c"
      by (rule in_order_passes [of _ s]) (use s in \<open>auto simp: TmSwitch check_terminator_def\<close>)
    then show ?thesis using assms(2) by (auto simp: TmSwitch dest: passes_arms intro: arity_fits)
  next
    case (TmSwitchMove v arms)
    have "\<forall>c \<in> set [use_value f v, check_arms f True arms]. passes c"
      by (rule in_order_passes [of _ s]) (use s in \<open>auto simp: TmSwitchMove check_terminator_def\<close>)
    then show ?thesis using assms(2) by (auto simp: TmSwitchMove dest: passes_arms intro: arity_fits)
  qed (use assms(2) in auto)
qed

text \<open>Every edge of an accepted function enters a block with values that fit its parameters.\<close>

lemma accepted_edges_fit:
  assumes "bt_wf (fn_blocks f)" and "run_validator f = Some s" and "validator_finish s = Ok ()"
    and "bt_get (fn_blocks f) b = Some k" and "e \<in> set (terminator_edges (blk_terminator k))"
  shows "edge_fits f e"
proof -
  have ok: "mv_errors s = []" using assms(3) by (simp add: validator_finish_def split: if_splits)
  have shape: "mv_errors (check_shape f (check_function_header f validator_new)) = []"
    by (rule validator_parts [OF assms(2) ok])
  obtain t where "mv_errors (check_block f (b, k) t) = []"
    using shape_accepted(2) [OF assms(1) shape bt_get_Some_mem [OF assms(4)]] by blast
  then show ?thesis using check_block_accepted terminator_fits [OF _ assms(5)] by blast
qed

end
