(* ===== verification/Mimi_MirDesc.thy ===== *)
theory Mimi_MirDesc
  imports Mimi_MirFn
begin

text \<open>
  Type descriptors and their catalog (\<open>src/core/mir/types.rs\<close>): layout, ownership, ABI class and
  glue of a type, the metadata predicates every consumer shares, and the closed conversion family.
\<close>

section \<open>Descriptors\<close>

datatype FunctionTypeAbi = FabiMimi | FabiC

datatype OwnershipTypeKind = OtShared | OtWeak

datatype MirTypeKind =
    MkPrimitive PrimitiveType | MkGenericParameter | MkNominal | MkList | MkSet | MkMapRoot
  | MkFlowStateSet | MkReference bool | MkOption | MkResult | MkTuple nat
  | MkFunction FunctionTypeAbi nat | MkCBuffer | MkCapability | MkOwnership OwnershipTypeKind
  | MkNewtype | MkArray nat | MkSlice | MkTrait | MkRawPointer bool | MkDynamicAny

record MirFieldDesc =
  fd_id :: NodeId
  fd_name :: string
  fd_ty :: ResolvedTypeId

record MirVariantDesc =
  vd_id :: NodeId
  vd_name :: string
  vd_discriminant :: u16
  vd_fields :: "MirFieldDesc list"

datatype MirLayout =
    LyUnit | LyScalar | LyHandle
  | LyPointer "ResolvedTypeId option"
  | LyTuple "ResolvedTypeId list"
  | LyOption ResolvedTypeId "MirVariantDesc list"
  | LyResult ResolvedTypeId ResolvedTypeId "MirVariantDesc list"
  | LyEnum NominalTypeId "MirVariantDesc list"
  | LyArray ResolvedTypeId nat
  | LyNewtype NominalTypeId ResolvedTypeId
  | LyRecord NominalTypeId "MirFieldDesc list"
  | LyList ResolvedTypeId
  | LySet ResolvedTypeId
  | LyMapRoot | LyOpaque

record MirDropGlueField =
  dg_index :: nat
  dg_ty :: ResolvedTypeId
  dg_glue :: MirGlueKind

record MirVariantDropGluePlan =
  vg_variant :: NodeId
  vg_fields :: "MirDropGlueField list"

record MirTypeDesc =
  td_id :: ResolvedTypeId
  td_kind :: MirTypeKind
  td_layout :: MirLayout
  td_session_protocol :: "ResolvedTypeId option"
  td_ownership :: MirOwnership
  td_abi :: MirAbiClass
  td_needs_drop_glue :: bool
  td_needs_clone_glue :: bool
  td_glue :: MirGlueContract
  td_drop_plan :: "MirDropGlueField list option"
  td_variant_drop_plan :: "MirVariantDropGluePlan list option"

type_synonym MirTypeCatalog = "(ResolvedTypeId, MirTypeDesc) btree_map"

section \<open>Glue\<close>

definition glue_all :: "MirGlueKind \<Rightarrow> MirGlueContract" where
  "glue_all k = \<lparr>gc_move_out = k, gc_clone = k, gc_drop = k\<rparr>"

definition map_root_glue :: MirGlueContract where
  "map_root_glue =
     \<lparr>gc_move_out = GlueMapRoot, gc_clone = GlueUnsupported, gc_drop = GlueMapRoot\<rparr>"

definition glue_for_type :: "MirTypeKind \<Rightarrow> MirOwnership \<Rightarrow> MirGlueContract" where
  "glue_for_type k w =
     (if w = OwnCopy then glue_all GlueNoop
      else if k = MkPrimitive PrString \<and> w = OwnMove then glue_all GlueOwnedString
      else if k = MkList \<and> w = OwnMove then glue_all GlueList
      else if k = MkSet \<and> w = OwnMove then glue_all GlueSet
      else if k = MkMapRoot \<and> w = OwnMove then map_root_glue
      else glue_all GlueUnsupported)"

definition supports_move_out :: "MirGlueContract \<Rightarrow> bool" where
  "supports_move_out g \<longleftrightarrow> gc_move_out g \<noteq> GlueUnsupported"

definition supports_clone :: "MirGlueContract \<Rightarrow> bool" where
  "supports_clone g \<longleftrightarrow> gc_clone g \<noteq> GlueUnsupported"

definition supports_drop :: "MirGlueContract \<Rightarrow> bool" where
  "supports_drop g \<longleftrightarrow> gc_drop g \<noteq> GlueUnsupported"

text \<open>The glue of a type never offers a clone without an owner that can drop the copy.\<close>

lemma clone_implies_drop:
  "supports_clone (glue_for_type k w) \<Longrightarrow>
     supports_drop (glue_for_type k w) \<and> supports_move_out (glue_for_type k w)"
  by (auto simp: glue_for_type_def supports_clone_def supports_drop_def supports_move_out_def
      glue_all_def map_root_glue_def split: if_splits)

section \<open>Metadata predicates\<close>

definition has_canonical_copy_noop_metadata :: "MirTypeDesc \<Rightarrow> bool" where
  "has_canonical_copy_noop_metadata d \<longleftrightarrow>
     td_session_protocol d = None \<and> td_ownership d = OwnCopy \<and> \<not> td_needs_drop_glue d
     \<and> \<not> td_needs_clone_glue d \<and> td_glue d = glue_all GlueNoop
     \<and> td_drop_plan d = None \<and> td_variant_drop_plan d = None"

definition primitive_abi_matches :: "MirTypeKind \<Rightarrow> MirAbiClass \<Rightarrow> bool \<Rightarrow> bool" where
  "primitive_abi_matches k abi allow_float \<longleftrightarrow>
     k = MkPrimitive PrI32 \<and> abi = AbiInteger 32 True
     \<or> k = MkPrimitive PrI64 \<and> abi = AbiInteger 64 True
     \<or> k = MkPrimitive PrBool \<and> abi = AbiBool
     \<or> allow_float \<and> (k = MkPrimitive PrF32 \<and> abi = AbiFloat 32
                      \<or> k = MkPrimitive PrF64 \<and> abi = AbiFloat 64)"

definition is_canonical_copy_scalar :: "MirTypeDesc \<Rightarrow> bool \<Rightarrow> bool" where
  "is_canonical_copy_scalar d allow_float \<longleftrightarrow>
     primitive_abi_matches (td_kind d) (td_abi d) allow_float \<and> td_layout d = LyScalar
     \<and> has_canonical_copy_noop_metadata d"

definition is_canonical_ffi_scalar :: "MirTypeDesc \<Rightarrow> bool" where
  "is_canonical_ffi_scalar d \<longleftrightarrow>
     is_canonical_copy_scalar d True
     \<and> (case canonical_ffi_scalar_kind (td_abi d) of None \<Rightarrow> False | Some k \<Rightarrow> k \<noteq> FfiUnit)"

definition is_canonical_ffi_unit :: "MirTypeDesc \<Rightarrow> bool" where
  "is_canonical_ffi_unit d \<longleftrightarrow>
     td_kind d = MkPrimitive PrUnit \<and> td_layout d = LyUnit \<and> td_abi d = AbiUnit
     \<and> has_canonical_copy_noop_metadata d"

definition is_canonical_ffi_endpoint :: "MirTypeCatalog \<Rightarrow> ResolvedTypeId \<Rightarrow> bool \<Rightarrow> bool" where
  "is_canonical_ffi_endpoint cat ty allow_unit =
     (case bt_get cat ty of
        None \<Rightarrow> False
      | Some d \<Rightarrow> allow_unit \<and> is_canonical_ffi_unit d \<or> is_canonical_ffi_scalar d)"

text \<open>The non-unit test of the FFI predicate never fails on a Copy scalar.\<close>

lemma ffi_scalar_iff: "is_canonical_ffi_scalar d \<longleftrightarrow> is_canonical_copy_scalar d True"
  by (auto simp: is_canonical_ffi_scalar_def is_canonical_copy_scalar_def primitive_abi_matches_def
      canonical_ffi_scalar_kind_def)

definition absent :: "ResolvedTypeId \<Rightarrow> string" where
  "absent ty = ''type '' @ quoted ty @ '' is absent from MIR TypeDesc catalog''"

definition validate_copy_scalar_with_float :: "MirTypeCatalog \<Rightarrow> ResolvedTypeId \<Rightarrow> bool \<Rightarrow> string + unit"
where
  "validate_copy_scalar_with_float cat ty allow_float =
     (case bt_get cat ty of
        None \<Rightarrow> Err (absent ty)
      | Some d \<Rightarrow>
          if is_canonical_copy_scalar d allow_float then Ok ()
          else Err (''type '' @ quoted ty @ '' is not a '' @
                 (if allow_float then ''Copy scalar/bool'' else ''Copy signed scalar/bool'') @
                 '' with no-op glue''))"

definition validate_copy_scalar :: "MirTypeCatalog \<Rightarrow> ResolvedTypeId \<Rightarrow> string + unit" where
  "validate_copy_scalar cat ty = validate_copy_scalar_with_float cat ty False"

definition validate_copy_float_scalar :: "MirTypeCatalog \<Rightarrow> ResolvedTypeId \<Rightarrow> string + unit" where
  "validate_copy_float_scalar cat ty = validate_copy_scalar_with_float cat ty True"

fun check_record_fields ::
    "MirTypeCatalog \<Rightarrow> ResolvedTypeId \<Rightarrow> bool \<Rightarrow> NodeId list \<Rightarrow> MirFieldDesc list \<Rightarrow> string + unit" where
  "check_record_fields cat ty allow_float seen [] = Ok ()"
| "check_record_fields cat ty allow_float seen (f # fs) =
     (if fd_id f \<in> set seen
      then Err (''record type '' @ quoted ty @ '' repeats field identity '' @ quoted (node_str (fd_id f)))
      else case validate_copy_scalar_with_float cat (fd_ty f) allow_float of
             Err m \<Rightarrow> Err (''record type '' @ quoted ty @ '' field '' @ quoted (fd_name f) @
               '' is outside the flat Copy record contract: '' @ m)
           | Ok _ \<Rightarrow> check_record_fields cat ty allow_float (fd_id f # seen) fs)"

definition validate_flat_copy_record_with_float ::
    "MirTypeCatalog \<Rightarrow> ResolvedTypeId \<Rightarrow> bool \<Rightarrow> string + unit" where
  "validate_flat_copy_record_with_float cat ty allow_float =
     (case bt_get cat ty of
        None \<Rightarrow> Err (absent ty)
      | Some d \<Rightarrow>
          (case td_layout d of
             LyRecord nominal fs \<Rightarrow>
               if \<not> has_canonical_copy_noop_metadata d
               then Err (''record type '' @ quoted ty @ '' is not in the flat Copy record contract'')
               else if td_abi d \<noteq> AbiAggregate \<or> fs = []
               then Err (''record type '' @ quoted ty @ '' has no non-empty aggregate ABI'')
               else check_record_fields cat ty allow_float [] fs
           | _ \<Rightarrow> Err (''type '' @ quoted ty @ '' has no canonical record layout'')))"

definition validate_flat_copy_record :: "MirTypeCatalog \<Rightarrow> ResolvedTypeId \<Rightarrow> string + unit" where
  "validate_flat_copy_record cat ty = validate_flat_copy_record_with_float cat ty False"

fun check_tuple_elements ::
    "MirTypeCatalog \<Rightarrow> ResolvedTypeId \<Rightarrow> nat \<Rightarrow> ResolvedTypeId list \<Rightarrow> string + unit" where
  "check_tuple_elements cat ty i [] = Ok ()"
| "check_tuple_elements cat ty i (e # es) =
     (case validate_copy_scalar cat e of
        Err m \<Rightarrow> Err (''tuple type '' @ quoted ty @ '' element '' @ show_nat i @
          '' is outside the flat Copy tuple contract: '' @ m)
      | Ok _ \<Rightarrow> check_tuple_elements cat ty (Suc i) es)"

definition validate_flat_copy_tuple :: "MirTypeCatalog \<Rightarrow> ResolvedTypeId \<Rightarrow> string + unit" where
  "validate_flat_copy_tuple cat ty =
     (case bt_get cat ty of
        None \<Rightarrow> Err (absent ty)
      | Some d \<Rightarrow>
          (case td_layout d of
             LyTuple es \<Rightarrow>
               if td_kind d \<noteq> MkTuple 2 \<or> td_abi d \<noteq> AbiAggregate
                  \<or> \<not> has_canonical_copy_noop_metadata d \<or> length es \<noteq> 2
               then Err (''tuple type '' @ quoted ty @
                 '' is outside the two-element flat Copy tuple contract'')
               else check_tuple_elements cat ty 0 es
           | _ \<Rightarrow> Err (''type '' @ quoted ty @ '' has no canonical tuple layout'')))"

text \<open>What the flat contracts mean: Copy all the way down.\<close>

definition copy_scalar_type :: "MirTypeCatalog \<Rightarrow> bool \<Rightarrow> ResolvedTypeId \<Rightarrow> bool" where
  "copy_scalar_type cat allow_float ty \<longleftrightarrow>
     (\<exists>d. bt_get cat ty = Some d \<and> is_canonical_copy_scalar d allow_float)"

lemma validate_copy_scalar_ok:
  "validate_copy_scalar_with_float cat ty a = Ok () \<longleftrightarrow> copy_scalar_type cat a ty"
  by (auto simp: validate_copy_scalar_with_float_def copy_scalar_type_def split: option.splits)

lemma check_record_fields_ok:
  "check_record_fields cat ty a seen fs = Ok () \<longleftrightarrow>
     distinct (map fd_id fs) \<and> set (map fd_id fs) \<inter> set seen = {}
     \<and> (\<forall>f \<in> set fs. copy_scalar_type cat a (fd_ty f))"
proof (induction fs arbitrary: seen)
  case (Cons f fs)
  show ?case
    using validate_copy_scalar_ok [of cat "fd_ty f" a] Cons.IH [of "fd_id f # seen"]
    by (cases "validate_copy_scalar_with_float cat (fd_ty f) a") auto
qed simp

lemma validate_flat_copy_record_ok:
  "validate_flat_copy_record_with_float cat ty a = Ok () \<longleftrightarrow>
     (\<exists>d nominal fs. bt_get cat ty = Some d \<and> td_layout d = LyRecord nominal fs \<and> fs \<noteq> []
       \<and> has_canonical_copy_noop_metadata d \<and> td_abi d = AbiAggregate \<and> distinct (map fd_id fs)
       \<and> (\<forall>f \<in> set fs. copy_scalar_type cat a (fd_ty f)))"
  by (auto simp: validate_flat_copy_record_with_float_def check_record_fields_ok
      split: option.splits MirLayout.splits)

section \<open>Builtin layouts and conversions\<close>

definition accepts_layout :: "MirBuiltinContract \<Rightarrow> MirLayout \<Rightarrow> bool" where
  "accepts_layout c l =
     (case bc_kind c of
        BkSessionOpen \<Rightarrow> l = LyHandle
      | BkSessionPair \<Rightarrow> (case l of LyTuple es \<Rightarrow> length es = 2 | _ \<Rightarrow> False)
      | BkPrintlnString \<Rightarrow> l = LyHandle
      | _ \<Rightarrow> l = LyScalar)"

definition conversion_accepts :: "MirConversionContract \<Rightarrow> MirTypeDesc \<Rightarrow> MirTypeDesc \<Rightarrow> bool" where
  "conversion_accepts c s t =
     (let layout_ok = \<not> cv_requires_scalar c \<or> td_layout s = LyScalar \<and> td_layout t = LyScalar;
          ownership_ok = \<not> cv_requires_copy c \<or> td_ownership s = OwnCopy \<and> td_ownership t = OwnCopy
      in if \<not> layout_ok \<or> \<not> ownership_ok then False
         else case cv_kind c of
           CvScalarIdentity \<Rightarrow> td_id s = td_id t \<and> td_abi s = td_abi t
         | CvSignedI32ToI64 \<Rightarrow> td_abi s = AbiInteger 32 True \<and> td_abi t = AbiInteger 64 True
         | CvSignedI32ToFloat64 \<Rightarrow> td_abi s = AbiInteger 32 True \<and> td_abi t = AbiFloat 64
         | CvSignedI64ToFloat64 \<Rightarrow> td_abi s = AbiInteger 64 True \<and> td_abi t = AbiFloat 64
         | CvFloat64ToFloat32 \<Rightarrow> td_abi s = AbiFloat 64 \<and> td_abi t = AbiFloat 32)"

definition conversion_for_descriptors ::
    "MirTypeDesc \<Rightarrow> MirTypeDesc \<Rightarrow> MirConversionContract option" where
  "conversion_for_descriptors s t =
     find (\<lambda>c. conversion_accepts c s t)
       (map conversion_for_kind [CvScalarIdentity, CvSignedI32ToI64, CvSignedI32ToFloat64,
          CvSignedI64ToFloat64, CvFloat64ToFloat32])"

text \<open>At most one conversion applies: the search order does not matter.\<close>

lemma conversion_unique:
  assumes "conversion_accepts (conversion_for_kind k) s t"
    and "conversion_accepts (conversion_for_kind k') s t"
  shows "k = k'"
  using assms
  by (cases k; cases k')
    (simp_all add: conversion_accepts_def conversion_for_kind_def Let_def split: if_splits)

lemma conversion_for_descriptors_iff:
  "conversion_for_descriptors s t = Some (conversion_for_kind k)
     \<longleftrightarrow> conversion_accepts (conversion_for_kind k) s t"
proof
  let ?P = "\<lambda>c. conversion_accepts c s t"
  let ?cs = "map conversion_for_kind [CvScalarIdentity, CvSignedI32ToI64, CvSignedI32ToFloat64,
      CvSignedI64ToFloat64, CvFloat64ToFloat32]"
  have found: "?P c \<and> c \<in> set ?cs" if "find ?P ?cs = Some c" for c
    using that unfolding find_Some_iff by (metis nth_mem)
  show "?P (conversion_for_kind k)" if "conversion_for_descriptors s t = Some (conversion_for_kind k)"
    using found that unfolding conversion_for_descriptors_def by blast
  assume k: "?P (conversion_for_kind k)"
  have "conversion_for_kind k \<in> set ?cs" by (cases k) simp_all
  with k obtain c where c: "find ?P ?cs = Some c" by (metis find_None_iff not_Some_eq)
  obtain j where "c = conversion_for_kind j" using found [OF c] by auto
  moreover from this have "j = k" using found [OF c] k by (blast intro: conversion_unique)
  ultimately show "conversion_for_descriptors s t = Some (conversion_for_kind k)"
    using c unfolding conversion_for_descriptors_def by simp
qed

end
