(* ===== verification/Mimi_MirLinear.thy ===== *)
theory Mimi_MirLinear
  imports Mimi_MirDesc Mimi_MirDominance
begin

text \<open>
  The consumption pass over the canonical IR (\<open>validate_linear_consumption\<close> and its helpers in
  \<open>src/core/mir/reference.rs\<close>): a forward worklist that carries the set of consumed values into
  every block and reports a non-Copy value consumed again. The worklist drains on every function.
\<close>

section \<open>What an instruction consumes and produces\<close>

fun consumed_sources :: "MirInstructionKind \<Rightarrow> MirValueId list" where
  "consumed_sources (IMove _ source) = [source]"
| "consumed_sources (IDrop source) = [source]"
| "consumed_sources (IMoveProject _ source _) = [source]"
| "consumed_sources (IMoveProjectDrop _ source _ _) = [source]"
| "consumed_sources (IVariantProjectMove _ source _) = [source]"
| "consumed_sources (ICall _ _ _ arguments _ _) = arguments"
| "consumed_sources (IFlowTransition _ _ arguments _) = arguments"
| "consumed_sources (IConstruct _ _ arguments) = arguments"
| "consumed_sources (IBuiltinCall _ _ arguments c) = (if c = None then arguments else [])"
| "consumed_sources (ISessionCall _ operation endpoint payload _) =
     (if operation = SoSend \<or> operation = SoRecv then [] else [endpoint])
     @ (case payload of Some p \<Rightarrow> [p] | None \<Rightarrow> [])"
| "consumed_sources (IConstructList _ elements _) = elements"
| "consumed_sources (IListOp _ operation l argument _) =
     (case argument of Some a \<Rightarrow> if operation = LoConcat then [l, a] else [] | None \<Rightarrow> [])"
| "consumed_sources (IConstructSet _ elements) = elements"
| "consumed_sources (ISetOp _ operation st argument) =
     (if operation = SetInsert \<or> operation = SetRemove
      then st # (case argument of Some a \<Rightarrow> [a] | None \<Rightarrow> []) else [])"
| "consumed_sources (IConstructVariant _ _ _ fs) = map snd fs"
| "consumed_sources (IConstructVariantMove _ _ _ fs) = map snd fs"
| "consumed_sources (IUpdateRecord _ base _ arguments _ _) = base # arguments"
| "consumed_sources _ = []"

fun produced_value :: "MirInstructionKind \<Rightarrow> MirValueId option" where
  "produced_value (IConst r _) = Some r"
| "produced_value (IMapRootNew r) = Some r"
| "produced_value (IMapRootSet r _ _ _) = Some r"
| "produced_value (IMapRootRemove r _ _) = Some r"
| "produced_value (IMapRootSize r _) = Some r"
| "produced_value (IMapRootContains r _ _) = Some r"
| "produced_value (ILoad r _) = Some r"
| "produced_value (ICopy r _) = Some r"
| "produced_value (IMove r _) = Some r"
| "produced_value (IClone r _) = Some r"
| "produced_value (IBorrow _ _ _ _ r _ _) = Some r"
| "produced_value (IProject r _ _ _) = Some r"
| "produced_value (IMoveProject r _ _) = Some r"
| "produced_value (IMoveProjectDrop r _ _ _) = Some r"
| "produced_value (IVariantProject r _ _) = Some r"
| "produced_value (IVariantProjectOr r _ _ _) = Some r"
| "produced_value (IVariantProjectMove r _ _) = Some r"
| "produced_value (IConstruct r _ _) = Some r"
| "produced_value (IConstructList r _ _) = Some r"
| "produced_value (IListOp r _ _ _ _) = Some r"
| "produced_value (IVariantPredicate r _ _ _) = Some r"
| "produced_value (IConstructSet r _) = Some r"
| "produced_value (ISetOp r _ _ _) = Some r"
| "produced_value (IConstructVariant r _ _ _) = Some r"
| "produced_value (IConstructVariantMove r _ _ _) = Some r"
| "produced_value (IUpdateRecord r _ _ _ _ _) = Some r"
| "produced_value (IBinary r _ _ _) = Some r"
| "produced_value (IUnary r _ _) = Some r"
| "produced_value (IBuiltinCall r _ _ _) = Some r"
| "produced_value (ISessionCall r _ _ _ _) = Some r"
| "produced_value (IConvert r _) = Some r"
| "produced_value (ICall r _ _ _ _ _) = r"
| "produced_value (IFlowTransition r _ _ _) = Some r"
| "produced_value (IEndBorrow _) = None"
| "produced_value (IDrop _) = None"
| "produced_value (ISessionPairBind _ _ _) = None"
| "produced_value (IMapRootDrop _) = None"
| "produced_value INop = None"

text \<open>What the pass takes off the consumed set after an instruction.\<close>

definition fresh_values :: "MirInstructionKind \<Rightarrow> MirValueId list" where
  "fresh_values k =
     (case k of
        ISessionPairBind lo hi _ \<Rightarrow> [lo, hi]
      | _ \<Rightarrow> (case produced_value k of None \<Rightarrow> [] | Some r \<Rightarrow> [r]))"

lemma fresh_values_results: "fresh_values k = instruction_results k"
  by (cases k) (simp_all add: fresh_values_def)

definition is_non_copy :: "MirFunction \<Rightarrow> MirTypeCatalog \<Rightarrow> MirValueId \<Rightarrow> bool" where
  "is_non_copy f cat v =
     (case bt_get (fn_values f) v of
        None \<Rightarrow> False
      | Some x \<Rightarrow> (case bt_get cat (val_ty x) of None \<Rightarrow> False | Some d \<Rightarrow> td_ownership d \<noteq> OwnCopy))"

section \<open>Consuming\<close>

text \<open>The errors so far, and the pairs already reported.\<close>

type_synonym error_log = "MirValidationError list \<times> (string \<times> string) list"

definition push_ownership_error :: "string \<Rightarrow> string \<Rightarrow> error_log \<Rightarrow> error_log" where
  "push_ownership_error subject msg l =
     (if (subject, msg) \<in> set (snd l) then l
      else (fst l @ [\<lparr>ve_subject = subject, ve_message = msg\<rparr>], (subject, msg) # snd l))"

definition consume_value ::
    "MirFunction \<Rightarrow> MirTypeCatalog \<Rightarrow> string \<Rightarrow> MirValueId btree_set \<times> error_log \<Rightarrow> MirValueId \<Rightarrow>
      MirValueId btree_set \<times> error_log" where
  "consume_value f cat subject st v = (case st of (consumed, l) \<Rightarrow>
     if \<not> is_non_copy f cat v then (consumed, l)
     else if v \<in> set consumed
     then (consumed, push_ownership_error subject (''use after consuming non-Copy value '' @ quoted v) l)
     else (bs_insert v consumed, l))"

definition consume_values ::
    "MirFunction \<Rightarrow> MirTypeCatalog \<Rightarrow> string \<Rightarrow> MirValueId list \<Rightarrow> MirValueId btree_set \<times> error_log \<Rightarrow>
      MirValueId btree_set \<times> error_log" where
  "consume_values f cat subject vs st = foldl (consume_value f cat subject) st vs"

definition remove_all :: "MirValueId list \<Rightarrow> MirValueId btree_set \<Rightarrow> MirValueId btree_set" where
  "remove_all vs s = foldl (\<lambda>s v. bs_remove v s) s vs"

definition consume_instruction ::
    "MirFunction \<Rightarrow> MirTypeCatalog \<Rightarrow> MirValueId btree_set \<times> error_log \<Rightarrow> MirInstruction \<Rightarrow>
      MirValueId btree_set \<times> error_log" where
  "consume_instruction f cat st ins =
     (case consume_values f cat (ins_id ins) (consumed_sources (ins_kind ins)) st of
        (consumed, l) \<Rightarrow> (remove_all (fresh_values (ins_kind ins)) consumed, l))"

section \<open>Propagating along an edge\<close>

record LinearState =
  ln_incoming :: "(MirBlockId, MirValueId btree_set) btree_map"
  ln_worklist :: "MirBlockId list"
  ln_queued :: "MirBlockId btree_set"
  ln_log :: error_log

text \<open>
  \<open>consumed.iter().any(|value| state.insert(value.clone()))\<close>: \<open>any\<close> stops at the first value that
  was not there.
\<close>

fun insert_any :: "MirValueId list \<Rightarrow> MirValueId btree_set \<Rightarrow> bool \<times> MirValueId btree_set" where
  "insert_any [] s = (False, s)"
| "insert_any (v # vs) s = (if v \<in> set s then insert_any vs s else (True, bs_insert v s))"

definition block_parameters :: "MirFunction \<Rightarrow> MirBlockId \<Rightarrow> MirValueId list" where
  "block_parameters f b =
     (case bt_get (fn_blocks f) b of None \<Rightarrow> [] | Some k \<Rightarrow> map bp_value (blk_parameters k))"

definition propagate_edge ::
    "MirFunction \<Rightarrow> MirTypeCatalog \<Rightarrow> MirValueId btree_set \<Rightarrow> LinearState \<Rightarrow>
      MirBlockId \<times> MirValueId list \<times> MirEdgeId \<Rightarrow> LinearState" where
  "propagate_edge f cat before s e = (case e of (target, vs, subject) \<Rightarrow>
     (case consume_values f cat subject vs (before, ln_log s) of
        (consumed0, l) \<Rightarrow>
          let consumed = remove_all (block_parameters f target) consumed0;
              s1 = s\<lparr>ln_log := l\<rparr>
          in case bt_get (ln_incoming s1) target of
               None \<Rightarrow> s1
             | Some state \<Rightarrow>
                 (case insert_any consumed state of
                    (changed, state') \<Rightarrow>
                      let s2 = s1\<lparr>ln_incoming := bt_insert target state' (ln_incoming s1)\<rparr>
                      in if changed \<and> target \<notin> set (ln_queued s2)
                         then s2\<lparr>ln_queued := bs_insert target (ln_queued s2),
                                 ln_worklist := ln_worklist s2 @ [target]\<rparr>
                         else s2)))"

text \<open>The edges a terminator propagates along, in the order it does.\<close>

fun linear_edges :: "MirTerminator \<Rightarrow> (MirBlockId \<times> MirValueId list \<times> MirEdgeId) list" where
  "linear_edges (TmGoto e t vs) = [(t, vs, e)]"
| "linear_edges (TmBranch _ e1 t1 vs e2 t2 ws) = [(t1, vs, e1), (t2, ws, e2)]"
| "linear_edges (TmSwitch _ arms) = map (\<lambda>a. (arm_target a, arm_arguments a, arm_edge a)) arms"
| "linear_edges (TmSwitchMove _ arms) = map (\<lambda>a. (arm_target a, arm_arguments a, arm_edge a)) arms"
| "linear_edges _ = []"

definition linear_terminator ::
    "MirFunction \<Rightarrow> MirTypeCatalog \<Rightarrow> MirBlock \<Rightarrow> MirValueId btree_set \<Rightarrow> LinearState \<Rightarrow> LinearState" where
  "linear_terminator f cat block consumed s =
     (case blk_terminator block of
        TmSwitch scrutinee arms \<Rightarrow>
          let s1 = (if is_non_copy f cat scrutinee
               then s\<lparr>ln_log := push_ownership_error (blk_id block)
                 (''switch scrutinee '' @ quoted scrutinee @
                  '' is non-Copy but aggregate match glue is not materialized'') (ln_log s)\<rparr>
               else s)
          in foldl (propagate_edge f cat consumed) s1 (linear_edges (blk_terminator block))
      | TmSwitchMove scrutinee arms \<Rightarrow>
          (case consume_values f cat (blk_id block) [scrutinee] (consumed, ln_log s) of
             (after_switch, l) \<Rightarrow>
               foldl (propagate_edge f cat after_switch) (s\<lparr>ln_log := l\<rparr>)
                 (linear_edges (blk_terminator block)))
      | TmReturn (Some v) \<Rightarrow>
          s\<lparr>ln_log := snd (consume_values f cat (blk_id block) [v] (consumed, ln_log s))\<rparr>
      | t \<Rightarrow> foldl (propagate_edge f cat consumed) s (linear_edges t))"

section \<open>The worklist\<close>

definition linear_step :: "MirFunction \<Rightarrow> MirTypeCatalog \<Rightarrow> MirBlockId \<Rightarrow> LinearState \<Rightarrow> LinearState" where
  "linear_step f cat b s0 =
     (let s = s0\<lparr>ln_queued := bs_remove b (ln_queued s0)\<rparr>
      in case bt_get (fn_blocks f) b of
           None \<Rightarrow> s
         | Some block \<Rightarrow>
             let incoming = (case bt_get (ln_incoming s) b of None \<Rightarrow> [] | Some c \<Rightarrow> c);
                 start = remove_all (map bp_value (blk_parameters block)) incoming
             in case foldl (consume_instruction f cat) (start, ln_log s) (blk_instructions block) of
                  (consumed, l) \<Rightarrow> linear_terminator f cat block consumed (s\<lparr>ln_log := l\<rparr>))"

partial_function (option) linear_loop ::
    "MirFunction \<Rightarrow> MirTypeCatalog \<Rightarrow> LinearState \<Rightarrow> LinearState option" where
  "linear_loop f cat s =
     (case ln_worklist s of
        [] \<Rightarrow> Some s
      | b # rest \<Rightarrow> linear_loop f cat (linear_step f cat b (s\<lparr>ln_worklist := rest\<rparr>)))"

declare linear_loop.simps [code]

definition linear_start :: "MirFunction \<Rightarrow> LinearState" where
  "linear_start f =
     \<lparr>ln_incoming = bt_collect (map (\<lambda>b. (b, [])) (bt_keys (fn_blocks f))),
      ln_worklist = bt_keys (fn_blocks f),
      ln_queued = bs_extend [] (bt_keys (fn_blocks f)), ln_log = ([], [])\<rparr>"

definition validate_linear_consumption :: "MirFunction \<Rightarrow> MirTypeCatalog \<Rightarrow> MirValidationError list option" where
  "validate_linear_consumption f cat = map_option (fst \<circ> ln_log) (linear_loop f cat (linear_start f))"

end
