(* ===== verification/Mimi_MirLinearLaws.thy ===== *)
theory Mimi_MirLinearLaws
  imports Mimi_MirLinear
begin

text \<open>
  The worklist of the consumption pass drains on every function: each time a block is queued
  again its incoming set has grown inside a finite universe. When the pass reports nothing, no
  block consumes a non-Copy value twice on one of its runs.
\<close>

section \<open>The log\<close>

definition log_ok :: "error_log \<Rightarrow> bool" where
  "log_ok l \<longleftrightarrow> (fst l = [] \<longrightarrow> snd l = [])"

text \<open>An operation on the log keeps it consistent and never empties it.\<close>

definition log_grows :: "error_log \<Rightarrow> error_log \<Rightarrow> bool" where
  "log_grows l l' \<longleftrightarrow> (log_ok l \<longrightarrow> log_ok l') \<and> (fst l' = [] \<longrightarrow> log_ok l \<longrightarrow> l = ([], []) \<and> l' = ([], []))"

lemma log_grows_refl [simp]: "log_grows l l"
  by (cases l) (simp add: log_grows_def log_ok_def)

lemma log_grows_trans: "log_grows a b \<Longrightarrow> log_grows b c \<Longrightarrow> log_grows a c"
  by (auto simp: log_grows_def)

lemma log_grows_push: "log_grows l (push_ownership_error s m l)"
  by (cases l) (auto simp: log_grows_def log_ok_def push_ownership_error_def)

lemma log_grows_empty: "log_grows ([], []) l \<Longrightarrow> log_grows l m \<Longrightarrow> fst m = [] \<Longrightarrow> l = ([], [])"
proof -
  assume l: "log_grows ([], []) l" and m: "log_grows l m" "fst m = []"
  have "log_ok ([], [])" by (simp add: log_ok_def)
  with l have "log_ok l" unfolding log_grows_def by blast
  with m show ?thesis unfolding log_grows_def by blast
qed

lemma push_reports: "log_ok l \<Longrightarrow> fst (push_ownership_error s m l) \<noteq> []"
  by (cases l) (auto simp: log_ok_def push_ownership_error_def)

lemma push_never_empty: "push_ownership_error s m ([], []) \<noteq> ([], [])"
  by (simp add: push_ownership_error_def)

lemma fold_log_grows:
  assumes "\<And>st x. x \<in> set xs \<Longrightarrow> log_grows (h st) (h (g st x))"
  shows "log_grows (h st) (h (foldl g st xs))"
  using assms
proof (induction xs arbitrary: st)
  case (Cons x xs)
  have "log_grows (h (g st x)) (h (foldl g (g st x) xs))"
    by (rule Cons.IH) (rule Cons.prems, simp)
  then show ?case using Cons.prems [of x st] by (auto intro: log_grows_trans)
qed simp

lemma fold_log_each:
  assumes "\<And>st x. x \<in> set xs \<Longrightarrow> log_grows (h st) (h (g st x))"
    and "fst (h (foldl g st xs)) = []" and "log_ok (h st)" and "x \<in> set xs"
  shows "\<exists>st'. h st' = ([], []) \<and> fst (h (g st' x)) = []"
  using assms
proof (induction xs arbitrary: st)
  case (Cons y xs)
  have grows: "log_grows (h (g st y)) (h (foldl g (g st y) xs))"
    by (rule fold_log_grows) (rule Cons.prems(1), simp)
  have first: "log_grows (h st) (h (g st y))" by (rule Cons.prems(1)) simp
  have "fst (h (foldl g (g st y) xs)) = []" using Cons.prems(2) by simp
  then have y: "h st = ([], [])" "h (g st y) = ([], [])"
    using grows first Cons.prems(3) by (auto simp: log_grows_def)
  show ?case
  proof (cases "x = y")
    case False
    then have "x \<in> set xs" using Cons.prems(4) by simp
    show ?thesis
      by (rule Cons.IH [of "g st y"])
        (use Cons.prems(2) y \<open>x \<in> set xs\<close> in \<open>auto simp: log_ok_def intro: Cons.prems(1)\<close>)
  qed (use y in auto)
qed simp

lemma consume_log: "log_grows (snd st) (snd (consume_value f cat subject st v))"
  by (cases st) (auto simp: consume_value_def log_grows_push)

lemma consume_values_log: "log_grows (snd st) (snd (consume_values f cat subject vs st))"
  unfolding consume_values_def by (rule fold_log_grows) (rule consume_log)

lemma consume_instruction_log: "log_grows (snd st) (snd (consume_instruction f cat st ins))"
  using consume_values_log [of st f cat "ins_id ins" "consumed_sources (ins_kind ins)"]
  by (auto simp: consume_instruction_def split: prod.split)

lemma propagate_edge_log:
  "ln_log (propagate_edge f cat before s (t, vs, subj)) = snd (consume_values f cat subj vs (before, ln_log s))"
  by (simp add: propagate_edge_def Let_def split: prod.split option.split)

lemma propagate_log: "log_grows (ln_log s) (ln_log (propagate_edge f cat before s e))"
proof -
  obtain t vs subj where e: "e = (t, vs, subj)" by (cases e) (rule that)
  show ?thesis
    using consume_values_log [of "(before, ln_log s)"] by (simp add: e propagate_edge_log)
qed

lemma propagate_all_log: "log_grows (ln_log s) (ln_log (foldl (propagate_edge f cat before) s es))"
  by (rule fold_log_grows) (rule propagate_log)

lemma terminator_log: "log_grows (ln_log s) (ln_log (linear_terminator f cat k consumed s))"
proof -
  have edges: "log_grows l (ln_log (foldl (propagate_edge f cat c) (s\<lparr>ln_log := l'\<rparr>) es))"
    if "log_grows l l'" for l l' c es
    using that propagate_all_log [of "s\<lparr>ln_log := l'\<rparr>"] by (auto intro: log_grows_trans)
  have same: "log_grows (ln_log s) (ln_log (foldl (propagate_edge f cat c) s es))" for c es
    by (rule propagate_all_log)
  show ?thesis
  proof (cases "blk_terminator k")
    case (TmSwitchMove v arms)
    obtain c l where c: "consume_values f cat (blk_id k) [v] (consumed, ln_log s) = (c, l)"
      by (rule prod.exhaust)
    then have "log_grows (ln_log s) l"
      using consume_values_log [of "(consumed, ln_log s)" f cat "blk_id k" "[v]"] by simp
    from edges [OF this] show ?thesis by (simp add: linear_terminator_def TmSwitchMove c)
  next
    case (TmReturn w)
    then show ?thesis
      using consume_values_log [of "(consumed, ln_log s)"]
      by (auto simp: linear_terminator_def split: option.split)
  next
    case (TmSwitch v arms)
    show ?thesis
      using edges [OF log_grows_push] same by (simp add: linear_terminator_def TmSwitch Let_def)
  qed (use same [of consumed "linear_edges (blk_terminator k)"]
      in \<open>simp_all add: linear_terminator_def\<close>)
qed

lemma linear_step_log: "log_grows (ln_log s) (ln_log (linear_step f cat b s))"
proof (cases "bt_get (fn_blocks f) b")
  case (Some k)
  obtain c l where fold: "foldl (consume_instruction f cat)
      (remove_all (map bp_value (blk_parameters k))
        (case bt_get (ln_incoming s) b of None \<Rightarrow> [] | Some c \<Rightarrow> c), ln_log s)
      (blk_instructions k) = (c, l)"
    by (rule prod.exhaust)
  have "log_grows (ln_log s) l"
    using fold_log_grows [of "blk_instructions k" snd "consume_instruction f cat"
        "(remove_all (map bp_value (blk_parameters k))
          (case bt_get (ln_incoming s) b of None \<Rightarrow> [] | Some c \<Rightarrow> c), ln_log s)"]
      consume_instruction_log by (simp add: fold)
  moreover have "log_grows l (ln_log (linear_terminator f cat k c
      (s\<lparr>ln_queued := bs_remove b (ln_queued s), ln_log := l\<rparr>)))"
    using terminator_log [of "s\<lparr>ln_queued := bs_remove b (ln_queued s), ln_log := l\<rparr>"] by simp
  ultimately show ?thesis
    by (auto simp: linear_step_def Let_def Some fold intro: log_grows_trans)
qed (simp add: linear_step_def Let_def)

section \<open>Termination\<close>

definition universe :: "MirFunction \<Rightarrow> MirValueId set" where
  "universe f = set (bt_keys (fn_values f))"

definition incoming_set :: "LinearState \<Rightarrow> MirBlockId \<Rightarrow> MirValueId set" where
  "incoming_set s b = (case bt_get (ln_incoming s) b of None \<Rightarrow> {} | Some c \<Rightarrow> set c)"

definition linear_inv :: "MirFunction \<Rightarrow> LinearState \<Rightarrow> bool" where
  "linear_inv f s \<longleftrightarrow> dom (bt_get (ln_incoming s)) = set (bt_keys (fn_blocks f))
     \<and> (\<forall>b. incoming_set s b \<subseteq> universe f)"

definition room :: "MirFunction \<Rightarrow> LinearState \<Rightarrow> nat" where
  "room f s = (\<Sum>b \<in> set (bt_keys (fn_blocks f)). card (universe f - incoming_set s b))"

definition progress :: "MirFunction \<Rightarrow> LinearState \<Rightarrow> LinearState \<Rightarrow> bool" where
  "progress f s s' \<longleftrightarrow> linear_inv f s' \<and> set (ln_worklist s) \<subseteq> set (ln_worklist s')
     \<and> (room f s' < room f s \<or> room f s' = room f s \<and> ln_worklist s' = ln_worklist s)"

lemma progress_refl: "linear_inv f s \<Longrightarrow> progress f s s"
  by (simp add: progress_def)

lemma progress_trans: "progress f s t \<Longrightarrow> progress f t u \<Longrightarrow> progress f s u"
  by (auto simp: progress_def)

lemma progress_log:
  "progress f s (t\<lparr>ln_log := l\<rparr>) \<longleftrightarrow> progress f s t" "progress f (s\<lparr>ln_log := l\<rparr>) t \<longleftrightarrow> progress f s t"
  "linear_inv f (s\<lparr>ln_log := l\<rparr>) \<longleftrightarrow> linear_inv f s"
  by (auto simp: progress_def linear_inv_def room_def incoming_set_def)

lemma remove_all_subset: "set (remove_all vs s) \<subseteq> set s"
proof (induction vs arbitrary: s)
  case (Cons v vs)
  then show ?case using Cons.IH [of "bs_remove v s"] by (auto simp: remove_all_def)
qed (simp add: remove_all_def)

lemma consume_values_universe:
  "set (fst st) \<subseteq> universe f \<Longrightarrow> set (fst (consume_values f cat subject vs st)) \<subseteq> universe f"
proof (induction vs arbitrary: st)
  case (Cons v vs)
  have "is_non_copy f cat v \<Longrightarrow> v \<in> universe f"
    by (auto simp: is_non_copy_def universe_def bt.keys_get split: option.splits)
  then have "set (fst (consume_value f cat subject st v)) \<subseteq> universe f"
    using Cons.prems by (cases st) (auto simp: consume_value_def)
  from Cons.IH [OF this] show ?case by (simp add: consume_values_def)
qed (simp add: consume_values_def)

lemma consume_instructions_universe:
  "set (fst st) \<subseteq> universe f \<Longrightarrow>
     set (fst (foldl (consume_instruction f cat) st is)) \<subseteq> universe f"
proof (induction "is" arbitrary: st)
  case (Cons i "is")
  have "set (fst (consume_instruction f cat st i)) \<subseteq> universe f"
  proof -
    have "set (fst (consume_instruction f cat st i))
        \<subseteq> set (fst (consume_values f cat (ins_id i) (consumed_sources (ins_kind i)) st))"
      by (simp add: consume_instruction_def remove_all_subset split: prod.split)
    also have "\<dots> \<subseteq> universe f" by (rule consume_values_universe [OF Cons.prems])
    finally show ?thesis .
  qed
  from Cons.IH [OF this] show ?case by simp
qed simp

lemma insert_any_set:
  assumes "insert_any vs s = (changed, s')"
  shows "set s \<subseteq> set s' \<and> set s' \<subseteq> set s \<union> set vs \<and> (if changed then set s \<subset> set s' else s' = s)"
  using assms
proof (induction vs)
  case (Cons v vs)
  show ?case
  proof (cases "v \<in> set s")
    case True
    then have "insert_any vs s = (changed, s')" using Cons.prems by simp
    from Cons.IH [OF this] show ?thesis by (simp split: if_splits) blast+
  next
    case False
    then have "changed" and "s' = bs_insert v s" using Cons.prems by auto
    with False show ?thesis by (auto simp: psubset_eq)
  qed
qed simp

lemma propagate_progress:
  assumes inv: "linear_inv f s" and before: "set before \<subseteq> universe f"
  shows "progress f s (propagate_edge f cat before s e)"
proof -
  obtain t vs subj where e: "e = (t, vs, subj)" by (cases e) (rule that)
  obtain c0 l where c0: "consume_values f cat subj vs (before, ln_log s) = (c0, l)"
    by (rule prod.exhaust)
  let ?c = "remove_all (block_parameters f t) c0"
  have c: "set ?c \<subseteq> universe f"
    using consume_values_universe [of "(before, ln_log s)" f cat subj vs] before
    by (intro subset_trans [OF remove_all_subset]) (simp add: c0)
  show ?thesis
  proof (cases "bt_get (ln_incoming s) t")
    case None
    then show ?thesis
      using progress_refl [OF inv] by (simp add: e propagate_edge_def c0 Let_def progress_log)
  next
    case (Some state)
    obtain changed state' where ins: "insert_any ?c state = (changed, state')" by (rule prod.exhaust)
    note sets = insert_any_set [OF ins]
    let ?s = "s\<lparr>ln_incoming := bt_insert t state' (ln_incoming s)\<rparr>"
    have t: "t \<in> set (bt_keys (fn_blocks f))" using inv Some by (auto simp: linear_inv_def)
    have state: "incoming_set s t = set state" using Some by (simp add: incoming_set_def)
    then have old: "set state \<subseteq> universe f" using inv unfolding linear_inv_def by metis
    have new: "incoming_set ?s b = (if b = t then set state' else incoming_set s b)" for b
      by (simp add: incoming_set_def bt_simps)
    have inv': "linear_inv f ?s"
      using inv t sets c old by (auto simp: linear_inv_def new bt_simps)
    have room: "room f ?s \<le> room f s \<and> (changed \<longrightarrow> room f ?s < room f s)"
    proof -
      have fin: "finite (universe f)" by (simp add: universe_def)
      have le: "card (universe f - incoming_set ?s b) \<le> card (universe f - incoming_set s b)" for b
        using sets fin by (intro card_mono) (auto simp: new state)
      have "room f ?s < room f s" if changed
      proof -
        have "set state \<subset> set state'" "set state' \<subseteq> universe f"
          using sets c old that by auto
        then have "card (universe f - incoming_set ?s t) < card (universe f - incoming_set s t)"
          using fin by (intro psubset_card_mono) (auto simp: new state)
        then show ?thesis
          unfolding room_def using le t by (intro sum_strict_mono_ex1) auto
      qed
      moreover have "room f ?s \<le> room f s" unfolding room_def using le by (intro sum_mono) auto
      ultimately show ?thesis by blast
    qed
    have same: "room f ?s = room f s" if "\<not> changed"
    proof -
      have "incoming_set ?s = incoming_set s" using sets that new state by (intro ext) metis
      then show ?thesis by (simp add: room_def)
    qed
    have grown: "progress f s (?s\<lparr>ln_queued := q, ln_worklist := w\<rparr>)"
      if "changed \<or> w = ln_worklist s" and "set (ln_worklist s) \<subseteq> set w" for q w
      using inv' room same that
      by (auto simp: progress_def linear_inv_def room_def incoming_set_def)
    have unqueued: "progress f s ?s"
      using inv' room same by (auto simp: progress_def)
    have eq: "propagate_edge f cat before s e =
        (if changed \<and> t \<notin> set (ln_queued s)
         then (?s\<lparr>ln_queued := bs_insert t (ln_queued s), ln_worklist := ln_worklist s @ [t]\<rparr>)
                \<lparr>ln_log := l\<rparr>
         else ?s\<lparr>ln_log := l\<rparr>)"
      by (simp add: e propagate_edge_def c0 Let_def Some ins)
    show ?thesis
    proof (cases "changed \<and> t \<notin> set (ln_queued s)")
      case True
      show ?thesis
        unfolding eq if_P [OF True] progress_log by (rule grown) (use True in auto)
    next
      case False
      show ?thesis unfolding eq if_not_P [OF False] progress_log by (rule unqueued)
    qed
  qed
qed

lemma terminator_progress:
  assumes inv: "linear_inv f s" and consumed: "set consumed \<subseteq> universe f"
  shows "progress f s (linear_terminator f cat k consumed s)"
proof -
  have edges: "progress f t (foldl (propagate_edge f cat c) t es)"
    if "linear_inv f t" and "set c \<subseteq> universe f" for t c es
    using that(1)
  proof (induction es arbitrary: t)
    case (Cons e es)
    have step: "progress f t (propagate_edge f cat c t e)"
      using Cons.prems that(2) by (rule propagate_progress)
    then have "linear_inv f (propagate_edge f cat c t e)" by (simp add: progress_def)
    from progress_trans [OF step Cons.IH [OF this]] show ?case by simp
  qed (simp add: progress_refl)
  have logged: "progress f s (foldl (propagate_edge f cat c) (s\<lparr>ln_log := l\<rparr>) es)"
    if "set c \<subseteq> universe f" for c l es
    using edges [of "s\<lparr>ln_log := l\<rparr>" c es] inv that by (simp add: progress_log)
  show ?thesis
  proof (cases "blk_terminator k")
    case (TmSwitch v arms)
    show ?thesis
      using logged [OF consumed] edges [OF inv consumed]
      by (simp add: linear_terminator_def TmSwitch Let_def)
  next
    case (TmSwitchMove v arms)
    obtain c l where c: "consume_values f cat (blk_id k) [v] (consumed, ln_log s) = (c, l)"
      by (rule prod.exhaust)
    have "set c \<subseteq> universe f"
      using consume_values_universe [of "(consumed, ln_log s)" f cat "blk_id k" "[v]"] consumed
      by (simp add: c)
    from logged [OF this] show ?thesis by (simp add: linear_terminator_def TmSwitchMove c)
  next
    case (TmReturn w)
    then show ?thesis
      using progress_refl [OF inv]
      by (auto simp: linear_terminator_def progress_log split: option.split)
  qed (use edges [OF inv consumed, of "linear_edges (blk_terminator k)"]
      in \<open>simp_all add: linear_terminator_def\<close>)
qed

lemma linear_step_progress:
  assumes "linear_inv f s"
  shows "linear_inv f (linear_step f cat b s)
    \<and> set (ln_worklist s) \<subseteq> set (ln_worklist (linear_step f cat b s))
    \<and> (room f (linear_step f cat b s) < room f s
      \<or> room f (linear_step f cat b s) = room f s \<and> ln_worklist (linear_step f cat b s) = ln_worklist s)"
proof -
  let ?s = "s\<lparr>ln_queued := bs_remove b (ln_queued s)\<rparr>"
  have inv: "linear_inv f ?s" and same: "room f ?s = room f s" "ln_worklist ?s = ln_worklist s"
    using assms by (simp_all add: linear_inv_def room_def incoming_set_def)
  have "progress f ?s (linear_step f cat b s)"
  proof (cases "bt_get (fn_blocks f) b")
    case (Some k)
    let ?start = "remove_all (map bp_value (blk_parameters k))
        (case bt_get (ln_incoming ?s) b of None \<Rightarrow> [] | Some c \<Rightarrow> c)"
    obtain c l where fold: "foldl (consume_instruction f cat) (?start, ln_log ?s) (blk_instructions k) = (c, l)"
      by (rule prod.exhaust)
    have "set (case bt_get (ln_incoming ?s) b of None \<Rightarrow> [] | Some c \<Rightarrow> c) = incoming_set ?s b"
      by (simp add: incoming_set_def split: option.split)
    then have "set (case bt_get (ln_incoming ?s) b of None \<Rightarrow> [] | Some c \<Rightarrow> c) \<subseteq> universe f"
      using inv unfolding linear_inv_def by metis
    then have "set ?start \<subseteq> universe f" by (rule subset_trans [OF remove_all_subset])
    then have "set c \<subseteq> universe f"
      using consume_instructions_universe [of "(?start, ln_log ?s)" f cat "blk_instructions k"]
      unfolding fold by simp
    then have "progress f (?s\<lparr>ln_log := l\<rparr>) (linear_terminator f cat k c (?s\<lparr>ln_log := l\<rparr>))"
      using inv by (intro terminator_progress) (simp_all add: progress_log)
    then show ?thesis
      using fold by (simp add: linear_step_def Let_def Some progress_log)
  qed (simp add: linear_step_def Let_def progress_refl [OF inv])
  then show ?thesis by (simp add: progress_def same)
qed

text \<open>
  The loop returns; and if its final log is empty, every queued block was processed from an empty
  log and left it empty.
\<close>

lemma linear_loop_returns:
  assumes "linear_inv f s" and "log_ok (ln_log s)"
  shows "\<exists>s'. linear_loop f cat s = Some s' \<and>
    (fst (ln_log s') = [] \<longrightarrow> ln_log s = ([], []) \<and>
      (\<forall>b \<in> set (ln_worklist s). \<exists>t. ln_log t = ([], []) \<and> fst (ln_log (linear_step f cat b t)) = []))"
  using assms
proof (induction s rule: wf_induct_rule [OF wf_measures [of "[room f, \<lambda>s. length (ln_worklist s)]"]])
  case (1 s)
  show ?case
  proof (cases "ln_worklist s")
    case Nil
    have "fst (ln_log s) = [] \<Longrightarrow> ln_log s = ([], [])"
      using 1(3) by (cases "ln_log s") (simp add: log_ok_def)
    with Nil show ?thesis by (subst linear_loop.simps) simp
  next
    case (Cons b rest)
    let ?s = "s\<lparr>ln_worklist := rest\<rparr>"
    let ?t = "linear_step f cat b ?s"
    have "linear_inv f ?s" "room f ?s = room f s"
      using 1(2) by (simp_all add: linear_inv_def room_def incoming_set_def)
    with linear_step_progress [of f ?s cat b] have step: "linear_inv f ?t" "set rest \<subseteq> set (ln_worklist ?t)"
      "room f ?t < room f s \<or> room f ?t = room f s \<and> ln_worklist ?t = rest" by auto
    have grows: "log_grows (ln_log s) (ln_log ?t)" using linear_step_log [of ?s f cat b] by simp
    then have ok: "log_ok (ln_log ?t)" using 1(3) by (simp add: log_grows_def)
    have less: "(?t, s) \<in> measures [room f, \<lambda>s. length (ln_worklist s)]"
      using step(3) Cons by auto
    obtain s' where s': "linear_loop f cat ?t = Some s'"
      and last: "fst (ln_log s') = [] \<longrightarrow> ln_log ?t = ([], []) \<and>
        (\<forall>b \<in> set (ln_worklist ?t). \<exists>t. ln_log t = ([], []) \<and> fst (ln_log (linear_step f cat b t)) = [])"
      using 1(1) [OF less step(1) ok] by blast
    have loop: "linear_loop f cat s = Some s'"
      using s' by (subst linear_loop.simps) (simp add: Cons)
    have "ln_log s = ([], []) \<and>
        (\<forall>b \<in> set (ln_worklist s). \<exists>t. ln_log t = ([], []) \<and> fst (ln_log (linear_step f cat b t)) = [])"
      if "fst (ln_log s') = []"
    proof -
      have t: "ln_log ?t = ([], [])" and others: "\<forall>b \<in> set rest. \<exists>t. ln_log t = ([], []) \<and>
          fst (ln_log (linear_step f cat b t)) = []"
        using last that step(2) by auto
      have "ln_log s = ([], [])" using grows t 1(3) by (simp add: log_grows_def)
      then have "\<exists>t. ln_log t = ([], []) \<and> fst (ln_log (linear_step f cat b t)) = []"
        using t by (intro exI [of _ ?s]) simp
      with others \<open>ln_log s = ([], [])\<close> show ?thesis by (simp add: Cons)
    qed
    with loop show ?thesis by blast
  qed
qed

lemma linear_start_inv: "linear_inv f (linear_start f)" "log_ok (ln_log (linear_start f))"
proof -
  have get: "bt_get (ln_incoming (linear_start f)) b
      = (if b \<in> set (bt_keys (fn_blocks f)) then Some [] else None)" for b
    by (simp add: linear_start_def bt_collect_get rev_map map_of_constant)
  show "linear_inv f (linear_start f)"
    by (auto simp: linear_inv_def incoming_set_def get split: if_splits option.splits)
qed (simp add: log_ok_def linear_start_def)

text \<open>The pass returns on every function.\<close>

lemma validate_linear_returns: "\<exists>errors. validate_linear_consumption f cat = Some errors"
  using linear_loop_returns [OF linear_start_inv, of f cat]
  by (auto simp: validate_linear_consumption_def)

lemma linear_accepted_step:
  assumes "validate_linear_consumption f cat = Some []" and "b \<in> set (bt_keys (fn_blocks f))"
  shows "\<exists>t. ln_log t = ([], []) \<and> fst (ln_log (linear_step f cat b t)) = []"
  using linear_loop_returns [OF linear_start_inv, of f cat] assms
  by (auto simp: validate_linear_consumption_def linear_start_def)

section \<open>What acceptance says of a block\<close>

datatype use_event = Consume MirValueId | Produce MirValueId

definition instruction_events :: "MirInstruction \<Rightarrow> use_event list" where
  "instruction_events ins = map Consume (consumed_sources (ins_kind ins))
     @ map Produce (instruction_results (ins_kind ins))"

text \<open>The runs of a block: its instructions, and then what leaving it along one edge consumes.\<close>

definition exit_events :: "MirTerminator \<Rightarrow> use_event list list" where
  "exit_events t =
     (case t of
        TmSwitchMove v arms \<Rightarrow> [Consume v] # map (\<lambda>(_, vs, _). Consume v # map Consume vs) (linear_edges t)
      | TmReturn (Some v) \<Rightarrow> [[Consume v]]
      | _ \<Rightarrow> [] # map (\<lambda>(_, vs, _). map Consume vs) (linear_edges t))"

definition block_runs :: "MirBlock \<Rightarrow> use_event list list" where
  "block_runs k = map (\<lambda>x. concat (map instruction_events (blk_instructions k)) @ x)
     (exit_events (blk_terminator k))"

fun no_reuse :: "(MirValueId \<Rightarrow> bool) \<Rightarrow> MirValueId set \<Rightarrow> use_event list \<Rightarrow> bool" where
  "no_reuse nc C [] = True"
| "no_reuse nc C (Consume v # es) =
     (if nc v then v \<notin> C \<and> no_reuse nc (insert v C) es else no_reuse nc C es)"
| "no_reuse nc C (Produce v # es) = no_reuse nc (C - {v}) es"

lemma no_reuse_mono: "no_reuse nc C es \<Longrightarrow> D \<subseteq> C \<Longrightarrow> no_reuse nc D es"
proof (induction nc C es arbitrary: D rule: no_reuse.induct)
  case (2 nc C v es)
  then show ?case by (cases "nc v") (auto dest: insert_mono [of D C v])
next
  case (3 nc C v es)
  then show ?case using Diff_mono [of D C "{v}" "{v}"] by simp
qed simp

lemma no_reuse_consumed:
  assumes "no_reuse nc C es" and "nc v" and "v \<in> C" and "j < length es" and "es ! j = Consume v"
  shows "\<exists>m < j. es ! m = Produce v"
  using assms
proof (induction nc C es arbitrary: j rule: no_reuse.induct)
  case (2 nc C u es)
  then obtain i where i: "j = Suc i" by (cases j) auto
  have "\<exists>m < i. es ! m = Produce v"
  proof (cases "nc u")
    case True
    then show ?thesis using "2.IH"(1) [of i] "2.prems" i by auto
  next
    case False
    then show ?thesis using "2.IH"(2) [of i] "2.prems" i by auto
  qed
  then show ?case using i by auto
next
  case (3 nc C u es)
  then obtain i where i: "j = Suc i" by (cases j) auto
  show ?case
  proof (cases "u = v")
    case False
    then have "\<exists>m < i. es ! m = Produce v" using "3.IH" [of i] "3.prems" i by auto
    then show ?thesis using i by auto
  qed (use i in auto)
qed simp

lemma no_reuse_between:
  assumes "no_reuse nc C es" and "nc v" and "i < j" and "j < length es"
    and "es ! i = Consume v" and "es ! j = Consume v"
  shows "\<exists>m. i < m \<and> m < j \<and> es ! m = Produce v"
  using assms
proof (induction nc C es arbitrary: i j rule: no_reuse.induct)
  case (2 nc C u es)
  obtain j' where j: "j = Suc j'" using "2.prems"(3) by (cases j) auto
  show ?case
  proof (cases i)
    case 0
    then have "no_reuse nc (insert v C) es" "j' < length es" "es ! j' = Consume v"
      using "2.prems" j by auto
    from no_reuse_consumed [OF this(1) "2.prems"(2) _ this(2,3)] 0 j show ?thesis by auto
  next
    case (Suc i')
    have "\<exists>m. i' < m \<and> m < j' \<and> es ! m = Produce v"
    proof (cases "nc u")
      case True
      then show ?thesis using "2.IH"(1) [of i' j'] "2.prems" Suc j by auto
    next
      case False
      then show ?thesis using "2.IH"(2) [of i' j'] "2.prems" Suc j by auto
    qed
    then show ?thesis using Suc j by auto
  qed
next
  case (3 nc C u es)
  obtain i' j' where "i = Suc i'" "j = Suc j'" using "3.prems" by (cases i; cases j) auto
  moreover from this have "\<exists>m. i' < m \<and> m < j' \<and> es ! m = Produce v"
    using "3.IH" [of i' j'] "3.prems" by auto
  ultimately show ?case by auto
qed simp

text \<open>A stretch of consumption that reports nothing.\<close>

lemma consume_value_clean:
  assumes "fst (snd (consume_value f cat subject (C, ([], [])) v)) = []"
  shows "consume_value f cat subject (C, ([], [])) v
      = (if is_non_copy f cat v then bs_insert v C else C, ([], []))
    \<and> (is_non_copy f cat v \<longrightarrow> v \<notin> set C)"
  using assms push_reports [of "([], [])"] by (auto simp: consume_value_def log_ok_def split: if_splits)

lemma consume_values_clean:
  assumes "fst (snd (consume_values f cat subject vs (C, ([], [])))) = []"
  shows "\<exists>C'. consume_values f cat subject vs (C, ([], [])) = (C', ([], []))
    \<and> (\<forall>es. no_reuse (is_non_copy f cat) (set C') es \<longrightarrow>
          no_reuse (is_non_copy f cat) (set C) (map Consume vs @ es))"
  using assms
proof (induction vs arbitrary: C)
  case (Cons v vs)
  let ?st = "consume_value f cat subject (C, ([], [])) v"
  have split: "consume_values f cat subject (v # vs) (C, ([], [])) = consume_values f cat subject vs ?st"
    by (simp add: consume_values_def)
  have "log_grows (snd ?st) (snd (consume_values f cat subject vs ?st))" by (rule consume_values_log)
  moreover have "log_ok (snd ?st)"
    using consume_log [of "(C, ([], []))" f cat subject v] by (simp add: log_grows_def log_ok_def)
  ultimately have "fst (snd ?st) = []" using Cons.prems by (auto simp: split log_grows_def)
  from consume_value_clean [OF this] have st: "?st = (if is_non_copy f cat v then bs_insert v C else C, ([], []))"
    and fresh: "is_non_copy f cat v \<longrightarrow> v \<notin> set C" by auto
  let ?D = "if is_non_copy f cat v then bs_insert v C else C"
  have "fst (snd (consume_values f cat subject vs (?D, ([], [])))) = []"
    using Cons.prems by (simp only: split st)
  from Cons.IH [OF this] obtain C' where
    C': "consume_values f cat subject vs (?D, ([], [])) = (C', ([], []))"
    and rest: "\<And>es. no_reuse (is_non_copy f cat) (set C') es \<Longrightarrow>
        no_reuse (is_non_copy f cat) (set ?D) (map Consume vs @ es)" by blast
  have "no_reuse (is_non_copy f cat) (set C) (map Consume (v # vs) @ es)"
    if "no_reuse (is_non_copy f cat) (set C') es" for es
    using rest [OF that] fresh by (cases "is_non_copy f cat v") simp_all
  then show ?case using C' by (simp only: split st) blast
qed (simp add: consume_values_def)

lemma remove_all_set: "set (remove_all vs C) = set C - set vs"
  by (induction vs arbitrary: C) (auto simp: remove_all_def)

lemma no_reuse_produce:
  "no_reuse nc C (map Produce vs @ es) \<longleftrightarrow> no_reuse nc (C - set vs) es"
proof (induction vs arbitrary: C)
  case (Cons v vs)
  show ?case
    using Cons [of "C - {v}"] Diff_insert2 [of C v "set vs"] by simp
qed simp

lemma consume_instructions_clean:
  assumes "fst (snd (foldl (consume_instruction f cat) (C, ([], [])) is)) = []"
  shows "\<exists>C'. foldl (consume_instruction f cat) (C, ([], [])) is = (C', ([], []))
    \<and> (\<forall>es. no_reuse (is_non_copy f cat) (set C') es \<longrightarrow>
          no_reuse (is_non_copy f cat) (set C) (concat (map instruction_events is) @ es))"
  using assms
proof (induction "is" arbitrary: C)
  case (Cons i "is")
  let ?cs = "consume_values f cat (ins_id i) (consumed_sources (ins_kind i)) (C, ([], []))"
  let ?st = "consume_instruction f cat (C, ([], [])) i"
  have "log_grows (snd ?st) (snd (foldl (consume_instruction f cat) ?st is))"
    by (rule fold_log_grows) (rule consume_instruction_log)
  moreover have "log_ok (snd ?st)"
    using consume_instruction_log [of "(C, ([], []))" f cat i] by (simp add: log_grows_def log_ok_def)
  ultimately have "fst (snd ?st) = []" using Cons.prems by (auto simp: log_grows_def)
  then have "fst (snd ?cs) = []" by (simp add: consume_instruction_def split: prod.splits)
  then obtain D where D: "?cs = (D, ([], []))"
    and sound: "\<And>es. no_reuse (is_non_copy f cat) (set D) es \<Longrightarrow>
        no_reuse (is_non_copy f cat) (set C) (map Consume (consumed_sources (ins_kind i)) @ es)"
    using consume_values_clean by blast
  let ?E = "remove_all (fresh_values (ins_kind i)) D"
  have st: "?st = (?E, ([], []))" by (simp add: consume_instruction_def D)
  have "fst (snd (foldl (consume_instruction f cat) (?E, ([], [])) is)) = []"
    using Cons.prems by (simp add: st)
  from Cons.IH [OF this] obtain C' where
    C': "foldl (consume_instruction f cat) (?E, ([], [])) is = (C', ([], []))"
    and rest: "\<And>es. no_reuse (is_non_copy f cat) (set C') es \<Longrightarrow>
        no_reuse (is_non_copy f cat) (set ?E) (concat (map instruction_events is) @ es)" by blast
  have "no_reuse (is_non_copy f cat) (set C) (concat (map instruction_events (i # is)) @ es)"
    if "no_reuse (is_non_copy f cat) (set C') es" for es
    using sound [of "map Produce (instruction_results (ins_kind i)) @ concat (map instruction_events is) @ es"]
      rest [OF that]
    by (simp add: instruction_events_def no_reuse_produce remove_all_set fresh_values_results)
  moreover have "foldl (consume_instruction f cat) (C, ([], [])) (i # is) = (C', ([], []))"
    using C' by (simp add: st)
  ultimately show ?case by blast
qed simp

text \<open>Leaving the block.\<close>

lemma edge_clean:
  assumes "ln_log t = ([], [])"
    and "fst (ln_log (propagate_edge f cat C t e)) = []"
  shows "no_reuse (is_non_copy f cat) (set C) (map Consume (fst (snd e)))"
proof -
  obtain b vs subj where e: "e = (b, vs, subj)" by (cases e) (rule that)
  have "fst (snd (consume_values f cat subj vs (C, ([], [])))) = []"
    using assms by (simp add: e propagate_edge_log)
  from consume_values_clean [OF this] obtain C' where
    "\<And>es. no_reuse (is_non_copy f cat) (set C') es \<Longrightarrow>
        no_reuse (is_non_copy f cat) (set C) (map Consume vs @ es)" by blast
  from this [of "[]"] show ?thesis by (simp add: e)
qed

lemma edges_clean:
  assumes "ln_log t = ([], [])"
    and "fst (ln_log (foldl (propagate_edge f cat C) t es)) = []" and "e \<in> set es"
  shows "no_reuse (is_non_copy f cat) (set C) (map Consume (fst (snd e)))"
proof -
  have "log_ok (ln_log t)" by (simp add: assms(1) log_ok_def)
  from fold_log_each [of es ln_log "propagate_edge f cat C", OF propagate_log assms(2) this assms(3)]
  obtain t' where "ln_log t' = ([], [])" "fst (ln_log (propagate_edge f cat C t' e)) = []" by blast
  then show ?thesis by (rule edge_clean)
qed

lemma terminator_clean:
  assumes log: "ln_log t = ([], [])"
    and clean: "fst (ln_log (linear_terminator f cat k C t)) = []"
    and x: "x \<in> set (exit_events (blk_terminator k))"
  shows "no_reuse (is_non_copy f cat) (set C) x"
proof -
  have edges: "no_reuse (is_non_copy f cat) (set C) x"
    if "fst (ln_log (foldl (propagate_edge f cat C) t es)) = []"
      and "x \<in> set ([] # map (\<lambda>(_, vs, _). map Consume vs) es)" for es
    using that(2) edges_clean [OF log that(1)] by fastforce
  show ?thesis
  proof (cases "blk_terminator k")
    case (TmSwitch v arms)
    let ?t = "if is_non_copy f cat v then t\<lparr>ln_log := push_ownership_error (blk_id k)
                 (''switch scrutinee '' @ quoted v @
                  '' is non-Copy but aggregate match glue is not materialized'') (ln_log t)\<rparr> else t"
    have run: "fst (ln_log (foldl (propagate_edge f cat C) ?t (linear_edges (TmSwitch v arms)))) = []"
      using clean by (simp add: linear_terminator_def TmSwitch Let_def)
    have "log_grows (ln_log ?t) (ln_log (foldl (propagate_edge f cat C) ?t (linear_edges (TmSwitch v arms))))"
      by (rule propagate_all_log)
    moreover have "log_grows (ln_log t) (ln_log ?t)" by (simp add: log_grows_push)
    ultimately have "ln_log ?t = ([], [])"
      using run log log_grows_empty by metis
    then have "\<not> is_non_copy f cat v"
      using log push_never_empty by (auto split: if_splits)
    then have "fst (ln_log (foldl (propagate_edge f cat C) t (linear_edges (TmSwitch v arms)))) = []"
      using run by (simp only: if_False)
    then show ?thesis
      by (rule edges) (use x in \<open>simp only: exit_events_def TmSwitch MirTerminator.case\<close>)
  next
    case (TmSwitchMove v arms)
    obtain D l where D: "consume_values f cat (blk_id k) [v] (C, ([], [])) = (D, l)" by (rule prod.exhaust)
    have run: "fst (ln_log (foldl (propagate_edge f cat D) (t\<lparr>ln_log := l\<rparr>)
        (linear_edges (TmSwitchMove v arms)))) = []"
      using clean by (simp add: linear_terminator_def TmSwitchMove log D)
    have "log_grows l (ln_log (foldl (propagate_edge f cat D) (t\<lparr>ln_log := l\<rparr>)
        (linear_edges (TmSwitchMove v arms))))"
      using propagate_all_log [of "t\<lparr>ln_log := l\<rparr>"] by simp
    moreover have "log_ok l"
      using consume_values_log [of "(C, ([], []))" f cat "blk_id k" "[v]"]
      by (simp add: D log_grows_def log_ok_def)
    ultimately have l: "l = ([], [])" using run by (simp add: log_grows_def)
    with consume_values_clean [of f cat "blk_id k" "[v]" C] D
    have head: "no_reuse (is_non_copy f cat) (set D) es \<Longrightarrow>
        no_reuse (is_non_copy f cat) (set C) (Consume v # es)" for es
      by auto
    have logged: "ln_log (t\<lparr>ln_log := l\<rparr>) = ([], [])" by (simp add: l)
    from x consider "x = [Consume v]"
      | e where "e \<in> set (linear_edges (TmSwitchMove v arms))" "x = Consume v # map Consume (fst (snd e))"
      by (auto simp: exit_events_def TmSwitchMove simp del: linear_edges.simps)
    then show ?thesis
    proof cases
      case 1
      then show ?thesis using head [of "[]"] by simp
    next
      case 2
      from edges_clean [OF logged run 2(1)] show ?thesis unfolding 2(2) by (rule head)
    qed
  next
    case (TmReturn w)
    show ?thesis
    proof (cases w)
      case (Some v)
      have "fst (snd (consume_values f cat (blk_id k) [v] (C, ([], [])))) = []"
        using clean by (simp add: linear_terminator_def TmReturn Some log)
      from consume_values_clean [OF this] obtain D where
        "\<And>es. no_reuse (is_non_copy f cat) (set D) es \<Longrightarrow>
          no_reuse (is_non_copy f cat) (set C) (map Consume [v] @ es)" by blast
      from this [of "[]"] show ?thesis using x by (simp add: exit_events_def TmReturn Some)
    qed (use x in \<open>simp add: exit_events_def TmReturn\<close>)
  next
    case (TmBranch c e1 t1 vs e2 t2 ws)
    then show ?thesis
      using edges [of "linear_edges (blk_terminator k)"] clean x
      by (simp only: linear_terminator_def exit_events_def MirTerminator.case)
  next
    case (TmGoto e t vs)
    then show ?thesis
      using edges [of "linear_edges (blk_terminator k)"] clean x
      by (simp only: linear_terminator_def exit_events_def MirTerminator.case)
  qed (use x in \<open>simp_all add: exit_events_def\<close>)
qed

lemma block_runs_clean:
  assumes accepted: "validate_linear_consumption f cat = Some []"
    and block: "bt_get (fn_blocks f) b = Some k" and run: "es \<in> set (block_runs k)"
  shows "no_reuse (is_non_copy f cat) {} es"
proof -
  have "b \<in> set (bt_keys (fn_blocks f))" using block by (auto simp: bt.keys_get)
  from linear_accepted_step [OF accepted this] obtain t where
    t: "ln_log t = ([], [])" "fst (ln_log (linear_step f cat b t)) = []" by blast
  let ?start = "remove_all (map bp_value (blk_parameters k))
      (case bt_get (ln_incoming t) b of None \<Rightarrow> [] | Some c \<Rightarrow> c)"
  obtain C l where fold: "foldl (consume_instruction f cat) (?start, ([], [])) (blk_instructions k) = (C, l)"
    by (rule prod.exhaust)
  let ?t = "t\<lparr>ln_queued := bs_remove b (ln_queued t), ln_log := l\<rparr>"
  have step: "fst (ln_log (linear_terminator f cat k C ?t)) = []"
    using t fold by (simp add: linear_step_def Let_def block)
  have "log_grows ([], []) l"
    using fold_log_grows [of "blk_instructions k" snd "consume_instruction f cat" "(?start, ([], []))"]
      consume_instruction_log by (simp add: fold)
  moreover have "log_grows l (ln_log (linear_terminator f cat k C ?t))"
    using terminator_log [of ?t] by simp
  ultimately have l: "l = ([], [])" using step by (rule log_grows_empty)
  have "fst (snd (foldl (consume_instruction f cat) (?start, ([], [])) (blk_instructions k))) = []"
    by (simp add: fold l)
  from consume_instructions_clean [OF this] fold have
    body: "\<And>x. no_reuse (is_non_copy f cat) (set C) x \<Longrightarrow>
      no_reuse (is_non_copy f cat) (set ?start) (concat (map instruction_events (blk_instructions k)) @ x)"
    by auto
  obtain x where x: "x \<in> set (exit_events (blk_terminator k))"
    and es: "es = concat (map instruction_events (blk_instructions k)) @ x"
    using run by (auto simp: block_runs_def)
  have "ln_log ?t = ([], [])" by (simp add: l)
  from terminator_clean [OF this step x] have "no_reuse (is_non_copy f cat) (set ?start) es"
    unfolding es by (rule body)
  then show ?thesis by (rule no_reuse_mono) simp
qed

text \<open>
  C9: A block of an accepted function never consumes a non-Copy value twice: on every run of the
  block (its instructions and then what it hands over along one edge), between two consumptions
  of the same value lies an instruction that produces it again.
\<close>

theorem accepted_consumes_once:
  assumes "validate_linear_consumption f cat = Some []" and "bt_get (fn_blocks f) b = Some k"
    and "es \<in> set (block_runs k)" and "is_non_copy f cat v"
    and "i < j" and "j < length es" and "es ! i = Consume v" and "es ! j = Consume v"
  shows "\<exists>m. i < m \<and> m < j \<and> es ! m = Produce v"
  using block_runs_clean [OF assms(1-3)] assms(4-8) by (rule no_reuse_between)

text \<open>The consumption pass returns on every function, whatever its catalog.\<close>

theorem linear_pass_returns: "\<exists>errors. validate_linear_consumption f cat = Some errors"
  by (rule validate_linear_returns)

end
