(* ===== verification/Mimi_MirDemo.thy ===== *)
theory Mimi_MirDemo
  imports Mimi_MirSafe Mimi_MirLinearLaws
begin

text \<open>
  The validators of the canonical IR on concrete functions: a loop with a block parameter that is
  accepted, the witnesses of the properties, and functions that are accepted although they
  should not be.
\<close>

section \<open>Building functions\<close>

definition no_summary :: MirOwnershipSummary where
  "no_summary = \<lparr>os_events = [], os_checker_loans = [], os_checker_map_roots = []\<rparr>"

definition mk_block :: "MirBlockId \<Rightarrow> MirValueId list \<Rightarrow> (string \<times> MirInstructionKind) list \<Rightarrow>
    MirTerminator \<Rightarrow> MirBlockId \<times> MirBlock" where
  "mk_block b ps is t = (b, \<lparr>blk_id = b, blk_parameters = map (\<lambda>p. \<lparr>bp_value = p\<rparr>) ps,
     blk_instructions = map (\<lambda>(i, k). \<lparr>ins_id = i, ins_kind = k\<rparr>) is, blk_terminator = t\<rparr>)"

definition mk_function :: "ResolvedTypeId \<Rightarrow> MirValueId list \<Rightarrow> (MirValueId \<times> ResolvedTypeId) list \<Rightarrow>
    (MirBlockId \<times> MirBlock) list \<Rightarrow> MirFunction" where
  "mk_function r ps vs bs = \<lparr>fn_owner = NodeId ''function:f'', fn_parameters = ps,
     fn_parameter_permissions = None, fn_result = r, fn_entry = ''a'',
     fn_values = map (\<lambda>(v, t). (v, \<lparr>val_id = v, val_ty = t\<rparr>)) vs, fn_blocks = bs,
     fn_contracts = [], fn_ownership = no_summary\<rparr>"

text \<open>A type whose values move, and one whose values are copied.\<close>

definition mk_type :: "ResolvedTypeId \<Rightarrow> PrimitiveType \<Rightarrow> MirOwnership \<Rightarrow> MirTypeDesc" where
  "mk_type t p w = \<lparr>td_id = t, td_kind = MkPrimitive p,
     td_layout = (if w = OwnCopy then LyScalar else LyHandle), td_session_protocol = None,
     td_ownership = w, td_abi = (if w = OwnCopy then AbiInteger 64 True else AbiStringHandle),
     td_needs_drop_glue = needs_drop w, td_needs_clone_glue = needs_clone w,
     td_glue = glue_for_type (MkPrimitive p) w, td_drop_plan = None, td_variant_drop_plan = None\<rparr>"

definition demo_types :: MirTypeCatalog where
  "demo_types = [(''i64'', mk_type ''i64'' PrI64 OwnCopy), (''str'', mk_type ''str'' PrString OwnMove)]"

section \<open>A loop\<close>

definition count_loop :: MirFunction where
  "count_loop = mk_function ''i64'' [''n'']
     [(''c'', ''i64''), (''i'', ''i64''), (''j'', ''i64''), (''n'', ''i64''), (''z'', ''i64'')]
     [mk_block ''a'' [] [(''a0'', IConst ''z'' (LitInt 0))] (TmGoto ''e0'' ''b'' [''z'']),
      mk_block ''b'' [''i'']
        [(''b0'', IBinary ''c'' OpLess ''i'' ''n''), (''b1'', IBinary ''j'' OpAdd ''i'' ''n'')]
        (TmBranch ''c'' ''e1'' ''b'' [''j''] ''e2'' ''d'' []),
      mk_block ''d'' [] [] (TmReturn (Some ''j''))]"

lemma count_loop_accepted:
  "\<exists>s. run_validator count_loop = Some s \<and> validator_finish s = Ok ()"
proof -
  have "map_option validator_finish (run_validator count_loop) = Some (Ok ())" by code_simp
  then show ?thesis by auto
qed

lemma count_loop_walk: "walk count_loop [''d'', ''b'', ''b'', ''a'']"
proof -
  have "(''a'', ''b'') \<in> mir_edges count_loop" "(''b'', ''b'') \<in> mir_edges count_loop"
    "(''b'', ''d'') \<in> mir_edges count_loop"
    unfolding mir_edges_def by (simp_all, code_simp+)
  moreover have "walk count_loop [''a'']"
    using walk_entry [of count_loop] by (simp add: count_loop_def mk_function_def)
  ultimately show ?thesis by (intro walk_edge)
qed

text \<open>Returning \<open>j\<close> after two rounds of the loop.\<close>

theorem accepted_defines_before_use_witness:
  "''j'' \<in> defined_before count_loop [''b'', ''b'', ''a''] ''d'' 0"
proof -
  obtain s where s: "run_validator count_loop = Some s" "validator_finish s = Ok ()"
    using count_loop_accepted by blast
  have wf: "bt_wf (fn_blocks count_loop)" by code_simp
  have d: "bt_get (fn_blocks count_loop) ''d''
      = Some (snd (mk_block ''d'' [] [] (TmReturn (Some ''j''))))" by code_simp
  show ?thesis
    by (rule accepted_defines_before_use [OF wf s count_loop_walk d])
      (simp_all add: mk_block_def uses_at_def)
qed

section \<open>Consumption\<close>

definition drop_twice :: MirFunction where
  "drop_twice = mk_function ''unit'' [''x''] [(''x'', ''str'')]
     [mk_block ''a'' [] [(''a0'', IDrop ''x''), (''a1'', IConst ''x'' (LitString ''s'')),
        (''a2'', IDrop ''x'')] (TmReturn None)]"

theorem accepted_consumes_once_witness:
  "\<exists>m. 0 < m \<and> m < 2 \<and> [Consume ''x'', Produce ''x'', Consume ''x''] ! m = Produce ''x''"
proof -
  have acc: "validate_linear_consumption drop_twice demo_types = Some []" by code_simp
  have blk: "bt_get (fn_blocks drop_twice) ''a'' = Some (snd (hd (fn_blocks drop_twice)))" by code_simp
  have run: "[Consume ''x'', Produce ''x'', Consume ''x''] \<in> set (block_runs (snd (hd (fn_blocks drop_twice))))"
    by code_simp
  have nc: "is_non_copy drop_twice demo_types ''x''" by code_simp
  show ?thesis
    using accepted_consumes_once [OF acc blk run nc, of 0 2] by (simp add: numeral_2_eq_2)
qed

section \<open>What is accepted although it should not be\<close>

text \<open>
  \<open>x\<close> and \<open>y\<close> are dropped in the first block and \<open>y\<close> is dropped again in the second. The edge
  propagates only the first newly consumed value, so the second drop is not seen.
\<close>

definition lost_consumption :: MirFunction where
  "lost_consumption = mk_function ''unit'' [''x'', ''y''] [(''x'', ''str''), (''y'', ''str'')]
     [mk_block ''a'' [] [(''a0'', IDrop ''x''), (''a1'', IDrop ''y'')] (TmGoto ''e0'' ''b'' []),
      mk_block ''b'' [] [(''b0'', IDrop ''y'')] (TmReturn None)]"

lemma double_drop_across_edge_accepted:
  "validate_linear_consumption lost_consumption demo_types = Some []
   \<and> map_option validator_finish (run_validator lost_consumption) = Some (Ok ())"
  by (rule conjI; code_simp)

text \<open>With one consumed value the same second drop is reported.\<close>

lemma double_drop_reported:
  "validate_linear_consumption (mk_function ''unit'' [''y''] [(''y'', ''str'')]
     [mk_block ''a'' [] [(''a1'', IDrop ''y'')] (TmGoto ''e0'' ''b'' []),
      mk_block ''b'' [] [(''b0'', IDrop ''y'')] (TmReturn None)]) demo_types
   = Some [\<lparr>ve_subject = ''b0'', ve_message = ''use after consuming non-Copy value '' @ quoted ''y''\<rparr>]"
  by code_simp

text \<open>A \<open>Load\<close> of a local that is not in the value catalog is accepted.\<close>

lemma load_of_unknown_local_accepted:
  "map_option validator_finish (run_validator (mk_function ''i64'' [] [(''r'', ''i64'')]
     [mk_block ''a'' [] [(''a0'', ILoad ''r'' \<lparr>rpl_base = NodeId ''ghost'', rpl_projections = []\<rparr>)]
        (TmReturn (Some ''r''))])) = Some (Ok ())"
  by code_simp

text \<open>So is an entry block with a parameter, which no edge ever fills.\<close>

lemma entry_parameter_accepted:
  "map_option validator_finish (run_validator (mk_function ''i64'' [] [(''p'', ''i64'')]
     [mk_block ''a'' [''p''] [] (TmReturn (Some ''p''))])) = Some (Ok ())"
  by code_simp

end
