(* ===== verification/Mimi_Token.thy ===== *)
theory Mimi_Token
  imports Mimi_Prelude
begin

text \<open>
  The tokens of the lexer (\<open>src/lexer/token.rs\<close>), its keyword table (\<open>keywords.rs\<close>) and its errors
  (\<open>errors.rs\<close>). A character is its Unicode code point, a text a list of them. The variants of
  \<open>TokenKind\<close> are grouped by the sections of its declaration: \<open>Kw\<close>, \<open>Fkw\<close>, \<open>Opr\<close> and \<open>Pun\<close> embed
  the keywords, the flow keywords, the operators and the punctuation.
\<close>

section \<open>Characters\<close>

type_synonym uchar = nat
type_synonym utext = "uchar list"

definition ch :: "char \<Rightarrow> uchar" where "ch c = of_char c"

definition ustr :: "string \<Rightarrow> utext" where "ustr s = map ch s"

lemma ch_inject [simp]: "ch c = ch d \<longleftrightarrow> c = d"
  by (simp add: ch_def)

lemma ustr_inject [simp]: "ustr s = ustr t \<longleftrightarrow> s = t"
  by (simp add: ustr_def inj_map_eq_map inj_def)

lemma ustr_Nil [simp]: "ustr [] = []" and ustr_Cons [simp]: "ustr (c # s) = ch c # ustr s"
  and ustr_append [simp]: "ustr (s @ t) = ustr s @ ustr t"
  by (simp_all add: ustr_def)

section \<open>Token kinds\<close>

datatype Keyword =
    KType | KFunc | KFn | KActor | KNewtype | KLet | KConst | KMut | KRef | KShared | KWeak
    | KArena | KCap | KTrait | KImpl | KDyn | KWhere | KExtern | KIf | KElse | KFor | KIn |
    KWhile | KReturn | KBreak | KContinue | KMatch | KUse | KPub | KDrop | KDefer | KAwait |
    KUnsafe | KSpawn | KParasteps | KQuote | KComptime | KFailure | KRequires | KEnsures |
    KInvariant | KMath | KOld

datatype FlowKeyword =
    FFlow | FState | FTransition | FPinned | FFault | FFails | FReset | FRecover |
    FPersistent | FView | FMutate | FSession | FDual | FEnd | FAnd | FOr | FNot | FLoop |
    FAs

datatype Operator =
    OPlus | OMinus | OStar | OSlash | OPercent | OPow | OEq | OPlusEq | OMinusEq | OStarEq |
    OSlashEq | OBitAndEq | OBitOrEq | OBitXorEq | OEqEq | ONe | OLt | OGt | OLe | OGe |
    OAndAnd | OOrOr | ONotOp | OBitAnd | OBitOr | OBitXor | OShl | OShr | OTilde |
    ODollarParen | OPipeArrow

datatype Punctuation =
    PLParen | PRParen | PLBrace | PRBrace | PLBracket | PRBracket | PColon | PSemi | PComma
    | PDot | PDotDot | PColonColon | PArrow | PFatArrow | PQuestion | PBang | PEllipsis |
    PAt | PHash | PNewline | PIndent | PDedent | PEof

datatype TokenKind =
    TInt utext | TFloat utext | TString utext | TFString utext
  | TTrue | TFalse | TUnit | TIdent utext
  | Kw Keyword | Fkw FlowKeyword | Opr Operator | Pun Punctuation

record Token =
  tk_kind :: TokenKind
  tk_line :: nat
  tk_col :: nat
  tk_end_line :: nat
  tk_end_col :: nat

datatype LexerMode = Production | Sketch

text \<open>The spelling of a kind (\<open>source_text\<close>).\<close>

fun keyword_text :: "Keyword \<Rightarrow> string" where
  "keyword_text KType = ''type''"
| "keyword_text KFunc = ''func''"
| "keyword_text KFn = ''fn''"
| "keyword_text KActor = ''actor''"
| "keyword_text KNewtype = ''newtype''"
| "keyword_text KLet = ''let''"
| "keyword_text KConst = ''const''"
| "keyword_text KMut = ''mut''"
| "keyword_text KRef = ''ref''"
| "keyword_text KShared = ''shared''"
| "keyword_text KWeak = ''weak''"
| "keyword_text KArena = ''arena''"
| "keyword_text KCap = ''cap''"
| "keyword_text KTrait = ''trait''"
| "keyword_text KImpl = ''impl''"
| "keyword_text KDyn = ''dyn''"
| "keyword_text KWhere = ''where''"
| "keyword_text KExtern = ''extern''"
| "keyword_text KIf = ''if''"
| "keyword_text KElse = ''else''"
| "keyword_text KFor = ''for''"
| "keyword_text KIn = ''in''"
| "keyword_text KWhile = ''while''"
| "keyword_text KReturn = ''return''"
| "keyword_text KBreak = ''break''"
| "keyword_text KContinue = ''continue''"
| "keyword_text KMatch = ''match''"
| "keyword_text KUse = ''use''"
| "keyword_text KPub = ''pub''"
| "keyword_text KDrop = ''drop''"
| "keyword_text KDefer = ''defer''"
| "keyword_text KAwait = ''await''"
| "keyword_text KUnsafe = ''unsafe''"
| "keyword_text KSpawn = ''spawn''"
| "keyword_text KParasteps = ''parasteps''"
| "keyword_text KQuote = ''quote''"
| "keyword_text KComptime = ''comptime''"
| "keyword_text KFailure = ''failure''"
| "keyword_text KRequires = ''requires''"
| "keyword_text KEnsures = ''ensures''"
| "keyword_text KInvariant = ''invariant''"
| "keyword_text KMath = ''math''"
| "keyword_text KOld = ''old''"

fun flow_keyword_text :: "FlowKeyword \<Rightarrow> string" where
  "flow_keyword_text FFlow = ''flow''"
| "flow_keyword_text FState = ''state''"
| "flow_keyword_text FTransition = ''transition''"
| "flow_keyword_text FPinned = ''pinned''"
| "flow_keyword_text FFault = ''fault''"
| "flow_keyword_text FFails = ''fails''"
| "flow_keyword_text FReset = ''reset''"
| "flow_keyword_text FRecover = ''recover''"
| "flow_keyword_text FPersistent = ''persistent''"
| "flow_keyword_text FView = ''view''"
| "flow_keyword_text FMutate = ''mutate''"
| "flow_keyword_text FSession = ''session''"
| "flow_keyword_text FDual = ''dual''"
| "flow_keyword_text FEnd = ''end''"
| "flow_keyword_text FAnd = ''and''"
| "flow_keyword_text FOr = ''or''"
| "flow_keyword_text FNot = ''not''"
| "flow_keyword_text FLoop = ''loop''"
| "flow_keyword_text FAs = ''as''"

fun operator_text :: "Operator \<Rightarrow> string" where
  "operator_text OPlus = ''+''"
| "operator_text OMinus = ''-''"
| "operator_text OStar = ''*''"
| "operator_text OSlash = ''/''"
| "operator_text OPercent = ''%''"
| "operator_text OPow = ''**''"
| "operator_text OEq = ''=''"
| "operator_text OPlusEq = ''+=''"
| "operator_text OMinusEq = ''-=''"
| "operator_text OStarEq = ''*=''"
| "operator_text OSlashEq = ''/=''"
| "operator_text OBitAndEq = ''&=''"
| "operator_text OBitOrEq = ''|=''"
| "operator_text OBitXorEq = ''^=''"
| "operator_text OEqEq = ''==''"
| "operator_text ONe = ''!=''"
| "operator_text OLt = ''<''"
| "operator_text OGt = ''>''"
| "operator_text OLe = ''<=''"
| "operator_text OGe = ''>=''"
| "operator_text OAndAnd = ''&&''"
| "operator_text OOrOr = ''||''"
| "operator_text ONotOp = ''!''"
| "operator_text OBitAnd = ''&''"
| "operator_text OBitOr = ''|''"
| "operator_text OBitXor = ''^''"
| "operator_text OShl = ''<<''"
| "operator_text OShr = ''>>''"
| "operator_text OTilde = ''~''"
| "operator_text ODollarParen = ''$(''"
| "operator_text OPipeArrow = ''|>''"

fun punctuation_text :: "Punctuation \<Rightarrow> string" where
  "punctuation_text PLParen = ''(''"
| "punctuation_text PRParen = '')''"
| "punctuation_text PLBrace = ''{''"
| "punctuation_text PRBrace = ''}''"
| "punctuation_text PLBracket = ''[''"
| "punctuation_text PRBracket = '']''"
| "punctuation_text PColon = '':''"
| "punctuation_text PSemi = '';''"
| "punctuation_text PComma = '',''"
| "punctuation_text PDot = ''.''"
| "punctuation_text PDotDot = ''..''"
| "punctuation_text PColonColon = ''::''"
| "punctuation_text PArrow = ''->''"
| "punctuation_text PFatArrow = ''=>''"
| "punctuation_text PQuestion = ''?''"
| "punctuation_text PBang = ''!''"
| "punctuation_text PEllipsis = ''...''"
| "punctuation_text PAt = ''@''"
| "punctuation_text PHash = ''#''"
| "punctuation_text PNewline = [CHR 0x0A]"
| "punctuation_text PIndent = ''''"
| "punctuation_text PDedent = ''''"
| "punctuation_text PEof = ''''"

fun source_text :: "TokenKind \<Rightarrow> utext" where
  "source_text (TInt v) = v"
| "source_text (TFloat v) = v"
| "source_text (TString v) = v"
| "source_text (TFString v) = v"
| "source_text (TIdent v) = v"
| "source_text TTrue = ustr ''true''"
| "source_text TFalse = ustr ''false''"
| "source_text TUnit = ustr ''()''"
| "source_text (Kw k) = ustr (keyword_text k)"
| "source_text (Fkw k) = ustr (flow_keyword_text k)"
| "source_text (Opr k) = ustr (operator_text k)"
| "source_text (Pun k) = ustr (punctuation_text k)"

section \<open>Keywords\<close>

definition keyword_table :: "(string \<times> TokenKind) list" where
  "keyword_table =
     [(''type'', Kw KType), (''func'', Kw KFunc), (''fn'', Kw KFn), (''actor'', Kw KActor),
     (''newtype'', Kw KNewtype), (''let'', Kw KLet), (''const'', Kw KConst),
     (''mut'', Kw KMut), (''ref'', Kw KRef), (''shared'', Kw KShared), (''weak'', Kw KWeak),
     (''arena'', Kw KArena), (''cap'', Kw KCap), (''trait'', Kw KTrait),
     (''impl'', Kw KImpl), (''dyn'', Kw KDyn), (''where'', Kw KWhere),
     (''extern'', Kw KExtern), (''if'', Kw KIf), (''else'', Kw KElse), (''for'', Kw KFor),
     (''fails'', Fkw FFails), (''in'', Kw KIn), (''while'', Kw KWhile),
     (''return'', Kw KReturn), (''break'', Kw KBreak), (''continue'', Kw KContinue),
     (''match'', Kw KMatch), (''use'', Kw KUse), (''pub'', Kw KPub), (''drop'', Kw KDrop),
     (''defer'', Kw KDefer), (''await'', Kw KAwait), (''unsafe'', Kw KUnsafe),
     (''spawn'', Kw KSpawn), (''comptime'', Kw KComptime), (''failure'', Kw KFailure),
     (''requires'', Kw KRequires), (''ensures'', Kw KEnsures),
     (''invariant'', Kw KInvariant), (''math'', Kw KMath), (''old'', Kw KOld),
     (''flow'', Fkw FFlow), (''state'', Fkw FState), (''transition'', Fkw FTransition),
     (''pinned'', Fkw FPinned), (''persistent'', Fkw FPersistent), (''view'', Fkw FView),
     (''mutate'', Fkw FMutate), (''session'', Fkw FSession), (''dual'', Fkw FDual),
     (''end'', Fkw FEnd), (''and'', Fkw FAnd), (''or'', Fkw FOr), (''not'', Fkw FNot),
     (''loop'', Fkw FLoop), (''as'', Fkw FAs), (''true'', TTrue), (''false'', TFalse),
     (''unit'', TUnit)]"

definition keyword_or_ident :: "utext \<Rightarrow> TokenKind" where
  "keyword_or_ident name =
     (case map_of (map (\<lambda>(s, k). (ustr s, k)) keyword_table) name of
        Some k \<Rightarrow> k | None \<Rightarrow> TIdent name)"

fun is_keyword_kind :: "TokenKind \<Rightarrow> bool" where
  "is_keyword_kind (Kw k) = (k \<notin> {KParasteps, KQuote})"
| "is_keyword_kind (Fkw k) = (k \<notin> {FFault, FReset, FRecover, FAnd, FOr, FNot})"
| "is_keyword_kind k = (k \<in> {TTrue, TFalse, TUnit})"

section \<open>Errors\<close>

datatype LexerError =
    TabsNotAllowed nat nat
  | IndentNotMultipleOfFour nat nat
  | DedentMismatch nat nat
  | UnexpectedDollar nat nat
  | UnexpectedCharacter uchar nat nat
  | UnterminatedString nat nat
  | UnterminatedEscape nat nat
  | UnterminatedFString nat nat
  | UnterminatedFStringEscape nat nat
  | UnterminatedInterpolation nat nat
  | UnterminatedBlockComment nat nat
  | InvalidEscape utext nat nat
  | InvalidDigitSeparator nat nat

fun error_position :: "LexerError \<Rightarrow> nat \<times> nat" where
  "error_position (TabsNotAllowed l c) = (l, c)"
| "error_position (IndentNotMultipleOfFour l c) = (l, c)"
| "error_position (DedentMismatch l c) = (l, c)"
| "error_position (UnexpectedDollar l c) = (l, c)"
| "error_position (UnterminatedString l c) = (l, c)"
| "error_position (UnterminatedEscape l c) = (l, c)"
| "error_position (UnterminatedFString l c) = (l, c)"
| "error_position (UnterminatedFStringEscape l c) = (l, c)"
| "error_position (UnterminatedInterpolation l c) = (l, c)"
| "error_position (UnterminatedBlockComment l c) = (l, c)"
| "error_position (InvalidDigitSeparator l c) = (l, c)"
| "error_position (UnexpectedCharacter x l c) = (l, c)"
| "error_position (InvalidEscape x l c) = (l, c)"

end
