(* ===== verification/Mimi_Lexer.thy ===== *)
theory Mimi_Lexer
  imports Mimi_Token
begin

text \<open>
  The lexer (\<open>src/lexer/flow.rs\<close>): the position in the source, the scanners for comments, strings,
  f-strings, numbers and identifiers, the dispatch on the first character of a token, and the state
  machine \<open>Start\<close>, \<open>LineStart\<close>, \<open>Dispatch\<close>, \<open>Done\<close> that \<open>flow_tokenize\<close> drives. A position holds the
  rest of the source: its head is the peeked character, its tail what the iterator still yields.
  The Unicode tables behind \<open>char::is_alphanumeric\<close> are the parameter \<open>uni\<close> beyond ASCII.
\<close>

section \<open>Positions\<close>

record LexerPos =
  lp_rest :: utext
  lp_line :: nat
  lp_col :: nat

abbreviation NL :: uchar where "NL \<equiv> ch CHR 0x0A"
abbreviation CR :: uchar where "CR \<equiv> ch CHR 0x0D"
abbreviation TAB :: uchar where "TAB \<equiv> ch CHR 0x09"
abbreviation SPACE :: uchar where "SPACE \<equiv> ch CHR '' ''"
abbreviation DQ :: uchar where "DQ \<equiv> ch CHR 0x22"
abbreviation SQ :: uchar where "SQ \<equiv> ch CHR 0x27"
abbreviation BSL :: uchar where "BSL \<equiv> ch CHR 0x5C"

definition pos_new :: "utext \<Rightarrow> LexerPos" where
  "pos_new source = \<lparr>lp_rest = source, lp_line = 1, lp_col = 1\<rparr>"

definition advance :: "LexerPos \<Rightarrow> LexerPos" where
  "advance p =
     (case lp_rest p of
        [] \<Rightarrow> p
      | c # cs \<Rightarrow>
          if c = NL then \<lparr>lp_rest = cs, lp_line = lp_line p + 1, lp_col = 1\<rparr>
          else \<lparr>lp_rest = cs, lp_line = lp_line p, lp_col = lp_col p + 1\<rparr>)"

definition peek :: "LexerPos \<Rightarrow> uchar option" where
  "peek p = (case lp_rest p of [] \<Rightarrow> None | c # _ \<Rightarrow> Some c)"

text \<open>\<open>pos.chars.clone().next()\<close>, and the character after that.\<close>

definition peek_next :: "LexerPos \<Rightarrow> uchar option" where
  "peek_next p = (case lp_rest p of _ # d # _ \<Rightarrow> Some d | _ \<Rightarrow> None)"

definition peek_third :: "LexerPos \<Rightarrow> uchar option" where
  "peek_third p = (case lp_rest p of _ # _ # e # _ \<Rightarrow> Some e | _ \<Rightarrow> None)"

lemma advance_rest [simp]: "lp_rest (advance p) = tl (lp_rest p)"
  by (simp add: advance_def split: list.split)

lemma peek_None: "peek p = None \<longleftrightarrow> lp_rest p = []"
  by (simp add: peek_def split: list.split)

lemma peek_rest [simp]: "lp_rest p = [] \<Longrightarrow> peek p = None" "lp_rest p = c # cs \<Longrightarrow> peek p = Some c"
  by (simp_all add: peek_def)

lemma peek_Some: "peek p = Some c \<longleftrightarrow> (\<exists>cs. lp_rest p = c # cs)"
  by (auto simp: peek_def split: list.split)

lemma advance_shorter [simp]:
  "peek p = Some c \<Longrightarrow> length (lp_rest (advance p)) < length (lp_rest p)"
  by (auto simp: peek_Some)

text \<open>One position is reached from another by advancing over characters.\<close>

inductive moves :: "LexerPos \<Rightarrow> LexerPos \<Rightarrow> bool" where
  moves_refl [simp]: "moves p p"
| moves_advance: "moves p q \<Longrightarrow> peek q = Some c \<Longrightarrow> moves p (advance q)"

lemma moves_trans [trans]: "moves p q \<Longrightarrow> moves q r \<Longrightarrow> moves p r"
  by (rotate_tac, induction rule: moves.induct) (auto intro: moves_advance)

lemma moves_first: "peek p = Some c \<Longrightarrow> moves (advance p) q \<Longrightarrow> moves p q"
  by (rule moves_trans [of p "advance p"]) (auto intro: moves.intros)

lemma moves_two:
  "peek p = Some c \<Longrightarrow> peek (advance p) = Some d \<Longrightarrow> moves (advance (advance p)) q \<Longrightarrow> moves p q"
  by (blast intro: moves_first)

lemma moves_shorter: "moves p q \<Longrightarrow> length (lp_rest q) \<le> length (lp_rest p)"
  by (induction rule: moves.induct) auto

section \<open>Skipping\<close>

text \<open>\<open>while peek satisfies P, advance\<close>.\<close>

function skip_while :: "(uchar \<Rightarrow> bool) \<Rightarrow> LexerPos \<Rightarrow> LexerPos" where
  "skip_while P p =
     (case peek p of None \<Rightarrow> p | Some c \<Rightarrow> if P c then skip_while P (advance p) else p)"
  by pat_completeness auto
termination by (relation "measure (length \<circ> lp_rest \<circ> snd)") (auto simp: peek_Some)

declare skip_while.simps [simp del]

definition is_inline_blank :: "uchar \<Rightarrow> bool" where
  "is_inline_blank c \<longleftrightarrow> c = SPACE \<or> c = TAB \<or> c = CR"

definition skip_whitespace_inline :: "LexerPos \<Rightarrow> LexerPos" where
  "skip_whitespace_inline = skip_while is_inline_blank"

definition skip_line_comment :: "LexerPos \<Rightarrow> LexerPos" where
  "skip_line_comment = skip_while (\<lambda>c. c \<noteq> NL)"

definition MAX_BLOCK_COMMENT_DEPTH :: nat where "MAX_BLOCK_COMMENT_DEPTH = 10000"

function block_comment_loop :: "nat \<Rightarrow> LexerPos \<Rightarrow> LexerError + LexerPos" where
  "block_comment_loop depth p =
     (if depth = 0 then Ok p
      else case peek p of
             None \<Rightarrow> Err (UnterminatedBlockComment (lp_line p) (lp_col p))
           | Some c \<Rightarrow>
               if c = ch CHR ''*'' then
                 (if peek (advance p) = Some (ch CHR ''/'')
                  then block_comment_loop (depth - 1) (advance (advance p))
                  else block_comment_loop depth (advance p))
               else if c = ch CHR ''/'' then
                 (if peek (advance p) = Some (ch CHR ''*'')
                  then if MAX_BLOCK_COMMENT_DEPTH \<le> depth
                       then Err (UnterminatedBlockComment (lp_line (advance (advance p)))
                              (lp_col (advance (advance p))))
                       else block_comment_loop (depth + 1) (advance (advance p))
                  else block_comment_loop depth (advance p))
               else block_comment_loop depth (advance p))"
  by pat_completeness auto
termination by (relation "measure (length \<circ> lp_rest \<circ> snd)") (auto simp: peek_Some)

declare block_comment_loop.simps [simp del]

definition skip_block_comment :: "LexerPos \<Rightarrow> LexerError + LexerPos" where
  "skip_block_comment p = block_comment_loop 1 (advance (advance p))"

section \<open>Digits and letters\<close>

definition in_range :: "char \<Rightarrow> char \<Rightarrow> uchar \<Rightarrow> bool" where
  "in_range a b c \<longleftrightarrow> ch a \<le> c \<and> c \<le> ch b"

definition is_ascii_digit :: "uchar \<Rightarrow> bool" where
  "is_ascii_digit = in_range CHR ''0'' CHR ''9''"

definition is_ascii_hexdigit :: "uchar \<Rightarrow> bool" where
  "is_ascii_hexdigit c \<longleftrightarrow>
     is_ascii_digit c \<or> in_range CHR ''a'' CHR ''f'' c \<or> in_range CHR ''A'' CHR ''F'' c"

definition is_binary_digit :: "uchar \<Rightarrow> bool" where
  "is_binary_digit c \<longleftrightarrow> c = ch CHR ''0'' \<or> c = ch CHR ''1''"

definition is_octal_digit :: "uchar \<Rightarrow> bool" where
  "is_octal_digit c \<longleftrightarrow> is_ascii_digit c \<and> c \<noteq> ch CHR ''8'' \<and> c \<noteq> ch CHR ''9''"

definition is_ascii_letter :: "uchar \<Rightarrow> bool" where
  "is_ascii_letter c \<longleftrightarrow> in_range CHR ''a'' CHR ''z'' c \<or> in_range CHR ''A'' CHR ''Z'' c"

text \<open>\<open>char::is_alphanumeric\<close>: ASCII here, the tables of the standard library beyond.\<close>

definition is_alphanumeric :: "(uchar \<Rightarrow> bool) \<Rightarrow> uchar \<Rightarrow> bool" where
  "is_alphanumeric uni c \<longleftrightarrow>
     (if c < 128 then is_ascii_digit c \<or> is_ascii_letter c else uni c)"

definition hex_value :: "uchar \<Rightarrow> nat" where
  "hex_value c =
     (if is_ascii_digit c then c - ch CHR ''0''
      else if in_range CHR ''a'' CHR ''f'' c then c - ch CHR ''a'' + 10
      else c - ch CHR ''A'' + 10)"

definition hex_number :: "utext \<Rightarrow> nat" where
  "hex_number s = foldl (\<lambda>n c. 16 * n + hex_value c) 0 s"

text \<open>\<open>u32::from_str_radix\<close> on hexadecimal digits, with the message of its error.\<close>

definition parse_hex_u32 :: "utext \<Rightarrow> string + nat" where
  "parse_hex_u32 s =
     (if s = [] then Err ''cannot parse integer from empty string''
      else if 2 ^ 32 \<le> hex_number s then Err ''number too large to fit in target type''
      else Ok (hex_number s))"

text \<open>\<open>char::from_u32\<close>: the scalar values.\<close>

definition char_from_u32 :: "nat \<Rightarrow> uchar option" where
  "char_from_u32 v = (if v \<le> 0x10FFFF \<and> \<not> (0xD800 \<le> v \<and> v \<le> 0xDFFF) then Some v else None)"

section \<open>Strings\<close>

text \<open>At most \<open>n\<close> hexadecimal digits, and any number of them mixed with underscores.\<close>

fun take_hex :: "nat \<Rightarrow> LexerPos \<Rightarrow> utext \<Rightarrow> LexerPos \<times> utext" where
  "take_hex 0 p s = (p, s)"
| "take_hex (Suc n) p s =
     (case peek p of
        Some c \<Rightarrow> if is_ascii_hexdigit c then take_hex n (advance p) (s @ [c]) else (p, s)
      | None \<Rightarrow> (p, s))"

function take_while :: "(uchar \<Rightarrow> bool) \<Rightarrow> LexerPos \<Rightarrow> utext \<Rightarrow> LexerPos \<times> utext" where
  "take_while P p s =
     (case peek p of
        None \<Rightarrow> (p, s)
      | Some c \<Rightarrow> if P c then take_while P (advance p) (s @ [c]) else (p, s))"
  by pat_completeness auto
termination by (relation "measure (\<lambda>(P, p, s). length (lp_rest p))") (auto simp: peek_Some)

declare take_while.simps [simp del]

definition hex_or_underscore :: "uchar \<Rightarrow> bool" where
  "hex_or_underscore c \<longleftrightarrow> is_ascii_hexdigit c \<or> c = ch CHR ''_''"

definition invalid_escape :: "string \<Rightarrow> LexerPos \<Rightarrow> nat \<Rightarrow> LexerError" where
  "invalid_escape e p col = InvalidEscape (ustr e) (lp_line p) col"

text \<open>The digits of \<open>\\u\<close>, the position being after the \<open>u\<close>.\<close>

definition unicode_digits :: "nat \<Rightarrow> LexerPos \<Rightarrow> LexerError + LexerPos \<times> utext" where
  "unicode_digits start_col p =
     (if peek p = Some (ch CHR ''{'')
      then case take_while hex_or_underscore (advance p) [] of
             (q, code) \<Rightarrow>
               if peek q \<noteq> Some (ch CHR ''}'') then Err (invalid_escape (CHR 0x5C # ''u{'') q start_col)
               else if code = [] then Err (invalid_escape (CHR 0x5C # ''u{}'') q start_col)
               else Ok (advance q, code)
      else case take_hex 4 p [] of
             (q, code) \<Rightarrow>
               if length code \<noteq> 4 then Err (invalid_escape (CHR 0x5C # ''u'') q start_col)
               else Ok (q, code))"

definition unicode_escape :: "LexerPos \<Rightarrow> LexerError + LexerPos \<times> utext" where
  "unicode_escape p =
     (case unicode_digits (lp_col p) (advance p) of
        Err e \<Rightarrow> Err e
      | Ok (q, code) \<Rightarrow>
          (case parse_hex_u32 (filter (\<lambda>c. c \<noteq> ch CHR ''_'') code) of
             Err m \<Rightarrow> Err (invalid_escape (CHR 0x5C # CHR ''u'' # m) q (lp_col p))
           | Ok v \<Rightarrow>
               (case char_from_u32 v of
                  Some c \<Rightarrow> Ok (q, [c])
                | None \<Rightarrow> Err (invalid_escape (CHR 0x5C # ''u'') q (lp_col p)))))"

definition hex_escape :: "LexerPos \<Rightarrow> LexerError + LexerPos \<times> utext" where
  "hex_escape p =
     (case take_hex 2 (advance p) [] of
        (q, hex) \<Rightarrow>
          if length hex \<noteq> 2 then Err (invalid_escape (CHR 0x5C # ''x'') q (lp_col p))
          else Ok (q, [hex_number hex]))"

text \<open>What a simple escape stands for.\<close>

definition escape_table :: "(uchar \<times> uchar) list" where
  "escape_table = [(ch CHR ''n'', NL), (ch CHR ''t'', TAB), (ch CHR ''r'', CR), (BSL, BSL), (DQ, DQ),
     (ch CHR ''0'', ch CHR 0x00)]"

text \<open>An escape, the position being after the backslash.\<close>

definition string_escape :: "LexerPos \<Rightarrow> LexerError + LexerPos \<times> utext" where
  "string_escape p =
     (case peek p of
        None \<Rightarrow> Err (UnterminatedEscape (lp_line p) (lp_col p))
      | Some c \<Rightarrow>
          (case map_of escape_table c of
             Some d \<Rightarrow> Ok (advance p, [d])
           | None \<Rightarrow>
               if c = ch CHR ''x'' then hex_escape p
               else if c = ch CHR ''u'' then unicode_escape p
               else Err (InvalidEscape [BSL, c] (lp_line p) (lp_col p))))"

text \<open>The scanners only advance.\<close>

lemma skip_while_moves: "moves p (skip_while P p)"
proof (induction P p rule: skip_while.induct)
  case (1 P p)
  then show ?case
    by (subst skip_while.simps) (auto split: option.split intro: moves_first)
qed

lemma take_while_moves: "moves p (fst (take_while P p s))"
proof (induction P p s rule: take_while.induct)
  case (1 P p s)
  then show ?case
    by (subst take_while.simps) (auto split: option.split intro: moves_first)
qed

lemma take_hex_moves: "moves p (fst (take_hex n p s))"
  by (induction n p s rule: take_hex.induct) (auto split: option.split intro: moves_first)

lemma unicode_digits_moves:
  assumes "unicode_digits col p = Ok (q, code)"
  shows "moves p q"
proof (cases "peek p = Some (ch CHR ''{'')")
  case True
  obtain r c where r: "take_while hex_or_underscore (advance p) [] = (r, c)" by (rule prod.exhaust)
  with True assms have "q = advance r" and "peek r \<noteq> None"
    by (auto simp: unicode_digits_def split: if_splits)
  moreover have "moves (advance p) r"
    using take_while_moves [of "advance p" hex_or_underscore "[]"] by (simp add: r)
  ultimately show ?thesis using True by (auto intro: moves_first moves_advance)
next
  case False
  obtain r c where r: "take_hex 4 p [] = (r, c)" by (rule prod.exhaust)
  with False assms have "q = r" by (auto simp: unicode_digits_def split: if_splits)
  then show ?thesis using take_hex_moves [of p 4 "[]"] by (simp add: r)
qed

lemma hex_escape_moves:
  assumes "hex_escape p = Ok (q, t)" and "peek p = Some c"
  shows "moves p q"
proof -
  obtain r h where r: "take_hex 2 (advance p) [] = (r, h)" by (rule prod.exhaust)
  with assms have "q = r" by (auto simp: hex_escape_def split: if_splits)
  then have "moves (advance p) q" using take_hex_moves [of "advance p" 2 "[]"] by (simp add: r)
  then show ?thesis by (rule moves_first [OF assms(2)])
qed

lemma unicode_escape_moves:
  assumes "unicode_escape p = Ok (q, t)" and "peek p = Some c"
  shows "moves p q"
proof -
  obtain r code where "unicode_digits (lp_col p) (advance p) = Ok (r, code)" and "q = r"
    using assms by (auto simp: unicode_escape_def split: sum.splits option.splits)
  then show ?thesis using unicode_digits_moves moves_first [OF assms(2)] by blast
qed

lemma string_escape_moves: "string_escape p = Ok (q, t) \<Longrightarrow> moves p q"
  by (auto simp: string_escape_def split: option.splits if_splits
      intro: moves_first hex_escape_moves unicode_escape_moves)

function string_loop :: "LexerPos \<Rightarrow> utext \<Rightarrow> LexerError + LexerPos \<times> utext" where
  "string_loop p s =
     (case peek p of
        None \<Rightarrow> Err (UnterminatedString (lp_line p) (lp_col p))
      | Some c \<Rightarrow>
          if c = DQ then Ok (advance p, s)
          else if c = BSL then
            (case string_escape (advance p) of
               Err e \<Rightarrow> Err e
             | Ok (q, t) \<Rightarrow> string_loop q (s @ t))
          else string_loop (advance p) (s @ [c]))"
  by pat_completeness auto
termination
  by (relation "measure (length \<circ> lp_rest \<circ> fst)")
    (auto simp: peek_Some dest!: string_escape_moves moves_shorter)

declare string_loop.simps [simp del]

definition scan_string :: "LexerPos \<Rightarrow> LexerError + LexerPos \<times> utext" where
  "scan_string p = string_loop (advance p) []"

section \<open>F-strings\<close>

text \<open>Escapes stay as they are written; the parser resolves them.\<close>

definition fstring_escape :: "LexerPos \<Rightarrow> LexerError + LexerPos \<times> utext" where
  "fstring_escape p =
     (case peek p of
        None \<Rightarrow> Err (UnterminatedFStringEscape (lp_line p) (lp_col p))
      | Some c \<Rightarrow>
          if c \<in> {ch CHR ''n'', ch CHR ''t'', ch CHR ''r'', BSL, DQ, ch CHR ''{'', ch CHR ''}'', ch CHR ''0''}
          then Ok (advance p, [BSL, c])
          else if c = ch CHR ''x'' then
            (case take_hex 2 (advance p) [] of
               (q, hex) \<Rightarrow>
                 if length hex \<noteq> 2 then Err (invalid_escape (CHR 0x5C # ''x'') q (lp_col p))
                 else Ok (q, [BSL, ch CHR ''x''] @ hex))
          else if c = ch CHR ''u'' then
            (case unicode_digits (lp_col p) (advance p) of
               Err e \<Rightarrow> Err e
             | Ok (q, code) \<Rightarrow>
                 Ok (q, [BSL, ch CHR ''u''] @
                   (if peek (advance p) = Some (ch CHR ''{'')
                    then ch CHR ''{'' # code @ [ch CHR ''}''] else code)))
          else Err (InvalidEscape [BSL, c] (lp_line p) (lp_col p)))"

text \<open>A quoted stretch inside an interpolation, and the interpolation up to its closing brace.\<close>

function quoted_loop :: "uchar \<Rightarrow> LexerPos \<Rightarrow> utext \<Rightarrow> LexerPos \<times> utext" where
  "quoted_loop quote p s =
     (case peek p of
        None \<Rightarrow> (p, s)
      | Some c \<Rightarrow>
          if c = BSL then
            (case peek (advance p) of
               None \<Rightarrow> quoted_loop quote (advance p) (s @ [c])
             | Some e \<Rightarrow> quoted_loop quote (advance (advance p)) (s @ [c, e]))
          else if c = quote then (advance p, s @ [c])
          else quoted_loop quote (advance p) (s @ [c]))"
  by pat_completeness auto
termination by (relation "measure (\<lambda>(quote, p, s). length (lp_rest p))") (auto simp: peek_Some)

declare quoted_loop.simps [simp del]

lemma quoted_loop_moves: "moves p (fst (quoted_loop quote p s))"
proof (induction quote p s rule: quoted_loop.induct)
  case (1 quote p s)
  then show ?case
    by (subst quoted_loop.simps) (auto split: option.split intro: moves_first moves_two)
qed

function interpolation_loop :: "nat \<Rightarrow> LexerPos \<Rightarrow> utext \<Rightarrow> LexerError + LexerPos \<times> utext" where
  "interpolation_loop depth p s =
     (case peek p of
        None \<Rightarrow> Err (UnterminatedInterpolation (lp_line p) (lp_col p))
      | Some c \<Rightarrow>
          if c = DQ \<or> c = SQ then
            (case quoted_loop c (advance p) (s @ [c]) of (q, t) \<Rightarrow> interpolation_loop depth q t)
          else if c = ch CHR ''{'' then interpolation_loop (depth + 1) (advance p) (s @ [c])
          else if c = ch CHR ''}'' then
            (if depth = 1 then Ok (advance p, s @ [c])
             else interpolation_loop (depth - 1) (advance p) (s @ [c]))
          else interpolation_loop depth (advance p) (s @ [c]))"
  by pat_completeness auto
termination
proof (relation "measure (\<lambda>(depth, p, s). length (lp_rest p))", goal_cases)
  case (2 depth p s c q t)
  then have "moves (advance p) q"
    using quoted_loop_moves [of "advance p" c "s @ [c]"] by (metis fst_conv)
  with 2(1) show ?case using moves_shorter by (fastforce simp: peek_Some)
qed (auto simp: peek_Some)

declare interpolation_loop.simps [simp del]

lemma interpolation_loop_moves: "interpolation_loop depth p s = Ok (q, t) \<Longrightarrow> moves p q"
proof (induction depth p s rule: interpolation_loop.induct)
  case (1 depth p s)
  show ?case
  proof (cases "peek p")
    case None
    then show ?thesis using "1.prems" by (simp add: interpolation_loop.simps)
  next
    case (Some c)
    obtain r u where r: "quoted_loop c (advance p) (s @ [c]) = (r, u)" by (rule prod.exhaust)
    have "moves (advance p) r"
      using quoted_loop_moves [of "advance p" c "s @ [c]"] by (simp add: r)
    then show ?thesis
      using "1.prems" "1.IH" [OF Some] Some r moves_first [OF Some]
      by (subst (asm) interpolation_loop.simps) (auto split: if_splits intro: moves_trans)
  qed
qed

lemma fstring_escape_moves:
  assumes "fstring_escape p = Ok (q, t)"
  shows "moves p q"
proof -
  obtain c where c: "peek p = Some c" using assms by (cases "peek p") (auto simp: fstring_escape_def)
  have "moves (advance p) q"
    using assms c take_hex_moves [of "advance p" 2 "[]"] unicode_digits_moves [of "lp_col p" "advance p"]
    by (auto simp: fstring_escape_def split: if_splits prod.splits sum.splits)
  then show ?thesis by (rule moves_first [OF c])
qed

function fstring_loop :: "LexerPos \<Rightarrow> utext \<Rightarrow> LexerError + LexerPos \<times> utext" where
  "fstring_loop p s =
     (case peek p of
        None \<Rightarrow> Err (UnterminatedFString (lp_line p) (lp_col p))
      | Some c \<Rightarrow>
          if c = DQ then Ok (advance p, s)
          else if c = BSL then
            (case fstring_escape (advance p) of
               Err e \<Rightarrow> Err e
             | Ok (q, t) \<Rightarrow> fstring_loop q (s @ t))
          else if c = ch CHR ''{'' then
            (case interpolation_loop 1 (advance p) (s @ [c]) of
               Err e \<Rightarrow> Err e
             | Ok (q, t) \<Rightarrow> fstring_loop q t)
          else fstring_loop (advance p) (s @ [c]))"
  by pat_completeness auto
termination
proof (relation "measure (length \<circ> lp_rest \<circ> fst)", goal_cases)
  case (2 p s c r q t)
  then show ?case using moves_shorter [OF fstring_escape_moves] by (fastforce simp: peek_Some)
next
  case (3 p s c r q t)
  then show ?case using moves_shorter [OF interpolation_loop_moves] by (fastforce simp: peek_Some)
qed (auto simp: peek_Some)

declare fstring_loop.simps [simp del]

definition scan_fstring :: "LexerPos \<Rightarrow> LexerError + LexerPos \<times> utext" where
  "scan_fstring p = fstring_loop (advance (advance p)) []"

section \<open>Numbers\<close>

definition digit_separator_error :: "LexerPos \<Rightarrow> LexerError" where
  "digit_separator_error p = InvalidDigitSeparator (lp_line p) (lp_col p)"

text \<open>The digits after a radix prefix; an underscore must sit between two of them.\<close>

function radix_loop :: "(uchar \<Rightarrow> bool) \<Rightarrow> LexerPos \<Rightarrow> utext \<Rightarrow> LexerError + LexerPos \<times> utext" where
  "radix_loop digit p s =
     (case peek p of
        None \<Rightarrow> Ok (p, s)
      | Some c \<Rightarrow>
          if digit c then radix_loop digit (advance p) (s @ [c])
          else if c = ch CHR ''_'' then
            (if (case peek_next p of None \<Rightarrow> False | Some n \<Rightarrow> digit n) \<and> s \<noteq> [] \<and> digit (last s)
             then radix_loop digit (advance p) (s @ [c])
             else Err (digit_separator_error p))
          else Ok (p, s))"
  by pat_completeness auto
termination by (relation "measure (\<lambda>(digit, p, s). length (lp_rest p))") (auto simp: peek_Some)

declare radix_loop.simps [simp del]

definition next_is_digit :: "LexerPos \<Rightarrow> bool" where
  "next_is_digit p = (case peek_next p of None \<Rightarrow> False | Some n \<Rightarrow> is_ascii_digit n)"

function decimal_loop :: "bool \<Rightarrow> LexerPos \<Rightarrow> utext \<Rightarrow> LexerError + bool \<times> LexerPos \<times> utext" where
  "decimal_loop is_float p s =
     (case peek p of
        None \<Rightarrow> Ok (is_float, p, s)
      | Some c \<Rightarrow>
          if is_ascii_digit c then decimal_loop is_float (advance p) (s @ [c])
          else if c = ch CHR ''.'' then
            (if is_float then Ok (is_float, p, s)
             else if next_is_digit p then decimal_loop True (advance p) (s @ [c])
             else Ok (is_float, p, s))
          else if c = ch CHR ''_'' then
            (if next_is_digit p then decimal_loop is_float (advance p) (s @ [c])
             else Err (digit_separator_error p))
          else Ok (is_float, p, s))"
  by pat_completeness auto
termination by (relation "measure (\<lambda>(is_float, p, s). length (lp_rest p))") (auto simp: peek_Some)

declare decimal_loop.simps [simp del]

function exponent_loop :: "LexerPos \<Rightarrow> utext \<Rightarrow> LexerError + LexerPos \<times> utext" where
  "exponent_loop p s =
     (case peek p of
        None \<Rightarrow> Ok (p, s)
      | Some c \<Rightarrow>
          if is_ascii_digit c then exponent_loop (advance p) (s @ [c])
          else if c = ch CHR ''_'' then
            (if next_is_digit p then exponent_loop (advance p) (s @ [c])
             else Err (digit_separator_error p))
          else Ok (p, s))"
  by pat_completeness auto
termination by (relation "measure (length \<circ> lp_rest \<circ> fst)") (auto simp: peek_Some)

declare exponent_loop.simps [simp del]

definition is_sign :: "uchar option \<Rightarrow> bool" where
  "is_sign c \<longleftrightarrow> c = Some (ch CHR ''+'') \<or> c = Some (ch CHR ''-'')"

definition optional_sign :: "LexerPos \<Rightarrow> utext \<Rightarrow> LexerPos \<times> utext" where
  "optional_sign p s =
     (case peek p of
        Some c \<Rightarrow> if is_sign (Some c) then (advance p, s @ [c]) else (p, s)
      | None \<Rightarrow> (p, s))"

definition scan_exponent :: "bool \<Rightarrow> LexerPos \<Rightarrow> utext \<Rightarrow> LexerError + bool \<times> LexerPos \<times> utext" where
  "scan_exponent is_float p s =
     (case peek p of
        None \<Rightarrow> Ok (is_float, p, s)
      | Some e \<Rightarrow>
          if e = ch CHR ''e'' \<or> e = ch CHR ''E'' then
            let signed_exp = is_sign (peek_next p);
                digit_col = (if signed_exp then lp_col p + 2 else lp_col p + 1);
                first_digit = (if signed_exp then peek_third p else peek_next p)
            in if first_digit = Some (ch CHR ''_'') then Err (InvalidDigitSeparator (lp_line p) digit_col)
               else if (case first_digit of None \<Rightarrow> False | Some d \<Rightarrow> is_ascii_digit d)
               then case optional_sign (advance p) (s @ [e]) of
                      (q, t) \<Rightarrow> (case exponent_loop q t of Err x \<Rightarrow> Err x | Ok (r, u) \<Rightarrow> Ok (True, r, u))
               else Ok (is_float, p, s)
          else Ok (is_float, p, s))"

definition radix_number ::
    "char \<Rightarrow> (uchar \<Rightarrow> bool) \<Rightarrow> LexerPos \<Rightarrow> LexerError + LexerPos \<times> TokenKind" where
  "radix_number prefix digit p =
     (case radix_loop digit (advance (advance p)) [ch CHR ''0'', ch prefix] of
        Err e \<Rightarrow> Err e | Ok (q, s) \<Rightarrow> Ok (q, TInt s))"

definition decimal_number :: "LexerPos \<Rightarrow> LexerError + LexerPos \<times> TokenKind" where
  "decimal_number p =
     (case decimal_loop False p [] of
        Err e \<Rightarrow> Err e
      | Ok (is_float, q, s) \<Rightarrow>
          (case scan_exponent is_float q s of
             Err e \<Rightarrow> Err e
           | Ok (is_float', r, t) \<Rightarrow> Ok (r, if is_float' then TFloat t else TInt t)))"

definition scan_number :: "LexerPos \<Rightarrow> LexerError + LexerPos \<times> TokenKind" where
  "scan_number p =
     (if peek p = Some (ch CHR ''0'') then
        (if peek_next p \<in> {Some (ch CHR ''x''), Some (ch CHR ''X'')}
         then radix_number CHR ''x'' is_ascii_hexdigit p
         else if peek_next p \<in> {Some (ch CHR ''b''), Some (ch CHR ''B'')}
         then radix_number CHR ''b'' is_binary_digit p
         else if peek_next p \<in> {Some (ch CHR ''o''), Some (ch CHR ''O'')}
         then radix_number CHR ''o'' is_octal_digit p
         else decimal_number p)
      else decimal_number p)"

definition is_ident_char :: "(uchar \<Rightarrow> bool) \<Rightarrow> uchar \<Rightarrow> bool" where
  "is_ident_char uni c \<longleftrightarrow> is_alphanumeric uni c \<or> c = ch CHR ''_''"

definition scan_ident :: "(uchar \<Rightarrow> bool) \<Rightarrow> LexerPos \<Rightarrow> uchar \<Rightarrow> LexerPos \<times> utext" where
  "scan_ident uni p first = take_while (is_ident_char uni) p [first]"

end
