(* ===== verification/Mimi_LexerFlow.thy ===== *)
theory Mimi_LexerFlow
  imports Mimi_Lexer
begin

text \<open>
  The dispatch on the first character of a token (\<open>lex_scan_token\<close>) and the state machine of the
  lexer (\<open>LexerState::transition\<close>, \<open>flow_tokenize\<close>) of \<open>src/lexer/flow.rs\<close>.
\<close>

section \<open>Tokens by their first character\<close>

text \<open>
  The operators: the first character, the second characters that extend it in the order they are
  tested, and the kind without an extension.
\<close>

definition operator_branches :: "(char \<times> (char \<times> TokenKind) list \<times> TokenKind) list" where
  "operator_branches =
     [(CHR ''+'', [(CHR ''='', Opr OPlusEq)], Opr OPlus),
      (CHR ''-'', [(CHR ''>'', Pun PArrow), (CHR ''='', Opr OMinusEq)], Opr OMinus),
      (CHR ''*'', [(CHR ''*'', Opr OPow), (CHR ''='', Opr OStarEq)], Opr OStar),
      (CHR ''/'', [(CHR ''='', Opr OSlashEq)], Opr OSlash),
      (CHR ''%'', [], Opr OPercent),
      (CHR ''='', [(CHR ''='', Opr OEqEq), (CHR ''>'', Pun PFatArrow)], Opr OEq),
      (CHR ''!'', [(CHR ''='', Opr ONe)], Pun PBang),
      (CHR ''<'', [(CHR ''='', Opr OLe), (CHR ''<'', Opr OShl)], Opr OLt),
      (CHR ''>'', [(CHR ''='', Opr OGe), (CHR ''>'', Opr OShr)], Opr OGt),
      (CHR ''&'', [(CHR ''&'', Opr OAndAnd), (CHR ''='', Opr OBitAndEq)], Opr OBitAnd),
      (CHR ''|'', [(CHR ''|'', Opr OOrOr), (CHR ''='', Opr OBitOrEq), (CHR ''>'', Opr OPipeArrow)],
        Opr OBitOr),
      (CHR ''^'', [(CHR ''='', Opr OBitXorEq)], Opr OBitXor),
      (CHR ''~'', [], Opr OTilde),
      (CHR ''$'', [(CHR ''('', Opr ODollarParen)], TIdent [ch CHR ''$'']),
      (CHR ''('', [], Pun PLParen), (CHR '')'', [], Pun PRParen),
      (CHR ''{'', [], Pun PLBrace), (CHR ''}'', [], Pun PRBrace),
      (CHR ''['', [], Pun PLBracket), (CHR '']'', [], Pun PRBracket),
      (CHR '':'', [(CHR '':'', Pun PColonColon)], Pun PColon),
      (CHR '';'', [], Pun PSemi), (CHR '','', [], Pun PComma),
      (CHR ''?'', [], Pun PQuestion), (CHR ''@'', [], Pun PAt), (CHR ''#'', [], Pun PHash)]"

definition operator_branch :: "uchar \<Rightarrow> ((char \<times> TokenKind) list \<times> TokenKind) option" where
  "operator_branch c = map_of (map (\<lambda>(a, b). (ch a, b)) operator_branches) c"

fun extend_operator :: "LexerPos \<Rightarrow> (char \<times> TokenKind) list \<Rightarrow> TokenKind \<Rightarrow> LexerPos \<times> TokenKind" where
  "extend_operator p [] k = (p, k)"
| "extend_operator p ((d, k') # rest) k =
     (if peek p = Some (ch d) then (advance p, k') else extend_operator p rest k)"

definition scan_dots :: "LexerPos \<Rightarrow> LexerPos \<times> TokenKind" where
  "scan_dots p =
     (if peek p = Some (ch CHR ''.'') \<and> peek_next p = Some (ch CHR ''.'')
      then (advance (advance p), Pun PEllipsis)
      else if peek p = Some (ch CHR ''.'') then (advance p, Pun PDotDot)
      else (p, Pun PDot))"

definition lex_scan_token ::
    "(uchar \<Rightarrow> bool) \<Rightarrow> LexerPos \<Rightarrow> uchar \<Rightarrow> nat \<Rightarrow> nat \<Rightarrow> LexerError + LexerPos \<times> TokenKind" where
  "lex_scan_token uni p c line col =
     (if c = ch CHR ''f'' \<and> peek_next p = Some DQ then
        (case scan_fstring p of Err e \<Rightarrow> Err e | Ok (q, s) \<Rightarrow> Ok (q, TFString s))
      else if c = DQ then
        (case scan_string p of Err e \<Rightarrow> Err e | Ok (q, s) \<Rightarrow> Ok (q, TString s))
      else if is_ascii_digit c then scan_number p
      else if is_ascii_letter c \<or> c = ch CHR ''_'' then
        (case peek p of
           None \<Rightarrow> Err (UnexpectedCharacter c line col)
         | Some first \<Rightarrow>
             (case scan_ident uni (advance p) first of
                (q, name) \<Rightarrow> Ok (q, keyword_or_ident name)))
      else if c = ch CHR ''.'' then Ok (scan_dots (advance p))
      else (case operator_branch c of
              Some (exts, k) \<Rightarrow> Ok (extend_operator (advance p) exts k)
            | None \<Rightarrow> Err (UnexpectedCharacter c line col)))"

section \<open>The accumulator\<close>

text \<open>The indentation stack has its top first; it starts with the root level 0.\<close>

record LexerAcc =
  la_tokens :: "Token list"
  la_indents :: "nat list"

definition acc_new :: LexerAcc where "acc_new = \<lparr>la_tokens = [], la_indents = [0]\<rparr>"

definition push_token :: "Token \<Rightarrow> LexerAcc \<Rightarrow> LexerAcc" where
  "push_token t acc = acc\<lparr>la_tokens := la_tokens acc @ [t]\<rparr>"

text \<open>A token at a point, without extent.\<close>

definition mark :: "Punctuation \<Rightarrow> nat \<Rightarrow> nat \<Rightarrow> Token" where
  "mark k line col = \<lparr>tk_kind = Pun k, tk_line = line, tk_col = col, tk_end_line = line, tk_end_col = col\<rparr>"

definition indent_top :: "nat list \<Rightarrow> nat" where
  "indent_top st = (case st of [] \<Rightarrow> 0 | i # _ \<Rightarrow> i)"

text \<open>Closing levels deeper than \<open>spaces\<close>: the new stack and the number of dedents.\<close>

fun close_levels :: "nat \<Rightarrow> nat list \<Rightarrow> nat list \<times> nat" where
  "close_levels spaces [] = ([], 0)"
| "close_levels spaces (i # st) =
     (if spaces < i
      then if st = [] then ([0], 0)
           else (case close_levels spaces st of (st', n) \<Rightarrow> (st', Suc n))
      else (i # st, 0))"

definition push_marks :: "nat \<Rightarrow> Token \<Rightarrow> LexerAcc \<Rightarrow> LexerAcc" where
  "push_marks n t acc = acc\<lparr>la_tokens := la_tokens acc @ replicate n t\<rparr>"

text \<open>The end of the source (\<open>advance_to_done\<close>, and the same steps in \<open>Dispatch\<close>).\<close>

definition advance_to_done :: "LexerPos \<Rightarrow> LexerMode \<Rightarrow> LexerAcc \<Rightarrow> LexerAcc" where
  "advance_to_done p mode acc =
     (let acc1 = (if mode = Sketch
                  then (push_marks (length (la_indents acc) - 1) (mark PDedent (lp_line p) (lp_col p)) acc)
                         \<lparr>la_indents := drop (length (la_indents acc) - 1) (la_indents acc)\<rparr>
                  else acc)
      in push_token (mark PEof (lp_line p) (lp_col p)) acc1)"

definition apply_indent :: "nat \<Rightarrow> LexerPos \<Rightarrow> LexerAcc \<Rightarrow> LexerError + LexerAcc" where
  "apply_indent spaces p acc =
     (if spaces mod 4 \<noteq> 0 then Err (IndentNotMultipleOfFour (lp_line p) (lp_col p))
      else let current = indent_top (la_indents acc)
           in if current < spaces
              then Ok (push_token (mark PIndent (lp_line p) spaces)
                     (acc\<lparr>la_indents := spaces # la_indents acc\<rparr>))
              else if spaces < current
              then (case close_levels spaces (la_indents acc) of
                      (st, n) \<Rightarrow>
                        if indent_top st \<noteq> spaces then Err (DedentMismatch (lp_line p) (lp_col p))
                        else Ok (push_marks n (mark PDedent (lp_line p) spaces)
                               (acc\<lparr>la_indents := st\<rparr>)))
              else Ok acc)"

section \<open>The start of a line\<close>

text \<open>
  One round of the loop over the lines: the source ends, the line is blank or a comment, it goes on
  after a block comment, or it has content after so many spaces.
\<close>

datatype LineScan = LsEnd LexerPos | LsBlank LexerPos | LsMid LexerPos | LsContent nat LexerPos

definition skip_char :: "uchar \<Rightarrow> LexerPos \<Rightarrow> LexerPos" where
  "skip_char c p = (if peek p = Some c then advance p else p)"

definition line_rest :: "nat \<Rightarrow> bool \<Rightarrow> LexerPos \<Rightarrow> LineScan" where
  "line_rest spaces is_comment p =
     (if is_comment \<or> peek p \<in> {Some NL, Some CR, None}
      then LsBlank (skip_char NL (skip_char CR p))
      else LsContent spaces p)"

definition spaces_after :: "LexerPos \<Rightarrow> LexerPos" where
  "spaces_after = skip_while (\<lambda>c. c = SPACE)"

definition scan_line_start :: "LexerPos \<Rightarrow> LexerError + LineScan" where
  "scan_line_start p0 =
     (let p1 = spaces_after p0;
          spaces = length (lp_rest p0) - length (lp_rest p1);
          p = skip_char CR p1
      in if peek p1 = Some TAB then Err (TabsNotAllowed (lp_line p1) (lp_col p1))
         else if peek p = None then Ok (LsEnd p)
         else if peek p = Some (ch CHR ''/'') \<and> peek_next p = Some (ch CHR ''*'') then
           (case skip_block_comment p of
              Err e \<Rightarrow> Err e
            | Ok q \<Rightarrow>
                let r = skip_char CR (skip_whitespace_inline q)
                in if peek r \<in> {Some NL, None} then Ok (line_rest spaces True r) else Ok (LsMid r))
         else if peek p = Some (ch CHR ''/'') \<and> peek_next p = Some (ch CHR ''/'')
         then Ok (line_rest spaces True (skip_line_comment p))
         else Ok (line_rest spaces False p))"

section \<open>The state machine\<close>

datatype LexerState =
    StStart LexerPos LexerMode bool LexerAcc
  | StLineStart LexerPos LexerMode bool LexerAcc
  | StDispatch LexerPos LexerMode bool LexerAcc
  | StDone "LexerError + LexerAcc"

datatype LexerEvent = EvStep | EvComplete

definition state_new :: "utext \<Rightarrow> LexerMode \<Rightarrow> LexerState" where
  "state_new source mode = StStart (pos_new source) mode True acc_new"

text \<open>A byte order mark and a shebang line are skipped at the start of the source.\<close>

definition BOM :: uchar where "BOM = 0xFEFF"

definition skip_prologue :: "LexerPos \<Rightarrow> LexerPos" where
  "skip_prologue p0 =
     (let p = skip_char BOM p0
      in if peek p = Some (ch CHR ''#'') \<and> peek_next p = Some (ch CHR ''!'')
         then skip_line_comment p else p)"

definition at_content :: "nat \<Rightarrow> LexerPos \<Rightarrow> LexerMode \<Rightarrow> LexerAcc \<Rightarrow> LexerError + LexerState" where
  "at_content spaces p mode acc =
     (if mode = Sketch then
        (case apply_indent spaces p acc of
           Err e \<Rightarrow> Err e | Ok acc' \<Rightarrow> Ok (StDispatch p mode False acc'))
      else Ok (StDispatch p mode False acc))"

lemma skip_char_moves [simp]: "moves p (skip_char c p)"
  by (auto simp: skip_char_def intro: moves_advance)

lemma block_comment_moves: "block_comment_loop depth p = Ok q \<Longrightarrow> moves p q"
proof (induction depth p rule: block_comment_loop.induct)
  case (1 depth p)
  show ?case
  proof (cases "peek p")
    case None
    then show ?thesis using "1.prems" by (subst (asm) block_comment_loop.simps) (auto split: if_splits)
  next
    case (Some c)
    then show ?thesis
      using "1.prems" "1.IH" moves_first [OF Some] moves_two [OF Some]
      by (subst (asm) block_comment_loop.simps) (auto split: if_splits)
  qed
qed

lemma skip_block_comment_moves:
  assumes "skip_block_comment p = Ok q" and "peek p = Some c" and "peek_next p = Some d"
  shows "moves p q \<and> length (lp_rest q) < length (lp_rest p)"
proof -
  have "peek (advance p) = Some d"
    using assms(2,3) by (auto simp: peek_Some peek_next_def split: list.splits)
  moreover have "moves (advance (advance p)) q"
    using assms(1) block_comment_moves by (auto simp: skip_block_comment_def)
  ultimately show ?thesis
    using moves_two [OF assms(2)] moves_shorter assms(2) by (fastforce simp: peek_Some)
qed

lemma skip_line_comment_moves:
  assumes "peek p = Some c" and "c \<noteq> NL"
  shows "moves p (skip_line_comment p) \<and> length (lp_rest (skip_line_comment p)) < length (lp_rest p)"
proof -
  have step: "skip_line_comment p = skip_line_comment (advance p)"
    using assms by (simp add: skip_line_comment_def skip_while.simps [of _ p])
  have "moves (advance p) (skip_line_comment (advance p))"
    by (simp add: skip_line_comment_def skip_while_moves)
  then have "length (lp_rest (skip_line_comment p)) < length (lp_rest p)"
    using moves_shorter assms(1) unfolding step by (fastforce simp: peek_Some)
  then show ?thesis by (simp add: skip_line_comment_def skip_while_moves)
qed

lemma spaces_after_moves: "moves p (spaces_after p)"
  by (simp add: spaces_after_def skip_while_moves)

text \<open>A blank line is not empty: the loop over the lines ends.\<close>

lemma line_rest_cases:
  obtains "line_rest n b p = LsContent n p" | "line_rest n b p = LsBlank (skip_char NL (skip_char CR p))"
    and "b \<or> peek p \<in> {Some NL, Some CR, None}"
  by (cases "b \<or> peek p \<in> {Some NL, Some CR, None}") (auto simp: line_rest_def)

lemma skip_line_end:
  "moves p (skip_char NL (skip_char CR p))"
  "peek p \<in> {Some NL, Some CR} \<Longrightarrow> length (lp_rest (skip_char NL (skip_char CR p))) < length (lp_rest p)"
  using moves_trans [OF skip_char_moves skip_char_moves] by (auto simp: skip_char_def peek_Some)

definition line_scan_pos :: "LineScan \<Rightarrow> LexerPos" where
  "line_scan_pos l = (case l of LsEnd p \<Rightarrow> p | LsBlank p \<Rightarrow> p | LsMid p \<Rightarrow> p | LsContent _ p \<Rightarrow> p)"

lemma scan_line_start_moves:
  assumes "scan_line_start p0 = Ok l"
  shows "moves p0 (line_scan_pos l) \<and> (\<forall>q. l = LsBlank q \<longrightarrow> length (lp_rest q) < length (lp_rest p0))"
proof -
  define p where "p = skip_char CR (spaces_after p0)"
  define n where "n = length (lp_rest p0) - length (lp_rest (spaces_after p0))"
  have start: "moves p0 p" unfolding p_def using moves_trans [OF spaces_after_moves skip_char_moves] .
  have comment: ?thesis
    if "moves p r" and "length (lp_rest r) < length (lp_rest p)" and "l = line_rest n True r" for r
  proof -
    have "l = LsBlank (skip_char NL (skip_char CR r))" using that(3) by (simp add: line_rest_def)
    then show ?thesis
      using moves_trans [OF start moves_trans [OF that(1) skip_line_end(1)]]
        moves_shorter [OF skip_line_end(1) [of r]] moves_shorter [OF start] that(2)
      by (simp add: line_scan_pos_def)
  qed
  show ?thesis
  proof (cases "peek p")
    case None
    then show ?thesis using assms start
      by (auto simp: scan_line_start_def Let_def p_def [symmetric] line_scan_pos_def split: if_splits)
  next
    case (Some c)
    show ?thesis
    proof (cases "c = ch CHR ''/'' \<and> peek_next p = Some (ch CHR ''*'')")
      case True
      then obtain q where q: "skip_block_comment p = Ok q"
        using assms Some
        by (auto simp: scan_line_start_def Let_def p_def [symmetric] split: if_splits sum.splits)
      define r where "r = skip_char CR (skip_whitespace_inline q)"
      have "moves q r" unfolding r_def
        by (rule moves_trans [OF _ skip_char_moves]) (simp add: skip_whitespace_inline_def skip_while_moves)
      then have r: "moves p r" "length (lp_rest r) < length (lp_rest p)"
        using skip_block_comment_moves [OF q Some] True moves_trans [of p q r] moves_shorter [of q r] by auto
      have "l = line_rest n True r \<or> l = LsMid r"
        using assms Some True q
        by (auto simp: scan_line_start_def Let_def p_def [symmetric] n_def [symmetric] r_def [symmetric]
            split: if_splits)
      then show ?thesis
        using comment [OF r] moves_trans [OF start r(1)] by (auto simp: line_scan_pos_def)
    next
      case nb: False
      show ?thesis
      proof (cases "c = ch CHR ''/'' \<and> peek_next p = Some (ch CHR ''/'')")
        case True
        then have "l = line_rest n True (skip_line_comment p)"
          using assms Some
          by (auto simp: scan_line_start_def Let_def p_def [symmetric] n_def [symmetric] split: if_splits)
        moreover have "moves p (skip_line_comment p)"
          "length (lp_rest (skip_line_comment p)) < length (lp_rest p)"
          using skip_line_comment_moves [OF Some] True by simp_all
        ultimately show ?thesis using comment by blast
      next
        case False
        then have l: "l = line_rest n False p"
          using assms Some nb
          by (auto simp: scan_line_start_def Let_def p_def [symmetric] n_def [symmetric] split: if_splits)
        show ?thesis
        proof (cases rule: line_rest_cases [of n False p])
          case 1
          then show ?thesis using l start by (simp add: line_scan_pos_def)
        next
          case 2
          then have "length (lp_rest (skip_char NL (skip_char CR p))) < length (lp_rest p)"
            using Some skip_line_end(2) [of p] by simp
          then show ?thesis
            using l 2 moves_trans [OF start skip_line_end(1)] moves_shorter [OF start]
            by (auto simp: line_scan_pos_def)
        qed
      qed
    qed
  qed
qed

function line_start_loop :: "LexerPos \<Rightarrow> LexerMode \<Rightarrow> LexerAcc \<Rightarrow> LexerError + LexerState" where
  "line_start_loop p mode acc =
     (case scan_line_start p of
        Err e \<Rightarrow> Err e
      | Ok l \<Rightarrow>
          (case l of
             LsEnd q \<Rightarrow> Ok (StDone (Ok (advance_to_done q mode acc)))
           | LsBlank q \<Rightarrow> line_start_loop q mode acc
           | LsMid q \<Rightarrow> Ok (StDispatch q mode False acc)
           | LsContent n q \<Rightarrow> at_content n q mode acc))"
  by pat_completeness auto
termination
  by (relation "measure (\<lambda>(p, mode, acc). length (lp_rest p))") (auto dest: scan_line_start_moves)

declare line_start_loop.simps [simp del]

text \<open>One step of \<open>Dispatch\<close>, the position being at the character it dispatches on.\<close>

definition dispatch_char ::
    "(uchar \<Rightarrow> bool) \<Rightarrow> LexerPos \<Rightarrow> uchar \<Rightarrow> LexerMode \<Rightarrow> LexerAcc \<Rightarrow> LexerError + LexerState" where
  "dispatch_char uni p c mode acc =
     (if c = NL then
        Ok (StLineStart (advance p) mode True (push_token
          \<lparr>tk_kind = Pun PNewline, tk_line = lp_line p, tk_col = lp_col p,
           tk_end_line = lp_line (advance p), tk_end_col = lp_col (advance p)\<rparr> acc))
      else if c = BSL then
        (let q = skip_whitespace_inline (advance p)
         in if peek q = Some NL then Ok (StLineStart (advance q) mode True acc)
            else Err (UnexpectedCharacter BSL (lp_line p) (lp_col p)))
      else if c = ch CHR ''/'' \<and> peek_next p = Some (ch CHR ''*'') then
        (case skip_block_comment p of
           Err e \<Rightarrow> Err e | Ok q \<Rightarrow> Ok (StDispatch q mode False acc))
      else if c = ch CHR ''/'' \<and> peek_next p = Some (ch CHR ''/'')
        \<or> c = ch CHR ''#'' \<and> peek_next p \<noteq> Some (ch CHR ''['')
      then Ok (StLineStart (skip_line_comment p) mode True acc)
      else
        (case lex_scan_token uni p c (lp_line p) (lp_col p) of
           Err e \<Rightarrow> Err e
         | Ok (q, k) \<Rightarrow>
             Ok (StLineStart q mode False (push_token
               \<lparr>tk_kind = k, tk_line = lp_line p, tk_col = lp_col p,
                tk_end_line = lp_line q, tk_end_col = lp_col q\<rparr> acc))))"

fun transition :: "(uchar \<Rightarrow> bool) \<Rightarrow> LexerState \<Rightarrow> LexerEvent \<Rightarrow> LexerError + LexerState" where
  "transition uni (StStart p mode b acc) EvStep = Ok (StLineStart (skip_prologue p) mode True acc)"
| "transition uni (StLineStart p mode b acc) EvStep =
     (if \<not> b then Ok (StDispatch p mode False acc) else line_start_loop p mode acc)"
| "transition uni (StDispatch p0 mode b acc) EvStep =
     (let p = skip_whitespace_inline p0
      in case peek p of
           None \<Rightarrow> Ok (StDone (Ok (advance_to_done (advance p) mode acc)))
         | Some c \<Rightarrow> dispatch_char uni p c mode acc)"
| "transition uni (StDone r) EvStep = Ok (StDone r)"
| "transition uni (StStart p mode b acc) EvComplete = Ok (StDone (Ok acc))"
| "transition uni (StLineStart p mode b acc) EvComplete = Ok (StDone (Ok acc))"
| "transition uni (StDispatch p mode b acc) EvComplete = Ok (StDone (Ok acc))"
| "transition uni (StDone r) EvComplete = Ok (StDone r)"

text \<open>The driver; \<open>None\<close> would be a run that never reaches \<open>Done\<close>.\<close>

partial_function (option) tokenize_loop ::
    "(uchar \<Rightarrow> bool) \<Rightarrow> LexerState \<Rightarrow> (LexerError + Token list) option" where
  "tokenize_loop uni s =
     (case transition uni s EvStep of
        Err e \<Rightarrow> Some (Err e)
      | Ok s' \<Rightarrow>
          (case s' of
             StDone r \<Rightarrow> Some (case r of Err e \<Rightarrow> Err e | Ok acc \<Rightarrow> Ok (la_tokens acc))
           | _ \<Rightarrow> tokenize_loop uni s'))"

declare tokenize_loop.simps [code]

definition flow_tokenize :: "(uchar \<Rightarrow> bool) \<Rightarrow> utext \<Rightarrow> LexerMode \<Rightarrow> (LexerError + Token list) option" where
  "flow_tokenize uni source mode = tokenize_loop uni (state_new source mode)"

end
