(* ===== verification/Mimi_LexerReads.thy ===== *)
theory Mimi_LexerReads
  imports Mimi_LexerFlow
begin

text \<open>
  What every scanner of the lexer reads: the characters between its first and its last position,
  and how the text it returns is spelled by them. Every token reads at least one character.
\<close>

section \<open>Reading\<close>

definition reads :: "LexerPos \<Rightarrow> utext \<Rightarrow> LexerPos \<Rightarrow> bool" where
  "reads p w q \<longleftrightarrow> moves p q \<and> lp_rest p = w @ lp_rest q"

lemma reads_refl [simp]: "reads p [] p"
  by (simp add: reads_def)

lemma reads_first: "peek p = Some c \<Longrightarrow> reads (advance p) w q \<Longrightarrow> reads p (c # w) q"
  by (auto simp: reads_def peek_Some intro: moves_first)

lemma reads_trans: "reads p l q \<Longrightarrow> reads q m r \<Longrightarrow> reads p (l @ m) r"
  by (auto simp: reads_def intro: moves_trans)

lemma reads_advance: "peek p = Some c \<Longrightarrow> reads p [c] (advance p)"
  by (rule reads_first) simp_all

lemma reads_moves: "moves p q \<Longrightarrow> \<exists>w. reads p w q"
proof (induction rule: moves.induct)
  case (moves_advance p q c)
  then show ?case using reads_trans reads_advance by blast
qed (use reads_refl in blast)

lemma reads_unique: "reads p l q \<Longrightarrow> reads p m q \<Longrightarrow> l = m"
  by (simp add: reads_def)

lemma reads_two:
  "peek p = Some c \<Longrightarrow> peek_next p = Some d \<Longrightarrow> reads p [c, d] (advance (advance p))"
  by (rule reads_first, assumption) (auto simp: peek_Some peek_next_def intro: reads_advance split: list.splits)

text \<open>Scanners that collect what they read.\<close>

lemma skip_while_reads:
  "\<exists>w. reads p w (skip_while P p) \<and> (\<forall>c \<in> set w. P c)
    \<and> (\<forall>c. peek (skip_while P p) = Some c \<longrightarrow> \<not> P c)"
proof (induction P p rule: skip_while.induct)
  case (1 P p)
  show ?case
  proof (cases "peek p")
    case (Some c)
    show ?thesis
    proof (cases "P c")
      case True
      obtain w where w: "reads (advance p) w (skip_while P (advance p))" "\<forall>c \<in> set w. P c"
        "\<forall>c. peek (skip_while P (advance p)) = Some c \<longrightarrow> \<not> P c"
        using 1 [OF Some True] by blast
      have "skip_while P p = skip_while P (advance p)" by (simp add: Some True skip_while.simps [of P p])
      then show ?thesis using w True reads_first [OF Some w(1)] by (intro exI [of _ "c # w"]) simp
    next
      case False
      then show ?thesis by (subst (1 2) skip_while.simps) (auto simp: Some skip_while.simps intro!: exI [of _ "[]"])
    qed
  qed (auto simp: skip_while.simps intro!: exI [of _ "[]"])
qed

lemma take_while_reads:
  "\<exists>w. take_while P p s = (q, t) \<longrightarrow> t = s @ w \<and> reads p w q \<and> (\<forall>c \<in> set w. P c)
    \<and> (\<forall>c. peek q = Some c \<longrightarrow> \<not> P c)"
proof (induction P p s rule: take_while.induct)
  case (1 P p s)
  show ?case
  proof (cases "peek p")
    case (Some c)
    show ?thesis
    proof (cases "P c")
      case True
      have step: "take_while P p s = take_while P (advance p) (s @ [c])"
        by (simp add: Some True take_while.simps [of P p])
      from 1 [OF Some True] obtain w where
        "take_while P (advance p) (s @ [c]) = (q, t) \<longrightarrow> t = (s @ [c]) @ w \<and>
          reads (advance p) w q \<and> (\<forall>c \<in> set w. P c) \<and> (\<forall>c. peek q = Some c \<longrightarrow> \<not> P c)" by blast
      then show ?thesis
        using reads_first [OF Some] True unfolding step by (intro exI [of _ "c # w"]) auto
    next
      case False
      then show ?thesis
        using Some by (intro exI [of _ "[]"]) (auto simp: take_while.simps [of P p])
    qed
  qed (auto simp: take_while.simps [of P p] intro!: exI [of _ "[]"])
qed

lemma take_hex_reads:
  "take_hex n p s = (q, t) \<Longrightarrow> \<exists>w. t = s @ w \<and> reads p w q"
proof (induction n p s rule: take_hex.induct)
  case (2 n p s)
  show ?case
  proof (cases "peek p")
    case (Some c)
    show ?thesis
    proof (cases "is_ascii_hexdigit c")
      case True
      then show ?thesis using 2 Some reads_first [OF Some] by fastforce
    qed (use 2 Some in auto)
  qed (use 2 in auto)
qed auto

lemma unicode_digits_reads:
  assumes "unicode_digits col p = Ok (q, code)"
  shows "reads p (if peek p = Some (ch CHR ''{'') then ch CHR ''{'' # code @ [ch CHR ''}''] else code) q"
proof (cases "peek p = Some (ch CHR ''{'')")
  case True
  obtain r c where r: "take_while hex_or_underscore (advance p) [] = (r, c)" by (rule prod.exhaust)
  with True assms have q: "q = advance r" "c = code" "peek r = Some (ch CHR ''}'')"
    by (auto simp: unicode_digits_def split: if_splits)
  have "reads (advance p) code r"
    using take_while_reads [of hex_or_underscore "advance p" "[]" r c] r q by auto
  from reads_first [OF True reads_trans [OF this reads_advance [OF q(3)]]] show ?thesis
    using True q by simp
next
  case False
  obtain r c where r: "take_hex 4 p [] = (r, c)" by (rule prod.exhaust)
  with False assms have "q = r" "c = code" by (auto simp: unicode_digits_def split: if_splits)
  then show ?thesis using take_hex_reads [OF r] False by auto
qed

lemma quoted_loop_reads: "quoted_loop quote p s = (q, t) \<Longrightarrow> \<exists>w. t = s @ w \<and> reads p w q"
proof (induction quote p s rule: quoted_loop.induct)
  case (1 quote p s)
  show ?case
  proof (cases "peek p")
    case None
    then show ?thesis using "1.prems" by (auto simp: quoted_loop.simps)
  next
    case (Some c)
    show ?thesis
    proof (cases "c = BSL")
      case True
      show ?thesis
      proof (cases "peek (advance p)")
        case None
        then have "quoted_loop quote (advance p) (s @ [c]) = (q, t)"
          using "1.prems" Some True by (simp add: quoted_loop.simps [of quote p])
        then show ?thesis using "1.IH"(1) [OF Some True None] reads_first [OF Some] by fastforce
      next
        case (Some e)
        then have "quoted_loop quote (advance (advance p)) (s @ [c, e]) = (q, t)"
          using "1.prems" \<open>peek p = Some c\<close> True by (simp add: quoted_loop.simps [of quote p])
        then show ?thesis
          using "1.IH"(2) [OF \<open>peek p = Some c\<close> True Some]
            reads_first [OF \<open>peek p = Some c\<close> reads_first [OF Some]] by fastforce
      qed
    next
      case False
      then show ?thesis
        using "1.prems" "1.IH"(3) [OF Some False] Some reads_first [OF Some] reads_advance [OF Some]
        by (fastforce simp: quoted_loop.simps [of quote p] split: if_splits)
    qed
  qed
qed

lemma interpolation_loop_reads:
  "interpolation_loop depth p s = Ok (q, t) \<Longrightarrow> \<exists>w. t = s @ w \<and> reads p w q"
proof (induction depth p s rule: interpolation_loop.induct)
  case (1 depth p s)
  show ?case
  proof (cases "peek p")
    case None
    then show ?thesis using "1.prems" by (auto simp: interpolation_loop.simps)
  next
    case (Some c)
    show ?thesis
    proof (cases "c = DQ \<or> c = SQ")
      case True
      obtain r u where r: "quoted_loop c (advance p) (s @ [c]) = (r, u)" by (rule prod.exhaust)
      then have "interpolation_loop depth r u = Ok (q, t)"
        using "1.prems" Some True by (auto simp: interpolation_loop.simps [of depth p])
      from "1.IH"(1) [OF Some True r [symmetric] this] obtain l where
        "t = u @ l" "reads r l q" by blast
      moreover from quoted_loop_reads [OF r] obtain m where "u = s @ [c] @ m" "reads (advance p) m r" by auto
      ultimately show ?thesis using reads_first [OF Some reads_trans] by fastforce
    next
      case False
      then show ?thesis
        using "1.prems" "1.IH"(2-) Some reads_first [OF Some] reads_advance [OF Some]
        by (fastforce simp: interpolation_loop.simps [of depth p] split: if_splits)
    qed
  qed
qed

lemma fstring_escape_reads:
  assumes "fstring_escape p = Ok (q, t)"
  shows "\<exists>w. t = BSL # w \<and> reads p w q"
proof -
  obtain c where c: "peek p = Some c" using assms by (cases "peek p") (auto simp: fstring_escape_def)
  obtain r h where r: "take_hex 2 (advance p) [] = (r, h)" by (rule prod.exhaust)
  note facts = assms c r fstring_escape_def
  consider (simple) "t = [BSL, c]" "q = advance p"
    | (hex) "c = ch CHR ''x''" "q = r" "t = [BSL, ch CHR ''x''] @ h"
    | (uni) code where "c = ch CHR ''u''" "unicode_digits (lp_col p) (advance p) = Ok (q, code)"
        "t = [BSL, ch CHR ''u''] @ (if peek (advance p) = Some (ch CHR ''{'')
            then ch CHR ''{'' # code @ [ch CHR ''}''] else code)"
  proof (cases "c \<in> {ch CHR ''n'', ch CHR ''t'', ch CHR ''r'', BSL, DQ, ch CHR ''{'', ch CHR ''}'', ch CHR ''0''}")
    case True
    then have "fstring_escape p = Ok (advance p, [BSL, c])"
      unfolding fstring_escape_def c option.case by (rule if_P)
    then show ?thesis using assms simple by simp
  next
    case False
    show ?thesis
    proof (cases "c = ch CHR ''x''")
      case True
      then show ?thesis using assms c r hex by (auto simp: fstring_escape_def split: if_splits)
    next
      case nx: False
      then have "c = ch CHR ''u''" using assms c False by (auto simp: fstring_escape_def split: if_splits)
      then show ?thesis using assms c uni by (auto simp: fstring_escape_def split: sum.splits)
    qed
  qed
  then show ?thesis
  proof cases
    case simple
    then show ?thesis using reads_advance [OF c] by auto
  next
    case hex
    then show ?thesis using take_hex_reads [OF r] reads_first [OF c] by auto
  next
    case uni
    then show ?thesis using unicode_digits_reads [OF uni(2)] reads_first [OF c] by (auto split: if_splits)
  qed
qed

lemma fstring_loop_reads: "fstring_loop p s = Ok (q, t) \<Longrightarrow> \<exists>w. t = s @ w \<and> reads p (w @ [DQ]) q"
proof (induction p s rule: fstring_loop.induct)
  case (1 p s)
  show ?case
  proof (cases "peek p")
    case None
    then show ?thesis using "1.prems" by (simp add: fstring_loop.simps)
  next
    case (Some c)
    consider (stop) "c = DQ" | (esc) r u where "c = BSL" "c \<noteq> DQ" "fstring_escape (advance p) = Ok (r, u)"
        "fstring_loop r (s @ u) = Ok (q, t)"
      | (interp) r u where "c = ch CHR ''{''" "c \<noteq> DQ" "c \<noteq> BSL"
        "interpolation_loop 1 (advance p) (s @ [c]) = Ok (r, u)" "fstring_loop r u = Ok (q, t)"
      | (other) "c \<noteq> DQ" "c \<noteq> BSL" "c \<noteq> ch CHR ''{''" "fstring_loop (advance p) (s @ [c]) = Ok (q, t)"
      using "1.prems" Some
      by (simp add: fstring_loop.simps [of p] split: if_splits sum.splits) (auto split: prod.splits)
    then show ?thesis
    proof cases
      case stop
      then show ?thesis using "1.prems" Some reads_advance [OF Some] by (auto simp: fstring_loop.simps [of p])
    next
      case esc
      from "1.IH"(1) [OF Some esc(2,1,3) refl esc(4)] fstring_escape_reads [OF esc(3)]
      show ?thesis using reads_first [OF Some reads_trans] esc(1) by fastforce
    next
      case interp
      from "1.IH"(2) [OF Some interp(2,3,1,4) refl interp(5)] interpolation_loop_reads [OF interp(4)]
      show ?thesis using reads_first [OF Some reads_trans] by fastforce
    next
      case other
      from "1.IH"(3) [OF Some other] show ?thesis using reads_first [OF Some] by fastforce
    qed
  qed
qed

lemma string_loop_reads: "string_loop p s = Ok (q, t) \<Longrightarrow> \<exists>w. reads p (w @ [DQ]) q"
proof (induction p s rule: string_loop.induct)
  case (1 p s)
  show ?case
  proof (cases "peek p")
    case None
    then show ?thesis using "1.prems" by (simp add: string_loop.simps)
  next
    case (Some c)
    consider (stop) "c = DQ" "q = advance p" | (esc) r u where "c = BSL" "c \<noteq> DQ"
        "string_escape (advance p) = Ok (r, u)" "string_loop r (s @ u) = Ok (q, t)"
      | (other) "c \<noteq> DQ" "c \<noteq> BSL" "string_loop (advance p) (s @ [c]) = Ok (q, t)"
      using "1.prems" Some
      by (simp add: string_loop.simps [of p] split: if_splits sum.splits) (auto split: prod.splits)
    then show ?thesis
    proof cases
      case stop
      then show ?thesis using reads_advance [OF Some] by (intro exI [of _ "[]"]) simp
    next
      case esc
      from "1.IH"(1) [OF Some esc(2,1,3) refl esc(4)] reads_moves [OF string_escape_moves [OF esc(3)]]
      obtain w m where "reads r (w @ [DQ]) q" "reads (advance p) m r" by blast
      from reads_first [OF Some reads_trans [OF this(2,1)]] show ?thesis
        by (intro exI [of _ "c # m @ w"]) simp
    next
      case other
      from "1.IH"(2) [OF Some other] obtain w where "reads (advance p) (w @ [DQ]) q" by blast
      from reads_first [OF Some this] show ?thesis by (intro exI [of _ "c # w"]) simp
    qed
  qed
qed

section \<open>Numbers\<close>

lemma radix_loop_reads:
  "radix_loop digit p s = Ok (q, t) \<Longrightarrow> \<exists>w. t = s @ w \<and> reads p w q"
proof (induction "length (lp_rest p)" arbitrary: p s rule: less_induct)
  case less
  show ?case
  proof (cases "peek p")
    case None
    then show ?thesis using less.prems by (auto simp: radix_loop.simps)
  next
    case (Some c)
    have "q = p \<and> t = s \<or> (\<exists>g::bool. radix_loop digit (advance p) (s @ [c]) = Ok (q, t))"
      using less.prems Some by (auto simp: radix_loop.simps [of digit p] split: if_splits)
    then show ?thesis
      using less.hyps [OF advance_shorter [OF Some]] reads_first [OF Some] by fastforce
  qed
qed

lemma decimal_loop_reads:
  "decimal_loop is_float p s = Ok (f, q, t) \<Longrightarrow> \<exists>w. t = s @ w \<and> reads p w q"
proof (induction "length (lp_rest p)" arbitrary: is_float p s rule: less_induct)
  case less
  show ?case
  proof (cases "peek p")
    case None
    then show ?thesis using less.prems by (auto simp: decimal_loop.simps)
  next
    case (Some c)
    have "q = p \<and> t = s \<or> (\<exists>g. decimal_loop g (advance p) (s @ [c]) = Ok (f, q, t))"
      using less.prems Some by (auto simp: decimal_loop.simps [of is_float p] split: if_splits)
    then show ?thesis
      using less.hyps [OF advance_shorter [OF Some]] reads_first [OF Some] by fastforce
  qed
qed

lemma exponent_loop_reads:
  "exponent_loop  p s = Ok (q, t) \<Longrightarrow> \<exists>w. t = s @ w \<and> reads p w q"
proof (induction "length (lp_rest p)" arbitrary: p s rule: less_induct)
  case less
  show ?case
  proof (cases "peek p")
    case None
    then show ?thesis using less.prems by (auto simp: exponent_loop.simps)
  next
    case (Some c)
    have "q = p \<and> t = s \<or> (\<exists>g::bool. exponent_loop  (advance p) (s @ [c]) = Ok (q, t))"
      using less.prems Some by (auto simp: exponent_loop.simps [of p] split: if_splits)
    then show ?thesis
      using less.hyps [OF advance_shorter [OF Some]] reads_first [OF Some] by fastforce
  qed
qed

lemma optional_sign_reads: "optional_sign p s = (q, t) \<Longrightarrow> \<exists>w. t = s @ w \<and> reads p w q"
  using reads_advance by (auto simp: optional_sign_def split: option.splits if_splits)

lemma scan_exponent_reads:
  assumes "scan_exponent is_float p s = Ok (f, q, t)"
  shows "\<exists>w. t = s @ w \<and> reads p w q"
proof (cases "peek p")
  case None
  then show ?thesis using assms by (auto simp: scan_exponent_def)
next
  case (Some c)
  obtain r u where r: "optional_sign (advance p) (s @ [c]) = (r, u)" by (rule prod.exhaust)
  consider "q = p" "t = s" | "exponent_loop r u = Ok (q, t)"
    using assms Some r by (auto simp: scan_exponent_def Let_def split: if_splits sum.splits)
  then show ?thesis
  proof cases
    case 2
    from exponent_loop_reads [OF 2] obtain w where "t = u @ w" "reads r w q" by blast
    moreover from optional_sign_reads [OF r] obtain m where "u = (s @ [c]) @ m" "reads (advance p) m r" by blast
    ultimately show ?thesis using reads_first [OF Some reads_trans] by fastforce
  qed auto
qed

text \<open>How a number is spelled: as it is kept, or with a capital letter in its radix prefix.\<close>

definition spells_int :: "utext \<Rightarrow> utext \<Rightarrow> bool" where
  "spells_int s w \<longleftrightarrow>
     w = s \<or> (\<exists>a b r. (a, b) \<in> {(CHR ''x'', CHR ''X''), (CHR ''b'', CHR ''B''), (CHR ''o'', CHR ''O'')}
       \<and> s = ch CHR ''0'' # ch a # r \<and> w = ch CHR ''0'' # ch b # r)"

lemma radix_number_reads:
  assumes "radix_number a digit p = Ok (q, k)" and "peek p = Some (ch CHR ''0'')"
    and "peek_next p = Some (ch a) \<or> peek_next p = Some (ch b)"
    and "(a, b) \<in> {(CHR ''x'', CHR ''X''), (CHR ''b'', CHR ''B''), (CHR ''o'', CHR ''O'')}"
  shows "\<exists>s w. k = TInt s \<and> spells_int s w \<and> w \<noteq> [] \<and> reads p w q"
proof -
  obtain s where s: "radix_loop digit (advance (advance p)) [ch CHR ''0'', ch a] = Ok (q, s)" "k = TInt s"
    using assms(1) by (auto simp: radix_number_def split: sum.splits)
  from radix_loop_reads [OF s(1)] obtain r where
    r: "s = ch CHR ''0'' # ch a # r" "reads (advance (advance p)) r q" by auto
  have "reads p (ch CHR ''0'' # c # r) q" if "peek_next p = Some c" for c
    using reads_trans [OF reads_two [OF assms(2) that] r(2)] by simp
  then show ?thesis using assms(3,4) r(1) s(2) by (auto simp: spells_int_def)
qed

lemma decimal_number_reads:
  assumes "decimal_number p = Ok (q, k)" and "peek p = Some c" and "is_ascii_digit c"
  shows "\<exists>s. (k = TInt s \<or> k = TFloat s) \<and> s \<noteq> [] \<and> reads p s q"
proof -
  obtain f r s g t where dec: "decimal_loop False p [] = Ok (f, r, s)"
    and ex: "scan_exponent f r s = Ok (g, q, t)" and k: "k = (if g then TFloat t else TInt t)"
    using assms(1) by (auto simp: decimal_number_def split: sum.splits)
  from decimal_loop_reads [OF dec] have s: "reads p s r" by simp
  from scan_exponent_reads [OF ex] obtain w where w: "t = s @ w" "reads r w q" by blast
  have "s \<noteq> []"
  proof -
    have "decimal_loop False (advance p) [c] = Ok (f, r, s)"
      using dec assms(2,3) by (simp add: decimal_loop.simps [of False p])
    from decimal_loop_reads [OF this] show ?thesis by auto
  qed
  then show ?thesis using k w reads_trans [OF s w(2)] by auto
qed

lemma scan_number_reads:
  assumes "scan_number p = Ok (q, k)" and "peek p = Some c" and "is_ascii_digit c"
  shows "\<exists>s w. (k = TInt s \<and> spells_int s w \<or> k = TFloat s \<and> w = s) \<and> w \<noteq> [] \<and> reads p w q"
proof -
  have dec: ?thesis if "decimal_number p = Ok (q, k)"
    using decimal_number_reads [OF that assms(2,3)] by (auto simp: spells_int_def)
  have radix: ?thesis
    if "radix_number a digit p = Ok (q, k)" "peek p = Some (ch CHR ''0'')"
      "peek_next p = Some (ch a) \<or> peek_next p = Some (ch b)"
      "(a, b) \<in> {(CHR ''x'', CHR ''X''), (CHR ''b'', CHR ''B''), (CHR ''o'', CHR ''O'')}" for a b digit
    using radix_number_reads [OF that] by blast
  show ?thesis
    using assms(1) dec radix [of "CHR ''x''" _ "CHR ''X''"] radix [of "CHR ''b''" _ "CHR ''B''"]
      radix [of "CHR ''o''" _ "CHR ''O''"]
    by (simp add: scan_number_def split: if_splits)
qed

section \<open>Tokens\<close>

definition spells :: "TokenKind \<Rightarrow> utext \<Rightarrow> bool" where
  "spells k w \<longleftrightarrow>
     (case k of
        TString _ \<Rightarrow> (\<exists>body. w = DQ # body @ [DQ])
      | TFString s \<Rightarrow> w = ch CHR ''f'' # DQ # s @ [DQ]
      | TInt s \<Rightarrow> spells_int s w
      | TUnit \<Rightarrow> w = ustr ''unit''
      | _ \<Rightarrow> w = source_text k)"

lemma keyword_spells: "spells (keyword_or_ident w) w"
proof (cases "map_of (map (\<lambda>(s, k). (ustr s, k)) keyword_table) w")
  case None
  then show ?thesis by (simp add: keyword_or_ident_def spells_def)
next
  case (Some k)
  then obtain s where "(s, k) \<in> set keyword_table" and w: "w = ustr s"
    by (auto dest!: map_of_SomeD)
  moreover have "\<forall>(s, k) \<in> set keyword_table. spells k (ustr s)"
    by (simp add: keyword_table_def spells_def)
  ultimately have "spells k w" by auto
  then show ?thesis by (simp add: keyword_or_ident_def Some)
qed

text \<open>The branches of an operator spell its kinds: decided on the table.\<close>

lemma operator_branches_spell:
  assumes "operator_branch c = Some (exts, k)"
  shows "spells k [c] \<and> (\<forall>(d, k') \<in> set exts. spells k' [c, ch d])"
proof -
  obtain a where a: "(a, exts, k) \<in> set operator_branches" "c = ch a"
    using assms by (auto simp: operator_branch_def dest!: map_of_SomeD)
  have "\<forall>(a, exts, k) \<in> set operator_branches.
      spells k [ch a] \<and> (\<forall>(d, k') \<in> set exts. spells k' [ch a, ch d])"
    by (simp add: operator_branches_def spells_def)
  with a show ?thesis by fastforce
qed

lemma extend_operator_reads:
  "extend_operator p exts k = (q, k') \<Longrightarrow>
     q = p \<and> k' = k \<or> (\<exists>d. (d, k') \<in> set exts \<and> reads p [ch d] q)"
proof (induction exts)
  case (Cons e exts)
  obtain d kd where e: "e = (d, kd)" by (cases e)
  show ?case
  proof (cases "peek p = Some (ch d)")
    case True
    then show ?thesis using Cons.prems reads_advance [OF True] by (auto simp: e)
  next
    case False
    then show ?thesis using Cons by (auto simp: e)
  qed
qed simp

lemma lex_scan_token_cases [consumes 2, case_names fstring string number ident dots op]:
  assumes "lex_scan_token uni p c line col = Ok (q, k)" and "peek p = Some c"
  obtains (fstring) s where "c = ch CHR ''f''" "peek_next p = Some DQ" "scan_fstring p = Ok (q, s)" "k = TFString s"
    | (string) s where "c = DQ" "scan_string p = Ok (q, s)" "k = TString s"
    | (number) "is_ascii_digit c" "scan_number p = Ok (q, k)"
    | (ident) name where "scan_ident uni (advance p) c = (q, name)" "k = keyword_or_ident name"
    | (dots) "c = ch CHR ''.''" "scan_dots (advance p) = (q, k)"
    | (op) exts k0 where "operator_branch c = Some (exts, k0)" "extend_operator (advance p) exts k0 = (q, k)"
  using assms by (auto simp: lex_scan_token_def split: if_splits sum.splits option.splits prod.splits)

text \<open>Every token is spelled by the characters it reads, at least one.\<close>

lemma lex_scan_token_reads:
  assumes "lex_scan_token uni p c line col = Ok (q, k)" and c: "peek p = Some c"
  shows "\<exists>w. w \<noteq> [] \<and> spells k w \<and> reads p w q"
proof -
  from assms show ?thesis
  proof (cases rule: lex_scan_token_cases)
    case (fstring s)
    have "fstring_loop (advance (advance p)) [] = Ok (q, s)"
      using fstring(3) by (simp add: scan_fstring_def)
    from fstring_loop_reads [OF this] have "reads (advance (advance p)) (s @ [DQ]) q" by simp
    from reads_trans [OF reads_two [OF c fstring(2)] this] show ?thesis
      using fstring by (auto simp: spells_def)
  next
    case (string s)
    have "string_loop (advance p) [] = Ok (q, s)" using string(2) by (simp add: scan_string_def)
    from string_loop_reads [OF this] obtain w where "reads (advance p) (w @ [DQ]) q" by blast
    from reads_first [OF c this] show ?thesis using string by (auto simp: spells_def)
  next
    case number
    from scan_number_reads [OF number(2) c number(1)] show ?thesis by (auto simp: spells_def)
  next
    case (ident name)
    have "\<exists>w. name = c # w \<and> reads (advance p) w q"
      using ident(1) take_while_reads [of "is_ident_char uni" "advance p" "[c]" q name]
      by (auto simp: scan_ident_def)
    then obtain w where "name = c # w" "reads (advance p) w q" by blast
    then show ?thesis using reads_first [OF c] keyword_spells [of name] ident(2) by auto
  next
    case dots
    have "\<exists>w. reads (advance p) w q \<and> spells k (ch CHR ''.'' # w)"
      using dots(2) reads_two [of "advance p"] reads_advance [of "advance p"] reads_refl
      by (fastforce simp: scan_dots_def spells_def split: if_splits)
    then show ?thesis using reads_first [OF c] dots(1) by blast
  next
    case (op exts k0)
    from extend_operator_reads [OF op(2)] show ?thesis
    proof
      assume "q = advance p \<and> k = k0"
      then show ?thesis using operator_branches_spell [OF op(1)] reads_advance [OF c] by blast
    next
      assume "\<exists>d. (d, k) \<in> set exts \<and> reads (advance p) [ch d] q"
      then obtain d where d: "(d, k) \<in> set exts" "reads (advance p) [ch d] q" by blast
      then have "spells k [c, ch d]" using operator_branches_spell [OF op(1)] by blast
      then show ?thesis using reads_first [OF c d(2)] by blast
    qed
  qed
qed

end
