(* ===== verification/Mimi_LexerLaws.thy ===== *)
theory Mimi_LexerLaws
  imports Mimi_LexerReads
begin

text \<open>
  The lexer loses nothing and always ends: the source is the concatenation, in order, of what its
  tokens are spelled by and of trivia (blanks, comments, line continuations), every token carries
  the positions of its two ends, and indentation tokens are balanced.
\<close>

section \<open>Trivia\<close>

text \<open>The rest of a block comment at a nesting depth.\<close>

inductive comment_rest :: "nat \<Rightarrow> utext \<Rightarrow> bool" where
  comment_end: "comment_rest 0 []"
| comment_close: "comment_rest d w \<Longrightarrow> comment_rest (Suc d) (ch CHR ''*'' # ch CHR ''/'' # w)"
| comment_open:
    "comment_rest (Suc (Suc d)) w \<Longrightarrow> comment_rest (Suc d) (ch CHR ''/'' # ch CHR ''*'' # w)"
| comment_char:
    "comment_rest (Suc d) w \<Longrightarrow> \<not> (c = ch CHR ''*'' \<and> take 1 w = [ch CHR ''/'']) \<Longrightarrow>
       \<not> (c = ch CHR ''/'' \<and> take 1 w = [ch CHR ''*'']) \<Longrightarrow> comment_rest (Suc d) (c # w)"

inductive trivia :: "utext \<Rightarrow> bool" where
  trivia_nil [simp]: "trivia []"
| trivia_blank: "c \<in> {SPACE, TAB, CR, NL} \<Longrightarrow> trivia [c]"
| trivia_line: "NL \<notin> set w \<Longrightarrow> trivia (ch CHR ''/'' # ch CHR ''/'' # w)"
| trivia_hash: "NL \<notin> set w \<Longrightarrow> take 1 w \<noteq> [ch CHR ''['' ] \<Longrightarrow> trivia (ch CHR ''#'' # w)"
| trivia_block: "comment_rest 1 w \<Longrightarrow> trivia (ch CHR ''/'' # ch CHR ''*'' # w)"
| trivia_continuation: "\<forall>c \<in> set w. is_inline_blank c \<Longrightarrow> trivia (BSL # w @ [NL])"
| trivia_append: "trivia v \<Longrightarrow> trivia w \<Longrightarrow> trivia (v @ w)"

lemma trivia_blanks: "\<forall>c \<in> set w. c \<in> {SPACE, TAB, CR, NL} \<Longrightarrow> trivia w"
proof (induction w)
  case (Cons c w)
  then show ?case using trivia_append [OF trivia_blank [of c]] by auto
qed simp

lemma skip_char_trivia:
  assumes "c \<in> {SPACE, TAB, CR, NL}"
  shows "\<exists>w. trivia w \<and> reads p w (skip_char c p)"
proof (cases "peek p = Some c")
  case True
  then show ?thesis
    using trivia_blank [OF assms] reads_advance [OF True] by (auto simp: skip_char_def)
next
  case False
  then show ?thesis by (intro exI [of _ "[]"]) (simp add: skip_char_def)
qed

lemma skip_blanks_trivia:
  assumes "\<And>c. P c \<Longrightarrow> c \<in> {SPACE, TAB, CR, NL}"
  shows "\<exists>w. trivia w \<and> reads p w (skip_while P p)"
proof -
  obtain w where w: "reads p w (skip_while P p)" "\<forall>c \<in> set w. P c"
    using skip_while_reads [of p P] by blast
  then have "trivia w" using assms by (intro trivia_blanks) blast
  with w(1) show ?thesis by blast
qed

lemma trivia_step:
  "\<exists>w. trivia w \<and> reads p w q \<Longrightarrow> \<exists>w. trivia w \<and> reads q w r \<Longrightarrow> \<exists>w. trivia w \<and> reads p w r"
  using trivia_append reads_trans by blast

lemma whitespace_trivia: "\<exists>w. trivia w \<and> reads p w (skip_whitespace_inline p)"
  unfolding skip_whitespace_inline_def by (rule skip_blanks_trivia) (auto simp: is_inline_blank_def)

lemma spaces_trivia: "\<exists>w. trivia w \<and> reads p w (spaces_after p)"
  unfolding spaces_after_def by (rule skip_blanks_trivia) auto

lemma line_comment_reads: "\<exists>w. reads p w (skip_line_comment p) \<and> NL \<notin> set w"
  using skip_while_reads [of p "\<lambda>c. c \<noteq> NL"] by (auto simp: skip_line_comment_def)

lemma line_comment_trivia:
  assumes "peek p = Some (ch CHR ''/'') \<and> peek_next p = Some (ch CHR ''/'')
    \<or> peek p = Some (ch CHR ''#'') \<and> peek_next p \<noteq> Some (ch CHR ''['')"
  shows "\<exists>w. trivia w \<and> reads p w (skip_line_comment p)"
proof -
  obtain c where c: "peek p = Some c" "c \<noteq> NL" using assms by auto
  obtain w where w: "reads p w (skip_line_comment p)" "NL \<notin> set w"
    using line_comment_reads by blast
  have "w \<noteq> []"
    using w(1) skip_line_comment_moves [OF c] by (auto simp: reads_def)
  then obtain v where v: "w = c # v" using w(1) c(1) by (cases w) (auto simp: reads_def peek_Some)
  have rest: "lp_rest p = c # v @ lp_rest (skip_line_comment p)" using w(1) v by (simp add: reads_def)
  have stop: "peek (skip_line_comment p) = Some d \<Longrightarrow> d = NL" for d
    using skip_while_reads [of p "\<lambda>c. c \<noteq> NL"] by (auto simp: skip_line_comment_def)
  have "trivia w"
    using assms
  proof
    assume slashes: "peek p = Some (ch CHR ''/'') \<and> peek_next p = Some (ch CHR ''/'')"
    have "v \<noteq> []"
    proof
      assume "v = []"
      then have "peek (skip_line_comment p) = Some (ch CHR ''/'')"
        using slashes rest by (auto simp: peek_next_def peek_def split: list.splits)
      from stop [OF this] show False by simp
    qed
    then obtain u where "v = ch CHR ''/'' # u"
      using slashes rest by (cases v) (auto simp: peek_next_def)
    then show ?thesis using trivia_line w(2) v c slashes by auto
  next
    assume hash: "peek p = Some (ch CHR ''#'') \<and> peek_next p \<noteq> Some (ch CHR ''['')"
    then have "take 1 v \<noteq> [ch CHR ''['']"
      using rest by (cases v) (auto simp: peek_next_def)
    then show ?thesis using trivia_hash w(2) v c hash by auto
  qed
  then show ?thesis using w(1) by blast
qed

lemma block_comment_reads:
  "block_comment_loop d p = Ok q \<Longrightarrow> \<exists>w. reads p w q \<and> comment_rest d w"
proof (induction d p rule: block_comment_loop.induct)
  case (1 d p)
  show ?case
  proof (cases d)
    case 0
    then show ?thesis
      using "1.prems" comment_end by (intro exI [of _ "[]"]) (simp add: block_comment_loop.simps)
  next
    case (Suc e)
    then obtain c where c: "peek p = Some c"
      using "1.prems" by (cases "peek p") (auto simp: block_comment_loop.simps)
    note loop = "1.prems" [unfolded block_comment_loop.simps [of d p]]
    have next_is: "take 1 w = [x] \<Longrightarrow> reads (advance p) w q \<Longrightarrow> peek (advance p) = Some x" for w x
      by (cases w) (auto simp: reads_def)
    consider (close) "c = ch CHR ''*''" "peek (advance p) = Some (ch CHR ''/'')"
        "block_comment_loop e (advance (advance p)) = Ok q"
      | (opened) "c = ch CHR ''/''" "peek (advance p) = Some (ch CHR ''*'')" "d < MAX_BLOCK_COMMENT_DEPTH"
        "block_comment_loop (Suc (Suc e)) (advance (advance p)) = Ok q"
      | (other) "\<not> (c = ch CHR ''*'' \<and> peek (advance p) = Some (ch CHR ''/''))"
        "\<not> (c = ch CHR ''/'' \<and> peek (advance p) = Some (ch CHR ''*''))"
        "block_comment_loop d (advance p) = Ok q"
      using loop c Suc by (auto split: if_splits)
    then show ?thesis
    proof cases
      case close
      then obtain w where "reads (advance (advance p)) w q" "comment_rest e w"
        using "1.IH"(1) c Suc by auto
      then show ?thesis
        using reads_first [OF c reads_first [OF close(2)]] comment_close close(1) Suc by blast
    next
      case opened
      then obtain w where "reads (advance (advance p)) w q" "comment_rest (Suc (Suc e)) w"
        using "1.IH"(3) c Suc by auto
      then show ?thesis
        using reads_first [OF c reads_first [OF opened(2)]] comment_open opened(1) Suc by blast
    next
      case other
      then obtain w where "reads (advance p) w q" "comment_rest (Suc e) w"
        using "1.IH"(2,4,5) c Suc by (cases "c = ch CHR ''*''"; cases "c = ch CHR ''/''") auto
      then show ?thesis
        using reads_first [OF c] comment_char other(1,2) next_is Suc by blast
    qed
  qed
qed

lemma block_comment_trivia:
  assumes "skip_block_comment p = Ok q" and "peek p = Some (ch CHR ''/'')"
    and "peek_next p = Some (ch CHR ''*'')"
  shows "\<exists>w. trivia w \<and> reads p w q"
proof -
  obtain w where w: "reads (advance (advance p)) w q" "comment_rest 1 w"
    using block_comment_reads [of 1 "advance (advance p)" q] assms(1)
    by (auto simp: skip_block_comment_def)
  from reads_trans [OF reads_two [OF assms(2,3)] w(1)] trivia_block [OF w(2)] show ?thesis by auto
qed

section \<open>Positions in the source\<close>

definition position_after :: "utext \<Rightarrow> nat \<times> nat" where
  "position_after w = foldl (\<lambda>(l, c) x. if x = NL then (l + 1, 1) else (l, c + 1)) (1, 1) w"

lemma position_after_Nil [simp]: "position_after [] = (1, 1)"
  by (simp add: position_after_def)

definition at :: "utext \<Rightarrow> utext \<Rightarrow> LexerPos \<Rightarrow> bool" where
  "at src pre p \<longleftrightarrow> src = pre @ lp_rest p \<and> position_after pre = (lp_line p, lp_col p)"

lemma at_moves: "moves p q \<Longrightarrow> at src pre p \<Longrightarrow> \<exists>w. at src (pre @ w) q \<and> reads p w q"
proof (induction rule: moves.induct)
  case (moves_refl p)
  then show ?case by (intro exI [of _ "[]"]) simp
next
  case (moves_advance p q c)
  then obtain w where w: "at src (pre @ w) q" "reads p w q" by blast
  have "at src (pre @ w @ [c]) (advance q)"
    using w(1) moves_advance.hyps(2)
    by (auto simp: at_def peek_Some position_after_def advance_def)
  moreover have "reads p (w @ [c]) (advance q)"
    by (rule reads_trans [OF w(2) reads_advance [OF moves_advance.hyps(2)]])
  ultimately show ?case by blast
qed

lemma at_reads: "reads p w q \<Longrightarrow> at src pre p \<Longrightarrow> at src (pre @ w) q"
  using at_moves reads_unique unfolding reads_def by (metis append_same_eq)

text \<open>
  The blanks a line starts with, up to an optional carriage return. A line starts behind a newline,
  a stray carriage return or a byte order mark.
\<close>

definition indented :: "utext \<Rightarrow> nat \<Rightarrow> bool" where
  "indented pre n \<longleftrightarrow>
     (\<exists>before cr. pre = before @ replicate n SPACE @ cr \<and> cr \<in> {[], [CR]}
       \<and> (before = [] \<or> last before \<in> {NL, CR, BOM}))"

text \<open>
  A prefix of the source laid out as tokens and trivia: what a token is spelled by stands between
  its positions; an indentation token has no text, and its column is the number of blanks its line
  starts with. A byte order mark may open the source.
\<close>

inductive laid_out :: "utext \<Rightarrow> Token list \<Rightarrow> bool" where
  laid_start: "laid_out [] []"
| laid_bom: "laid_out [BOM] []"
| laid_trivia: "laid_out pre ts \<Longrightarrow> trivia w \<Longrightarrow> laid_out (pre @ w) ts"
| laid_token:
    "laid_out pre ts \<Longrightarrow> spells (tk_kind t) w \<Longrightarrow> w \<noteq> [] \<Longrightarrow>
       position_after pre = (tk_line t, tk_col t) \<Longrightarrow>
       position_after (pre @ w) = (tk_end_line t, tk_end_col t) \<Longrightarrow> laid_out (pre @ w) (ts @ [t])"
| laid_indent:
    "laid_out pre ts \<Longrightarrow> k \<in> {PIndent, PDedent} \<Longrightarrow> fst (position_after pre) = line \<Longrightarrow>
       indented pre col \<Longrightarrow> laid_out pre (ts @ [mark k line col])"

text \<open>The whole source: its last tokens close the open levels and stand at its end.\<close>

definition laid_out_to_end :: "utext \<Rightarrow> Token list \<Rightarrow> bool" where
  "laid_out_to_end src ts \<longleftrightarrow>
     (\<exists>body n line col. laid_out src body \<and> position_after src = (line, col)
       \<and> ts = body @ replicate n (mark PDedent line col) @ [mark PEof line col])"

definition placed :: "utext \<Rightarrow> LexerPos \<Rightarrow> Token list \<Rightarrow> bool" where
  "placed src p ts \<longleftrightarrow> (\<exists>pre. at src pre p \<and> laid_out pre ts)"

lemma placed_trivia:
  assumes "placed src p ts" and "\<exists>w. trivia w \<and> reads p w q"
  shows "placed src q ts"
  using assms laid_trivia at_reads unfolding placed_def by blast

lemma placed_token:
  assumes "placed src p ts" and "reads p w q" and "spells k w" and "w \<noteq> []"
  shows "placed src q (ts @ [\<lparr>tk_kind = k, tk_line = lp_line p, tk_col = lp_col p,
    tk_end_line = lp_line q, tk_end_col = lp_col q\<rparr>])"
proof -
  obtain pre where pre: "at src pre p" "laid_out pre ts" using assms(1) by (auto simp: placed_def)
  have q: "at src (pre @ w) q" by (rule at_reads [OF assms(2) pre(1)])
  have "laid_out (pre @ w) (ts @ [\<lparr>tk_kind = k, tk_line = lp_line p, tk_col = lp_col p,
    tk_end_line = lp_line q, tk_end_col = lp_col q\<rparr>])"
    using pre q assms(3,4) by (intro laid_token) (simp_all add: at_def)
  with q show ?thesis by (auto simp: placed_def)
qed

lemma placed_indents:
  assumes "at src pre p" and "laid_out pre ts" and "k \<in> {PIndent, PDedent}" and "indented pre col"
  shows "laid_out pre (ts @ replicate n (mark k (lp_line p) col))"
proof (induction n)
  case (Suc n)
  have "fst (position_after pre) = lp_line p" using assms(1) by (simp add: at_def)
  from laid_indent [OF Suc.IH assms(3) this assms(4)] show ?case
    by (simp add: replicate_append_same [symmetric])
qed (use assms(2) in simp)

section \<open>What the steps keep\<close>

lemma done_placed:
  assumes "placed src p (la_tokens acc)" and "lp_rest p = []"
  shows "laid_out_to_end src (la_tokens (advance_to_done p mode acc))"
proof -
  have "laid_out src (la_tokens acc)" "position_after src = (lp_line p, lp_col p)"
    using assms by (auto simp: placed_def at_def)
  moreover have "\<exists>n. la_tokens (advance_to_done p mode acc)
      = la_tokens acc @ replicate n (mark PDedent (lp_line p) (lp_col p)) @ [mark PEof (lp_line p) (lp_col p)]"
    by (cases "mode = Sketch")
      (auto simp: advance_to_done_def Let_def push_token_def push_marks_def intro: exI [of _ 0])
  ultimately show ?thesis unfolding laid_out_to_end_def by blast
qed

lemma apply_indent_placed:
  assumes "apply_indent n p acc = Ok acc'" and "at src pre p" and "laid_out pre (la_tokens acc)"
    and "indented pre n"
  shows "laid_out pre (la_tokens acc')"
proof -
  have "\<exists>k m. k \<in> {PIndent, PDedent} \<and> la_tokens acc' = la_tokens acc @ replicate m (mark k (lp_line p) n)"
  proof (cases "indent_top (la_indents acc) < n")
    case True
    then have "la_tokens acc' = la_tokens acc @ replicate 1 (mark PIndent (lp_line p) n)"
      using assms(1) by (auto simp: apply_indent_def Let_def push_token_def split: if_splits)
    then show ?thesis by blast
  next
    case False
    then have "\<exists>m. la_tokens acc' = la_tokens acc @ replicate m (mark PDedent (lp_line p) n)"
      using assms(1)
      by (auto simp: apply_indent_def Let_def push_marks_def split: if_splits prod.splits intro: exI [of _ 0])
    then show ?thesis by blast
  qed
  then show ?thesis using placed_indents [OF assms(2,3) _ assms(4)] by auto
qed

text \<open>Where the loop over the lines stands: at the start of a line, or before its end.\<close>

definition line_starts :: "utext \<Rightarrow> LexerPos \<Rightarrow> bool" where
  "line_starts pre p \<longleftrightarrow> pre = [] \<or> last pre \<in> {NL, CR, BOM} \<or> peek p \<in> {Some NL, None}"

definition line_placed :: "utext \<Rightarrow> LexerPos \<Rightarrow> Token list \<Rightarrow> bool" where
  "line_placed src p ts \<longleftrightarrow> (\<exists>pre. at src pre p \<and> laid_out pre ts \<and> line_starts pre p)"

lemma line_placed: "line_placed src p ts \<Longrightarrow> placed src p ts"
  by (auto simp: line_placed_def placed_def)

lemma line_end_starts:
  assumes "peek r \<in> {Some NL, Some CR, None}" and "q = skip_char NL (skip_char CR r)"
  shows "peek q = None \<or> (\<exists>w c. reads r (w @ [c]) q \<and> c \<in> {NL, CR})"
proof -
  have step: "skip_char c p = p \<or> reads p ([] @ [c]) (skip_char c p)" for c p
    using reads_advance [of p c] by (auto simp: skip_char_def)
  consider "peek r = None" | "peek r = Some NL" | "peek r = Some CR" using assms(1) by auto
  then show ?thesis
  proof cases
    case 2
    then have "q = advance r" by (simp add: assms(2) skip_char_def)
    then show ?thesis using reads_advance [OF 2] by (metis append_Nil insertI1)
  next
    case 3
    then have "skip_char CR r = advance r" by (simp add: skip_char_def)
    then have r: "reads r [CR] (skip_char CR r)" using reads_advance [OF 3] by simp
    from step [of NL "skip_char CR r"] show ?thesis
    proof
      assume "skip_char NL (skip_char CR r) = skip_char CR r"
      then show ?thesis using r assms(2) by (metis append_Nil insert_iff)
    next
      assume "reads (skip_char CR r) ([] @ [NL]) (skip_char NL (skip_char CR r))"
      from reads_trans [OF r this] show ?thesis unfolding assms(2) by (metis append_Nil insertI1)
    qed
  qed (simp add: assms(2) skip_char_def)
qed

lemma skip_line_comment_stops: "peek (skip_line_comment p) \<in> {Some NL, None}"
  using skip_while_reads [of p "\<lambda>c. c \<noteq> NL"] by (cases "peek (skip_line_comment p)") (auto simp: skip_line_comment_def)

text \<open>A line with content: the blanks before it; a blank line: what it ends with.\<close>

lemma line_scan_content:
  assumes "scan_line_start p0 = Ok (LsContent n q)"
  shows "\<exists>cr. reads p0 (replicate n SPACE @ cr) q \<and> cr \<in> {[], [CR]} \<and> peek q \<notin> {Some NL, None}"
proof -
  define p1 where "p1 = spaces_after p0"
  have q: "q = skip_char CR p1" "n = length (lp_rest p0) - length (lp_rest p1)" "peek q \<notin> {Some NL, None}"
    using assms by (auto simp: scan_line_start_def Let_def p1_def line_rest_def split: if_splits sum.splits)
  obtain w where w: "reads p0 w p1" "\<forall>c \<in> set w. c = SPACE"
    using skip_while_reads [of p0 "\<lambda>c. c = SPACE"] by (auto simp: p1_def spaces_after_def)
  have "w = replicate n SPACE"
    using w q(2) by (auto simp: reads_def intro: replicate_eqI)
  moreover have "\<exists>cr. reads p1 cr q \<and> cr \<in> {[], [CR]}"
  proof (cases "peek p1 = Some CR")
    case True
    then show ?thesis using reads_advance [OF True] by (auto simp: q(1) skip_char_def)
  next
    case False
    then show ?thesis by (intro exI [of _ "[]"]) (simp add: q(1) skip_char_def)
  qed
  ultimately show ?thesis using w(1) q(3) reads_trans by blast
qed

lemma line_scan_blank:
  assumes "scan_line_start p0 = Ok (LsBlank q)"
  shows "\<exists>r. peek r \<in> {Some NL, Some CR, None} \<and> q = skip_char NL (skip_char CR r) \<and> moves p0 r"
proof -
  define p where "p = skip_char CR (spaces_after p0)"
  have start: "moves p0 p" unfolding p_def using moves_trans [OF spaces_after_moves skip_char_moves] .
  consider (block) s r where "peek p = Some (ch CHR ''/'')" "peek_next p = Some (ch CHR ''*'')"
      "skip_block_comment p = Ok s" "r = skip_char CR (skip_whitespace_inline s)" "peek r \<in> {Some NL, None}"
      "q = skip_char NL (skip_char CR r)"
    | (line) "q = skip_char NL (skip_char CR (skip_line_comment p))"
    | (blank) "peek p \<in> {Some NL, Some CR, None}" "q = skip_char NL (skip_char CR p)"
    using assms
    by (auto simp: scan_line_start_def Let_def p_def [symmetric] line_rest_def split: if_splits sum.splits)
  then show ?thesis
  proof cases
    case block
    have "moves s r" unfolding block(4)
      by (rule moves_trans [OF _ skip_char_moves]) (simp add: skip_whitespace_inline_def skip_while_moves)
    moreover have "moves p s" using skip_block_comment_moves [OF block(3,1,2)] by blast
    ultimately show ?thesis using block moves_trans start by blast
  next
    case line
    have "moves p (skip_line_comment p)" by (simp add: skip_line_comment_def skip_while_moves)
    then show ?thesis using line skip_line_comment_stops [of p] moves_trans [OF start] by blast
  next
    case blank
    then show ?thesis using start by blast
  qed
qed

lemma line_scan_trivia:
  assumes "scan_line_start p0 = Ok l"
  shows "\<exists>w. trivia w \<and> reads p0 w (line_scan_pos l)"
proof -
  define p where "p = skip_char CR (spaces_after p0)"
  define n where "n = length (lp_rest p0) - length (lp_rest (spaces_after p0))"
  have start: "\<exists>w. trivia w \<and> reads p0 w p"
    unfolding p_def by (rule trivia_step [OF spaces_trivia skip_char_trivia]) simp
  have line_end: "\<exists>w. trivia w \<and> reads r w (line_scan_pos (line_rest n b r))" for b r
  proof (cases rule: line_rest_cases [of n b r])
    case 1
    then show ?thesis by (intro exI [of _ "[]"]) (simp add: line_scan_pos_def)
  next
    case 2
    then show ?thesis
      using trivia_step [OF skip_char_trivia skip_char_trivia, of CR NL r] by (simp add: line_scan_pos_def)
  qed
  show ?thesis
  proof (cases "peek p")
    case None
    then show ?thesis using assms start
      by (auto simp: scan_line_start_def Let_def p_def [symmetric] line_scan_pos_def split: if_splits)
  next
    case (Some c)
    consider (block) q where "c = ch CHR ''/''" "peek_next p = Some (ch CHR ''*'')" "skip_block_comment p = Ok q"
        "l = line_rest n True (skip_char CR (skip_whitespace_inline q))
          \<or> l = LsMid (skip_char CR (skip_whitespace_inline q))"
      | (line) "c = ch CHR ''/''" "peek_next p = Some (ch CHR ''/'')" "l = line_rest n True (skip_line_comment p)"
      | (content) "l = line_rest n False p"
      using assms Some
      by (auto simp: scan_line_start_def Let_def p_def [symmetric] n_def [symmetric]
          split: if_splits sum.splits)
    then show ?thesis
    proof cases
      case block
      have "\<exists>w. trivia w \<and> reads p w q"
        using block_comment_trivia [OF block(3)] Some block(1,2) by simp
      then have "\<exists>w. trivia w \<and> reads p w (skip_char CR (skip_whitespace_inline q))"
        by (rule trivia_step) (rule trivia_step [OF whitespace_trivia skip_char_trivia], simp)
      with start have reach: "\<exists>w. trivia w \<and> reads p0 w (skip_char CR (skip_whitespace_inline q))"
        by (rule trivia_step)
      from block(4) show ?thesis
      proof
        assume "l = line_rest n True (skip_char CR (skip_whitespace_inline q))"
        then show ?thesis using trivia_step [OF reach line_end] by simp
      qed (use reach in \<open>simp add: line_scan_pos_def\<close>)
    next
      case line
      have "\<exists>w. trivia w \<and> reads p w (skip_line_comment p)"
        using line_comment_trivia Some line(1,2) by simp
      with start have "\<exists>w. trivia w \<and> reads p0 w (skip_line_comment p)" by (rule trivia_step)
      then show ?thesis unfolding line(3) by (rule trivia_step [OF _ line_end])
    next
      case content
      show ?thesis unfolding content by (rule trivia_step [OF start line_end])
    qed
  qed
qed

text \<open>A state and the source it has worked through.\<close>

fun state_placed :: "utext \<Rightarrow> LexerState \<Rightarrow> bool" where
  "state_placed src (StStart p mode b acc) = (p = pos_new src \<and> acc = acc_new)"
| "state_placed src (StLineStart p mode b acc) =
     (if b then line_placed src p (la_tokens acc) else placed src p (la_tokens acc))"
| "state_placed src (StDispatch p mode b acc) = placed src p (la_tokens acc)"
| "state_placed src (StDone r) = (case r of Err _ \<Rightarrow> True | Ok acc \<Rightarrow> laid_out_to_end src (la_tokens acc))"

lemma prologue_placed: "line_placed src (skip_prologue (pos_new src)) []"
proof -
  have start: "at src [] (pos_new src)" by (simp add: at_def pos_new_def)
  have bom: "line_placed src (skip_char BOM (pos_new src)) []"
  proof (cases "peek (pos_new src) = Some BOM")
    case True
    from at_reads [OF reads_advance [OF True] start] show ?thesis
      using laid_bom True by (auto simp: line_placed_def line_starts_def skip_char_def)
  next
    case False
    then show ?thesis using start laid_start by (auto simp: line_placed_def line_starts_def skip_char_def)
  qed
  have "line_placed src (skip_line_comment (skip_char BOM (pos_new src))) []"
    if "peek (skip_char BOM (pos_new src)) = Some (ch CHR ''#'')"
      "peek_next (skip_char BOM (pos_new src)) = Some (ch CHR ''!'')"
    using placed_trivia [OF line_placed [OF bom] line_comment_trivia] that skip_line_comment_stops
    by (auto simp: placed_def line_placed_def line_starts_def)
  then show ?thesis using bom by (simp add: skip_prologue_def Let_def)
qed

lemma blank_line_placed:
  assumes "scan_line_start p = Ok (LsBlank q)" and "placed src p ts"
  shows "line_placed src q ts"
proof -
  obtain r where r: "peek r \<in> {Some NL, Some CR, None}" "q = skip_char NL (skip_char CR r)" "moves p r"
    using line_scan_blank [OF assms(1)] by blast
  obtain v where v: "reads p v r" using reads_moves [OF r(3)] by blast
  obtain pre where pre: "at src pre p" "laid_out pre ts" using assms(2) by (auto simp: placed_def)
  obtain w where w: "reads p w q" "trivia w" using line_scan_trivia [OF assms(1)] by (auto simp: line_scan_pos_def)
  have "at src (pre @ w) q" "laid_out (pre @ w) ts"
    by (rule at_reads [OF w(1) pre(1)], rule laid_trivia [OF pre(2) w(2)])
  moreover have "line_starts (pre @ w) q"
    using line_end_starts [OF r(1,2)]
  proof
    assume "\<exists>u c. reads r (u @ [c]) q \<and> c \<in> {NL, CR}"
    then obtain u c where u: "reads r (u @ [c]) q" "c \<in> {NL, CR}" by blast
    have "w = v @ u @ [c]" by (rule reads_unique [OF w(1) reads_trans [OF v u(1)]])
    then show ?thesis using u(2) by (auto simp: line_starts_def)
  qed (simp add: line_starts_def)
  ultimately show ?thesis unfolding line_placed_def by blast
qed

lemma at_content_placed:
  assumes "at_content n q mode acc = Ok s" and "scan_line_start p = Ok (LsContent n q)"
    and "line_placed src p (la_tokens acc)"
  shows "state_placed src s"
proof -
  obtain pre where pre: "at src pre p" "laid_out pre (la_tokens acc)" "line_starts pre p"
    using assms(3) by (auto simp: line_placed_def)
  obtain cr where cr: "reads p (replicate n SPACE @ cr) q" "cr \<in> {[], [CR]}" "peek q \<notin> {Some NL, None}"
    using line_scan_content [OF assms(2)] by blast
  let ?pre = "pre @ replicate n SPACE @ cr"
  have at: "at src ?pre q" by (rule at_reads [OF cr(1) pre(1)])
  have "trivia (replicate n SPACE @ cr)" using cr(2) by (intro trivia_blanks) auto
  then have laid: "laid_out ?pre (la_tokens acc)" by (rule laid_trivia [OF pre(2)])
  have "indented ?pre n"
  proof (cases "peek p \<in> {Some NL, None}")
    case True
    then have "replicate n SPACE @ cr = []"
      using cr(1,2) by (cases n) (auto simp: reads_def peek_Some peek_None)
    then have "peek q = peek p" using cr(1) by (simp add: reads_def peek_def)
    then show ?thesis using True cr(3) by simp
  next
    case False
    then show ?thesis using pre(3) cr(2) unfolding indented_def line_starts_def by blast
  qed
  then have "laid_out ?pre (la_tokens acc')" if "apply_indent n q acc = Ok acc'" for acc'
    using apply_indent_placed [OF that at laid] by blast
  then show ?thesis
    using assms(1) at laid by (auto simp: at_content_def placed_def split: if_splits sum.splits)
qed

lemma line_start_placed:
  "line_start_loop p mode acc = Ok s \<Longrightarrow> line_placed src p (la_tokens acc) \<Longrightarrow> state_placed src s"
proof (induction p mode acc rule: line_start_loop.induct)
  case (1 p mode acc)
  obtain l where l: "scan_line_start p = Ok l"
    using "1.prems"(1) by (cases "scan_line_start p") (auto simp: line_start_loop.simps)
  have placed: "placed src (line_scan_pos l) (la_tokens acc)"
    by (rule placed_trivia [OF line_placed [OF "1.prems"(2)] line_scan_trivia [OF l]])
  show ?case
  proof (cases l)
    case (LsEnd q)
    then have "lp_rest q = []"
      using l by (auto simp: scan_line_start_def Let_def line_rest_def peek_None split: if_splits sum.splits)
    then show ?thesis
      using "1.prems"(1) placed done_placed
      by (auto simp: line_start_loop.simps [of p] l LsEnd line_scan_pos_def)
  next
    case (LsBlank q)
    then show ?thesis
      using "1.prems"(1) "1.IH" [OF l LsBlank] blank_line_placed [OF _ line_placed [OF "1.prems"(2)]] l
      by (simp add: line_start_loop.simps [of p])
  next
    case (LsMid q)
    then show ?thesis
      using "1.prems"(1) placed by (auto simp: line_start_loop.simps [of p] l line_scan_pos_def)
  next
    case (LsContent n q)
    then show ?thesis
      using "1.prems" at_content_placed l by (simp add: line_start_loop.simps [of p])
  qed
qed

lemma line_placed_behind:
  assumes "placed src p ts" and "reads p (w @ [c]) q" and "c \<in> {NL, CR}" and "trivia (w @ [c])"
  shows "line_placed src q ts"
proof -
  obtain pre where pre: "at src pre p" "laid_out pre ts" using assms(1) by (auto simp: placed_def)
  from at_reads [OF assms(2) pre(1)] laid_trivia [OF pre(2) assms(4)] show ?thesis
    using assms(3) unfolding line_placed_def line_starts_def by (intro exI [of _ "pre @ w @ [c]"]) auto
qed

lemma dispatch_placed:
  assumes step: "dispatch_char uni p c mode acc = Ok s" and c: "peek p = Some c"
    and placed: "placed src p (la_tokens acc)"
  shows "state_placed src s"
proof -
  consider (newline) "c = NL" | (continuation) "c = BSL" | (block) "c = ch CHR ''/''" "peek_next p = Some (ch CHR ''*'')"
    | (comment) "c \<noteq> NL" "c \<noteq> BSL" "\<not> (c = ch CHR ''/'' \<and> peek_next p = Some (ch CHR ''*''))"
      "c = ch CHR ''/'' \<and> peek_next p = Some (ch CHR ''/'')
        \<or> c = ch CHR ''#'' \<and> peek_next p \<noteq> Some (ch CHR ''['')"
    | (token) "c \<noteq> NL" "c \<noteq> BSL" "\<not> (c = ch CHR ''/'' \<and> peek_next p = Some (ch CHR ''*''))"
      "\<not> (c = ch CHR ''/'' \<and> peek_next p = Some (ch CHR ''/'')
        \<or> c = ch CHR ''#'' \<and> peek_next p \<noteq> Some (ch CHR ''[''))"
    by blast
  then show ?thesis
  proof cases
    case newline
    obtain pre where pre: "at src pre p" "laid_out pre (la_tokens acc)" using placed by (auto simp: placed_def)
    have q: "at src (pre @ [NL]) (advance p)" using at_reads [OF reads_advance [OF c] pre(1)] newline by simp
    have "laid_out (pre @ [NL]) (la_tokens acc @ [\<lparr>tk_kind = Pun PNewline, tk_line = lp_line p, tk_col = lp_col p,
        tk_end_line = lp_line (advance p), tk_end_col = lp_col (advance p)\<rparr>])"
      using pre q by (intro laid_token) (simp_all add: at_def spells_def)
    then show ?thesis
      using step newline q
      by (auto simp: dispatch_char_def push_token_def line_placed_def line_starts_def
          intro!: exI [of _ "pre @ [NL]"])
  next
    case continuation
    define q where "q = skip_whitespace_inline (advance p)"
    have q: "peek q = Some NL" "s = StLineStart (advance q) mode True acc"
      using step continuation by (auto simp: dispatch_char_def Let_def q_def split: if_splits)
    obtain w where w: "reads (advance p) w q" "\<forall>c \<in> set w. is_inline_blank c"
      using skip_while_reads [of "advance p" is_inline_blank] by (auto simp: q_def skip_whitespace_inline_def)
    have "reads p ((BSL # w) @ [NL]) (advance q)"
      using reads_first [OF c reads_trans [OF w(1) reads_advance [OF q(1)]]] continuation by simp
    then show ?thesis
      using line_placed_behind [OF placed, of "BSL # w" NL] trivia_continuation [OF w(2)] q(2) by simp
  next
    case block
    then obtain q where "skip_block_comment p = Ok q" "s = StDispatch q mode False acc"
      using step by (auto simp: dispatch_char_def split: sum.splits)
    then show ?thesis using placed_trivia [OF placed block_comment_trivia] c block by auto
  next
    case comment
    then have "s = StLineStart (skip_line_comment p) mode True acc"
      using step by (auto simp: dispatch_char_def)
    then show ?thesis
      using placed_trivia [OF placed line_comment_trivia] c comment skip_line_comment_stops
      by (auto simp: placed_def line_placed_def line_starts_def)
  next
    case token
    then obtain q k where scan: "lex_scan_token uni p c (lp_line p) (lp_col p) = Ok (q, k)"
      and s: "s = StLineStart q mode False (push_token
               \<lparr>tk_kind = k, tk_line = lp_line p, tk_col = lp_col p,
                tk_end_line = lp_line q, tk_end_col = lp_col q\<rparr> acc)"
      using step by (auto simp: dispatch_char_def split: sum.splits if_splits)
    from lex_scan_token_reads [OF scan c] obtain w where "w \<noteq> []" "spells k w" "reads p w q" by blast
    from placed_token [OF placed this(3,2,1)] show ?thesis by (simp add: s push_token_def)
  qed
qed

lemma transition_placed:
  assumes "transition uni s EvStep = Ok s'" and "state_placed src s"
  shows "state_placed src s'"
proof (cases s)
  case (StStart p mode b acc)
  then show ?thesis using assms prologue_placed by (auto simp: acc_new_def)
next
  case (StLineStart p mode b acc)
  then show ?thesis using assms line_start_placed by (auto split: if_splits)
next
  case (StDispatch p mode b acc)
  define q where "q = skip_whitespace_inline p"
  have q: "placed src q (la_tokens acc)"
    using placed_trivia [OF _ whitespace_trivia] assms(2) StDispatch by (auto simp: q_def)
  show ?thesis
  proof (cases "peek q")
    case None
    then have "advance q = q" by (simp add: advance_def peek_None)
    then show ?thesis
      using None assms(1) done_placed [OF q] by (auto simp: StDispatch q_def [symmetric] peek_None)
  next
    case (Some c)
    then show ?thesis using assms(1) dispatch_placed [OF _ Some q] by (simp add: StDispatch q_def [symmetric])
  qed
next
  case (StDone r)
  then show ?thesis using assms by simp
qed

end
