(* ===== verification/Mimi_LexerRuns.thy ===== *)
theory Mimi_LexerRuns
  imports Mimi_LexerLaws
begin

text \<open>
  Runs of the lexer: it returns on every source, the tokens and trivia it finds make up the source,
  its indentation tokens are balanced and the end of the source comes last.
\<close>

section \<open>The lexer returns\<close>

fun work_left :: "LexerState \<Rightarrow> nat" where
  "work_left (StStart p mode b acc) = 4 * length (lp_rest p) + 3"
| "work_left (StLineStart p mode b acc) = 4 * length (lp_rest p) + 2"
| "work_left (StDispatch p mode b acc) = 4 * length (lp_rest p) + 1"
| "work_left (StDone r) = 0"

lemma at_content_state: "at_content n p mode acc = Ok s \<Longrightarrow> \<exists>acc'. s = StDispatch p mode False acc'"
  by (auto simp: at_content_def split: if_splits sum.splits)

lemma line_start_state:
  "line_start_loop p mode acc = Ok s \<Longrightarrow>
     (\<exists>r. s = StDone r) \<or> (\<exists>q acc'. s = StDispatch q mode False acc' \<and> moves p q)"
proof (induction p mode acc rule: line_start_loop.induct)
  case (1 p mode acc)
  obtain l where l: "scan_line_start p = Ok l"
    using "1.prems" by (cases "scan_line_start p") (auto simp: line_start_loop.simps)
  have moved: "moves p (line_scan_pos l)" using scan_line_start_moves [OF l] by blast
  show ?case
  proof (cases l)
    case (LsBlank q)
    then have "line_start_loop q mode acc = Ok s" "moves p q"
      using "1.prems" moved by (simp_all add: line_start_loop.simps [of p] l line_scan_pos_def)
    then show ?thesis using "1.IH" [OF l LsBlank] moves_trans by blast
  next
    case (LsContent n q)
    then show ?thesis
      using "1.prems" moved at_content_state
      by (fastforce simp: line_start_loop.simps [of p] l line_scan_pos_def)
  qed (use "1.prems" moved in \<open>auto simp: line_start_loop.simps [of p] l line_scan_pos_def\<close>)
qed

lemma reads_shorter: "reads p w q \<Longrightarrow> w \<noteq> [] \<Longrightarrow> length (lp_rest q) < length (lp_rest p)"
  by (simp add: reads_def)

lemma dispatch_progress:
  assumes step: "dispatch_char uni p c mode acc = Ok s" and c: "peek p = Some c"
  shows "work_left s < 4 * length (lp_rest p) + 1"
proof -
  have adv: "length (lp_rest (advance p)) < length (lp_rest p)" by (rule advance_shorter [OF c])
  show ?thesis
  proof (cases "c = NL \<or> c = BSL")
    case True
    have "length (lp_rest (skip_whitespace_inline (advance p))) \<le> length (lp_rest (advance p))"
      unfolding skip_whitespace_inline_def by (rule moves_shorter [OF skip_while_moves])
    then show ?thesis
      using step True adv by (auto simp: dispatch_char_def Let_def split: if_splits)
  next
    case nl: False
    show ?thesis
    proof (cases "c = ch CHR ''/'' \<and> peek_next p = Some (ch CHR ''*'')")
      case True
      then obtain q where "skip_block_comment p = Ok q" "s = StDispatch q mode False acc"
        using step nl by (auto simp: dispatch_char_def split: sum.splits)
      then show ?thesis using skip_block_comment_moves [OF _ c] True by fastforce
    next
      case nb: False
      show ?thesis
      proof (cases "c = ch CHR ''/'' \<and> peek_next p = Some (ch CHR ''/'')
          \<or> c = ch CHR ''#'' \<and> peek_next p \<noteq> Some (ch CHR ''['')")
        case True
        then have "s = StLineStart (skip_line_comment p) mode True acc"
          using step nl nb by (auto simp: dispatch_char_def)
        then show ?thesis using skip_line_comment_moves [OF c] nl by fastforce
      next
        case False
        then obtain q k acc' where "lex_scan_token uni p c (lp_line p) (lp_col p) = Ok (q, k)"
          "s = StLineStart q mode False acc'"
          using step nl nb by (auto simp: dispatch_char_def split: sum.splits if_splits)
        then show ?thesis using lex_scan_token_reads [OF _ c] reads_shorter by fastforce
      qed
    qed
  qed
qed

lemma transition_progress:
  assumes "transition uni s EvStep = Ok s'" and "\<nexists>r. s = StDone r"
  shows "work_left s' < work_left s"
proof (cases s)
  case (StStart p mode b acc)
  have "length (lp_rest (skip_prologue p)) \<le> length (lp_rest p)"
    using moves_shorter [OF skip_char_moves [of p BOM]]
      moves_shorter [OF skip_while_moves [of "skip_char BOM p" "\<lambda>c. c \<noteq> NL"]]
    by (simp add: skip_prologue_def Let_def skip_line_comment_def)
  then show ?thesis using assms StStart by auto
next
  case (StLineStart p mode b acc)
  then show ?thesis
    using assms line_start_state [of p mode acc s'] moves_shorter by (fastforce split: if_splits)
next
  case (StDispatch p mode b acc)
  define q where "q = skip_whitespace_inline p"
  have q: "length (lp_rest q) \<le> length (lp_rest p)"
    unfolding q_def skip_whitespace_inline_def by (rule moves_shorter [OF skip_while_moves])
  show ?thesis
  proof (cases "peek q")
    case None
    then show ?thesis using assms(1) by (auto simp: StDispatch q_def [symmetric])
  next
    case (Some c)
    then have "dispatch_char uni q c mode acc = Ok s'"
      using assms(1) by (simp add: StDispatch q_def [symmetric])
    from dispatch_progress [OF this Some] q show ?thesis by (simp add: StDispatch)
  qed
next
  case (StDone r)
  then show ?thesis using assms(2) by blast
qed

text \<open>A run that returns tokens ends in \<open>Done\<close> after steps that keep an invariant.\<close>

lemma tokenize_loop_returns:
  assumes "\<nexists>r. s = StDone r"
    and step: "\<And>s s'. transition uni s EvStep = Ok s' \<Longrightarrow> keeps s \<Longrightarrow> keeps s'"
    and "keeps s"
  shows "\<exists>r. tokenize_loop uni s = Some r
    \<and> (\<forall>ts. r = Ok ts \<longrightarrow> (\<exists>acc. keeps (StDone (Ok acc)) \<and> ts = la_tokens acc))"
  using assms(1,3)
proof (induction s rule: measure_induct_rule [of work_left])
  case (less s)
  show ?case
  proof (cases "transition uni s EvStep")
    case (Inl e)
    then show ?thesis by (simp add: tokenize_loop.simps [of uni s])
  next
    case (Inr s')
    have keeps': "keeps s'" using step [OF Inr less.prems(2)] .
    show ?thesis
    proof (cases "\<exists>r. s' = StDone r")
      case True
      then obtain r where "s' = StDone r" by blast
      then show ?thesis using keeps'
        by (cases r) (auto simp: tokenize_loop.simps [of uni s] Inr)
    next
      case False
      then have "tokenize_loop uni s = tokenize_loop uni s'"
        by (cases s') (auto simp: tokenize_loop.simps [of uni s] Inr)
      then show ?thesis
        using less.IH [OF transition_progress [OF Inr less.prems(1)] False keeps'] by simp
    qed
  qed
qed

lemma flow_tokenize_returns: "\<exists>r. flow_tokenize uni src mode = Some r"
  using tokenize_loop_returns [of "state_new src mode" uni "\<lambda>_. True"]
  by (auto simp: flow_tokenize_def state_new_def)

lemma flow_tokenize_keeps:
  assumes "flow_tokenize uni src mode = Some (Ok ts)" and "keeps (state_new src mode)"
    and "\<And>s s'. transition uni s EvStep = Ok s' \<Longrightarrow> keeps s \<Longrightarrow> keeps s'"
  shows "\<exists>acc. keeps (StDone (Ok acc)) \<and> ts = la_tokens acc"
  using tokenize_loop_returns [of "state_new src mode" uni keeps, OF _ assms(3,2)] assms(1)
  by (auto simp: flow_tokenize_def state_new_def)

text \<open>C3: The lexer returns on every source text, in both modes: with its tokens or with an error.\<close>

theorem lexer_returns: "\<exists>r. flow_tokenize uni src mode = Some r"
  by (rule flow_tokenize_returns)

text \<open>
  C1: The lexer loses nothing: the source is the concatenation, in order, of the characters that
  spell its tokens and of trivia (blanks and blank lines, comments, line continuations, a byte order
  mark at the start). A token carries the line and the column of both its ends. An indentation
  token inside the text has no extent; it carries its line and, as column, the number of blanks the
  line starts with. The dedents that close the last levels and the single end token carry the
  position at the end of the source. A keyword, an operator and an identifier are spelled by their
  source text (except \<open>unit\<close>, whose source text is \<open>()\<close>), a number by the text it keeps except that the
  letter of a radix prefix may be a capital one, an f-string by its text between \<open>f"\<close> and a quote, and a
  string by some text between quotes.
\<close>

theorem tokens_cover_source:
  assumes "flow_tokenize uni src mode = Some (Ok ts)"
  shows "laid_out_to_end src ts"
  using flow_tokenize_keeps [OF assms, of "state_placed src"] transition_placed
  by (fastforce simp: state_new_def)

section \<open>Layout\<close>

text \<open>How deep the indentation is after a list of tokens, unless a dedent goes below the root.\<close>

fun nesting :: "nat \<Rightarrow> Token list \<Rightarrow> nat option" where
  "nesting n [] = Some n"
| "nesting n (t # ts) =
     (if tk_kind t = Pun PIndent then nesting (Suc n) ts
      else if tk_kind t = Pun PDedent then (if n = 0 then None else nesting (n - 1) ts)
      else nesting n ts)"

lemma nesting_append: "nesting n (ts @ us) = Option.bind (nesting n ts) (\<lambda>m. nesting m us)"
  by (induction n ts rule: nesting.induct) auto

lemma nesting_dedents:
  "tk_kind t = Pun PDedent \<Longrightarrow> k \<le> n \<Longrightarrow> nesting n (replicate k t) = Some (n - k)"
  by (induction k arbitrary: n) auto

definition levels_ok :: "nat list \<Rightarrow> bool" where
  "levels_ok st \<longleftrightarrow> st \<noteq> [] \<and> last st = 0 \<and> sorted_wrt (>) st"

lemma close_levels_ok:
  "levels_ok st \<Longrightarrow> close_levels n st = (st', k) \<Longrightarrow> levels_ok st' \<and> length st = k + length st'"
proof (induction st arbitrary: st' k)
  case (Cons i st)
  show ?case
  proof (cases "n < i")
    case True
    then have "st \<noteq> []" using Cons.prems(1) by (auto simp: levels_ok_def)
    then have "levels_ok st" using Cons.prems(1) by (auto simp: levels_ok_def)
    with Cons.IH \<open>st \<noteq> []\<close> True Cons.prems(2) show ?thesis by (auto split: prod.splits)
  qed (use Cons.prems in auto)
qed simp

definition acc_ok :: "LexerMode \<Rightarrow> LexerAcc \<Rightarrow> bool" where
  "acc_ok mode acc \<longleftrightarrow>
     levels_ok (la_indents acc)
     \<and> nesting 0 (la_tokens acc) = Some (length (la_indents acc) - 1)
     \<and> (\<forall>t \<in> set (la_tokens acc). tk_kind t \<noteq> Pun PEof)
     \<and> (mode = Production \<longrightarrow> la_indents acc = [0]
         \<and> (\<forall>t \<in> set (la_tokens acc). tk_kind t \<noteq> Pun PIndent \<and> tk_kind t \<noteq> Pun PDedent))"

text \<open>What the token list of a finished run looks like.\<close>

definition well_bracketed :: "LexerMode \<Rightarrow> Token list \<Rightarrow> bool" where
  "well_bracketed mode ts \<longleftrightarrow>
     nesting 0 ts = Some 0
     \<and> (\<exists>us t. ts = us @ [t] \<and> tk_kind t = Pun PEof \<and> (\<forall>u \<in> set us. tk_kind u \<noteq> Pun PEof))
     \<and> (mode = Production \<longrightarrow> (\<forall>t \<in> set ts. tk_kind t \<noteq> Pun PIndent \<and> tk_kind t \<noteq> Pun PDedent))"

fun state_ok :: "LexerMode \<Rightarrow> LexerState \<Rightarrow> bool" where
  "state_ok m (StStart p mode b acc) = (mode = m \<and> acc_ok m acc)"
| "state_ok m (StLineStart p mode b acc) = (mode = m \<and> acc_ok m acc)"
| "state_ok m (StDispatch p mode b acc) = (mode = m \<and> acc_ok m acc)"
| "state_ok m (StDone r) = (case r of Err _ \<Rightarrow> True | Ok acc \<Rightarrow> well_bracketed m (la_tokens acc))"

lemma mark_kind [simp]: "tk_kind (mark k l c) = Pun k"
  by (simp add: mark_def)

lemma advance_to_done_ok:
  assumes "acc_ok mode acc"
  shows "well_bracketed mode (la_tokens (advance_to_done p mode acc))"
proof (cases mode)
  case Production
  then show ?thesis
    using assms by (auto simp: acc_ok_def well_bracketed_def advance_to_done_def push_token_def
        nesting_append)
next
  case Sketch
  have "nesting 0 (la_tokens acc @ replicate (length (la_indents acc) - 1) (mark PDedent (lp_line p) (lp_col p)))
      = Some 0"
    using assms by (simp add: nesting_append acc_ok_def nesting_dedents)
  then show ?thesis
    using assms Sketch
    by (auto simp: acc_ok_def well_bracketed_def advance_to_done_def push_token_def push_marks_def
        nesting_append)
qed

lemma push_token_ok:
  assumes "acc_ok mode acc" and "tk_kind t \<notin> {Pun PIndent, Pun PDedent, Pun PEof}"
  shows "acc_ok mode (push_token t acc)"
  using assms by (auto simp: acc_ok_def push_token_def nesting_append)

lemma apply_indent_ok:
  assumes "apply_indent n p acc = Ok acc'" and "acc_ok Sketch acc"
  shows "acc_ok Sketch acc'"
proof -
  obtain st k where close: "close_levels n (la_indents acc) = (st, k)" by (rule prod.exhaust)
  note levels = close_levels_ok [OF _ close]
  obtain i rest where st: "la_indents acc = i # rest"
    using assms(2) by (cases "la_indents acc") (auto simp: acc_ok_def levels_ok_def)
  consider (same) "acc' = acc"
    | (deeper) "i < n" "acc' = push_token (mark PIndent (lp_line p) n) (acc\<lparr>la_indents := n # la_indents acc\<rparr>)"
    | (shallower) "acc' = push_marks k (mark PDedent (lp_line p) n) (acc\<lparr>la_indents := st\<rparr>)"
    using assms(1) close st
    by (auto simp: apply_indent_def Let_def indent_top_def split: if_splits)
  then show ?thesis
  proof cases
    case deeper
    have "levels_ok (n # la_indents acc)"
      using assms(2) deeper(1) by (auto simp: acc_ok_def levels_ok_def st)
    then show ?thesis
      using assms(2) deeper(2) by (auto simp: acc_ok_def push_token_def nesting_append st)
  next
    case shallower
    have "levels_ok st" "length (la_indents acc) = k + length st" "st \<noteq> []"
      using levels assms(2) by (auto simp: acc_ok_def levels_ok_def)
    moreover from this have "nesting (length (la_indents acc) - 1) (replicate k (mark PDedent (lp_line p) n))
        = Some (length st - 1)"
      by (cases st) (simp_all add: nesting_dedents)
    ultimately show ?thesis
      using assms(2) shallower by (auto simp: acc_ok_def push_marks_def nesting_append)
  qed (use assms(2) in simp)
qed

lemma line_start_ok:
  "line_start_loop p mode acc = Ok s \<Longrightarrow> acc_ok mode acc \<Longrightarrow> state_ok mode s"
proof (induction p mode acc rule: line_start_loop.induct)
  case (1 p mode acc)
  obtain l where l: "scan_line_start p = Ok l"
    using "1.prems"(1) by (cases "scan_line_start p") (auto simp: line_start_loop.simps)
  show ?case
  proof (cases l)
    case (LsBlank q)
    then show ?thesis using "1.prems" "1.IH" [OF l LsBlank] by (simp add: line_start_loop.simps [of p] l)
  next
    case (LsContent n q)
    then have "at_content n q mode acc = Ok s" using "1.prems"(1) by (simp add: line_start_loop.simps [of p] l)
    then show ?thesis
      using "1.prems"(2) apply_indent_ok by (auto simp: at_content_def split: if_splits sum.splits)
  qed (use "1.prems" advance_to_done_ok in \<open>auto simp: line_start_loop.simps [of p] l\<close>)
qed

lemma spelled_kind: "spells k w \<Longrightarrow> w \<noteq> [] \<Longrightarrow> k \<notin> {Pun PIndent, Pun PDedent, Pun PEof}"
  by (auto simp: spells_def)

lemma dispatch_ok:
  assumes step: "dispatch_char uni p c mode acc = Ok s" and c: "peek p = Some c" and ok: "acc_ok mode acc"
  shows "state_ok mode s"
proof -
  have kinds: "k \<notin> {Pun PIndent, Pun PDedent, Pun PEof}"
    if "lex_scan_token uni p c (lp_line p) (lp_col p) = Ok (q, k)" for q k
    using lex_scan_token_reads [OF that c] spelled_kind by blast
  show ?thesis
    using step ok push_token_ok [OF ok] kinds
    by (auto simp: dispatch_char_def Let_def split: if_splits sum.splits)
qed

lemma transition_ok:
  assumes "transition uni s EvStep = Ok s'" and "state_ok mode s"
  shows "state_ok mode s'"
proof (cases s)
  case (StStart p m b acc)
  then show ?thesis using assms by auto
next
  case (StLineStart p m b acc)
  then show ?thesis using assms line_start_ok by (auto split: if_splits)
next
  case (StDispatch p m b acc)
  then show ?thesis
    using assms dispatch_ok advance_to_done_ok by (auto simp: Let_def split: option.splits)
next
  case (StDone r)
  then show ?thesis using assms by simp
qed

text \<open>
  C2: The layout of the token list: indentation tokens are balanced and a dedent never goes below
  the root, production mode has none of them, and the end of the source is the last token and
  occurs nowhere else.
\<close>

theorem layout_balanced:
  assumes "flow_tokenize uni src mode = Some (Ok ts)"
  shows "well_bracketed mode ts"
proof -
  have "state_ok mode (state_new src mode)"
    by (simp add: state_new_def acc_new_def acc_ok_def levels_ok_def)
  then have "\<exists>acc. state_ok mode (StDone (Ok acc)) \<and> ts = la_tokens acc"
    by (rule flow_tokenize_keeps [OF assms]) (rule transition_ok)
  then show ?thesis by auto
qed

end
