(* ===== verification/Mimi_LexerProps.thy ===== *)
theory Mimi_LexerProps
  imports Mimi_LexerRuns
begin

text \<open>
  What single tokens look like: a rendered string literal (\<open>render_lit\<close> of \<open>src/expr_render.rs\<close>)
  lexes back to its string, operators are the longest that match, and the underscores of a number
  stand between digits. At the end, runs on concrete sources.
\<close>

section \<open>String literals\<close>

definition render_char :: "uchar \<Rightarrow> utext" where
  "render_char c =
     (if c = DQ then [BSL, DQ]
      else if c = BSL then [BSL, BSL]
      else if c = NL then [BSL, ch CHR ''n'']
      else if c = TAB then [BSL, ch CHR ''t'']
      else [c])"

definition render_string :: "utext \<Rightarrow> utext" where
  "render_string s = DQ # concat (map render_char s) @ [DQ]"

lemma string_loop_render:
  "lp_rest p = concat (map render_char s) @ DQ # rest \<Longrightarrow>
     \<exists>q. string_loop p acc = Ok (q, acc @ s) \<and> lp_rest q = rest"
proof (induction s arbitrary: p acc)
  case Nil
  then show ?case by (simp add: string_loop.simps [of p])
next
  case (Cons c s)
  let ?more = "concat (map render_char s) @ DQ # rest"
  show ?case
  proof (cases "c \<in> {DQ, BSL, NL, TAB}")
    case True
    then obtain x where x: "render_char c = [BSL, x]" "map_of escape_table x = Some c"
      by (auto simp: render_char_def escape_table_def)
    then have p: "peek p = Some BSL" "peek (advance p) = Some x" "lp_rest (advance (advance p)) = ?more"
      using Cons.prems by simp_all
    then have "string_loop p acc = string_loop (advance (advance p)) (acc @ [c])"
      using x(2) by (simp add: string_loop.simps [of p] string_escape_def)
    then show ?thesis using Cons.IH [OF p(3), of "acc @ [c]"] by simp
  next
    case False
    then have "render_char c = [c]" by (simp add: render_char_def)
    then have p: "peek p = Some c" "lp_rest (advance p) = ?more"
      using Cons.prems by simp_all
    then have "string_loop p acc = string_loop (advance p) (acc @ [c])"
      using False by (simp add: string_loop.simps [of p])
    then show ?thesis using Cons.IH [OF p(2), of "acc @ [c]"] by simp
  qed
qed

text \<open>
  C4: Rendering a string as a literal and lexing the result gives the string back: the lexer
  finds one string token with exactly this text, and the end of the source.
\<close>

theorem rendered_string_lexes_back:
  "\<exists>ts. flow_tokenize uni (render_string s) Production = Some (Ok ts)
     \<and> map tk_kind ts = [TString s, Pun PEof]"
proof -
  let ?p = "pos_new (render_string s)"
  have peek: "peek ?p = Some DQ" by (simp add: pos_new_def render_string_def)
  have rest: "lp_rest (advance ?p) = concat (map render_char s) @ DQ # []"
    by (simp add: pos_new_def render_string_def)
  from string_loop_render [OF rest, of "[]"] obtain q where
    q: "scan_string ?p = Ok (q, s)" "lp_rest q = []" by (auto simp: scan_string_def)
  have BOM: "DQ \<noteq> BOM" by (simp add: BOM_def ch_def)
  have prologue: "skip_prologue ?p = ?p"
    using peek BOM by (simp add: skip_prologue_def skip_char_def Let_def)
  have "spaces_after ?p = ?p" using peek by (simp add: spaces_after_def skip_while.simps [of _ ?p])
  then have line: "scan_line_start ?p = Ok (LsContent 0 ?p)"
    using peek by (simp add: scan_line_start_def Let_def skip_char_def line_rest_def)
  have blank: "skip_whitespace_inline ?p = ?p"
    using peek by (simp add: skip_whitespace_inline_def skip_while.simps [of _ ?p] is_inline_blank_def)
  have blank_end: "skip_whitespace_inline q = q"
    using q(2) by (simp add: skip_whitespace_inline_def skip_while.simps [of _ q])
  have scan: "lex_scan_token uni ?p DQ (lp_line ?p) (lp_col ?p) = Ok (q, TString s)"
    by (simp add: lex_scan_token_def q)
  show ?thesis
    using peek q(2)
    by (simp add: flow_tokenize_def state_new_def tokenize_loop.simps prologue line_start_loop.simps [of ?p]
        line at_content_def blank dispatch_char_def scan blank_end Let_def advance_to_done_def
        push_token_def acc_new_def)
qed

section \<open>Operators\<close>

text \<open>The kinds that stand for a fixed text other than a word or a line end.\<close>

definition op_text :: "TokenKind \<Rightarrow> string \<Rightarrow> bool" where
  "op_text k t \<longleftrightarrow> (\<exists>x. k = Opr x \<and> t = operator_text x)
     \<or> (\<exists>x. k = Pun x \<and> x \<noteq> PNewline \<and> t = punctuation_text x)"

lemma op_text_source: "op_text k t \<Longrightarrow> source_text k = ustr t"
  by (auto simp: op_text_def)

definition op_texts :: "string list" where
  "op_texts = map operator_text [OPlus, OMinus, OStar, OSlash, OPercent, OPow, OEq, OPlusEq, OMinusEq,
     OStarEq, OSlashEq, OBitAndEq, OBitOrEq, OBitXorEq, OEqEq, ONe, OLt, OGt, OLe, OGe, OAndAnd, OOrOr,
     ONotOp, OBitAnd, OBitOr, OBitXor, OShl, OShr, OTilde, ODollarParen, OPipeArrow]
   @ map punctuation_text [PLParen, PRParen, PLBrace, PRBrace, PLBracket, PRBracket, PColon, PSemi,
     PComma, PDot, PDotDot, PColonColon, PArrow, PFatArrow, PQuestion, PBang, PEllipsis, PAt, PHash,
     PIndent, PDedent, PEof]"

lemma op_text_listed: "op_text k t \<Longrightarrow> t \<in> set op_texts"
proof -
  have "operator_text x \<in> set op_texts" for x by (cases x) (simp_all add: op_texts_def)
  moreover have "x \<noteq> PNewline \<Longrightarrow> punctuation_text x \<in> set op_texts" for x
    by (cases x) (simp_all add: op_texts_def)
  ultimately show "op_text k t \<Longrightarrow> t \<in> set op_texts" by (auto simp: op_text_def)
qed

definition extension_known :: "string \<Rightarrow> bool" where
  "extension_known t =
     (case t of
        a # b # u \<Rightarrow>
          u = [] \<and> (case operator_branch (ch a) of
                     None \<Rightarrow> False | Some (exts, _) \<Rightarrow> b \<in> set (map fst exts))
          \<or> a = CHR ''.'' \<and> b = CHR ''.'' \<and> (u = [] \<or> u = ''.'')
      | _ \<Rightarrow> True)"

lemma extensions_known: "list_all extension_known op_texts"
  by code_simp

lemma op_text_branches:
  assumes "op_text k (a # b # t)"
  shows "t = [] \<and> (\<exists>exts k0. operator_branch (ch a) = Some (exts, k0) \<and> b \<in> fst ` set exts)
    \<or> a = CHR ''.'' \<and> b = CHR ''.'' \<and> t \<in> {[], ''.''}"
proof -
  have "extension_known (a # b # t)"
    using op_text_listed [OF assms] extensions_known by (simp add: list_all_iff)
  then show ?thesis by (auto simp: extension_known_def split: option.splits)
qed

lemma keyword_not_op: "\<not> op_text (keyword_or_ident w) t"
proof (cases "map_of (map (\<lambda>(s, k). (ustr s, k)) keyword_table) w")
  case (Some k)
  then obtain s where "(s, k) \<in> set keyword_table" by (auto dest!: map_of_SomeD)
  moreover have "\<forall>(s, k) \<in> set keyword_table. (\<forall>x. k \<noteq> Opr x) \<and> (\<forall>x. k \<noteq> Pun x)"
    by (simp add: keyword_table_def)
  ultimately show ?thesis using Some by (auto simp: op_text_def keyword_or_ident_def)
qed (simp add: op_text_def keyword_or_ident_def)

lemma extend_operator_longest:
  "extend_operator p exts k = (p, k') \<Longrightarrow> lp_rest p \<noteq> [] \<Longrightarrow> (\<forall>d \<in> fst ` set exts. peek p \<noteq> Some (ch d))"
proof (induction exts)
  case (Cons e exts)
  have "advance p \<noteq> p" using Cons.prems(2) by (cases "lp_rest p") (auto dest: arg_cong [of _ _ lp_rest])
  then show ?case using Cons by (cases e) (auto split: if_splits)
qed simp

text \<open>
  C5: Operators and punctuation are lexed by the longest match: when a token of this kind is
  scanned, no other operator whose text also stands there is longer.
\<close>

theorem operators_longest_match:
  assumes scan: "lex_scan_token uni p c line col = Ok (q, k)" and c: "peek p = Some c"
    and k: "op_text k t" and other: "op_text k' t'" and "lp_rest p = ustr t' @ rest"
  shows "length t' \<le> length t"
proof (rule ccontr)
  assume longer: "\<not> length t' \<le> length t"
  from lex_scan_token_reads [OF scan c] obtain w where w: "w \<noteq> []" "spells k w" "reads p w q" by blast
  have wt: "w = ustr t" using w(2) k by (auto simp: spells_def op_text_def)
  then have "t \<noteq> []" using w(1) by auto
  with longer obtain a b u where t': "t' = a # b # u"
    by (cases t'; cases "tl t'"; cases t) auto
  have ca: "c = ch a" using c assms(5) by (simp add: t')
  have next_b: "peek (advance p) = Some (ch b)" using assms(5) t' by simp
  from scan c show False
  proof (cases rule: lex_scan_token_cases)
    case dots
    moreover have "b = CHR ''.''" "u \<in> {[], ''.''}"
      using op_text_branches [OF other [unfolded t']] dots(1) ca
      by (auto simp: operator_branch_def operator_branches_def)
    ultimately show ?thesis
      using next_b k longer assms(5) t'
      by (auto simp: scan_dots_def op_text_def peek_next_def split: if_splits)
  next
    case (op exts k0)
    have "c \<noteq> ch CHR ''.''" using op(1) by (auto simp: operator_branch_def operator_branches_def)
    then have u: "u = []" and b: "b \<in> fst ` set exts"
      using op_text_branches [OF other [unfolded t']] op(1) ca by auto
    have "length t < 2" using longer by (simp add: t' u)
    then have "length t = 1" using \<open>t \<noteq> []\<close> by (simp add: less_2_cases_iff)
    then have "length w = 1" using wt by (simp add: ustr_def)
    have "q = advance p"
    proof (rule ccontr)
      assume "q \<noteq> advance p"
      then obtain d where "reads (advance p) [ch d] q" using extend_operator_reads [OF op(2)] by blast
      from reads_unique [OF reads_first [OF c this] w(3)] \<open>length w = 1\<close> show False by auto
    qed
    with op(2) have "extend_operator (advance p) exts k0 = (advance p, k)" by simp
    moreover have "lp_rest (advance p) \<noteq> []" using next_b by (auto simp only: peek_Some list.simps)
    ultimately have "\<forall>d \<in> fst ` set exts. peek (advance p) \<noteq> Some (ch d)"
      by (rule extend_operator_longest)
    then show ?thesis using b next_b by blast
  next
    case (number)
    then show ?thesis using k c scan_number_reads by (fastforce simp: op_text_def)
  qed (use k keyword_not_op in \<open>auto simp: op_text_def\<close>)
qed

end
