(* ===== verification/Mimi_LexerNumbers.thy ===== *)
theory Mimi_LexerNumbers
  imports Mimi_LexerReads
begin

text \<open>
  Digit separators: in the text of a number token an underscore stands between two digits of the
  radix of the number. Each loop of \<open>scan_number\<close> keeps the separators of what it has read, with
  the next character of the source as the right neighbour of an underscore read last.
\<close>

abbreviation US :: uchar where "US \<equiv> ch CHR ''_''"

text \<open>The digits that may stand next to an underscore, by the prefix of the text.\<close>

definition number_digit :: "utext \<Rightarrow> uchar \<Rightarrow> bool" where
  "number_digit s =
     (if take 2 s = ustr ''0x'' then is_ascii_hexdigit
      else if take 2 s = ustr ''0b'' then is_binary_digit
      else if take 2 s = ustr ''0o'' then is_octal_digit
      else is_ascii_digit)"

definition opt_digit :: "(uchar \<Rightarrow> bool) \<Rightarrow> uchar option \<Rightarrow> bool" where
  "opt_digit D x = (case x of None \<Rightarrow> False | Some n \<Rightarrow> D n)"

lemma opt_digit_simps [simp]: "opt_digit D None = False" "opt_digit D (Some n) = D n"
  by (simp_all add: opt_digit_def)

text \<open>The separators of \<open>s\<close> stand between digits when the character \<open>x\<close> follows \<open>s\<close>.\<close>

definition separators_ok :: "(uchar \<Rightarrow> bool) \<Rightarrow> utext \<Rightarrow> uchar option \<Rightarrow> bool" where
  "separators_ok D s x \<longleftrightarrow>
     (\<forall>pre post. s = pre @ US # post \<longrightarrow>
        pre \<noteq> [] \<and> D (last pre) \<and> (if post = [] then opt_digit D x else D (hd post)))"

lemma separators_ok_start [simp]: "US \<notin> set s \<Longrightarrow> separators_ok D s x"
  by (auto simp: separators_ok_def)

lemma separators_ok_snoc:
  assumes "separators_ok D s (Some c)" and "c = US \<Longrightarrow> s \<noteq> [] \<and> D (last s) \<and> opt_digit D x"
  shows "separators_ok D (s @ [c]) x"
  unfolding separators_ok_def
proof (intro allI impI)
  fix pre post
  assume split: "s @ [c] = pre @ US # post"
  show "pre \<noteq> [] \<and> D (last pre) \<and> (if post = [] then opt_digit D x else D (hd post))"
  proof (cases post rule: rev_cases)
    case Nil
    then show ?thesis using split assms(2) by simp
  next
    case (snoc post' d)
    then have "s = pre @ US # post'" "d = c" using split by simp_all
    then show ?thesis
      using assms(1) [unfolded separators_ok_def, rule_format, of pre post']
      by (auto simp: snoc hd_append split: if_splits)
  qed
qed

lemma separators_ok_other:
  "separators_ok D s x \<Longrightarrow> s = [] \<or> last s \<noteq> US \<or> opt_digit D y \<Longrightarrow> separators_ok D s y"
  by (fastforce simp: separators_ok_def)

lemma US_no_digit [simp]: "\<not> is_ascii_digit US" "\<not> is_ascii_hexdigit US" "\<not> is_binary_digit US" "\<not> is_octal_digit US"
  by code_simp+

lemma next_is_digit_peek: "peek p = Some c \<Longrightarrow> next_is_digit p = opt_digit is_ascii_digit (peek (advance p))"
  by (auto simp: next_is_digit_def peek_next_def opt_digit_def peek_Some split: list.splits)

section \<open>The loops keep the separators\<close>

lemma radix_loop_separators:
  "radix_loop D p s = Ok (q, t) \<Longrightarrow> \<not> D US \<Longrightarrow> separators_ok D s (peek p) \<Longrightarrow>
     separators_ok D t (peek q) \<and> \<not> opt_digit D (peek q)"
proof (induction D p s rule: radix_loop.induct)
  case (1 D p s)
  show ?case
  proof (cases "peek p")
    case None
    then show ?thesis using "1.prems" by (simp add: radix_loop.simps [of D p])
  next
    case (Some c)
    have ahead: "(case peek_next p of None \<Rightarrow> False | Some n \<Rightarrow> D n) = opt_digit D (peek (advance p))"
      using Some by (auto simp: peek_next_def opt_digit_def peek_Some split: list.splits)
    consider (digit) "D c" | (sep) "\<not> D c" "c = US" | (stop) "\<not> D c" "c \<noteq> US" by blast
    then show ?thesis
    proof cases
      case digit
      then have "separators_ok D (s @ [c]) (peek (advance p))"
        using "1.prems" Some by (auto intro!: separators_ok_snoc)
      then show ?thesis
        using "1.IH"(1) [OF Some digit] "1.prems" Some digit by (simp add: radix_loop.simps [of D p])
    next
      case sep
      then have g: "opt_digit D (peek (advance p)) \<and> s \<noteq> [] \<and> D (last s)"
        using "1.prems"(1) Some ahead by (auto simp: radix_loop.simps [of D p] split: if_splits)
      then have "separators_ok D (s @ [c]) (peek (advance p))"
        using "1.prems" Some by (auto intro!: separators_ok_snoc)
      then show ?thesis
        using "1.IH"(2) [OF Some sep] "1.prems" Some sep g ahead
        by (simp add: radix_loop.simps [of D p])
    next
      case stop
      then show ?thesis using "1.prems" Some by (simp add: radix_loop.simps [of D p])
    qed
  qed
qed

text \<open>
  Outside a radix prefix the code looks ahead only: what was read last is a digit, or a digit follows.
\<close>

definition digits_so_far :: "utext \<Rightarrow> LexerPos \<Rightarrow> bool" where
  "digits_so_far s p \<longleftrightarrow> separators_ok is_ascii_digit s (peek p)
     \<and> (s \<noteq> [] \<and> is_ascii_digit (last s) \<or> opt_digit is_ascii_digit (peek p))"

lemma digits_so_far_digit:
  "digits_so_far s p \<Longrightarrow> peek p = Some c \<Longrightarrow> is_ascii_digit c \<Longrightarrow> digits_so_far (s @ [c]) (advance p)"
  by (auto simp: digits_so_far_def intro!: separators_ok_snoc)

lemma digits_so_far_mark:
  "digits_so_far s p \<Longrightarrow> peek p = Some c \<Longrightarrow> \<not> is_ascii_digit c \<Longrightarrow> next_is_digit p \<Longrightarrow>
     digits_so_far (s @ [c]) (advance p)"
  by (auto simp: digits_so_far_def next_is_digit_peek intro!: separators_ok_snoc)

lemma decimal_loop_separators:
  "decimal_loop f p s = Ok (g, q, t) \<Longrightarrow> digits_so_far s p \<Longrightarrow>
     digits_so_far t q \<and> \<not> opt_digit is_ascii_digit (peek q)"
proof (induction f p s rule: decimal_loop.induct)
  case (1 f p s)
  show ?case
  proof (cases "peek p")
    case None
    then show ?thesis using "1.prems" by (simp add: decimal_loop.simps [of f p])
  next
    case (Some c)
    note step = decimal_loop.simps [of f p] Some
    consider (digit) "is_ascii_digit c" | (point) "\<not> is_ascii_digit c" "c = ch CHR ''.''" "\<not> f" "next_is_digit p"
      | (sep) "\<not> is_ascii_digit c" "c \<noteq> ch CHR ''.''" "c = US" "next_is_digit p" | (stop) "\<not> is_ascii_digit c" "g = f" "q = p" "t = s"
      using "1.prems"(1) by (auto simp: step split: if_splits)
    then show ?thesis
    proof cases
      case digit
      then show ?thesis using 1 digits_so_far_digit Some by (simp add: step)
    next
      case point
      have "decimal_loop True (advance p) (s @ [c]) = Ok (g, q, t)"
        using "1.prems"(1) [unfolded decimal_loop.simps [of f p]] point Some by simp
      from "1.IH"(2) [OF Some point(1-4) this] show ?thesis
        using digits_so_far_mark [OF "1.prems"(2) Some point(1,4)] .
    next
      case sep
      then show ?thesis using 1 digits_so_far_mark Some by (simp add: step)
    qed (use "1.prems" Some in simp)
  qed
qed

lemma exponent_loop_separators:
  "exponent_loop p s = Ok (q, t) \<Longrightarrow> digits_so_far s p \<Longrightarrow>
     digits_so_far t q \<and> \<not> opt_digit is_ascii_digit (peek q)"
proof (induction p s rule: exponent_loop.induct)
  case (1 p s)
  show ?case
  proof (cases "peek p")
    case None
    then show ?thesis using "1.prems" by (simp add: exponent_loop.simps [of p])
  next
    case (Some c)
    note step = exponent_loop.simps [of p] Some
    consider (digit) "is_ascii_digit c" | (sep) "\<not> is_ascii_digit c" "c = US" "next_is_digit p"
      | (stop) "\<not> is_ascii_digit c" "q = p" "t = s"
      using "1.prems"(1) by (auto simp: step split: if_splits)
    then show ?thesis
    proof cases
      case digit
      then show ?thesis using 1 digits_so_far_digit Some by (simp add: step)
    next
      case sep
      then show ?thesis using 1 digits_so_far_mark Some by (simp add: step)
    qed (use "1.prems" Some in simp)
  qed
qed

section \<open>Accepted numbers\<close>

lemma scan_exponent_separators:
  assumes ex: "scan_exponent f p s = Ok (g, q, t)"
    and s: "digits_so_far s p \<and> \<not> opt_digit is_ascii_digit (peek p)"
  shows "digits_so_far t q \<and> \<not> opt_digit is_ascii_digit (peek q)"
proof (cases "peek p")
  case None
  then show ?thesis using assms by (simp add: scan_exponent_def)
next
  case (Some e)
  obtain r u where r: "optional_sign (advance p) (s @ [e]) = (r, u)" by (rule prod.exhaust)
  let ?first = "if is_sign (peek_next p) then peek_third p else peek_next p"
  consider (stop) "q = p" "t = s"
    | (run) "e \<noteq> US" "opt_digit is_ascii_digit ?first" "exponent_loop r u = Ok (q, t)"
    using ex Some r by (auto simp: scan_exponent_def Let_def opt_digit_def split: if_splits sum.splits option.splits)
  then show ?thesis
  proof cases
    case run
    have e: "separators_ok is_ascii_digit (s @ [e]) x" for x
      using s Some run(1) by (auto simp: digits_so_far_def intro!: separators_ok_snoc)
    have "digits_so_far u r"
    proof (cases "is_sign (peek (advance p))")
      case True
      then obtain c where c: "peek (advance p) = Some c" "c \<noteq> US" by (auto simp: is_sign_def)
      then have "r = advance (advance p)" "u = (s @ [e]) @ [c]"
        using r True by (simp_all add: optional_sign_def)
      moreover have "opt_digit is_ascii_digit (peek (advance (advance p)))"
        using run(2) True Some c(1)
        by (auto simp: peek_next_def peek_third_def peek_Some opt_digit_def split: list.splits if_splits)
      ultimately show ?thesis
        using separators_ok_snoc [OF e, of c] c by (simp add: digits_so_far_def)
    next
      case False
      then have "r = advance p" "u = s @ [e]"
        using r by (auto simp: optional_sign_def split: option.splits if_splits)
      moreover have "opt_digit is_ascii_digit (peek (advance p))"
        using run(2) False Some
        by (auto simp: peek_next_def peek_third_def peek_Some opt_digit_def is_sign_def split: list.splits if_splits)
      ultimately show ?thesis using e by (simp add: digits_so_far_def)
    qed
    then show ?thesis using exponent_loop_separators [OF run(3)] by blast
  qed (use s in simp)
qed

lemma decimal_number_separators:
  assumes "decimal_number p = Ok (q, k)" and c: "peek p = Some c" "is_ascii_digit c"
    and k: "k = TInt s \<or> k = TFloat s"
  shows "separators_ok is_ascii_digit s (peek q) \<and> \<not> opt_digit is_ascii_digit (peek q)"
proof -
  obtain f r u g t where dec: "decimal_loop False p [] = Ok (f, r, u)"
    and ex: "scan_exponent f r u = Ok (g, q, t)" and "k = (if g then TFloat t else TInt t)"
    using assms(1) by (auto simp: decimal_number_def split: sum.splits)
  then have "t = s" using k by (auto split: if_splits)
  have "digits_so_far [] p" using c by (simp add: digits_so_far_def)
  from scan_exponent_separators [OF ex decimal_loop_separators [OF dec this]] show ?thesis
    by (simp add: digits_so_far_def \<open>t = s\<close>)
qed

lemma decimal_no_prefix:
  assumes "decimal_number p = Ok (q, k)" and c: "peek p = Some c" "is_ascii_digit c"
    and k: "k = TInt s \<or> k = TFloat s"
    and no: "peek p \<noteq> Some (ch CHR ''0'') \<or> peek_next p \<notin> (Some \<circ> ch) ` {CHR ''x'', CHR ''b'', CHR ''o''}"
  shows "number_digit s = is_ascii_digit"
proof -
  have "reads p s q" using decimal_number_reads [OF assms(1-3)] k by auto
  then have rest: "lp_rest p = s @ lp_rest q" by (auto simp: reads_def)
  have "take 2 s \<noteq> ustr [CHR ''0'', a]" if "a \<in> {CHR ''x'', CHR ''b'', CHR ''o''}" for a
  proof
    assume "take 2 s = ustr [CHR ''0'', a]"
    then obtain u where "s = ch CHR ''0'' # ch a # u"
      by (cases s; cases "tl s") (auto simp: ustr_def)
    then show False using no rest that by (auto simp: peek_Some peek_next_def)
  qed
  then show ?thesis by (simp add: number_digit_def)
qed

lemma radix_number_separators:
  assumes "radix_number a D p = Ok (q, TInt s)" and "\<not> D US"
    and "(a, D) \<in> {(CHR ''x'', is_ascii_hexdigit), (CHR ''b'', is_binary_digit), (CHR ''o'', is_octal_digit)}"
  shows "separators_ok (number_digit s) s (peek q) \<and> \<not> opt_digit (number_digit s) (peek q)"
proof -
  have loop: "radix_loop D (advance (advance p)) [ch CHR ''0'', ch a] = Ok (q, s)"
    using assms(1) by (auto simp: radix_number_def split: sum.splits)
  have "US \<notin> set [ch CHR ''0'', ch a]" using assms(3) by (auto simp: ch_def)
  then have "separators_ok D s (peek q) \<and> \<not> opt_digit D (peek q)" using radix_loop_separators [OF loop assms(2)] by simp
  moreover obtain r where "s = [ch CHR ''0'', ch a] @ r" using radix_loop_reads [OF loop] by blast
  ultimately show ?thesis
    using assms(3) by (auto simp: number_digit_def ustr_def numeral_2_eq_2 ch_def)
qed

text \<open>
  In the text of a number token every underscore stands between two digits of the radix the
  text has: neither a prefix, a decimal point, an exponent nor the end of the number is next to one.
\<close>

theorem number_separators:
  assumes scan: "scan_number p = Ok (q, k)" and c: "peek p = Some c" "is_ascii_digit c"
    and k: "k = TInt s \<or> k = TFloat s" and s: "s = pre @ US # post"
  shows "pre \<noteq> [] \<and> number_digit s (last pre) \<and> post \<noteq> [] \<and> number_digit s (hd post)"
proof -
  consider (dec) "decimal_number p = Ok (q, k)"
      "peek p \<noteq> Some (ch CHR ''0'') \<or> peek_next p \<notin> (Some \<circ> ch) ` {CHR ''x'', CHR ''b'', CHR ''o''}"
    | (radix) a D where "radix_number a D p = Ok (q, k)"
      "(a, D) \<in> {(CHR ''x'', is_ascii_hexdigit), (CHR ''b'', is_binary_digit), (CHR ''o'', is_octal_digit)}"
    using scan by (auto simp: scan_number_def split: if_splits)
  then have "separators_ok (number_digit s) s (peek q) \<and> \<not> opt_digit (number_digit s) (peek q)"
  proof cases
    case dec
    then show ?thesis using decimal_number_separators decimal_no_prefix c k by metis
  next
    case radix
    then have "radix_number a D p = Ok (q, TInt s)"
      using k by (auto simp: radix_number_def split: sum.splits)
    then show ?thesis using radix_number_separators radix(2) by fastforce
  qed
  then show ?thesis by (auto simp: separators_ok_def s split: if_splits)
qed

end
