(* ===== verification/Mimi_LexerDemo.thy ===== *)
theory Mimi_LexerDemo
  imports Mimi_LexerProps Mimi_LexerNumbers
begin

text \<open>
  The lexer on concrete sources: the properties of the lexer applied to small programs, and the
  behaviours that differ from what the comments of the code say.
\<close>

section \<open>Evaluation\<close>

text \<open>Characters are compared as characters; only the ranges and the marks need their codes.\<close>

lemma in_range_ch: "in_range a b (ch c) \<longleftrightarrow> (of_char a :: nat) \<le> of_char c \<and> (of_char c :: nat) \<le> of_char b"
  by (simp add: in_range_def ch_def)

lemma ch_below: "ch c < 256"
  by (simp add: ch_def)

lemma ch_not_BOM [simp]: "ch c \<noteq> BOM" "BOM \<noteq> ch c"
  using ch_below [of c] by (simp_all add: BOM_def)

lemma ch_ascii: "ch c < 128 \<longleftrightarrow> (of_char c :: nat) < 128"
  by (simp add: ch_def)

lemmas eval_chars = in_range_ch ch_ascii is_ascii_digit_def is_ascii_hexdigit_def is_binary_digit_def
  is_octal_digit_def is_ascii_letter_def is_alphanumeric_def is_ident_char_def is_inline_blank_def

lemmas eval_moves = advance_def peek_next_def peek_third_def skip_while.simps skip_whitespace_inline_def
  skip_line_comment_def skip_block_comment_def block_comment_loop.simps MAX_BLOCK_COMMENT_DEPTH_def
  skip_char_def pos_new_def

lemmas eval_tokens = lex_scan_token_def scan_ident_def take_while.simps keyword_or_ident_def keyword_table_def
  scan_number_def decimal_number_def decimal_loop.simps scan_exponent_def next_is_digit_def radix_number_def
  radix_loop.simps digit_separator_error_def optional_sign_def exponent_loop.simps is_sign_def
  operator_branch_def operator_branches_def scan_dots_def

lemmas eval_lines = scan_line_start_def spaces_after_def line_rest_def line_start_loop.simps at_content_def
  apply_indent_def advance_to_done_def push_token_def push_marks_def mark_def indent_top_def
  skip_prologue_def acc_new_def state_new_def dispatch_char_def Let_def

lemmas eval_lexer = eval_chars eval_moves eval_tokens eval_lines tokenize_loop.simps flow_tokenize_def

definition kinds :: "(LexerError + Token list) option \<Rightarrow> TokenKind list" where
  "kinds r = (case r of Some (Ok ts) \<Rightarrow> map tk_kind ts | _ \<Rightarrow> [])"

lemma kinds_simps [simp]: "kinds (Some (Ok ts)) = map tk_kind ts"
  by (simp add: kinds_def)

lemma kinds_tokens: "kinds r = k # ks \<Longrightarrow> \<exists>ts. r = Some (Ok ts) \<and> map tk_kind ts = k # ks"
  by (simp add: kinds_def split: option.splits sum.splits)

section \<open>The properties on small sources\<close>

theorem tokens_cover_source_witness:
  "\<exists>ts. flow_tokenize (\<lambda>_. False) (ustr ''a += 0xF_F'') Production = Some (Ok ts)
     \<and> laid_out_to_end (ustr ''a += 0xF_F'') ts
     \<and> map tk_kind ts = [TIdent (ustr ''a''), Opr OPlusEq, TInt (ustr ''0xF_F''), Pun PEof]"
proof -
  have "kinds (flow_tokenize (\<lambda>_. False) (ustr ''a += 0xF_F'') Production) =
      [TIdent (ustr ''a''), Opr OPlusEq, TInt (ustr ''0xF_F''), Pun PEof]"
    by (simp add: eval_lexer)
  from kinds_tokens [OF this] obtain ts where ts: "flow_tokenize (\<lambda>_. False) (ustr ''a += 0xF_F'') Production = Some (Ok ts)"
    "map tk_kind ts = [TIdent (ustr ''a''), Opr OPlusEq, TInt (ustr ''0xF_F''), Pun PEof]" by (elim exE conjE)
  show ?thesis by (intro exI [of _ ts] conjI ts tokens_cover_source [OF ts(1)])
qed

theorem layout_balanced_witness:
  "\<exists>ts. flow_tokenize (\<lambda>_. False) (ustr ''a:\<newline>    b'') Sketch = Some (Ok ts)
     \<and> well_bracketed Sketch ts
     \<and> map tk_kind ts = [TIdent (ustr ''a''), Pun PColon, Pun PNewline, Pun PIndent,
          TIdent (ustr ''b''), Pun PDedent, Pun PEof]"
proof -
  have "kinds (flow_tokenize (\<lambda>_. False) (ustr ''a:\<newline>    b'') Sketch) =
      [TIdent (ustr ''a''), Pun PColon, Pun PNewline, Pun PIndent, TIdent (ustr ''b''), Pun PDedent, Pun PEof]"
    by (simp add: eval_lexer)
  from kinds_tokens [OF this] obtain ts where ts: "flow_tokenize (\<lambda>_. False) (ustr ''a:\<newline>    b'') Sketch = Some (Ok ts)"
    "map tk_kind ts = [TIdent (ustr ''a''), Pun PColon, Pun PNewline, Pun PIndent,
      TIdent (ustr ''b''), Pun PDedent, Pun PEof]" by (elim exE conjE)
  show ?thesis by (intro exI [of _ ts] conjI ts layout_balanced [OF ts(1)])
qed

theorem operators_longest_match_witness:
  "\<exists>q. lex_scan_token (\<lambda>_. False) (pos_new (ustr ''<<a'')) (ch CHR ''<'') 1 1 = Ok (q, Opr OShl)
     \<and> length (operator_text OLt) \<le> length (operator_text OShl)"
proof -
  let ?p = "pos_new (ustr ''<<a'')"
  obtain q where q: "lex_scan_token (\<lambda>_. False) ?p (ch CHR ''<'') 1 1 = Ok (q, Opr OShl)"
    by (simp add: eval_chars eval_moves eval_tokens)
  have "length (operator_text OLt) \<le> length (operator_text OShl)"
    by (rule operators_longest_match [OF q, of _ "Opr OLt" _ "ustr ''<a''"])
      (simp_all add: pos_new_def op_text_def)
  with q show ?thesis by blast
qed

theorem number_separators_witness:
  "\<exists>q. scan_number (pos_new (ustr ''1_5'')) = Ok (q, TInt (ustr ''1_5''))
     \<and> number_digit (ustr ''1_5'') (last (ustr ''1'')) \<and> number_digit (ustr ''1_5'') (hd (ustr ''5''))"
proof -
  obtain q where q: "scan_number (pos_new (ustr ''1_5'')) = Ok (q, TInt (ustr ''1_5''))"
    by (simp add: eval_chars eval_moves eval_tokens)
  have c: "peek (pos_new (ustr ''1_5'')) = Some (ch CHR ''1'')" "is_ascii_digit (ch CHR ''1'')"
    by (simp_all add: pos_new_def eval_chars)
  have "TInt (ustr ''1_5'') = TInt (ustr ''1_5'') \<or> TInt (ustr ''1_5'') = TFloat (ustr ''1_5'')" by simp
  from number_separators [OF q c this, of "ustr ''1''" "ustr ''5''"] q show ?thesis by simp
qed

section \<open>Behaviours worth knowing\<close>

text \<open>
  A line comment after code swallows the newline that ends it: \<open>Dispatch\<close> continues in
  \<open>LineStart\<close> as on an empty line, which consumes the newline without a token. Without the
  comment the token is there, and the parser ends a \<open>return\<close> on it.
\<close>

lemma comment_swallows_newline:
  "kinds (flow_tokenize uni (ustr ''return // c\<newline>x'') Production) = [Kw KReturn, TIdent (ustr ''x''), Pun PEof]"
  "kinds (flow_tokenize uni (ustr ''return # c\<newline>x'') Production) = [Kw KReturn, TIdent (ustr ''x''), Pun PEof]"
  "kinds (flow_tokenize uni (ustr ''return\<newline>x'') Production) =
     [Kw KReturn, Pun PNewline, TIdent (ustr ''x''), Pun PEof]"
  by (simp_all add: eval_lexer)

text \<open>The source text of \<open>Unit\<close> is \<open>()\<close>, and lexing that gives two brackets.\<close>

lemma unit_text_is_not_unit:
  "source_text TUnit = ustr ''()''"
  "kinds (flow_tokenize uni (source_text TUnit) Production) = [Pun PLParen, Pun PRParen, Pun PEof]"
  "kinds (flow_tokenize uni (ustr ''unit'') Production) = [TUnit, Pun PEof]"
  by (simp_all add: eval_lexer)

text \<open>
  The hexadecimal digits between the braces of an escape are not bounded, and may be underscores only.
\<close>

lemma unicode_escape_can_fail:
  "\<exists>e. scan_string (pos_new (ustr [CHR 0x22, CHR 0x5C, CHR ''u'', CHR ''{'', CHR ''_'', CHR ''}'', CHR 0x22])) = Err e"
  by (simp add: eval_chars eval_moves scan_string_def string_loop.simps string_escape_def
      escape_table_def unicode_escape_def unicode_digits_def take_while.simps hex_or_underscore_def parse_hex_u32_def)

text \<open>
  In an indented source a comment that begins with a hash sign is content: it takes part in the layout.
\<close>

lemma hash_comment_indents:
  "kinds (flow_tokenize uni (ustr ''a\<newline>    # c\<newline>b'') Sketch) =
     [TIdent (ustr ''a''), Pun PNewline, Pun PIndent, Pun PDedent, TIdent (ustr ''b''), Pun PEof]"
  "kinds (flow_tokenize uni (ustr ''a\<newline>    // c\<newline>b'') Sketch) =
     [TIdent (ustr ''a''), Pun PNewline, TIdent (ustr ''b''), Pun PEof]"
  "flow_tokenize uni (ustr ''a\<newline>  # c\<newline>b'') Sketch = Some (Err (IndentNotMultipleOfFour 2 3))"
  by (simp_all add: eval_lexer)

end
