(* ===== verification/Mimi_Smt.thy ===== *)
theory Mimi_Smt
  imports Mimi_Prelude
begin

text \<open>
  What the verifier uses of the SMT solver (the crate \<open>z3\<close>): terms over unbounded integers and
  booleans with their meaning in a model, and the solver session of \<open>src/verifier/ctx.rs\<close> with its
  scopes and its crash recovery. The solver is a parameter: the answer to a set of assertions.
\<close>

section \<open>Terms\<close>

datatype zint =
    ZNum int
  | ZIntConst string
  | ZAdd zint zint
  | ZSub zint zint
  | ZMul zint zint
  | ZNeg zint
  | ZDiv zint zint
  | ZMod zint zint
  | ZIte zbool zint zint
and zbool =
    ZTruth bool
  | ZBoolConst string
  | ZEq zint zint
  | ZLt zint zint
  | ZLe zint zint
  | ZIff zbool zbool
  | ZNot zbool
  | ZAnd "zbool list"
  | ZOr "zbool list"
  | ZImp zbool zbool
  | ZIteB zbool zbool zbool

abbreviation ZNe :: "zint \<Rightarrow> zint \<Rightarrow> zbool" where "ZNe a b \<equiv> ZNot (ZEq a b)"
abbreviation ZGt :: "zint \<Rightarrow> zint \<Rightarrow> zbool" where "ZGt a b \<equiv> ZLt b a"
abbreviation ZGe :: "zint \<Rightarrow> zint \<Rightarrow> zbool" where "ZGe a b \<equiv> ZLe b a"

text \<open>
  A model gives a value to every constant, and to the division and the remainder by zero, which the
  theory of integers leaves open. Division is Euclidean: the remainder is never negative.
\<close>

record smt_model =
  sm_int :: "string \<Rightarrow> int"
  sm_bool :: "string \<Rightarrow> bool"
  sm_div0 :: "int \<Rightarrow> int"
  sm_mod0 :: "int \<Rightarrow> int"

definition euclid_div :: "smt_model \<Rightarrow> int \<Rightarrow> int \<Rightarrow> int" where
  "euclid_div m a b = (if b = 0 then sm_div0 m a else if 0 < b then a div b else - (a div - b))"

definition euclid_mod :: "smt_model \<Rightarrow> int \<Rightarrow> int \<Rightarrow> int" where
  "euclid_mod m a b = (if b = 0 then sm_mod0 m a else a mod \<bar>b\<bar>)"

fun zi_val :: "smt_model \<Rightarrow> zint \<Rightarrow> int" and zb_val :: "smt_model \<Rightarrow> zbool \<Rightarrow> bool" where
  "zi_val m (ZNum n) = n"
| "zi_val m (ZIntConst x) = sm_int m x"
| "zi_val m (ZAdd a b) = zi_val m a + zi_val m b"
| "zi_val m (ZSub a b) = zi_val m a - zi_val m b"
| "zi_val m (ZMul a b) = zi_val m a * zi_val m b"
| "zi_val m (ZNeg a) = - zi_val m a"
| "zi_val m (ZDiv a b) = euclid_div m (zi_val m a) (zi_val m b)"
| "zi_val m (ZMod a b) = euclid_mod m (zi_val m a) (zi_val m b)"
| "zi_val m (ZIte c a b) = (if zb_val m c then zi_val m a else zi_val m b)"
| "zb_val m (ZTruth b) = b"
| "zb_val m (ZBoolConst x) = sm_bool m x"
| "zb_val m (ZEq a b) = (zi_val m a = zi_val m b)"
| "zb_val m (ZLt a b) = (zi_val m a < zi_val m b)"
| "zb_val m (ZLe a b) = (zi_val m a \<le> zi_val m b)"
| "zb_val m (ZIff a b) = (zb_val m a = zb_val m b)"
| "zb_val m (ZNot a) = (\<not> zb_val m a)"
| "zb_val m (ZAnd as) = list_all (zb_val m) as"
| "zb_val m (ZOr as) = list_ex (zb_val m) as"
| "zb_val m (ZImp a b) = (zb_val m a \<longrightarrow> zb_val m b)"
| "zb_val m (ZIteB c a b) = (if zb_val m c then zb_val m a else zb_val m b)"

section \<open>The solver session\<close>

datatype SatResult = Sat | Unsat | Unknown

text \<open>How a call of the solver ends; an unknown answer with the milliseconds it took.\<close>

datatype solver_outcome = Answers bool | GivesUp nat | Crashes

type_synonym solver = "zbool list \<Rightarrow> solver_outcome"

text \<open>The scopes have the innermost first; each is the list of its assertions, the first first.\<close>

record SolverSession =
  ss_scopes :: "zbool list list"
  ss_replaced :: bool
  ss_poisoned :: bool
  ss_timeout_ms :: nat
  ss_timeout_observed :: bool

definition session_new :: "nat \<Rightarrow> SolverSession" where
  "session_new ms = \<lparr>ss_scopes = [[]], ss_replaced = False, ss_poisoned = False, ss_timeout_ms = ms,
     ss_timeout_observed = False\<rparr>"

definition session_reset :: "SolverSession \<Rightarrow> SolverSession" where
  "session_reset s =
     s\<lparr>ss_scopes := [[]], ss_replaced := False, ss_poisoned := False, ss_timeout_observed := False\<rparr>"

definition session_push :: "SolverSession \<Rightarrow> SolverSession" where
  "session_push s = s\<lparr>ss_scopes := [] # ss_scopes s\<rparr>"

definition session_pop :: "SolverSession \<Rightarrow> SolverSession" where
  "session_pop s = (if ss_replaced s then s else s\<lparr>ss_scopes := tl (ss_scopes s)\<rparr>)"

definition session_assert :: "zbool \<Rightarrow> SolverSession \<Rightarrow> SolverSession" where
  "session_assert b s = s\<lparr>ss_scopes := (hd (ss_scopes s) @ [b]) # tl (ss_scopes s)\<rparr>"

text \<open>What the solver is asked about: the assertions of all open scopes.\<close>

definition asserted :: "SolverSession \<Rightarrow> zbool list" where
  "asserted s = concat (rev (ss_scopes s))"

definition replace_solver :: "SolverSession \<Rightarrow> SolverSession" where
  "replace_solver s = s\<lparr>ss_scopes := [[]], ss_replaced := True, ss_poisoned := True\<rparr>"

definition session_check :: "solver \<Rightarrow> SolverSession \<Rightarrow> SatResult \<times> SolverSession" where
  "session_check solve s =
     (if ss_poisoned s then (Unknown, s)
      else case solve (asserted s) of
             Answers sat \<Rightarrow> (if sat then Sat else Unsat, s\<lparr>ss_replaced := False\<rparr>)
           | GivesUp ms \<Rightarrow>
               (Unknown, (replace_solver s)
                  \<lparr>ss_timeout_observed := ss_timeout_ms s \<noteq> 0 \<and> ss_timeout_ms s \<le> ms\<rparr>)
           | Crashes \<Rightarrow> (Unknown, replace_solver s))"

definition check_scope :: "solver \<Rightarrow> zbool \<Rightarrow> SolverSession \<Rightarrow> SatResult \<times> SolverSession" where
  "check_scope solve b s =
     (case session_check solve (session_assert b (session_push s)) of
        (r, s') \<Rightarrow> (r, session_pop s'))"

datatype VerifStatus =
    Proven | Disproven | NotInTrustedSubset | SolverUnknown | Timeout | InfrastructureError
  | RuntimeOnlyContract | NoObligations

definition unknown_status :: "SolverSession \<Rightarrow> VerifStatus" where
  "unknown_status s = (if ss_timeout_observed s then Timeout else SolverUnknown)"

section \<open>A solver that is right when it says that nothing satisfies its assertions\<close>

definition satisfies :: "smt_model \<Rightarrow> zbool list \<Rightarrow> bool" where
  "satisfies m bs \<longleftrightarrow> list_all (zb_val m) bs"

lemma satisfies_simps [simp]:
  "satisfies m []" "satisfies m (b # bs) \<longleftrightarrow> zb_val m b \<and> satisfies m bs"
  "satisfies m (as @ bs) \<longleftrightarrow> satisfies m as \<and> satisfies m bs"
  by (simp_all add: satisfies_def)

definition solver_sound :: "solver \<Rightarrow> bool" where
  "solver_sound solve \<longleftrightarrow> (\<forall>bs. solve bs = Answers False \<longrightarrow> (\<nexists>m. satisfies m bs))"

text \<open>A healthy session asks about everything that was asserted.\<close>

definition healthy :: "SolverSession \<Rightarrow> bool" where
  "healthy s \<longleftrightarrow> ss_scopes s \<noteq> [] \<and> \<not> ss_poisoned s \<and> \<not> ss_replaced s"

lemma asserted_assert [simp]: "ss_scopes s \<noteq> [] \<Longrightarrow> asserted (session_assert b s) = asserted s @ [b]"
  by (cases "ss_scopes s") (simp_all add: asserted_def session_assert_def)

lemma asserted_push [simp]: "asserted (session_push s) = asserted s"
  by (simp add: asserted_def session_push_def)

lemma healthy_assert [simp]: "healthy s \<Longrightarrow> healthy (session_assert b s)"
  by (simp add: healthy_def session_assert_def)

lemma healthy_new [simp]: "healthy (session_new ms)" "asserted (session_new ms) = []"
  by (simp_all add: healthy_def session_new_def asserted_def)

text \<open>
  A definite answer leaves the session as it was and is the answer to everything asserted; after a
  lost solver there is no definite answer any more.
\<close>

lemma check_scope_definite:
  assumes "check_scope solve b s = (r, s')" and "r \<noteq> Unknown" and "ss_scopes s \<noteq> []"
  shows "\<not> ss_poisoned s \<and> s' = s\<lparr>ss_replaced := False\<rparr> \<and> solve (asserted s @ [b]) = Answers (r = Sat)"
proof -
  obtain top rest where "ss_scopes s = top # rest" using assms(3) by (cases "ss_scopes s") auto
  then show ?thesis
    using assms(1,2)
    by (cases s)
      (auto simp: check_scope_def session_check_def session_assert_def session_push_def session_pop_def
        asserted_def replace_solver_def split: if_splits solver_outcome.splits)
qed

lemma check_scope_poisoned:
  "ss_poisoned s \<Longrightarrow> fst (check_scope solve b s) = Unknown"
  by (simp add: check_scope_def session_check_def session_assert_def session_push_def split: prod.splits)

end
