(* ===== verification/Mimi_Vir.thy ===== *)
theory Mimi_Vir
  imports Mimi_Smt
begin

text \<open>
  The verification IR of \<open>src/verifier/vir.rs\<close>: expressions over canonical variables, functions, the
  canonical text that is hashed, and the encoding into terms of the solver with the obligations of
  checked arithmetic. A float is its bit pattern; how a float is printed is a parameter.
\<close>

section \<open>Data\<close>

datatype VType = VtBool | VtI32 | VtI64 | VtF64

type_synonym VarId = nat

datatype VArithOp = VaAdd | VaSub | VaMul | VaDiv | VaMod

datatype VCmpOp = VcEq | VcNe | VcLt | VcGt | VcLe | VcGe

datatype VBoolOp = VbAnd | VbOr

datatype VExpr =
    VIntConst int
  | VBoolConst bool
  | VF64Const u64
  | VVar VarId
  | VOld VarId
  | VResult
  | VArith VArithOp VExpr VExpr VType
  | VNeg VExpr VType
  | VCompare VCmpOp VExpr VExpr
  | VBoolean VBoolOp "VExpr list"
  | VNot VExpr
  | VSelect VExpr VExpr VExpr
  | VOpaqueF64 VarId
  | VF64Compare VCmpOp VExpr VExpr

datatype VStmt = VLet VarId VExpr | VAssume VExpr | VAssert VExpr | VReturn VExpr

record TypestateAxioms =
  ts_source_invariants :: "VExpr list"
  ts_transition_guards :: "VExpr list"
  ts_target_invariants :: "VExpr list"

record VFunction =
  vf_id :: string
  vf_params :: "(VarId \<times> VType \<times> string) list"
  vf_body :: "VStmt list"
  vf_postconditions :: "VExpr list"
  vf_typestate :: "TypestateAxioms option"
  vf_verified_attr :: bool

fun contains_checked_arith :: "VExpr \<Rightarrow> bool" where
  "contains_checked_arith (VArith _ _ _ _) = True"
| "contains_checked_arith (VNeg _ _) = True"
| "contains_checked_arith (VCompare _ l r) = (contains_checked_arith l \<or> contains_checked_arith r)"
| "contains_checked_arith (VF64Compare _ l r) = (contains_checked_arith l \<or> contains_checked_arith r)"
| "contains_checked_arith (VBoolean _ es) = list_ex contains_checked_arith es"
| "contains_checked_arith (VNot e) = contains_checked_arith e"
| "contains_checked_arith (VSelect c t e) =
     (contains_checked_arith c \<or> contains_checked_arith t \<or> contains_checked_arith e)"
| "contains_checked_arith _ = False"

fun vexpr_ty :: "VExpr \<Rightarrow> VType option" where
  "vexpr_ty (VIntConst _) = Some VtI64"
| "vexpr_ty (VBoolConst _) = Some VtBool"
| "vexpr_ty (VF64Const _) = Some VtF64"
| "vexpr_ty (VVar _) = None"
| "vexpr_ty (VOld _) = None"
| "vexpr_ty VResult = None"
| "vexpr_ty (VArith _ _ _ ty) = Some ty"
| "vexpr_ty (VNeg _ ty) = Some ty"
| "vexpr_ty (VCompare _ _ _) = Some VtBool"
| "vexpr_ty (VBoolean _ _) = Some VtBool"
| "vexpr_ty (VNot _) = Some VtBool"
| "vexpr_ty (VSelect _ t _) = vexpr_ty t"
| "vexpr_ty (VOpaqueF64 _) = Some VtF64"
| "vexpr_ty (VF64Compare _ _ _) = Some VtBool"

definition param_var :: "string \<Rightarrow> VFunction \<Rightarrow> VarId option" where
  "param_var name f = map_option fst (List.find (\<lambda>(_, _, orig). orig = name) (vf_params f))"

section \<open>The canonical text\<close>

fun vtype_text :: "VType \<Rightarrow> string" where
  "vtype_text VtBool = ''bool''"
| "vtype_text VtI32 = ''i32''"
| "vtype_text VtI64 = ''i64''"
| "vtype_text VtF64 = ''f64''"

definition var_text :: "VarId \<Rightarrow> string" where
  "var_text v = ''%'' @ show_nat v"

fun arith_text :: "VArithOp \<Rightarrow> string" where
  "arith_text VaAdd = ''+''"
| "arith_text VaSub = ''-''"
| "arith_text VaMul = ''*''"
| "arith_text VaDiv = ''/''"
| "arith_text VaMod = ''%''"

fun cmp_text :: "VCmpOp \<Rightarrow> string" where
  "cmp_text VcEq = ''==''"
| "cmp_text VcNe = ''!=''"
| "cmp_text VcLt = ''<''"
| "cmp_text VcGt = ''>''"
| "cmp_text VcLe = ''<=''"
| "cmp_text VcGe = ''>=''"

fun vexpr_text :: "(u64 \<Rightarrow> string) \<Rightarrow> VExpr \<Rightarrow> string" where
  "vexpr_text ft (VIntConst n) = show_int n"
| "vexpr_text ft (VBoolConst b) = (if b then ''true'' else ''false'')"
| "vexpr_text ft (VF64Const w) = ft w @ ''f64''"
| "vexpr_text ft (VVar v) = var_text v"
| "vexpr_text ft (VOld v) = ''old('' @ var_text v @ '')''"
| "vexpr_text ft VResult = ''result''"
| "vexpr_text ft (VArith op l r _) =
     ''('' @ vexpr_text ft l @ '' '' @ arith_text op @ '' '' @ vexpr_text ft r @ '')''"
| "vexpr_text ft (VNeg e _) = ''(-'' @ vexpr_text ft e @ '')''"
| "vexpr_text ft (VCompare op l r) =
     ''('' @ vexpr_text ft l @ '' '' @ cmp_text op @ '' '' @ vexpr_text ft r @ '')''"
| "vexpr_text ft (VBoolean op es) =
     ''('' @ join_with (case op of VbAnd \<Rightarrow> '' && '' | VbOr \<Rightarrow> '' || '') (map (vexpr_text ft) es) @ '')''"
| "vexpr_text ft (VNot e) = ''!'' @ vexpr_text ft e"
| "vexpr_text ft (VSelect c t e) =
     ''if '' @ vexpr_text ft c @ '' { '' @ vexpr_text ft t @ '' } else { '' @ vexpr_text ft e @ '' }''"
| "vexpr_text ft (VOpaqueF64 v) = var_text v @ '':f64''"
| "vexpr_text ft (VF64Compare op l r) =
     ''('' @ vexpr_text ft l @ '' '' @ cmp_text op @ '' '' @ vexpr_text ft r @ ''):f64''"

fun vstmt_text :: "(u64 \<Rightarrow> string) \<Rightarrow> VStmt \<Rightarrow> string" where
  "vstmt_text ft (VLet v e) = ''let '' @ var_text v @ '' = '' @ vexpr_text ft e"
| "vstmt_text ft (VAssume e) = ''assume '' @ vexpr_text ft e"
| "vstmt_text ft (VAssert e) = ''assert '' @ vexpr_text ft e"
| "vstmt_text ft (VReturn e) = ''return '' @ vexpr_text ft e"

definition text_line :: "string \<Rightarrow> string" where
  "text_line s = s @ [CHR 0x0A]"

definition typestate_text :: "(u64 \<Rightarrow> string) \<Rightarrow> TypestateAxioms \<Rightarrow> string" where
  "typestate_text ft ts =
     (if ts_source_invariants ts = [] \<and> ts_transition_guards ts = [] \<and> ts_target_invariants ts = [] then []
      else text_line ''  typestate {''
        @ concat (map (\<lambda>e. text_line (''    source_inv '' @ vexpr_text ft e)) (ts_source_invariants ts))
        @ concat (map (\<lambda>e. text_line (''    guard '' @ vexpr_text ft e)) (ts_transition_guards ts))
        @ concat (map (\<lambda>e. text_line (''    target_inv '' @ vexpr_text ft e)) (ts_target_invariants ts))
        @ text_line ''  }'')"

definition normalized_repr :: "(u64 \<Rightarrow> string) \<Rightarrow> VFunction \<Rightarrow> string" where
  "normalized_repr ft f =
     (if vf_verified_attr f then ''#[verified] '' else [])
     @ ''func '' @ vf_id f @ ''(''
     @ join_with '', '' (map (\<lambda>(v, ty, _). var_text v @ '': '' @ vtype_text ty) (vf_params f))
     @ text_line '') {''
     @ concat (map (\<lambda>s. text_line (''  '' @ vstmt_text ft s)) (vf_body f))
     @ concat (map (\<lambda>e. text_line (''  ensures '' @ vexpr_text ft e)) (vf_postconditions f))
     @ (case vf_typestate f of None \<Rightarrow> [] | Some ts \<Rightarrow> typestate_text ft ts)
     @ ''}''"

section \<open>The encoding context\<close>

record VirZ3Ctx =
  zx_int_vars :: "VarId \<rightharpoonup> zint"
  zx_bool_vars :: "VarId \<rightharpoonup> zbool"
  zx_f64_vars :: "VarId \<rightharpoonup> zint"
  zx_old_int_vars :: "VarId \<rightharpoonup> zint"
  zx_old_bool_vars :: "VarId \<rightharpoonup> zbool"
  zx_result_int :: "zint option"
  zx_result_bool :: "zbool option"
  zx_result_f64 :: "zint option"
  zx_var_types :: "VarId \<rightharpoonup> VType"

definition zx_empty :: VirZ3Ctx where
  "zx_empty = \<lparr>zx_int_vars = Map.empty, zx_bool_vars = Map.empty, zx_f64_vars = Map.empty,
     zx_old_int_vars = Map.empty, zx_old_bool_vars = Map.empty, zx_result_int = None,
     zx_result_bool = None, zx_result_f64 = None, zx_var_types = Map.empty\<rparr>"

definition old_text :: "VarId \<Rightarrow> string" where
  "old_text v = ''old.'' @ var_text v"

definition register_let :: "VarId \<Rightarrow> VType \<Rightarrow> VirZ3Ctx \<Rightarrow> VirZ3Ctx" where
  "register_let v ty x0 =
     (let x = x0\<lparr>zx_var_types := (zx_var_types x0)(v \<mapsto> ty)\<rparr>
      in case ty of
           VtBool \<Rightarrow> x\<lparr>zx_bool_vars := (zx_bool_vars x)(v \<mapsto> ZBoolConst (var_text v))\<rparr>
         | VtF64 \<Rightarrow> x\<lparr>zx_f64_vars := (zx_f64_vars x)(v \<mapsto> ZIntConst (var_text v))\<rparr>
         | _ \<Rightarrow> x\<lparr>zx_int_vars := (zx_int_vars x)(v \<mapsto> ZIntConst (var_text v))\<rparr>)"

definition register_param :: "VarId \<Rightarrow> VType \<Rightarrow> VirZ3Ctx \<Rightarrow> VirZ3Ctx" where
  "register_param v ty x0 =
     (let x = register_let v ty x0
      in case ty of
           VtBool \<Rightarrow> x\<lparr>zx_old_bool_vars := (zx_old_bool_vars x)(v \<mapsto> ZBoolConst (old_text v))\<rparr>
         | VtF64 \<Rightarrow> x
         | _ \<Rightarrow> x\<lparr>zx_old_int_vars := (zx_old_int_vars x)(v \<mapsto> ZIntConst (old_text v))\<rparr>)"

definition zx_new :: "VFunction \<Rightarrow> VirZ3Ctx" where
  "zx_new f = foldl (\<lambda>x (v, ty, _). register_param v ty x) zx_empty (vf_params f)"

definition setup_result :: "bool \<Rightarrow> bool \<Rightarrow> VirZ3Ctx \<Rightarrow> VirZ3Ctx" where
  "setup_result returns_f64 returns_bool x =
     (if returns_bool then x\<lparr>zx_result_bool := Some (ZBoolConst ''result'')\<rparr>
      else if returns_f64 then x\<lparr>zx_result_f64 := Some (ZIntConst ''result'')\<rparr>
      else x\<lparr>zx_result_int := Some (ZIntConst ''result'')\<rparr>)"

end
