(* ===== verification/Mimi_VirEncode.thy ===== *)
theory Mimi_VirEncode
  imports Mimi_Vir
begin

text \<open>
  The encoding of verification IR into terms of the solver (\<open>encode_int\<close>, \<open>encode_bool\<close>,
  \<open>encode_f64\<close> of \<open>src/verifier/vir.rs\<close>) and the obligations under which checked arithmetic is
  defined (\<open>collect_definedness\<close>).
\<close>

section \<open>Values\<close>

definition truncated_div :: "zint \<Rightarrow> zint \<Rightarrow> zint" where
  "truncated_div l r =
     (let aa = ZIte (ZGe l (ZNum 0)) l (ZNeg l);
          ab = ZIte (ZGe r (ZNum 0)) r (ZNeg r);
          abs_q = ZDiv aa ab
      in ZIte (ZIff (ZGe l (ZNum 0)) (ZGe r (ZNum 0))) abs_q (ZNeg abs_q))"

definition truncated_mod :: "zint \<Rightarrow> zint \<Rightarrow> zint" where
  "truncated_mod l r =
     (let aa = ZIte (ZGe l (ZNum 0)) l (ZNeg l);
          ab = ZIte (ZGe r (ZNum 0)) r (ZNeg r);
          abs_mod = ZMod aa ab
      in ZIte (ZGe l (ZNum 0)) abs_mod (ZNeg abs_mod))"

fun arith_term :: "VArithOp \<Rightarrow> zint \<Rightarrow> zint \<Rightarrow> zint" where
  "arith_term VaAdd l r = ZAdd l r"
| "arith_term VaSub l r = ZSub l r"
| "arith_term VaMul l r = ZMul l r"
| "arith_term VaDiv l r = truncated_div l r"
| "arith_term VaMod l r = truncated_mod l r"

fun int_comparison :: "VCmpOp \<Rightarrow> zint \<Rightarrow> zint \<Rightarrow> zbool" where
  "int_comparison VcEq l r = ZEq l r"
| "int_comparison VcNe l r = ZNe l r"
| "int_comparison VcLt l r = ZLt l r"
| "int_comparison VcGt l r = ZGt l r"
| "int_comparison VcLe l r = ZLe l r"
| "int_comparison VcGe l r = ZGe l r"

text \<open>Truth values have no order.\<close>

fun bool_comparison :: "VCmpOp \<Rightarrow> zbool \<Rightarrow> zbool \<Rightarrow> zbool option" where
  "bool_comparison VcEq l r = Some (ZIff l r)"
| "bool_comparison VcNe l r = Some (ZNot (ZIff l r))"
| "bool_comparison _ l r = None"

text \<open>A term of the integers as a truth value: it is not zero.\<close>

definition nonzero :: "zint \<Rightarrow> zbool" where
  "nonzero v = ZNe v (ZNum 0)"

fun encode_bool_operand :: "VirZ3Ctx \<Rightarrow> VExpr \<Rightarrow> zbool option" where
  "encode_bool_operand x (VVar v) = zx_bool_vars x v"
| "encode_bool_operand x (VOld v) = zx_old_bool_vars x v"
| "encode_bool_operand x VResult = zx_result_bool x"
| "encode_bool_operand x (VBoolConst b) = Some (ZTruth b)"
| "encode_bool_operand x _ = None"

lemma map_filter_fundef_cong [fundef_cong]:
  "xs = ys \<Longrightarrow> (\<And>x. x \<in> set ys \<Longrightarrow> f x = g x) \<Longrightarrow> List.map_filter f xs = List.map_filter g ys"
  by (induction ys arbitrary: xs) (auto simp: List.map_filter_simps split: option.split)

fun encode_int :: "VirZ3Ctx \<Rightarrow> VExpr \<Rightarrow> zint option"
  and encode_bool :: "VirZ3Ctx \<Rightarrow> VExpr \<Rightarrow> zbool option" where
  "encode_int x (VIntConst n) = Some (ZNum n)"
| "encode_int x (VVar v) = zx_int_vars x v"
| "encode_int x (VOld v) = zx_old_int_vars x v"
| "encode_int x VResult = zx_result_int x"
| "encode_int x (VArith op l r ty) =
     (if ty = VtF64 then None
      else Option.bind (encode_int x l) (\<lambda>a. Option.bind (encode_int x r) (\<lambda>b. Some (arith_term op a b))))"
| "encode_int x (VNeg e ty) = map_option ZNeg (encode_int x e)"
| "encode_int x (VSelect c t e) =
     Option.bind (encode_bool x c) (\<lambda>zc. Option.bind (encode_int x t) (\<lambda>zt.
       Option.bind (encode_int x e) (\<lambda>ze. Some (ZIte zc zt ze))))"
| "encode_int x _ = None"
| "encode_bool x (VBoolConst b) = Some (ZTruth b)"
| "encode_bool x (VVar v) =
     (case zx_bool_vars x v of Some b \<Rightarrow> Some b | None \<Rightarrow> map_option nonzero (zx_int_vars x v))"
| "encode_bool x (VOld v) =
     (case zx_old_bool_vars x v of Some b \<Rightarrow> Some b | None \<Rightarrow> map_option nonzero (zx_old_int_vars x v))"
| "encode_bool x VResult =
     (case zx_result_bool x of Some b \<Rightarrow> Some b | None \<Rightarrow> map_option nonzero (zx_result_int x))"
| "encode_bool x (VCompare op l r) =
     (case (encode_bool_operand x l, encode_bool_operand x r) of
        (Some a, Some b) \<Rightarrow> bool_comparison op a b
      | _ \<Rightarrow> Option.bind (encode_int x l) (\<lambda>a. Option.bind (encode_int x r) (\<lambda>b. Some (int_comparison op a b))))"
| "encode_bool x (VF64Compare op l r) = None"
| "encode_bool x (VBoolean op es) =
     (let encoded = List.map_filter (encode_bool x) es
      in if length encoded \<noteq> length es then None
         else Some (case op of VbAnd \<Rightarrow> ZAnd encoded | VbOr \<Rightarrow> ZOr encoded))"
| "encode_bool x (VNot e) = map_option ZNot (encode_bool x e)"
| "encode_bool x (VSelect c t e) =
     Option.bind (encode_bool x c) (\<lambda>zc. Option.bind (encode_bool x t) (\<lambda>zt.
       Option.bind (encode_bool x e) (\<lambda>ze. Some (ZIteB zc zt ze))))"
| "encode_bool x _ = None"

fun encode_f64 :: "VirZ3Ctx \<Rightarrow> VExpr \<Rightarrow> zint option" where
  "encode_f64 x (VF64Const w) = Some (ZNum (sint w))"
| "encode_f64 x (VOpaqueF64 v) = zx_f64_vars x v"
| "encode_f64 x (VVar v) = (if zx_var_types x v = Some VtF64 then zx_f64_vars x v else None)"
| "encode_f64 x VResult = zx_result_f64 x"
| "encode_f64 x _ = None"

section \<open>Definedness\<close>

text \<open>The bounds of the checked widths.\<close>

fun width_bounds :: "VType \<Rightarrow> (int \<times> int) option" where
  "width_bounds VtI32 = Some (- (2 ^ 31), 2 ^ 31 - 1)"
| "width_bounds VtI64 = Some (- (2 ^ 63), 2 ^ 63 - 1)"
| "width_bounds _ = None"

type_synonym obligation = "zbool \<times> string"

definition overflow_failure :: string where
  "overflow_failure = ''integer overflow is not excluded by preconditions''"

fun arith_obligation :: "VArithOp \<Rightarrow> int \<Rightarrow> int \<Rightarrow> zint \<Rightarrow> zint \<Rightarrow> obligation" where
  "arith_obligation VaDiv lo hi l r =
     (ZAnd [ZNe r (ZNum 0), ZNot (ZAnd [ZEq l (ZNum lo), ZEq r (ZNum (-1))])],
      ''integer operation is undefined (zero divisor or MIN / -1)'')"
| "arith_obligation VaMod lo hi l r =
     (ZAnd [ZNe r (ZNum 0), ZNot (ZAnd [ZEq l (ZNum lo), ZEq r (ZNum (-1))])],
      ''integer operation is undefined (zero divisor or MIN / -1)'')"
| "arith_obligation op lo hi l r =
     (ZAnd [ZGe (arith_term op l r) (ZNum lo), ZLe (arith_term op l r) (ZNum hi)], overflow_failure)"

definition guarded :: "zbool \<Rightarrow> obligation list \<Rightarrow> obligation list" where
  "guarded c obs = map (\<lambda>(b, msg). (ZImp c b, msg)) obs"

fun collect_definedness :: "VirZ3Ctx \<Rightarrow> VExpr \<Rightarrow> obligation list" where
  "collect_definedness x (VArith op l r ty) =
     collect_definedness x l @ collect_definedness x r
     @ (case width_bounds ty of
          None \<Rightarrow> []
        | Some (lo, hi) \<Rightarrow>
            (case (encode_int x l, encode_int x r) of
               (Some a, Some b) \<Rightarrow> [arith_obligation op lo hi a b]
             | _ \<Rightarrow> [(ZTruth False, ''integer operation has unencodable operand (internal error)'')]))"
| "collect_definedness x (VNeg e ty) =
     collect_definedness x e
     @ (case width_bounds ty of
          None \<Rightarrow> []
        | Some (lo, hi) \<Rightarrow>
            (case encode_int x e of
               Some a \<Rightarrow> [(ZNe a (ZNum lo), overflow_failure)]
             | None \<Rightarrow> [(ZTruth False, ''integer negation has unencodable operand (internal error)'')]))"
| "collect_definedness x (VSelect c t e) =
     collect_definedness x c
     @ (case encode_bool x c of
          None \<Rightarrow> []
        | Some zc \<Rightarrow> guarded zc (collect_definedness x t) @ guarded (ZNot zc) (collect_definedness x e))"
| "collect_definedness x (VBoolean _ es) = concat (map (collect_definedness x) es)"
| "collect_definedness x (VNot e) = collect_definedness x e"
| "collect_definedness x (VCompare _ l r) = collect_definedness x l @ collect_definedness x r"
| "collect_definedness x (VF64Compare _ l r) = collect_definedness x l @ collect_definedness x r"
| "collect_definedness x _ = []"

end
