(* ===== verification/Mimi_VirVerify.thy ===== *)
theory Mimi_VirVerify
  imports Mimi_VirEncode
begin

text \<open>
  Checking a function of the verification IR: the part of \<open>verify_func_vir\<close>
  (\<open>src/verifier/func.rs\<close>) behind the lowering, and \<open>verify_transition_vir\<close>. Of a result the
  diagnostic, the duration and the artifact are left out; the text of a counterexample comes from
  the model of the solver and is a parameter.
\<close>

datatype TrustedSubsetDomain = TdContract | TdBody

record VerificationResult =
  vr_func_name :: string
  vr_status :: VerifStatus
  vr_message :: string
  vr_constraint_count :: nat
  vr_domain :: "TrustedSubsetDomain option"

record verify_state =
  vs_ctx :: VirZ3Ctx
  vs_session :: SolverSession
  vs_count :: nat

definition result_of :: "string \<Rightarrow> VerifStatus \<Rightarrow> string \<Rightarrow> verify_state \<Rightarrow> VerificationResult" where
  "result_of name status msg st = \<lparr>vr_func_name = name, vr_status = status, vr_message = msg,
     vr_constraint_count = vs_count st, vr_domain = None\<rparr>"

definition outside :: "string \<Rightarrow> TrustedSubsetDomain \<Rightarrow> string \<Rightarrow> verify_state \<Rightarrow> VerificationResult" where
  "outside name domain msg st =
     (result_of name NotInTrustedSubset msg st)\<lparr>vr_domain := Some domain\<rparr>"

definition assume_term :: "zbool \<Rightarrow> verify_state \<Rightarrow> verify_state" where
  "assume_term b st =
     st\<lparr>vs_session := session_assert b (vs_session st), vs_count := vs_count st + 1\<rparr>"

section \<open>Parameters\<close>

definition range_axiom :: "VType \<Rightarrow> zint \<Rightarrow> verify_state \<Rightarrow> verify_state" where
  "range_axiom ty p st =
     (case width_bounds ty of
        None \<Rightarrow> st
      | Some (lo, hi) \<Rightarrow> assume_term (ZAnd [ZGe p (ZNum lo), ZLe p (ZNum hi)]) st)"

definition param_axioms :: "VarId \<Rightarrow> VType \<Rightarrow> verify_state \<Rightarrow> verify_state" where
  "param_axioms v ty st0 =
     (let x = vs_ctx st0;
          st1 = (case zx_int_vars x v of
                   None \<Rightarrow> st0
                 | Some p \<Rightarrow>
                     range_axiom ty p
                       (case zx_old_int_vars x v of None \<Rightarrow> st0 | Some old \<Rightarrow> assume_term (ZEq p old) st0))
      in case (zx_bool_vars x v, zx_old_bool_vars x v) of
           (Some p, Some old) \<Rightarrow> assume_term (ZIff p old) st1
         | _ \<Rightarrow> st1)"

section \<open>Registration of the variables of the body\<close>

fun collect_var_ids :: "VExpr \<Rightarrow> (VarId \<times> VType) list" where
  "collect_var_ids (VVar v) = [(v, VtI64)]"
| "collect_var_ids (VOld v) = [(v, VtI64)]"
| "collect_var_ids (VArith _ l r _) = collect_var_ids l @ collect_var_ids r"
| "collect_var_ids (VNeg e _) = collect_var_ids e"
| "collect_var_ids (VCompare _ l r) = collect_var_ids l @ collect_var_ids r"
| "collect_var_ids (VF64Compare _ l r) = collect_var_ids l @ collect_var_ids r"
| "collect_var_ids (VBoolean _ es) = concat (map collect_var_ids es)"
| "collect_var_ids (VNot e) = collect_var_ids e"
| "collect_var_ids (VSelect c t e) = collect_var_ids c @ collect_var_ids t @ collect_var_ids e"
| "collect_var_ids (VOpaqueF64 v) = [(v, VtF64)]"
| "collect_var_ids _ = []"

definition ty_or_i64 :: "VType option \<Rightarrow> VType" where
  "ty_or_i64 t = (case t of None \<Rightarrow> VtI64 | Some ty \<Rightarrow> ty)"

fun stmt_var_ids :: "VStmt \<Rightarrow> (VarId \<times> VType) list" where
  "stmt_var_ids (VAssume e) = collect_var_ids e"
| "stmt_var_ids (VAssert e) = collect_var_ids e"
| "stmt_var_ids (VLet v e) = (v, ty_or_i64 (vexpr_ty e)) # collect_var_ids e"
| "stmt_var_ids (VReturn e) = collect_var_ids e"

definition register_unknown :: "VirZ3Ctx \<Rightarrow> VarId \<times> VType \<Rightarrow> VirZ3Ctx" where
  "register_unknown x vt = (if zx_var_types x (fst vt) = None then register_let (fst vt) (snd vt) x else x)"

definition preregister :: "VFunction \<Rightarrow> VirZ3Ctx \<Rightarrow> VirZ3Ctx" where
  "preregister f x =
     foldl register_unknown x
       (concat (map stmt_var_ids (vf_body f)) @ concat (map collect_var_ids (vf_postconditions f)))"

section \<open>Statements\<close>

fun check_obligations :: "solver \<Rightarrow> string \<Rightarrow> obligation list \<Rightarrow> verify_state \<Rightarrow>
    VerificationResult option \<times> verify_state" where
  "check_obligations solve name [] st = (None, st)"
| "check_obligations solve name ((condition, failure) # obs) st =
     (case check_scope solve (ZNot condition) (vs_session st) of
        (Unsat, s) \<Rightarrow> check_obligations solve name obs (st\<lparr>vs_session := session_assert condition s\<rparr>)
      | (Sat, s) \<Rightarrow> (Some (result_of name Disproven failure st), st\<lparr>vs_session := s\<rparr>)
      | (Unknown, s) \<Rightarrow>
          (Some (result_of name SolverUnknown
             (''solver could not prove integer definedness (VIR): '' @ failure) st),
           st\<lparr>vs_session := s\<rparr>))"

definition vir_check_definedness :: "solver \<Rightarrow> string \<Rightarrow> VExpr \<Rightarrow> verify_state \<Rightarrow>
    VerificationResult option \<times> verify_state" where
  "vir_check_definedness solve name e st =
     check_obligations solve name (collect_definedness (vs_ctx st) e) st"

type_synonym verify_step = "VerificationResult + verify_state"

text \<open>Binds a term to what an expression is encoded as, or gives up.\<close>

definition bind_term ::
    "string \<Rightarrow> string \<Rightarrow> 'a option \<Rightarrow> 'a option \<Rightarrow> ('a \<Rightarrow> 'a \<Rightarrow> zbool) \<Rightarrow> verify_state \<Rightarrow> verify_step" where
  "bind_term name msg encoded target eq st =
     (case encoded of
        None \<Rightarrow> Err (outside name TdBody msg st)
      | Some b \<Rightarrow> Ok (case target of None \<Rightarrow> st | Some t \<Rightarrow> assume_term (eq t b) st))"

definition verify_let :: "solver \<Rightarrow> string \<Rightarrow> VarId \<Rightarrow> VExpr \<Rightarrow> verify_state \<Rightarrow> verify_step" where
  "verify_let solve name v e st0 =
     (case vir_check_definedness solve name e st0 of
        (Some r, _) \<Rightarrow> Err r
      | (None, st1) \<Rightarrow>
          let ty = ty_or_i64 (zx_var_types (vs_ctx st1) v);
              x = register_let v ty (vs_ctx st1);
              st = st1\<lparr>vs_ctx := x\<rparr>
          in case ty of
               VtBool \<Rightarrow> bind_term name ''cannot encode let binding (bool) in VIR''
                 (encode_bool x e) (zx_bool_vars x v) ZIff st
             | VtF64 \<Rightarrow> bind_term name ''cannot encode let binding (f64) in VIR''
                 (encode_f64 x e) (zx_f64_vars x v) ZEq st
             | _ \<Rightarrow> bind_term name ''cannot encode let binding (int) in VIR''
                 (encode_int x e) (zx_int_vars x v) ZEq st)"

definition verify_return :: "solver \<Rightarrow> string \<Rightarrow> bool \<Rightarrow> bool \<Rightarrow> VExpr \<Rightarrow> verify_state \<Rightarrow> verify_step" where
  "verify_return solve name returns_f64 returns_bool e st =
     (let x = vs_ctx st
      in case (if returns_bool
               then bind_term name ''cannot encode return expression (bool) in VIR''
                      (encode_bool x e) (zx_result_bool x) ZIff st
               else if \<not> returns_f64
               then (case vir_check_definedness solve name e st of
                       (Some r, _) \<Rightarrow> Err r
                     | (None, st1) \<Rightarrow>
                         bind_term name ''cannot encode return expression (int) in VIR''
                           (encode_int x e) (zx_result_int x) ZEq st1)
               else Ok st) of
           Err r \<Rightarrow> Err r
         | Ok st2 \<Rightarrow>
             (if returns_f64
              then bind_term name ''cannot encode return expression (f64) in VIR''
                     (encode_f64 x e) (zx_result_f64 x) ZEq st2
              else Ok st2))"

definition verify_assume :: "string \<Rightarrow> VExpr \<Rightarrow> verify_state \<Rightarrow> verify_step" where
  "verify_assume name e st =
     (case encode_bool (vs_ctx st) e of
        None \<Rightarrow> Err (outside name TdContract ''cannot encode precondition (assumption) in VIR'' st)
      | Some b \<Rightarrow> Ok (assume_term b st))"

definition verify_assert :: "solver \<Rightarrow> string \<Rightarrow> VExpr \<Rightarrow> verify_state \<Rightarrow> verify_step" where
  "verify_assert solve name e st =
     (case encode_bool (vs_ctx st) e of
        None \<Rightarrow> Err (outside name TdContract ''cannot encode math obligation in VIR'' st)
      | Some b \<Rightarrow>
          (case check_scope solve (ZNot b) (vs_session st) of
             (Unsat, s) \<Rightarrow> Ok (assume_term b (st\<lparr>vs_session := s\<rparr>))
           | (Sat, s) \<Rightarrow>
               Err (result_of name Disproven ''math obligation is not implied by preconditions (VIR)'' st)
           | (Unknown, s) \<Rightarrow>
               Err (result_of name (unknown_status s) ''solver could not prove math obligation (VIR)'' st)))"

fun verify_stmt :: "solver \<Rightarrow> string \<Rightarrow> bool \<Rightarrow> bool \<Rightarrow> VStmt \<Rightarrow> verify_state \<Rightarrow> verify_step" where
  "verify_stmt solve name rf rb (VAssume e) st = verify_assume name e st"
| "verify_stmt solve name rf rb (VAssert e) st = verify_assert solve name e st"
| "verify_stmt solve name rf rb (VLet v e) st = verify_let solve name v e st"
| "verify_stmt solve name rf rb (VReturn e) st = verify_return solve name rf rb e st"

fun verify_stmts :: "solver \<Rightarrow> string \<Rightarrow> bool \<Rightarrow> bool \<Rightarrow> VStmt list \<Rightarrow> verify_state \<Rightarrow> verify_step" where
  "verify_stmts solve name rf rb [] st = Ok st"
| "verify_stmts solve name rf rb (s # ss) st =
     (case verify_stmt solve name rf rb s st of
        Err r \<Rightarrow> Err r | Ok st' \<Rightarrow> verify_stmts solve name rf rb ss st')"

section \<open>Postconditions\<close>

text \<open>The index of the first violated one, or whether one was left undecided.\<close>

datatype post_verdict = PvViolated nat | PvUndecided | PvHold

fun check_posts :: "solver \<Rightarrow> string \<Rightarrow> nat \<Rightarrow> bool \<Rightarrow> VExpr list \<Rightarrow> verify_state \<Rightarrow>
    VerificationResult + post_verdict \<times> verify_state" where
  "check_posts solve name i unknown [] st = Ok (if unknown then PvUndecided else PvHold, st)"
| "check_posts solve name i unknown (post # posts) st =
     (case encode_bool (vs_ctx st) post of
        None \<Rightarrow> Err (outside name TdContract (''cannot encode postcondition '' @ show_nat i @ '' in VIR'') st)
      | Some b \<Rightarrow>
          (case check_scope solve (ZNot b) (vs_session st) of
             (Sat, s) \<Rightarrow> Ok (PvViolated i, st\<lparr>vs_session := s\<rparr>)
           | (Unknown, s) \<Rightarrow> check_posts solve name (i + 1) True posts (st\<lparr>vs_session := s\<rparr>)
           | (Unsat, s) \<Rightarrow> check_posts solve name (i + 1) unknown posts (st\<lparr>vs_session := s\<rparr>)))"

definition verdict_result :: "(nat \<Rightarrow> string) \<Rightarrow> string \<Rightarrow> VExpr list \<Rightarrow> post_verdict \<Rightarrow> verify_state \<Rightarrow>
    VerificationResult" where
  "verdict_result cex name posts v st =
     (case v of
        PvViolated i \<Rightarrow>
          result_of name Disproven
            (''verification failed for '' @ quoted name @ '' (VIR): postcondition not satisfied''
             @ (if cex i = [] then [] else CHR 0x0A # cex i)) st
      | PvUndecided \<Rightarrow>
          result_of name (unknown_status (vs_session st)) ''verification inconclusive (VIR)'' st
      | PvHold \<Rightarrow>
          result_of name Proven
            (if list_ex contains_checked_arith posts
             then ''postconditions verified (VIR; postcondition arithmetic assumed defined ''
               @ [CHR 0xE2, CHR 0x80, CHR 0x94] @ '' integers modeled as unbounded Int)''
             else ''postconditions verified (VIR)'') st)"

section \<open>Functions\<close>

definition is_assume :: "VStmt \<Rightarrow> bool" where
  "is_assume s = (case s of VAssume _ \<Rightarrow> True | _ \<Rightarrow> False)"

definition is_assert :: "VStmt \<Rightarrow> bool" where
  "is_assert s = (case s of VAssert _ \<Rightarrow> True | _ \<Rightarrow> False)"

definition verify_start :: "VFunction \<Rightarrow> bool \<Rightarrow> bool \<Rightarrow> SolverSession \<Rightarrow> verify_state" where
  "verify_start f rf rb session =
     (let st = foldl (\<lambda>st (v, ty, _). param_axioms v ty st)
                 \<lparr>vs_ctx = setup_result rf rb (zx_new f), vs_session = session, vs_count = 0\<rparr> (vf_params f)
      in st\<lparr>vs_ctx := preregister f (vs_ctx st)\<rparr>)"

definition verify_vfunction :: "solver \<Rightarrow> (nat \<Rightarrow> string) \<Rightarrow> VFunction \<Rightarrow> string \<Rightarrow> bool \<Rightarrow> bool \<Rightarrow>
    SolverSession \<Rightarrow> VerificationResult option" where
  "verify_vfunction solve cex f name rf rb session =
     (if \<not> list_ex is_assume (vf_body f) \<and> vf_postconditions f = [] \<and> \<not> list_ex is_assert (vf_body f)
      then None
      else Some (case verify_stmts solve name rf rb (vf_body f) (verify_start f rf rb session) of
        Err r \<Rightarrow> r
      | Ok st \<Rightarrow>
          (case session_check solve (vs_session st) of
             (Unsat, _) \<Rightarrow> result_of name Disproven ''preconditions are unsatisfiable (VIR)'' st
           | (Unknown, s) \<Rightarrow>
               result_of name (unknown_status s) ''precondition satisfiability unknown (VIR)'' st
           | (Sat, s) \<Rightarrow>
               if vf_postconditions f = []
               then result_of name Proven ''preconditions satisfiable, no postconditions (VIR)'' st
               else (case check_posts solve name 0 False (vf_postconditions f) (st\<lparr>vs_session := s\<rparr>) of
                       Err r \<Rightarrow> r
                     | Ok (v, st') \<Rightarrow> verdict_result cex name (vf_postconditions f) v st'))))"

section \<open>Flow transitions\<close>

fun assume_all :: "string \<Rightarrow> VExpr list \<Rightarrow> verify_state \<Rightarrow> verify_step" where
  "assume_all name [] st = Ok st"
| "assume_all name (e # es) st =
     (case encode_bool (vs_ctx st) e of
        None \<Rightarrow> Err (outside name TdContract ''cannot encode transition invariant/guard in VIR'' st)
      | Some b \<Rightarrow> assume_all name es (assume_term b st))"

fun prove_targets :: "solver \<Rightarrow> string \<Rightarrow> nat \<Rightarrow> bool \<Rightarrow> VExpr list \<Rightarrow> verify_state \<Rightarrow> VerificationResult" where
  "prove_targets solve name i unknown [] st =
     (if unknown
      then result_of name (unknown_status (vs_session st)) ''transition typestate verification inconclusive (VIR)'' st
      else result_of name Proven ''transition typestate context verified (VIR)'' st)"
| "prove_targets solve name i unknown (e # es) st =
     (case encode_bool (vs_ctx st) e of
        None \<Rightarrow>
          outside name TdContract
            (''cannot encode transition target invariant '' @ show_nat i @ '' in VIR'') st
      | Some b \<Rightarrow>
          (case check_scope solve (ZNot b) (vs_session st) of
             (Sat, s) \<Rightarrow>
               result_of name Disproven (''transition target invariant '' @ show_nat i
                 @ '' not implied by source invariants and guards (VIR)'') st
           | (Unknown, s) \<Rightarrow> prove_targets solve name (i + 1) True es (st\<lparr>vs_session := s\<rparr>)
           | (Unsat, s) \<Rightarrow> prove_targets solve name (i + 1) unknown es (st\<lparr>vs_session := s\<rparr>)))"

definition transition_start :: "VFunction \<Rightarrow> SolverSession \<Rightarrow> verify_state" where
  "transition_start f session =
     foldl (\<lambda>st (v, ty, _). param_axioms v ty st)
       \<lparr>vs_ctx = zx_new f, vs_session = session, vs_count = 0\<rparr> (vf_params f)"

definition verify_typestate :: "solver \<Rightarrow> VFunction \<Rightarrow> TypestateAxioms \<Rightarrow> SolverSession \<Rightarrow> VerificationResult" where
  "verify_typestate solve f ts session =
     (case assume_all (vf_id f) (ts_source_invariants ts @ ts_transition_guards ts) (transition_start f session) of
        Err r \<Rightarrow> r
      | Ok st \<Rightarrow> prove_targets solve (vf_id f) 0 False (ts_target_invariants ts) st)"

end
