(* ===== verification/Mimi_VirEval.thy ===== *)
theory Mimi_VirEval
  imports Mimi_VirVerify "HOL-Library.Signed_Division"
begin

text \<open>
  What the verification IR means: expressions are evaluated from left to right with checked
  arithmetic of their width, which traps on overflow, on a zero divisor and on the smallest value
  over \<open>-1\<close>; \<open>&&\<close> and \<open>||\<close> stop early. A function runs its statements to the first return. The
  comparison of floats is a parameter. Well-typed functions never get stuck.
\<close>

section \<open>Expressions\<close>

datatype vval = VvInt int | VvBool bool | VvF64 u64

datatype vres = VrVal vval | VrTrap | VrStuck

record venv =
  ve_vars :: "VarId \<rightharpoonup> vval"
  ve_old :: "VarId \<rightharpoonup> vval"
  ve_result :: "vval option"

definition in_width :: "VType \<Rightarrow> int \<Rightarrow> bool" where
  "in_width ty n = (case width_bounds ty of None \<Rightarrow> False | Some (lo, hi) \<Rightarrow> lo \<le> n \<and> n \<le> hi)"

definition checked :: "VType \<Rightarrow> int \<Rightarrow> vres" where
  "checked ty n = (if in_width ty n then VrVal (VvInt n) else VrTrap)"

fun eval_arith :: "VType \<Rightarrow> VArithOp \<Rightarrow> int \<Rightarrow> int \<Rightarrow> vres" where
  "eval_arith ty VaAdd a b = checked ty (a + b)"
| "eval_arith ty VaSub a b = checked ty (a - b)"
| "eval_arith ty VaMul a b = checked ty (a * b)"
| "eval_arith ty VaDiv a b = (if b = 0 then VrTrap else checked ty (a sdiv b))"
| "eval_arith ty VaMod a b =
     (if b = 0 \<or> \<not> in_width ty (a sdiv b) then VrTrap else VrVal (VvInt (a smod b)))"

fun eval_cmp :: "VCmpOp \<Rightarrow> int \<Rightarrow> int \<Rightarrow> bool" where
  "eval_cmp VcEq a b = (a = b)"
| "eval_cmp VcNe a b = (a \<noteq> b)"
| "eval_cmp VcLt a b = (a < b)"
| "eval_cmp VcGt a b = (b < a)"
| "eval_cmp VcLe a b = (a \<le> b)"
| "eval_cmp VcGe a b = (b \<le> a)"

definition eval_bool_cmp :: "VCmpOp \<Rightarrow> bool \<Rightarrow> bool \<Rightarrow> vres" where
  "eval_bool_cmp op a b =
     (case op of VcEq \<Rightarrow> VrVal (VvBool (a = b)) | VcNe \<Rightarrow> VrVal (VvBool (a \<noteq> b)) | _ \<Rightarrow> VrStuck)"

definition vbind :: "vres \<Rightarrow> (vval \<Rightarrow> vres) \<Rightarrow> vres" where
  "vbind r k = (case r of VrVal v \<Rightarrow> k v | VrTrap \<Rightarrow> VrTrap | VrStuck \<Rightarrow> VrStuck)"

lemma vbind_simps [simp]:
  "vbind (VrVal v) k = k v" "vbind VrTrap k = VrTrap" "vbind VrStuck k = VrStuck"
  by (simp_all add: vbind_def)

lemma vbind_cong [fundef_cong]:
  "r = r' \<Longrightarrow> (\<And>v. r' = VrVal v \<Longrightarrow> k v = k' v) \<Longrightarrow> vbind r k = vbind r' k'"
  by (auto simp: vbind_def split: vres.split)

definition lookup_val :: "vval option \<Rightarrow> vres" where
  "lookup_val v = (case v of None \<Rightarrow> VrStuck | Some x \<Rightarrow> VrVal x)"

type_synonym f64_order = "VCmpOp \<Rightarrow> u64 \<Rightarrow> u64 \<Rightarrow> bool"

fun veval :: "f64_order \<Rightarrow> venv \<Rightarrow> VExpr \<Rightarrow> vres" where
  "veval fc env (VIntConst n) = VrVal (VvInt n)"
| "veval fc env (VBoolConst b) = VrVal (VvBool b)"
| "veval fc env (VF64Const w) = VrVal (VvF64 w)"
| "veval fc env (VVar v) = lookup_val (ve_vars env v)"
| "veval fc env (VOld v) = lookup_val (ve_old env v)"
| "veval fc env VResult = lookup_val (ve_result env)"
| "veval fc env (VArith op l r ty) =
     vbind (veval fc env l) (\<lambda>a. vbind (veval fc env r) (\<lambda>b.
       case (a, b) of
         (VvInt m, VvInt n) \<Rightarrow> if in_width ty m \<and> in_width ty n then eval_arith ty op m n else VrStuck
       | _ \<Rightarrow> VrStuck))"
| "veval fc env (VNeg e ty) =
     vbind (veval fc env e) (\<lambda>a.
       case a of VvInt m \<Rightarrow> if in_width ty m then checked ty (- m) else VrStuck | _ \<Rightarrow> VrStuck)"
| "veval fc env (VCompare op l r) =
     vbind (veval fc env l) (\<lambda>a. vbind (veval fc env r) (\<lambda>b.
       case (a, b) of
         (VvInt m, VvInt n) \<Rightarrow> VrVal (VvBool (eval_cmp op m n))
       | (VvBool m, VvBool n) \<Rightarrow> eval_bool_cmp op m n
       | _ \<Rightarrow> VrStuck))"
| "veval fc env (VBoolean op []) = VrVal (VvBool (op = VbAnd))"
| "veval fc env (VBoolean op (e # es)) =
     vbind (veval fc env e) (\<lambda>a.
       case a of
         VvBool b \<Rightarrow> if b = (op = VbOr) then VrVal (VvBool b) else veval fc env (VBoolean op es)
       | _ \<Rightarrow> VrStuck)"
| "veval fc env (VNot e) =
     vbind (veval fc env e) (\<lambda>a. case a of VvBool b \<Rightarrow> VrVal (VvBool (\<not> b)) | _ \<Rightarrow> VrStuck)"
| "veval fc env (VSelect c t e) =
     vbind (veval fc env c) (\<lambda>a.
       case a of VvBool b \<Rightarrow> if b then veval fc env t else veval fc env e | _ \<Rightarrow> VrStuck)"
| "veval fc env (VOpaqueF64 v) = lookup_val (ve_vars env v)"
| "veval fc env (VF64Compare op l r) =
     vbind (veval fc env l) (\<lambda>a. vbind (veval fc env r) (\<lambda>b.
       case (a, b) of (VvF64 m, VvF64 n) \<Rightarrow> VrVal (VvBool (fc op m n)) | _ \<Rightarrow> VrStuck))"

section \<open>Runs\<close>

text \<open>
  A precondition that does not hold ends the run: the caller broke the contract. A \<open>math\<close> clause is
  not executed; it fails when it is false.
\<close>

datatype outcome = Returned venv | Trapped | Broken | Failed | Stuck

fun run_stmts :: "f64_order \<Rightarrow> VStmt list \<Rightarrow> venv \<Rightarrow> outcome" where
  "run_stmts fc [] env = Returned env"
| "run_stmts fc (VAssume e # ss) env =
     (case veval fc env e of
        VrVal (VvBool True) \<Rightarrow> run_stmts fc ss env
      | VrVal (VvBool False) \<Rightarrow> Broken
      | VrTrap \<Rightarrow> Broken
      | _ \<Rightarrow> Stuck)"
| "run_stmts fc (VAssert e # ss) env =
     (case veval fc env e of VrVal (VvBool False) \<Rightarrow> Failed | VrStuck \<Rightarrow> Stuck | _ \<Rightarrow> run_stmts fc ss env)"
| "run_stmts fc (VLet v e # ss) env =
     (case veval fc env e of
        VrVal w \<Rightarrow> run_stmts fc ss (env\<lparr>ve_vars := (ve_vars env)(v \<mapsto> w)\<rparr>)
      | VrTrap \<Rightarrow> Trapped
      | VrStuck \<Rightarrow> Stuck)"
| "run_stmts fc (VReturn e # ss) env =
     (case veval fc env e of
        VrVal w \<Rightarrow> Returned (env\<lparr>ve_result := Some w\<rparr>) | VrTrap \<Rightarrow> Trapped | VrStuck \<Rightarrow> Stuck)"

definition call_env :: "(VarId \<rightharpoonup> vval) \<Rightarrow> venv" where
  "call_env args = \<lparr>ve_vars = args, ve_old = args, ve_result = None\<rparr>"

section \<open>Types\<close>

fun val_fits :: "vval \<Rightarrow> VType \<Rightarrow> bool" where
  "val_fits (VvInt n) ty = in_width ty n"
| "val_fits (VvBool b) ty = (ty = VtBool)"
| "val_fits (VvF64 w) ty = (ty = VtF64)"

record vtyping =
  vt_vars :: "VarId \<rightharpoonup> VType"
  vt_old :: "VarId \<rightharpoonup> VType"
  vt_result :: "VType option"

fun is_width :: "VType \<Rightarrow> bool" where
  "is_width ty = (ty = VtI32 \<or> ty = VtI64)"

fun expr_typed :: "vtyping \<Rightarrow> VExpr \<Rightarrow> VType \<Rightarrow> bool" where
  "expr_typed g (VIntConst n) ty = in_width ty n"
| "expr_typed g (VBoolConst b) ty = (ty = VtBool)"
| "expr_typed g (VF64Const w) ty = (ty = VtF64)"
| "expr_typed g (VVar v) ty = (vt_vars g v = Some ty)"
| "expr_typed g (VOld v) ty = (vt_old g v = Some ty)"
| "expr_typed g VResult ty = (vt_result g = Some ty)"
| "expr_typed g (VArith op l r t) ty = (t = ty \<and> is_width ty \<and> expr_typed g l ty \<and> expr_typed g r ty)"
| "expr_typed g (VNeg e t) ty = (t = ty \<and> is_width ty \<and> expr_typed g e ty)"
| "expr_typed g (VCompare op l r) ty =
     (ty = VtBool \<and>
      (expr_typed g l VtI32 \<and> expr_typed g r VtI32 \<or> expr_typed g l VtI64 \<and> expr_typed g r VtI64
       \<or> (op = VcEq \<or> op = VcNe) \<and> expr_typed g l VtBool \<and> expr_typed g r VtBool))"
| "expr_typed g (VBoolean op es) ty = (ty = VtBool \<and> list_all (\<lambda>e. expr_typed g e VtBool) es)"
| "expr_typed g (VNot e) ty = (ty = VtBool \<and> expr_typed g e VtBool)"
| "expr_typed g (VSelect c t e) ty = (expr_typed g c VtBool \<and> expr_typed g t ty \<and> expr_typed g e ty)"
| "expr_typed g (VOpaqueF64 v) ty = (ty = VtF64 \<and> vt_vars g v = Some VtF64)"
| "expr_typed g (VF64Compare op l r) ty =
     (ty = VtBool \<and> expr_typed g l VtF64 \<and> expr_typed g r VtF64)"

text \<open>Statements bind each variable once and return last.\<close>

fun stmts_typed :: "(VarId \<rightharpoonup> VType) \<Rightarrow> VType \<Rightarrow> vtyping \<Rightarrow> VStmt list \<Rightarrow> bool" where
  "stmts_typed types rty g [] = True"
| "stmts_typed types rty g (VAssume e # ss) = (expr_typed g e VtBool \<and> stmts_typed types rty g ss)"
| "stmts_typed types rty g (VAssert e # ss) = (expr_typed g e VtBool \<and> stmts_typed types rty g ss)"
| "stmts_typed types rty g (VLet v e # ss) =
     (vt_vars g v = None
      \<and> (case types v of None \<Rightarrow> False | Some ty \<Rightarrow> expr_typed g e ty)
      \<and> stmts_typed types rty (g\<lparr>vt_vars := (vt_vars g)(v := types v)\<rparr>) ss)"
| "stmts_typed types rty g (VReturn e # ss) = (ss = [] \<and> expr_typed g e rty)"

fun typing_after :: "(VarId \<rightharpoonup> VType) \<Rightarrow> VType \<Rightarrow> vtyping \<Rightarrow> VStmt list \<Rightarrow> vtyping" where
  "typing_after types rty g [] = g"
| "typing_after types rty g (VLet v e # ss) =
     typing_after types rty (g\<lparr>vt_vars := (vt_vars g)(v := types v)\<rparr>) ss"
| "typing_after types rty g (VReturn e # ss) = g\<lparr>vt_result := Some rty\<rparr>"
| "typing_after types rty g (_ # ss) = typing_after types rty g ss"

definition param_types :: "VFunction \<Rightarrow> VarId \<rightharpoonup> VType" where
  "param_types f = map_of (map (\<lambda>(v, ty, _). (v, ty)) (vf_params f))"

definition param_typing :: "VFunction \<Rightarrow> vtyping" where
  "param_typing f = \<lparr>vt_vars = param_types f, vt_old = param_types f, vt_result = None\<rparr>"

definition function_typed :: "(VarId \<rightharpoonup> VType) \<Rightarrow> VType \<Rightarrow> VFunction \<Rightarrow> bool" where
  "function_typed types rty f \<longleftrightarrow>
     distinct (map fst (vf_params f))
     \<and> stmts_typed types rty (param_typing f) (vf_body f)
     \<and> list_all (\<lambda>e. expr_typed (typing_after types rty (param_typing f) (vf_body f)) e VtBool)
         (vf_postconditions f)"

text \<open>Values for the variables of a typing, and nothing else.\<close>

definition vals_fit :: "(VarId \<rightharpoonup> vval) \<Rightarrow> (VarId \<rightharpoonup> VType) \<Rightarrow> bool" where
  "vals_fit vals types \<longleftrightarrow>
     (\<forall>v. case types v of None \<Rightarrow> vals v = None
        | Some ty \<Rightarrow> (case vals v of None \<Rightarrow> False | Some w \<Rightarrow> val_fits w ty))"

definition env_fits :: "venv \<Rightarrow> vtyping \<Rightarrow> bool" where
  "env_fits env g \<longleftrightarrow> vals_fit (ve_vars env) (vt_vars g) \<and> vals_fit (ve_old env) (vt_old g)
     \<and> vals_fit (\<lambda>_. ve_result env) (\<lambda>_. vt_result g)"

lemma vals_fit_Some: "vals_fit vals types \<Longrightarrow> types v = Some ty \<Longrightarrow> \<exists>w. vals v = Some w \<and> val_fits w ty"
  unfolding vals_fit_def by (erule allE [of _ v]) (auto split: option.splits)

lemma vals_fit_None: "vals_fit vals types \<Longrightarrow> types v = None \<Longrightarrow> vals v = None"
  unfolding vals_fit_def by (erule allE [of _ v]) (auto split: option.splits)

lemma val_fits_cases:
  "val_fits w VtBool \<Longrightarrow> \<exists>b. w = VvBool b" "val_fits w VtF64 \<Longrightarrow> \<exists>u. w = VvF64 u"
  "val_fits w VtI32 \<Longrightarrow> \<exists>n. w = VvInt n \<and> in_width VtI32 n"
  "val_fits w VtI64 \<Longrightarrow> \<exists>n. w = VvInt n \<and> in_width VtI64 n"
  subgoal by (cases w) (simp_all add: in_width_def)
  subgoal by (cases w) (simp_all add: in_width_def)
  subgoal by (cases w) (simp_all add: in_width_def)
  subgoal by (cases w) (simp_all add: in_width_def)
  done

definition yields :: "vres \<Rightarrow> VType \<Rightarrow> bool" where
  "yields r ty \<longleftrightarrow> r = VrTrap \<or> (\<exists>w. r = VrVal w \<and> val_fits w ty)"

lemma yields_bool: "yields r VtBool \<longleftrightarrow> r = VrTrap \<or> (\<exists>b. r = VrVal (VvBool b))"
  using val_fits_cases(1) by (auto simp: yields_def)

lemma yields_f64: "yields r VtF64 \<longleftrightarrow> r = VrTrap \<or> (\<exists>w. r = VrVal (VvF64 w))"
  using val_fits_cases(2) by (auto simp: yields_def)

lemma yields_int: "is_width ty \<Longrightarrow> yields r ty \<longleftrightarrow> r = VrTrap \<or> (\<exists>n. r = VrVal (VvInt n) \<and> in_width ty n)"
  using val_fits_cases(3,4) by (auto simp: yields_def)

lemma yields_checked: "yields (checked ty n) ty"
  by (simp add: checked_def yields_def)

lemma smod_between: "b \<noteq> 0 \<Longrightarrow> min 0 a \<le> a smod b \<and> a smod b \<le> max 0 (a :: int)"
proof -
  assume "b \<noteq> 0"
  then have "0 \<le> \<bar>a\<bar> mod \<bar>b\<bar>" "\<bar>a\<bar> mod \<bar>b\<bar> \<le> \<bar>a\<bar>"
    by (simp_all add: zmod_le_nonneg_dividend)
  then show ?thesis by (auto simp: signed_modulo_int_def sgn_if)
qed

lemma in_width_between:
  "is_width ty \<Longrightarrow> in_width ty n \<Longrightarrow> min 0 n \<le> k \<Longrightarrow> k \<le> max 0 n \<Longrightarrow> in_width ty k"
  by (auto simp: in_width_def)

text \<open>A well-typed expression has a value of its type or traps.\<close>

lemma yields_arith:
  assumes "is_width ty" and "in_width ty m" and "in_width ty n"
  shows "yields (eval_arith ty op m n) ty"
proof -
  have "yields (VrVal (VvInt (m smod n))) ty" if "n \<noteq> 0"
    using in_width_between [OF assms(1,2)] smod_between [OF that, of m] by (simp add: yields_def)
  then show ?thesis by (cases op) (simp_all add: yields_checked, simp_all add: yields_def)
qed

lemma yields_lookup: "vals_fit vals types \<Longrightarrow> types v = Some ty \<Longrightarrow> yields (lookup_val (vals v)) ty"
  by (auto simp: yields_def lookup_val_def dest: vals_fit_Some)

lemma yields_result: "env_fits env g \<Longrightarrow> vt_result g = Some ty \<Longrightarrow> yields (lookup_val (ve_result env)) ty"
  using yields_lookup [of "\<lambda>_. ve_result env" "\<lambda>_. vt_result g"] by (auto simp: env_fits_def)

lemma yields_truth [simp]: "yields (VrVal (VvBool b)) VtBool" "yields VrTrap ty"
  by (simp_all add: yields_def)

lemma vbind_yields:
  assumes "yields r t" and "\<And>w. val_fits w t \<Longrightarrow> yields (k w) ty"
  shows "yields (vbind r k) ty"
  using assms(1) unfolding yields_def [of r] by (auto intro: assms(2))

lemma list_yields:
  assumes "\<And>e. e \<in> set es \<Longrightarrow> yields (veval fc env e) VtBool"
  shows "yields (veval fc env (VBoolean op es)) VtBool"
  using assms
proof (induction es)
  case (Cons e es)
  then have y: "yields (veval fc env e) VtBool" "yields (veval fc env (VBoolean op es)) VtBool" by simp_all
  show ?case unfolding veval.simps
    by (intro vbind_yields [OF y(1)]) (use y in \<open>auto dest!: val_fits_cases(1)\<close>)
qed (simp add: yields_bool)

lemma expr_yields:
  "expr_typed g e ty \<Longrightarrow> env_fits env g \<Longrightarrow> yields (veval fc env e) ty"
proof (induction e arbitrary: ty)
  case (VArith op l r t)
  then have t: "is_width t" "t = ty" and y: "yields (veval fc env l) t" "yields (veval fc env r) t" by simp_all
  show ?case unfolding veval.simps t(2) [symmetric]
    by (intro vbind_yields [OF y(1)] vbind_yields [OF y(2)])
      (use yields_arith t(1) in \<open>auto dest!: val_fits_cases(3,4)\<close>)
next
  case (VNeg e t)
  then have t: "is_width t" "t = ty" and y: "yields (veval fc env e) t" by simp_all
  show ?case unfolding veval.simps t(2) [symmetric]
    by (intro vbind_yields [OF y]) (use yields_checked t(1) in \<open>auto dest!: val_fits_cases(3,4)\<close>)
next
  case (VCompare op l r)
  then consider t where "is_width t" "yields (veval fc env l) t" "yields (veval fc env r) t"
    | "op = VcEq \<or> op = VcNe" "yields (veval fc env l) VtBool" "yields (veval fc env r) VtBool" "ty = VtBool"
    by auto
  then show ?case
  proof cases
    case 1
    have "ty = VtBool" using VCompare.prems by simp
    then show ?thesis using 1 by (auto simp: yields_int yields_bool simp del: is_width.simps)
  next
    case 2
    then show ?thesis by (auto simp: yields_bool eval_bool_cmp_def)
  qed
next
  case (VBoolean op es)
  then have "yields (veval fc env (VBoolean op es)) VtBool" by (intro list_yields) (simp add: list_all_iff)
  then show ?case using VBoolean.prems by simp
next
  case (VNot e)
  then have "yields (veval fc env e) VtBool" "ty = VtBool" by simp_all
  then show ?case by (auto simp: yields_bool)
next
  case (VSelect c t e)
  then have y: "yields (veval fc env c) VtBool" "yields (veval fc env t) ty" "yields (veval fc env e) ty" by simp_all
  show ?case unfolding veval.simps
    by (intro vbind_yields [OF y(1)]) (use y in \<open>auto dest!: val_fits_cases(1)\<close>)
next
  case (VF64Compare op l r)
  then have "yields (veval fc env l) VtF64" "yields (veval fc env r) VtF64" "ty = VtBool" by simp_all
  then show ?case by (auto simp: yields_bool yields_f64)
next
  case VResult
  then show ?case using yields_result by simp
qed (auto simp: yields_lookup env_fits_def, auto simp: yields_def)

end
