(* ===== verification/Mimi_VirValues.thy ===== *)
theory Mimi_VirValues
  imports Mimi_VirEval
begin

text \<open>
  Terms and obligations mean what the expression does: in every model that agrees with the variables
  of an environment, the term of an expression has the value of the expression, and when its
  obligations hold, evaluating it does not trap.
\<close>

section \<open>Names\<close>

lemma show_nat_inject: "show_nat m = show_nat n \<Longrightarrow> m = n"
proof (induction m arbitrary: n rule: show_nat.induct)
  case (1 m)
  have digit: "char_of (48 + a) = (char_of (48 + b) :: char) \<longleftrightarrow> a = b" if "a < 10" "b < 10" for a b :: nat
    using that by (auto simp: char_of_eq_iff take_bit_nat_eq_self)
  have nonempty: "show_nat k \<noteq> []" for k by (simp add: show_nat.simps [of k])
  show ?case
  proof (cases "m < 10 \<or> n < 10")
    case True
    then show ?thesis
      using "1.prems" nonempty nonempty [THEN not_sym] digit
      by (auto simp: show_nat.simps [of m] show_nat.simps [of n] split: if_splits)
  next
    case False
    then have "show_nat (m div 10) = show_nat (n div 10)" "m mod 10 = n mod 10"
      using "1.prems" digit by (auto simp: show_nat.simps [of m] show_nat.simps [of n])
    then show ?thesis using "1.IH" False by (metis div_mult_mod_eq)
  qed
qed

lemma var_names [simp]:
  "var_text v = var_text w \<longleftrightarrow> v = w" "old_text v = old_text w \<longleftrightarrow> v = w" "var_text v \<noteq> old_text w"
  "old_text w \<noteq> var_text v" "var_text v \<noteq> ''result''" "old_text v \<noteq> ''result''"
  "''result'' \<noteq> var_text v" "''result'' \<noteq> old_text v"
  using show_nat_inject by (auto simp: var_text_def old_text_def)

section \<open>Values of terms\<close>

definition agrees_at :: "zint option \<Rightarrow> zbool option \<Rightarrow> zint option \<Rightarrow> smt_model \<Rightarrow> vval \<Rightarrow> bool" where
  "agrees_at zi zb zf m w =
     (case w of
        VvInt n \<Rightarrow> zb = None \<and> zf = None \<and> (\<forall>z. zi = Some z \<longrightarrow> zi_val m z = n)
      | VvBool b \<Rightarrow> zi = None \<and> zf = None \<and> (\<forall>z. zb = Some z \<longrightarrow> zb_val m z = b)
      | VvF64 u \<Rightarrow> zi = None \<and> zb = None \<and> (\<forall>z. zf = Some z \<longrightarrow> zi_val m z = sint u))"

definition agrees :: "VirZ3Ctx \<Rightarrow> smt_model \<Rightarrow> venv \<Rightarrow> bool" where
  "agrees x m env \<longleftrightarrow>
     (\<forall>v w. ve_vars env v = Some w \<longrightarrow> agrees_at (zx_int_vars x v) (zx_bool_vars x v) (zx_f64_vars x v) m w)
     \<and> (\<forall>v w. ve_old env v = Some w \<longrightarrow> agrees_at (zx_old_int_vars x v) (zx_old_bool_vars x v) None m w)
     \<and> (\<forall>w. ve_result env = Some w \<longrightarrow> agrees_at (zx_result_int x) (zx_result_bool x) (zx_result_f64 x) m w)"

lemma agrees_var:
  "agrees x m env \<Longrightarrow> ve_vars env v = Some w \<Longrightarrow>
     agrees_at (zx_int_vars x v) (zx_bool_vars x v) (zx_f64_vars x v) m w"
  and agrees_old:
  "agrees x m env \<Longrightarrow> ve_old env v = Some w \<Longrightarrow> agrees_at (zx_old_int_vars x v) (zx_old_bool_vars x v) None m w"
  and agrees_result:
  "agrees x m env \<Longrightarrow> ve_result env = Some w \<Longrightarrow>
     agrees_at (zx_result_int x) (zx_result_bool x) (zx_result_f64 x) m w"
  by (simp_all add: agrees_def)

lemma agrees_at_int: "agrees_at (Some z) zb zf m w \<Longrightarrow> w = VvInt (zi_val m z)"
  and agrees_at_bool: "agrees_at zi (Some b) zf m w \<Longrightarrow> w = VvBool (zb_val m b)"
  by (auto simp: agrees_at_def split: vval.splits)

lemma lookup_Val: "lookup_val r = VrVal w \<longleftrightarrow> r = Some w"
  by (simp add: lookup_val_def split: option.split)

text \<open>Truncated division in terms of the Euclidean one.\<close>

lemma truncated_div_val: "zi_val m r \<noteq> 0 \<Longrightarrow> zi_val m (truncated_div l r) = zi_val m l sdiv zi_val m r"
  by (auto simp: truncated_div_def Let_def euclid_div_def signed_divide_int_def sgn_if)

lemma truncated_mod_val: "zi_val m r \<noteq> 0 \<Longrightarrow> zi_val m (truncated_mod l r) = zi_val m l smod zi_val m r"
  by (auto simp: truncated_mod_def Let_def euclid_mod_def signed_modulo_int_def sgn_if)

lemma eval_arith_val:
  "eval_arith ty op (zi_val m a) (zi_val m b) = VrVal w \<Longrightarrow> w = VvInt (zi_val m (arith_term op a b))"
  by (cases op) (auto simp: checked_def truncated_div_val truncated_mod_val split: if_splits)

lemma int_comparison_val: "zb_val m (int_comparison op a b) = eval_cmp op (zi_val m a) (zi_val m b)"
  by (cases op) auto

lemma bool_comparison_val:
  "bool_comparison op a b = Some z \<Longrightarrow> eval_bool_cmp op (zb_val m a) (zb_val m b) = VrVal (VvBool (zb_val m z))"
  by (cases op) (auto simp: eval_bool_cmp_def)

lemma encode_bool_operand_val:
  assumes "encode_bool_operand x e = Some z" and "agrees x m env" and "veval fc env e = VrVal w"
  shows "w = VvBool (zb_val m z)"
  using assms(1,3) agrees_var [OF assms(2)] agrees_old [OF assms(2)] agrees_result [OF assms(2)]
  by (cases e) (fastforce simp: lookup_Val dest: agrees_at_bool)+

lemma vbind_Val: "vbind r k = VrVal w \<longleftrightarrow> (\<exists>v. r = VrVal v \<and> k v = VrVal w)"
  and vbind_Trap: "vbind r k = VrTrap \<longleftrightarrow> r = VrTrap \<or> (\<exists>v. r = VrVal v \<and> k v = VrTrap)"
  by (cases r; simp)+

text \<open>What the continuations of the evaluation accept.\<close>

lemma bool_case [simp]:
  "(case v of VvBool b \<Rightarrow> f b | _ \<Rightarrow> VrStuck) = VrVal w \<longleftrightarrow> (\<exists>b. v = VvBool b \<and> f b = VrVal w)"
  "(case v of VvBool b \<Rightarrow> f b | _ \<Rightarrow> VrStuck) = VrTrap \<longleftrightarrow> (\<exists>b. v = VvBool b \<and> f b = VrTrap)"
  by (cases v; simp)+

lemma int_case [simp]:
  "(case v of VvInt n \<Rightarrow> g n | _ \<Rightarrow> VrStuck) = VrVal w \<longleftrightarrow> (\<exists>n. v = VvInt n \<and> g n = VrVal w)"
  "(case v of VvInt n \<Rightarrow> g n | _ \<Rightarrow> VrStuck) = VrTrap \<longleftrightarrow> (\<exists>n. v = VvInt n \<and> g n = VrTrap)"
  by (cases v; simp)+

lemma map_filter_all:
  assumes "length (List.map_filter f xs) = length xs"
  shows "x \<in> set xs \<Longrightarrow> \<exists>y. f x = Some y" and "List.map_filter f xs = map (the \<circ> f) xs"
proof -
  have all: "\<forall>x \<in> set xs. f x \<noteq> None"
    using assms length_filter_less [of _ xs "\<lambda>x. f x \<noteq> None"] by (auto simp: List.map_filter_def)
  then show "x \<in> set xs \<Longrightarrow> \<exists>y. f x = Some y" by auto
  show "List.map_filter f xs = map (the \<circ> f) xs" using all by (simp add: List.map_filter_def)
qed

text \<open>A conjunction or disjunction of encoded operands.\<close>

lemma boolean_val:
  assumes "\<And>e b. e \<in> set es \<Longrightarrow> veval fc env e = VrVal (VvBool b) \<Longrightarrow> zb_val m (the (f e)) = b"
    and "veval fc env (VBoolean op es) = VrVal (VvBool b)"
  shows "(case op of VbAnd \<Rightarrow> list_all (zb_val m) (map (the \<circ> f) es)
    | VbOr \<Rightarrow> list_ex (zb_val m) (map (the \<circ> f) es)) = b"
  using assms
proof (induction es)
  case (Cons e es)
  obtain c where c: "veval fc env e = VrVal (VvBool c)"
    and rest: "(if c = (op = VbOr) then VrVal (VvBool c) else veval fc env (VBoolean op es)) = VrVal (VvBool b)"
    using Cons.prems(2) by (auto simp: vbind_Val)
  have "zb_val m (the (f e)) = c" using Cons.prems(1) c by simp
  then show ?case using rest Cons.IH Cons.prems(1) by (cases op) (auto split: if_splits)
qed (auto split: VBoolOp.split)

text \<open>How a compound expression comes to a value.\<close>

lemma veval_arith_val:
  assumes "veval fc env (VArith op l r ty) = VrVal w"
  obtains a b where "veval fc env l = VrVal (VvInt a)" "veval fc env r = VrVal (VvInt b)"
    "eval_arith ty op a b = VrVal w"
  using assms unfolding veval.simps vbind_Val by (auto split: vval.splits if_splits)

lemma veval_neg_val:
  assumes "veval fc env (VNeg e ty) = VrVal w"
  obtains a where "veval fc env e = VrVal (VvInt a)" "w = VvInt (- a)"
  using assms unfolding veval.simps vbind_Val by (auto simp: checked_def split: vval.splits if_splits)

lemma veval_select_val:
  assumes "veval fc env (VSelect c t e) = VrVal w"
  obtains q where "veval fc env c = VrVal (VvBool q)" "veval fc env (if q then t else e) = VrVal w"
proof -
  from assms obtain q where "veval fc env c = VrVal (VvBool q)"
    "(if q then veval fc env t else veval fc env e) = VrVal w"
    unfolding veval.simps vbind_Val by (auto split: vval.splits)
  then show thesis by (intro that [of q]) (simp_all split: if_splits)
qed

lemma veval_compare_val:
  assumes "veval fc env (VCompare op l r) = VrVal (VvBool c)"
  obtains a b where "veval fc env l = VrVal (VvInt a)" "veval fc env r = VrVal (VvInt b)" "c = eval_cmp op a b"
  | a b where "veval fc env l = VrVal (VvBool a)" "veval fc env r = VrVal (VvBool b)"
    "eval_bool_cmp op a b = VrVal (VvBool c)"
proof -
  from assms obtain v w where "veval fc env l = VrVal v" "veval fc env r = VrVal w"
    "(case (v, w) of (VvInt m, VvInt n) \<Rightarrow> VrVal (VvBool (eval_cmp op m n))
       | (VvBool m, VvBool n) \<Rightarrow> eval_bool_cmp op m n | _ \<Rightarrow> VrStuck) = VrVal (VvBool c)"
    unfolding veval.simps vbind_Val by blast
  then show thesis using that by (cases v; cases w) simp_all
qed

lemma veval_not_val:
  assumes "veval fc env (VNot e) = VrVal (VvBool c)"
  obtains "veval fc env e = VrVal (VvBool (\<not> c))"
  using assms unfolding veval.simps vbind_Val by (auto split: vval.splits)

text \<open>What a compound expression is encoded from.\<close>

lemma encode_select_int:
  assumes "encode_int x (VSelect c t e) = Some z"
  obtains zc zt ze where "encode_bool x c = Some zc" "encode_int x t = Some zt"
    "encode_int x e = Some ze" "z = ZIte zc zt ze"
  using assms by (auto split: Option.bind_splits)

lemma encode_select_bool:
  assumes "encode_bool x (VSelect c t e) = Some z"
  obtains zc zt ze where "encode_bool x c = Some zc" "encode_bool x t = Some zt"
    "encode_bool x e = Some ze" "z = ZIteB zc zt ze"
  using assms by (auto split: Option.bind_splits)

lemma encode_arith_int:
  assumes "encode_int x (VArith op l r ty) = Some z"
  obtains a b where "ty \<noteq> VtF64" "encode_int x l = Some a" "encode_int x r = Some b" "z = arith_term op a b"
  using assms by (auto split: if_splits Option.bind_splits)

lemma encode_compare_bool:
  assumes "encode_bool x (VCompare op l r) = Some z"
  obtains a b where "encode_bool_operand x l = Some a" "encode_bool_operand x r = Some b"
    "bool_comparison op a b = Some z"
  | a b where "encode_int x l = Some a" "encode_int x r = Some b" "z = int_comparison op a b"
    "encode_bool_operand x l = None \<or> encode_bool_operand x r = None"
proof (cases "encode_bool_operand x l = None \<or> encode_bool_operand x r = None")
  case True
  then have "Option.bind (encode_int x l) (\<lambda>a. Option.bind (encode_int x r) (\<lambda>b. Some (int_comparison op a b))) = Some z"
    using assms by (auto split: option.splits)
  then show thesis using that(2) True by (auto split: Option.bind_splits)
next
  case False
  then show thesis using that(1) assms by auto
qed

lemma encode_boolean:
  assumes "encode_bool x (VBoolean op es) = Some z"
  obtains "\<And>e. e \<in> set es \<Longrightarrow> \<exists>b. encode_bool x e = Some b"
    "z = (case op of VbAnd \<Rightarrow> ZAnd (map (the \<circ> encode_bool x) es) | VbOr \<Rightarrow> ZOr (map (the \<circ> encode_bool x) es))"
proof -
  let ?enc = "List.map_filter (encode_bool x) es"
  have len: "length ?enc = length es"
    and z: "z = (case op of VbAnd \<Rightarrow> ZAnd ?enc | VbOr \<Rightarrow> ZOr ?enc)"
    using assms by (auto simp: Let_def split: if_splits)
  show thesis
  proof (rule that)
    show "\<exists>b. encode_bool x e = Some b" if "e \<in> set es" for e using map_filter_all(1) [OF len that] .
    show "z = (case op of VbAnd \<Rightarrow> ZAnd (map (the \<circ> encode_bool x) es)
      | VbOr \<Rightarrow> ZOr (map (the \<circ> encode_bool x) es))" using z unfolding map_filter_all(2) [OF len] .
  qed
qed

fun is_leaf :: "VExpr \<Rightarrow> bool" where
  "is_leaf (VVar v) = True"
| "is_leaf (VOld v) = True"
| "is_leaf VResult = True"
| "is_leaf _ = False"

lemma encode_int_leaf:
  assumes "is_leaf e" and "encode_int x e = Some z" and "agrees x m env" and "veval fc env e = VrVal w"
  shows "w = VvInt (zi_val m z)"
  using assms(1,2,4) agrees_var [OF assms(3)] agrees_old [OF assms(3)] agrees_result [OF assms(3)]
  by (cases e) (fastforce simp: lookup_Val dest: agrees_at_int)+

lemma encode_bool_leaf:
  assumes "is_leaf e" and "encode_bool x e = Some z" and "agrees x m env" and "veval fc env e = VrVal (VvBool b)"
  shows "zb_val m z = b"
proof (cases e)
  case (VVar v)
  then have "agrees_at (zx_int_vars x v) (zx_bool_vars x v) (zx_f64_vars x v) m (VvBool b)"
    using agrees_var [OF assms(3)] assms(4) by (simp add: lookup_Val)
  then show ?thesis using VVar assms(2) by (auto simp: agrees_at_def split: option.splits)
next
  case (VOld v)
  then have "agrees_at (zx_old_int_vars x v) (zx_old_bool_vars x v) None m (VvBool b)"
    using agrees_old [OF assms(3)] assms(4) by (simp add: lookup_Val)
  then show ?thesis using VOld assms(2) by (auto simp: agrees_at_def split: option.splits)
next
  case VResult
  then have "agrees_at (zx_result_int x) (zx_result_bool x) (zx_result_f64 x) m (VvBool b)"
    using agrees_result [OF assms(3)] assms(4) by (simp add: lookup_Val)
  then show ?thesis using VResult assms(2) by (auto simp: agrees_at_def split: option.splits)
qed (use assms(1) in simp_all)

lemma encode_val:
  "encode_int x e = Some zi \<Longrightarrow> agrees x m env \<Longrightarrow> veval fc env e = VrVal w \<Longrightarrow> w = VvInt (zi_val m zi)"
  "encode_bool x e = Some zb \<Longrightarrow> agrees x m env \<Longrightarrow> veval fc env e = VrVal (VvBool b) \<Longrightarrow> zb_val m zb = b"
proof (induction e arbitrary: zi w zb b)
  case (VArith op l r ty)
  { case 1
    then show ?case
      using VArith.IH(1,3) by (elim encode_arith_int veval_arith_val) (metis eval_arith_val vval.inject(1))
  next
    case 2
    then show ?case by simp
  }
next
  case (VNeg e ty)
  { case 1
    then show ?case using VNeg.IH(1) by (elim veval_neg_val) fastforce
  next
    case 2
    then show ?case by simp
  }
next
  case (VSelect c t e)
  { case 1
    from encode_select_int [OF this(1)] obtain zc zt ze where enc: "encode_bool x c = Some zc"
      "encode_int x t = Some zt" "encode_int x e = Some ze" "zi = ZIte zc zt ze" .
    from veval_select_val [OF 1(3)] obtain q where q: "veval fc env c = VrVal (VvBool q)"
      "veval fc env (if q then t else e) = VrVal w" .
    have "zb_val m zc = q" using VSelect.IH(2) [OF enc(1) 1(2) q(1)] .
    then show ?case using VSelect.IH(3) [OF enc(2) 1(2)] VSelect.IH(5) [OF enc(3) 1(2)] q(2) enc(4)
      by (cases q) simp_all
  next
    case 2
    from encode_select_bool [OF this(1)] obtain zc zt ze where enc: "encode_bool x c = Some zc"
      "encode_bool x t = Some zt" "encode_bool x e = Some ze" "zb = ZIteB zc zt ze" .
    from veval_select_val [OF 2(3)] obtain q where q: "veval fc env c = VrVal (VvBool q)"
      "veval fc env (if q then t else e) = VrVal (VvBool b)" .
    have "zb_val m zc = q" using VSelect.IH(2) [OF enc(1) 2(2) q(1)] .
    then show ?case using VSelect.IH(4) [OF enc(2) 2(2)] VSelect.IH(6) [OF enc(3) 2(2)] q(2) enc(4)
      by (cases q) simp_all
  }
next
  case (VCompare op l r)
  { case 1
    then show ?case by simp
  next
    case 2
    from 2(1) show ?case
    proof (cases rule: encode_compare_bool)
      case enc: (1 a c)
      note l = encode_bool_operand_val [OF enc(1) 2(2)] and r = encode_bool_operand_val [OF enc(2) 2(2)]
      from 2(3) show ?thesis
      proof (cases rule: veval_compare_val)
        case (1 u v)
        then show ?thesis using l by blast
      next
        case (2 u v)
        then show ?thesis using l [OF 2(1)] r [OF 2(2)] bool_comparison_val [OF enc(3), of m] by simp
      qed
    next
      case enc: (2 a c)
      from 2(3) show ?thesis
        using enc VCompare.IH(1) [OF enc(1) 2(2)] VCompare.IH(3) [OF enc(2) 2(2)]
        by (cases rule: veval_compare_val) (fastforce simp: int_comparison_val)+
    qed
  }
next
  case (VBoolean op es)
  { case 1
    then show ?case by simp
  next
    case 2
    show ?case
    proof (rule encode_boolean [OF 2(1)])
      assume all: "\<And>e. e \<in> set es \<Longrightarrow> \<exists>b. encode_bool x e = Some b"
        and zb: "zb = (case op of VbAnd \<Rightarrow> ZAnd (map (the \<circ> encode_bool x) es)
          | VbOr \<Rightarrow> ZOr (map (the \<circ> encode_bool x) es))"
      have "zb_val m (the (encode_bool x e)) = c" if "e \<in> set es" "veval fc env e = VrVal (VvBool c)" for e c
        using all [OF that(1)] VBoolean.IH(2) [OF that(1) _ 2(2) that(2)] by auto
      from boolean_val [OF this 2(3)] show ?thesis by (cases op) (simp_all add: zb)
    qed
  }
next
  case (VNot e)
  { case 1
    then show ?case by simp
  next
    case 2
    then show ?case using VNot.IH(2) by (elim veval_not_val) fastforce
  }
next
  case (VVar v)
  { case 1
    then show ?case by (rule encode_int_leaf [rotated]) simp
  next
    case 2
    then show ?case by (rule encode_bool_leaf [rotated]) simp
  }
next
  case (VOld v)
  { case 1
    then show ?case by (rule encode_int_leaf [rotated]) simp
  next
    case 2
    then show ?case by (rule encode_bool_leaf [rotated]) simp
  }
next
  case VResult
  { case 1
    then show ?case by (rule encode_int_leaf [rotated]) simp
  next
    case 2
    then show ?case by (rule encode_bool_leaf [rotated]) simp
  }
qed auto

lemma encode_f64_val:
  assumes "encode_f64 x e = Some z" and "agrees x m env" and "veval fc env e = VrVal w"
  shows "\<exists>u. w = VvF64 u \<and> zi_val m z = sint u"
proof -
  have at: "\<exists>u. w = VvF64 u \<and> zi_val m z = sint u" if "agrees_at zi zb (Some z) m w" for zi zb
    using that by (auto simp: agrees_at_def split: vval.splits)
  show ?thesis
    using assms(1,3) agrees_var [OF assms(2)] agrees_result [OF assms(2)] at
    by (cases e) (fastforce simp: lookup_Val split: if_splits)+
qed

section \<open>Obligations\<close>

definition met :: "smt_model \<Rightarrow> obligation list \<Rightarrow> bool" where
  "met m obs \<longleftrightarrow> satisfies m (map fst obs)"

lemma met_simps [simp]:
  "met m []" "met m (ob # obs) \<longleftrightarrow> zb_val m (fst ob) \<and> met m obs"
  "met m (as @ bs) \<longleftrightarrow> met m as \<and> met m bs"
  "met m (guarded c obs) \<longleftrightarrow> (zb_val m c \<longrightarrow> met m obs)"
  "met m (concat oss) \<longleftrightarrow> (\<forall>obs \<in> set oss. met m obs)"
  by (auto simp: met_def satisfies_def guarded_def list_all_iff)

lemma width_bounds_is_width: "width_bounds ty = Some (lo, hi) \<Longrightarrow>
    in_width ty n \<longleftrightarrow> lo \<le> n \<and> n \<le> hi"
  by (simp add: in_width_def)

lemma in_width_Some: "in_width ty n \<Longrightarrow> \<exists>lo hi. width_bounds ty = Some (lo, hi)"
  by (auto simp: in_width_def split: option.splits)

text \<open>A quotient is out of range only for the smallest value over \<open>-1\<close>.\<close>

lemma sdiv_in_width:
  assumes "width_bounds ty = Some (lo, hi)" and "in_width ty a" and "b \<noteq> 0" and "\<not> (a = lo \<and> b = -1)"
  shows "in_width ty (a sdiv b)"
proof -
  have lo: "lo = - hi - 1" "0 \<le> hi" using assms(1) by (cases ty; simp)+
  have a: "- hi - 1 \<le> a" "a \<le> hi" using assms(1,2) lo by (simp_all add: in_width_def)
  have q: "0 \<le> \<bar>a\<bar> div \<bar>b\<bar>" "\<bar>a\<bar> div \<bar>b\<bar> \<le> \<bar>a\<bar>"
    using zdiv_mono2 [of "\<bar>a\<bar>" 1 "\<bar>b\<bar>"] assms(3) by (simp_all add: pos_imp_zdiv_nonneg_iff)
  have less: "\<bar>a\<bar> div \<bar>b\<bar> \<le> hi" if "b < 0"
  proof (cases "b = -1")
    case True
    then show ?thesis using assms(4) a lo by simp
  next
    case False
    then have "\<bar>a\<bar> div \<bar>b\<bar> \<le> \<bar>a\<bar> div 2" using that zdiv_mono2 [of "\<bar>a\<bar>" 2 "\<bar>b\<bar>"] by simp
    then show ?thesis using a lo by linarith
  qed
  have "lo \<le> a sdiv b \<and> a sdiv b \<le> hi"
    using q a lo less assms(3) by (auto simp: signed_divide_int_def sgn_if)
  then show ?thesis using assms(1) by (simp add: in_width_def)
qed

lemma arith_obligation_defined:
  assumes "width_bounds ty = Some (lo, hi)" and "zb_val m (fst (arith_obligation op lo hi l r))"
    and "in_width ty (zi_val m l)"
  shows "eval_arith ty op (zi_val m l) (zi_val m r) \<noteq> VrTrap"
  using assms sdiv_in_width [OF assms(1,3)] by (cases op) (auto simp: checked_def in_width_def)

text \<open>Where a trap comes from.\<close>

lemma veval_arith_trap:
  assumes "veval fc env (VArith op l r ty) = VrTrap"
  obtains "veval fc env l = VrTrap" | "veval fc env r = VrTrap"
  | a b where "veval fc env l = VrVal (VvInt a)" "veval fc env r = VrVal (VvInt b)" "in_width ty a"
    "eval_arith ty op a b = VrTrap"
  using assms unfolding veval.simps vbind_Trap by (auto split: vval.splits if_splits)

lemma veval_neg_trap:
  assumes "veval fc env (VNeg e ty) = VrTrap"
  obtains "veval fc env e = VrTrap" | a where "veval fc env e = VrVal (VvInt a)" "in_width ty a" "\<not> in_width ty (- a)"
  using assms unfolding veval.simps vbind_Trap by (auto simp: checked_def split: vval.splits if_splits)

lemma veval_select_trap:
  assumes "veval fc env (VSelect c t e) = VrTrap"
  obtains "veval fc env c = VrTrap"
  | q where "veval fc env c = VrVal (VvBool q)" "veval fc env (if q then t else e) = VrTrap"
proof -
  from assms consider "veval fc env c = VrTrap" | q where "veval fc env c = VrVal (VvBool q)"
    "(if q then veval fc env t else veval fc env e) = VrTrap"
    unfolding veval.simps vbind_Trap by (auto split: vval.splits)
  then show thesis
  proof cases
    case (2 q)
    then show thesis by (intro that(2) [of q]) (simp_all split: if_splits)
  qed (rule that(1))
qed

lemma veval_compare_trap:
  assumes "veval fc env (VCompare op l r) = VrTrap"
  shows "veval fc env l = VrTrap \<or> veval fc env r = VrTrap"
proof (rule ccontr)
  assume none: "\<not> ?thesis"
  with assms obtain v w where "veval fc env l = VrVal v" "veval fc env r = VrVal w"
    "(case (v, w) of (VvInt m, VvInt n) \<Rightarrow> VrVal (VvBool (eval_cmp op m n))
       | (VvBool m, VvBool n) \<Rightarrow> eval_bool_cmp op m n | _ \<Rightarrow> VrStuck) = VrTrap"
    unfolding veval.simps vbind_Trap by blast
  then show False by (cases v; cases w; cases op) (simp_all add: eval_bool_cmp_def)
qed

lemma veval_not_trap: "veval fc env (VNot e) = VrTrap \<Longrightarrow> veval fc env e = VrTrap"
  unfolding veval.simps vbind_Trap by (auto split: vval.splits)

lemma veval_boolean_trap:
  "veval fc env (VBoolean op es) = VrTrap \<Longrightarrow> \<exists>e \<in> set es. veval fc env e = VrTrap"
proof (induction es)
  case (Cons e es)
  then show ?case unfolding veval.simps vbind_Trap by (auto split: vval.splits if_splits)
qed simp

lemma operand_no_trap: "encode_bool_operand x e = Some z \<Longrightarrow> veval fc env e \<noteq> VrTrap"
  by (cases e) (auto simp: lookup_val_def split: option.splits)

text \<open>The obligations of an encodable expression exclude every trap.\<close>

lemma definedness_no_trap:
  assumes "agrees x m env"
  shows "met m (collect_definedness x e) \<Longrightarrow> encode_int x e \<noteq> None \<or> encode_bool x e \<noteq> None \<Longrightarrow>
    veval fc env e \<noteq> VrTrap"
proof (induction e)
  case (VArith op l r ty)
  from VArith.prems(2) obtain z where "encode_int x (VArith op l r ty) = Some z" by auto
  then obtain a b where enc: "encode_int x l = Some a" "encode_int x r = Some b" by (rule encode_arith_int)
  have sub: "veval fc env l \<noteq> VrTrap" "veval fc env r \<noteq> VrTrap"
    using VArith.IH VArith.prems(1) enc by simp_all
  show ?case
  proof
    assume "veval fc env (VArith op l r ty) = VrTrap"
    then show False
    proof (cases rule: veval_arith_trap)
      case (3 u v)
      then obtain lo hi where w: "width_bounds ty = Some (lo, hi)" using in_width_Some by blast
      have uv: "u = zi_val m a" "v = zi_val m b"
        using encode_val(1) [OF enc(1) assms 3(1)] encode_val(1) [OF enc(2) assms 3(2)] by simp_all
      have "zb_val m (fst (arith_obligation op lo hi a b))" using VArith.prems(1) w enc by simp
      then show False using arith_obligation_defined [OF w] 3(3,4) unfolding uv by blast
    qed (use sub in simp_all)
  qed
next
  case (VNeg e ty)
  then obtain a where enc: "encode_int x e = Some a" by auto
  have sub: "veval fc env e \<noteq> VrTrap" using VNeg.IH VNeg.prems(1) enc by simp
  show ?case
  proof
    assume "veval fc env (VNeg e ty) = VrTrap"
    then show False
    proof (cases rule: veval_neg_trap)
      case (2 u)
      then obtain lo hi where w: "width_bounds ty = Some (lo, hi)" using in_width_Some by blast
      have "u = zi_val m a" using encode_val(1) [OF enc assms 2(1)] by simp
      moreover have "zi_val m a \<noteq> lo" using VNeg.prems(1) w enc by simp
      ultimately show False using 2(2,3) w by (cases ty) (auto simp: in_width_def)
    qed (use sub in simp_all)
  qed
next
  case (VCompare op l r)
  from VCompare.prems(2) obtain z where "encode_bool x (VCompare op l r) = Some z" by auto
  then have "veval fc env l \<noteq> VrTrap \<and> veval fc env r \<noteq> VrTrap"
  proof (cases rule: encode_compare_bool)
    case (2 a b)
    then show ?thesis using VCompare.IH VCompare.prems(1) by simp
  qed (simp add: operand_no_trap)
  then show ?case using veval_compare_trap by blast
next
  case (VBoolean op es)
  from VBoolean.prems(2) obtain z where z: "encode_bool x (VBoolean op es) = Some z" by auto
  have "encode_bool x e \<noteq> None" if "e \<in> set es" for e
    by (rule encode_boolean [OF z]) (use that in fastforce)
  then have "veval fc env e \<noteq> VrTrap" if "e \<in> set es" for e
    using VBoolean.IH [OF that] VBoolean.prems(1) that by simp
  then show ?case using veval_boolean_trap by blast
next
  case (VNot e)
  then show ?case using veval_not_trap by auto
next
  case (VSelect c t e)
  from VSelect.prems(2) obtain zc where enc: "encode_bool x c = Some zc"
    "encode_int x t \<noteq> None \<or> encode_bool x t \<noteq> None" "encode_int x e \<noteq> None \<or> encode_bool x e \<noteq> None"
    by (auto simp: Option.bind_eq_Some_conv)
  have met: "met m (collect_definedness x c)" "zb_val m zc \<Longrightarrow> met m (collect_definedness x t)"
    "\<not> zb_val m zc \<Longrightarrow> met m (collect_definedness x e)" using VSelect.prems(1) enc(1) by simp_all
  have sub: "veval fc env c \<noteq> VrTrap" using VSelect.IH(1) met(1) enc(1) by simp
  show ?case
  proof
    assume "veval fc env (VSelect c t e) = VrTrap"
    then show False
    proof (cases rule: veval_select_trap)
      case (2 q)
      have "zb_val m zc = q" using encode_val(2) [OF enc(1) assms 2(1)] .
      then show False using VSelect.IH(2,3) met(2,3) enc(2,3) 2(2) by (cases q) simp_all
    qed (use sub in simp_all)
  qed
qed (simp_all add: lookup_val_def split: option.splits)

end
