(* ===== verification/Mimi_VirSound.thy ===== *)
theory Mimi_VirSound
  imports Mimi_VirValues
begin

text \<open>
  The verifier is right: a function that is reported as proven runs without a trap and meets its
  postconditions on all arguments that satisfy its preconditions, provided the solver is right when
  it answers \<open>unsat\<close>; likewise for the typestate context of a transition.
\<close>

section \<open>The session\<close>

lemma check_scope_unsat:
  assumes "solver_sound solve" and "check_scope solve (ZNot b) s = (Unsat, s')" and "healthy s"
  shows "s' = s" and "satisfies m (asserted s) \<Longrightarrow> zb_val m b"
proof -
  have scopes: "ss_scopes s \<noteq> []" using assms(3) by (simp add: healthy_def)
  have s: "s' = s\<lparr>ss_replaced := False\<rparr>" "solve (asserted s @ [ZNot b]) = Answers False"
    using check_scope_definite [OF assms(2) _ scopes] by simp_all
  show "s' = s" using s(1) assms(3) by (simp add: healthy_def)
  have "\<not> satisfies m (asserted s @ [ZNot b])" using assms(1) s(2) unfolding solver_sound_def by blast
  then show "satisfies m (asserted s) \<Longrightarrow> zb_val m b" by simp
qed

lemma asserted_healthy [simp]: "healthy s \<Longrightarrow> asserted (session_assert b s) = asserted s @ [b]"
  by (simp add: healthy_def)

lemma assume_term_simps [simp]:
  "vs_ctx (assume_term b st) = vs_ctx st"
  "vs_session (assume_term b st) = session_assert b (vs_session st)"
  by (simp_all add: assume_term_def)

text \<open>Everything that was asserted so far holds in a model.\<close>

definition holds_in :: "smt_model \<Rightarrow> verify_state \<Rightarrow> bool" where
  "holds_in m st \<longleftrightarrow> satisfies m (asserted (vs_session st))"

lemma holds_in_assume [simp]:
  "healthy (vs_session st) \<Longrightarrow> holds_in m (assume_term b st) \<longleftrightarrow> holds_in m st \<and> zb_val m b"
  by (auto simp: holds_in_def)

lemma check_obligations_None:
  assumes "solver_sound solve"
  shows "check_obligations solve name obs st = (None, st') \<Longrightarrow> healthy (vs_session st) \<Longrightarrow>
    vs_ctx st' = vs_ctx st \<and> healthy (vs_session st') \<and>
    (\<forall>m. holds_in m st \<longrightarrow> holds_in m st' \<and> met m obs)"
proof (induction obs arbitrary: st)
  case (Cons ob obs)
  obtain condition failure where ob: "ob = (condition, failure)" by (cases ob)
  obtain s where s: "check_scope solve (ZNot condition) (vs_session st) = (Unsat, s)"
    and rest: "check_obligations solve name obs (st\<lparr>vs_session := session_assert condition s\<rparr>) = (None, st')"
    using Cons.prems(1) by (auto simp: ob split: prod.splits SatResult.splits)
  note u = check_scope_unsat [OF assms s Cons.prems(2)]
  from Cons.IH [OF rest] Cons.prems(2) show ?case
    by (auto simp: ob u(1) holds_in_def intro: u(2))
qed simp

section \<open>Names of the variables\<close>

definition int_name :: "string \<Rightarrow> VType option \<Rightarrow> zint option" where
  "int_name n t = (if t = Some VtI32 \<or> t = Some VtI64 then Some (ZIntConst n) else None)"

definition bool_name :: "string \<Rightarrow> VType option \<Rightarrow> zbool option" where
  "bool_name n t = (if t = Some VtBool then Some (ZBoolConst n) else None)"

definition f64_name :: "string \<Rightarrow> VType option \<Rightarrow> zint option" where
  "f64_name n t = (if t = Some VtF64 then Some (ZIntConst n) else None)"

text \<open>The context of a function with these parameters whose result has this sort, if it has one.\<close>

definition ctx_ok :: "(VarId \<rightharpoonup> VType) \<Rightarrow> VType option \<Rightarrow> VirZ3Ctx \<Rightarrow> bool" where
  "ctx_ok params rs x \<longleftrightarrow>
     (\<forall>v. zx_int_vars x v = int_name (var_text v) (zx_var_types x v)
       \<and> zx_bool_vars x v = bool_name (var_text v) (zx_var_types x v)
       \<and> zx_f64_vars x v = f64_name (var_text v) (zx_var_types x v)
       \<and> zx_old_int_vars x v = int_name (old_text v) (params v)
       \<and> zx_old_bool_vars x v = bool_name (old_text v) (params v))
     \<and> zx_result_int x = int_name ''result'' rs
     \<and> zx_result_bool x = bool_name ''result'' rs
     \<and> zx_result_f64 x = f64_name ''result'' rs"

lemma names_simps [simp]:
  "int_name n None = None" "bool_name n None = None" "f64_name n None = None"
  "int_name n (Some VtI32) = Some (ZIntConst n)" "int_name n (Some VtI64) = Some (ZIntConst n)"
  "int_name n (Some VtBool) = None" "int_name n (Some VtF64) = None"
  "bool_name n (Some VtBool) = Some (ZBoolConst n)" "bool_name n (Some VtI32) = None"
  "bool_name n (Some VtI64) = None" "bool_name n (Some VtF64) = None"
  "f64_name n (Some VtF64) = Some (ZIntConst n)" "f64_name n (Some VtI32) = None"
  "f64_name n (Some VtI64) = None" "f64_name n (Some VtBool) = None"
  by (simp_all add: int_name_def bool_name_def f64_name_def)

lemma register_let_types [simp]:
  "zx_var_types (register_let v ty x) = (zx_var_types x)(v \<mapsto> ty)"
  by (cases ty) (simp_all add: register_let_def Let_def)

lemma register_let_ok:
  assumes "ctx_ok params rs x" and "zx_var_types x v = None"
  shows "ctx_ok params rs (register_let v ty x)"
  using assms by (cases ty) (auto simp: ctx_ok_def register_let_def Let_def)

lemma register_let_again:
  assumes "ctx_ok params rs x" and "zx_var_types x v = Some ty"
  shows "register_let v ty x = x"
proof -
  have upd: "g(v \<mapsto> y) = g" if "g v = Some y" for g :: "VarId \<rightharpoonup> 'b" and y using that by auto
  have at: "zx_int_vars x v = int_name (var_text v) (Some ty)" "zx_bool_vars x v = bool_name (var_text v) (Some ty)"
    "zx_f64_vars x v = f64_name (var_text v) (Some ty)"
    using assms by (simp_all add: ctx_ok_def)
  then show ?thesis using assms(2) by (cases ty) (simp_all add: register_let_def Let_def upd)
qed

section \<open>A model of an environment\<close>

fun val_sort :: "vval \<Rightarrow> VType \<Rightarrow> bool" where
  "val_sort (VvInt n) ty = is_width ty"
| "val_sort (VvBool b) ty = (ty = VtBool)"
| "val_sort (VvF64 u) ty = (ty = VtF64)"

fun val_int :: "vval \<Rightarrow> int" where
  "val_int (VvInt n) = n"
| "val_int (VvBool b) = 0"
| "val_int (VvF64 u) = sint u"

definition sorts_fit :: "(VarId \<rightharpoonup> VType) \<Rightarrow> VType option \<Rightarrow> VirZ3Ctx \<Rightarrow> venv \<Rightarrow> bool" where
  "sorts_fit params rs x env \<longleftrightarrow>
     (\<forall>v w ty. ve_vars env v = Some w \<longrightarrow> zx_var_types x v = Some ty \<longrightarrow> val_sort w ty)
     \<and> (\<forall>v w ty. ve_old env v = Some w \<longrightarrow> params v = Some ty \<longrightarrow> val_sort w ty)
     \<and> (\<forall>w ty. ve_result env = Some w \<longrightarrow> rs = Some ty \<longrightarrow> val_sort w ty)"

lemma names_agree:
  assumes "\<And>ty. t = Some ty \<Longrightarrow> val_sort w ty" and "sm_int m n = val_int w" and "sm_bool m n = (w = VvBool True)"
  shows "agrees_at (int_name n t) (bool_name n t) (f64_name n t) m w"
    and "agrees_at (int_name n t) (bool_name n t) None m w"
  using assms
  by (cases t; cases w; force simp: agrees_at_def int_name_def bool_name_def f64_name_def)+

definition env_value :: "venv \<Rightarrow> string \<Rightarrow> vval option" where
  "env_value env n =
     (if \<exists>v. n = var_text v then ve_vars env (THE v. n = var_text v)
      else if \<exists>v. n = old_text v then ve_old env (THE v. n = old_text v)
      else ve_result env)"

lemma env_value_simps:
  "env_value env (var_text v) = ve_vars env v" "env_value env (old_text v) = ve_old env v"
  "env_value env ''result'' = ve_result env"
  by (simp_all add: env_value_def)

definition env_model :: "venv \<Rightarrow> smt_model" where
  "env_model env = \<lparr>sm_int = \<lambda>n. case env_value env n of None \<Rightarrow> 0 | Some w \<Rightarrow> val_int w,
     sm_bool = \<lambda>n. env_value env n = Some (VvBool True), sm_div0 = \<lambda>_. 0, sm_mod0 = \<lambda>_. 0\<rparr>"

lemma env_model_agrees:
  assumes "ctx_ok params rs x" and "sorts_fit params rs x env"
  shows "agrees x (env_model env) env"
  unfolding agrees_def
proof (intro conjI allI impI)
  fix v w
  assume "ve_vars env v = Some w"
  then show "agrees_at (zx_int_vars x v) (zx_bool_vars x v) (zx_f64_vars x v) (env_model env) w"
    using assms names_agree(1) by (simp add: ctx_ok_def sorts_fit_def env_model_def env_value_simps)
next
  fix v w
  assume "ve_old env v = Some w"
  then show "agrees_at (zx_old_int_vars x v) (zx_old_bool_vars x v) None (env_model env) w"
    using assms names_agree(2) by (simp add: ctx_ok_def sorts_fit_def env_model_def env_value_simps)
next
  fix w
  assume "ve_result env = Some w"
  then show "agrees_at (zx_result_int x) (zx_result_bool x) (zx_result_f64 x) (env_model env) w"
    using assms names_agree(1) by (simp add: ctx_ok_def sorts_fit_def env_model_def env_value_simps)
qed

section \<open>The state at the start\<close>

lemma register_param_ok:
  assumes "ctx_ok params None x" and "zx_var_types x = params" and "params v = None"
  shows "ctx_ok (params(v \<mapsto> ty)) None (register_param v ty x)"
    and "zx_var_types (register_param v ty x) = params(v \<mapsto> ty)"
proof -
  have types: "zx_var_types x v = None" using assms(2,3) by simp
  show "ctx_ok (params(v \<mapsto> ty)) None (register_param v ty x)"
    using assms(1,3) types by (cases ty) (auto simp: ctx_ok_def register_param_def register_let_def Let_def)
  show "zx_var_types (register_param v ty x) = params(v \<mapsto> ty)"
    using assms(2) by (cases ty) (simp_all add: register_param_def Let_def)
qed

lemma register_params_ok:
  assumes "distinct (map fst ps)" and "\<forall>p \<in> set ps. params (fst p) = None"
    and "ctx_ok params None x" and "zx_var_types x = params"
  shows "ctx_ok (params ++ map_of (map (\<lambda>(v, ty, _). (v, ty)) ps)) None
      (foldl (\<lambda>x (v, ty, _). register_param v ty x) x ps)
    \<and> zx_var_types (foldl (\<lambda>x (v, ty, _). register_param v ty x) x ps)
      = params ++ map_of (map (\<lambda>(v, ty, _). (v, ty)) ps)"
  using assms
proof (induction ps arbitrary: params x)
  case (Cons p ps)
  obtain v ty n where p: "p = (v, ty, n)" by (cases p) auto
  have new: "params v = None" "v \<notin> fst ` set ps" using Cons.prems(1,2) by (auto simp: p)
  have "map_of (map (\<lambda>(v, ty, _). (v, ty)) ps) v = None"
    using new(2) by (force simp: map_of_eq_None_iff)
  then have merge: "params(v \<mapsto> ty) ++ map_of (map (\<lambda>(v, ty, _). (v, ty)) ps)
      = params ++ map_of (map (\<lambda>(v, ty, _). (v, ty)) (p # ps))"
    by (auto simp: p fun_eq_iff map_add_def split: option.split)
  note step = register_param_ok [OF Cons.prems(3,4) new(1), of ty]
  have fresh: "\<forall>q \<in> set ps. (params(v \<mapsto> ty)) (fst q) = None"
    using Cons.prems(2) new(2) by force
  show ?case
    unfolding merge [symmetric] unfolding p foldl_Cons prod.case
    by (rule Cons.IH [OF _ fresh step]) (use Cons.prems(1) in simp_all)
qed simp

lemma zx_new_ok:
  assumes "distinct (map fst (vf_params f))"
  shows "ctx_ok (param_types f) None (zx_new f)" and "zx_var_types (zx_new f) = param_types f"
proof -
  have "ctx_ok Map.empty None zx_empty" "zx_var_types zx_empty = Map.empty"
    by (simp_all add: ctx_ok_def zx_empty_def)
  from register_params_ok [OF assms _ this]
  show "ctx_ok (param_types f) None (zx_new f)" "zx_var_types (zx_new f) = param_types f"
    by (simp_all add: zx_new_def param_types_def)
qed

definition result_sort :: "bool \<Rightarrow> bool \<Rightarrow> VType" where
  "result_sort returns_f64 returns_bool = (if returns_bool then VtBool else if returns_f64 then VtF64 else VtI64)"

lemma setup_result_ok:
  "ctx_ok params None x \<Longrightarrow> ctx_ok params (Some (result_sort rf rb)) (setup_result rf rb x)"
  "zx_var_types (setup_result rf rb x) = zx_var_types x"
  by (auto simp: ctx_ok_def setup_result_def result_sort_def)

text \<open>What the axioms say of a parameter.\<close>

definition param_ok :: "smt_model \<Rightarrow> VarId \<Rightarrow> VType \<Rightarrow> bool" where
  "param_ok m v ty =
     (if ty = VtBool then sm_bool m (var_text v) = sm_bool m (old_text v)
      else if ty = VtF64 then True
      else sm_int m (var_text v) = sm_int m (old_text v) \<and> in_width ty (sm_int m (var_text v)))"

lemma param_axioms_ok:
  assumes "ctx_ok params rs (vs_ctx st)" and "params v = Some ty" and "zx_var_types (vs_ctx st) v = Some ty"
    and "healthy (vs_session st)"
  shows "vs_ctx (param_axioms v ty st) = vs_ctx st \<and> healthy (vs_session (param_axioms v ty st))
    \<and> (holds_in m (param_axioms v ty st) \<longleftrightarrow> holds_in m st \<and> param_ok m v ty)"
proof -
  have "zx_int_vars (vs_ctx st) v = int_name (var_text v) (Some ty)"
    "zx_bool_vars (vs_ctx st) v = bool_name (var_text v) (Some ty)"
    "zx_old_int_vars (vs_ctx st) v = int_name (old_text v) (Some ty)"
    "zx_old_bool_vars (vs_ctx st) v = bool_name (old_text v) (Some ty)"
    using assms(1-3) by (simp_all add: ctx_ok_def)
  then show ?thesis using assms(4)
    by (cases ty) (auto simp: param_axioms_def Let_def range_axiom_def param_ok_def in_width_def)
qed

lemma all_param_axioms_ok:
  assumes "ctx_ok params rs (vs_ctx st)" and "healthy (vs_session st)"
    and "\<forall>(v, ty, n) \<in> set ps. params v = Some ty \<and> zx_var_types (vs_ctx st) v = Some ty"
  shows "vs_ctx (foldl (\<lambda>st (v, ty, _). param_axioms v ty st) st ps) = vs_ctx st
    \<and> healthy (vs_session (foldl (\<lambda>st (v, ty, _). param_axioms v ty st) st ps))
    \<and> (holds_in m (foldl (\<lambda>st (v, ty, _). param_axioms v ty st) st ps)
       \<longleftrightarrow> holds_in m st \<and> (\<forall>(v, ty, n) \<in> set ps. param_ok m v ty))"
  using assms
proof (induction ps arbitrary: st)
  case (Cons p ps)
  obtain v ty n where p: "p = (v, ty, n)" by (cases p) auto
  have "params v = Some ty" "zx_var_types (vs_ctx st) v = Some ty" using Cons.prems(3) by (auto simp: p)
  note step = param_axioms_ok [OF Cons.prems(1) this Cons.prems(2), of m]
  show ?case using Cons.IH [of "param_axioms v ty st"] step Cons.prems(1,3) by (auto simp: p)
qed simp

section \<open>Registration of the variables of the body\<close>

lemma register_all_ok:
  assumes "ctx_ok params rs x"
  shows "ctx_ok params rs (foldl register_unknown x vts)
    \<and> (\<forall>v ty. zx_var_types x v = Some ty \<longrightarrow> zx_var_types (foldl register_unknown x vts) v = Some ty)
    \<and> (\<forall>v ty. zx_var_types (foldl register_unknown x vts) v = Some ty \<longrightarrow>
         zx_var_types x v = Some ty \<or> (v, ty) \<in> set vts)
    \<and> (\<forall>(v, ty) \<in> set vts. zx_var_types (foldl register_unknown x vts) v \<noteq> None)"
  using assms
proof (induction vts arbitrary: x)
  case (Cons vt vts)
  obtain v ty where vt: "vt = (v, ty)" by (cases vt)
  let ?x = "register_unknown x vt"
  have ok: "ctx_ok params rs ?x" using Cons.prems register_let_ok by (auto simp: register_unknown_def)
  have types: "zx_var_types ?x = (if zx_var_types x v = None then (zx_var_types x)(v \<mapsto> ty) else zx_var_types x)"
    by (simp add: register_unknown_def vt)
  note IH = Cons.IH [OF ok]
  show ?case unfolding foldl_Cons
  proof (intro conjI allI impI)
    fix w ty' assume "zx_var_types x w = Some ty'"
    then have "zx_var_types ?x w = Some ty'" by (auto simp: types)
    then show "zx_var_types (foldl register_unknown ?x vts) w = Some ty'" using IH by blast
  next
    fix w ty' assume "zx_var_types (foldl register_unknown ?x vts) w = Some ty'"
    then have "zx_var_types ?x w = Some ty' \<or> (w, ty') \<in> set vts" using IH by blast
    then show "zx_var_types x w = Some ty' \<or> (w, ty') \<in> set (vt # vts)"
      unfolding types by (auto simp: vt split: if_splits)
  next
    obtain ty' where "zx_var_types ?x v = Some ty'" by (cases "zx_var_types x v") (auto simp: types)
    then show "\<forall>(v, ty) \<in> set (vt # vts). zx_var_types (foldl register_unknown ?x vts) v \<noteq> None"
      using IH by (auto simp: vt)
  qed (use IH in blast)
qed simp

lemma collect_var_ids_types: "(v, ty) \<in> set (collect_var_ids e) \<Longrightarrow> ty = VtI64 \<or> ty = VtF64"
  by (induction e) auto

lemma stmt_var_ids_bool:
  "(v, VtBool) \<in> set (stmt_var_ids s) \<Longrightarrow> \<exists>e. s = VLet v e \<and> vexpr_ty e = Some VtBool"
  by (cases s) (auto simp: ty_or_i64_def split: option.splits dest: collect_var_ids_types)

lemma vexpr_ty_bool: "vexpr_ty e = Some VtBool \<Longrightarrow> expr_typed g e ty \<Longrightarrow> ty = VtBool"
  by (induction e arbitrary: ty) auto

lemma let_typed:
  "stmts_typed types rty g ss \<Longrightarrow> VLet v e \<in> set ss \<Longrightarrow>
    \<exists>g' ty. types v = Some ty \<and> expr_typed g' e ty"
  by (induction types rty g ss rule: stmts_typed.induct) (auto split: option.splits)

lemma let_new:
  "stmts_typed types rty g ss \<Longrightarrow> VLet v e \<in> set ss \<Longrightarrow> vt_vars g v = None"
  by (induction types rty g ss rule: stmts_typed.induct) (auto split: option.splits if_splits)

section \<open>Fitting values\<close>

lemma val_fits_sort: "val_fits w ty \<Longrightarrow> val_sort w ty"
  by (cases w; cases ty) (simp_all add: in_width_def)

text \<open>What is true of the state of the verifier when the function is in an environment.\<close>

definition ready :: "(VarId \<rightharpoonup> VType) \<Rightarrow> VType option \<Rightarrow> VirZ3Ctx \<Rightarrow> vtyping \<Rightarrow> venv \<Rightarrow> verify_state \<Rightarrow> bool" where
  "ready params rs x g env st \<longleftrightarrow>
     vs_ctx st = x \<and> healthy (vs_session st) \<and> env_fits env g \<and> sorts_fit params rs x env
     \<and> (\<forall>m. agrees x m env \<longrightarrow> holds_in m st)"

lemma ready_model:
  "ctx_ok params rs x \<Longrightarrow> ready params rs x g env st \<Longrightarrow>
     agrees x (env_model env) env \<and> holds_in (env_model env) st"
  using env_model_agrees by (auto simp: ready_def)

text \<open>Asserting what is true in the environment.\<close>

lemma ready_assume:
  assumes "ready params rs x g env st" and "\<And>m. agrees x m env \<Longrightarrow> zb_val m b"
  shows "ready params rs x g env (assume_term b st)"
  using assms by (auto simp: ready_def)

text \<open>A variable or the result comes into the environment.\<close>

lemma agrees_before_let:
  assumes "agrees x m (env\<lparr>ve_vars := (ve_vars env)(v \<mapsto> w)\<rparr>)" and "ve_vars env v = None"
  shows "agrees x m env"
proof -
  have "((ve_vars env)(v \<mapsto> w)) u = Some w'" if "ve_vars env u = Some w'" for u w' using that assms(2) by auto
  then show ?thesis using assms(1) by (simp add: agrees_def)
qed

lemma agrees_before_return:
  "agrees x m (env\<lparr>ve_result := Some w\<rparr>) \<Longrightarrow> ve_result env = None \<Longrightarrow> agrees x m env"
  by (auto simp: agrees_def)

lemma vals_fit_update:
  assumes "vals_fit vals types" and "val_fits w ty"
  shows "vals_fit (vals(v \<mapsto> w)) (types(v \<mapsto> ty))"
  unfolding vals_fit_def
proof
  fix u
  show "case (types(v \<mapsto> ty)) u of None \<Rightarrow> (vals(v \<mapsto> w)) u = None
    | Some ty \<Rightarrow> (case (vals(v \<mapsto> w)) u of None \<Rightarrow> False | Some w \<Rightarrow> val_fits w ty)"
  proof (cases "u = v")
    case False
    then show ?thesis using spec [OF assms(1) [unfolded vals_fit_def], of u] by (cases "types u") simp_all
  qed (simp add: assms(2))
qed

lemma ready_let:
  assumes "ready params rs x g env st" and "vt_vars g v = None" and "val_fits w ty"
    and "zx_var_types x v = Some t" and "val_sort w t"
  shows "ready params rs x (g\<lparr>vt_vars := (vt_vars g)(v \<mapsto> ty)\<rparr>)
    (env\<lparr>ve_vars := (ve_vars env)(v \<mapsto> w)\<rparr>) st"
proof -
  have new: "ve_vars env v = None" using assms(1,2) by (auto simp: ready_def env_fits_def dest: vals_fit_None)
  have "env_fits (env\<lparr>ve_vars := (ve_vars env)(v \<mapsto> w)\<rparr>) (g\<lparr>vt_vars := (vt_vars g)(v \<mapsto> ty)\<rparr>)"
    using assms(1,3) vals_fit_update by (simp add: ready_def env_fits_def)
  moreover have "sorts_fit params rs x (env\<lparr>ve_vars := (ve_vars env)(v \<mapsto> w)\<rparr>)"
    using assms(1,4,5) by (auto simp: ready_def sorts_fit_def)
  ultimately show ?thesis using assms(1) new by (auto simp: ready_def dest: agrees_before_let)
qed

lemma ready_return:
  assumes "ready params (Some t) x g env st" and "vt_result g = None" and "val_fits w ty" and "val_sort w t"
  shows "ready params (Some t) x (g\<lparr>vt_result := Some ty\<rparr>) (env\<lparr>ve_result := Some w\<rparr>) st"
proof -
  have new: "ve_result env = None"
    using assms(1,2) vals_fit_None [of "\<lambda>_. ve_result env" "\<lambda>_. vt_result g"]
    by (auto simp: ready_def env_fits_def)
  have "env_fits (env\<lparr>ve_result := Some w\<rparr>) (g\<lparr>vt_result := Some ty\<rparr>)"
    using assms(1,3) by (auto simp: ready_def env_fits_def vals_fit_def)
  moreover have "sorts_fit params (Some t) x (env\<lparr>ve_result := Some w\<rparr>)"
    using assms(1,4) by (auto simp: ready_def sorts_fit_def)
  ultimately show ?thesis using assms(1) new by (auto simp: ready_def dest: agrees_before_return)
qed

section \<open>Statements\<close>

lemma encode_f64_no_trap: "encode_f64 x e = Some z \<Longrightarrow> veval fc env e \<noteq> VrTrap"
  by (cases e) (auto simp: lookup_val_def split: option.splits)

lemma bind_term_Ok:
  "bind_term name msg encoded (Some t) eq st = Ok st' \<longleftrightarrow> (\<exists>b. encoded = Some b \<and> st' = assume_term (eq t b) st)"
  by (auto simp: bind_term_def split: option.split)

text \<open>Checking the obligations keeps the state ready and excludes a trap.\<close>

lemma definedness_sound:
  assumes "solver_sound solve" and ok: "ctx_ok params rs x" and ready: "ready params rs x g env st"
    and check: "vir_check_definedness solve name e st = (None, st')"
  shows "ready params rs x g env st'"
    and "encode_int x e \<noteq> None \<or> encode_bool x e \<noteq> None \<Longrightarrow> veval fc env e \<noteq> VrTrap"
proof -
  have x: "vs_ctx st = x" using ready by (simp add: ready_def)
  have res: "vs_ctx st' = x \<and> healthy (vs_session st')
    \<and> (\<forall>m. holds_in m st \<longrightarrow> holds_in m st' \<and> met m (collect_definedness x e))"
    using check_obligations_None [OF assms(1)] check ready
    by (auto simp: vir_check_definedness_def ready_def)
  then show "ready params rs x g env st'" using ready by (auto simp: ready_def)
  assume "encode_int x e \<noteq> None \<or> encode_bool x e \<noteq> None"
  then show "veval fc env e \<noteq> VrTrap"
    using definedness_no_trap res ready_model [OF ok ready] by blast
qed

lemma typed_value:
  assumes "ready params rs x g env st" and "expr_typed g e ty" and "veval fc env e \<noteq> VrTrap"
  shows "\<exists>w. veval fc env e = VrVal w \<and> val_fits w ty"
  using expr_yields [OF assms(2), of env fc] assms(1,3) by (simp add: ready_def yields_def)

text \<open>The equation that binds a name of some sort to an expression.\<close>

definition binding :: "string \<Rightarrow> VType \<Rightarrow> VirZ3Ctx \<Rightarrow> VExpr \<Rightarrow> zbool \<Rightarrow> bool" where
  "binding n t x e b =
     (case t of
        VtBool \<Rightarrow> (\<exists>z. encode_bool x e = Some z \<and> b = ZIff (ZBoolConst n) z)
      | VtF64 \<Rightarrow> (\<exists>z. encode_f64 x e = Some z \<and> b = ZEq (ZIntConst n) z)
      | _ \<Rightarrow> (\<exists>z. encode_int x e = Some z \<and> b = ZEq (ZIntConst n) z))"

lemma binding_val:
  assumes "binding n t x e b" and "agrees x m env" and "veval fc env e = VrVal w"
    and "t = VtBool \<Longrightarrow> val_fits w VtBool"
  shows "val_sort w t"
    and "agrees_at (int_name n (Some t)) (bool_name n (Some t)) (f64_name n (Some t)) m w \<Longrightarrow> zb_val m b"
proof -
  have "val_sort w t
    \<and> (agrees_at (int_name n (Some t)) (bool_name n (Some t)) (f64_name n (Some t)) m w \<longrightarrow> zb_val m b)"
  proof (cases t)
    case VtBool
    then obtain z c where "encode_bool x e = Some z" "b = ZIff (ZBoolConst n) z" "w = VvBool c"
      using assms(1,4) by (auto simp: binding_def dest: val_fits_cases(1))
    then show ?thesis using encode_val(2) assms(2,3) VtBool by (auto simp: agrees_at_def)
  next
    case VtF64
    then obtain z u where "b = ZEq (ZIntConst n) z" "w = VvF64 u" "zi_val m z = sint u"
      using assms(1) encode_f64_val [OF _ assms(2,3)] by (auto simp: binding_def)
    then show ?thesis using VtF64 by (auto simp: agrees_at_def)
  next
    case VtI32
    then obtain z where "b = ZEq (ZIntConst n) z" "w = VvInt (zi_val m z)"
      using assms(1) encode_val(1) [OF _ assms(2,3)] by (auto simp: binding_def)
    then show ?thesis using VtI32 by (auto simp: agrees_at_def)
  next
    case VtI64
    then obtain z where "b = ZEq (ZIntConst n) z" "w = VvInt (zi_val m z)"
      using assms(1) encode_val(1) [OF _ assms(2,3)] by (auto simp: binding_def)
    then show ?thesis using VtI64 by (auto simp: agrees_at_def)
  qed
  then show "val_sort w t"
    and "agrees_at (int_name n (Some t)) (bool_name n (Some t)) (f64_name n (Some t)) m w \<Longrightarrow> zb_val m b"
    by blast+
qed

lemma let_sound:
  assumes sound: "solver_sound solve" and ok: "ctx_ok params rs x" and ready: "ready params rs x g env st"
    and step: "verify_let solve name v e st = Ok st'"
    and new: "vt_vars g v = None" and typed: "expr_typed g e ty"
    and reg: "zx_var_types x v = Some t" and bool: "t = VtBool \<Longrightarrow> ty = VtBool"
  shows "\<exists>w. veval fc env e = VrVal w \<and> ready params rs x (g\<lparr>vt_vars := (vt_vars g)(v \<mapsto> ty)\<rparr>)
    (env\<lparr>ve_vars := (ve_vars env)(v \<mapsto> w)\<rparr>) st'"
proof -
  obtain st1 where def: "vir_check_definedness solve name e st = (None, st1)"
    using step by (auto simp: verify_let_def split: prod.splits option.splits)
  note ready1 = definedness_sound(1) [OF sound ok ready def]
    and no_trap = definedness_sound(2) [OF sound ok ready def, where fc = fc]
  have x: "vs_ctx st1 = x" using ready1 by (simp add: ready_def)
  have st1: "st1\<lparr>vs_ctx := x\<rparr> = st1" using x by simp
  have new_env: "ve_vars env v = None"
    using ready new by (auto simp: ready_def env_fits_def dest: vals_fit_None)
  have names: "zx_int_vars x v = int_name (var_text v) (Some t)" "zx_bool_vars x v = bool_name (var_text v) (Some t)"
    "zx_f64_vars x v = f64_name (var_text v) (Some t)" using ok reg by (simp_all add: ctx_ok_def)
  from step [unfolded verify_let_def def prod.case option.case Let_def x reg ty_or_i64_def
      register_let_again [OF ok reg] st1 names]
  obtain b where b: "binding (var_text v) t x e b" "st' = assume_term b st1"
    by (cases t) (auto simp: bind_term_Ok binding_def)
  have "veval fc env e \<noteq> VrTrap"
    using b(1) no_trap encode_f64_no_trap by (cases t) (auto simp: binding_def)
  then obtain w where w: "veval fc env e = VrVal w" "val_fits w ty" using typed_value [OF ready typed] by blast
  have fits: "t = VtBool \<Longrightarrow> val_fits w VtBool" using bool w(2) by simp
  have sort: "val_sort w t" using binding_val(1) [OF b(1) _ w(1) fits] ready_model [OF ok ready] by blast
  let ?env = "env\<lparr>ve_vars := (ve_vars env)(v \<mapsto> w)\<rparr>"
  have "zb_val m b" if "agrees x m ?env" for m
    using binding_val(2) [OF b(1) agrees_before_let [OF that new_env] w(1) fits] agrees_var [OF that, of v w]
    by (simp add: names)
  then show ?thesis
    using w(1) ready_assume [OF ready_let [OF ready1 new w(2) reg sort]] unfolding b(2) by blast
qed

lemma return_sound:
  assumes sound: "solver_sound solve" and ok: "ctx_ok params (Some t) x"
    and ready: "ready params (Some t) x g env st"
    and step: "verify_return solve name rf rb e st = Ok st'"
    and new: "vt_result g = None" and typed: "expr_typed g e rty"
    and flags: "rf \<longleftrightarrow> rty = VtF64" "rb \<longleftrightarrow> rty = VtBool" and t: "t = result_sort rf rb"
  shows "rb \<and> veval fc env e = VrTrap
    \<or> (\<exists>w. veval fc env e = VrVal w
        \<and> ready params (Some t) x (g\<lparr>vt_result := Some rty\<rparr>) (env\<lparr>ve_result := Some w\<rparr>) st')"
proof -
  have x: "vs_ctx st = x" using ready by (simp add: ready_def)
  have names: "zx_result_int x = int_name ''result'' (Some t)" "zx_result_bool x = bool_name ''result'' (Some t)"
    "zx_result_f64 x = f64_name ''result'' (Some t)" using ok by (simp_all add: ctx_ok_def)
  obtain st1 b where st1: "ready params (Some t) x g env st1" and b: "binding ''result'' t x e b" "st' = assume_term b st1"
    and no_trap: "\<not> rb \<Longrightarrow> veval fc env e \<noteq> VrTrap"
  proof (cases "rf \<or> rb")
    case True
    then show thesis
      using step ready flags that [OF ready] encode_f64_no_trap
      by (auto simp: verify_return_def Let_def x names t result_sort_def bind_term_Ok binding_def split: sum.splits)
  next
    case False
    then obtain st1 where def: "vir_check_definedness solve name e st = (None, st1)"
      using step by (auto simp: verify_return_def Let_def split: prod.splits option.splits)
    have "vs_ctx st1 = x" using definedness_sound(1) [OF sound ok ready def] by (simp add: ready_def)
    then show thesis
      using False step that [OF definedness_sound(1) [OF sound ok ready def]]
        definedness_sound(2) [OF sound ok ready def]
      by (auto simp: verify_return_def Let_def def x names t result_sort_def bind_term_Ok binding_def
          split: sum.splits)
  qed
  have new_env: "ve_result env = None"
    using ready new vals_fit_None [of "\<lambda>_. ve_result env" "\<lambda>_. vt_result g"]
    by (auto simp: ready_def env_fits_def)
  show ?thesis
  proof (cases "veval fc env e = VrTrap")
    case True
    then show ?thesis using no_trap by blast
  next
    case False
    then obtain w where w: "veval fc env e = VrVal w" "val_fits w rty" using typed_value [OF ready typed] by blast
    have fits: "t = VtBool \<Longrightarrow> val_fits w VtBool" using w(2) flags t by (auto simp: result_sort_def split: if_splits)
    have sort: "val_sort w t" using binding_val(1) [OF b(1) _ w(1) fits] ready_model [OF ok ready] by blast
    let ?env = "env\<lparr>ve_result := Some w\<rparr>"
    have "zb_val m b" if "agrees x m ?env" for m
      using binding_val(2) [OF b(1) agrees_before_return [OF that new_env] w(1) fits] agrees_result [OF that, of w]
      by (simp add: names)
    then show ?thesis
      using w(1) ready_assume [OF ready_return [OF st1 new w(2) sort]] unfolding b(2) by blast
  qed
qed

lemma assume_sound:
  assumes ready: "ready params rs x g env st" and step: "verify_assume name e st = Ok st'"
    and true: "veval fc env e = VrVal (VvBool True)"
  shows "ready params rs x g env st'"
proof -
  obtain b where b: "encode_bool x e = Some b" "st' = assume_term b st"
    using step ready by (auto simp: verify_assume_def ready_def split: option.splits)
  show ?thesis unfolding b(2)
    by (rule ready_assume [OF ready]) (use encode_val(2) [OF b(1) _ true] in blast)
qed

lemma assert_sound:
  assumes sound: "solver_sound solve" and ok: "ctx_ok params rs x" and ready: "ready params rs x g env st"
    and step: "verify_assert solve name e st = Ok st'"
  shows "ready params rs x g env st' \<and> veval fc env e \<noteq> VrVal (VvBool False)"
proof -
  obtain b s where b: "encode_bool x e = Some b" "check_scope solve (ZNot b) (vs_session st) = (Unsat, s)"
    "st' = assume_term b (st\<lparr>vs_session := s\<rparr>)"
    using step ready by (auto simp: verify_assert_def ready_def split: option.splits prod.splits SatResult.splits)
  have healthy: "healthy (vs_session st)" using ready by (simp add: ready_def)
  note u = check_scope_unsat [OF sound b(2) healthy]
  have st': "st' = assume_term b st" using b(3) u(1) by simp
  have holds: "zb_val m b" if "agrees x m env" for m
    using that ready u(2) by (auto simp: ready_def holds_in_def)
  show ?thesis
  proof
    show "ready params rs x g env st'" unfolding st' by (rule ready_assume [OF ready holds])
    show "veval fc env e \<noteq> VrVal (VvBool False)"
      using encode_val(2) [OF b(1)] ready_model [OF ok ready] holds by blast
  qed
qed

lemma typed_bool:
  assumes "ready params rs x g env st" and "expr_typed g e VtBool"
  shows "veval fc env e = VrTrap \<or> (\<exists>b. veval fc env e = VrVal (VvBool b))"
  using expr_yields [OF assms(2), of env fc] assms(1) by (simp add: ready_def yields_bool)

lemma stmts_sound:
  assumes sound: "solver_sound solve" and ok: "ctx_ok params (Some t) x"
    and flags: "rf \<longleftrightarrow> rty = VtF64" "rb \<longleftrightarrow> rty = VtBool" and t: "t = result_sort rf rb"
  shows "verify_stmts solve name rf rb ss st = Ok st' \<Longrightarrow> ready params (Some t) x g env st \<Longrightarrow>
    stmts_typed types rty g ss \<Longrightarrow> vt_result g = None \<Longrightarrow>
    (\<forall>v e. VLet v e \<in> set ss \<longrightarrow>
      (\<exists>ty. zx_var_types x v = Some ty \<and> (ty = VtBool \<longrightarrow> types v = Some VtBool))) \<Longrightarrow>
    (case run_stmts fc ss env of
       Returned env' \<Rightarrow> ready params (Some t) x (typing_after types rty g ss) env' st'
     | Trapped \<Rightarrow> rb | Broken \<Rightarrow> True | Failed \<Rightarrow> False | Stuck \<Rightarrow> False)"
proof (induction ss arbitrary: st g env)
  case (Cons s ss)
  obtain st1 where step: "verify_stmt solve name rf rb s st = Ok st1"
    and rest: "verify_stmts solve name rf rb ss st1 = Ok st'"
    using Cons.prems(1) by (auto split: sum.splits)
  note IH = Cons.IH [OF rest]
  have lets: "\<forall>v e. VLet v e \<in> set ss \<longrightarrow>
    (\<exists>ty. zx_var_types x v = Some ty \<and> (ty = VtBool \<longrightarrow> types v = Some VtBool))"
    using Cons.prems(5) by simp
  show ?case
  proof (cases s)
    case (VAssume e)
    have typed: "expr_typed g e VtBool" "stmts_typed types rty g ss" using Cons.prems(3) VAssume by simp_all
    from typed_bool [OF Cons.prems(2) typed(1), of fc] consider
      "veval fc env e = VrTrap" | "veval fc env e = VrVal (VvBool False)" | "veval fc env e = VrVal (VvBool True)"
      by (metis (full_types))
    then show ?thesis
    proof cases
      case 3
      have r: "ready params (Some t) x g env st1"
        using assume_sound [OF Cons.prems(2) _ 3] step VAssume by simp
      show ?thesis using IH [OF r typed(2) Cons.prems(4) lets] unfolding VAssume typing_after.simps by (simp add: 3)
    qed (simp_all add: VAssume)
  next
    case (VAssert e)
    have typed: "expr_typed g e VtBool" "stmts_typed types rty g ss" using Cons.prems(3) VAssert by simp_all
    have s: "ready params (Some t) x g env st1" "veval fc env e \<noteq> VrVal (VvBool False)"
      using assert_sound [OF sound ok Cons.prems(2)] step VAssert by simp_all
    from typed_bool [OF Cons.prems(2) typed(1), of fc] s(2) have
      "veval fc env e = VrTrap \<or> veval fc env e = VrVal (VvBool True)" by (metis (full_types))
    then show ?thesis
      using IH [OF s(1) typed(2) Cons.prems(4) lets] unfolding VAssert typing_after.simps by auto
  next
    case (VLet v e)
    then obtain ty where typed: "vt_vars g v = None" "types v = Some ty" "expr_typed g e ty"
      "stmts_typed types rty (g\<lparr>vt_vars := (vt_vars g)(v \<mapsto> ty)\<rparr>) ss"
      using Cons.prems(3) by (auto split: option.splits)
    obtain tv where reg: "zx_var_types x v = Some tv" "tv = VtBool \<Longrightarrow> ty = VtBool"
      using Cons.prems(5) VLet typed(2) by (metis list.set_intros(1) option.inject)
    obtain w where w: "veval fc env e = VrVal w" "ready params (Some t) x (g\<lparr>vt_vars := (vt_vars g)(v \<mapsto> ty)\<rparr>)
        (env\<lparr>ve_vars := (ve_vars env)(v \<mapsto> w)\<rparr>) st1"
      using let_sound [OF sound ok Cons.prems(2) _ typed(1,3) reg, of name st1 fc] step VLet by auto
    have none: "vt_result (g\<lparr>vt_vars := (vt_vars g)(v \<mapsto> ty)\<rparr>) = None" using Cons.prems(4) by simp
    show ?thesis
      using IH [OF w(2) typed(4) none lets] unfolding VLet typing_after.simps typed(2) by (simp add: w(1))
  next
    case (VReturn e)
    have typed: "ss = []" "expr_typed g e rty" using Cons.prems(3) VReturn by simp_all
    have "rb \<and> veval fc env e = VrTrap
      \<or> (\<exists>w. veval fc env e = VrVal w
          \<and> ready params (Some t) x (g\<lparr>vt_result := Some rty\<rparr>) (env\<lparr>ve_result := Some w\<rparr>) st1)"
      using return_sound [OF sound ok Cons.prems(2) _ Cons.prems(4) typed(2) flags t] step VReturn by simp
    then show ?thesis using rest unfolding VReturn typing_after.simps typed(1) by auto
  qed
qed simp

section \<open>Postconditions\<close>

lemma session_check_Sat: "session_check solve s = (Sat, s') \<Longrightarrow> healthy s \<Longrightarrow> s' = s"
  by (cases s) (auto simp: session_check_def healthy_def split: if_splits solver_outcome.splits)

lemma check_posts_hold:
  assumes "solver_sound solve"
  shows "check_posts solve name i unknown posts st = Ok (PvHold, st') \<Longrightarrow> healthy (vs_session st) \<Longrightarrow>
    \<not> unknown \<and> (\<forall>p \<in> set posts. \<exists>b. encode_bool (vs_ctx st) p = Some b \<and> (\<forall>m. holds_in m st \<longrightarrow> zb_val m b))"
proof (induction posts arbitrary: i unknown st)
  case (Cons p posts)
  obtain b where b: "encode_bool (vs_ctx st) p = Some b" using Cons.prems(1) by (auto split: option.splits)
  obtain r s where c: "check_scope solve (ZNot b) (vs_session st) = (r, s)" by (cases "check_scope solve (ZNot b) (vs_session st)")
  show ?case
  proof (cases r)
    case Unsat
    note u = check_scope_unsat [OF assms c [unfolded Unsat] Cons.prems(2)]
    have "check_posts solve name (i + 1) unknown posts st = Ok (PvHold, st')"
      using Cons.prems(1) by (simp add: b c Unsat u(1))
    from Cons.IH [OF this Cons.prems(2)] show ?thesis using b u(2) by (auto simp: holds_in_def)
  next
    case Unknown
    have poisoned_unknown: "check_posts solve name k True ps w \<noteq> Ok (PvHold, w')" for k ps w w'
      by (induction ps arbitrary: k w) (auto split: option.splits prod.splits SatResult.splits)
    then show ?thesis using Cons.prems(1) by (simp add: b c Unknown)
  next
    case Sat
    then show ?thesis using Cons.prems(1) by (simp add: b c)
  qed
qed (simp split: if_splits)

section \<open>Only the last exit reports a proof\<close>

lemma status_simps [simp]:
  "vr_status (result_of name status msg st) = status" "vr_status (outside name domain msg st) = NotInTrustedSubset"
  "unknown_status s \<noteq> Proven" "Proven \<noteq> unknown_status s"
  by (simp_all add: result_of_def outside_def unknown_status_def)

lemma check_obligations_status:
  "check_obligations solve name obs st = (Some r, st') \<Longrightarrow> vr_status r \<noteq> Proven"
  by (induction obs arbitrary: st) (auto split: prod.splits SatResult.splits)

lemma bind_term_status: "bind_term name msg enc target eq st = Err r \<Longrightarrow> vr_status r \<noteq> Proven"
  by (auto simp: bind_term_def split: option.splits)

lemma verify_stmt_status: "verify_stmt solve name rf rb s st = Err r \<Longrightarrow> vr_status r \<noteq> Proven"
  by (cases s)
    (auto simp: verify_let_def verify_return_def verify_assume_def verify_assert_def Let_def vir_check_definedness_def
      dest: check_obligations_status bind_term_status
      split: option.splits prod.splits SatResult.splits VType.splits sum.splits if_splits)

lemma verify_stmts_status: "verify_stmts solve name rf rb ss st = Err r \<Longrightarrow> vr_status r \<noteq> Proven"
  by (induction ss arbitrary: st) (auto dest: verify_stmt_status split: sum.splits)

lemma check_posts_status: "check_posts solve name i u posts st = Err r \<Longrightarrow> vr_status r \<noteq> Proven"
  by (induction posts arbitrary: i u st) (auto split: option.splits prod.splits SatResult.splits)

lemma verdict_status: "vr_status (verdict_result cex name posts v st) = Proven \<longleftrightarrow> v = PvHold"
  by (cases v) (simp_all add: verdict_result_def)

lemma proven_cases:
  assumes "verify_vfunction solve cex f name rf rb session = Some r" and "vr_status r = Proven"
  obtains st s where "verify_stmts solve name rf rb (vf_body f) (verify_start f rf rb session) = Ok st"
    "session_check solve (vs_session st) = (Sat, s)"
    "vf_postconditions f = [] \<or>
     (\<exists>st'. check_posts solve name 0 False (vf_postconditions f) (st\<lparr>vs_session := s\<rparr>) = Ok (PvHold, st'))"
  using assms unfolding verify_vfunction_def
  by (auto simp: verdict_status dest: verify_stmts_status check_posts_status
      split: if_splits sum.splits prod.splits SatResult.splits)

section \<open>The start is right\<close>

lemma param_ok_agrees:
  assumes ok: "ctx_ok params rs x" and types: "params v = Some ty" "zx_var_types x v = Some ty"
    and agrees: "agrees x m (call_env args)" and args: "args v = Some w" "val_fits w ty"
  shows "param_ok m v ty"
proof -
  have "agrees_at (int_name (var_text v) (Some ty)) (bool_name (var_text v) (Some ty)) (f64_name (var_text v) (Some ty)) m w"
    using agrees_var [OF agrees, of v w] ok types args by (simp add: ctx_ok_def call_env_def)
  moreover have "agrees_at (int_name (old_text v) (Some ty)) (bool_name (old_text v) (Some ty)) None m w"
    using agrees_old [OF agrees, of v w] ok types args by (simp add: ctx_ok_def call_env_def)
  ultimately show ?thesis
    using args(2) by (cases ty; cases w) (auto simp: agrees_at_def param_ok_def in_width_def)
qed

lemma call_env_fits: "vals_fit args (param_types f) \<Longrightarrow> env_fits (call_env args) (param_typing f)"
  by (simp add: env_fits_def call_env_def param_typing_def) (simp add: vals_fit_def)

lemma param_in_types:
  assumes "distinct (map fst (vf_params f))" and "(v, ty, n) \<in> set (vf_params f)"
  shows "param_types f v = Some ty"
proof -
  have "map fst (map (\<lambda>(v, ty, _). (v, ty)) (vf_params f)) = map fst (vf_params f)" by auto
  then have "distinct (map fst (map (\<lambda>(v, ty, _). (v, ty)) (vf_params f)))" using assms(1) by metis
  then show ?thesis using assms(2) unfolding param_types_def by (force intro: map_of_is_SomeI)
qed

text \<open>The parameters of a call are ready in every context that extends the one of the parameters.\<close>

lemma params_ready:
  assumes ok: "ctx_ok (param_types f) rs x" and types: "\<forall>v ty. param_types f v = Some ty \<longrightarrow> zx_var_types x v = Some ty"
    and ok0: "ctx_ok (param_types f) rs x0" and types0: "zx_var_types x0 = param_types f"
    and dist: "distinct (map fst (vf_params f))" and args: "vals_fit args (param_types f)"
    and session: "healthy session" "asserted session = []"
    and st: "st = foldl (\<lambda>st (v, ty, _). param_axioms v ty st)
      \<lparr>vs_ctx = x0, vs_session = session, vs_count = 0\<rparr> (vf_params f)"
  shows "vs_ctx st = x0" and "ready (param_types f) rs x (param_typing f) (call_env args) (st\<lparr>vs_ctx := x\<rparr>)"
proof -
  let ?st0 = "\<lparr>vs_ctx = x0, vs_session = session, vs_count = 0\<rparr>"
  have "\<forall>(v, ty, n) \<in> set (vf_params f). param_types f v = Some ty \<and> zx_var_types (vs_ctx ?st0) v = Some ty"
    using param_in_types [OF dist] types0 by auto
  note axioms = all_param_axioms_ok [of _ _ ?st0, OF _ _ this, simplified, OF ok0 session(1), folded st]
  show "vs_ctx st = x0" using axioms by simp
  have holds: "holds_in m st" if a: "agrees x m (call_env args)" for m
  proof -
    have "param_ok m v ty" if p: "(v, ty, n) \<in> set (vf_params f)" for v ty n
    proof -
      have ty: "param_types f v = Some ty" by (rule param_in_types [OF dist p])
      then obtain w where "args v = Some w" "val_fits w ty" using vals_fit_Some [OF args] by blast
      then show ?thesis using param_ok_agrees [OF ok ty _ a] types ty by blast
    qed
    then show ?thesis using axioms [of m] session(2) by (auto simp: holds_in_def)
  qed
  have "sorts_fit (param_types f) rs x (call_env args)"
    unfolding sorts_fit_def
  proof (intro conjI allI impI)
    fix v w ty assume w: "ve_vars (call_env args) v = Some w" and t: "zx_var_types x v = Some ty"
    have a: "args v = Some w" using w by (simp add: call_env_def)
    then obtain ty' where ty': "param_types f v = Some ty'"
      using vals_fit_None [OF args, of v] by (cases "param_types f v") auto
    then have "ty' = ty" using types t by (metis option.inject)
    then show "val_sort w ty" using vals_fit_Some [OF args ty'] a val_fits_sort by auto
  next
    fix v w ty assume w: "ve_old (call_env args) v = Some w" and t: "param_types f v = Some ty"
    then show "val_sort w ty" using vals_fit_Some [OF args t] val_fits_sort by (auto simp: call_env_def)
  qed (simp add: call_env_def)
  then show "ready (param_types f) rs x (param_typing f) (call_env args) (st\<lparr>vs_ctx := x\<rparr>)"
    using axioms call_env_fits [OF args] holds by (simp add: ready_def holds_in_def)
qed

lemma transition_start_sound:
  assumes "distinct (map fst (vf_params f))" and "vals_fit args (param_types f)"
    and "healthy session" and "asserted session = []"
  shows "ctx_ok (param_types f) None (zx_new f)"
    and "ready (param_types f) None (zx_new f) (param_typing f) (call_env args) (transition_start f session)"
proof -
  note new = zx_new_ok [OF assms(1)]
  show "ctx_ok (param_types f) None (zx_new f)" by (rule new(1))
  note p = params_ready [OF new(1) _ new assms refl]
  have "transition_start f session = (transition_start f session)\<lparr>vs_ctx := zx_new f\<rparr>"
    using p(1) new(2) by (simp add: transition_start_def)
  then show "ready (param_types f) None (zx_new f) (param_typing f) (call_env args) (transition_start f session)"
    using p(2) new(2) by (simp add: transition_start_def)
qed

lemma start_sound:
  fixes rf rb :: bool
  assumes typed: "function_typed types rty f" and args: "vals_fit args (param_types f)"
    and session: "healthy session" "asserted session = []"
  defines "st \<equiv> verify_start f rf rb session"
  shows "ctx_ok (param_types f) (Some (result_sort rf rb)) (vs_ctx st)"
    and "ready (param_types f) (Some (result_sort rf rb)) (vs_ctx st) (param_typing f) (call_env args) st"
    and "\<forall>v e. VLet v e \<in> set (vf_body f) \<longrightarrow>
      (\<exists>ty. zx_var_types (vs_ctx st) v = Some ty \<and> (ty = VtBool \<longrightarrow> types v = Some VtBool))"
proof -
  let ?rs = "Some (result_sort rf rb)" and ?x0 = "setup_result rf rb (zx_new f)"
  let ?st1 = "foldl (\<lambda>st (v, ty, _). param_axioms v ty st)
    \<lparr>vs_ctx = ?x0, vs_session = session, vs_count = 0\<rparr> (vf_params f)"
  let ?vts = "concat (map stmt_var_ids (vf_body f)) @ concat (map collect_var_ids (vf_postconditions f))"
  have dist: "distinct (map fst (vf_params f))" using typed by (simp add: function_typed_def)
  have ok0: "ctx_ok (param_types f) ?rs ?x0" and types0: "zx_var_types ?x0 = param_types f"
    using zx_new_ok [OF dist] setup_result_ok by simp_all
  have st: "st = ?st1\<lparr>vs_ctx := foldl register_unknown (vs_ctx ?st1) ?vts\<rparr>"
    by (simp add: st_def verify_start_def Let_def preregister_def)
  note reg0 = register_all_ok [OF ok0, of ?vts, unfolded types0]
  have x: "ctx_ok (param_types f) ?rs (foldl register_unknown ?x0 ?vts)"
    "\<forall>v ty. param_types f v = Some ty \<longrightarrow> zx_var_types (foldl register_unknown ?x0 ?vts) v = Some ty"
    using reg0 by blast+
  note start = params_ready [OF x ok0 types0 dist args session refl]
  have ctx: "vs_ctx st = foldl register_unknown ?x0 ?vts" by (simp add: st start(1))
  note reg = reg0 [folded ctx]
  show "ctx_ok (param_types f) ?rs (vs_ctx st)" using reg by blast
  show "ready (param_types f) ?rs (vs_ctx st) (param_typing f) (call_env args) st"
    using start(2) unfolding ctx by (simp add: st start(1))
  have body: "stmts_typed types rty (param_typing f) (vf_body f)" using typed by (simp add: function_typed_def)
  have registered: "zx_var_types (vs_ctx st) v \<noteq> None" if "VLet v e \<in> set (vf_body f)" for v e
    using reg that by force
  have bool: "types v = Some VtBool"
    if l: "VLet v e \<in> set (vf_body f)" and b: "zx_var_types (vs_ctx st) v = Some VtBool" for v e
  proof -
    have "param_types f v = None" using let_new [OF body l] by (simp add: param_typing_def)
    then have "(v, VtBool) \<in> set ?vts" using reg b by fastforce
    then obtain e' where "VLet v e' \<in> set (vf_body f)" "vexpr_ty e' = Some VtBool"
      by (auto dest: stmt_var_ids_bool collect_var_ids_types)
    then show ?thesis using let_typed [OF body] vexpr_ty_bool by blast
  qed
  show "\<forall>v e. VLet v e \<in> set (vf_body f) \<longrightarrow>
      (\<exists>ty. zx_var_types (vs_ctx st) v = Some ty \<and> (ty = VtBool \<longrightarrow> types v = Some VtBool))"
    using registered bool by blast
qed

section \<open>Proven functions\<close>

lemma typed_post:
  assumes "ctx_ok params rs x" and "ready params rs x g env st" and "expr_typed g p VtBool"
    and "encode_bool x p = Some b" and "\<forall>m. holds_in m st \<longrightarrow> zb_val m b"
  shows "veval fc env p = VrVal (VvBool True) \<or> veval fc env p = VrTrap"
proof -
  have m: "agrees x (env_model env) env" "holds_in (env_model env) st"
    using ready_model [OF assms(1,2)] by simp_all
  have "zb_val (env_model env) b" using assms(5) m(2) by simp
  then have "veval fc env p \<noteq> VrVal (VvBool False)" using encode_val(2) [OF assms(4) m(1)] by auto
  then show ?thesis using typed_bool [OF assms(2,3), of fc] by (metis (full_types))
qed

text \<open>
  C6: when the verifier reports a well-typed function as proven, the function behaves on all
  arguments of its parameter types: either a precondition is false or traps, or the body runs to its
  end without a trap, no \<open>math\<close> clause fails, and each postcondition is true of the result unless
  evaluating the postcondition itself traps. A function that returns \<open>bool\<close> is the exception: its last
  expression may trap. Well-typed (\<open>function_typed\<close>) is a premise that the verifier does not check: the
  parameters are distinct, every local is bound once and before its use, every expression has one
  consistent type, the conditions are boolean, and a return is the last statement of the body. Outside
  it the report can be wrong, as \<open>code_after_return\<close> shows for a statement behind a return. The solver
  is trusted only where it answers that assertions cannot be satisfied.
\<close>

theorem proven_function_correct:
  assumes sound: "solver_sound solve"
    and result: "verify_vfunction solve cex f name rf rb (session_reset session) = Some r" "vr_status r = Proven"
    and typed: "function_typed types rty f" and flags: "rf \<longleftrightarrow> rty = VtF64" "rb \<longleftrightarrow> rty = VtBool"
    and args: "vals_fit args (param_types f)"
  shows "case run_stmts fc (vf_body f) (call_env args) of
      Returned env \<Rightarrow>
        (\<forall>p \<in> set (vf_postconditions f). veval fc env p = VrVal (VvBool True) \<or> veval fc env p = VrTrap)
    | Trapped \<Rightarrow> rty = VtBool
    | Broken \<Rightarrow> True
    | Failed \<Rightarrow> False
    | Stuck \<Rightarrow> False"
proof -
  have session: "healthy (session_reset session)" "asserted (session_reset session) = []"
    by (simp_all add: session_reset_def healthy_def asserted_def)
  let ?st = "verify_start f rf rb (session_reset session)"
  let ?x = "vs_ctx ?st" and ?t = "result_sort rf rb"
  let ?g = "typing_after types rty (param_typing f) (vf_body f)"
  note start = start_sound [OF typed args session, where rf = rf and rb = rb]
  obtain st s where run: "verify_stmts solve name rf rb (vf_body f) ?st = Ok st"
    and check: "session_check solve (vs_session st) = (Sat, s)"
    and posts: "vf_postconditions f = [] \<or>
      (\<exists>st'. check_posts solve name 0 False (vf_postconditions f) (st\<lparr>vs_session := s\<rparr>) = Ok (PvHold, st'))"
    by (rule proven_cases [OF result])
  have body: "stmts_typed types rty (param_typing f) (vf_body f)"
    and typed_posts: "\<forall>p \<in> set (vf_postconditions f). expr_typed ?g p VtBool"
    using typed by (simp_all add: function_typed_def list_all_iff)
  have "vt_result (param_typing f) = None" by (simp add: param_typing_def)
  note main = stmts_sound [OF sound start(1) flags refl run start(2) body this start(3), of fc]
  show ?thesis
  proof (cases "run_stmts fc (vf_body f) (call_env args)")
    case (Returned env)
    then have ready: "ready (param_types f) (Some ?t) ?x ?g env st" using main by simp
    then have healthy: "healthy (vs_session st)" and x: "vs_ctx st = ?x" by (simp_all add: ready_def)
    have s: "st\<lparr>vs_session := s\<rparr> = st" using session_check_Sat [OF check healthy] by simp
    have "veval fc env p = VrVal (VvBool True) \<or> veval fc env p = VrTrap"
      if p: "p \<in> set (vf_postconditions f)" for p
    proof -
      obtain st' where "check_posts solve name 0 False (vf_postconditions f) st = Ok (PvHold, st')"
        using posts p unfolding s by auto
      from check_posts_hold [OF sound this healthy] p x
      obtain b where "encode_bool ?x p = Some b" "\<forall>m. holds_in m st \<longrightarrow> zb_val m b" by auto
      then show ?thesis using typed_post [OF start(1) ready] typed_posts p by blast
    qed
    then show ?thesis using Returned by simp
  qed (use main flags in simp_all)
qed

section \<open>Transitions\<close>

lemma assume_all_status: "assume_all name es st = Err r \<Longrightarrow> vr_status r \<noteq> Proven"
  by (induction es arbitrary: st) (auto split: option.splits)

lemma assume_all_sound:
  "assume_all name es st = Ok st' \<Longrightarrow> ready params rs x g env st \<Longrightarrow>
    \<forall>e \<in> set es. veval fc env e = VrVal (VvBool True) \<Longrightarrow> ready params rs x g env st'"
proof (induction es arbitrary: st)
  case (Cons e es)
  have x: "vs_ctx st = x" using Cons.prems(2) by (simp add: ready_def)
  obtain b where b: "encode_bool x e = Some b" "assume_all name es (assume_term b st) = Ok st'"
    using Cons.prems(1) by (auto simp: x split: option.splits)
  have "zb_val m b" if "agrees x m env" for m
    using encode_val(2) [OF b(1) that, of fc True] Cons.prems(3) by simp
  then have "ready params rs x g env (assume_term b st)" by (rule ready_assume [OF Cons.prems(2)])
  then show ?case using Cons.IH [OF b(2)] Cons.prems(3) by simp
qed simp

lemma prove_targets_hold:
  assumes "solver_sound solve"
  shows "vr_status (prove_targets solve name i unknown es st) = Proven \<Longrightarrow> healthy (vs_session st) \<Longrightarrow>
    \<not> unknown \<and> (\<forall>e \<in> set es. \<exists>b. encode_bool (vs_ctx st) e = Some b \<and> (\<forall>m. holds_in m st \<longrightarrow> zb_val m b))"
proof (induction es arbitrary: i unknown st)
  case (Cons e es)
  obtain b where b: "encode_bool (vs_ctx st) e = Some b" using Cons.prems(1) by (auto split: option.splits)
  obtain r s where c: "check_scope solve (ZNot b) (vs_session st) = (r, s)"
    by (cases "check_scope solve (ZNot b) (vs_session st)")
  show ?case
  proof (cases r)
    case Unsat
    note u = check_scope_unsat [OF assms c [unfolded Unsat] Cons.prems(2)]
    have "vr_status (prove_targets solve name (i + 1) unknown es st) = Proven"
      using Cons.prems(1) by (simp add: b c Unsat u(1))
    from Cons.IH [OF this Cons.prems(2)] show ?thesis using b u(2) by (auto simp: holds_in_def)
  next
    case Unknown
    have "vr_status (prove_targets solve name k True es' w) \<noteq> Proven" for k es' w
      by (induction es' arbitrary: k w) (auto split: option.splits prod.splits SatResult.splits)
    then show ?thesis using Cons.prems(1) by (simp add: b c Unknown)
  next
    case Sat
    then show ?thesis using Cons.prems(1) by (simp add: b c)
  qed
qed (simp split: if_splits)

text \<open>
  C7: when the typestate context of a transition is reported as proven, the target invariants follow
  from the source invariants and the guards on all arguments of the parameter types: where those
  are true, each target invariant is true unless evaluating it traps.
\<close>

theorem proven_transition_correct:
  assumes sound: "solver_sound solve"
    and result: "vr_status (verify_typestate solve f ts (session_reset session)) = Proven"
    and params: "distinct (map fst (vf_params f))" "vals_fit args (param_types f)"
    and typed: "\<forall>e \<in> set (ts_target_invariants ts). expr_typed (param_typing f) e VtBool"
    and holds: "\<forall>e \<in> set (ts_source_invariants ts @ ts_transition_guards ts).
      veval fc (call_env args) e = VrVal (VvBool True)"
    and target: "e \<in> set (ts_target_invariants ts)"
  shows "veval fc (call_env args) e = VrVal (VvBool True) \<or> veval fc (call_env args) e = VrTrap"
proof -
  let ?st = "transition_start f (session_reset session)"
  have session: "healthy (session_reset session)" "asserted (session_reset session) = []"
    by (simp_all add: session_reset_def healthy_def asserted_def)
  note start = transition_start_sound [OF params session]
  obtain st where st: "assume_all (vf_id f) (ts_source_invariants ts @ ts_transition_guards ts) ?st = Ok st"
    and proved: "vr_status (prove_targets solve (vf_id f) 0 False (ts_target_invariants ts) st) = Proven"
    using result by (auto simp: verify_typestate_def dest: assume_all_status split: sum.splits)
  have ready: "ready (param_types f) None (zx_new f) (param_typing f) (call_env args) st"
    by (rule assume_all_sound [OF st start(2) holds])
  then have healthy: "healthy (vs_session st)" and x: "vs_ctx st = zx_new f" by (simp_all add: ready_def)
  from prove_targets_hold [OF sound proved healthy] target x
  obtain b where "encode_bool (zx_new f) e = Some b" "\<forall>m. holds_in m st \<longrightarrow> zb_val m b" by auto
  then show ?thesis using typed_post [OF start(1) ready] typed target by blast
qed

end
