(* ===== verification/Mimi_VirDemo.thy ===== *)
theory Mimi_VirDemo
  imports Mimi_VirSound
begin

text \<open>
  Concrete functions run through the verifier, with a small solver that finds a goal among the
  assertions: a proven division, and what the verifier reports where it is wrong.
\<close>

definition demo_solver :: solver where
  "demo_solver bs =
     (case rev bs of
        ZNot b # rest \<Rightarrow> Answers (b \<notin> set rest)
      | _ \<Rightarrow> Answers True)"

lemma demo_solver_sound: "solver_sound demo_solver"
  unfolding solver_sound_def
proof (intro allI impI notI)
  fix bs
  assume "demo_solver bs = Answers False"
  then obtain b rest where "rev bs = ZNot b # rest" "b \<in> set rest"
    by (auto simp: demo_solver_def split: list.splits zbool.splits)
  then have b: "ZNot b \<in> set bs" "b \<in> set bs" by (metis list.set_intros set_rev)+
  assume "\<exists>m. satisfies m bs"
  then obtain m where "\<forall>c \<in> set bs. zb_val m c" by (auto simp: satisfies_def list_all_iff)
  from bspec [OF this b(1)] bspec [OF this b(2)] show False by simp
qed

section \<open>A division\<close>

text \<open>\<open>func div(a: i32, b: i32) -> i32\<close> that requires a nonzero divisor and no overflow, with a local remainder.\<close>

definition safe_div :: VFunction where
  "safe_div = \<lparr>vf_id = ''div'', vf_params = [(0, VtI32, ''a''), (1, VtI32, ''b'')],
     vf_body =
       [VAssume (VBoolean VbAnd [VCompare VcNe (VVar 1) (VIntConst 0),
          VNot (VBoolean VbAnd [VCompare VcEq (VVar 0) (VIntConst (- 2147483648)),
            VCompare VcEq (VVar 1) (VIntConst (- 1))])]),
        VLet 2 (VArith VaMod (VVar 0) (VVar 1) VtI32),
        VReturn (VArith VaDiv (VVar 0) (VVar 1) VtI32)],
     vf_postconditions = [VCompare VcEq VResult (VArith VaDiv (VVar 0) (VVar 1) VtI32)],
     vf_typestate = None, vf_verified_attr = True\<rparr>"

definition safe_div_types :: "VarId \<rightharpoonup> VType" where
  "safe_div_types = [0 \<mapsto> VtI32, 1 \<mapsto> VtI32, 2 \<mapsto> VtI32]"

lemma safe_div_typed: "function_typed safe_div_types VtI32 safe_div"
  by (simp add: function_typed_def safe_div_def safe_div_types_def param_typing_def param_types_def in_width_def)

lemma safe_div_proven:
  "map_option vr_status (verify_vfunction demo_solver (\<lambda>_. []) safe_div ''div'' False False
     (session_reset (session_new 5000))) = Some Proven"
  by code_simp

definition div_args :: "VarId \<rightharpoonup> vval" where
  "div_args = [0 \<mapsto> VvInt (- 7), 1 \<mapsto> VvInt 2]"

lemma div_args_fit: "vals_fit div_args (param_types safe_div)"
  by (simp add: vals_fit_def div_args_def param_types_def safe_div_def in_width_def)

definition div_env :: venv where
  "div_env = \<lparr>ve_vars = div_args(2 \<mapsto> VvInt (- 1)), ve_old = div_args, ve_result = Some (VvInt (- 3))\<rparr>"

lemma safe_div_returns: "run_stmts fc (vf_body safe_div) (call_env div_args) = Returned div_env"
  by (simp add: safe_div_def call_env_def div_args_def div_env_def in_width_def lookup_val_def checked_def
      signed_divide_int_def signed_modulo_int_def eval_bool_cmp_def)

theorem proven_function_correct_witness:
  "veval (\<lambda>_ _ _. False) div_env (VCompare VcEq VResult (VArith VaDiv (VVar 0) (VVar 1) VtI32)) = VrVal (VvBool True)
   \<or> veval (\<lambda>_ _ _. False) div_env (VCompare VcEq VResult (VArith VaDiv (VVar 0) (VVar 1) VtI32)) = VrTrap"
proof -
  obtain r where r: "verify_vfunction demo_solver (\<lambda>_. []) safe_div ''div'' False False
      (session_reset (session_new 5000)) = Some r" "vr_status r = Proven"
    using safe_div_proven by auto
  from proven_function_correct [OF demo_solver_sound r safe_div_typed _ _ div_args_fit, of "\<lambda>_ _ _. False"]
  show ?thesis unfolding safe_div_returns by (simp add: safe_div_def)
qed

text \<open>The same function without its precondition is refused.\<close>

lemma unguarded_div_refused:
  "map_option (\<lambda>r. (vr_status r, vr_message r)) (verify_vfunction demo_solver (\<lambda>_. [])
     (safe_div\<lparr>vf_body := tl (vf_body safe_div)\<rparr>) ''div'' False False (session_reset (session_new 5000)))
   = Some (Disproven, ''integer operation is undefined (zero divisor or MIN / -1)'')"
  by code_simp

section \<open>A transition\<close>

definition move_fn :: VFunction where
  "move_fn = \<lparr>vf_id = ''move'', vf_params = [(0, VtI64, ''n'')], vf_body = [], vf_postconditions = [],
     vf_typestate = None, vf_verified_attr = False\<rparr>"

definition move_axioms :: TypestateAxioms where
  "move_axioms = \<lparr>ts_source_invariants = [VCompare VcLt (VIntConst 0) (VVar 0)],
     ts_transition_guards = [VCompare VcNe (VVar 0) (VIntConst 1)],
     ts_target_invariants = [VCompare VcLt (VIntConst 0) (VVar 0)]\<rparr>"

lemma move_proven: "vr_status (verify_typestate demo_solver move_fn move_axioms (session_reset (session_new 5000))) = Proven"
  by code_simp

theorem proven_transition_correct_witness:
  "veval (\<lambda>_ _ _. False) (call_env [0 \<mapsto> VvInt 7]) (VCompare VcLt (VIntConst 0) (VVar 0)) = VrVal (VvBool True)
   \<or> veval (\<lambda>_ _ _. False) (call_env [0 \<mapsto> VvInt 7]) (VCompare VcLt (VIntConst 0) (VVar 0)) = VrTrap"
  by (rule proven_transition_correct [OF demo_solver_sound move_proven])
    (simp_all add: move_fn_def move_axioms_def vals_fit_def param_types_def param_typing_def call_env_def
      in_width_def lookup_val_def)

section \<open>Where the verifier is wrong\<close>

text \<open>
  The definedness of the last expression of a function that returns \<open>bool\<close> is not checked:
  \<open>func f(x: i32) -> bool\<close> that requires \<open>x >= 0\<close> and returns \<open>10 / x == 10 / x\<close> is proven and traps
  on zero.
\<close>

definition traps_on_zero :: VFunction where
  "traps_on_zero = \<lparr>vf_id = ''f'', vf_params = [(0, VtI32, ''x'')],
     vf_body = [VAssume (VCompare VcGe (VVar 0) (VIntConst 0)),
       VReturn (VCompare VcEq (VArith VaDiv (VIntConst 10) (VVar 0) VtI32)
         (VArith VaDiv (VIntConst 10) (VVar 0) VtI32))],
     vf_postconditions = [], vf_typestate = None, vf_verified_attr = True\<rparr>"

lemma bool_return_unchecked:
  "map_option vr_status (verify_vfunction demo_solver (\<lambda>_. []) traps_on_zero ''f'' False True
     (session_reset (session_new 5000))) = Some Proven"
  "run_stmts fc (vf_body traps_on_zero) (call_env [0 \<mapsto> VvInt 0]) = Trapped"
  "function_typed (param_types traps_on_zero) VtBool traps_on_zero"
  subgoal by code_simp
  subgoal by (simp add: traps_on_zero_def call_env_def lookup_val_def in_width_def)
  subgoal by (simp add: traps_on_zero_def function_typed_def param_typing_def param_types_def in_width_def)
  done

text \<open>A statement behind a return still binds the result: \<open>return x; 0\<close> is proven to return zero.\<close>

definition returns_twice :: VFunction where
  "returns_twice = \<lparr>vf_id = ''g'', vf_params = [(0, VtI32, ''x'')],
     vf_body = [VReturn (VVar 0), VReturn (VIntConst 0)],
     vf_postconditions = [VCompare VcEq VResult (VIntConst 0)], vf_typestate = None, vf_verified_attr = True\<rparr>"

lemma code_after_return:
  "map_option vr_status (verify_vfunction demo_solver (\<lambda>_. []) returns_twice ''g'' False False
     (session_reset (session_new 5000))) = Some Proven"
  "run_stmts fc (vf_body returns_twice) (call_env [0 \<mapsto> VvInt 7])
   = Returned \<lparr>ve_vars = [0 \<mapsto> VvInt 7], ve_old = [0 \<mapsto> VvInt 7], ve_result = Some (VvInt 7)\<rparr>"
  subgoal by code_simp
  subgoal by (simp add: returns_twice_def call_env_def lookup_val_def)
  done

lemma returns_twice_untyped: "\<not> function_typed types rty returns_twice"
  by (simp add: function_typed_def returns_twice_def)

text \<open>
  A definedness query that runs into the time limit is reported as an unknown answer, not as the
  timeout that the session observed.
\<close>

lemma timeout_hidden:
  "map_option vr_status (verify_vfunction (\<lambda>_. GivesUp 6000) (\<lambda>_. []) safe_div ''div'' False False
     (session_reset (session_new 5000))) = Some SolverUnknown"
  "unknown_status (snd (check_scope (\<lambda>_. GivesUp 6000) (ZTruth True) (session_reset (session_new 5000)))) = Timeout"
  by code_simp+

end
