(* ===== verification/Spec2Isabelle.thy ===== *)
theory Spec2Isabelle
  imports Mimi_CompHandle Mimi_DataflowDemo Mimi_SessionCycle Mimi_WireLaws Mimi_Epoch Mimi_AbiCheck Mimi_UnifySound Mimi_RegexDemo Mimi_Phase Mimi_MirDemo Mimi_LexerDemo Mimi_VirDemo
begin

text \<open>
  A verification library for Mimi: the compiler front end, the middle-level representation, and the
  runtime and component boundary. Paths are relative to \<open>src/src/\<close> of the repository.

  \<^bold>\<open>How the parts interact.\<close> A source text is split into tokens (\<open>lexer/\<close>) and parsed into the tree of
  \<open>ast.rs\<close>. The type checker infers types with the unification table (\<open>core/unification.rs\<close>), hands
  them through phases (\<open>core/phase.rs\<close>) and checks session types (\<open>session.rs\<close>). The resource
  analysis builds a control-flow graph per callable (\<open>core/cfg/\<close>) and decides whether resources and
  loans are used well. The checked program is lowered to a canonical representation whose
  validators (\<open>core/mir/\<close>) stand between the lowering and the back ends. Functions with contracts are
  lowered to a verification IR and checked with an SMT solver (\<open>verifier/\<close>). Compiled components talk
  to other languages through an ABI description, a wire format and handles (\<open>component/\<close>), and
  run on a runtime library (\<open>runtime/\<close>).

  \<^bold>\<open>Conventions.\<close> A struct is a record, an enum a datatype with the constructors of the source, a
  method a function that returns the changed receiver. \<open>Result\<close> is a sum with \<open>Ok\<close> and \<open>Err\<close>, panics
  are values of their own. \<open>BTreeMap\<close> and \<open>BTreeSet\<close> are sorted association lists
  (\<open>Mimi_BTree\<close>), \<open>HashMap\<close> is a map, machine integers are words unless a range check makes a
  natural number enough. Loops that may not end are partial functions, and that they end is a theorem.

  \<^bold>\<open>Theories.\<close>
  \<^item> \<open>Mimi_Prelude\<close>, \<open>Mimi_BTree\<close>, \<open>Mimi_Bytes\<close>: what the components share.
  \<^item> \<open>Mimi_Token\<close>, \<open>Mimi_Lexer\<close>, \<open>Mimi_LexerFlow\<close>: tokens, scanners and the state machine of
    \<open>lexer/flow.rs\<close>. \<open>Mimi_LexerReads\<close>, \<open>Mimi_LexerLaws\<close>, \<open>Mimi_LexerRuns\<close>: every token is spelled by the
    characters between its positions, tokens and trivia make up the source, the layout tokens are
    balanced, and the lexer returns. \<open>Mimi_LexerProps\<close>, \<open>Mimi_LexerNumbers\<close>, \<open>Mimi_LexerDemo\<close>: string
    literals, operators, digit separators, and runs on concrete sources.
  \<^item> \<open>Mimi_Ast\<close>, \<open>Mimi_AstTypes\<close>, \<open>Mimi_Fold\<close>: the type tree of \<open>ast.rs\<close>, its equality and re-anchoring, and
    the traversals and folders of \<open>core/type_folder.rs\<close>.
  \<^item> \<open>Mimi_Unify\<close> and the theories \<open>Mimi_UnifyRun\<close> to \<open>Mimi_UnifySound\<close>: the unification table. One locale
    follows a relation through every operation; its interpretations give the undo trail, the
    forest of parents and the progress measure. Unification carries a fuel; \<open>settles\<close> says that from
    some fuel on the answer stays, and that such a fuel exists is proved for every table.
  \<^item> \<open>Mimi_Phase\<close>: the phases of a type and type schemes.
  \<^item> \<open>Mimi_Session\<close>, \<open>Mimi_SessionRun\<close>, \<open>Mimi_SessionCycle\<close>: duals, resolution, the order checker and
    cycle detection of \<open>session.rs\<close>, against protocols as (possibly infinite) traces.
  \<^item> \<open>Mimi_Cfg\<close>, \<open>Mimi_CfgValidate\<close>, \<open>Mimi_Liveness\<close>, \<open>Mimi_Transfer\<close>, \<open>Mimi_Dataflow\<close>: the graph, its
    validator, liveness and \<open>analyze_canonical\<close>. \<open>Mimi_Paths\<close> is the abstract specification (what a path
    does to resources and loans), \<open>Mimi_DataflowSound\<close> the proof that an accepted analysis refines
    it, on graphs without an edge into the entry, \<open>Mimi_LoanEnds\<close> where loans end, \<open>Mimi_DataflowDemo\<close> one
    callable run through all of it, and where the analysis accepts too much.
  \<^item> \<open>Mimi_MirTypes\<close>, \<open>Mimi_Mir\<close>, \<open>Mimi_MirFn\<close>, \<open>Mimi_MirDesc\<close>: the data of the canonical representation and its
    type descriptors. \<open>Mimi_MirValidate\<close>, \<open>Mimi_MirDominance\<close>, \<open>Mimi_MirOwnership\<close>: the structural
    validator; \<open>Mimi_MirChecks\<close>, \<open>Mimi_MirDomLaws\<close>, \<open>Mimi_MirSafe\<close>: what acceptance means along every walk.
    \<open>Mimi_MirLinear\<close>, \<open>Mimi_MirLinearLaws\<close>: the consumption pass of \<open>core/mir/reference.rs\<close>. \<open>Mimi_MirDemo\<close>:
    concrete functions.
  \<^item> \<open>Mimi_Smt\<close>, \<open>Mimi_Vir\<close>, \<open>Mimi_VirEncode\<close>, \<open>Mimi_VirVerify\<close>: the solver session of \<open>verifier/ctx.rs\<close> with
    terms over integers and truth values, the verification IR and its encoding of
    \<open>verifier/vir.rs\<close>, and the checking of a function and of a transition in \<open>verifier/func.rs\<close>.
    \<open>Mimi_VirEval\<close> says what the IR means, \<open>Mimi_VirValues\<close> that terms and obligations have that meaning,
    \<open>Mimi_VirSound\<close> that what is reported as proven is so; \<open>Mimi_VirDemo\<close> runs functions through the
    verifier, also where it is wrong.
  \<^item> \<open>Mimi_CompHandle\<close>, \<open>Mimi_Wire\<close>, \<open>Mimi_WireLaws\<close>, \<open>Mimi_Abi\<close>, \<open>Mimi_AbiFile\<close>, \<open>Mimi_AbiCheck\<close>: the component
    boundary: handles with generations against a table of live handles, the wire codecs, the
    ABI description with the names it gives to C, its file form, its diff and the layout probe.
  \<^item> \<open>Mimi_Epoch\<close>, \<open>Mimi_Regex\<close>, \<open>Mimi_RegexLaws\<close>, \<open>Mimi_RegexDemo\<close>: the epochs of escaped flow values and the
    regular expressions of the runtime, against the language of a pattern.

  \<^bold>\<open>Bounds.\<close> The depth of an f-string, of block comments, of wire types, of regular expressions and of
  type resolution is bounded by the constants of the code, and reaching them is a branch of the
  model. The only fuel that is not in the code is that of unification (see above).

  \<^bold>\<open>Not modelled.\<close> Everything that produces text or code for another tool (\<open>codegen/\<close>, the C, Rust and
  JavaScript generators of \<open>component/\<close>), the parser and the statement and expression checker,
  the lowering between the representations, the bytecode machine of \<open>interp/\<close>, the lowering
  to the verification IR and the other engines of \<open>verifier/\<close>, the language server, the command line, the package
  manager, and the runtime functions that are I/O or memory management. The SMT solver, floating-point arithmetic,
  Unicode tables, JSON and hashing are libraries and appear as parameters where the code relies on them.
  The components and their status are listed in the manifest.
\<close>

end
